(* ===== verification/Uri.thy ===== *)
theory Uri
  imports Prelude
begin

text \<open>
  Percent-encoding: the standard functions \<open>encodeURIComponent\<close> and
  \<open>decodeURIComponent\<close> on strings given by their UTF-8 bytes, and the path helpers of
  \<open>browser/utils.js\<close> built on them. A string is well formed (\<open>utf8_wf\<close>) when its
  bytes are valid UTF-8; JavaScript strings with lone surrogates have no such bytes and are
  outside the model.
\<close>

section \<open>Bytes and hexadecimal digits\<close>

abbreviation byte :: "char \<Rightarrow> nat" where
  "byte c \<equiv> of_char c"

definition hex_char :: "nat \<Rightarrow> char" where
  "hex_char n = (if n < 10 then char_of (48 + n) else char_of (55 + n))"

definition hex_val :: "char \<Rightarrow> nat option" where
  "hex_val c = (let n = byte c in
     if 48 \<le> n \<and> n \<le> 57 then Some (n - 48)
     else if 65 \<le> n \<and> n \<le> 70 then Some (n - 55)
     else if 97 \<le> n \<and> n \<le> 102 then Some (n - 87)
     else None)"

text \<open>The characters \<open>encodeURIComponent\<close> copies unchanged.\<close>

definition unreserved :: "char \<Rightarrow> bool" where
  "unreserved c \<longleftrightarrow> (let n = byte c in
     (65 \<le> n \<and> n \<le> 90) \<or> (97 \<le> n \<and> n \<le> 122) \<or> (48 \<le> n \<and> n \<le> 57)) \<or>
     c \<in> set ''-_.!~*()'' \<or> byte c = 39"

definition escape :: "char \<Rightarrow> string" where
  "escape c = [CHR ''%'', hex_char (byte c div 16), hex_char (byte c mod 16)]"

definition encode_byte :: "char \<Rightarrow> string" where
  "encode_byte c = (if unreserved c then [c] else escape c)"

definition encodeURIComponent :: "string \<Rightarrow> string" where
  "encodeURIComponent s = concat (map encode_byte s)"

text \<open>Number of continuation bytes a lead byte announces; \<open>None\<close> for an invalid lead byte.\<close>

definition utf8_more :: "char \<Rightarrow> nat option" where
  "utf8_more c = (let n = byte c in
     if n < 128 then Some 0
     else if 194 \<le> n \<and> n \<le> 223 then Some 1
     else if 224 \<le> n \<and> n \<le> 239 then Some 2
     else if 240 \<le> n \<and> n \<le> 244 then Some 3
     else None)"

text \<open>Continuation bytes, no overlong form, no surrogate, nothing beyond U+10FFFF.\<close>

definition utf8_tail :: "char \<Rightarrow> string \<Rightarrow> bool" where
  "utf8_tail c bs \<longleftrightarrow>
     list_all (\<lambda>b. 128 \<le> byte b \<and> byte b < 192) bs \<and>
     (byte c = 224 \<longrightarrow> 160 \<le> byte (hd bs)) \<and>
     (byte c = 237 \<longrightarrow> byte (hd bs) < 160) \<and>
     (byte c = 240 \<longrightarrow> 144 \<le> byte (hd bs)) \<and>
     (byte c = 244 \<longrightarrow> byte (hd bs) < 144)"

function (sequential) utf8_wf :: "string \<Rightarrow> bool" where
  "utf8_wf [] = True"
| "utf8_wf (c # s) = (case utf8_more c of
       None \<Rightarrow> False
     | Some n \<Rightarrow> n \<le> length s \<and> utf8_tail c (take n s) \<and> utf8_wf (drop n s))"
  by pat_completeness auto
termination
  by (relation "measure length") auto

section \<open>Decoding\<close>

text \<open>Read \<open>n\<close> consecutive escapes.\<close>

fun read_escapes :: "nat \<Rightarrow> string \<Rightarrow> (string \<times> string) option" where
  "read_escapes 0 s = Some ([], s)"
| "read_escapes (Suc n) (p # a # b # s) =
     (if p = CHR ''%'' then
        (case (hex_val a, hex_val b) of
           (Some x, Some y) \<Rightarrow>
             map_option (\<lambda>(bs, r). (char_of (16 * x + y) # bs, r)) (read_escapes n s)
         | _ \<Rightarrow> None)
      else None)"
| "read_escapes (Suc n) _ = None"

lemma read_escapes_length:
  "read_escapes n s = Some (bs, r) \<Longrightarrow> length s = 3 * n + length r \<and> length bs = n"
  by (induction n s arbitrary: bs r rule: read_escapes.induct)
    (auto split: if_splits option.splits prod.splits)

lemma read_escapes_Suc_length:
  "read_escapes (Suc n) s = Some (bs, r) \<Longrightarrow> length r < length s"
  using read_escapes_length [of "Suc n" s bs r] by simp

text \<open>
  \<open>None\<close> is the \<open>URIError\<close>. An escape below 128 stands for itself; a larger one must be a
  lead byte followed by the escapes of its continuation bytes.
\<close>

function (sequential) decodeURIComponent :: "string \<Rightarrow> string option" where
  "decodeURIComponent [] = Some []"
| "decodeURIComponent (c # s) =
     (if c \<noteq> CHR ''%'' then map_option (Cons c) (decodeURIComponent s)
      else (case read_escapes 1 (c # s) of
         None \<Rightarrow> None
       | Some (bs, r) \<Rightarrow>
           (case utf8_more (hd bs) of
              None \<Rightarrow> None
            | Some 0 \<Rightarrow> map_option (Cons (hd bs)) (decodeURIComponent r)
            | Some (Suc n) \<Rightarrow>
                (case read_escapes (Suc n) r of
                   None \<Rightarrow> None
                 | Some (cs, r') \<Rightarrow>
                     if utf8_tail (hd bs) cs
                     then map_option (\<lambda>t. hd bs # cs @ t) (decodeURIComponent r')
                     else None))))"
  by pat_completeness auto
termination
  by (relation "measure length")
    (auto dest!: read_escapes_Suc_length simp del: read_escapes.simps simp: One_nat_def)

declare decodeURIComponent.simps [simp del]

section \<open>Path helpers\<close>

text \<open>\<open>s.replaceAll(p, r)\<close> for a non-empty pattern: non-overlapping matches, left to right.\<close>

function replace_all :: "string \<Rightarrow> string \<Rightarrow> string \<Rightarrow> string" where
  "replace_all p r s =
     (case s of
        [] \<Rightarrow> []
      | c # s' \<Rightarrow> if p \<noteq> [] \<and> starts_with p s then r @ replace_all p r (drop (length p) s)
                 else c # replace_all p r s')"
  by pat_completeness auto
termination
  by (relation "measure (\<lambda>(p, r, s). length s)") (auto simp: starts_with_def)

declare replace_all.simps [simp del]

lemma replace_all_Nil [simp]: "replace_all p r [] = []"
  by (subst replace_all.simps) simp

lemma replace_all_Cons:
  "replace_all p r (c # s) = (if p \<noteq> [] \<and> starts_with p (c # s)
     then r @ replace_all p r (drop (length p) (c # s)) else c # replace_all p r s)"
  by (subst replace_all.simps) simp

definition encodePathSegment :: "string \<Rightarrow> string" where
  "encodePathSegment segment = replace_all ''%2B'' ''+'' (encodeURIComponent segment)"

definition encodeRelativePath :: "string \<Rightarrow> string" where
  "encodeRelativePath path =
     join ''/'' (map encodePathSegment (filter (\<lambda>part. part \<noteq> []) (split_on CHR ''/'' path)))"

definition decodePathSegment :: "string \<Rightarrow> string" where
  "decodePathSegment segment =
     (case decodeURIComponent segment of Some s \<Rightarrow> s | None \<Rightarrow> segment)"

definition breadcrumbPathParts :: "string \<Rightarrow> string \<Rightarrow> string list" where
  "breadcrumbPathParts path fmt =
     (let parts = filter (\<lambda>part. part \<noteq> []) (split_on CHR ''/'' path) in
      if fmt = ''docker'' \<and> length parts > 1 then [parts ! 0, join ''/'' (drop 1 parts)]
      else if fmt = ''npm'' \<and> length parts > 2 \<and> decodePathSegment (parts ! 1) = ''packages''
      then [parts ! 0, parts ! 1, join ''/'' (drop 2 parts)]
      else parts)"

section \<open>Round trips\<close>

lemma hex_val_hex_char [simp]: "n < 16 \<Longrightarrow> hex_val (hex_char n) = Some n"
  by (auto simp: hex_val_def hex_char_def Let_def)

lemma hex_char_not_percent: "n < 16 \<Longrightarrow> hex_char n \<noteq> CHR ''%''"
proof
  assume "n < 16" and "hex_char n = CHR ''%''"
  then have "hex_val (CHR ''%'') = Some n" by (metis hex_val_hex_char)
  then show False by (simp add: hex_val_def)
qed

lemma byte_split: "char_of (16 * (byte c div 16) + byte c mod 16) = c"
  by (simp add: mult.commute)

lemma byte_div_16: "byte c div 16 < 16"
  using nat_of_char_less_256 [of c] by (intro less_mult_imp_div_less) simp

lemma read_escape [simp]:
  "read_escapes (Suc n) (escape c @ s) = map_option (\<lambda>(bs, r). (c # bs, r)) (read_escapes n s)"
  by (simp add: escape_def byte_div_16 byte_split del: char_of_nat)

lemma unreserved_ascii: "unreserved c \<Longrightarrow> byte c < 128"
  by (auto simp: unreserved_def Let_def)

lemma unreserved_not_percent: "unreserved c \<Longrightarrow> c \<noteq> CHR ''%''"
  by (auto simp: unreserved_def Let_def)

lemma read_escapes_tail:
  "list_all (\<lambda>b. 128 \<le> byte b \<and> byte b < 192) bs \<Longrightarrow>
   read_escapes (length bs) (encodeURIComponent bs @ s) = Some (bs, s)"
proof (induction bs)
  case Nil
  then show ?case by (simp add: encodeURIComponent_def)
next
  case (Cons b bs)
  then have "\<not> unreserved b" using unreserved_ascii [of b] by auto
  with Cons show ?case
    by (simp add: encodeURIComponent_def encode_byte_def del: read_escapes.simps)
qed

lemma encode_append [simp]:
  "encodeURIComponent (a @ b) = encodeURIComponent a @ encodeURIComponent b"
  by (simp add: encodeURIComponent_def)

lemma encode_Cons: "encodeURIComponent (c # s) = encode_byte c @ encodeURIComponent s"
  by (simp add: encodeURIComponent_def)

lemma decode_plain: "c \<noteq> CHR ''%'' \<Longrightarrow>
  decodeURIComponent (c # s) = map_option (Cons c) (decodeURIComponent s)"
  by (simp add: decodeURIComponent.simps)

lemma decode_escape:
  "decodeURIComponent (escape c @ r) =
     (case utf8_more c of
        None \<Rightarrow> None
      | Some 0 \<Rightarrow> map_option (Cons c) (decodeURIComponent r)
      | Some (Suc n) \<Rightarrow>
          (case read_escapes (Suc n) r of
             None \<Rightarrow> None
           | Some (cs, r') \<Rightarrow>
               if utf8_tail c cs then map_option (\<lambda>t. c # cs @ t) (decodeURIComponent r') else None))"
proof -
  obtain t where t: "escape c @ r = CHR ''%'' # t" by (simp add: escape_def)
  have e: "read_escapes 1 (CHR ''%'' # t) = Some ([c], r)"
    unfolding t [symmetric] One_nat_def by (simp only: read_escape) simp
  show ?thesis unfolding t by (subst decodeURIComponent.simps(2)) (simp only: e option.case prod.case
      list.sel if_False simp_thms)
qed

lemma decode_escape_ascii: "byte c < 128 \<Longrightarrow>
  decodeURIComponent (escape c @ s) = map_option (Cons c) (decodeURIComponent s)"
proof -
  assume c: "byte c < 128"
  have "utf8_more c = Some 0" using c by (simp add: utf8_more_def)
  then show ?thesis using decode_escape [of c s] by simp
qed

lemma decode_escape_multi:
  assumes "utf8_more c = Some (Suc n)" "read_escapes (Suc n) r = Some (cs, r')" "utf8_tail c cs"
  shows "decodeURIComponent (escape c @ r) = map_option (\<lambda>t. c # cs @ t) (decodeURIComponent r')"
proof -
  show ?thesis using assms decode_escape [of c r] by simp
qed

text \<open>
  The two standard functions are inverse on well-formed strings. The lemma is stated for any
  encoder that writes every byte either literally, when it is ASCII and no percent sign, or as
  its escape, so that it covers \<open>encodePathSegment\<close> too.
\<close>

definition faithful_encoder :: "(char \<Rightarrow> string) \<Rightarrow> bool" where
  "faithful_encoder f \<longleftrightarrow>
     (\<forall>c. f c = escape c \<or> (f c = [c] \<and> c \<noteq> CHR ''%'' \<and> byte c < 128))"

lemma read_escapes_encoder:
  "faithful_encoder f \<Longrightarrow> list_all (\<lambda>b. 128 \<le> byte b \<and> byte b < 192) bs \<Longrightarrow>
   read_escapes (length bs) (concat (map f bs) @ s) = Some (bs, s)"
proof (induction bs)
  case Nil
  then show ?case by simp
next
  case (Cons b bs)
  then have "f b = escape b" unfolding faithful_encoder_def by fastforce
  with Cons show ?case by (simp del: read_escapes.simps)
qed

lemma decode_encoder:
  assumes f: "faithful_encoder f" and "utf8_wf s"
  shows "decodeURIComponent (concat (map f s)) = Some s"
  using assms(2)
proof (induction s rule: utf8_wf.induct)
  case 1
  then show ?case by (simp add: decodeURIComponent.simps)
next
  case (2 c s)
  then obtain n where n: "utf8_more c = Some n" and len: "n \<le> length s"
    and tail: "utf8_tail c (take n s)" and wf: "utf8_wf (drop n s)"
    by (auto split: option.splits)
  from "2.IH" [OF n] wf have IH: "decodeURIComponent (concat (map f (drop n s))) = Some (drop n s)"
    by simp
  show ?case
  proof (cases n)
    case 0
    with n have "byte c < 128" by (auto simp: utf8_more_def Let_def split: if_splits)
    with IH 0 f show ?thesis
      by (cases "f c = escape c") (auto simp: faithful_encoder_def decode_plain decode_escape_ascii)
  next
    case (Suc m)
    with n have "\<not> byte c < 128" by (auto simp: utf8_more_def Let_def split: if_splits)
    with f have fc: "f c = escape c" by (auto simp: faithful_encoder_def)
    have all: "list_all (\<lambda>b. 128 \<le> byte b \<and> byte b < 192) (take n s)"
      using tail by (simp add: utf8_tail_def)
    have r: "read_escapes (Suc m) (concat (map f (take n s)) @ concat (map f (drop n s))) =
        Some (take n s, concat (map f (drop n s)))"
      using read_escapes_encoder [OF f all] len Suc by simp
    have "concat (map f (take n s)) @ concat (map f (drop n s)) = concat (map f s)"
      by (metis append_take_drop_id concat_append map_append)
    with r have "read_escapes (Suc m) (concat (map f s)) =
        Some (take n s, concat (map f (drop n s)))" by simp
    with decode_escape_multi [OF _ this tail] n Suc IH fc show ?thesis by simp
  qed
qed

lemma faithful_encode_byte: "faithful_encoder encode_byte"
  by (auto simp: faithful_encoder_def encode_byte_def unreserved_ascii unreserved_not_percent)

definition segment_byte :: "char \<Rightarrow> string" where
  "segment_byte c = (if c = CHR ''+'' then ''+'' else encode_byte c)"

lemma faithful_segment_byte: "faithful_encoder segment_byte"
  using faithful_encode_byte by (auto simp: faithful_encoder_def segment_byte_def)

lemma escape_eq_2B: "escape c = ''%2B'' \<longleftrightarrow> c = CHR ''+''"
proof
  assume "escape c = ''%2B''"
  then have "hex_char (byte c div 16) = CHR ''2''" "hex_char (byte c mod 16) = CHR ''B''"
    by (simp_all add: escape_def)
  then have "Some (byte c div 16) = hex_val (CHR ''2'')" "Some (byte c mod 16) = hex_val (CHR ''B'')"
    using hex_val_hex_char byte_div_16 by (metis mod_less_divisor zero_less_numeral)+
  then have "byte c div 16 = 2" "byte c mod 16 = 11" by (simp_all add: hex_val_def)
  then have "byte c = byte (CHR ''+'')" using div_mult_mod_eq [of "byte c" 16] by simp
  then show "c = CHR ''+''" by (simp only: of_char_eq_iff)
next
  assume "c = CHR ''+''"
  then show "escape c = ''%2B''" by (simp add: escape_def hex_char_def char_of_def bit_iff_odd)
qed

lemma encodePathSegment_eq: "encodePathSegment s = concat (map segment_byte s)"
proof -
  have "replace_all ''%2B'' ''+'' (encodeURIComponent s) = concat (map segment_byte s)"
  proof (induction s)
    case Nil
    then show ?case by (simp add: encodeURIComponent_def)
  next
    case (Cons c s)
    show ?case
    proof (cases "unreserved c")
      case True
      then have "c \<noteq> CHR ''%''" "c \<noteq> CHR ''+''"
        by (auto simp: unreserved_def Let_def)
      with Cons True show ?thesis
        by (simp add: encode_Cons encode_byte_def segment_byte_def replace_all_Cons)
    next
      case False
      let ?a = "hex_char (byte c div 16)" and ?b = "hex_char (byte c mod 16)"
      have ne: "?a \<noteq> CHR ''%''" "?b \<noteq> CHR ''%''"
        by (simp_all add: hex_char_not_percent byte_div_16)
      have iff: "?a = CHR ''2'' \<and> ?b = CHR ''B'' \<longleftrightarrow> c = CHR ''+''"
        using escape_eq_2B [of c] by (auto simp: escape_def)
      show ?thesis
      proof (cases "c = CHR ''+''")
        case True
        with iff Cons False show ?thesis
          by (simp add: encode_Cons encode_byte_def segment_byte_def replace_all_Cons escape_def)
      next
        case False
        with iff ne Cons \<open>\<not> unreserved c\<close> show ?thesis
          by (auto simp: encode_Cons encode_byte_def segment_byte_def replace_all_Cons escape_def)
      qed
    qed
  qed
  then show ?thesis by (simp add: encodePathSegment_def)
qed

lemma decode_encode_component: "utf8_wf s \<Longrightarrow> decodeURIComponent (encodeURIComponent s) = Some s"
  unfolding encodeURIComponent_def by (rule decode_encoder [OF faithful_encode_byte])

lemma decode_encode_segment: "utf8_wf s \<Longrightarrow> decodePathSegment (encodePathSegment s) = s"
  by (simp add: decodePathSegment_def encodePathSegment_eq decode_encoder [OF faithful_segment_byte])

lemma hex_char_not_slash: "n < 16 \<Longrightarrow> hex_char n \<noteq> CHR ''/''"
proof
  assume "n < 16" and "hex_char n = CHR ''/''"
  then have "hex_val (CHR ''/'') = Some n" by (metis hex_val_hex_char)
  then show False by (simp add: hex_val_def)
qed

lemma encodePathSegment_no_slash: "CHR ''/'' \<notin> set (encodePathSegment s)"
proof -
  have "CHR ''/'' \<notin> set (segment_byte c)" for c
    by (auto simp: segment_byte_def encode_byte_def escape_def unreserved_def Let_def
        hex_char_not_slash [OF byte_div_16, THEN not_sym] hex_char_not_slash [THEN not_sym])
  then show ?thesis by (auto simp: encodePathSegment_eq)
qed

lemma encodePathSegment_nonempty: "encodePathSegment s = [] \<longleftrightarrow> s = []"
  by (cases s) (auto simp: encodePathSegment_eq segment_byte_def encode_byte_def escape_def)

lemma utf8_wf_ascii: "list_all (\<lambda>c. byte c < 128) s \<Longrightarrow> utf8_wf s"
  by (induction s) (auto simp: utf8_more_def utf8_tail_def)

lemma utf8_wf_ascii_split:
  "utf8_wf (a @ c # b) \<Longrightarrow> byte c < 128 \<Longrightarrow> utf8_wf a \<and> utf8_wf b"
proof (induction a rule: utf8_wf.induct)
  case 1
  then show ?case by (auto simp: utf8_more_def)
next
  case (2 x a)
  then obtain n where n: "utf8_more x = Some n" and len: "n \<le> length (a @ c # b)"
    and tail: "utf8_tail x (take n (a @ c # b))" and wf: "utf8_wf (drop n (a @ c # b))"
    by (auto split: option.splits)
  have le: "n \<le> length a"
  proof (rule ccontr)
    assume "\<not> n \<le> length a"
    then have "c \<in> set (take n (a @ c # b))"
      by (cases "n - length a") auto
    moreover have "\<forall>d\<in>set (take n (a @ c # b)). 128 \<le> byte d"
      using tail by (simp only: utf8_tail_def list_all_iff) blast
    ultimately show False using "2.prems"(2) by (meson not_le)
  qed
  with wf have "utf8_wf (drop n a @ c # b)" by simp
  with "2.IH" [OF n] "2.prems"(2) have "utf8_wf (drop n a) \<and> utf8_wf b" by blast
  with n le tail show ?case by simp
qed

lemma utf8_wf_split_on:
  "utf8_wf s \<Longrightarrow> byte c < 128 \<Longrightarrow> p \<in> set (split_on c s) \<Longrightarrow> utf8_wf p"
proof (induction s rule: length_induct)
  case (1 s)
  show ?case
  proof (cases "c \<in> set s")
    case False
    with 1 show ?thesis by (simp add: split_on_single)
  next
    case True
    then obtain a b where s: "s = a @ c # b" and a: "c \<notin> set a" by (meson split_list_first)
    with utf8_wf_ascii_split [of a c b] "1.prems" have wf: "utf8_wf a" "utf8_wf b" by auto
    from s a "1.prems"(3) have "p = a \<or> p \<in> set (split_on c b)" by (simp add: split_on_append)
    moreover have "length b < length s" using s by simp
    ultimately show ?thesis using wf "1.IH" "1.prems"(2) by blast
  qed
qed

lemma filter_nonempty_map:
  "(\<And>x. f x = [] \<longleftrightarrow> x = []) \<Longrightarrow> filter (\<lambda>p. p \<noteq> []) (map f xs) = map f (filter (\<lambda>p. p \<noteq> []) xs)"
  by (induction xs) auto

section \<open>Properties\<close>

text \<open>
  A repository path survives encoding: splitting the result of \<open>encodeRelativePath\<close> at the
  slashes and decoding every segment gives back the non-empty segments of the path.
\<close>

theorem encodeRelativePath_roundtrip:
  assumes "utf8_wf path"
  shows "map decodePathSegment
      (filter (\<lambda>part. part \<noteq> []) (split_on CHR ''/'' (encodeRelativePath path))) =
    filter (\<lambda>part. part \<noteq> []) (split_on CHR ''/'' path)"
proof -
  define parts where "parts = filter (\<lambda>part. part \<noteq> []) (split_on CHR ''/'' path)"
  have wf: "\<forall>p\<in>set parts. utf8_wf p"
    using utf8_wf_split_on [OF assms, of "CHR ''/''"] by (auto simp: parts_def)
  have enc: "encodeRelativePath path = join ''/'' (map encodePathSegment parts)"
    by (simp add: encodeRelativePath_def parts_def)
  show ?thesis
  proof (cases "parts = []")
    case True
    with enc show ?thesis by (simp add: parts_def [symmetric])
  next
    case False
    then have "split_on CHR ''/'' (encodeRelativePath path) = map encodePathSegment parts"
      unfolding enc by (intro split_join) (auto simp: encodePathSegment_no_slash)
    moreover have "filter (\<lambda>part. part \<noteq> []) (map encodePathSegment parts) = map encodePathSegment parts"
      by (auto simp: filter_id_conv encodePathSegment_nonempty parts_def)
    moreover have "map decodePathSegment (map encodePathSegment parts) = parts"
      using wf by (induction parts) (auto simp: decode_encode_segment)
    ultimately show ?thesis by (simp add: parts_def [symmetric])
  qed
qed

theorem encodeRelativePath_roundtrip_witness:
  "utf8_wf ''a b//1.2+3'' \<and> map decodePathSegment
      (filter (\<lambda>part. part \<noteq> []) (split_on CHR ''/'' (encodeRelativePath ''a b//1.2+3''))) =
    [''a b'', ''1.2+3'']"
proof -
  have h: "utf8_wf ''a b//1.2+3''" by (simp add: utf8_more_def utf8_tail_def)
  show ?thesis using h encodeRelativePath_roundtrip [OF h] by simp
qed

text \<open>
  breadcrumbs lose nothing: for every format the parts, joined with slashes, are the path
  with its empty segments removed, and a Docker route never has more than two parts.
\<close>

theorem breadcrumbPathParts_lossless:
  "join ''/'' (breadcrumbPathParts path fmt) =
     join ''/'' (filter (\<lambda>part. part \<noteq> []) (split_on CHR ''/'' path)) \<and>
   (fmt = ''docker'' \<longrightarrow> length (breadcrumbPathParts path fmt) \<le> 2)"
proof -
  define parts where "parts = filter (\<lambda>part. part \<noteq> []) (split_on CHR ''/'' path)"
  have two: "join ''/'' [parts ! 0, join ''/'' (drop 1 parts)] = join ''/'' parts" if "length parts > 1"
    using that by (cases parts; cases "tl parts") auto
  have three: "join ''/'' [parts ! 0, parts ! 1, join ''/'' (drop 2 parts)] = join ''/'' parts"
    if "length parts > 2"
    using that by (cases parts; cases "tl parts"; cases "tl (tl parts)") auto
  show ?thesis
    unfolding breadcrumbPathParts_def parts_def [symmetric] Let_def
    using two three by auto
qed

theorem breadcrumbPathParts_lossless_witness:
  "join ''/'' (breadcrumbPathParts ''hub/library/nginx'' ''docker'') = ''hub/library/nginx'' \<and>
   length (breadcrumbPathParts ''hub/library/nginx'' ''docker'') \<le> 2"
  using breadcrumbPathParts_lossless [of "''hub/library/nginx''" "''docker''"] by simp

end
