(* ===== verification/Chunked_Upload.thy ===== *)
theory Chunked_Upload
  imports Uri
begin

text \<open>
  The multi-part uploader \<open>chunked-upload.js\<close>: part sizing, the upload session, the
  concurrent workers with their retries, progress reporting, and the completion or abort of
  the session.

  JavaScript runs one task at a time, so the workers interleave only where they await. A
  worker is therefore a value \<open>worker\<close> that says which await it is suspended in, and every
  resumption (a finished sleep, an answer to a PUT) together with the events of the browser
  (an abort signal, a progress event, an animation frame) is one \<open>event\<close>. The function
  \<open>exec\<close> runs the code from that resumption to the next await. Server answers, the order of
  events and the moment of an abort are arbitrary.
\<close>

section \<open>Part sizes and worker counts\<close>

definition CHUNK_THRESHOLD :: nat where "CHUNK_THRESHOLD = 8 * 1024 * 1024"
definition PREFERRED_CHUNK_SIZE :: nat where "PREFERRED_CHUNK_SIZE = 4 * 1024 * 1024"
definition MAX_CHUNK_SIZE :: nat where "MAX_CHUNK_SIZE = 32 * 1024 * 1024"
definition CHUNK_MAX_RETRIES :: nat where "CHUNK_MAX_RETRIES = 3"
definition CHUNK_RETRY_BASE_MS :: nat where "CHUNK_RETRY_BASE_MS = 400"

text \<open>The argument is the size of the file, \<open>None\<close> for a missing file.\<close>

fun shouldUseChunkedUpload :: "nat option \<Rightarrow> bool" where
  "shouldUseChunkedUpload None = False"
| "shouldUseChunkedUpload (Some sz) = (CHUNK_THRESHOLD \<le> sz)"

text \<open>\<open>Number(x) || 0\<close>: \<open>None\<close> is a value that is not a number.\<close>

fun number_or_0 :: "int option \<Rightarrow> int" where
  "number_or_0 None = 0"
| "number_or_0 (Some n) = n"

definition suggestChunkSize :: "int option \<Rightarrow> nat" where
  "suggestChunkSize fileSize =
     (let sz = number_or_0 fileSize in
      if sz \<le> 0 then PREFERRED_CHUNK_SIZE
      else if sz \<le> 8 * 1024 * 1024 then nat sz
      else if sz \<le> 32 * 1024 * 1024 then 4 * 1024 * 1024
      else if sz \<le> 128 * 1024 * 1024 then 8 * 1024 * 1024
      else if sz \<le> 512 * 1024 * 1024 then 16 * 1024 * 1024
      else if sz \<le> 2 * 1024 * 1024 * 1024 then 24 * 1024 * 1024
      else MAX_CHUNK_SIZE)"

definition suggestConcurrency :: "int option \<Rightarrow> int option \<Rightarrow> nat" where
  "suggestConcurrency fileSize chunkCount =
     (let n = nat (number_or_0 chunkCount) in
      if n \<le> 1 then 1
      else (let sz = number_or_0 fileSize;
                limit = (if sz < 32 * 1024 * 1024 then 3
                         else if sz < 256 * 1024 * 1024 then 5 else 6)
            in min limit n))"

section \<open>State\<close>

datatype chunk_status = Pending | Uploading | Done | Error | Retrying

record chunk =
  ch_index :: nat
  ch_loaded :: nat
  ch_total :: nat
  ch_status :: chunk_status
  ch_attempt :: nat

text \<open>
  An error object: its message and the properties \<open>Object.assign\<close> puts on it; an absent
  text or code is the empty string, an absent body \<open>None\<close>. A parsed JSON body is
  represented by the text it was parsed from.
\<close>

record upload_error =
  e_message :: string
  e_status :: nat
  e_body :: "string option"
  e_text :: string
  e_code :: string

datatype worker =
    Sleeping nat nat   \<comment> \<open>awaiting the back-off before attempt \<open>a\<close> of chunk \<open>i\<close>\<close>
  | Putting nat nat    \<comment> \<open>awaiting the answer to attempt \<open>a\<close> of chunk \<open>i\<close>\<close>
  | Finished

datatype request = PutChunk nat | CompletePost | AbortDelete

record upl =
  file_size :: nat
  chunk_size :: nat
  chunk_count :: nat
  max_retries :: nat
  chunks :: "chunk list"
  next_index :: nat
  first_error :: "upload_error option"
  workers :: "worker list"
  aborted :: bool
  raf :: bool                \<comment> \<open>an animation frame is requested\<close>
  dirty :: bool
  reports :: "(chunk list \<times> nat \<times> nat) list"   \<comment> \<open>the calls of \<open>onProgress\<close>, with the part table at that moment\<close>
  requests :: "request list"
  slept :: "nat list"        \<comment> \<open>the back-off delays in milliseconds, newest last\<close>

text \<open>The byte range of one part and the initial part table.\<close>

definition part_start :: "nat \<Rightarrow> nat \<Rightarrow> nat" where
  "part_start cs i = i * cs"

definition part_end :: "nat \<Rightarrow> nat \<Rightarrow> nat \<Rightarrow> nat" where
  "part_end cs sz i = min (part_start cs i + cs) sz"

definition init_chunk :: "nat \<Rightarrow> nat \<Rightarrow> nat \<Rightarrow> chunk" where
  "init_chunk cs sz i =
     \<lparr>ch_index = i, ch_loaded = 0, ch_total = part_end cs sz i - part_start cs i,
      ch_status = Pending, ch_attempt = 0\<rparr>"

definition init_chunks :: "nat \<Rightarrow> nat \<Rightarrow> nat \<Rightarrow> chunk list" where
  "init_chunks cs sz n = map (init_chunk cs sz) [0..<n]"

text \<open>The blob sent for part \<open>i\<close>: \<open>file.slice(start, end)\<close>.\<close>

definition part_blob :: "nat \<Rightarrow> 'b list \<Rightarrow> nat \<Rightarrow> 'b list" where
  "part_blob cs file i = slice (part_start cs i) (part_end cs (length file) i) file"

section \<open>Progress\<close>

definition loaded_sum :: "upl \<Rightarrow> nat" where
  "loaded_sum s = sum_list (map ch_loaded (chunks s))"

definition flushProgress :: "upl \<Rightarrow> upl" where
  "flushProgress s = s\<lparr>raf := False, dirty := False,
     reports := reports s @ [(chunks s, min (loaded_sum s) (file_size s), file_size s)]\<rparr>"

definition emitChunkProgress :: "bool \<Rightarrow> upl \<Rightarrow> upl" where
  "emitChunkProgress immediate s =
     (if immediate then flushProgress (s\<lparr>raf := False\<rparr>)
      else s\<lparr>dirty := True, raf := True\<rparr>)"

definition upd_chunk :: "nat \<Rightarrow> (chunk \<Rightarrow> chunk) \<Rightarrow> upl \<Rightarrow> upl" where
  "upd_chunk i f s = s\<lparr>chunks := (chunks s)[i := f (chunks s ! i)]\<rparr>"

definition set_status :: "chunk_status \<Rightarrow> nat \<Rightarrow> upl \<Rightarrow> upl" where
  "set_status st i s = emitChunkProgress True (upd_chunk i (\<lambda>c. c\<lparr>ch_status := st\<rparr>) s)"

section \<open>One part\<close>

definition aborted_error :: "string \<Rightarrow> upload_error" where
  "aborted_error txt = \<lparr>e_message = ''aborted'', e_status = 0, e_body = None, e_text = txt, e_code = []\<rparr>"

text \<open>What the request for a part ends with.\<close>

datatype xhr_outcome = Load nat string string | NetworkError | XhrAbort

record put_result =
  p_ok :: bool
  p_status :: nat
  p_body :: "string option"
  p_text :: string
  p_code :: string

text \<open>\<open>json_ok\<close> tells whether \<open>JSON.parse\<close> accepts a text.\<close>

definition tryParseJsonError :: "(string \<Rightarrow> bool) \<Rightarrow> string \<Rightarrow> string option" where
  "tryParseJsonError json_ok text =
     (if text = [] then None else if json_ok text then Some text else None)"

fun put_resolve :: "(string \<Rightarrow> bool) \<Rightarrow> xhr_outcome \<Rightarrow> put_result" where
  "put_resolve json_ok (Load status text code) =
     \<lparr>p_ok = (200 \<le> status \<and> status < 300), p_status = status,
      p_body = tryParseJsonError json_ok text, p_text = text, p_code = code\<rparr>"
| "put_resolve json_ok NetworkError =
     \<lparr>p_ok = False, p_status = 0, p_body = None, p_text = ''network error'', p_code = []\<rparr>"
| "put_resolve json_ok XhrAbort =
     \<lparr>p_ok = False, p_status = 0, p_body = None, p_text = ''aborted'', p_code = []\<rparr>"

text \<open>The headers of the request for a part: the caller's, with its own content type.\<close>

definition put_headers :: "(string \<times> string) list \<Rightarrow> (string \<times> string) list" where
  "put_headers headers =
     filter (\<lambda>(key, value). to_lower key \<noteq> ''content-type'') headers @
     [(''Content-Type'', ''application/octet-stream'')]"

definition request_url :: "string \<Rightarrow> request \<Rightarrow> string" where
  "request_url uploadId r =
     ''/api/upload/chunked/'' @ encodeURIComponent uploadId @
     (case r of PutChunk i \<Rightarrow> ''/'' @ show_nat i | CompletePost \<Rightarrow> ''/complete'' | AbortDelete \<Rightarrow> [])"

text \<open>A signal that has fired already makes the request resolve without being sent.\<close>

definition start_put :: "nat \<Rightarrow> nat \<Rightarrow> upl \<Rightarrow> upl" where
  "start_put i a s = (if aborted s then s else s\<lparr>requests := requests s @ [PutChunk i]\<rparr>)"

text \<open>
  The code of \<open>uploadOneChunk\<close> returns (\<open>Inl\<close>, with the error or \<open>None\<close>) or
  suspends (\<open>Inr\<close>). \<open>begin_attempt\<close> is one pass of its loop up to the first await.
\<close>

definition begin_attempt :: "nat \<Rightarrow> nat \<Rightarrow> upl \<Rightarrow> upl \<times> (upload_error option + worker)" where
  "begin_attempt i a s =
     (if aborted s then (set_status Error i s, Inl (Some (aborted_error ''aborted'')))
      else (case first_error s of
         Some e \<Rightarrow> (s, Inl (Some e))
       | None \<Rightarrow>
           (let s1 = emitChunkProgress True (upd_chunk i
                (\<lambda>c. c\<lparr>ch_attempt := a + 1, ch_status := (if a = 0 then Uploading else Retrying),
                      ch_loaded := 0\<rparr>) s)
            in if 0 < a
               then (s1\<lparr>slept := slept s1 @ [CHUNK_RETRY_BASE_MS * 2 ^ (a - 1)]\<rparr>, Inr (Sleeping i a))
               else (start_put i a s1, Inr (Putting i a)))))"

definition after_sleep :: "nat \<Rightarrow> nat \<Rightarrow> upl \<Rightarrow> upl \<times> (upload_error option + worker)" where
  "after_sleep i a s =
     (if aborted s \<or> first_error s \<noteq> None
      then (set_status Error i s,
            Inl (Some (case first_error s of Some e \<Rightarrow> e | None \<Rightarrow> aborted_error [])))
      else (start_put i a s, Inr (Putting i a)))"

definition chunk_error :: "put_result \<Rightarrow> string \<Rightarrow> upload_error" where
  "chunk_error r msg = \<lparr>e_message = or_else (p_text r) msg, e_status = p_status r,
     e_body = p_body r, e_text = p_text r, e_code = p_code r\<rparr>"

definition permanent :: "nat \<Rightarrow> bool" where
  "permanent st \<longleftrightarrow> 400 \<le> st \<and> st < 500 \<and> st \<noteq> 408 \<and> st \<noteq> 429"

definition after_put :: "nat \<Rightarrow> nat \<Rightarrow> put_result \<Rightarrow> upl \<Rightarrow> upl \<times> (upload_error option + worker)" where
  "after_put i a r s =
     (if p_ok r then
        (emitChunkProgress True (upd_chunk i (\<lambda>c. c\<lparr>ch_loaded := ch_total c, ch_status := Done\<rparr>) s),
         Inl None)
      else if permanent (p_status r) then
        (set_status Error i s, Inl (Some (chunk_error r (''chunk '' @ show_nat i @ '' failed''))))
      else if a = max_retries s then
        (set_status Error i s,
         Inl (Some (chunk_error r (''chunk '' @ show_nat i @ '' failed after retries''))))
      else begin_attempt i (a + 1) s)"

definition on_progress :: "nat \<Rightarrow> nat \<Rightarrow> nat \<Rightarrow> upl \<Rightarrow> upl" where
  "on_progress i a loaded s =
     emitChunkProgress False (upd_chunk i
       (\<lambda>c. c\<lparr>ch_loaded := min loaded (ch_total c),
             ch_status := (if a = 0 then Uploading else Retrying)\<rparr>) s)"

section \<open>Workers\<close>

definition note_error :: "upload_error \<Rightarrow> upl \<Rightarrow> upl" where
  "note_error e s = s\<lparr>first_error := (case first_error s of Some e' \<Rightarrow> Some e' | None \<Rightarrow> Some e)\<rparr>"

text \<open>One pass of a worker's loop, from its head to the next await or to its end.\<close>

definition worker_loop :: "upl \<Rightarrow> upl \<times> worker" where
  "worker_loop s =
     (if aborted s then (note_error (aborted_error []) s, Finished)
      else if first_error s \<noteq> None then (s, Finished)
      else (let index = next_index s; s1 = s\<lparr>next_index := index + 1\<rparr> in
            if chunk_count s \<le> index then (s1, Finished)
            else (case begin_attempt index 0 s1 of
                    (s2, Inr w) \<Rightarrow> (s2, w)
                  | (s2, Inl (Some e)) \<Rightarrow> (note_error e s2, Finished)
                  | (s2, Inl None) \<Rightarrow> (s2, Finished))))"

text \<open>What a worker does with the outcome of \<open>uploadOneChunk\<close>.\<close>

fun continue :: "upl \<times> (upload_error option + worker) \<Rightarrow> upl \<times> worker" where
  "continue (s, Inr w) = (s, w)"
| "continue (s, Inl (Some e)) = (note_error e s, Finished)"
| "continue (s, Inl None) = worker_loop s"

definition put_worker :: "nat \<Rightarrow> upl \<times> worker \<Rightarrow> upl" where
  "put_worker k sw = (fst sw)\<lparr>workers := (workers (fst sw))[k := snd sw]\<rparr>"

fun start_workers :: "nat \<Rightarrow> upl \<Rightarrow> upl" where
  "start_workers 0 s = s"
| "start_workers (Suc n) s =
     (case worker_loop s of (s1, w) \<Rightarrow> start_workers n (s1\<lparr>workers := workers s1 @ [w]\<rparr>))"

datatype event =
    AbortSignal
  | AnimationFrame
  | Progress nat nat
  | Wake nat
  | Answer nat xhr_outcome

text \<open>\<open>None\<close>: the event cannot happen in this state.\<close>

fun exec :: "(string \<Rightarrow> bool) \<Rightarrow> event \<Rightarrow> upl \<Rightarrow> upl option" where
  "exec json_ok AbortSignal s = Some (s\<lparr>aborted := True\<rparr>)"
| "exec json_ok AnimationFrame s = (if raf s then Some (flushProgress s) else None)"
| "exec json_ok (Progress k loaded) s =
     (if k < length (workers s)
      then (case workers s ! k of Putting i a \<Rightarrow> Some (on_progress i a loaded s) | _ \<Rightarrow> None)
      else None)"
| "exec json_ok (Wake k) s =
     (if k < length (workers s)
      then (case workers s ! k of
              Sleeping i a \<Rightarrow> Some (put_worker k (continue (after_sleep i a s))) | _ \<Rightarrow> None)
      else None)"
| "exec json_ok (Answer k out) s =
     (if k < length (workers s)
      then (case workers s ! k of
              Putting i a \<Rightarrow>
                Some (put_worker k (continue (after_put i a (put_resolve json_ok out) s)))
            | _ \<Rightarrow> None)
      else None)"

section \<open>The session\<close>

text \<open>Options after their defaults: 0 stands for an absent chunk size or concurrency.\<close>

record upload_options =
  o_purpose :: string
  o_path :: string
  o_checksums :: bool
  o_gpg :: bool
  o_chunkSize :: nat
  o_concurrency :: nat
  o_maxRetries :: "int option"

record init_payload =
  i_purpose :: string
  i_filename :: string
  i_size :: nat
  i_chunk_size :: nat
  i_storage :: "(string \<times> bool \<times> bool) option"

definition preferred_chunk :: "upload_options \<Rightarrow> nat \<Rightarrow> nat" where
  "preferred_chunk opts sz =
     (if o_chunkSize opts = 0 then suggestChunkSize (Some (int sz)) else o_chunkSize opts)"

definition retries :: "upload_options \<Rightarrow> nat" where
  "retries opts = (case o_maxRetries opts of None \<Rightarrow> CHUNK_MAX_RETRIES | Some r \<Rightarrow> nat r)"

definition init_request :: "upload_options \<Rightarrow> string \<Rightarrow> nat \<Rightarrow> init_payload" where
  "init_request opts name sz =
     (let purpose = or_else (o_purpose opts) ''storage'' in
      \<lparr>i_purpose = purpose, i_filename = or_else name ''upload.bin'', i_size = sz,
       i_chunk_size = preferred_chunk opts sz,
       i_storage = (if purpose = ''storage''
                    then Some (o_path opts, o_checksums opts, o_gpg opts) else None)\<rparr>)"

record upload_result =
  r_ok :: bool
  r_status :: nat
  r_body :: "string option"
  r_text :: string
  r_code :: string
  r_review :: string

text \<open>A fetch response: status, text, the two headers read from it.\<close>

record response =
  h_status :: nat
  h_text :: string
  h_code :: string
  h_review :: string

definition resp_ok :: "response \<Rightarrow> bool" where
  "resp_ok r \<longleftrightarrow> 200 \<le> h_status r \<and> h_status r < 300"

definition failed_result :: "(string \<Rightarrow> bool) \<Rightarrow> response \<Rightarrow> upload_result" where
  "failed_result json_ok r = \<lparr>r_ok = False, r_status = h_status r,
     r_body = tryParseJsonError json_ok (h_text r), r_text = h_text r, r_code = h_code r, r_review = []\<rparr>"

text \<open>
  The part of \<open>uploadFileChunked\<close> up to the start of the workers. The server's answer is a
  response and the decoded session (\<open>chunk_size\<close>, \<open>chunk_count\<close>), or the text of the decode
  error; \<open>fired\<close> tells whether the abort signal had fired by then.
\<close>

definition initial_state :: "upload_options \<Rightarrow> nat \<Rightarrow> nat \<Rightarrow> nat \<Rightarrow> upl" where
  "initial_state opts sz sess_size sess_count =
     (let cs = (if sess_size = 0 then preferred_chunk opts sz else sess_size) in
      emitChunkProgress True
        \<lparr>file_size = sz, chunk_size = cs, chunk_count = sess_count, max_retries = retries opts,
         chunks = init_chunks cs sz sess_count, next_index = 0, first_error = None, workers = [],
         aborted = False, raf = False, dirty = False, reports = [], requests = [], slept = []\<rparr>)"

definition concurrency :: "upload_options \<Rightarrow> nat \<Rightarrow> nat \<Rightarrow> nat" where
  "concurrency opts sz count =
     max 1 (if o_concurrency opts = 0
            then suggestConcurrency (Some (int sz)) (Some (int count)) else o_concurrency opts)"

definition open_session ::
    "(string \<Rightarrow> bool) \<Rightarrow> upload_options \<Rightarrow> nat \<Rightarrow> response \<Rightarrow> string + nat \<times> nat \<Rightarrow> bool \<Rightarrow>
     upload_result \<times> request list + upl" where
  "open_session json_ok opts sz resp decoded fired =
     (if \<not> resp_ok resp then Inl (failed_result json_ok resp, [])
      else (case decoded of
         Inl err \<Rightarrow> Inl (\<lparr>r_ok = False, r_status = h_status resp, r_body = None, r_text = err,
                         r_code = [], r_review = []\<rparr>, [])
       | Inr (sess_size, sess_count) \<Rightarrow>
           if fired then
             Inl (\<lparr>r_ok = False, r_status = 0, r_body = None, r_text = ''aborted'', r_code = [],
                   r_review = []\<rparr>, [AbortDelete])
           else
             (let s = initial_state opts sz sess_size sess_count in
              Inr (start_workers (min (concurrency opts sz sess_count) sess_count) s))))"

section \<open>The end of the upload\<close>

definition all_finished :: "upl \<Rightarrow> bool" where
  "all_finished s \<longleftrightarrow> list_all (\<lambda>w. w = Finished) (workers s)"

text \<open>
  After \<open>Promise.all\<close>: the pending report is flushed, an error aborts the session, and
  otherwise the session is completed. The answer to the completion request is a response,
  its decoded body, or \<open>None\<close> when the request itself throws.
\<close>

definition flush_pending :: "upl \<Rightarrow> upl" where
  "flush_pending s = (let s1 = s\<lparr>raf := False\<rparr> in if dirty s1 then flushProgress s1 else s1)"

definition finish_chunk :: "chunk \<Rightarrow> chunk" where
  "finish_chunk c = c\<lparr>ch_loaded := ch_total c, ch_status := Done\<rparr>"

definition request :: "request \<Rightarrow> upl \<Rightarrow> upl" where
  "request r s = s\<lparr>requests := requests s @ [r]\<rparr>"

definition error_result :: "upload_error \<Rightarrow> upload_result" where
  "error_result e = \<lparr>r_ok = False, r_status = e_status e, r_body = e_body e,
     r_text = or_else (e_text e) (e_message e), r_code = e_code e, r_review = []\<rparr>"

definition complete_session ::
    "(string \<Rightarrow> bool) \<Rightarrow> (response \<times> string option) option \<Rightarrow> upl \<Rightarrow> upl \<times> upload_result option" where
  "complete_session json_ok answer s =
     (let s1 = request CompletePost s in
      case answer of
        None \<Rightarrow> (request AbortDelete (s1\<lparr>raf := False\<rparr>), None)
      | Some (resp, body) \<Rightarrow>
          if \<not> resp_ok resp then (request AbortDelete s1, Some (failed_result json_ok resp))
          else
            (let s2 = s1\<lparr>reports := reports s1 @ [(chunks s1, file_size s1, file_size s1)]\<rparr>;
                 s3 = emitChunkProgress True (s2\<lparr>chunks := map finish_chunk (chunks s2)\<rparr>)
             in (s3, Some \<lparr>r_ok = True, r_status = h_status resp, r_body = body, r_text = [],
                           r_code = [], r_review = h_review resp\<rparr>)))"

definition finish_upload ::
    "(string \<Rightarrow> bool) \<Rightarrow> (response \<times> string option) option \<Rightarrow> upl \<Rightarrow> upl \<times> upload_result option" where
  "finish_upload json_ok answer s =
     (if 0 < chunk_count s then
        (let s1 = flush_pending s in
         case first_error s1 of
           Some e \<Rightarrow> (request AbortDelete s1, Some (error_result e))
         | None \<Rightarrow> complete_session json_ok answer s1)
      else complete_session json_ok answer (s\<lparr>reports := reports s @ [(chunks s, 0, 0)]\<rparr>))"

end
