(* ===== verification/Machine.thy ===== *)
theory Machine
  imports Prelude
begin

text \<open>
  The interface of the event-driven components. A component is a function \<open>exec\<close> that runs
  the code triggered by one event from one await to the next; \<open>None\<close> means that the event
  cannot happen in the given state. The locale \<open>machine\<close> asks for an invariant kept by
  every event, \<open>ranked_machine\<close> for a measure that every event of a chosen kind decreases;
  what follows for whole executions is proved here once and interpreted by the components.
\<close>

inductive reaches :: "('e \<Rightarrow> 's \<Rightarrow> 's option) \<Rightarrow> 's \<Rightarrow> 's \<Rightarrow> bool" for exec where
  reaches_refl: "reaches exec s s"
| reaches_step: "reaches exec s t \<Longrightarrow> exec e t = Some u \<Longrightarrow> reaches exec s u"

fun run :: "('e \<Rightarrow> 's \<Rightarrow> 's option) \<Rightarrow> 'e list \<Rightarrow> 's \<Rightarrow> 's option" where
  "run exec [] s = Some s"
| "run exec (e # es) s = (case exec e s of None \<Rightarrow> None | Some t \<Rightarrow> run exec es t)"

lemma run_append: "run exec (as @ bs) s = Option.bind (run exec as s) (run exec bs)"
  by (induction as arbitrary: s) (auto split: option.splits)

lemma run_snoc: "run exec (es @ [e]) s0 = Some t \<longleftrightarrow> (\<exists>s. run exec es s0 = Some s \<and> exec e s = Some t)"
  by (auto simp: run_append bind_eq_Some_conv split: option.splits)

lemma reaches_trans: "reaches exec s t \<Longrightarrow> reaches exec t u \<Longrightarrow> reaches exec s u"
  by (rotate_tac, induction rule: reaches.induct) (auto intro: reaches.intros)

lemma run_reaches: "run exec es s = Some t \<Longrightarrow> reaches exec s t"
proof (induction es arbitrary: s)
  case Nil
  then show ?case by (auto intro: reaches_refl)
next
  case (Cons e es)
  then obtain u where "exec e s = Some u" and "run exec es u = Some t"
    by (auto split: option.splits)
  with Cons.IH have "reaches exec s u" "reaches exec u t"
    by (auto intro: reaches.intros)
  then show ?case by (rule reaches_trans)
qed

lemma reaches_run: "reaches exec s t \<Longrightarrow> \<exists>es. run exec es s = Some t"
proof (induction rule: reaches.induct)
  case (reaches_refl s)
  show ?case by (rule exI [of _ "[]"]) simp
next
  case (reaches_step s t e u)
  then obtain es where "run exec es s = Some t" by blast
  with reaches_step(2) have "run exec (es @ [e]) s = Some u" by (simp add: run_append)
  then show ?case by blast
qed

locale machine =
  fixes exec :: "'e \<Rightarrow> 's \<Rightarrow> 's option"
    and inv :: "'s \<Rightarrow> bool"
  assumes inv_exec: "inv s \<Longrightarrow> exec e s = Some t \<Longrightarrow> inv t"
begin

lemma inv_reaches: "reaches exec s t \<Longrightarrow> inv s \<Longrightarrow> inv t"
  by (induction rule: reaches.induct) (auto intro: inv_exec)

lemma inv_run: "run exec es s = Some t \<Longrightarrow> inv s \<Longrightarrow> inv t"
  by (blast intro: inv_reaches run_reaches)

end

locale ranked_machine = machine exec inv
  for exec :: "'e \<Rightarrow> 's \<Rightarrow> 's option" and inv :: "'s \<Rightarrow> bool" +
  fixes work :: "'e \<Rightarrow> bool"
    and rank :: "'s \<Rightarrow> nat"
  assumes rank_work: "inv s \<Longrightarrow> exec e s = Some t \<Longrightarrow> work e \<Longrightarrow> rank t < rank s"
    and rank_idle: "inv s \<Longrightarrow> exec e s = Some t \<Longrightarrow> rank t \<le> rank s"
begin

lemma work_bounded:
  "run exec es s = Some t \<Longrightarrow> inv s \<Longrightarrow> length (filter work es) + rank t \<le> rank s"
proof (induction es arbitrary: s)
  case Nil
  then show ?case by simp
next
  case (Cons e es)
  then obtain u where u: "exec e s = Some u" and "run exec es u = Some t"
    by (auto split: option.splits)
  with Cons inv_exec [of s e u] have "length (filter work es) + rank t \<le> rank u" by blast
  with rank_work [OF Cons.prems(2) u] rank_idle [OF Cons.prems(2) u] show ?case by auto
qed

end

end
