(* ===== verification/Upload_Correct.thy ===== *)
theory Upload_Correct
  imports Chunked_Upload Machine "HOL-Library.Multiset"
begin

text \<open>
  Correctness of the multi-part uploader. The invariant \<open>core\<close> speaks of the multiset of
  suspended workers, so that the order of the workers does not matter, and of a set of parts
  that are momentarily in nobody's hands while the code between two awaits runs. Every piece of
  that code has one lemma, and \<open>exec_core\<close> assembles them for an arbitrary event.
\<close>

section \<open>Frame facts\<close>

lemma emit_frame [simp]:
  "file_size (emitChunkProgress b s) = file_size s"
  "chunk_size (emitChunkProgress b s) = chunk_size s"
  "chunk_count (emitChunkProgress b s) = chunk_count s"
  "max_retries (emitChunkProgress b s) = max_retries s"
  "chunks (emitChunkProgress b s) = chunks s"
  "next_index (emitChunkProgress b s) = next_index s"
  "first_error (emitChunkProgress b s) = first_error s"
  "workers (emitChunkProgress b s) = workers s"
  "aborted (emitChunkProgress b s) = aborted s"
  "requests (emitChunkProgress b s) = requests s"
  "slept (emitChunkProgress b s) = slept s"
  by (simp_all add: emitChunkProgress_def flushProgress_def)

lemma upd_chunk_frame [simp]:
  "file_size (upd_chunk i f s) = file_size s"
  "chunk_size (upd_chunk i f s) = chunk_size s"
  "chunk_count (upd_chunk i f s) = chunk_count s"
  "max_retries (upd_chunk i f s) = max_retries s"
  "chunks (upd_chunk i f s) = (chunks s)[i := f (chunks s ! i)]"
  "next_index (upd_chunk i f s) = next_index s"
  "first_error (upd_chunk i f s) = first_error s"
  "workers (upd_chunk i f s) = workers s"
  "aborted (upd_chunk i f s) = aborted s"
  "requests (upd_chunk i f s) = requests s"
  "reports (upd_chunk i f s) = reports s"
  "slept (upd_chunk i f s) = slept s"
  by (simp_all add: upd_chunk_def)

lemma note_error_frame [simp]:
  "file_size (note_error e s) = file_size s"
  "chunk_size (note_error e s) = chunk_size s"
  "chunk_count (note_error e s) = chunk_count s"
  "max_retries (note_error e s) = max_retries s"
  "chunks (note_error e s) = chunks s"
  "next_index (note_error e s) = next_index s"
  "workers (note_error e s) = workers s"
  "aborted (note_error e s) = aborted s"
  "requests (note_error e s) = requests s"
  "reports (note_error e s) = reports s"
  "first_error (note_error e s) \<noteq> None"
  by (simp_all add: note_error_def split: option.splits)

lemma start_put_frame [simp]:
  "file_size (start_put i a s) = file_size s"
  "chunk_size (start_put i a s) = chunk_size s"
  "chunk_count (start_put i a s) = chunk_count s"
  "max_retries (start_put i a s) = max_retries s"
  "chunks (start_put i a s) = chunks s"
  "next_index (start_put i a s) = next_index s"
  "first_error (start_put i a s) = first_error s"
  "workers (start_put i a s) = workers s"
  "aborted (start_put i a s) = aborted s"
  "reports (start_put i a s) = reports s"
  "slept (start_put i a s) = slept s"
  by (simp_all add: start_put_def)

section \<open>The invariant\<close>

fun held :: "worker \<Rightarrow> nat option" where
  "held (Sleeping i a) = Some i"
| "held (Putting i a) = Some i"
| "held Finished = None"

definition free :: "nat \<Rightarrow> worker multiset \<Rightarrow> bool" where
  "free i M \<longleftrightarrow> (\<forall>w\<in>#M. held w \<noteq> Some i)"

definition puts :: "upl \<Rightarrow> nat \<Rightarrow> nat" where
  "puts s i = count_list (requests s) (PutChunk i)"

lemma puts_frame [simp]:
  "puts (emitChunkProgress b s) = puts s"
  "puts (upd_chunk i f s) = puts s"
  "puts (note_error e s) = puts s"
  by (auto simp: puts_def fun_eq_iff)

definition part_ok :: "upl \<Rightarrow> nat \<Rightarrow> bool" where
  "part_ok s i \<longleftrightarrow> (let c = chunks s ! i in
     ch_index c = i \<and>
     ch_total c = part_end (chunk_size s) (file_size s) i - part_start (chunk_size s) i \<and>
     ch_loaded c \<le> ch_total c \<and>
     (ch_status c = Done \<longrightarrow> ch_loaded c = ch_total c \<and> 0 < puts s i) \<and>
     ch_attempt c \<le> max_retries s + 1 \<and>
     puts s i \<le> ch_attempt c \<and>
     (next_index s \<le> i \<longrightarrow> ch_attempt c = 0))"

definition parts_ok :: "upl \<Rightarrow> bool" where
  "parts_ok s \<longleftrightarrow> length (chunks s) = chunk_count s \<and> (\<forall>i<chunk_count s. part_ok s i)"

fun worker_ok :: "upl \<Rightarrow> worker \<Rightarrow> bool" where
  "worker_ok s (Sleeping i a) \<longleftrightarrow> i < chunk_count s \<and> i < next_index s \<and> 0 < a \<and> a \<le> max_retries s \<and>
     ch_attempt (chunks s ! i) = a + 1 \<and> puts s i \<le> a"
| "worker_ok s (Putting i a) \<longleftrightarrow> i < chunk_count s \<and> i < next_index s \<and> a \<le> max_retries s \<and>
     ch_attempt (chunks s ! i) = a + 1 \<and> 0 < puts s i"
| "worker_ok s Finished \<longleftrightarrow> True"

definition exclusive :: "worker multiset \<Rightarrow> bool" where
  "exclusive M \<longleftrightarrow> (\<forall>i. size (filter_mset (\<lambda>w. held w = Some i) M) \<le> 1)"

text \<open>
  While no error is recorded, every part that was handed out is done or in some worker's hands
  (or in the set \<open>X\<close>), and a worker has only ended because no part was left.
\<close>

definition cover :: "worker multiset \<Rightarrow> nat set \<Rightarrow> upl \<Rightarrow> bool" where
  "cover M X s \<longleftrightarrow> first_error s = None \<longrightarrow>
     (\<forall>i<chunk_count s. i < next_index s \<longrightarrow>
        i \<in> X \<or> ch_status (chunks s ! i) = Done \<or> \<not> free i M) \<and>
     (Finished \<in># M \<longrightarrow> chunk_count s \<le> next_index s)"

definition log_ok :: "upl \<Rightarrow> bool" where
  "log_ok s \<longleftrightarrow> (\<forall>(cs, l, t)\<in>set (reports s). l \<le> t) \<and> set (requests s) \<subseteq> PutChunk ` {..<chunk_count s}"

definition core :: "worker multiset \<Rightarrow> nat set \<Rightarrow> upl \<Rightarrow> bool" where
  "core M X s \<longleftrightarrow> parts_ok s \<and> (\<forall>w\<in>#M. worker_ok s w) \<and> exclusive M \<and> cover M X s \<and> log_ok s"

lemmas core_defs = core_def parts_ok_def part_ok_def cover_def log_ok_def puts_def Let_def

section \<open>Workers as a multiset\<close>

lemma free_add [simp]: "free i (add_mset w M) \<longleftrightarrow> held w \<noteq> Some i \<and> free i M"
  by (auto simp: free_def)

lemma free_empty [simp]: "free i {#}"
  by (simp add: free_def)

lemma free_iff: "free i M \<longleftrightarrow> size (filter_mset (\<lambda>w. held w = Some i) M) = 0"
  by (auto simp: free_def filter_mset_eq_mempty_iff)

lemma exclusive_add:
  "exclusive (add_mset w M) \<longleftrightarrow> exclusive M \<and> (\<forall>i. held w = Some i \<longrightarrow> free i M)"
proof
  assume e: "exclusive (add_mset w M)"
  have "size (filter_mset (\<lambda>v. held v = Some i) M) \<le> 1" for i
    using e [unfolded exclusive_def, rule_format, of i]
    by (auto split: if_splits simp del: filter_mset_eq_mempty_iff)
  moreover have "free i M" if "held w = Some i" for i
    using e [unfolded exclusive_def, rule_format, of i] that by (simp add: free_iff)
  ultimately show "exclusive M \<and> (\<forall>i. held w = Some i \<longrightarrow> free i M)"
    by (simp add: exclusive_def)
next
  assume "exclusive M \<and> (\<forall>i. held w = Some i \<longrightarrow> free i M)"
  then show "exclusive (add_mset w M)" by (auto simp: exclusive_def free_iff)
qed

lemma exclusive_empty [simp]: "exclusive {#}"
  by (simp add: exclusive_def)

section \<open>The code between two awaits\<close>

lemma core_emit [simp]: "core M X (emitChunkProgress b s) \<longleftrightarrow> core M X s"
proof -
  have w: "worker_ok (emitChunkProgress b s) w = worker_ok s w" for w
    by (cases w) (simp_all add: puts_def)
  have l: "log_ok (emitChunkProgress b s) = log_ok s"
    by (auto simp: log_ok_def emitChunkProgress_def flushProgress_def)
  show ?thesis by (simp add: core_def w l) (simp add: parts_ok_def part_ok_def cover_def puts_def)
qed

text \<open>Changing the entry of a part nobody else holds.\<close>

lemma core_upd_chunk:
  assumes c: "core M X s" and i: "i < chunk_count s" and fr: "free i M"
    and f: "part_ok (upd_chunk i f s) i"
    and X: "ch_status (f (chunks s ! i)) = Done \<longrightarrow> X \<subseteq> insert i Y"
           "ch_status (f (chunks s ! i)) \<noteq> Done \<longrightarrow> i \<in> Y \<and> X \<subseteq> Y"
  shows "core M Y (upd_chunk i f s)"
proof -
  have len: "length (chunks s) = chunk_count s" using c by (simp add: core_def parts_ok_def)
  have "part_ok (upd_chunk i f s) j" if "j < chunk_count s" for j
    using that f c by (cases "j = i") (auto simp: core_defs)
  moreover have "worker_ok (upd_chunk i f s) w" if "w \<in># M" for w
  proof -
    have "held w \<noteq> Some i" using fr that by (auto simp: free_def)
    moreover have "worker_ok s w" using c that by (simp add: core_def)
    ultimately show ?thesis by (cases w) (auto simp: puts_def)
  qed
  moreover have "cover M Y (upd_chunk i f s)"
  proof (cases "first_error s")
    case None
    then have cov: "\<forall>j<chunk_count s. j < next_index s \<longrightarrow>
        j \<in> X \<or> ch_status (chunks s ! j) = Done \<or> \<not> free j M"
      and fin: "Finished \<in># M \<longrightarrow> chunk_count s \<le> next_index s"
      using c by (auto simp: core_def cover_def)
    have "j \<in> Y \<or> ch_status (chunks (upd_chunk i f s) ! j) = Done \<or> \<not> free j M"
      if "j < chunk_count s" "j < next_index s" for j
      using cov that X i len by (cases "j = i") auto
    with fin show ?thesis by (simp add: cover_def)
  qed (simp add: cover_def)
  ultimately show ?thesis using c len by (auto simp: core_def parts_ok_def log_ok_def)
qed

lemma core_part: "core M X s \<Longrightarrow> i < chunk_count s \<Longrightarrow> part_ok s i \<and> i < length (chunks s)"
  by (simp add: core_def parts_ok_def)

lemma part_ok_upd:
  "i < length (chunks s) \<Longrightarrow> part_ok (upd_chunk i f s) i \<longleftrightarrow> (let c = f (chunks s ! i) in
     ch_index c = i \<and>
     ch_total c = part_end (chunk_size s) (file_size s) i - part_start (chunk_size s) i \<and>
     ch_loaded c \<le> ch_total c \<and>
     (ch_status c = Done \<longrightarrow> ch_loaded c = ch_total c \<and> 0 < puts s i) \<and>
     ch_attempt c \<le> max_retries s + 1 \<and>
     puts s i \<le> ch_attempt c \<and>
     (next_index s \<le> i \<longrightarrow> ch_attempt c = 0))"
  by (simp add: part_ok_def puts_def)

lemma core_set_status:
  "core M X s \<Longrightarrow> i < chunk_count s \<Longrightarrow> free i M \<Longrightarrow> st \<noteq> Done \<Longrightarrow>
   core M (insert i X) (set_status st i s)"
  unfolding set_status_def core_emit
  by (rule core_upd_chunk; frule (1) core_part) (auto simp: part_ok_upd part_ok_def Let_def)

lemma core_note_error: "core M X s \<Longrightarrow> core (add_mset Finished M) {} (note_error e s)"
proof -
  assume c: "core M X s"
  have "worker_ok (note_error e s) w = worker_ok s w" for w
    by (cases w) (simp_all add: puts_def)
  with c show ?thesis
    by (auto simp: core_def parts_ok_def part_ok_def cover_def log_ok_def puts_def exclusive_add)
qed

lemma core_add_finished:
  "core M X s \<Longrightarrow> first_error s \<noteq> None \<Longrightarrow> core (add_mset Finished M) {} s"
  by (auto simp: core_def cover_def exclusive_add)

lemma core_weaken: "core M X s \<Longrightarrow> X \<subseteq> Y \<Longrightarrow> core M Y s"
  by (auto simp: core_def cover_def)

lemma core_release:
  assumes "core (add_mset w M) {} s" and "held w = Some i"
  shows "core M {i} s" "free i M" "i < chunk_count s" "i < next_index s"
proof -
  show "core M {i} s" using assms by (auto simp: core_def exclusive_add cover_def)
  show "free i M" using assms by (simp add: core_def exclusive_add)
  show "i < chunk_count s" "i < next_index s"
    using assms by (cases w; simp add: core_def)+
qed

text \<open>The loop of a worker resumes: \<open>r\<close> is what \<open>uploadOneChunk\<close> came to.\<close>

fun resumes :: "worker multiset \<Rightarrow> upl \<times> (upload_error option + worker) \<Rightarrow> bool" where
  "resumes M (s, Inr w) = core (add_mset w M) {} s"
| "resumes M (s, Inl (Some e)) = (\<exists>X. core M X s)"
| "resumes M (s, Inl None) = core M {} s"

lemma count_list_snoc [simp]:
  "count_list (xs @ [x]) y = count_list xs y + (if x = y then 1 else 0)"
  by (induction xs) auto

lemma core_start_put:
  assumes c: "core M {i} s" and i: "i < chunk_count s" "i < next_index s" and fr: "free i M"
    and a: "a \<le> max_retries s" "ch_attempt (chunks s ! i) = a + 1" "puts s i \<le> a"
    and go: "\<not> aborted s"
  shows "core (add_mset (Putting i a) M) {} (start_put i a s)"
proof -
  have p: "puts (start_put i a s) i \<le> a + 1" "0 < puts (start_put i a s) i"
    and q: "j \<noteq> i \<Longrightarrow> puts (start_put i a s) j = puts s j" for j
    using a go by (auto simp: puts_def start_put_def)
  have "part_ok (start_put i a s) j" if "j < chunk_count s" for j
    using c that p q [of j] a i
    by (cases "j = i") (auto simp: core_def parts_ok_def part_ok_def Let_def)
  moreover have "worker_ok (start_put i a s) w" if "w \<in># M" for w
  proof -
    have "held w \<noteq> Some i" using fr that by (auto simp: free_def)
    moreover have "worker_ok s w" using c that by (simp add: core_def)
    ultimately show ?thesis using q by (cases w) auto
  qed
  moreover have "cover (add_mset (Putting i a) M) {} (start_put i a s)"
    using c by (auto simp: core_def cover_def)
  moreover have "log_ok (start_put i a s)"
    using c i by (auto simp: core_def log_ok_def start_put_def)
  ultimately show ?thesis
    using c i a fr p by (auto simp: core_def parts_ok_def exclusive_add)
qed

lemma core_slept [simp]: "core M X (s\<lparr>slept := d\<rparr>) \<longleftrightarrow> core M X s"
proof -
  have "worker_ok (s\<lparr>slept := d\<rparr>) w = worker_ok s w" for w by (cases w) (simp_all add: puts_def)
  then show ?thesis by (simp add: core_def parts_ok_def part_ok_def cover_def log_ok_def puts_def)
qed

lemma begin_attempt_resumes:
  assumes c: "core M {i} s" and i: "i < chunk_count s" "i < next_index s" and fr: "free i M"
    and a: "a \<le> max_retries s" "puts s i \<le> a"
  shows "resumes M (begin_attempt i a s)"
proof (cases "aborted s \<or> first_error s \<noteq> None")
  case True
  then show ?thesis
    using c core_set_status [OF c i(1) fr, of Error]
    by (auto simp: begin_attempt_def split: option.splits)
next
  case False
  define f :: "chunk \<Rightarrow> chunk" where "f = (\<lambda>c. c\<lparr>ch_attempt := a + 1, ch_status := (if a = 0 then Uploading else Retrying),
    ch_loaded := 0\<rparr>)"
  define s1 where "s1 = emitChunkProgress True (upd_chunk i f s)"
  have len: "length (chunks s) = chunk_count s" using c by (simp add: core_def parts_ok_def)
  have ch: "chunks s1 ! i = f (chunks s ! i)" using i len by (simp add: s1_def)
  have "core M {i} (upd_chunk i f s)"
    using core_part [OF c i(1)] i a
    by (intro core_upd_chunk [OF c i(1) fr]) (auto simp: part_ok_upd part_ok_def Let_def f_def)
  then have c1: "core M {i} s1" by (simp add: s1_def)
  have at: "ch_attempt (chunks s1 ! i) = a + 1" by (simp add: ch f_def)
  have p1: "puts s1 i \<le> a" using a by (simp add: s1_def puts_def)
  show ?thesis
  proof (cases "a = 0")
    case True
    have "core (add_mset (Putting i a) M) {} (start_put i a s1)"
      using i a at p1 \<open>\<not> (aborted s \<or> first_error s \<noteq> None)\<close>
      by (intro core_start_put [OF c1 _ _ fr]) (simp_all add: s1_def)
    with True False show ?thesis by (simp add: begin_attempt_def Let_def s1_def f_def)
  next
    case False
    have "core (add_mset (Sleeping i a) M) {} s1"
      using c1 i a at p1 fr False
      by (auto simp: core_def exclusive_add cover_def s1_def puts_def)
    with False \<open>\<not> (aborted s \<or> first_error s \<noteq> None)\<close> show ?thesis
      by (simp add: begin_attempt_def Let_def s1_def f_def)
  qed
qed

lemma after_sleep_resumes:
  assumes c: "core (add_mset (Sleeping i a) M) {} s"
  shows "resumes M (after_sleep i a s)"
proof -
  note r = core_release [OF c, of i, simplified]
  have w: "a \<le> max_retries s" "ch_attempt (chunks s ! i) = a + 1" "puts s i \<le> a"
    using c by (simp_all add: core_def)
  show ?thesis
    using core_set_status [OF r(1) r(3) r(2), of Error] core_start_put [OF r(1) r(3) r(4) r(2) w]
    by (auto simp: after_sleep_def)
qed

lemma after_put_resumes:
  assumes c: "core (add_mset (Putting i a) M) {} s"
  shows "resumes M (after_put i a r s)"
proof -
  note rel = core_release [OF c, of i, simplified]
  have a: "a \<le> max_retries s" "ch_attempt (chunks s ! i) = a + 1" and p0: "0 < puts s i"
    using c by (simp_all add: core_def)
  have len: "length (chunks s) = chunk_count s" using c by (simp add: core_def parts_ok_def)
  have p: "puts s i \<le> a + 1" using rel a by (auto simp: core_defs)
  have fin: "core M {} (emitChunkProgress True
      (upd_chunk i (\<lambda>c. c\<lparr>ch_loaded := ch_total c, ch_status := Done\<rparr>) s))"
    unfolding core_emit using core_part [OF rel(1) rel(3)] p0
    by (intro core_upd_chunk [OF rel(1) rel(3) rel(2)]) (auto simp: part_ok_upd part_ok_def Let_def)
  have err: "\<exists>X. core M X (set_status Error i s)"
    using core_set_status [OF rel(1) rel(3) rel(2), of Error] by auto
  show ?thesis
    using fin err begin_attempt_resumes [OF rel(1) rel(3) rel(4) rel(2), of "a + 1"] a p
    by (auto simp: after_put_def)
qed

lemma core_take_next:
  assumes "core M {} s" and "first_error s = None" and "next_index s < chunk_count s"
  shows "core M {next_index s} (s\<lparr>next_index := next_index s + 1\<rparr>)"
    "free (next_index s) M" "puts s (next_index s) = 0"
proof -
  have "held w \<noteq> Some (next_index s)" if "w \<in># M" for w
    using assms(1) that by (cases w) (auto simp: core_def)
  then show fr: "free (next_index s) M" by (simp add: free_def)
  show "puts s (next_index s) = 0" using assms by (auto simp: core_defs)
  have "worker_ok (s\<lparr>next_index := next_index s + 1\<rparr>) w" if "w \<in># M" for w
    using assms(1) that by (cases w) (auto simp: core_def puts_def)
  then show "core M {next_index s} (s\<lparr>next_index := next_index s + 1\<rparr>)"
    using assms by (auto simp: core_defs less_Suc_eq)
qed

lemma worker_loop_core:
  assumes c: "core M {} s"
  shows "core (add_mset (snd (worker_loop s)) M) {} (fst (worker_loop s))"
proof (cases "aborted s \<or> first_error s \<noteq> None")
  case True
  then show ?thesis
    using core_note_error [OF c] core_add_finished [OF c] by (auto simp: worker_loop_def)
next
  case False
  define s1 where "s1 = s\<lparr>next_index := next_index s + 1\<rparr>"
  show ?thesis
  proof (cases "chunk_count s \<le> next_index s")
    case True
    have "worker_ok s1 w" if "w \<in># M" for w
      using c that by (cases w) (auto simp: core_def s1_def puts_def)
    then have "core (add_mset Finished M) {} s1"
      using c True by (auto simp: core_defs exclusive_add s1_def)
    with True False show ?thesis by (simp add: worker_loop_def s1_def)
  next
    case more: False
    note t = core_take_next [OF c]
    have "resumes M (begin_attempt (next_index s) 0 s1)"
      using t False more by (intro begin_attempt_resumes) (auto simp: s1_def puts_def)
    moreover obtain s2 r where "begin_attempt (next_index s) 0 s1 = (s2, r)" by fastforce
    ultimately show ?thesis using False more
      by (cases r; cases "projl r")
        (auto simp: worker_loop_def s1_def Let_def core_note_error begin_attempt_def
          split: if_splits option.splits)
  qed
qed

lemma continue_core:
  assumes "resumes M r"
  shows "core (add_mset (snd (continue r)) M) {} (fst (continue r))"
  using assms
proof (cases r rule: continue.cases)
  case (2 s e)
  with assms show ?thesis by (auto intro: core_note_error)
next
  case (3 s)
  with assms worker_loop_core show ?thesis by auto
qed auto

section \<open>Every event keeps the invariant\<close>

definition upl_inv :: "upl \<Rightarrow> bool" where
  "upl_inv s \<longleftrightarrow> core (mset (workers s)) {} s"

lemma workers_frame:
  "workers (fst (begin_attempt i a s)) = workers s"
  "workers (fst (after_sleep i a s)) = workers s"
  "workers (fst (after_put i a r s)) = workers s"
  "workers (fst (worker_loop s)) = workers s"
proof -
  show b: "workers (fst (begin_attempt i a s)) = workers s" for i a s
    by (auto simp: begin_attempt_def set_status_def Let_def split: option.splits)
  show "workers (fst (after_sleep i a s)) = workers s"
    by (auto simp: after_sleep_def set_status_def)
  show "workers (fst (after_put i a r s)) = workers s"
    by (auto simp: after_put_def set_status_def b)
  have "workers (fst (begin_attempt (next_index s) 0 (s\<lparr>next_index := next_index s + 1\<rparr>))) = workers s"
    by (simp add: b)
  then show "workers (fst (worker_loop s)) = workers s"
    by (auto simp: worker_loop_def Let_def split: prod.splits sum.splits option.splits)
qed

lemma workers_continue: "workers (fst (continue r)) = workers (fst r)"
  by (cases r rule: continue.cases) (auto simp: workers_frame)

lemma core_workers [simp]: "core M X (s\<lparr>workers := ws\<rparr>) \<longleftrightarrow> core M X s"
proof -
  have "worker_ok (s\<lparr>workers := ws\<rparr>) w = worker_ok s w" for w by (cases w) (simp_all add: puts_def)
  then show ?thesis by (simp add: core_def parts_ok_def part_ok_def cover_def log_ok_def puts_def)
qed

lemma put_worker_inv:
  assumes k: "k < length (workers (fst r))"
    and r: "resumes (mset (workers (fst r)) - {#workers (fst r) ! k#}) r"
  shows "upl_inv (put_worker k (continue r))"
proof -
  have "core (add_mset (snd (continue r)) (mset (workers (fst r)) - {#workers (fst r) ! k#})) {}
      (fst (continue r))"
    using continue_core [OF r] .
  with k show ?thesis by (simp add: upl_inv_def put_worker_def workers_continue mset_update)
qed

lemma mset_remove_nth: "k < length ws \<Longrightarrow> add_mset (ws ! k) (mset ws - {#ws ! k#}) = mset ws"
  by simp

lemma nth_other_in:
  assumes "k < length ws" "l < length ws" "k \<noteq> l"
  shows "ws ! l \<in># mset ws - {#ws ! k#}"
proof -
  have "mset ws = mset (take k ws @ ws ! k # drop (Suc k) ws)"
    using id_take_nth_drop [OF assms(1)] by simp
  then have m: "mset ws - {#ws ! k#} = mset (take k ws @ drop (Suc k) ws)" by simp
  have "ws ! l \<in> set (take k ws @ drop (Suc k) ws)"
  proof (cases "l < k")
    case True
    with assms show ?thesis by (auto simp: in_set_conv_nth intro: exI [of _ l])
  next
    case False
    with assms have "ws ! l = drop (Suc k) ws ! (l - Suc k)" "l - Suc k < length (drop (Suc k) ws)" by auto
    then show ?thesis by (metis Un_iff nth_mem set_append)
  qed
  with m show ?thesis by simp
qed

lemma on_progress_inv:
  assumes c: "upl_inv s" and k: "k < length (workers s)" "workers s ! k = Putting i a"
  shows "upl_inv (on_progress i a l s)"
proof -
  define M where "M = mset (workers s) - {#Putting i a#}"
  have M: "mset (workers s) = add_mset (Putting i a) M" using k mset_remove_nth [of k "workers s"]
    by (simp add: M_def)
  with c have c': "core (add_mset (Putting i a) M) {} s" by (simp add: upl_inv_def)
  note rel = core_release [OF c', of i, simplified]
  define f :: "chunk \<Rightarrow> chunk" where "f = (\<lambda>c. c\<lparr>ch_loaded := min l (ch_total c),
             ch_status := (if a = 0 then Uploading else Retrying)\<rparr>)"
  have len: "length (chunks s) = chunk_count s" using c' by (simp add: core_def parts_ok_def)
  have "core M {i} (upd_chunk i f s)"
    using core_part [OF rel(1) rel(3)]
    by (intro core_upd_chunk [OF rel(1) rel(3) rel(2)]) (auto simp: part_ok_upd part_ok_def Let_def f_def)
  moreover have "worker_ok (upd_chunk i f s) (Putting i a)"
    using c' len by (simp add: core_def f_def)
  ultimately have "core (add_mset (Putting i a) M) {} (upd_chunk i f s)"
    using rel by (auto simp: core_def exclusive_add cover_def)
  then show ?thesis by (simp add: upl_inv_def on_progress_def M f_def)
qed

lemma core_raf [simp]: "core M X (s\<lparr>raf := b\<rparr>) \<longleftrightarrow> core M X s"
  and core_aborted [simp]: "core M X (s\<lparr>aborted := b\<rparr>) \<longleftrightarrow> core M X s"
proof -
  have "worker_ok (s\<lparr>raf := b\<rparr>) w = worker_ok s w" "worker_ok (s\<lparr>aborted := b\<rparr>) w = worker_ok s w" for w
    by (cases w; simp add: puts_def)+
  then show "core M X (s\<lparr>raf := b\<rparr>) \<longleftrightarrow> core M X s" "core M X (s\<lparr>aborted := b\<rparr>) \<longleftrightarrow> core M X s"
    by (simp_all add: core_def parts_ok_def part_ok_def cover_def log_ok_def puts_def)
qed

lemma core_flush [simp]: "core M X (flushProgress s) \<longleftrightarrow> core M X s"
  using core_emit [of M X True s] core_raf [where b = False and s = s and M = M and X = X]
  by (simp add: emitChunkProgress_def flushProgress_def loaded_sum_def)

lemma exec_inv [step_inv]:
  assumes inv: "upl_inv s" and e: "exec json_ok ev s = Some s'"
  shows "upl_inv s'"
proof (cases ev)
  case AbortSignal
  with assms show ?thesis by (auto simp: upl_inv_def)
next
  case AnimationFrame
  with assms show ?thesis
    by (auto simp: upl_inv_def flushProgress_def split: if_splits)
      (metis core_flush flushProgress_def)
next
  case (Progress k l)
  with assms on_progress_inv show ?thesis by (auto split: if_splits worker.splits)
next
  case (Wake k)
  with e obtain i a where k: "k < length (workers s)" "workers s ! k = Sleeping i a"
    and s': "s' = put_worker k (continue (after_sleep i a s))"
    by (auto split: if_splits worker.splits)
  have "core (add_mset (Sleeping i a) (mset (workers s) - {#Sleeping i a#})) {} s"
    using inv k mset_remove_nth [of k "workers s"] by (simp add: upl_inv_def)
  from after_sleep_resumes [OF this] k show ?thesis
    unfolding s' by (intro put_worker_inv) (simp_all add: workers_frame)
next
  case (Answer k out)
  with e obtain i a where k: "k < length (workers s)" "workers s ! k = Putting i a"
    and s': "s' = put_worker k (continue (after_put i a (put_resolve json_ok out) s))"
    by (auto split: if_splits worker.splits)
  have "core (add_mset (Putting i a) (mset (workers s) - {#Putting i a#})) {} s"
    using inv k mset_remove_nth [of k "workers s"] by (simp add: upl_inv_def)
  from after_put_resumes [OF this] k show ?thesis
    unfolding s' by (intro put_worker_inv) (simp_all add: workers_frame)
qed

lemma initial_inv: "core {#} {} (initial_state opts sz n m)"
  unfolding initial_state_def Let_def core_emit
  by (auto simp: core_defs init_chunks_def init_chunk_def)

lemma workers_initial [simp]: "workers (initial_state opts sz n m) = []"
  by (simp add: initial_state_def Let_def)

lemma start_workers_inv: "upl_inv s \<Longrightarrow> upl_inv (start_workers n s)"
proof (induction n arbitrary: s)
  case 0
  then show ?case by simp
next
  case (Suc n)
  obtain s1 w where w: "worker_loop s = (s1, w)" by fastforce
  have "workers s1 = workers s" using workers_frame(4) [of s] w by simp
  moreover have "core (add_mset w (mset (workers s))) {} s1"
    using worker_loop_core [of "mset (workers s)" s] Suc.prems w by (simp add: upl_inv_def)
  ultimately have "upl_inv (s1\<lparr>workers := workers s1 @ [w]\<rparr>)" by (simp add: upl_inv_def)
  with Suc.IH w show ?case by simp
qed

section \<open>The measure\<close>

fun weight :: "nat \<Rightarrow> worker \<Rightarrow> nat" where
  "weight R (Sleeping i a) = 2 * (R - a) + 2"
| "weight R (Putting i a) = 2 * (R - a) + 1"
| "weight R Finished = 0"

definition rank_of :: "worker multiset \<Rightarrow> upl \<Rightarrow> nat" where
  "rank_of M s = (chunk_count s - next_index s) * (2 * max_retries s + 2) +
     sum_mset (image_mset (weight (max_retries s)) M)"

definition upl_rank :: "upl \<Rightarrow> nat" where
  "upl_rank s = rank_of (mset (workers s)) s"

lemma rank_of_add [simp]: "rank_of (add_mset w M) s = rank_of M s + weight (max_retries s) w"
  by (simp add: rank_of_def)

text \<open>The fields no event changes, and the part counter the code for one part leaves alone.\<close>

definition same_session :: "upl \<Rightarrow> upl \<Rightarrow> bool" where
  "same_session s t \<longleftrightarrow> file_size t = file_size s \<and> chunk_size t = chunk_size s \<and>
     chunk_count t = chunk_count s \<and> max_retries t = max_retries s \<and>
     length (workers t) = length (workers s)"

lemma one_part_frame:
  "same_session s (fst (begin_attempt i a s))"
  "next_index (fst (begin_attempt i a s)) = next_index s"
  "same_session s (fst (after_sleep i a s))"
  "next_index (fst (after_sleep i a s)) = next_index s"
  "same_session s (fst (after_put i a r s))"
  "next_index (fst (after_put i a r s)) = next_index s"
proof -
  show b: "same_session s (fst (begin_attempt i a s))" "next_index (fst (begin_attempt i a s)) = next_index s"
    for i a s
    by (auto simp: same_session_def begin_attempt_def set_status_def Let_def split: option.splits)
  show "same_session s (fst (after_sleep i a s))" "next_index (fst (after_sleep i a s)) = next_index s"
    by (auto simp: same_session_def after_sleep_def set_status_def)
  show "same_session s (fst (after_put i a r s))" "next_index (fst (after_put i a r s)) = next_index s"
    using b by (auto simp: same_session_def after_put_def set_status_def)
qed

lemma worker_loop_frame: "same_session s (fst (worker_loop s))"
  using one_part_frame(1) [of "s\<lparr>next_index := next_index s + 1\<rparr>" "next_index s" 0]
  by (auto simp: same_session_def worker_loop_def Let_def split: prod.splits sum.splits option.splits)

lemma rank_of_cong:
  "same_session s t \<Longrightarrow> next_index t = next_index s \<Longrightarrow> rank_of M t = rank_of M s"
  by (simp add: rank_of_def same_session_def)

lemma rank_of_note_error [simp]: "rank_of M (note_error e s) = rank_of M s"
  by (simp add: rank_of_def)

lemma weight_begin: "begin_attempt i a s = (s', Inr w) \<Longrightarrow>
   w = (if a = 0 then Putting i 0 else Sleeping i a)"
  by (auto simp: begin_attempt_def Let_def split: if_splits option.splits)

lemma begin_not_none: "begin_attempt i a s \<noteq> (s', Inl None)"
  by (auto simp: begin_attempt_def Let_def split: if_splits option.splits)

lemma worker_loop_rank: "rank_of (add_mset (snd (worker_loop s)) M) (fst (worker_loop s)) \<le> rank_of M s"
proof (cases "aborted s \<or> first_error s \<noteq> None \<or> chunk_count s \<le> next_index s")
  case True
  then show ?thesis by (auto simp: worker_loop_def Let_def rank_of_def)
next
  case False
  define s1 where "s1 = s\<lparr>next_index := next_index s + 1\<rparr>"
  obtain s2 r where r: "begin_attempt (next_index s) 0 s1 = (s2, r)" by fastforce
  have f: "rank_of M s2 = rank_of M s1" "max_retries s2 = max_retries s"
    using one_part_frame(1,2) [where s = s1 and i = "next_index s" and a = 0] r
    by (auto intro!: rank_of_cong simp: same_session_def s1_def)
  have "chunk_count s - next_index s = Suc (chunk_count s - Suc (next_index s))" using False by auto
  then have d: "rank_of M s1 + (2 * max_retries s + 2) = rank_of M s"
    by (simp add: rank_of_def s1_def)
  have "rank_of (add_mset (snd (worker_loop s)) M) (fst (worker_loop s)) \<le> rank_of M s2 + (2 * max_retries s + 1)"
    using False r f(2) weight_begin [of "next_index s" 0 s1] begin_not_none [of "next_index s" 0 s1]
    by (auto simp: worker_loop_def Let_def s1_def split: sum.splits option.splits)
  with f d show ?thesis by linarith
qed

lemma continue_rank:
  "(\<And>s w. r = (s, Inr w) \<Longrightarrow> rank_of (add_mset w M) s \<le> n) \<Longrightarrow>
   rank_of M (fst r) \<le> n \<Longrightarrow>
   rank_of (add_mset (snd (continue r)) M) (fst (continue r)) \<le> n"
proof (cases r rule: continue.cases)
  case (3 s)
  assume "rank_of M (fst r) \<le> n"
  with 3 show ?thesis using worker_loop_rank [of s M] by (auto intro: order_trans)
qed auto

lemma put_worker_rank:
  assumes "k < length (workers (fst r))"
  shows "upl_rank (put_worker k (continue r)) =
    rank_of (add_mset (snd (continue r)) (mset (workers (fst r)) - {#workers (fst r) ! k#})) (fst (continue r))"
  using assms by (simp add: upl_rank_def rank_of_def put_worker_def workers_continue mset_update)

fun is_work :: "event \<Rightarrow> bool" where
  "is_work (Wake k) = True"
| "is_work (Answer k out) = True"
| "is_work _ = False"

lemma exec_rank:
  assumes inv: "upl_inv s" and e: "exec json_ok ev s = Some s'"
  shows "upl_rank s' \<le> upl_rank s - (if is_work ev then 1 else 0) \<and> (is_work ev \<longrightarrow> 0 < upl_rank s)"
proof (cases ev)
  case (Wake k)
  with e obtain i a where k: "k < length (workers s)" "workers s ! k = Sleeping i a"
    and s': "s' = put_worker k (continue (after_sleep i a s))"
    by (auto split: if_splits worker.splits)
  define M where "M = mset (workers s) - {#Sleeping i a#}"
  have M: "mset (workers s) = add_mset (Sleeping i a) M"
    using k mset_remove_nth [of k "workers s"] by (simp add: M_def)
  have "rank_of M (fst (after_sleep i a s)) = rank_of M s"
    and R: "max_retries (fst (after_sleep i a s)) = max_retries s"
    using one_part_frame(3,4) [where s = s and i = i and a = a] by (auto intro: rank_of_cong simp: same_session_def)
  then have "upl_rank s' \<le> rank_of M s + (2 * (max_retries s - a) + 1)"
    unfolding s' using k workers_frame(2) [of i a s]
    by (subst put_worker_rank) (auto simp: M_def [symmetric] intro!: continue_rank
        simp: after_sleep_def split: if_splits)
  then show ?thesis using Wake by (auto simp: upl_rank_def M)
next
  case (Answer k out)
  with e obtain i a where k: "k < length (workers s)" "workers s ! k = Putting i a"
    and s': "s' = put_worker k (continue (after_put i a (put_resolve json_ok out) s))"
    by (auto split: if_splits worker.splits)
  define r where "r = put_resolve json_ok out"
  define M where "M = mset (workers s) - {#Putting i a#}"
  have M: "mset (workers s) = add_mset (Putting i a) M"
    using k mset_remove_nth [of k "workers s"] by (simp add: M_def)
  have a: "a \<le> max_retries s" using inv M by (simp add: upl_inv_def core_def)
  have fr: "rank_of M (fst (after_put i a r s)) = rank_of M s"
    and R: "max_retries (fst (after_put i a r s)) = max_retries s"
    using one_part_frame(5,6) [where s = s and i = i and a = a and r = r] by (auto intro: rank_of_cong simp: same_session_def)
  have w: "rank_of (add_mset w M) t \<le> rank_of M s + 2 * (max_retries s - a)"
    if "after_put i a r s = (t, Inr w)" for t w
    using that fr R a weight_begin [of i "a + 1" s t w]
    by (auto simp: after_put_def split: if_splits)
  have "upl_rank s' \<le> rank_of M s + 2 * (max_retries s - a)"
    unfolding s' r_def [symmetric] using k workers_frame(3) [of i a r s]
      continue_rank [of "after_put i a r s" M, OF w] fr
    by (subst put_worker_rank) (simp_all add: M_def [symmetric])
  then show ?thesis using Answer by (auto simp: upl_rank_def M)
qed (use e in \<open>auto simp: upl_rank_def rank_of_def flushProgress_def on_progress_def
      split: if_splits worker.splits\<close>)

interpretation upl: ranked_machine "exec json_ok" upl_inv is_work upl_rank for json_ok
proof
  show "upl_inv t" if "upl_inv s" "exec json_ok e s = Some t" for s e t
    using that by (rule exec_inv)
  show "upl_rank t < upl_rank s" if "upl_inv s" "exec json_ok e s = Some t" "is_work e" for s e t
    using exec_rank [OF that(1,2)] that(3) by auto
  show "upl_rank t \<le> upl_rank s" if "upl_inv s" "exec json_ok e s = Some t" for s e t
    using exec_rank [OF that] by auto
qed

section \<open>Executions of a session\<close>

lemma exec_same: "exec json_ok ev s = Some t \<Longrightarrow> same_session s t"
proof (cases ev)
  case (Wake k)
  assume "exec json_ok ev s = Some t"
  moreover have "same_session s (fst (continue (after_sleep i a s)))" for i a
    using one_part_frame(3) [of s i a] worker_loop_frame
    by (cases "after_sleep i a s" rule: continue.cases) (auto simp: same_session_def)
  ultimately show ?thesis using Wake
    by (auto simp: put_worker_def same_session_def split: if_splits worker.splits)
next
  case (Answer k out)
  assume "exec json_ok ev s = Some t"
  moreover have "same_session s (fst (continue (after_put i a r s)))" for i a r
    using one_part_frame(5) [of s i a r] worker_loop_frame
    by (cases "after_put i a r s" rule: continue.cases) (auto simp: same_session_def)
  ultimately show ?thesis using Answer
    by (auto simp: put_worker_def same_session_def split: if_splits worker.splits)
qed (auto simp: same_session_def flushProgress_def on_progress_def split: if_splits worker.splits)

interpretation ses: machine "exec json_ok" "same_session s0" for json_ok s0
  by unfold_locales (use exec_same in \<open>force simp: same_session_def\<close>)

lemma start_workers_frame:
  "file_size (start_workers n s) = file_size s" "chunk_size (start_workers n s) = chunk_size s"
  "chunk_count (start_workers n s) = chunk_count s" "max_retries (start_workers n s) = max_retries s"
  "length (workers (start_workers n s)) = length (workers s) + n"
proof (induction n arbitrary: s)
  case (Suc n)
  {
    case 1 show ?case using Suc.IH(1) worker_loop_frame [of s]
      by (auto simp: same_session_def split: prod.splits)
  next
    case 2 show ?case using Suc.IH(2) worker_loop_frame [of s]
      by (auto simp: same_session_def split: prod.splits)
  next
    case 3 show ?case using Suc.IH(3) worker_loop_frame [of s]
      by (auto simp: same_session_def split: prod.splits)
  next
    case 4 show ?case using Suc.IH(4) worker_loop_frame [of s]
      by (auto simp: same_session_def split: prod.splits)
  next
    case 5 show ?case using Suc.IH(5) worker_loop_frame [of s]
      by (auto simp: same_session_def split: prod.splits)
  }
qed simp_all

text \<open>A session that was opened, run by an arbitrary list of events.\<close>

definition session_run ::
    "(string \<Rightarrow> bool) \<Rightarrow> upload_options \<Rightarrow> nat \<Rightarrow> response \<Rightarrow> nat \<times> nat \<Rightarrow> event list \<Rightarrow> upl option" where
  "session_run json_ok opts sz resp sess es =
     (case open_session json_ok opts sz resp (Inr sess) False of
        Inl _ \<Rightarrow> None | Inr s \<Rightarrow> run (exec json_ok) es s)"

lemma session_run_inv:
  assumes "session_run json_ok opts sz resp sess es = Some s"
  shows "upl_inv s" "file_size s = sz" "chunk_count s = snd sess"
    "max_retries s = retries opts" "chunk_size s = (if fst sess = 0 then preferred_chunk opts sz else fst sess)"
    "0 < chunk_count s \<Longrightarrow> workers s \<noteq> []"
proof -
  obtain n m where sess: "sess = (n, m)" by fastforce
  define s0 where "s0 = start_workers (min (concurrency opts sz m) m) (initial_state opts sz n m)"
  from assms have r: "run (exec json_ok) es s0 = Some s"
    by (auto simp: session_run_def open_session_def sess s0_def Let_def split: if_splits)
  have "upl_inv s0" unfolding s0_def
    by (rule start_workers_inv) (simp add: upl_inv_def initial_inv)
  with upl.inv_run [OF r] show "upl_inv s" by simp
  have ss: "same_session s0 s" using ses.inv_run [OF r] by (simp add: same_session_def)
  then show "file_size s = sz" "chunk_count s = snd sess" "max_retries s = retries opts"
    "chunk_size s = (if fst sess = 0 then preferred_chunk opts sz else fst sess)"
    by (simp_all add: same_session_def s0_def start_workers_frame initial_state_def Let_def sess)
  show "workers s \<noteq> []" if "0 < chunk_count s"
  proof -
    have "0 < min (concurrency opts sz m) m" using that ss
      by (auto simp: concurrency_def same_session_def s0_def start_workers_frame initial_state_def Let_def)
    then have "0 < length (workers s0)" by (simp add: s0_def start_workers_frame)
    with ss show ?thesis by (auto simp: same_session_def)
  qed
qed

section \<open>What the server accepted, and the first failure\<close>

text \<open>
  Read off an execution without the state of the parts: the parts for which a response with a status from 200 to 299
  arrived, and the first event that fails the upload. An answer fails it when it refuses the part for good, when it was
  the last attempt, or when the signal has fired; a finished back-off only when the signal has fired.
\<close>

fun accepted_part :: "event \<Rightarrow> upl \<Rightarrow> nat option" where
  "accepted_part (Answer k (Load st txt code)) s =
     (if k < length (workers s) \<and> 200 \<le> st \<and> st < 300 then held (workers s ! k) else None)"
| "accepted_part ev s = None"

fun accepted_parts :: "(string \<Rightarrow> bool) \<Rightarrow> event list \<Rightarrow> upl \<Rightarrow> nat set" where
  "accepted_parts json_ok [] s = {}"
| "accepted_parts json_ok (ev # es) s = set_option (accepted_part ev s) \<union>
     (case exec json_ok ev s of Some t \<Rightarrow> accepted_parts json_ok es t | None \<Rightarrow> {})"

fun outcome_status :: "xhr_outcome \<Rightarrow> nat" where
  "outcome_status (Load st txt code) = st"
| "outcome_status out = 0"

definition refused :: "(string \<Rightarrow> bool) \<Rightarrow> nat \<Rightarrow> xhr_outcome \<Rightarrow> upl \<Rightarrow> nat \<Rightarrow> upload_error option" where
  "refused json_ok i out s a =
     (let st = outcome_status out in
      if 200 \<le> st \<and> st < 300 then (if aborted s then Some (aborted_error []) else None)
      else if 400 \<le> st \<and> st < 500 \<and> st \<noteq> 408 \<and> st \<noteq> 429
      then Some (chunk_error (put_resolve json_ok out) (''chunk '' @ show_nat i @ '' failed''))
      else if a = max_retries s
      then Some (chunk_error (put_resolve json_ok out) (''chunk '' @ show_nat i @ '' failed after retries''))
      else if aborted s then Some (aborted_error ''aborted'') else None)"

fun failure_of :: "(string \<Rightarrow> bool) \<Rightarrow> event \<Rightarrow> upl \<Rightarrow> upload_error option" where
  "failure_of json_ok (Answer k out) s =
     (case workers s ! k of Putting i a \<Rightarrow> refused json_ok i out s a | _ \<Rightarrow> None)"
| "failure_of json_ok (Wake k) s = (if aborted s then Some (aborted_error []) else None)"
| "failure_of json_ok ev s = None"

fun first_failure :: "(string \<Rightarrow> bool) \<Rightarrow> event list \<Rightarrow> upl \<Rightarrow> upload_error option" where
  "first_failure json_ok [] s = None"
| "first_failure json_ok (ev # es) s =
     (case failure_of json_ok ev s of
        Some e \<Rightarrow> Some e
      | None \<Rightarrow> (case exec json_ok ev s of Some t \<Rightarrow> first_failure json_ok es t | None \<Rightarrow> None))"

text \<open>A part is marked done by an accepting answer only.\<close>

definition done_parts :: "upl \<Rightarrow> nat set" where
  "done_parts s = {i. i < length (chunks s) \<and> ch_status (chunks s ! i) = Done}"

lemma done_frame [simp]:
  "done_parts (emitChunkProgress b s) = done_parts s" "done_parts (note_error e s) = done_parts s"
  "done_parts (start_put i a s) = done_parts s" "done_parts (s\<lparr>next_index := n\<rparr>) = done_parts s"
  "done_parts (s\<lparr>slept := d\<rparr>) = done_parts s" "done_parts (s\<lparr>workers := ws\<rparr>) = done_parts s"
  by (simp_all add: done_parts_def)

lemma done_upd: "ch_status (f (chunks s ! i)) \<noteq> Done \<Longrightarrow> done_parts (upd_chunk i f s) \<subseteq> done_parts s"
proof
  fix x assume "ch_status (f (chunks s ! i)) \<noteq> Done" and x: "x \<in> done_parts (upd_chunk i f s)"
  then show "x \<in> done_parts s" by (cases "x = i") (auto simp: done_parts_def)
qed

lemma done_set_status: "st \<noteq> Done \<Longrightarrow> done_parts (set_status st i s) \<subseteq> done_parts s"
  by (simp add: set_status_def done_upd)

lemma done_begin: "done_parts (fst (begin_attempt i a s)) \<subseteq> done_parts s"
  using done_set_status [of Error i s] by (auto simp: begin_attempt_def Let_def split: option.splits dest!: subsetD [OF done_upd, rotated])

lemma done_sleep: "done_parts (fst (after_sleep i a s)) \<subseteq> done_parts s"
  using done_set_status [of Error i s] by (auto simp: after_sleep_def)

lemma done_put: "done_parts (fst (after_put i a r s)) \<subseteq> done_parts s \<union> (if p_ok r then {i} else {})"
proof -
  have "x \<in> insert i (done_parts s)" if "x \<in> done_parts (upd_chunk i f s)" for f x
    using that by (cases "x = i") (auto simp: done_parts_def)
  then have "done_parts (upd_chunk i f s) \<subseteq> insert i (done_parts s)" for f by blast
  then show ?thesis using done_set_status [of Error i s] done_begin [of i "a + 1" s] by (auto simp: after_put_def)
qed

lemma done_loop: "done_parts (fst (worker_loop s)) \<subseteq> done_parts s"
  using done_begin [of "next_index s" 0 "s\<lparr>next_index := next_index s + 1\<rparr>"]
  by (auto simp: worker_loop_def Let_def split: prod.splits sum.splits option.splits)

lemma done_continue: "done_parts (fst (continue r)) \<subseteq> done_parts (fst r)"
  using done_loop by (cases r rule: continue.cases) auto

lemma done_put_worker [simp]: "done_parts (put_worker k sw) = done_parts (fst sw)"
  by (simp add: put_worker_def)

lemma exec_done:
  assumes e: "exec json_ok ev s = Some t"
  shows "done_parts t \<subseteq> done_parts s \<union> set_option (accepted_part ev s)"
proof (cases ev)
  case (Wake k)
  with e obtain i a where "t = put_worker k (continue (after_sleep i a s))" by (auto split: if_splits worker.splits)
  then show ?thesis using done_continue [of "after_sleep i a s"] done_sleep [of i a s] by auto
next
  case (Answer k out)
  with e obtain i a where k: "k < length (workers s)" "workers s ! k = Putting i a"
    and t: "t = put_worker k (continue (after_put i a (put_resolve json_ok out) s))"
    by (auto split: if_splits worker.splits)
  have "done_parts t \<subseteq> done_parts s \<union> (if p_ok (put_resolve json_ok out) then {i} else {})"
    using done_continue [of "after_put i a (put_resolve json_ok out) s"] done_put [of i a "put_resolve json_ok out" s] t by auto
  then show ?thesis using Answer k by (cases out) (auto split: if_splits)
next
  case (Progress k l)
  with e obtain i a where "t = on_progress i a l s" by (auto split: if_splits worker.splits)
  then show ?thesis by (auto simp: on_progress_def split: if_splits dest!: subsetD [OF done_upd, rotated])
qed (use e in \<open>auto simp: done_parts_def flushProgress_def split: if_splits\<close>)

lemma run_done: "run (exec json_ok) es s = Some t \<Longrightarrow> done_parts t \<subseteq> done_parts s \<union> accepted_parts json_ok es s"
proof (induction es arbitrary: s)
  case (Cons ev es)
  then obtain u where u: "exec json_ok ev s = Some u" "run (exec json_ok) es u = Some t" by (auto split: option.splits)
  with Cons.IH [OF u(2)] exec_done [OF u(1)] show ?case by auto
qed simp

text \<open>The error recorded is that of the first failure.\<close>

lemma begin_error:
  "first_error s = None \<Longrightarrow> begin_attempt i a s = (t, r) \<Longrightarrow>
   first_error t = None \<and> aborted t = aborted s \<and>
   (if aborted s then r = Inl (Some (aborted_error ''aborted'')) else \<exists>w. r = Inr w)"
  by (auto simp: begin_attempt_def set_status_def Let_def split: if_splits)

lemma loop_error:
  assumes "first_error s = None"
  shows "first_error (fst (worker_loop s)) = (if aborted s then Some (aborted_error []) else None)"
proof -
  obtain t r where "begin_attempt (next_index s) 0 (s\<lparr>next_index := next_index s + 1\<rparr>) = (t, r)" by fastforce
  with begin_error [OF _ this] assms show ?thesis
    by (auto simp: worker_loop_def note_error_def Let_def)
qed

lemma continue_error:
  "first_error s = None \<Longrightarrow>
   first_error (fst (continue (s, r))) =
     (case r of Inr w \<Rightarrow> None | Inl (Some e) \<Rightarrow> Some e | Inl None \<Rightarrow> if aborted s then Some (aborted_error []) else None)"
  by (auto simp: loop_error note_error_def split: sum.splits option.splits)

lemma put_error:
  assumes "first_error s = None"
  shows "first_error (fst (continue (after_put i a (put_resolve json_ok out) s))) = refused json_ok i out s a"
proof -
  have ok: "p_ok (put_resolve json_ok out) \<longleftrightarrow> 200 \<le> outcome_status out \<and> outcome_status out < 300"
    and st: "p_status (put_resolve json_ok out) = outcome_status out" by (cases out; simp)+
  obtain t r where b: "begin_attempt i (a + 1) s = (t, r)" by fastforce
  show ?thesis
    unfolding after_put_def b ok st permanent_def refused_def Let_def
    using assms begin_error [OF assms b] by (auto simp: continue_error loop_error set_status_def note_error_def split: sum.splits option.splits)
qed

lemma sleep_error:
  "first_error s = None \<Longrightarrow>
   first_error (fst (continue (after_sleep i a s))) = (if aborted s then Some (aborted_error []) else None)"
  by (auto simp: after_sleep_def continue_error set_status_def note_error_def)

lemma first_kept:
  "first_error s = Some e \<Longrightarrow> first_error (fst (begin_attempt i a s)) = Some e"
  "first_error s = Some e \<Longrightarrow> first_error (fst (after_sleep i a s)) = Some e"
  "first_error s = Some e \<Longrightarrow> first_error (fst (after_put i a r s)) = Some e"
  "first_error s = Some e \<Longrightarrow> first_error (fst (worker_loop s)) = Some e"
proof -
  show b: "first_error (fst (begin_attempt i a s)) = Some e" if "first_error s = Some e" for i a
    using that by (auto simp: begin_attempt_def set_status_def Let_def split: option.splits)
  show "first_error s = Some e \<Longrightarrow> first_error (fst (after_sleep i a s)) = Some e"
    by (auto simp: after_sleep_def set_status_def)
  show "first_error s = Some e \<Longrightarrow> first_error (fst (after_put i a r s)) = Some e"
    using b by (auto simp: after_put_def set_status_def)
  show "first_error s = Some e \<Longrightarrow> first_error (fst (worker_loop s)) = Some e"
    by (auto simp: worker_loop_def note_error_def)
qed

lemma continue_kept: "first_error (fst r) = Some e \<Longrightarrow> first_error (fst (continue r)) = Some e"
  by (cases r rule: continue.cases) (auto simp: first_kept note_error_def)

lemma exec_error:
  assumes e: "exec json_ok ev s = Some t"
  shows "first_error t = (case first_error s of Some e \<Rightarrow> Some e | None \<Rightarrow> failure_of json_ok ev s)"
proof (cases ev)
  case (Wake k)
  with e obtain i a where k: "k < length (workers s)" "workers s ! k = Sleeping i a"
    and t: "t = put_worker k (continue (after_sleep i a s))" by (auto split: if_splits worker.splits)
  then have "first_error t = first_error (fst (continue (after_sleep i a s)))" by (simp add: put_worker_def)
  then show ?thesis using k Wake continue_kept [OF first_kept(2)] sleep_error by (cases "first_error s") auto
next
  case (Answer k out)
  with e obtain i a where k: "k < length (workers s)" "workers s ! k = Putting i a"
    and t: "t = put_worker k (continue (after_put i a (put_resolve json_ok out) s))"
    by (auto split: if_splits worker.splits)
  then have "first_error t = first_error (fst (continue (after_put i a (put_resolve json_ok out) s)))"
    by (simp add: put_worker_def)
  then show ?thesis using k Answer continue_kept [OF first_kept(3)] put_error by (cases "first_error s") auto
qed (use e in \<open>auto simp: flushProgress_def on_progress_def split: if_splits worker.splits option.splits\<close>)

lemma run_error:
  "run (exec json_ok) es s = Some t \<Longrightarrow>
   first_error t = (case first_error s of Some e \<Rightarrow> Some e | None \<Rightarrow> first_failure json_ok es s)"
proof (induction es arbitrary: s)
  case (Cons ev es)
  then obtain u where u: "exec json_ok ev s = Some u" "run (exec json_ok) es u = Some t" by (auto split: option.splits)
  with Cons.IH [OF u(2)] exec_error [OF u(1)] show ?case by (auto split: option.splits)
qed (simp split: option.splits)

text \<open>The parts are first sent in the order of their numbers.\<close>

definition first_sends :: "upl \<Rightarrow> request list" where
  "first_sends s = rev (remdups (rev (requests s)))"

definition in_turn :: "upl \<Rightarrow> bool" where
  "in_turn s \<longleftrightarrow> first_sends s = map PutChunk [0..<min (next_index s) (chunk_count s)]"

lemma in_turn_frame [simp]:
  "in_turn (emitChunkProgress b s) = in_turn s" "in_turn (note_error e s) = in_turn s"
  "in_turn (upd_chunk i f s) = in_turn s" "in_turn (s\<lparr>slept := d\<rparr>) = in_turn s" "in_turn (s\<lparr>workers := ws\<rparr>) = in_turn s"
  "in_turn (set_status st i s) = in_turn s"
  by (simp_all add: in_turn_def first_sends_def set_status_def)

lemma in_turn_again: "in_turn s \<Longrightarrow> i < next_index s \<Longrightarrow> i < chunk_count s \<Longrightarrow> in_turn (start_put i a s)"
proof -
  assume s: "in_turn s" "i < next_index s" "i < chunk_count s"
  then have "PutChunk i \<in> set (first_sends s)" by (auto simp: in_turn_def)
  then have "PutChunk i \<in> set (requests s)" by (simp add: first_sends_def)
  then show ?thesis using s by (simp add: in_turn_def first_sends_def start_put_def)
qed

lemma in_turn_begin:
  "in_turn s \<Longrightarrow> i < next_index s \<Longrightarrow> i < chunk_count s \<Longrightarrow> in_turn (fst (begin_attempt i a s))"
  by (auto simp: begin_attempt_def Let_def intro!: in_turn_again split: option.splits)

lemma in_turn_next:
  assumes s: "in_turn s" "next_index s < chunk_count s" and go: "\<not> aborted s" "first_error s = None"
  shows "in_turn (fst (begin_attempt (next_index s) 0 (s\<lparr>next_index := next_index s + 1\<rparr>)))"
proof -
  let ?s = "emitChunkProgress True (upd_chunk (next_index s) (\<lambda>c. c\<lparr>ch_attempt := 1, ch_status := Uploading, ch_loaded := 0\<rparr>)
    (s\<lparr>next_index := next_index s + 1\<rparr>))"
  have "PutChunk (next_index s) \<notin> set (first_sends s)" using s by (auto simp: in_turn_def)
  then have "PutChunk (next_index s) \<notin> set (requests s)" by (simp add: first_sends_def)
  then have "in_turn (start_put (next_index s) 0 ?s)"
    using s go by (simp add: in_turn_def first_sends_def start_put_def min_absorb1)
  then show ?thesis using go by (simp add: begin_attempt_def Let_def)
qed

lemma in_turn_loop: "in_turn s \<Longrightarrow> in_turn (fst (worker_loop s))"
  using in_turn_next [of s]
  by (auto simp: worker_loop_def Let_def in_turn_def first_sends_def min_def split: prod.splits sum.splits option.splits)

lemma in_turn_continue: "in_turn (fst r) \<Longrightarrow> in_turn (fst (continue r))"
  using in_turn_loop by (cases r rule: continue.cases) auto

lemma exec_in_turn:
  assumes inv: "upl_inv s" and s: "in_turn s" and e: "exec json_ok ev s = Some t"
  shows "in_turn t"
proof (cases ev)
  case (Wake k)
  with e obtain i a where k: "k < length (workers s)" "workers s ! k = Sleeping i a"
    and t: "t = put_worker k (continue (after_sleep i a s))" by (auto split: if_splits worker.splits)
  have "workers s ! k \<in># mset (workers s)" using k(1) by simp
  with inv k(2) have "i < next_index s" "i < chunk_count s" unfolding upl_inv_def core_def by force+
  then have "in_turn (fst (after_sleep i a s))" using s by (auto simp: after_sleep_def intro: in_turn_again)
  then show ?thesis using in_turn_continue t by (simp add: put_worker_def)
next
  case (Answer k out)
  with e obtain i a where k: "k < length (workers s)" "workers s ! k = Putting i a"
    and t: "t = put_worker k (continue (after_put i a (put_resolve json_ok out) s))"
    by (auto split: if_splits worker.splits)
  have "workers s ! k \<in># mset (workers s)" using k(1) by simp
  with inv k(2) have "i < next_index s" "i < chunk_count s" unfolding upl_inv_def core_def by force+
  then have "in_turn (fst (after_put i a (put_resolve json_ok out) s))"
    using s by (auto simp: after_put_def intro: in_turn_begin)
  then show ?thesis using in_turn_continue t by (simp add: put_worker_def)
qed (use e s in \<open>auto simp: in_turn_def first_sends_def flushProgress_def on_progress_def split: if_splits worker.splits\<close>)

interpretation turn: machine "exec json_ok" "\<lambda>s. upl_inv s \<and> in_turn s" for json_ok
  by unfold_locales (use exec_inv exec_in_turn in blast)

text \<open>The state the workers were started in.\<close>

lemma start_workers_Suc:
  "worker_loop s = (t, w) \<Longrightarrow> start_workers (Suc n) s = start_workers n (t\<lparr>workers := workers t @ [w]\<rparr>)"
  by simp

lemma start_workers_in_turn: "in_turn s \<Longrightarrow> in_turn (start_workers n s)"
proof (induction n arbitrary: s)
  case (Suc n)
  obtain t w where w: "worker_loop s = (t, w)" by fastforce
  show ?case unfolding start_workers_Suc [OF w] using in_turn_loop [OF Suc.prems] w by (intro Suc.IH) simp
qed simp

lemma start_workers_done: "done_parts (start_workers n s) \<subseteq> done_parts s"
proof (induction n arbitrary: s)
  case (Suc n)
  obtain t w where w: "worker_loop s = (t, w)" by fastforce
  show ?case unfolding start_workers_Suc [OF w]
    using Suc.IH [of "t\<lparr>workers := workers t @ [w]\<rparr>"] done_loop [of s] w by auto
qed simp

lemma start_workers_error:
  "first_error s = None \<Longrightarrow> \<not> aborted s \<Longrightarrow> first_error (start_workers n s) = None"
proof (induction n arbitrary: s)
  case (Suc n)
  obtain t w where w: "worker_loop s = (t, w)" by fastforce
  obtain u r where b: "begin_attempt (next_index s) 0 (s\<lparr>next_index := next_index s + 1\<rparr>) = (u, r)" by fastforce
  have "\<not> aborted t" using begin_error [OF _ b] Suc.prems b w
    by (auto simp: worker_loop_def Let_def split: if_splits sum.splits option.splits)
  moreover have "first_error t = None" using loop_error [of s] Suc.prems w by simp
  ultimately show ?case unfolding start_workers_Suc [OF w] by (intro Suc.IH) simp_all
qed simp

definition session_start :: "(string \<Rightarrow> bool) \<Rightarrow> upload_options \<Rightarrow> nat \<Rightarrow> response \<Rightarrow> nat \<times> nat \<Rightarrow> upl" where
  "session_start json_ok opts sz resp sess = projr (open_session json_ok opts sz resp (Inr sess) False)"

lemma session_run_facts:
  assumes "session_run json_ok opts sz resp sess es = Some s"
  defines "s0 \<equiv> session_start json_ok opts sz resp sess"
  shows "done_parts s \<subseteq> accepted_parts json_ok es s0" "first_error s = first_failure json_ok es s0" "in_turn s"
proof -
  obtain n m where sess: "sess = (n, m)" by fastforce
  define i0 where "i0 = initial_state opts sz n m"
  have s0: "s0 = start_workers (min (concurrency opts sz m) m) i0" and r: "run (exec json_ok) es s0 = Some s"
    using assms by (auto simp: session_run_def session_start_def open_session_def sess i0_def Let_def split: if_splits)
  have "done_parts i0 = {}" "in_turn i0" "first_error i0 = None" "\<not> aborted i0"
    by (auto simp: i0_def initial_state_def Let_def done_parts_def in_turn_def first_sends_def init_chunks_def init_chunk_def)
  with start_workers_in_turn [of i0] start_workers_done [where s = i0] start_workers_error [of i0] have f: "done_parts s0 = {}" "in_turn s0" "first_error s0 = None"
    unfolding s0 by auto
  show "done_parts s \<subseteq> accepted_parts json_ok es s0" using run_done [OF r] f by simp
  show "first_error s = first_failure json_ok es s0" using run_error [OF r] f by simp
  have "upl_inv s0" unfolding s0 by (rule start_workers_inv) (simp add: i0_def upl_inv_def initial_inv)
  then show "in_turn s" using turn.inv_run [OF r] f by simp
qed

lemma all_done:
  assumes inv: "upl_inv s" and fin: "all_finished s" and ws: "workers s \<noteq> []"
    and ok: "first_error s = None" and i: "i < chunk_count s"
  shows "ch_status (chunks s ! i) = Done \<and> ch_loaded (chunks s ! i) = ch_total (chunks s ! i) \<and>
    PutChunk i \<in> set (requests s)"
proof -
  have all: "\<forall>w\<in>#mset (workers s). w = Finished" using fin by (simp add: all_finished_def list_all_iff)
  then have "Finished \<in># mset (workers s)" using ws by (cases "workers s") auto
  with inv ok have le: "chunk_count s \<le> next_index s" by (simp add: upl_inv_def core_def cover_def)
  have "free i (mset (workers s))" using all by (auto simp: free_def)
  with inv ok i le have d: "ch_status (chunks s ! i) = Done"
    by (auto simp: upl_inv_def core_def cover_def)
  with core_part [OF inv [unfolded upl_inv_def] i]
  have "ch_loaded (chunks s ! i) = ch_total (chunks s ! i)" "count_list (requests s) (PutChunk i) \<noteq> 0"
    by (auto simp: part_ok_def Let_def puts_def)
  with d show ?thesis by (simp add: count_list_0_iff)
qed

section \<open>Properties\<close>

text \<open>
  C1: the session is completed only when the upload is complete. Whatever the server answers, in whatever order the workers
  are resumed and whether or not the signal fires, if the code after the workers posts the completion request, then every
  part was sent, the server answered one of its requests with a status from 200 to 299, and it is reported as fully loaded.
\<close>

theorem complete_only_when_all_parts_done:
  assumes "session_run json_ok opts sz resp sess es = Some s" and "all_finished s"
    and "CompletePost \<in> set (requests (fst (finish_upload json_ok answer s)))"
    and "i < chunk_count s"
  shows "i \<in> accepted_parts json_ok es (session_start json_ok opts sz resp sess) \<and>
    PutChunk i \<in> set (requests s) \<and> ch_loaded (chunks s ! i) = ch_total (chunks s ! i)"
proof -
  note inv = session_run_inv [OF assms(1)]
  have "CompletePost \<notin> set (requests s)" using inv(1) by (auto simp: upl_inv_def core_def log_ok_def)
  with assms(3,4) have "first_error s = None"
    by (auto simp: finish_upload_def flush_pending_def flushProgress_def request_def Let_def
        split: option.splits if_splits)
  with assms(2,4) inv have all: "ch_status (chunks s ! i) = Done \<and> ch_loaded (chunks s ! i) = ch_total (chunks s ! i) \<and>
      PutChunk i \<in> set (requests s)" by (intro all_done) auto
  moreover have "i < length (chunks s)" using inv(1) assms(4) by (simp add: upl_inv_def core_def parts_ok_def)
  ultimately show ?thesis using session_run_facts(1) [OF assms(1)] by (auto simp: done_parts_def)
qed

definition plain_options :: upload_options where
  "plain_options = \<lparr>o_purpose = [], o_path = ''releases/a.jar'', o_checksums = False, o_gpg = False,
     o_chunkSize = 0, o_concurrency = 0, o_maxRetries = None\<rparr>"

definition ok_response :: response where
  "ok_response = \<lparr>h_status = 200, h_text = [], h_code = [], h_review = []\<rparr>"

text \<open>Two parts of three bytes, the second one answered with 503 first and retried.\<close>

definition sample_events :: "event list" where
  "sample_events = [Answer 1 (Load 503 [] []), Progress 0 2, Answer 0 (Load 200 [] []), Wake 1,
     Answer 1 (Load 200 [] [])]"

definition sample_state :: upl where
  "sample_state = the (session_run (\<lambda>_. False) plain_options 5 ok_response (3, 2) sample_events)"

lemma sample_run: "session_run (\<lambda>_. False) plain_options 5 ok_response (3, 2) sample_events = Some sample_state"
proof -
  have "\<not> Option.is_none (session_run (\<lambda>_. False) plain_options 5 ok_response (3, 2) sample_events)"
    by code_simp
  then show ?thesis by (auto simp: sample_state_def Option.is_none_def)
qed

theorem complete_only_when_all_parts_done_witness:
  "all_finished sample_state \<and>
   1 \<in> accepted_parts (\<lambda>_. False) sample_events (session_start (\<lambda>_. False) plain_options 5 ok_response (3, 2))"
proof -
  have f: "all_finished sample_state" by code_simp
  have c: "CompletePost \<in> set (requests (fst (finish_upload (\<lambda>_. False) None sample_state)))"
    by code_simp
  have n: "1 < chunk_count sample_state" by code_simp
  show ?thesis using f complete_only_when_all_parts_done [OF sample_run f c n] by simp
qed

text \<open>
  C2: workers never work on the same part at the same time: in every state of every execution two different workers hold
  different parts, a part is sent at most once more than the number of retries allowed, and the parts sent so far were first
  sent in the order of their numbers, without a gap.
\<close>

theorem parts_exclusive_and_attempts_bounded:
  assumes "session_run json_ok opts sz resp sess es = Some s"
  shows "(k < length (workers s) \<and> l < length (workers s) \<and> k \<noteq> l \<and> held (workers s ! k) = Some i
      \<longrightarrow> held (workers s ! l) \<noteq> Some i) \<and>
    (i < chunk_count s \<longrightarrow> count_list (requests s) (PutChunk i) \<le> retries opts + 1) \<and>
    (\<exists>m\<le>chunk_count s. rev (remdups (rev (requests s))) = map PutChunk [0..<m])"
proof (intro conjI impI)
  note inv = session_run_inv [OF assms]
  assume kl: "k < length (workers s) \<and> l < length (workers s) \<and> k \<noteq> l \<and> held (workers s ! k) = Some i"
  then have "workers s ! l \<in># mset (workers s) - {#workers s ! k#}"
    using nth_other_in by metis
  moreover have "exclusive (add_mset (workers s ! k) (mset (workers s) - {#workers s ! k#}))"
    using inv(1) kl by (simp add: upl_inv_def core_def)
  then have "free i (mset (workers s) - {#workers s ! k#})"
    using kl by (simp only: exclusive_add)
  ultimately show "held (workers s ! l) \<noteq> Some i" unfolding free_def by blast
next
  note inv = session_run_inv [OF assms]
  assume "i < chunk_count s"
  from core_part [OF inv(1) [unfolded upl_inv_def] this] inv(4)
  show "count_list (requests s) (PutChunk i) \<le> retries opts + 1"
    by (auto simp: part_ok_def Let_def puts_def)
next
  show "\<exists>m\<le>chunk_count s. rev (remdups (rev (requests s))) = map PutChunk [0..<m]"
    using session_run_facts(3) [OF assms]
    by (intro exI [of _ "min (next_index s) (chunk_count s)"]) (simp add: in_turn_def first_sends_def)
qed

theorem parts_exclusive_and_attempts_bounded_witness:
  "count_list (requests sample_state) (PutChunk 1) = 2 \<and>
   count_list (requests sample_state) (PutChunk 1) \<le> retries plain_options + 1"
proof -
  have n: "1 < chunk_count sample_state" by code_simp
  have c: "count_list (requests sample_state) (PutChunk 1) = 2" by code_simp
  show ?thesis
    using parts_exclusive_and_attempts_bounded [OF sample_run, where i = 1] n c by blast
qed

text \<open>
  C3: an upload comes to an end. From the opened session on, the number of worker resumptions
  (answers and finished back-offs) of any execution is at most \<open>2 R + 2\<close> per part plus the
  work of the parts already handed out, where \<open>R\<close> is the number of retries; and as long as
  a worker has not ended, it can be resumed.
\<close>

theorem upload_terminates:
  assumes "open_session json_ok opts sz resp (Inr (n, m)) False = Inr s0"
  shows "(run (exec json_ok) es s0 = Some s \<longrightarrow>
      length (filter is_work es) \<le> m * (2 * retries opts + 2)) \<and>
    (\<not> all_finished s \<longrightarrow> (\<exists>k. exec json_ok (Wake k) s \<noteq> None \<or> (\<forall>out. exec json_ok (Answer k out) s \<noteq> None)))"
proof (intro conjI impI)
  define s1 where "s1 = initial_state opts sz n m"
  have s0: "s0 = start_workers (min (concurrency opts sz m) m) s1"
    using assms by (auto simp: open_session_def Let_def s1_def split: if_splits)
  have "upl_inv s1" by (simp add: s1_def upl_inv_def initial_inv)
  then have inv: "upl_inv s0" unfolding s0 by (rule start_workers_inv)
  have "upl_rank (start_workers q t) \<le> upl_rank t" for q t
  proof (induction q arbitrary: t)
    case (Suc q)
    obtain t1 w where w: "worker_loop t = (t1, w)" by fastforce
    have "upl_rank (t1\<lparr>workers := workers t1 @ [w]\<rparr>) = rank_of (add_mset w (mset (workers t))) t1"
      using workers_frame(4) [of t] w by (simp add: upl_rank_def rank_of_def)
    also have "\<dots> \<le> upl_rank t" using worker_loop_rank [of t "mset (workers t)"] w
      by (simp add: upl_rank_def)
    finally show ?case using Suc [of "t1\<lparr>workers := workers t1 @ [w]\<rparr>"] w by simp
  qed simp
  then have "upl_rank s0 \<le> upl_rank s1" by (simp add: s0)
  also have "\<dots> = m * (2 * retries opts + 2)"
    by (simp add: upl_rank_def rank_of_def s1_def initial_state_def Let_def)
  finally show "length (filter is_work es) \<le> m * (2 * retries opts + 2)"
    if "run (exec json_ok) es s0 = Some s"
    using upl.work_bounded [OF that inv] by simp
  assume "\<not> all_finished s"
  then obtain k where k: "k < length (workers s)" "workers s ! k \<noteq> Finished"
    by (auto simp: all_finished_def list_all_length)
  show "\<exists>k. exec json_ok (Wake k) s \<noteq> None \<or> (\<forall>out. exec json_ok (Answer k out) s \<noteq> None)"
    using k by (intro exI [of _ k]) (cases "workers s ! k"; simp)
qed

theorem upload_terminates_witness:
  "length (filter is_work sample_events) \<le> 2 * (2 * retries plain_options + 2)"
proof -
  define s0 where "s0 = projr (open_session (\<lambda>_. False) plain_options 5 ok_response (Inr (3, 2)) False)"
  have o: "open_session (\<lambda>_. False) plain_options 5 ok_response (Inr (3, 2)) False = Inr s0"
    by (simp add: s0_def open_session_def resp_ok_def ok_response_def Let_def)
  have r: "run (exec (\<lambda>_. False)) sample_events s0 = Some sample_state"
    using sample_run by (simp add: session_run_def o)
  show ?thesis using upload_terminates [OF o, of sample_events sample_state] r by blast
qed

text \<open>
  C4: a failed upload is cleaned up. If an answer, a last attempt or the signal failed the upload, then after the workers
  only the DELETE of the session is sent, and the result carries the first of these failures, not a later one. Otherwise the
  completion is posted; if that request fails or is refused, the DELETE follows and no success is reported, and if it is
  accepted the upload succeeds and nothing is deleted.
\<close>

theorem failed_upload_aborts_session:
  assumes "session_run json_ok opts sz resp sess es = Some s" and "0 < chunk_count s"
  shows "let end = finish_upload json_ok answer s in
    (case first_failure json_ok es (session_start json_ok opts sz resp sess) of
       Some e \<Rightarrow> requests (fst end) = requests s @ [AbortDelete] \<and>
         snd end = Some \<lparr>r_ok = False, r_status = e_status e, r_body = e_body e,
           r_text = (if e_text e = [] then e_message e else e_text e), r_code = e_code e, r_review = []\<rparr>
     | None \<Rightarrow>
         (case answer of
            None \<Rightarrow> requests (fst end) = requests s @ [CompletePost, AbortDelete] \<and> snd end = None
          | Some (r, body) \<Rightarrow>
              (if 200 \<le> h_status r \<and> h_status r < 300
               then requests (fst end) = requests s @ [CompletePost] \<and>
                 snd end = Some \<lparr>r_ok = True, r_status = h_status r, r_body = body, r_text = [], r_code = [],
                   r_review = h_review r\<rparr>
               else requests (fst end) = requests s @ [CompletePost, AbortDelete] \<and>
                 map_option r_ok (snd end) = Some False \<and> map_option r_status (snd end) = Some (h_status r)))) \<and>
    set (requests s) \<inter> {CompletePost, AbortDelete} = {}"
proof -
  have "set (requests s) \<inter> {CompletePost, AbortDelete} = {}"
    using session_run_inv(1) [OF assms(1)] by (auto simp: upl_inv_def core_def log_ok_def)
  with assms(2) session_run_facts(2) [OF assms(1)] show ?thesis
    by (simp add: finish_upload_def complete_session_def flush_pending_def flushProgress_def request_def Let_def
        error_result_def or_else_def resp_ok_def failed_result_def split: option.split)
qed

definition failing_events :: "event list" where
  "failing_events = [Answer 1 (Load 403 ''denied'' ''locked''), Answer 0 (Load 200 [] [])]"

definition failing_state :: upl where
  "failing_state = the (session_run (\<lambda>_. False) plain_options 5 ok_response (3, 2) failing_events)"

theorem failed_upload_aborts_session_witness:
  "(let end = finish_upload (\<lambda>_. False) None failing_state in
    AbortDelete \<in> set (requests (fst end)) \<and> map_option r_status (snd end) = Some 403) \<and>
   requests (fst (finish_upload (\<lambda>_. False) (Some (ok_response\<lparr>h_status := 409\<rparr>, None)) sample_state)) =
     requests sample_state @ [CompletePost, AbortDelete]"
proof -
  have "\<not> Option.is_none (session_run (\<lambda>_. False) plain_options 5 ok_response (3, 2) failing_events)"
    by code_simp
  then have r: "session_run (\<lambda>_. False) plain_options 5 ok_response (3, 2) failing_events = Some failing_state"
    by (auto simp: failing_state_def Option.is_none_def)
  have n: "0 < chunk_count failing_state" "0 < chunk_count sample_state" by code_simp+
  have e: "first_failure (\<lambda>_. False) failing_events (session_start (\<lambda>_. False) plain_options 5 ok_response (3, 2)) =
      Some \<lparr>e_message = ''denied'', e_status = 403, e_body = None, e_text = ''denied'', e_code = ''locked''\<rparr>"
    "first_failure (\<lambda>_. False) sample_events (session_start (\<lambda>_. False) plain_options 5 ok_response (3, 2)) = None"
    by code_simp+
  show ?thesis
    using failed_upload_aborts_session [OF r n(1), of None]
      failed_upload_aborts_session [OF sample_run n(2), of "Some (ok_response\<lparr>h_status := 409\<rparr>, None)"]
    unfolding e by (simp add: Let_def)
qed

lemma parts_take:
  "concat (map (part_blob cs file) [0..<n]) = take (n * cs) file"
proof -
  have "part_blob cs file = (\<lambda>i. take cs (drop (i * cs) file))"
    by (auto simp: fun_eq_iff part_blob_def slice_def part_start_def part_end_def min_def)
  then show ?thesis by (simp add: concat_slices)
qed

text \<open>
  the parts are the file. With the number of parts the server computes, the blobs sent for
  the parts, put one after another, are exactly the bytes of the file, and the totals shown for
  the parts add up to its size.
\<close>

theorem parts_partition_file:
  assumes "0 < cs"
  shows "concat (map (part_blob cs file) [0..<ceil_div (length file) cs]) = file \<and>
    sum_list (map ch_total (init_chunks cs (length file) (ceil_div (length file) cs))) = length file"
proof -
  have t: "length (part_blob cs file i) = ch_total (init_chunk cs (length file) i)" for i
    by (auto simp: part_blob_def slice_def init_chunk_def part_start_def part_end_def)
  have c: "concat (map (part_blob cs file) [0..<ceil_div (length file) cs]) = file"
    using ceil_div_bound [OF assms, of "length file"] by (simp add: parts_take)
  then have "length (concat (map (part_blob cs file) [0..<ceil_div (length file) cs])) = length file"
    by simp
  then have "sum_list (map ch_total (init_chunks cs (length file) (ceil_div (length file) cs))) = length file"
    by (simp only: length_concat init_chunks_def map_map comp_def t)
  with c show ?thesis by simp
qed

theorem parts_partition_file_witness:
  "concat (map (part_blob 3 ''hello'') [0..<ceil_div (length ''hello'') 3]) = ''hello''"
  using parts_partition_file [of 3 "''hello''"] by simp

text \<open>
  part sizes and worker counts are within the server's limits: a suggested part is never
  empty and never above 32 MiB, files that are not worth splitting give a single part, and
  between one and six workers run, never more than there are parts.
\<close>

theorem suggested_sizes_bounded:
  "0 < suggestChunkSize (Some fs) \<and> suggestChunkSize (Some fs) \<le> MAX_CHUNK_SIZE \<and>
   (0 < fs \<and> fs \<le> int CHUNK_THRESHOLD \<longrightarrow> int (suggestChunkSize (Some fs)) = fs) \<and>
   1 \<le> suggestConcurrency (Some fs) (Some n) \<and> suggestConcurrency (Some fs) (Some n) \<le> 6 \<and>
   int (suggestConcurrency (Some fs) (Some n)) \<le> max 1 n"
  by (auto simp: suggestChunkSize_def suggestConcurrency_def Let_def PREFERRED_CHUNK_SIZE_def
      MAX_CHUNK_SIZE_def CHUNK_THRESHOLD_def)

theorem suggested_sizes_bounded_witness:
  "int (suggestChunkSize (Some 1000)) = 1000 \<and> suggestConcurrency (Some 1000) (Some 2) \<le> 6"
  using suggested_sizes_bounded [of 1000 2] by (simp add: CHUNK_THRESHOLD_def)

end
