(* ===== verification/Dsn.thy ===== *)
theory Dsn
  imports Uri
begin

text \<open>
  The database connection strings of \<open>settings/database-dsn.js\<close>: parsing and formatting for
  MySQL, ClickHouse and PostgreSQL, including the keyword form of PostgreSQL, whose regular
  expression is modelled as the scanner it denotes.

  The platform's \<open>URL\<close> parser is a parameter \<open>url_parse\<close> (\<open>None\<close> when the constructor
  throws); \<open>url_law\<close> states the documented result for a URL made of percent-encoded
  components, and is all the round-trip property uses. An input that is not a string is
  \<open>None\<close>; an absent field of the editable parts is the empty string.
\<close>

record dsn =
  user :: string
  password :: string
  host :: string
  port :: string
  database :: string
  params :: string

definition mysqlDefaults :: dsn where
  "mysqlDefaults = \<lparr>user = ''root'', password = [], host = ''127.0.0.1'', port = ''3306'',
     database = ''renop'', params = ''charset=utf8mb4&parseTime=True&loc=Local''\<rparr>"

definition postgresDefaults :: dsn where
  "postgresDefaults = \<lparr>user = ''postgres'', password = [], host = ''127.0.0.1'', port = ''5432'',
     database = ''renop'', params = ''sslmode=disable''\<rparr>"

definition clickHouseDefaults :: dsn where
  "clickHouseDefaults = \<lparr>user = ''default'', password = [], host = ''127.0.0.1'', port = ''9000'',
     database = ''default'', params = []\<rparr>"

definition formatURLHost :: "string \<Rightarrow> string \<Rightarrow> string" where
  "formatURLHost value fallback =
     (let h = or_else (js_trim (or_else value fallback)) fallback in
      if CHR '':'' \<in> set h \<and> \<not> (starts_with ''['' h \<and> ends_with '']'' h)
      then ''['' @ h @ '']'' else h)"

definition strip_question :: "string \<Rightarrow> string" where
  "strip_question s = (if starts_with ''?'' s then drop 1 s else s)"

section \<open>MySQL\<close>

definition mysql_credentials :: "string \<Rightarrow> string \<times> string \<times> string" where
  "mysql_credentials rest =
     (case last_index_of CHR ''@'' rest of
        None \<Rightarrow> ([], [], rest)
      | Some at \<Rightarrow>
          (let credentials = take at rest; rest1 = drop (at + 1) rest in
           case index_of CHR '':'' credentials of
             Some sep \<Rightarrow> (take sep credentials, drop (sep + 1) credentials, rest1)
           | None \<Rightarrow> (credentials, [], rest1)))"

definition mysql_query :: "string \<Rightarrow> string \<times> string" where
  "mysql_query rest =
     (case index_of CHR ''?'' rest of
        Some q \<Rightarrow> (drop (q + 1) rest, take q rest)
      | None \<Rightarrow> ([], rest))"

definition mysql_address :: "string \<Rightarrow> string" where
  "mysql_address address =
     (case (index_of CHR ''('' address, last_index_of CHR '')'' address) of
        (Some openParen, Some closeParen) \<Rightarrow>
          if openParen < closeParen then slice (openParen + 1) closeParen address else address
      | _ \<Rightarrow> address)"

definition mysql_location :: "string \<Rightarrow> string \<times> string \<times> string" where
  "mysql_location rest =
     (case index_of CHR ''/'' rest of
        None \<Rightarrow> (host mysqlDefaults, port mysqlDefaults, rest)
      | Some slash \<Rightarrow>
          (let db = drop (slash + 1) rest; address = mysql_address (take slash rest) in
           if address = [] then (host mysqlDefaults, port mysqlDefaults, db)
           else (case last_index_of CHR '':'' address of
                   Some sep \<Rightarrow> (take sep address, drop (sep + 1) address, db)
                 | None \<Rightarrow> (address, port mysqlDefaults, db))))"

definition parseMysqlDsn :: "string option \<Rightarrow> dsn" where
  "parseMysqlDsn dsnStr =
     (case dsnStr of
        None \<Rightarrow> mysqlDefaults
      | Some d \<Rightarrow>
          if js_trim d = [] then mysqlDefaults
          else (case mysql_credentials (js_trim d) of (u, pw, rest1) \<Rightarrow>
                case mysql_query rest1 of (q, rest2) \<Rightarrow>
                case mysql_location rest2 of (h, p, db) \<Rightarrow>
                  \<lparr>user = or_else u (user mysqlDefaults), password = pw,
                   host = or_else h (host mysqlDefaults), port = or_else p (port mysqlDefaults),
                   database = or_else db (database mysqlDefaults), params = q\<rparr>))"

definition formatMysqlDsn :: "dsn \<Rightarrow> string" where
  "formatMysqlDsn parts =
     (let u = js_trim (user parts);
          pw = password parts;
          h = or_else (js_trim (or_else (host parts) (host mysqlDefaults))) (host mysqlDefaults);
          p = js_trim (or_else (port parts) (port mysqlDefaults));
          db = js_trim (database parts);
          q = strip_question (js_trim (params parts));
          credentials = (if u = [] then [] else u @ (if pw = [] then [] else '':'' @ pw) @ ''@'')
      in credentials @ ''tcp('' @ h @ (if p = [] then [] else '':'' @ p) @ '')/'' @ db @
         (if q = [] then [] else ''?'' @ q))"

section \<open>URL forms\<close>

record url =
  username :: string
  url_password :: string
  hostname :: string
  url_port :: string
  pathname :: string
  search :: string

definition strip_slash :: "string \<Rightarrow> string" where
  "strip_slash s = (if starts_with ''/'' s then drop 1 s else s)"

text \<open>The object built from a parsed URL; \<open>None\<close> when a component cannot be decoded.\<close>

definition url_fields :: "dsn \<Rightarrow> url \<Rightarrow> string \<Rightarrow> dsn option" where
  "url_fields defaults parsed query =
     (case decodeURIComponent (username parsed) of
        None \<Rightarrow> None
      | Some u \<Rightarrow>
     (case decodeURIComponent (url_password parsed) of
        None \<Rightarrow> None
      | Some pw \<Rightarrow>
     (case decodeURIComponent (strip_slash (pathname parsed)) of
        None \<Rightarrow> None
      | Some db \<Rightarrow>
          Some \<lparr>user = or_else u (user defaults), password = pw,
                host = or_else (hostname parsed) (host defaults),
                port = or_else (url_port parsed) (port defaults),
                database = or_else db (database defaults), params = query\<rparr>)))"

definition parseClickHouseDsn :: "(string \<Rightarrow> url option) \<Rightarrow> string option \<Rightarrow> dsn" where
  "parseClickHouseDsn url_parse dsnStr =
     (case dsnStr of
        None \<Rightarrow> clickHouseDefaults
      | Some d \<Rightarrow>
          if \<not> starts_with ''clickhouse://'' (js_trim d) then clickHouseDefaults
          else (case url_parse (js_trim d) of
                  None \<Rightarrow> clickHouseDefaults
                | Some parsed \<Rightarrow>
                    (case url_fields clickHouseDefaults parsed (drop 1 (search parsed)) of
                       None \<Rightarrow> clickHouseDefaults | Some r \<Rightarrow> r)))"

definition format_url :: "string \<Rightarrow> dsn \<Rightarrow> dsn \<Rightarrow> string" where
  "format_url scheme defaults parts =
     (let u = encodeURIComponent (js_trim (or_else (user parts) (user defaults)));
          pw = password parts;
          credentials = (if pw = [] then u else u @ '':'' @ encodeURIComponent pw);
          h = formatURLHost (host parts) (host defaults);
          p = js_trim (or_else (port parts) (port defaults));
          db = encodeURIComponent (js_trim (or_else (database parts) (database defaults)));
          q = strip_question (js_trim (params parts))
      in scheme @ ''://'' @ credentials @ ''@'' @ h @ (if p = [] then [] else '':'' @ p) @ ''/'' @ db @
         (if q = [] then [] else ''?'' @ q))"

definition formatClickHouseDsn :: "dsn \<Rightarrow> string" where
  "formatClickHouseDsn = format_url ''clickhouse'' clickHouseDefaults"

definition formatPostgresDsn :: "dsn \<Rightarrow> string" where
  "formatPostgresDsn = format_url ''postgres'' postgresDefaults"

section \<open>The keyword form of PostgreSQL\<close>

definition quote :: char where "quote = char_of (39 :: nat)"
definition backslash :: char where "backslash = char_of (92 :: nat)"

definition key_char :: "char \<Rightarrow> bool" where
  "key_char c \<longleftrightarrow> (let n = (of_char c :: nat) in
     (65 \<le> n \<and> n \<le> 90) \<or> (97 \<le> n \<and> n \<le> 122) \<or> n = 95)"

text \<open>
  After an opening quote: the longest run of escaped quotes and other characters that is
  followed by a quote. Where no closing quote follows, the last escaped quote closes the value,
  as the backtracking of the expression has it.
\<close>

fun quoted_tail :: "string \<Rightarrow> (string \<times> string) option" where
  "quoted_tail [] = None"
| "quoted_tail (c # s) =
     (if c = quote then Some ([], s)
      else if c = backslash then
        (case s of
           d # s' \<Rightarrow>
             if d = quote then
               (case quoted_tail s' of
                  Some (v, r) \<Rightarrow> Some (c # d # v, r)
                | None \<Rightarrow> Some ([c], s'))
             else map_option (\<lambda>(v, r). (c # v, r)) (quoted_tail s)
         | [] \<Rightarrow> None)
      else map_option (\<lambda>(v, r). (c # v, r)) (quoted_tail s))"

text \<open>The value after the equals sign: a quoted string, else a non-empty run without white space.\<close>

definition plain_value :: "string \<Rightarrow> (string \<times> string) option" where
  "plain_value s = (let v = takeWhile (\<lambda>c. \<not> js_ws c) s in
     if v = [] then None else Some (v, drop (length v) s))"

definition field_value :: "string \<Rightarrow> (string \<times> string) option" where
  "field_value s =
     (case s of
        c # s' \<Rightarrow> if c = quote
                   then (case quoted_tail s' of
                           Some (v, r) \<Rightarrow> Some (quote # v @ [quote], r)
                         | None \<Rightarrow> plain_value s)
                   else plain_value s
      | [] \<Rightarrow> None)"

text \<open>A match that starts exactly here.\<close>

definition match_field :: "string \<Rightarrow> ((string \<times> string) \<times> string) option" where
  "match_field s =
     (let k = takeWhile key_char s in
      if k = [] then None
      else (case drop (length k) s of
              c # s' \<Rightarrow> if c = CHR ''='' then map_option (\<lambda>(v, r). ((k, v), r)) (field_value s') else None
            | [] \<Rightarrow> None))"

lemma quoted_tail_length: "quoted_tail s = Some (v, r) \<Longrightarrow> length r < length s"
proof (induction s arbitrary: v r rule: quoted_tail.induct)
  case 1
  then show ?case by simp
next
  case (2 c s)
  show ?case
  proof (cases s)
    case Nil
    with 2 show ?thesis by (auto split: if_splits)
  next
    case (Cons d s')
    with 2 show ?thesis by (fastforce split: if_splits option.splits)
  qed
qed

lemma plain_value_length: "plain_value s = Some (v, r) \<Longrightarrow> length r < length s"
proof -
  assume "plain_value s = Some (v, r)"
  then have "v = takeWhile (\<lambda>c. \<not> js_ws c) s" "v \<noteq> []" "r = drop (length v) s"
    by (auto simp: plain_value_def Let_def split: if_splits)
  then show ?thesis by (cases s) auto
qed

lemma field_value_length: "field_value s = Some (v, r) \<Longrightarrow> length r < length s"
  by (auto simp: field_value_def split: list.splits if_splits option.splits
      dest!: quoted_tail_length plain_value_length)

lemma match_field_length: "match_field s = Some (kv, r) \<Longrightarrow> length r < length s"
proof -
  assume "match_field s = Some (kv, r)"
  then obtain s' v where "CHR ''='' # s' = drop (length (takeWhile key_char s)) s"
    and v: "field_value s' = Some (v, r)"
    by (auto simp: match_field_def Let_def split: if_splits list.splits)
  then have "length (CHR ''='' # s') = length (drop (length (takeWhile key_char s)) s)" by simp
  then have "length s' < length s" by simp
  with field_value_length [OF v] show ?thesis by simp
qed

text \<open>All matches from left to right, each search starting where the last match ended.\<close>

function all_fields :: "string \<Rightarrow> (string \<times> string) list" where
  "all_fields s =
     (case match_field s of
        Some (kv, r) \<Rightarrow> kv # all_fields r
      | None \<Rightarrow> (case s of [] \<Rightarrow> [] | c # s' \<Rightarrow> all_fields s'))"
  by pat_completeness auto
termination
  by (relation "measure length") (auto dest: match_field_length)

declare all_fields.simps [simp del]

definition unquote :: "string \<Rightarrow> string" where
  "unquote v = (if starts_with [quote] v \<and> ends_with [quote] v
     then replace_all [backslash, quote] [quote] (drop 1 (butlast v)) else v)"

definition apply_field :: "dsn \<times> string list \<Rightarrow> string \<times> string \<Rightarrow> dsn \<times> string list" where
  "apply_field acc kv =
     (case (acc, kv) of ((result, extra), (k, v)) \<Rightarrow>
       let key = to_lower k; fieldValue = unquote v in
       if key = ''user'' then (result\<lparr>user := fieldValue\<rparr>, extra)
       else if key = ''password'' then (result\<lparr>password := fieldValue\<rparr>, extra)
       else if key = ''host'' then (result\<lparr>host := fieldValue\<rparr>, extra)
       else if key = ''port'' then (result\<lparr>port := fieldValue\<rparr>, extra)
       else if key = ''dbname'' \<or> key = ''database'' then (result\<lparr>database := fieldValue\<rparr>, extra)
       else (result, extra @ [encodeURIComponent key @ ''='' @ encodeURIComponent fieldValue]))"

definition parse_keywords :: "string \<Rightarrow> dsn" where
  "parse_keywords value =
     (case foldl apply_field (postgresDefaults\<lparr>params := []\<rparr>, []) (all_fields value) of
        (result, extra) \<Rightarrow> result\<lparr>params := join ''&'' extra\<rparr>)"

definition parsePostgresDsn :: "(string \<Rightarrow> url option) \<Rightarrow> string option \<Rightarrow> dsn" where
  "parsePostgresDsn url_parse dsnStr =
     (case dsnStr of
        None \<Rightarrow> postgresDefaults
      | Some d \<Rightarrow>
          (let value = js_trim d in
           if value = [] then postgresDefaults
           else if starts_with ''postgres://'' value \<or> starts_with ''postgresql://'' value then
             (case url_parse value of
                None \<Rightarrow> postgresDefaults
              | Some parsed \<Rightarrow>
                  (case url_fields postgresDefaults parsed
                          (or_else (drop 1 (search parsed)) (params postgresDefaults)) of
                     None \<Rightarrow> postgresDefaults | Some r \<Rightarrow> r))
           else if CHR ''='' \<notin> set value then postgresDefaults
           else parse_keywords value))"

section \<open>Round trips\<close>

text \<open>Fields that a MySQL connection string can carry unchanged.\<close>

definition mysql_fields :: "dsn \<Rightarrow> bool" where
  "mysql_fields p \<longleftrightarrow>
     user p \<noteq> [] \<and> trimmed (user p) \<and> CHR '':'' \<notin> set (user p) \<and>
     host p \<noteq> [] \<and> trimmed (host p) \<and> set (host p) \<inter> set ''@/?'' = {} \<and>
     port p \<noteq> [] \<and> trimmed (port p) \<and> set (port p) \<inter> set '':@/?'' = {} \<and>
     database p \<noteq> [] \<and> trimmed (database p) \<and> set (database p) \<inter> set ''@?'' = {} \<and>
     trimmed (params p) \<and> CHR ''@'' \<notin> set (params p) \<and> \<not> starts_with ''?'' (params p)"

lemma mysql_credentials_format:
  assumes "CHR '':'' \<notin> set u" "CHR ''@'' \<notin> set rest"
  shows "mysql_credentials (u @ (if pw = [] then [] else '':'' @ pw) @ ''@'' @ rest) = (u, pw, rest)"
proof (cases "pw = []")
  case True
  with assms show ?thesis by (simp add: mysql_credentials_def)
next
  case False
  have "last_index_of CHR ''@'' ((u @ CHR '':'' # pw) @ CHR ''@'' # rest) = Some (length (u @ CHR '':'' # pw))"
    using assms by (intro last_index_of_append)
  with False assms show ?thesis by (simp add: mysql_credentials_def)
qed

lemma mysql_query_format:
  "CHR ''?'' \<notin> set a \<Longrightarrow> mysql_query (a @ (if q = [] then [] else ''?'' @ q)) = (q, a)"
proof (cases "q = []")
  case True
  assume "CHR ''?'' \<notin> set a"
  with True show ?thesis by (simp add: mysql_query_def)
qed (simp add: mysql_query_def)

lemma mysql_address_format: "mysql_address (''tcp('' @ h @ '')'') = h"
proof -
  have "last_index_of CHR '')'' ((''tcp('' @ h) @ CHR '')'' # []) = Some (length (''tcp('' @ h))"
    by (rule last_index_of_append) simp
  then show ?thesis by (simp add: mysql_address_def slice_def)
qed

lemma mysql_location_format:
  assumes "CHR ''/'' \<notin> set h" "CHR ''/'' \<notin> set p" "CHR '':'' \<notin> set p" "h \<noteq> []"
  shows "mysql_location (''tcp('' @ h @ '':'' @ p @ '')/'' @ db) = (h, p, db)"
proof -
  have "index_of CHR ''/'' ((''tcp('' @ h @ '':'' @ p @ '')'') @ CHR ''/'' # db) =
      Some (length (''tcp('' @ h @ '':'' @ p @ '')''))"
    using assms by (intro index_of_append) auto
  moreover have "mysql_address (''tcp('' @ (h @ '':'' @ p) @ '')'') = h @ '':'' @ p"
    by (rule mysql_address_format)
  moreover have "last_index_of CHR '':'' (h @ CHR '':'' # p) = Some (length h)"
    using assms by (intro last_index_of_append)
  moreover have "drop (length (''tcp('' @ h @ '':'' @ p @ '')'') + 1)
      ((''tcp('' @ h @ '':'' @ p @ '')'') @ CHR ''/'' # db) = db"
    by (simp only: drop_append) simp
  moreover have "take (length (''tcp('' @ h @ '':'' @ p @ '')''))
      ((''tcp('' @ h @ '':'' @ p @ '')'') @ CHR ''/'' # db) = ''tcp('' @ (h @ '':'' @ p) @ '')''"
    by (simp only: take_append) simp
  ultimately have "mysql_location ((''tcp('' @ h @ '':'' @ p @ '')'') @ CHR ''/'' # db) = (h, p, db)"
    using assms unfolding mysql_location_def Let_def by (simp only: option.case) simp
  then show ?thesis by simp
qed

lemma trimmed_mid:
  "a \<noteq> [] \<Longrightarrow> \<not> js_ws (hd a) \<Longrightarrow> b \<noteq> [] \<Longrightarrow> \<not> js_ws (last b) \<Longrightarrow> js_trim (a @ m @ b) = a @ m @ b"
  by (simp add: trimmed_def)

text \<open>
  A MySQL connection string can be edited without loss: formatting the fields and parsing
  the result gives the fields back. The password is arbitrary, it may contain \<open>@\<close>, \<open>:\<close>,
  \<open>/\<close> and \<open>?\<close>.
\<close>

theorem mysql_dsn_roundtrip:
  assumes "mysql_fields p"
  shows "parseMysqlDsn (Some (formatMysqlDsn p)) = p"
proof -
  note f = assms [unfolded mysql_fields_def]
  define loc where "loc = ''tcp('' @ host p @ '':'' @ port p @ '')/'' @ database p"
  define q where "q = (if params p = [] then [] else ''?'' @ params p)"
  define cred where "cred = user p @ (if password p = [] then [] else '':'' @ password p) @ ''@''"
  have fmt: "formatMysqlDsn p = cred @ loc @ q"
    using f by (simp add: formatMysqlDsn_def Let_def strip_question_def loc_def q_def cred_def)
  have "loc @ q \<noteq> []" "\<not> js_ws (last (loc @ q))"
    using f by (auto simp: loc_def q_def trimmed_def)
  moreover have "cred \<noteq> []" "\<not> js_ws (hd cred)" using f by (auto simp: cred_def trimmed_def)
  ultimately have tr: "js_trim (cred @ loc @ q) = cred @ loc @ q"
    using trimmed_mid [of cred "loc @ q" "[]"] by (simp add: trimmed_def)
  have 1: "mysql_credentials (cred @ loc @ q) = (user p, password p, loc @ q)"
    using f mysql_credentials_format [of "user p" "loc @ q" "password p"]
    by (auto simp: cred_def loc_def q_def)
  have 2: "mysql_query (loc @ q) = (params p, loc)"
    unfolding q_def using f by (intro mysql_query_format) (auto simp: loc_def)
  have 3: "mysql_location loc = (host p, port p, database p)"
    unfolding loc_def using f by (intro mysql_location_format) auto
  have ne: "cred @ loc @ q \<noteq> []" by (simp add: loc_def)
  show ?thesis
    unfolding parseMysqlDsn_def fmt option.case tr 1 prod.case 2 3 if_not_P [OF ne] using f by simp
qed

definition sample_mysql :: dsn where
  "sample_mysql = \<lparr>user = ''renop'', password = ''p@ss:w/rd?'', host = ''db.local'', port = ''3307'',
     database = ''packages'', params = ''parseTime=True''\<rparr>"

theorem mysql_dsn_roundtrip_witness:
  "mysql_fields sample_mysql \<and> parseMysqlDsn (Some (formatMysqlDsn sample_mysql)) = sample_mysql"
proof -
  have h: "mysql_fields sample_mysql"
    by (simp add: mysql_fields_def sample_mysql_def trimmed_def js_ws_def)
  show ?thesis using h mysql_dsn_roundtrip [OF h] by simp
qed

text \<open>
  The documented behaviour of the URL parser the PostgreSQL and ClickHouse forms rely on: the
  components of a URL with an authority are returned as they are written when they consist of
  unreserved characters and escapes (user, password), of lower-case letters, digits, dots and
  hyphens (host), of a decimal number up to 65535 without leading zero (port), of an encoded
  path segment other than the dot segments, and of query characters.
\<close>

definition component_char :: "char \<Rightarrow> bool" where
  "component_char c \<longleftrightarrow> unreserved c \<or> c = CHR ''%''"

definition host_char :: "char \<Rightarrow> bool" where
  "host_char c \<longleftrightarrow> (let n = (of_char c :: nat) in
     (97 \<le> n \<and> n \<le> 122) \<or> (48 \<le> n \<and> n \<le> 57) \<or> n = 45 \<or> n = 46)"

definition query_char :: "char \<Rightarrow> bool" where
  "query_char c \<longleftrightarrow> unreserved c \<or> c \<in> set ''%&=''"

definition port_number :: "string \<Rightarrow> bool" where
  "port_number p = (case read_nat p of None \<Rightarrow> False | Some n \<Rightarrow> n \<le> 65535 \<and> p = show_nat n)"

lemma port_number_digits: "port_number p \<Longrightarrow> p \<noteq> [] \<and> list_all is_digit p"
  by (auto simp: port_number_def read_nat_def split: if_splits)

definition url_law :: "(string \<Rightarrow> url option) \<Rightarrow> bool" where
  "url_law url_parse \<longleftrightarrow>
     (\<forall>scheme u pw h p d q.
        scheme \<in> {''postgres'', ''clickhouse''} \<and> u \<noteq> [] \<and> list_all component_char u \<and>
        list_all component_char pw \<and> h \<noteq> [] \<and> list_all host_char h \<and>
        port_number p \<and> d \<notin> {''.'', ''..''} \<and> list_all query_char q \<longrightarrow>
        url_parse (scheme @ ''://'' @ u @ (if pw = [] then [] else '':'' @ pw) @ ''@'' @ h @ '':'' @ p @
            ''/'' @ encodeURIComponent d @ (if q = [] then [] else ''?'' @ q)) =
          Some \<lparr>username = u, url_password = pw, hostname = h, url_port = p,
                pathname = ''/'' @ encodeURIComponent d,
                search = (if q = [] then [] else ''?'' @ q)\<rparr>)"

definition url_dsn_fields :: "dsn \<Rightarrow> bool" where
  "url_dsn_fields p \<longleftrightarrow>
     user p \<noteq> [] \<and> trimmed (user p) \<and> utf8_wf (user p) \<and> utf8_wf (password p) \<and>
     host p \<noteq> [] \<and> list_all host_char (host p) \<and>
     port_number (port p) \<and>
     database p \<notin> {[], ''.'', ''..''} \<and> trimmed (database p) \<and> utf8_wf (database p) \<and>
     list_all query_char (params p)"

lemma component_encode: "list_all component_char (encodeURIComponent s)"
proof -
  have hex: "unreserved (hex_char n)" if "n < 16" for n
    using that by (auto simp: unreserved_def hex_char_def Let_def)
  have "list_all component_char (encode_byte c)" for c
    by (auto simp: encode_byte_def escape_def component_char_def hex byte_div_16)
  then show ?thesis
    by (induction s) (auto simp: encodeURIComponent_def)
qed

lemma encode_nonempty: "encodeURIComponent s = [] \<longleftrightarrow> s = []"
  by (cases s) (auto simp: encodeURIComponent_def encode_byte_def escape_def)

lemma no_ws_chars:
  "host_char c \<Longrightarrow> \<not> js_ws c" "query_char c \<Longrightarrow> \<not> js_ws c" "component_char c \<Longrightarrow> \<not> js_ws c"
  by (auto simp: host_char_def query_char_def component_char_def unreserved_def js_ws_def Let_def)

lemma trimmed_all: "list_all P s \<Longrightarrow> (\<And>c. P c \<Longrightarrow> \<not> js_ws c) \<Longrightarrow> trimmed s"
  by (cases s) (auto simp: trimmed_def list_all_iff)

lemma url_dsn_parse:
  assumes law: "url_law url_parse" and f: "url_dsn_fields p" and sch: "scheme \<in> {''postgres'', ''clickhouse''}"
  shows "\<exists>parsed. url_parse (js_trim (format_url scheme defaults p)) = Some parsed \<and>
      url_fields defaults parsed query = Some (p\<lparr>params := query\<rparr>) \<and>
      drop 1 (search parsed) = params p"
    and "starts_with (scheme @ ''://'') (js_trim (format_url scheme defaults p))"
proof -
  note f' = f [unfolded url_dsn_fields_def]
  define u where "u = encodeURIComponent (user p)"
  define pw where "pw = encodeURIComponent (password p)"
  define d where "d = encodeURIComponent (database p)"
  define q where "q = (if params p = [] then [] else ''?'' @ params p)"
  define s where "s = scheme @ ''://'' @ u @ (if pw = [] then [] else '':'' @ pw) @ ''@'' @ host p @
      '':'' @ port p @ ''/'' @ d @ q"
  have tr: "trimmed (host p)" "trimmed (port p)" "trimmed (params p)"
    using f' port_number_digits [of "port p"] trimmed_all [of host_char] trimmed_all [of is_digit] trimmed_all [of query_char]
      no_ws_chars digit_not_ws by blast+
  have nc: "CHR '':'' \<notin> set (host p)" using f' by (auto simp: list_all_iff host_char_def)
  have nq: "\<not> starts_with ''?'' (params p)"
    using f' by (cases "params p") (auto simp: query_char_def unreserved_def Let_def)
  have fmt: "format_url scheme defaults p = s"
    using f' tr nc nq port_number_digits [of "port p"]
    by (simp add: format_url_def Let_def formatURLHost_def strip_question_def s_def u_def pw_def d_def
        q_def encode_nonempty)
  have ne: "d @ q \<noteq> []" using f' by (simp add: d_def encode_nonempty)
  have "list_all component_char d" unfolding d_def by (rule component_encode)
  then have "\<not> js_ws (last (d @ q))"
    using ne f' no_ws_chars by (auto simp: q_def list_all_iff dest!: last_in_set)
  then have ts: "js_trim s = s"
    using sch ne unfolding s_def by (intro js_trim_trimmed) (auto simp: trimmed_def js_ws_def)
  show "starts_with (scheme @ ''://'') (js_trim (format_url scheme defaults p))"
    unfolding fmt ts unfolding s_def append_assoc [symmetric, of scheme] by (rule starts_with_append)
  define parsed where "parsed = \<lparr>username = u, url_password = pw, hostname = host p, url_port = port p,
      pathname = ''/'' @ d, search = q\<rparr>"
  have "url_parse s = Some parsed"
    unfolding s_def q_def d_def parsed_def
    by (rule law [unfolded url_law_def, rule_format])
      (use f' sch in \<open>auto simp: u_def pw_def d_def encode_nonempty component_encode\<close>)
  moreover have "decodeURIComponent u = Some (user p)" "decodeURIComponent pw = Some (password p)"
    "decodeURIComponent d = Some (database p)"
    using f' by (simp_all add: u_def pw_def d_def decode_encode_component)
  then have "url_fields defaults parsed query = Some (p\<lparr>params := query\<rparr>)"
    using f' port_number_digits [of "port p"]
    by (cases p) (simp add: url_fields_def strip_slash_def parsed_def)
  moreover have "drop 1 (search parsed) = params p" by (simp add: parsed_def q_def)
  ultimately show "\<exists>parsed. url_parse (js_trim (format_url scheme defaults p)) = Some parsed \<and>
      url_fields defaults parsed query = Some (p\<lparr>params := query\<rparr>) \<and>
      drop 1 (search parsed) = params p"
    unfolding fmt ts by blast
qed

text \<open>
  the PostgreSQL and ClickHouse forms round-trip through the URL parser for every user,
  password and database name, whatever characters they contain; PostgreSQL replaces empty
  parameters by its default.
\<close>

theorem url_dsn_roundtrip:
  assumes "url_law url_parse" and "url_dsn_fields p"
  shows "parseClickHouseDsn url_parse (Some (formatClickHouseDsn p)) = p \<and>
    parsePostgresDsn url_parse (Some (formatPostgresDsn p)) =
      p\<lparr>params := or_else (params p) ''sslmode=disable''\<rparr>"
proof
  obtain parsed where 1: "url_parse (js_trim (formatClickHouseDsn p)) = Some parsed"
    "url_fields clickHouseDefaults parsed (params p) = Some (p\<lparr>params := params p\<rparr>)"
    "drop 1 (search parsed) = params p"
    using url_dsn_parse(1) [OF assms, of "''clickhouse''" clickHouseDefaults "params p"]
    by (auto simp: formatClickHouseDsn_def)
  with url_dsn_parse(2) [OF assms, of "''clickhouse''" clickHouseDefaults]
  show "parseClickHouseDsn url_parse (Some (formatClickHouseDsn p)) = p"
    by (simp add: parseClickHouseDsn_def formatClickHouseDsn_def)
  define q where "q = or_else (params p) ''sslmode=disable''"
  obtain parsed where 2: "url_parse (js_trim (formatPostgresDsn p)) = Some parsed"
    "url_fields postgresDefaults parsed q = Some (p\<lparr>params := q\<rparr>)"
    "drop 1 (search parsed) = params p"
    using url_dsn_parse(1) [OF assms, of "''postgres''" postgresDefaults q]
    by (auto simp: formatPostgresDsn_def)
  have st: "starts_with ''postgres://'' (js_trim (formatPostgresDsn p))"
    using url_dsn_parse(2) [OF assms, of "''postgres''" postgresDefaults]
    by (simp add: formatPostgresDsn_def)
  then have "js_trim (formatPostgresDsn p) \<noteq> []" by (auto simp: starts_with_def)
  with 2 st show "parsePostgresDsn url_parse (Some (formatPostgresDsn p)) =
      p\<lparr>params := or_else (params p) ''sslmode=disable''\<rparr>"
    by (simp add: parsePostgresDsn_def Let_def q_def postgresDefaults_def)
qed

text \<open>A parser that splits a URL at its delimiters, for the concrete run below.\<close>

definition split_url :: "string \<Rightarrow> url option" where
  "split_url s =
     (let rest = drop 3 (dropWhile (\<lambda>c. c \<noteq> CHR '':'') s);
          authority = takeWhile (\<lambda>c. c \<noteq> CHR ''/'') rest;
          path = dropWhile (\<lambda>c. c \<noteq> CHR ''/'') rest;
          userinfo = takeWhile (\<lambda>c. c \<noteq> CHR ''@'') authority;
          hostport = drop 1 (dropWhile (\<lambda>c. c \<noteq> CHR ''@'') authority)
      in Some \<lparr>username = takeWhile (\<lambda>c. c \<noteq> CHR '':'') userinfo,
               url_password = drop 1 (dropWhile (\<lambda>c. c \<noteq> CHR '':'') userinfo),
               hostname = takeWhile (\<lambda>c. c \<noteq> CHR '':'') hostport,
               url_port = drop 1 (dropWhile (\<lambda>c. c \<noteq> CHR '':'') hostport),
               pathname = takeWhile (\<lambda>c. c \<noteq> CHR ''?'') path,
               search = dropWhile (\<lambda>c. c \<noteq> CHR ''?'') path\<rparr>)"

lemma until_delimiter [simp]:
  "c \<notin> set a \<Longrightarrow> takeWhile (\<lambda>x. x \<noteq> c) (a @ c # b) = a"
  "c \<notin> set a \<Longrightarrow> dropWhile (\<lambda>x. x \<noteq> c) (a @ c # b) = c # b"
  "c \<notin> set a \<Longrightarrow> takeWhile (\<lambda>x. x \<noteq> c) a = a"
  "c \<notin> set a \<Longrightarrow> dropWhile (\<lambda>x. x \<noteq> c) a = []"
  by (induction a) auto

definition delimiter_free :: "string \<Rightarrow> bool" where
  "delimiter_free s \<longleftrightarrow> CHR '':'' \<notin> set s \<and> CHR ''/'' \<notin> set s \<and> CHR ''@'' \<notin> set s \<and> CHR ''?'' \<notin> set s"

lemma delimiter_free_parts:
  "list_all component_char s \<Longrightarrow> delimiter_free s"
  "list_all host_char s \<Longrightarrow> delimiter_free s"
  "list_all is_digit s \<Longrightarrow> delimiter_free s"
  by (auto simp: list_all_iff delimiter_free_def component_char_def host_char_def is_digit_def
      unreserved_def Let_def)

lemma split_url_parts:
  assumes "scheme \<in> {''postgres'', ''clickhouse''}"
    and "CHR ''/'' \<notin> set up" "CHR ''@'' \<notin> set up" "delimiter_free h" "delimiter_free p" "delimiter_free e"
    and "q = [] \<or> hd q = CHR ''?''"
  shows "split_url (scheme @ ''://'' @ up @ ''@'' @ h @ '':'' @ p @ ''/'' @ e @ q) =
    Some \<lparr>username = takeWhile (\<lambda>c. c \<noteq> CHR '':'') up,
          url_password = drop 1 (dropWhile (\<lambda>c. c \<noteq> CHR '':'') up),
          hostname = h, url_port = p, pathname = ''/'' @ e, search = q\<rparr>"
proof -
  have rest: "drop 3 (dropWhile (\<lambda>c. c \<noteq> CHR '':'') (scheme @ ''://'' @ rest)) = rest" for rest
    using assms(1) by auto
  have auth: "CHR ''/'' \<notin> set (up @ ''@'' @ h @ '':'' @ p)"
    using assms by (simp add: delimiter_free_def)
  have split: "up @ ''@'' @ h @ '':'' @ p @ ''/'' @ e @ q = (up @ ''@'' @ h @ '':'' @ p) @ CHR ''/'' # e @ q"
    by simp
  have path: "takeWhile (\<lambda>c. c \<noteq> CHR ''?'') (CHR ''/'' # e @ q) = CHR ''/'' # e"
    "dropWhile (\<lambda>c. c \<noteq> CHR ''?'') (CHR ''/'' # e @ q) = q"
    using assms(6,7) by (cases q; simp add: delimiter_free_def)+
  show ?thesis
    unfolding split_url_def Let_def rest split until_delimiter(1,2) [OF auth] path
    using assms by (simp add: delimiter_free_def)
qed

lemma split_url_law: "url_law split_url"
  unfolding url_law_def
proof (intro allI impI, elim conjE)
  fix scheme u pw h p d q :: string
  assume sch: "scheme \<in> {''postgres'', ''clickhouse''}"
    and u: "list_all component_char u" and pw: "list_all component_char pw"
    and h: "list_all host_char h" and p: "port_number p"
  define up where "up = u @ (if pw = [] then [] else '':'' @ pw)"
  have fr: "delimiter_free u" "delimiter_free pw" "delimiter_free h" "delimiter_free p"
    using u pw h port_number_digits [OF p] delimiter_free_parts by blast+
  have up: "CHR ''/'' \<notin> set up" "CHR ''@'' \<notin> set up"
    "takeWhile (\<lambda>c. c \<noteq> CHR '':'') up = u" "drop 1 (dropWhile (\<lambda>c. c \<noteq> CHR '':'') up) = pw"
    using fr(1,2) by (auto simp: up_def delimiter_free_def)
  show "split_url (scheme @ ''://'' @ u @ (if pw = [] then [] else '':'' @ pw) @ ''@'' @ h @
       '':'' @ p @ ''/'' @ encodeURIComponent d @ (if q = [] then [] else ''?'' @ q)) =
     Some \<lparr>username = u, url_password = pw, hostname = h, url_port = p,
           pathname = ''/'' @ encodeURIComponent d, search = if q = [] then [] else ''?'' @ q\<rparr>"
    using split_url_parts [OF sch up(1,2) fr(3,4) delimiter_free_parts(1) [OF component_encode [of d]],
        of "if q = [] then [] else ''?'' @ q"] up(3,4)
    by (simp add: up_def)
qed

definition sample_url_dsn :: dsn where
  "sample_url_dsn = \<lparr>user = ''renop'', password = ''p@ss:w/rd?'', host = ''db.local'', port = ''5433'',
     database = ''my/packages'', params = ''sslmode=require''\<rparr>"

theorem url_dsn_roundtrip_witness:
  "url_law split_url \<and> url_dsn_fields sample_url_dsn \<and>
   parsePostgresDsn split_url (Some (formatPostgresDsn sample_url_dsn)) = sample_url_dsn"
proof -
  have "port_number ''5433''"
    by (simp add: port_number_def read_nat_def is_digit_def show_nat.simps digit_char_def char_of_def bit_iff_odd)
  moreover have "utf8_wf ''renop''" "utf8_wf ''p@ss:w/rd?''" "utf8_wf ''my/packages''"
    by (rule utf8_wf_ascii, simp)+
  ultimately have h: "url_dsn_fields sample_url_dsn"
    by (simp del: utf8_wf.simps add: url_dsn_fields_def sample_url_dsn_def trimmed_def js_ws_def host_char_def
        query_char_def unreserved_def)
  have e: "or_else (params sample_url_dsn) ''sslmode=disable'' = params sample_url_dsn" by code_simp
  show ?thesis
    using h split_url_law url_dsn_roundtrip [OF split_url_law h, THEN conjunct2, unfolded e] by simp
qed

end
