(* ===== verification/Timing.thy ===== *)
theory Timing
  imports Machine
begin

text \<open>
  \<open>debounce\<close> and \<open>throttle\<close> of \<open>packages/renop-ui/js/dom.js\<close> as machines over the events a
  wrapped function sees: a call with arguments, the expiry of its timer, a cancellation. The
  component \<open>calls\<close> is the history of the calls that reached the wrapped function.
\<close>

datatype 'a timed_event = Call 'a | Expire | Cancel

record 'a debounced =
  db_timer :: "'a option"
  db_calls :: "'a list"

text \<open>A running timer holds the arguments its callback forwards.\<close>

fun debounce :: "'a timed_event \<Rightarrow> 'a debounced \<Rightarrow> 'a debounced option" where
  "debounce (Call x) s = Some (s\<lparr>db_timer := Some x\<rparr>)"
| "debounce Expire s =
     (case db_timer s of
        None \<Rightarrow> None
      | Some x \<Rightarrow> Some (s\<lparr>db_timer := None, db_calls := db_calls s @ [x]\<rparr>))"
| "debounce Cancel s = Some (s\<lparr>db_timer := None\<rparr>)"

record 'a throttled =
  th_timer :: bool
  th_pending :: "'a option"
  th_calls :: "'a list"

definition throttle_call :: "'a \<Rightarrow> 'a throttled \<Rightarrow> 'a throttled" where
  "throttle_call x s =
     (if th_timer s then s\<lparr>th_pending := Some x\<rparr>
      else s\<lparr>th_calls := th_calls s @ [x], th_timer := True\<rparr>)"

fun throttle :: "'a timed_event \<Rightarrow> 'a throttled \<Rightarrow> 'a throttled option" where
  "throttle (Call x) s = Some (throttle_call x s)"
| "throttle Expire s =
     (if \<not> th_timer s then None
      else (let s' = s\<lparr>th_timer := False\<rparr> in
            Some (case th_pending s' of
                    None \<Rightarrow> s'
                  | Some x \<Rightarrow> throttle_call x (s'\<lparr>th_pending := None\<rparr>))))"
| "throttle Cancel s = Some (s\<lparr>th_timer := False, th_pending := None\<rparr>)"

definition debounce_start :: "'a debounced" where
  "debounce_start = \<lparr>db_timer = None, db_calls = []\<rparr>"

definition throttle_start :: "'a throttled" where
  "throttle_start = \<lparr>th_timer = False, th_pending = None, th_calls = []\<rparr>"

section \<open>What reaches the wrapped function\<close>

text \<open>The reference: the calls directly followed by an expiry of the timer.\<close>

fun settled :: "'a option \<Rightarrow> 'a timed_event list \<Rightarrow> 'a list" where
  "settled pend [] = []"
| "settled pend (Call x # es) = settled (Some x) es"
| "settled pend (Expire # es) = (case pend of None \<Rightarrow> [] | Some x \<Rightarrow> [x]) @ settled None es"
| "settled pend (Cancel # es) = settled None es"

lemma debounce_run:
  "run debounce es s = Some t \<Longrightarrow> db_calls t = db_calls s @ settled (db_timer s) es"
proof (induction es arbitrary: s)
  case (Cons e es)
  then show ?case by (cases e) (fastforce split: option.splits)+
qed simp

definition is_expire :: "'a timed_event \<Rightarrow> bool" where
  "is_expire e \<longleftrightarrow> (case e of Call x \<Rightarrow> False | _ \<Rightarrow> True)"

definition throttle_inv :: "'a throttled \<Rightarrow> bool" where
  "throttle_inv s \<longleftrightarrow> (th_pending s \<noteq> None \<longrightarrow> th_timer s) \<and> (th_timer s \<longrightarrow> th_calls s \<noteq> [])"

interpretation th: machine throttle throttle_inv
proof
  show "throttle_inv t" if "throttle_inv s" "throttle e s = Some t" for s e and t :: "'a throttled"
    using that by (cases e) (auto simp: throttle_inv_def throttle_call_def Let_def split: if_splits option.splits)
qed

lemma throttle_count:
  "run throttle es s = Some t \<Longrightarrow>
   length (th_calls t) + (if th_timer t then 0 else 1)
     \<le> length (th_calls s) + (if th_timer s then 0 else 1) + length (filter is_expire es)"
proof (induction es arbitrary: s)
  case (Cons e es)
  then obtain u where u: "throttle e s = Some u" "run throttle es u = Some t"
    by (auto split: option.splits)
  have "length (th_calls u) + (if th_timer u then 0 else 1)
     \<le> length (th_calls s) + (if th_timer s then 0 else 1) + (if is_expire e then 1 else 0)"
    using u(1) by (cases e) (auto simp: throttle_call_def is_expire_def Let_def split: if_splits option.splits)
  with Cons.IH [OF u(2)] show ?case by (auto split: if_splits)
qed simp

text \<open>
  the timing wrappers deliver what they promise. A debounced function receives exactly the
  calls after which the quiet period passed, each once and in order. A throttled function runs
  at most once more than timers have expired or been cancelled, and the last arguments are never lost: when the
  timer next expires after a call, the wrapped function has received them.
\<close>

theorem timing_wrappers:
  "(run debounce es debounce_start = Some d \<longrightarrow> db_calls d = settled None es) \<and>
   (run throttle es throttle_start = Some t \<longrightarrow>
      length (th_calls t) \<le> Suc (length (filter is_expire es)) \<and>
      (\<exists>u. run throttle [Call x, Expire] t = Some u \<and> last (th_calls u) = x))"
proof (intro conjI impI)
  show "db_calls d = settled None es" if "run debounce es debounce_start = Some d"
    using debounce_run [OF that] by (simp add: debounce_start_def)
  assume r: "run throttle es throttle_start = Some t"
  show "length (th_calls t) \<le> Suc (length (filter is_expire es))"
    using throttle_count [OF r] by (simp add: throttle_start_def)
  have "throttle_inv t" by (rule th.inv_run [OF r]) (simp add: throttle_inv_def throttle_start_def)
  then show "\<exists>u. run throttle [Call x, Expire] t = Some u \<and> last (th_calls u) = x"
    by (auto simp: throttle_inv_def throttle_call_def Let_def split: option.splits)
qed

theorem timing_wrappers_witness:
  "db_calls \<lparr>db_timer = None, db_calls = [2 :: nat]\<rparr> = settled None [Call 1, Call 2, Expire] \<and>
   length [1, 3 :: nat] \<le> Suc (length (filter is_expire [Call 1, Call 2, Call (3 :: nat), Expire]))"
  using timing_wrappers [of "[Call 1, Call 2, Expire]" "\<lparr>db_timer = None, db_calls = [2 :: nat]\<rparr>"]
    timing_wrappers [of "[Call 1, Call 2, Call 3, Expire]" _
      "\<lparr>th_timer = True, th_pending = None, th_calls = [1, 3 :: nat]\<rparr>"]
  by (simp add: debounce_start_def throttle_start_def throttle_call_def is_expire_def)

end
