(* ===== verification/Dom.thy ===== *)
theory Dom
  imports Uri Machine
begin

text \<open>
  The element builder and the DOM helpers of \<open>packages/renop-ui/js/dom.js\<close>, on a tree model of
  the document.

  A node is a text node, an opaque piece of parsed markup (what assigning \<open>innerHTML\<close> gives)
  or an element with its tag, content attributes, inline style, remaining properties, event
  listeners and children. Properties that reflect a content attribute (\<open>id\<close>, \<open>title\<close>,
  \<open>slot\<close>, \<open>disabled\<close> and so on, as the DOM specifies) are kept as that attribute. A listener is a
  value of the type parameter, the action it performs. \<open>has_prop\<close> lists the properties the
  sources pass to \<open>el\<close>; for a name outside every list \<open>el\<close> sets an attribute.
\<close>

section \<open>Nodes and values\<close>

datatype 'a jsval =
    JNull
  | JBool bool
  | JNum int
  | JStr string
  | JObj "(string \<times> string) list"
  | JFun 'a

datatype 'a node =
    Text string
  | Html string
  | Elem (tag: string) (attrs: "(string \<times> string) list") (style: "(string \<times> string) list")
      (props: "(string \<times> 'a jsval) list") (listeners: "(string \<times> 'a) list") (children: "'a node list")
  where
    "attrs (Text t) = []" | "attrs (Html t) = []"
  | "style (Text t) = []" | "style (Html t) = []"
  | "props (Text t) = []" | "props (Html t) = []"
  | "listeners (Text t) = []" | "listeners (Html t) = []"
  | "children (Text t) = []" | "children (Html t) = []"

fun show_val :: "'a jsval \<Rightarrow> string" where
  "show_val JNull = ''null''"
| "show_val (JBool b) = (if b then ''true'' else ''false'')"
| "show_val (JNum n) = show_int n"
| "show_val (JStr s) = s"
| "show_val (JObj f) = ''[object Object]''"
| "show_val (JFun f) = ''[function]''"

fun truthy :: "'a jsval \<Rightarrow> bool" where
  "truthy JNull = False"
| "truthy (JBool b) = b"
| "truthy (JNum n) = (n \<noteq> 0)"
| "truthy (JStr s) = (s \<noteq> [])"
| "truthy (JObj f) = True"
| "truthy (JFun f) = True"

text \<open>Assigning a key keeps its position when it exists, as attributes and object keys do.\<close>

fun assign :: "string \<Rightarrow> 'v \<Rightarrow> (string \<times> 'v) list \<Rightarrow> (string \<times> 'v) list" where
  "assign k v [] = [(k, v)]"
| "assign k v ((k', v') # xs) = (if k' = k then (k, v) # xs else (k', v') # assign k v xs)"

definition unassign :: "string \<Rightarrow> (string \<times> 'v) list \<Rightarrow> (string \<times> 'v) list" where
  "unassign k = filter (\<lambda>(k', v). k' \<noteq> k)"

fun createElement :: "string \<Rightarrow> 'a node" where
  "createElement t = Elem t [] [] [] [] []"

fun setAttribute :: "string \<Rightarrow> string \<Rightarrow> 'a node \<Rightarrow> 'a node" where
  "setAttribute k v (Elem t a s p l c) = Elem t (assign k v a) s p l c"
| "setAttribute k v n = n"

fun removeAttribute :: "string \<Rightarrow> 'a node \<Rightarrow> 'a node" where
  "removeAttribute k (Elem t a s p l c) = Elem t (unassign k a) s p l c"
| "removeAttribute k n = n"

definition getAttribute :: "string \<Rightarrow> 'a node \<Rightarrow> string option" where
  "getAttribute k n = map_of (attrs n) k"

text \<open>\<open>getAttribute(k) || fallback\<close>.\<close>

definition attr_or :: "string \<Rightarrow> string \<Rightarrow> 'a node \<Rightarrow> string" where
  "attr_or k d n = or_else (case getAttribute k n of None \<Rightarrow> [] | Some v \<Rightarrow> v) d"

fun setStyle :: "string \<Rightarrow> string \<Rightarrow> 'a node \<Rightarrow> 'a node" where
  "setStyle k v (Elem t a s p l c) = Elem t a (if v = [] then unassign k s else assign k v s) p l c"
| "setStyle k v n = n"

fun addEventListener :: "string \<Rightarrow> 'a \<Rightarrow> 'a node \<Rightarrow> 'a node" where
  "addEventListener e f (Elem t a s p l c) = Elem t a s p (l @ [(e, f)]) c"
| "addEventListener e f n = n"

fun replaceChildren :: "'a node list \<Rightarrow> 'a node \<Rightarrow> 'a node" where
  "replaceChildren c' (Elem t a s p l c) = Elem t a s p l c'"
| "replaceChildren c' n = n"

definition appendChild :: "'a node \<Rightarrow> 'a node \<Rightarrow> 'a node" where
  "appendChild child n = replaceChildren (children n @ [child]) n"

definition setTextContent :: "string \<Rightarrow> 'a node \<Rightarrow> 'a node" where
  "setTextContent s = replaceChildren (if s = [] then [] else [Text s])"

definition setInnerHTML :: "string \<Rightarrow> 'a node \<Rightarrow> 'a node" where
  "setInnerHTML s = replaceChildren (if s = [] then [] else [Html s])"

definition setClassName :: "string \<Rightarrow> 'a node \<Rightarrow> 'a node" where
  "setClassName = setAttribute ''class''"

text \<open>The text a user sees; markup is opaque.\<close>

fun textContent :: "'a node \<Rightarrow> string" where
  "textContent (Text s) = s"
| "textContent (Html s) = []"
| "textContent (Elem t a s p l c) = concat (map textContent c)"

text \<open>No part of the tree was parsed from a string.\<close>

fun plain :: "'a node \<Rightarrow> bool" where
  "plain (Text s) = True"
| "plain (Html s) = False"
| "plain (Elem t a s p l c) = list_all plain c"

section \<open>Class lists\<close>

fun words_aux :: "string \<Rightarrow> string \<Rightarrow> string list" where
  "words_aux acc [] = (if acc = [] then [] else [rev acc])"
| "words_aux acc (c # s) =
     (if js_ws c then (if acc = [] then [] else [rev acc]) @ words_aux [] s else words_aux (c # acc) s)"

definition tokens :: "string \<Rightarrow> string list" where
  "tokens s = rev (remdups (rev (words_aux [] s)))"

definition classes :: "'a node \<Rightarrow> string list" where
  "classes n = tokens (attr_or ''class'' [] n)"

definition has_class :: "string \<Rightarrow> 'a node \<Rightarrow> bool" where
  "has_class c n \<longleftrightarrow> c \<in> set (classes n)"

text \<open>Serialising a changed token list; an absent attribute stays absent when the list is empty.\<close>

definition set_classes :: "string list \<Rightarrow> 'a node \<Rightarrow> 'a node" where
  "set_classes cs n =
     (if cs = [] \<and> getAttribute ''class'' n = None then n else setClassName (join '' '' cs) n)"

definition class_add :: "string \<Rightarrow> 'a node \<Rightarrow> 'a node" where
  "class_add c n = set_classes (if has_class c n then classes n else classes n @ [c]) n"

definition class_remove :: "string \<Rightarrow> 'a node \<Rightarrow> 'a node" where
  "class_remove c n = set_classes (filter (\<lambda>x. x \<noteq> c) (classes n)) n"

definition class_toggle :: "string \<Rightarrow> bool \<Rightarrow> 'a node \<Rightarrow> 'a node" where
  "class_toggle c force n = (if force then class_add c n else class_remove c n)"

definition toggleClasses :: "(string \<times> bool) list \<Rightarrow> 'a node option \<Rightarrow> 'a node option" where
  "toggleClasses states = map_option (fold (\<lambda>(name, enabled). class_toggle name enabled) states)"

definition retriggerClass :: "string \<Rightarrow> 'a node option \<Rightarrow> 'a node option" where
  "retriggerClass c = map_option (\<lambda>n. class_add c (class_remove c n))"

definition setBusy :: "bool \<Rightarrow> 'a node option \<Rightarrow> 'a node option" where
  "setBusy busy = map_option (\<lambda>n. setAttribute ''aria-busy'' (if busy then ''true'' else ''false'')
     (class_toggle ''is-busy'' busy n))"

section \<open>Properties\<close>

definition string_props :: "string list" where
  "string_props = [''id'', ''title'', ''type'', ''href'', ''target'', ''rel'', ''src'', ''alt'', ''name'',
     ''placeholder'', ''slot'', ''lang'', ''accept'', ''autocomplete'', ''min'', ''max'', ''step'', ''pattern'',
     ''loading'', ''inputMode'', ''download'']"

definition bool_props :: "string list" where
  "bool_props = [''disabled'', ''hidden'', ''required'', ''multiple'', ''open'', ''autofocus'']"

definition other_props :: "string list" where
  "other_props = [''value'', ''checked'', ''selected'', ''indeterminate'', ''textContent'', ''innerHTML'',
     ''className'', ''tabIndex'', ''htmlFor'', ''ariaLabel'', ''maxLength'', ''readOnly'', ''rows'', ''colSpan'',
     ''spellcheck'', ''style'', ''dataset'', ''onclick'']"

definition has_prop :: "string \<Rightarrow> bool" where
  "has_prop k \<longleftrightarrow> k \<in> set string_props \<or> k \<in> set bool_props \<or> k \<in> set other_props"

fun set_raw_prop :: "string \<Rightarrow> 'a jsval \<Rightarrow> 'a node \<Rightarrow> 'a node" where
  "set_raw_prop k v (Elem t a s p l c) = Elem t a s (assign k v p) l c"
| "set_raw_prop k v n = n"

definition set_prop :: "string \<Rightarrow> 'a jsval \<Rightarrow> 'a node \<Rightarrow> 'a node" where
  "set_prop k v n =
     (if k \<in> set string_props then setAttribute k (show_val v) n
      else if k \<in> set bool_props then (if truthy v then setAttribute k [] n else removeAttribute k n)
      else if k = ''innerHTML'' then setInnerHTML (show_val v) n
      else if k = ''textContent'' then setTextContent (show_val v) n
      else if k = ''className'' then setClassName (show_val v) n
      else if k = ''ariaLabel'' then setAttribute ''aria-label'' (show_val v) n
      else if k = ''tabIndex'' then setAttribute ''tabindex'' (show_val v) n
      else if k = ''htmlFor'' then setAttribute ''for'' (show_val v) n
      else set_raw_prop k v n)"

definition upper_to_dash :: "char \<Rightarrow> string" where
  "upper_to_dash c = (if lower_char c \<noteq> c then [CHR ''-'', lower_char c] else [c])"

definition data_name :: "string \<Rightarrow> string" where
  "data_name k = ''data-'' @ concat (map upper_to_dash k)"

section \<open>The builder\<close>

definition attr_value :: "'a jsval \<Rightarrow> string" where
  "attr_value v = (case v of JBool True \<Rightarrow> [] | _ \<Rightarrow> show_val v)"

definition skip_value :: "'a jsval \<Rightarrow> bool" where
  "skip_value v = (case v of JNull \<Rightarrow> True | JBool b \<Rightarrow> \<not> b | _ \<Rightarrow> False)"

definition set_plain_attr :: "string \<Rightarrow> 'a jsval \<Rightarrow> 'a node \<Rightarrow> 'a node" where
  "set_plain_attr k v n =
     (if has_prop k \<or> k \<in> {''value'', ''checked'', ''disabled'', ''selected''} then set_prop k v n
      else setAttribute k (attr_value v) n)"

definition is_attr_name :: "string \<Rightarrow> bool" where
  "is_attr_name k \<longleftrightarrow> starts_with ''data-'' k \<or> starts_with ''aria-'' k \<or> k = ''role'' \<or> k = ''for''"

definition set_other_attr :: "string \<Rightarrow> 'a jsval \<Rightarrow> 'a node \<Rightarrow> 'a node" where
  "set_other_attr k v n = (if is_attr_name k then setAttribute k (attr_value v) n else set_plain_attr k v n)"

definition set_el_attr :: "string \<times> 'a jsval \<Rightarrow> 'a node \<Rightarrow> 'a node" where
  "set_el_attr kv n =
     (let k = fst kv; v = snd kv in
      if skip_value v then n
      else if k = ''class'' \<or> k = ''className'' then setClassName (show_val v) n
      else if k = ''text'' then setTextContent (show_val v) n
      else if k = ''html'' then setInnerHTML (show_val v) n
      else (case v of
          JObj fields \<Rightarrow>
            if k = ''style'' then fold (\<lambda>(p, x). setStyle p x) fields n
            else if k = ''dataset'' then fold (\<lambda>(p, x). setAttribute (data_name p) x) fields n
            else set_other_attr k v n
        | JFun f \<Rightarrow>
            if starts_with ''on'' k then addEventListener (to_lower (drop 2 k)) f n
            else set_other_attr k v n
        | _ \<Rightarrow>
            if k = ''style'' \<and> (case v of JStr x \<Rightarrow> True | _ \<Rightarrow> False) then setAttribute k (show_val v) n
            else set_other_attr k v n))"

text \<open>What may be passed as a child; arrays are flattened at every depth.\<close>

datatype 'a child =
    CNull
  | CStr string
  | CNum int
  | CNode "'a node"
  | CArr "'a child list"

fun child_nodes :: "'a child \<Rightarrow> 'a node list" where
  "child_nodes CNull = []"
| "child_nodes (CStr s) = [Text s]"
| "child_nodes (CNum n) = [Text (show_int n)]"
| "child_nodes (CNode n) = [n]"
| "child_nodes (CArr cs) = concat (map child_nodes cs)"

definition el :: "string \<Rightarrow> (string \<times> 'a jsval) list \<Rightarrow> 'a child list \<Rightarrow> 'a node" where
  "el t as cs = fold appendChild (concat (map child_nodes cs)) (fold set_el_attr as (createElement t))"

definition svg :: "string \<Rightarrow> (string \<times> string) list \<Rightarrow> 'a node list \<Rightarrow> 'a node" where
  "svg t as cs = fold appendChild cs (fold (\<lambda>(k, v). setAttribute k v) as (createElement t))"

definition css :: "(string \<times> string option) list \<Rightarrow> 'a node option \<Rightarrow> 'a node option" where
  "css styles = map_option (fold (\<lambda>(k, v). setStyle k (case v of None \<Rightarrow> [] | Some x \<Rightarrow> x)) styles)"

definition setText :: "string \<Rightarrow> 'a node option \<Rightarrow> 'a node option" where
  "setText s = map_option (setTextContent s)"

definition show_node :: "bool \<Rightarrow> 'a node option \<Rightarrow> 'a node option" where
  "show_node visible = map_option (set_prop ''hidden'' (JBool (\<not> visible)))"

definition setDisabled :: "bool \<Rightarrow> 'a node option list \<Rightarrow> 'a node option list" where
  "setDisabled d = map (map_option (set_prop ''disabled'' (JBool d)))"

definition clear :: "'a node option \<Rightarrow> 'a node option" where
  "clear = map_option (replaceChildren [])"

definition iconCheck :: "'a node" where
  "iconCheck = appendChild (setAttribute ''points'' ''20 6 9 17 4 12'' (createElement ''polyline''))
     (fold (\<lambda>(k, v). setAttribute k v)
       [(''viewBox'', ''0 0 24 24''), (''width'', ''16''), (''height'', ''16''), (''fill'', ''none''),
        (''stroke'', ''currentColor''), (''stroke-width'', ''2.5''), (''stroke-linecap'', ''round''),
        (''stroke-linejoin'', ''round''), (''aria-hidden'', ''true'')] (createElement ''svg''))"

lemmas el_eval = el_def set_el_attr_def skip_value_def set_other_attr_def is_attr_name_def set_plain_attr_def
  set_prop_def has_prop_def string_props_def bool_props_def other_props_def attr_value_def setClassName_def
  appendChild_def setTextContent_def setInnerHTML_def

section \<open>Escaping\<close>

text \<open>The argument is \<open>None\<close> for null and undefined.\<close>

definition escapeHtml :: "string option \<Rightarrow> string" where
  "escapeHtml value =
     (case value of
        None \<Rightarrow> []
      | Some s \<Rightarrow>
          replace_all [char_of (39 :: nat)] ''&#39;''
            (replace_all [CHR 0x22] ''&quot;''
              (replace_all ''>'' ''&gt;''
                (replace_all ''<'' ''&lt;''
                  (replace_all ''&'' ''&amp;'' s)))))"

definition html_char :: "char \<Rightarrow> string" where
  "html_char c =
     (if c = CHR ''&'' then ''&amp;''
      else if c = CHR ''<'' then ''&lt;''
      else if c = CHR ''>'' then ''&gt;''
      else if c = CHR 0x22 then ''&quot;''
      else if c = CHR 0x27 then ''&#39;''
      else [c])"

text \<open>How an HTML parser reads the five entities back.\<close>

fun unescape :: "string \<Rightarrow> string" where
  "unescape [] = []"
| "unescape (c # s) =
     (if c \<noteq> CHR ''&'' then c # unescape s
      else if starts_with ''amp;'' s then CHR ''&'' # unescape (drop 4 s)
      else if starts_with ''lt;'' s then CHR ''<'' # unescape (drop 3 s)
      else if starts_with ''gt;'' s then CHR ''>'' # unescape (drop 3 s)
      else if starts_with ''quot;'' s then CHR 0x22 # unescape (drop 5 s)
      else if starts_with ''#39;'' s then CHR 0x27 # unescape (drop 4 s)
      else c # unescape s)"

lemma replace_all_char: "replace_all [c] r s = concat (map (\<lambda>x. if x = c then r else [x]) s)"
  by (induction s) (auto simp: replace_all_Cons)

lemma escapeHtml_eq: "escapeHtml (Some s) = concat (map html_char s)"
proof -
  have q: "char_of (39 :: nat) = CHR 0x27" by (simp add: char_of_def bit_iff_odd)
  show ?thesis
    by (induction s) (auto simp: escapeHtml_def replace_all_char html_char_def q)
qed

lemma unescape_html_char: "unescape (html_char c @ s) = c # unescape s"
  by (auto simp: html_char_def)

lemma unescape_html: "unescape (concat (map html_char s)) = s"
  by (induction s) (simp_all add: unescape_html_char del: unescape.simps(2))

lemma html_inert: "set (concat (map html_char s)) \<inter> {CHR ''<'', CHR ''>'', CHR 0x22, CHR 0x27} = {}"
proof (induction s)
  case (Cons c s)
  have "set (html_char c) \<inter> {CHR ''<'', CHR ''>'', CHR 0x22, CHR 0x27} = {}"
    by (simp add: html_char_def)
  with Cons show ?case by auto
qed simp

section \<open>Trees without parsed markup\<close>

lemma plain_replaceChildren [simp]: "list_all plain c \<Longrightarrow> plain n \<Longrightarrow> plain (replaceChildren c n)"
  by (cases n) auto

lemma plain_children [simp]: "plain n \<Longrightarrow> list_all plain (children n)"
  by (cases n) auto

lemma plain_update [simp]:
  "plain n \<Longrightarrow> plain (setAttribute k v n)"
  "plain n \<Longrightarrow> plain (removeAttribute k n)"
  "plain n \<Longrightarrow> plain (setStyle k v n)"
  "plain n \<Longrightarrow> plain (addEventListener e f n)"
  "plain n \<Longrightarrow> plain (set_raw_prop k w n)"
  by (cases n; simp)+

lemma plain_appendChild [simp]: "plain c \<Longrightarrow> plain n \<Longrightarrow> plain (appendChild c n)"
  by (simp add: appendChild_def)

lemma plain_setText [simp]: "plain n \<Longrightarrow> plain (setTextContent s n)"
  and plain_setClassName [simp]: "plain n \<Longrightarrow> plain (setClassName s n)"
  and plain_clear [simp]: "plain n \<Longrightarrow> plain (setInnerHTML [] n)"
  by (simp_all add: setTextContent_def setClassName_def setInnerHTML_def)

lemma plain_class [simp]:
  "plain n \<Longrightarrow> plain (class_add c n)" "plain n \<Longrightarrow> plain (class_remove c n)"
  "plain n \<Longrightarrow> plain (class_toggle c b n)"
  by (simp_all add: class_add_def class_remove_def class_toggle_def set_classes_def)

lemma plain_fold: "(\<And>x n. x \<in> set xs \<Longrightarrow> plain n \<Longrightarrow> plain (f x n)) \<Longrightarrow> plain n \<Longrightarrow> plain (fold f xs n)"
  by (induction xs arbitrary: n) auto

lemma plain_set_prop: "k \<noteq> ''innerHTML'' \<Longrightarrow> plain n \<Longrightarrow> plain (set_prop k v n)"
  by (simp add: set_prop_def)

definition text_attr :: "string \<times> 'a jsval \<Rightarrow> bool" where
  "text_attr kv \<longleftrightarrow> fst kv \<noteq> ''html'' \<and> fst kv \<noteq> ''innerHTML''"

lemma text_attr_simp [simp]: "text_attr (k, v) \<longleftrightarrow> k \<noteq> ''html'' \<and> k \<noteq> ''innerHTML''"
  by (simp add: text_attr_def)

lemma plain_set_other_attr: "k \<noteq> ''innerHTML'' \<Longrightarrow> plain n \<Longrightarrow> plain (set_other_attr k v n)"
  by (simp add: set_other_attr_def set_plain_attr_def plain_set_prop)

lemma plain_set_el_attr: "text_attr kv \<Longrightarrow> plain n \<Longrightarrow> plain (set_el_attr kv n)"
  unfolding set_el_attr_def text_attr_def Let_def
  by (auto intro!: plain_fold simp: plain_set_other_attr split: jsval.splits)

fun plain_child :: "'a child \<Rightarrow> bool" where
  "plain_child (CNode n) = plain n"
| "plain_child (CArr cs) = list_all plain_child cs"
| "plain_child c = True"

lemma plain_child_nodes: "plain_child c \<Longrightarrow> list_all plain (child_nodes c)"
  by (induction c rule: child_nodes.induct) (auto simp: list_all_iff)

lemma plain_el [simp]:
  assumes "list_all text_attr as" "list_all plain_child cs"
  shows "plain (el t as cs)"
  unfolding el_def
proof (intro plain_fold plain_appendChild)
  show "plain x" if "x \<in> set (concat (map child_nodes cs))" for x
    using that assms(2) plain_child_nodes by (fastforce simp: list_all_iff)
  show "plain (set_el_attr x n)" if "x \<in> set as" "plain n" for x and n :: "'a node"
    using that assms(1) by (auto simp: list_all_iff intro: plain_set_el_attr)
qed simp_all

lemma plain_svg [simp]: "list_all plain cs \<Longrightarrow> plain (svg t as cs)"
  unfolding svg_def by (intro plain_fold) (auto simp: list_all_iff split: prod.splits)

lemma plain_iconCheck [simp]: "plain iconCheck"
  by (simp add: iconCheck_def)

text \<open>
  Text cannot leave the text context. The output of \<open>escapeHtml\<close> contains no angle bracket
  and no quote, so it can neither open a tag nor end an attribute value; and the escaping loses
  nothing, an HTML parser reads the original text back.
\<close>

theorem escapeHtml_safe:
  "set (escapeHtml v) \<inter> {CHR ''<'', CHR ''>'', CHR 0x22, CHR 0x27} = {} \<and>
   unescape (escapeHtml v) = (case v of None \<Rightarrow> [] | Some s \<Rightarrow> s)"
  by (cases v) (use html_inert unescape_html in \<open>simp_all add: escapeHtml_eq escapeHtml_def [of None]\<close>)

lemma children_update [simp]:
  "children (setAttribute k v n) = children n"
  "children (removeAttribute k n) = children n"
  "children (setStyle k v n) = children n"
  "children (addEventListener e f n) = children n"
  "children (set_raw_prop k w n) = children n"
  "children (setClassName s n) = children n"
  by (cases n; simp add: setClassName_def)+

lemma children_replaceChildren [simp]: "is_Elem n \<Longrightarrow> children (replaceChildren c n) = c"
  by (cases n) auto

lemma getAttribute_set [simp]:
  "is_Elem n \<Longrightarrow> getAttribute k (setAttribute k' v n) = (if k = k' then Some v else getAttribute k n)"
proof (cases n)
  case (Elem t a s p l c)
  have "map_of (assign k' v a) k = (if k = k' then Some v else map_of a k)"
    by (induction a) auto
  with Elem show ?thesis by (simp add: getAttribute_def)
qed (simp_all add: getAttribute_def)

lemma getAttribute_replaceChildren [simp]: "getAttribute k (replaceChildren c n) = getAttribute k n"
  by (cases n) (simp_all add: getAttribute_def)

lemma children_fold: "(\<And>x n. x \<in> set xs \<Longrightarrow> children (f x n) = children n) \<Longrightarrow> children (fold f xs n) = children n"
  by (induction xs arbitrary: n) auto

definition outer_attr :: "string \<times> 'a jsval \<Rightarrow> bool" where
  "outer_attr kv \<longleftrightarrow> fst kv \<notin> set [''text'', ''html'', ''innerHTML'', ''textContent'']"

lemma children_set_prop: "k \<noteq> ''innerHTML'' \<Longrightarrow> k \<noteq> ''textContent'' \<Longrightarrow> children (set_prop k v n) = children n"
  by (simp add: set_prop_def)

lemma children_set_other_attr:
  "k \<noteq> ''innerHTML'' \<Longrightarrow> k \<noteq> ''textContent'' \<Longrightarrow> children (set_other_attr k v n) = children n"
  by (simp add: set_other_attr_def set_plain_attr_def children_set_prop)

lemma children_set_el_attr: "outer_attr kv \<Longrightarrow> children (set_el_attr kv n) = children n"
  unfolding set_el_attr_def outer_attr_def Let_def
  by (auto intro!: children_fold simp: children_set_other_attr split: jsval.splits)

lemma is_Elem_update [simp]:
  "is_Elem (setAttribute k v n) = is_Elem n"
  "is_Elem (removeAttribute k n) = is_Elem n"
  "is_Elem (setStyle k v n) = is_Elem n"
  "is_Elem (addEventListener e f n) = is_Elem n"
  "is_Elem (set_raw_prop k w n) = is_Elem n"
  "is_Elem (replaceChildren c n) = is_Elem n"
  by (cases n; simp)+

lemma is_Elem_fold: "(\<And>x n. x \<in> set xs \<Longrightarrow> is_Elem (f x n) = is_Elem n) \<Longrightarrow> is_Elem (fold f xs n) = is_Elem n"
  by (induction xs arbitrary: n) auto

lemma is_Elem_set_other_attr [simp]: "is_Elem (set_other_attr k v n) = is_Elem n"
  by (simp add: set_other_attr_def set_plain_attr_def set_prop_def setClassName_def setTextContent_def
      setInnerHTML_def)

lemma is_Elem_set_el_attr [simp]: "is_Elem (set_el_attr kv n) = is_Elem n"
  unfolding set_el_attr_def Let_def
  by (auto simp: is_Elem_fold setClassName_def setTextContent_def setInnerHTML_def split: jsval.splits prod.splits)

lemma children_appendChild [simp]: "is_Elem n \<Longrightarrow> children (appendChild c n) = children n @ [c]"
  by (cases n) (simp_all add: appendChild_def)

lemma children_append_all: "is_Elem n \<Longrightarrow> children (fold appendChild cs n) = children n @ cs"
proof (induction cs arbitrary: n)
  case (Cons c cs)
  have "is_Elem (appendChild c n)" using Cons.prems by (simp add: appendChild_def)
  with Cons show ?case by simp
qed simp

lemma children_el: "list_all outer_attr as \<Longrightarrow> children (el t as cs) = concat (map child_nodes cs)"
proof -
  assume "list_all outer_attr as"
  then have "children (fold set_el_attr as (createElement t)) = []"
    by (subst children_fold) (auto simp: list_all_iff children_set_el_attr)
  moreover have "is_Elem (fold set_el_attr as (createElement t))" by (subst is_Elem_fold) auto
  ultimately show ?thesis by (simp add: el_def children_append_all)
qed

lemma textContent_children: "is_Elem n \<Longrightarrow> textContent n = concat (map textContent (children n))"
  by (cases n) auto

lemma is_Elem_el [simp]: "is_Elem (el t as cs)"
  unfolding el_def by (simp add: is_Elem_fold appendChild_def)

fun child_text :: "'a child \<Rightarrow> string" where
  "child_text CNull = []"
| "child_text (CStr s) = s"
| "child_text (CNum n) = show_int n"
| "child_text (CNode n) = textContent n"
| "child_text (CArr cs) = concat (map child_text cs)"

lemma child_text_nodes: "concat (map textContent (child_nodes c)) = child_text c"
proof (induction c rule: child_text.induct)
  case (5 cs)
  then show ?case by (induction cs) auto
qed auto

text \<open>
  The builder puts data into text nodes, attributes, styles and listeners only. Unless the
  caller asks for markup with an \<open>html\<close> or \<open>innerHTML\<close> attribute, an element whose children
  contain no parsed markup contains none; and unless the caller overrides the content, the
  text shown is the text of the children, in order and unchanged.
\<close>

theorem el_keeps_text_as_text:
  "(list_all text_attr as \<and> list_all plain_child cs \<longrightarrow> plain (el t as cs)) \<and>
   (list_all outer_attr as \<longrightarrow> textContent (el t as cs) = concat (map child_text cs))"
proof (intro conjI impI)
  assume "list_all outer_attr as"
  then have "textContent (el t as cs) = concat (map textContent (concat (map child_nodes cs)))"
    by (simp add: textContent_children children_el)
  also have "\<dots> = concat (map child_text cs)"
    by (induction cs) (simp_all add: child_text_nodes)
  finally show "textContent (el t as cs) = concat (map child_text cs)" .
qed simp

theorem el_keeps_text_as_text_witness:
  "plain (el ''p'' [(''class'', JStr ''note'')] [CStr ''<b>'', CNull, CNum 3] :: string node) \<and>
   textContent (el ''p'' [(''class'', JStr ''note'')] [CStr ''<b>'', CNull, CNum 3] :: string node) = ''<b>3''"
  using el_keeps_text_as_text
    [of "[(''class'', JStr ''note'')]" "[CStr ''<b>'', CNull, CNum 3] :: string child list" "''p''"]
  by (simp add: outer_attr_def show_int_def show_nat.simps digit_char_def char_of_def bit_iff_odd)

end
