(* ===== verification/Pagination.thy ===== *)
theory Pagination
  imports Dom
begin

text \<open>
  The paginated collections of \<open>packages/renop-ui/js/pagination.js\<close> and the page slicing of
  \<open>repository-list.js\<close>.

  A page argument that is not a number is \<open>None\<close>; the collections pass whole numbers. The
  animation around a page change (\<open>morphElementHeight\<close>) runs its callback exactly once before
  it returns, so \<open>render\<close> is the callback \<open>replacePage\<close>.
\<close>

section \<open>Definitions\<close>

definition page_count :: "nat \<Rightarrow> nat \<Rightarrow> nat" where
  "page_count totalItems pageSize = max 1 (ceil_div totalItems pageSize)"

definition clampCollectionPage :: "int option \<Rightarrow> int \<Rightarrow> int \<Rightarrow> nat" where
  "clampCollectionPage page totalItems pageSize =
     (let pages = page_count (nat (max 0 totalItems)) (nat (max 1 pageSize));
          p = (case page of None \<Rightarrow> 0 | Some n \<Rightarrow> n)
      in nat (max 0 (min p (int pages - 1))))"

datatype page_action = GoTo int

definition createCollectionPager ::
  "nat \<Rightarrow> nat \<Rightarrow> nat \<Rightarrow> string \<Rightarrow> string \<Rightarrow> (nat \<Rightarrow> nat \<Rightarrow> nat \<Rightarrow> string) \<Rightarrow> page_action node option" where
  "createCollectionPager page totalItems pageSize previousLabel nextLabel summary =
     (let pages = page_count totalItems pageSize in
      if pages \<le> 1 then None
      else
        (let previous = addEventListener ''click'' (GoTo (int page - 1))
               (el ''button'' [(''type'', JStr ''button''), (''class'', JStr ''renop-pagination-btn''),
                  (''disabled'', JBool (page = 0)), (''aria-label'', JStr previousLabel)] [CStr previousLabel]);
             next' = addEventListener ''click'' (GoTo (int page + 1))
               (el ''button'' [(''type'', JStr ''button''), (''class'', JStr ''renop-pagination-btn''),
                  (''disabled'', JBool (page \<ge> pages - 1)), (''aria-label'', JStr nextLabel)] [CStr nextLabel]);
             status = summary (page + 1) pages totalItems
         in Some (el ''nav'' [(''class'', JStr ''renop-pagination''), (''aria-label'', JStr status)]
              [CNode previous,
               CNode (el ''span'' [(''class'', JStr ''renop-pagination-summary''), (''aria-live'', JStr ''polite'')]
                 [CStr status]),
               CNode next'])))"

text \<open>The options of a collection; \<open>render_empty\<close> is \<open>None\<close> when no such function is given.\<close>

record ('i, 'a) collection_options =
  render_item :: "'i \<Rightarrow> nat \<Rightarrow> 'a node option"
  render_empty :: "'a node option option"
  previous_label :: string
  next_label :: string
  summary :: "nat \<Rightarrow> nat \<Rightarrow> nat \<Rightarrow> string"

record ('i, 'a) paginated =
  collection :: "'i list"
  page_size :: nat
  current_page :: nat
  list_node :: "'a node"
  pager_node :: "page_action node"
  page_changes :: "nat list"

definition page_items :: "'i list \<Rightarrow> nat \<Rightarrow> nat \<Rightarrow> 'i list" where
  "page_items items sz page = slice (page * sz) (page * sz + sz) items"

definition page_nodes :: "('i, 'a) collection_options \<Rightarrow> ('i, 'a) paginated \<Rightarrow> 'a node list" where
  "page_nodes opts s =
     (let start = current_page s * page_size s;
          nodes = List.map_filter id (map2 (render_item opts) (page_items (collection s) (page_size s) (current_page s))
                    [start ..< start + length (page_items (collection s) (page_size s) (current_page s))])
      in if nodes = [] then (case render_empty opts of Some (Some e) \<Rightarrow> [e] | _ \<Rightarrow> []) else nodes)"

definition replacePage :: "('i, 'a) collection_options \<Rightarrow> ('i, 'a) paginated \<Rightarrow> ('i, 'a) paginated" where
  "replacePage opts s =
     s\<lparr>list_node := class_add ''renop-page-enter'' (class_remove ''renop-page-enter''
          (replaceChildren (page_nodes opts s) (list_node s))),
       pager_node := (case createCollectionPager (current_page s) (length (collection s)) (page_size s)
                              (previous_label opts) (next_label opts) (summary opts) of
           None \<Rightarrow> replaceChildren [] (pager_node s)
         | Some control \<Rightarrow> appendChild control (replaceChildren [] (pager_node s)))\<rparr>"

definition onPageChanged :: "('i, 'a) paginated \<Rightarrow> ('i, 'a) paginated" where
  "onPageChanged s = s\<lparr>page_changes := page_changes s @ [current_page s]\<rparr>"

definition setPage :: "('i, 'a) collection_options \<Rightarrow> int option \<Rightarrow> ('i, 'a) paginated \<Rightarrow> ('i, 'a) paginated" where
  "setPage opts page s =
     (let nextPage = clampCollectionPage page (int (length (collection s))) (int (page_size s)) in
      if nextPage = current_page s then s
      else replacePage opts (onPageChanged (s\<lparr>current_page := nextPage\<rparr>)))"

text \<open>A collection argument that is not an array counts as empty.\<close>

definition setItems ::
  "('i, 'a) collection_options \<Rightarrow> 'i list option \<Rightarrow> bool \<Rightarrow> ('i, 'a) paginated \<Rightarrow> ('i, 'a) paginated" where
  "setItems opts nextItems preservePage s =
     (let coll = (case nextItems of None \<Rightarrow> [] | Some xs \<Rightarrow> xs) in
      replacePage opts (onPageChanged
        (s\<lparr>collection := coll,
           current_page := clampCollectionPage (Some (if preservePage then int (current_page s) else 0))
             (int (length coll)) (int (page_size s))\<rparr>)))"

definition bounded_page_size :: "int option \<Rightarrow> nat" where
  "bounded_page_size pageSize =
     nat (max 1 (min 100 (case pageSize of None \<Rightarrow> 8 | Some n \<Rightarrow> if n = 0 then 8 else n)))"

definition createPaginatedCollection ::
  "('i, 'a) collection_options \<Rightarrow> 'a node \<Rightarrow> page_action node \<Rightarrow> 'i list option \<Rightarrow> int option \<Rightarrow> int option \<Rightarrow>
   ('i, 'a) paginated" where
  "createPaginatedCollection opts lst pgr items pageSize initialPage =
     (let coll = (case items of None \<Rightarrow> [] | Some xs \<Rightarrow> xs); sz = bounded_page_size pageSize in
      replacePage opts (onPageChanged
        \<lparr>collection = coll, page_size = sz,
         current_page = clampCollectionPage initialPage (int (length coll)) (int sz),
         list_node = lst, pager_node = pgr, page_changes = []\<rparr>))"

datatype 'i page_event = SetPage "int option" | SetItems "'i list option" bool

fun paginate :: "('i, 'a) collection_options \<Rightarrow> 'i page_event \<Rightarrow> ('i, 'a) paginated \<Rightarrow> ('i, 'a) paginated option" where
  "paginate opts (SetPage p) s = Some (setPage opts p s)"
| "paginate opts (SetItems xs keep) s = Some (setItems opts xs keep s)"

record name_page =
  np_names :: "string list"
  np_page :: nat
  np_pages :: nat
  np_total :: nat
  np_start :: nat
  np_end :: nat

definition paginateRepositoryNames :: "string list option \<Rightarrow> int option \<Rightarrow> int option \<Rightarrow> name_page" where
  "paginateRepositoryNames names requestedPage pageSize =
     (let safeNames = (case names of None \<Rightarrow> [] | Some xs \<Rightarrow> xs);
          safePageSize = (case pageSize of Some n \<Rightarrow> if n > 0 then nat n else 10 | None \<Rightarrow> 10);
          pages = page_count (length safeNames) safePageSize;
          requested = (case requestedPage of Some n \<Rightarrow> if n \<ge> 0 then nat n else 0 | None \<Rightarrow> 0);
          page = min requested (pages - 1);
          offset = page * safePageSize;
          pageNames = slice offset (offset + safePageSize) safeNames
      in \<lparr>np_names = pageNames, np_page = page, np_pages = pages, np_total = length safeNames,
          np_start = (if pageNames = [] then 0 else offset + 1), np_end = offset + length pageNames\<rparr>)"

section \<open>Pages partition a collection\<close>

lemma page_count_pos [simp]: "0 < page_count n sz"
  by (simp add: page_count_def)

lemma pages_cover: "0 < sz \<Longrightarrow> concat (map (page_items xs sz) [0..<page_count (length xs) sz]) = xs"
proof -
  assume "0 < sz"
  then have "length xs \<le> page_count (length xs) sz * sz"
    using ceil_div_bound [of sz "length xs"] ceil_div_pos [of sz "length xs"]
    by (cases "xs = []") (auto simp: page_count_def max_def)
  moreover have "page_items xs sz = (\<lambda>i. take sz (drop (i * sz) xs))"
    by (auto simp: fun_eq_iff page_items_def slice_def)
  ultimately show ?thesis by (simp add: concat_slices)
qed

lemma page_nonempty:
  assumes "0 < sz" "xs \<noteq> []" "p < page_count (length xs) sz"
  shows "page_items xs sz p \<noteq> []"
proof -
  have "p \<le> ceil_div (length xs) sz - 1"
    using assms ceil_div_pos [of sz "length xs"] by (auto simp: page_count_def max_def split: if_splits)
  then have "p * sz \<le> (ceil_div (length xs) sz - 1) * sz" by (rule mult_le_mono1)
  also have "\<dots> < length xs" using assms by (intro ceil_div_tight) auto
  finally show ?thesis using assms(1) by (simp add: page_items_def slice_def)
qed

lemma clamp_range: "clampCollectionPage p (int n) (int sz) < page_count n (max 1 sz)"
proof -
  have "nat (max 1 (int sz)) = max 1 sz" by (simp add: max_def)
  then show ?thesis
    using page_count_pos [of n "max 1 sz"] unfolding clampCollectionPage_def Let_def 
    by (simp add: max_def min_def nat_less_iff)
qed

lemma clamp_id: "p < page_count n sz \<Longrightarrow> 0 < sz \<Longrightarrow> clampCollectionPage (Some (int p)) (int n) (int sz) = p"
  by (auto simp: clampCollectionPage_def Let_def)

section \<open>The collection stays consistent\<close>

definition pager_children :: "('i, 'a) collection_options \<Rightarrow> ('i, 'a) paginated \<Rightarrow> page_action node list" where
  "pager_children opts s =
     (case createCollectionPager (current_page s) (length (collection s)) (page_size s)
             (previous_label opts) (next_label opts) (summary opts) of None \<Rightarrow> [] | Some control \<Rightarrow> [control])"

definition page_bounds :: "('i, 'a) paginated \<Rightarrow> bool" where
  "page_bounds s \<longleftrightarrow> 1 \<le> page_size s \<and> page_size s \<le> 100 \<and>
     current_page s < page_count (length (collection s)) (page_size s) \<and>
     is_Elem (list_node s) \<and> is_Elem (pager_node s)"

definition paginated_inv :: "('i, 'a) collection_options \<Rightarrow> ('i, 'a) paginated \<Rightarrow> bool" where
  "paginated_inv opts s \<longleftrightarrow> page_bounds s \<and>
     children (list_node s) = page_nodes opts s \<and> children (pager_node s) = pager_children opts s \<and>
     page_changes s \<noteq> [] \<and> last (page_changes s) = current_page s"

lemma class_children [simp]:
  "children (class_add c n) = children n" "children (class_remove c n) = children n"
  "is_Elem (class_add c n) = is_Elem n" "is_Elem (class_remove c n) = is_Elem n"
  by (simp_all add: class_add_def class_remove_def set_classes_def setClassName_def)

lemma replacePage_inv:
  assumes "page_bounds s"
  shows "paginated_inv opts (replacePage opts (onPageChanged s))"
  using assms
  by (simp add: paginated_inv_def page_bounds_def replacePage_def onPageChanged_def page_nodes_def
      pager_children_def Let_def appendChild_def split: option.splits)

lemma clamp_bounds:
  "page_bounds s \<Longrightarrow> page_bounds (s\<lparr>collection := xs,
     current_page := clampCollectionPage p (int (length xs)) (int (page_size s))\<rparr>)"
  using clamp_range [of p "length xs" "page_size s"] by (simp add: page_bounds_def max_def)

interpretation pg: machine "paginate opts" "paginated_inv opts" for opts :: "('i, 'a) collection_options"
proof
  fix s e and t :: "('i, 'a) paginated"
  assume i: "paginated_inv opts s" and e: "paginate opts e s = Some t"
  from i have b: "page_bounds s" by (simp add: paginated_inv_def)
  show "paginated_inv opts t"
  proof (cases e)
    case (SetPage p)
    from clamp_bounds [OF b, of p "collection s"]
    have "page_bounds (s\<lparr>current_page := clampCollectionPage p (int (length (collection s))) (int (page_size s))\<rparr>)"
      by simp
    from replacePage_inv [OF this, of opts] SetPage e i show ?thesis
      by (auto simp: setPage_def Let_def split: if_splits)
  next
    case (SetItems xs keep)
    then show ?thesis
      using e replacePage_inv [OF clamp_bounds [OF b], of opts] by (auto simp: setItems_def Let_def)
  qed
qed

lemma created_inv:
  assumes "is_Elem lst" "is_Elem pgr"
  shows "paginated_inv opts (createPaginatedCollection opts lst pgr items pageSize initialPage)"
proof -
  define coll where "coll = (case items of None \<Rightarrow> [] | Some xs \<Rightarrow> xs)"
  define sz where "sz = bounded_page_size pageSize"
  have sz: "1 \<le> sz" "sz \<le> 100" unfolding sz_def bounded_page_size_def by auto
  then have "page_bounds \<lparr>collection = coll, page_size = sz,
      current_page = clampCollectionPage initialPage (int (length coll)) (int sz),
      list_node = lst, pager_node = pgr, page_changes = []\<rparr>"
    using assms clamp_range [of initialPage "length coll" sz] by (simp add: page_bounds_def max_def)
  then show ?thesis
    unfolding createPaginatedCollection_def Let_def coll_def [symmetric] sz_def [symmetric]
    by (rule replacePage_inv)
qed

text \<open>
  a paginated collection never shows a wrong page. After any sequence of page selections and
  item replacements the current page exists, the list shows exactly the rendered items of that
  page, the pager is the one of that page, the observer was last told this page, a page of a
  non-empty collection is not empty, and the pages together are the collection.
\<close>

theorem pagination_consistent:
  assumes "is_Elem lst" and "is_Elem pgr"
    and "run (paginate opts) es (createPaginatedCollection opts lst pgr items pageSize initialPage) = Some s"
  shows "current_page s < page_count (length (collection s)) (page_size s) \<and>
    children (list_node s) = page_nodes opts s \<and> children (pager_node s) = pager_children opts s \<and>
    last (page_changes s) = current_page s \<and>
    (collection s \<noteq> [] \<longrightarrow> page_items (collection s) (page_size s) (current_page s) \<noteq> []) \<and>
    concat (map (page_items (collection s) (page_size s)) [0..<page_count (length (collection s)) (page_size s)]) =
      collection s"
proof -
  have "paginated_inv opts s"
    by (rule pg.inv_run [OF assms(3) created_inv [OF assms(1,2)]])
  then show ?thesis
    using page_nonempty [of "page_size s" "collection s" "current_page s"]
      pages_cover [of "page_size s" "collection s"]
    by (simp add: paginated_inv_def page_bounds_def)
qed

definition sample_options :: "(string, string) collection_options" where
  "sample_options = \<lparr>render_item = (\<lambda>x i. Some (el ''li'' [] [CStr x])), render_empty = None,
     previous_label = ''<'', next_label = ''>'', summary = (\<lambda>p n t. show_nat p)\<rparr>"

definition sample_paginated :: "(string, string) paginated option" where
  "sample_paginated = run (paginate sample_options) [SetPage (Some 7), SetItems (Some [''a'', ''b'', ''c'']) True]
     (createPaginatedCollection sample_options (createElement ''ul'') (createElement ''div'')
        (Some [''a'', ''b'', ''c'', ''d'', ''e'']) (Some 2) None)"

theorem pagination_consistent_witness:
  "current_page (the sample_paginated) = 1 \<and>
   children (list_node (the sample_paginated)) = page_nodes sample_options (the sample_paginated) \<and>
   map textContent (page_nodes sample_options (the sample_paginated)) = [''c'']"
proof -
  have "sample_paginated = Some (the sample_paginated)" unfolding sample_paginated_def by simp
  note r = this [unfolded sample_paginated_def]
  have "current_page (the sample_paginated) = 1" by code_simp
  moreover have "map textContent (page_nodes sample_options (the sample_paginated)) = [''c'']" by code_simp
  ultimately show ?thesis
    using pagination_consistent [OF _ _ r] by (simp add: sample_paginated_def)
qed

text \<open>
  the pager offers exactly the moves that exist. It is absent when there is one page; the
  previous (next) button is disabled exactly on the first (last) page, and a button that is not
  disabled leads to an existing page.
\<close>

theorem pager_moves_in_range:
  assumes "page < page_count n sz"
  shows "(createCollectionPager page n sz pl nl sm = None \<longleftrightarrow> page_count n sz = 1) \<and>
    (\<forall>nav. createCollectionPager page n sz pl nl sm = Some nav \<longrightarrow>
       (\<exists>prev status nxt. children nav = [prev, status, nxt] \<and>
          (getAttribute ''disabled'' prev = Some [] \<longleftrightarrow> page = 0) \<and>
          (getAttribute ''disabled'' nxt = Some [] \<longleftrightarrow> page + 1 = page_count n sz) \<and>
          (getAttribute ''disabled'' prev = None \<longrightarrow>
             (\<exists>q < page_count n sz. listeners prev = [(''click'', GoTo (int q))] \<and> q + 1 = page)) \<and>
          (getAttribute ''disabled'' nxt = None \<longrightarrow>
             (\<exists>q < page_count n sz. listeners nxt = [(''click'', GoTo (int q))] \<and> q = page + 1)) \<and>
          textContent status = sm (page + 1) (page_count n sz) n))"
proof (cases "page_count n sz \<le> 1")
  case True
  with assms show ?thesis by (auto simp: createCollectionPager_def Let_def)
next
  case False
  then show ?thesis
    using assms
    by (simp add: createCollectionPager_def Let_def el_eval getAttribute_def) (auto intro: exI [of _ "page - 1"])
qed

theorem pager_moves_in_range_witness:
  "(0 :: nat) < page_count 5 2 \<and> createCollectionPager 0 5 2 ''<'' ''>'' (\<lambda>p n t. show_nat p) \<noteq> None"
  using pager_moves_in_range [of 0 5 2 "''<''" "''>''" "\<lambda>p n t. show_nat p"]
  by (simp add: page_count_def ceil_div_def)

end
