(* ===== verification/I18n.thy ===== *)
theory I18n
  imports Dom
begin

text \<open>
  Language selection and message formatting: \<open>packages/renop-ui/js/i18n-util.js\<close>.

  The replacement of a placeholder is \<open>String.prototype.replace\<close> with a global pattern, whose
  replacement text is a template: \<open>$$\<close>, \<open>$&\<close> and the two context patterns are expanded
  (\<open>expand\<close>). Parameter names are identifiers, so the pattern built from one denotes exactly the
  text of its placeholder.
\<close>

section \<open>Matching a language tag\<close>

definition lower_eq :: "string \<Rightarrow> string \<Rightarrow> bool" where
  "lower_eq key lower \<longleftrightarrow> to_lower key = lower"

definition match_chinese :: "string \<Rightarrow> string list \<Rightarrow> string option" where
  "match_chinese cleanLower keys =
     (if \<not> (starts_with ''zh'' cleanLower \<or> starts_with ''yue'' cleanLower) then None
      else if ''zh-YUE'' \<in> set keys \<and> (contains ''yue'' cleanLower \<or> contains ''cantonese'' cleanLower)
      then Some ''zh-YUE''
      else if ''zh-HK'' \<in> set keys \<and> contains ''hk'' cleanLower then Some ''zh-HK''
      else if ''zh-TW'' \<in> set keys \<and> (contains ''tw'' cleanLower \<or> contains ''hant'' cleanLower)
      then Some ''zh-TW''
      else if ''zh-CN'' \<in> set keys \<and> (contains ''cn'' cleanLower \<or> contains ''hans'' cleanLower \<or>
                contains ''sg'' cleanLower \<or> cleanLower = ''zh'' \<or> starts_with ''zh-'' cleanLower)
      then Some ''zh-CN''
      else find (\<lambda>k. starts_with ''zh'' (to_lower k)) keys)"

definition base_language :: "string \<Rightarrow> string" where
  "base_language clean = to_lower (takeWhile (\<lambda>c. c \<noteq> CHR ''-'' \<and> c \<noteq> CHR ''_'') clean)"

definition matchLocaleKey :: "string option \<Rightarrow> string list \<Rightarrow> string option" where
  "matchLocaleKey lang keys =
     (case lang of
        None \<Rightarrow> None
      | Some l \<Rightarrow>
          (let clean = js_trim l; cleanLower = to_lower clean in
           if clean = [] \<or> keys = [] then None
           else (case find (\<lambda>key. lower_eq key cleanLower) keys of
                   Some key \<Rightarrow> Some key
                 | None \<Rightarrow>
                     (case match_chinese cleanLower keys of
                        Some key \<Rightarrow> Some key
                      | None \<Rightarrow>
                          (let base = base_language clean in
                           if base = [] then None
                           else find (\<lambda>key. to_lower key = base \<or> starts_with (base @ ''-'') (to_lower key)) keys)))))"

datatype lang_source = LocalStorage | Browser | Fallback

text \<open>
  The saved value is \<open>None\<close> without storage or entry; \<open>languages\<close> is the list the browser
  reports, \<open>language\<close> its single preference (\<open>None\<close> without a navigator).
\<close>

fun first_resolved :: "(string \<Rightarrow> string option) \<Rightarrow> string list \<Rightarrow> string option" where
  "first_resolved resolve [] = None"
| "first_resolved resolve (b # bs) =
     (if b = [] then first_resolved resolve bs
      else case resolve b of
             Some r \<Rightarrow> if r = [] then first_resolved resolve bs else Some r
           | None \<Rightarrow> first_resolved resolve bs)"

definition browser_langs :: "string list \<Rightarrow> string option \<Rightarrow> string list" where
  "browser_langs languages language =
     (if languages \<noteq> [] then languages else (case language of None \<Rightarrow> [] | Some l \<Rightarrow> [l]))"

definition detectLanguage ::
  "string option \<Rightarrow> string list \<Rightarrow> string option \<Rightarrow> (string \<Rightarrow> string option) \<Rightarrow> string \<Rightarrow> string \<times> lang_source" where
  "detectLanguage saved languages language resolve defaultLang =
     (case first_resolved resolve (case saved of None \<Rightarrow> [] | Some s \<Rightarrow> [s]) of
        Some r \<Rightarrow> (r, LocalStorage)
      | None \<Rightarrow>
          (case first_resolved resolve (browser_langs languages language) of
             Some r \<Rightarrow> (r, Browser)
           | None \<Rightarrow> (defaultLang, Fallback)))"

section \<open>Messages\<close>

text \<open>Expansion of a replacement template; the sources use no capture groups.\<close>

fun expand :: "string \<Rightarrow> string \<Rightarrow> string \<Rightarrow> string \<Rightarrow> string" where
  "expand before matched after [] = []"
| "expand before matched after [c] = [c]"
| "expand before matched after (c # d # r) =
     (if c \<noteq> CHR ''$'' then c # expand before matched after (d # r)
      else if d = CHR ''$'' then CHR ''$'' # expand before matched after r
      else if d = CHR ''&'' then matched @ expand before matched after r
      else if d = CHR 0x60 then before @ expand before matched after r
      else if d = CHR 0x27 then after @ expand before matched after r
      else c # expand before matched after (d # r))"

text \<open>Global replacement of a non-empty literal pattern, left to right.\<close>

function replace_scan :: "string \<Rightarrow> string \<Rightarrow> string \<Rightarrow> string \<Rightarrow> string" where
  "replace_scan pat repl before s =
     (if s = [] then []
      else if pat \<noteq> [] \<and> starts_with pat s
      then expand before pat (drop (length pat) s) repl @
           replace_scan pat repl (before @ pat) (drop (length pat) s)
      else hd s # replace_scan pat repl (before @ [hd s]) (tl s))"
  by pat_completeness auto
termination
  by (relation "measure (\<lambda>(pat, repl, before, s). length s)") (auto simp: neq_Nil_conv)

declare replace_scan.simps [simp del]

definition js_replace_all :: "string \<Rightarrow> string \<Rightarrow> string \<Rightarrow> string" where
  "js_replace_all pat repl s = replace_scan pat repl [] s"

definition placeholder :: "string \<Rightarrow> string" where
  "placeholder k = ''{'' @ k @ ''}''"

definition interpolateMessage :: "string \<Rightarrow> (string \<times> string) list \<Rightarrow> string" where
  "interpolateMessage text params = fold (\<lambda>(pKey, pVal) out. js_replace_all (placeholder pKey) pVal out) params text"

text \<open>\<open>current[key] || fallback[key] || key\<close>.\<close>

definition lookup_text :: "(string \<rightharpoonup> string) \<Rightarrow> string \<Rightarrow> string" where
  "lookup_text d k = (case d k of None \<Rightarrow> [] | Some v \<Rightarrow> v)"

definition translateKey ::
  "string \<Rightarrow> (string \<times> string) list \<Rightarrow> (string \<rightharpoonup> string) \<Rightarrow> (string \<rightharpoonup> string) \<Rightarrow> string" where
  "translateKey key params current fallback =
     interpolateMessage (or_else (or_else (lookup_text current key) (lookup_text fallback key)) key) params"

section \<open>Language cards\<close>

text \<open>The cards of the grid, given as the elements \<open>querySelectorAll\<close> finds.\<close>

definition syncLangCardsActive :: "'a node list option \<Rightarrow> string \<Rightarrow> 'a node list option" where
  "syncLangCardsActive grid currentLang =
     map_option (map (\<lambda>card. class_toggle ''active'' (getAttribute ''data-lang'' card = Some currentLang) card)) grid"

section \<open>Matching only returns known keys\<close>

lemma find_Some: "find P xs = Some x \<Longrightarrow> x \<in> set xs \<and> P x"
  by (induction xs) (auto split: if_splits)

lemma match_chinese_key: "match_chinese l keys = Some k \<Longrightarrow> k \<in> set keys"
  by (auto simp: match_chinese_def dest: find_Some split: if_splits)

text \<open>
  a language tag is only ever resolved to a language of the registry; a tag that names one of
  its keys, in whatever case and with surrounding spaces, is resolved to such a key, so a saved
  choice is found again exactly.
\<close>

theorem matchLocaleKey_sound:
  "(matchLocaleKey lang keys = Some k \<longrightarrow> k \<in> set keys) \<and>
   (k \<in> set keys \<and> js_trim k \<noteq> [] \<and> trimmed k \<and> (\<forall>k' \<in> set keys. to_lower k' = to_lower k \<longrightarrow> k' = k)
      \<longrightarrow> matchLocaleKey (Some k) keys = Some k)"
proof (intro conjI impI)
  assume "matchLocaleKey lang keys = Some k"
  then show "k \<in> set keys"
    by (auto simp: matchLocaleKey_def Let_def dest!: find_Some match_chinese_key
        split: option.splits if_splits)
next
  assume k: "k \<in> set keys \<and> js_trim k \<noteq> [] \<and> trimmed k \<and> (\<forall>k' \<in> set keys. to_lower k' = to_lower k \<longrightarrow> k' = k)"
  have "find (\<lambda>key. lower_eq key (to_lower k)) keys = Some k"
    using k
  proof (induction keys)
    case (Cons x xs)
    then show ?case by (cases "to_lower x = to_lower k") (auto simp: lower_eq_def)
  qed simp
  with k show "matchLocaleKey (Some k) keys = Some k"
    by (auto simp: matchLocaleKey_def Let_def)
qed

theorem matchLocaleKey_sound_witness:
  "matchLocaleKey (Some ''zh-Hant-MO'') [''en-US'', ''zh-CN'', ''zh-TW''] = Some ''zh-TW'' \<and>
   ''zh-TW'' \<in> set [''en-US'', ''zh-CN'', ''zh-TW''] \<and>
   matchLocaleKey (Some ''en-US'') [''en-US'', ''zh-CN''] = Some ''en-US''"
proof -
  have m: "matchLocaleKey (Some ''zh-Hant-MO'') [''en-US'', ''zh-CN'', ''zh-TW''] = Some ''zh-TW''" by code_simp
  have t: "trimmed ''en-US''" by code_simp
  have "to_lower ''zh-CN'' \<noteq> to_lower ''en-US''" by code_simp
  with t show ?thesis
    using m matchLocaleKey_sound [of "Some ''zh-Hant-MO''" "[''en-US'', ''zh-CN'', ''zh-TW'']" "''zh-TW''"]
      matchLocaleKey_sound [of None "[''en-US'', ''zh-CN'']" "''en-US''"]
    by auto
qed

section \<open>Interpolation against a reference\<close>

datatype segment = Lit string | Var string

fun seg_text :: "segment \<Rightarrow> string" where
  "seg_text (Lit s) = s"
| "seg_text (Var k) = placeholder k"

definition print :: "segment list \<Rightarrow> string" where
  "print segs = concat (map seg_text segs)"

fun seg_ok :: "segment \<Rightarrow> bool" where
  "seg_ok (Lit s) \<longleftrightarrow> CHR ''{'' \<notin> set s"
| "seg_ok (Var k) \<longleftrightarrow> CHR ''{'' \<notin> set k \<and> CHR ''}'' \<notin> set k"

fun subst_seg :: "string \<Rightarrow> string \<Rightarrow> segment \<Rightarrow> segment" where
  "subst_seg k v (Lit s) = Lit s"
| "subst_seg k v (Var j) = (if j = k then Lit v else Var j)"

fun render_seg :: "(string \<times> string) list \<Rightarrow> segment \<Rightarrow> string" where
  "render_seg ps (Lit s) = s"
| "render_seg ps (Var k) = (case map_of ps k of Some v \<Rightarrow> v | None \<Rightarrow> placeholder k)"

definition inert :: "string \<Rightarrow> bool" where
  "inert v \<longleftrightarrow> CHR ''$'' \<notin> set v \<and> CHR ''{'' \<notin> set v"

lemma expand_inert: "CHR ''$'' \<notin> set v \<Longrightarrow> expand b m a v = v"
  by (induction b m a v rule: expand.induct) auto

lemma replace_scan_simps:
  "replace_scan pat repl b [] = []"
  "\<not> starts_with pat (c # s) \<Longrightarrow> replace_scan pat repl b (c # s) = c # replace_scan pat repl (b @ [c]) s"
  "pat \<noteq> [] \<Longrightarrow> replace_scan pat repl b (pat @ s) = expand b pat s repl @ replace_scan pat repl (b @ pat) s"
  by (simp_all add: replace_scan.simps [of _ _ _ "[]"] replace_scan.simps [of pat repl b "c # s"]
      replace_scan.simps [of pat repl b "pat @ s"])

lemma scan_skip:
  "hd pat = CHR ''{'' \<Longrightarrow> pat \<noteq> [] \<Longrightarrow> CHR ''{'' \<notin> set a \<Longrightarrow>
   replace_scan pat v b (a @ s) = a @ replace_scan pat v (b @ a) s"
proof (induction a arbitrary: b)
  case (Cons c a)
  then have "\<not> starts_with pat (c # a @ s)" by (cases pat) auto
  with Cons show ?case by (simp add: replace_scan_simps)
qed simp

lemma key_prefix:
  "CHR ''}'' \<notin> set k \<Longrightarrow> CHR ''}'' \<notin> set j \<Longrightarrow> starts_with (k @ ''}'') (j @ ''}'' @ s) \<longleftrightarrow> j = k"
proof (induction k arbitrary: j)
  case Nil
  then show ?case by (cases j) auto
next
  case (Cons c k)
  then show ?case by (cases j) auto
qed

lemma replace_print:
  assumes "list_all seg_ok segs" "inert v" "CHR ''{'' \<notin> set k" "CHR ''}'' \<notin> set k"
  shows "replace_scan (placeholder k) v b (print segs) = print (map (subst_seg k v) segs)"
  using assms(1)
proof (induction segs arbitrary: b)
  case Nil
  then show ?case by (simp add: print_def replace_scan_simps)
next
  case (Cons x segs)
  have hd: "hd (placeholder k) = CHR ''{''" "placeholder k \<noteq> []" by (simp_all add: placeholder_def)
  show ?case
  proof (cases x)
    case (Lit s)
    with Cons scan_skip [OF hd, of s v b "print segs"] show ?thesis by (simp add: print_def)
  next
    case (Var j)
    show ?thesis
    proof (cases "j = k")
      case True
      with Var Cons replace_scan_simps(3) [OF hd(2), of v b "print segs"] assms(2) show ?thesis
        by (simp add: print_def expand_inert inert_def)
    next
      case False
      with Var Cons.prems assms have
        ns: "\<not> starts_with (placeholder k) (CHR ''{'' # j @ ''}'' @ print segs)"
        using key_prefix [of k j "print segs"] by (simp add: placeholder_def)
      have "CHR ''{'' \<notin> set (j @ ''}'')" using Var Cons.prems by simp
      from scan_skip [OF hd this, of v "b @ ''{''" "print segs"] ns Cons Var False show ?thesis
        by (simp add: print_def replace_scan_simps placeholder_def)
    qed
  qed
qed

lemma subst_ok: "list_all seg_ok segs \<Longrightarrow> inert v \<Longrightarrow> list_all seg_ok (map (subst_seg k v) segs)"
proof (induction segs)
  case (Cons x segs)
  then show ?case by (cases x) (auto simp: inert_def)
qed simp

lemma render_subst:
  "inert v \<Longrightarrow> k \<notin> fst ` set ps \<Longrightarrow> render_seg ps (subst_seg k v x) = render_seg ((k, v) # ps) x"
  by (cases x) (auto split: option.splits dest: map_of_SomeD image_eqI [of _ fst])

definition plain_params :: "(string \<times> string) list \<Rightarrow> bool" where
  "plain_params ps \<longleftrightarrow> distinct (map fst ps) \<and>
     list_all (\<lambda>(k, v). inert v \<and> CHR ''{'' \<notin> set k \<and> CHR ''}'' \<notin> set k) ps"

text \<open>
  A message is its template with every placeholder replaced by its value, all at once: for
  values without \<open>$\<close> and \<open>{\<close> the sequential replacements of the code compute the reference
  rendering, placeholders without a value stay visible, and the order of the parameters does not matter.
\<close>

theorem interpolateMessage_renders:
  assumes "list_all seg_ok segs" and "plain_params ps"
  shows "interpolateMessage (print segs) ps = concat (map (render_seg ps) segs)"
  using assms
proof (induction ps arbitrary: segs)
  case Nil
  have "seg_text = render_seg []" by (rule ext, case_tac x) auto
  then show ?case by (simp add: interpolateMessage_def print_def)
next
  case (Cons p ps)
  obtain k v where p: "p = (k, v)" by force
  with Cons.prems have v: "inert v" "CHR ''{'' \<notin> set k" "CHR ''}'' \<notin> set k" and k: "k \<notin> fst ` set ps"
    and ps: "plain_params ps"
    by (auto simp: plain_params_def)
  have "interpolateMessage (print segs) (p # ps) = interpolateMessage (print (map (subst_seg k v) segs)) ps"
    using replace_print [OF Cons.prems(1) v, of "[]"] by (simp add: interpolateMessage_def js_replace_all_def p)
  also have "\<dots> = concat (map (render_seg ps) (map (subst_seg k v) segs))"
    by (rule Cons.IH [OF subst_ok [OF Cons.prems(1) v(1)] ps])
  also have "\<dots> = concat (map (render_seg (p # ps)) segs)"
    by (simp add: comp_def p render_subst [OF v(1) k])
  finally show ?case .
qed

theorem interpolateMessage_renders_witness:
  "interpolateMessage ''Page {page} of {pages}{x}'' [(''pages'', ''7''), (''page'', ''2'')] = ''Page 2 of 7{x}''"
proof -
  define segs where "segs = [Lit ''Page '', Var ''page'', Lit '' of '', Var ''pages'', Var ''x'']"
  have ok: "list_all seg_ok segs" "plain_params [(''pages'', ''7''), (''page'', ''2'')]"
    by (simp_all add: segs_def plain_params_def inert_def)
  show ?thesis
    using interpolateMessage_renders [OF ok] by (simp add: segs_def print_def placeholder_def)
qed

text \<open>
  Outside that domain the code does something else: a value is itself treated as a template, so
  a dollar sign in it is not shown as it is, and a placeholder inside it is replaced by a later value.
\<close>

theorem interpolateMessage_value_is_template:
  "interpolateMessage ''{name}'' [(''name'', ''a$&b'')] = ''a{name}b'' \<and>
   interpolateMessage ''{name}'' [(''name'', ''US$$5'')] = ''US$5'' \<and>
   interpolateMessage ''{a}'' [(''a'', ''{b}''), (''b'', ''x'')] = ''x''"
  by (simp add: interpolateMessage_def js_replace_all_def placeholder_def replace_scan.simps)

end
