(* ===== verification/Tables.thy ===== *)
theory Tables
  imports Prelude
begin

text \<open>
  The constant tables of the message layer, entry by entry and in source order: the message keys
  of the stable error codes and HTTP statuses (\<open>response-errors.js\<close>), of the known backend
  phrases, and the registry of languages and their aliases (\<open>i18n.js\<close>).
\<close>

definition commonErrorCodeKeys :: "(string \<times> string) list" where
  "commonErrorCodeKeys =
    [(''captcha_required'', ''captcha.complete''),
     (''captcha_invalid'', ''captcha.failed''),
     (''captcha_unavailable'', ''captcha.unavailable''),
     (''captcha_changed'', ''captcha.changed''),
     (''captcha_cookies_required'', ''captcha.cookiesRequired''),
     (''captcha_settings_invalid'', ''captcha.settingsInvalid''),
     (''captcha_settings_save_failed'', ''captcha.settingsSaveFailed''),
     (''legal_consent_required'', ''legal.consentRequired''),
     (''legal_settings_invalid'', ''legal.invalid''),
     (''legal_settings_save_failed'', ''legal.saveFailed''),
     (''oauth_invalid'', ''oauth.failed''),
     (''oauth_unavailable'', ''oauth.failed''),
     (''oauth_last_login_method'', ''oauth.onlyLogin''),
     (''oauth_settings_invalid'', ''oauth.settingsInvalid''),
     (''oauth_settings_save_failed'', ''oauth.failed''),
     (''registration_disabled'', ''registration.disabled''),
     (''registration_ip_limited'', ''registration.ipLimited''),
     (''registration_cooldown'', ''registration.cooldown''),
     (''registration_pending'', ''registration.pending''),
     (''registration_invalid'', ''registration.invalid''),
     (''registration_unavailable'', ''registration.unavailable''),
     (''registration_username_conflict'', ''registration.usernameConflict''),
     (''registration_identity_linked'', ''registration.identityLinked''),
     (''registration_settings_invalid'', ''registration.settingsInvalid''),
     (''registration_settings_save_failed'', ''registration.unavailable''),
     (''MFA_REQUIRED'', ''mfa.loginHint''),
     (''MFA_PRIMARY_REQUIRED'', ''mfa.primaryRequired''),
     (''MFA_DEVICE_RATE_LIMITED'', ''mfa.deviceRateLimited''),
     (''MFA_INVALID'', ''mfa.invalid''),
     (''MFA_UNAVAILABLE'', ''mfa.unavailable''),
     (''MFA_REAUTH_REQUIRED'', ''mfa.reauth''),
     (''cache_settings_invalid'', ''cache.invalid''),
     (''cache_settings_save_failed'', ''cache.saveFailed''),
     (''cache_connection_failed'', ''cache.testFailed''),
     (''mail_settings_invalid'', ''mail.invalid''),
     (''mail_settings_save_failed'', ''mail.requestFailed''),
     (''mail_request_invalid'', ''mail.invalid''),
     (''mail_unavailable'', ''mail.requestFailed''),
     (''mail_status_unavailable'', ''mail.requestFailed''),
     (''mail_disabled'', ''mail.disabled''),
     (''mail_manual_rate_limited'', ''mail.rateLimited''),
     (''mail_queue_full'', ''mail.queueFull''),
     (''mail_no_account'', ''mail.noAccount''),
     (''mail_recipient_blocked'', ''mail.recipientBlocked''),
     (''ACCOUNT_BANNED'', ''login.accountBanned''),
     (''LOG_FILTER_INVALID'', ''audit.invalidFilter''),
     (''ACCOUNT_DELETED'', ''login.accountDeleted''),
     (''ACCOUNT_RETIREMENT_BLOCKED'', ''profile.retireBlockedHint''),
     (''ACCOUNT_RETIREMENT_CONFIRMATION'', ''profile.retireConfirmationMismatch''),
     (''ACCOUNT_BAN_INVALID'', ''users.banInvalid''),
     (''ACCOUNT_BAN_SELF'', ''users.banSelf''),
     (''ACCOUNT_BAN_PROTECTED'', ''users.banProtected''),
     (''ACCOUNT_BAN_IP_UNKNOWN'', ''users.banIPUnknown''),
     (''IP_BANNED'', ''login.ipBanned''),
     (''ACCOUNT_EMAIL_CONFLICT'', ''profile.privateEmailConflict''),
     (''ACCOUNT_LOCALE_INVALID'', ''profile.languageSaveFailed''),
     (''ACCOUNT_EMAIL_PROOF_REQUIRED'', ''profile.providerEmailUnverified''),
     (''ACCOUNT_EMAIL_LIMIT'', ''profile.emailAliasLimit''),
     (''ACCOUNT_EMAIL_PRIMARY'', ''profile.primaryEmailRequired''),
     (''ACCOUNT_EMAIL_INVALID'', ''profile.privateEmailInvalid''),
     (''ACCOUNT_EMAIL_CODE_INVALID'', ''login.emailCodeInvalid''),
     (''demo_read_only'', ''demo.readOnly''),
     (''demo_file_unavailable'', ''demo.filesUnavailable''),
     (''repository_capacity_exceeded'', ''repos.capacityExceeded''),
     (''ACCOUNT_SECURITY_HOLD'', ''profile.securityHold''),
     (''ACCOUNT_LAST_LOGIN_METHOD'', ''profile.passwordLoginNeedsAlternative''),
     (''ACCOUNT_PASSWORD_NOT_CONFIGURED'', ''profile.passwordLoginNotConfigured''),
     (''API_TOKEN_INVALID'', ''profile.apiTokenCreateFailed''),
     (''API_TOKEN_LIMIT'', ''profile.apiTokenLimitReached''),
     (''API_TOKEN_NAME_CONFLICT'', ''profile.apiTokenNameConflict''),
     (''GITHUB_LAST_LOGIN_METHOD'', ''profile.githubOnlyLogin''),
     (''MAVEN_USER_NOT_FOUND'', ''maven.userNotFound''),
     (''package_deprecated'', ''package.deprecationNotice''),
     (''resource_locked'', ''resourceLock.blocked''),
     (''review_pending'', ''package.reviewPending''),
     (''maven_domain_closed'', ''maven.domainClosedError''),
     (''maven_domain_locked'', ''maven.domainLockedError''),
     (''maven_domain_review_pending'', ''maven.domainReviewPending''),
     (''maven_claim_review_invalid'', ''maven.claimReviewInvalid''),
     (''publication_file_quota'', ''publicationQuota.fileExceeded''),
     (''publication_byte_quota'', ''publicationQuota.byteExceeded''),
     (''publication_count_quota'', ''publicationQuota.countExceeded''),
     (''repository_migration_pending_gpg'', ''repos.migrationPendingGpg''),
     (''repository_migration_pending_review'', ''repos.migrationPendingReview''),
     (''repository_pending_review'', ''repos.pendingReviewMutation''),
     (''git_repo_already_registered'', ''repos.gitAlreadyRegistered''),
     (''git_repo_not_found'', ''repos.gitNotFound''),
     (''git_repo_signin_required'', ''repos.gitLoginRequired''),
     (''git_repo_invalid_payload'', ''repos.gitInvalidFormat''),
     (''git_repo_invalid_format'', ''repos.gitInvalidFormat''),
     (''git_repo_oauth_required'', ''repos.gitOauthDisabled''),
     (''git_repo_ownership_required'', ''repos.gitNotOwner''),
     (''git_repo_request_pending'', ''repos.gitRegistrationPending''),
     (''git_repo_register_failed'', ''repos.gitRegisterFailed''),
     (''git_registration_pending'', ''repos.gitRegistrationPending''),
     (''git_registration_not_owner'', ''repos.gitNotOwner''),
     (''git_identity_not_linked'', ''repos.gitIdentityNotLinked''),
     (''git_oauth_disabled'', ''repos.gitOauthDisabled''),
     (''git_repo_invalid'', ''repos.gitInvalidFormat''),
     (''git_registration_cooldown'', ''repos.gitRegistrationCooldown''),
     (''git_quota_request_cooldown'', ''repos.gitQuotaCooldownError''),
     (''git_quota_request_pending'', ''repos.gitQuotaPendingError''),
     (''git_quota_not_authorized'', ''repos.gitQuotaNotAuthorized''),
     (''git_target_required'', ''repos.gitTargetRequired'')]"

definition statusErrorKeys :: "(nat \<times> string) list" where
  "statusErrorKeys =
    [(401, ''error.unauthorized''),
     (403, ''error.forbidden''),
     (404, ''error.notFound''),
     (409, ''error.conflict''),
     (413, ''error.requestEntityTooLarge''),
     (429, ''error.tooManyRequests''),
     (503, ''error.serviceUnavailable''),
     (507, ''error.insufficientStorage'')]"

definition ERROR_KEY_MAP :: "(string \<times> string) list" where
  "ERROR_KEY_MAP =
    [(''A user may register at most 10 GPG keys'', ''profile.gpgKeyLimit''),
     (''An error occurred during FIDO login'', ''error.fidoLoginError''),
     (''An error occurred during login'', ''login.loginError''),
     (''An unexpected error occurred while attempting to encode a Protobuf message'', ''error.internalServerError''),
     (''Authentication failed'', ''login.loginError''),
     (''Artifact or directory was deleted before publication'', ''profile.gpgFailure.deletedBeforePublication''),
     (''Artifact redeployment is not allowed'', ''profile.gpgFailure.redeploymentDenied''),
     (''Detached GPG signature was not uploaded before the publication deadline'', ''profile.gpgFailure.signatureDeadline''),
     (''Failed to register GPG key'', ''profile.gpgAddFailed''),
     (''GPG key could not be resolved by configured key servers'', ''profile.gpgResolveFailed''),
     (''GPG key ID is ambiguous; use the full fingerprint'', ''profile.gpgAmbiguousKey''),
     (''GPG key server URLs must contain only an HTTPS origin'', ''settings.gpgOriginOnly''),
     (''GPG key server URLs must use HTTPS'', ''settings.gpgHttpsOnly''),
     (''GPG validation timed out'', ''profile.gpgFailure.validationTimedOut''),
     (''Invalid GPG key ID or fingerprint'', ''profile.gpgInvalidKey''),
     (''Invalid profile links'', ''profile.linksInvalid''),
     (''Maven artifact was not uploaded before the publication deadline'', ''profile.gpgFailure.artifactDeadline''),
     (''Publication failed during GPG validation or storage commit'', ''profile.gpgFailure.generic''),
     (''Failed to update profile links'', ''profile.linksUpdateFailed''),
     (''Repository was deleted before publication'', ''profile.gpgFailure.repositoryDeleted''),
     (''The detached GPG signature is invalid'', ''profile.gpgFailure.invalidSignature''),
     (''The quarantined artifact or signature is no longer available'', ''profile.gpgFailure.quarantineMissing''),
     (''The signing key is not registered for the uploader'', ''profile.gpgFailure.keyUnregistered''),
     (''The target repository no longer exists'', ''profile.gpgFailure.repositoryMissing''),
     (''Uploader account was deleted'', ''profile.gpgFailure.uploaderDeleted''),
     (''at least one GPG key server is required'', ''settings.gpgAtLeastOne''),
     (''at most 8 GPG key servers are allowed'', ''settings.gpgAtMostEight''),
     (''at most 16 global proxies are allowed'', ''settings.proxyAtMostSixteen''),
     (''global proxy configuration is too long'', ''settings.proxyInvalidConfig''),
     (''global proxy credentials must use the username and password fields'', ''settings.proxyInvalidUrl''),
     (''global proxy name is invalid'', ''settings.proxyInvalidConfig''),
     (''global proxy name is required'', ''settings.proxyNameRequired''),
     (''global proxy names must be unique'', ''settings.proxyNamesUnique''),
     (''global proxy URL is invalid'', ''settings.proxyInvalidUrl''),
     (''global proxy URL must not contain a path, query, or fragment'', ''settings.proxyInvalidUrl''),
     (''global proxy URL must use http, https, or socks5'', ''settings.proxyInvalidUrl''),
     (''invalid GPG key server URL'', ''settings.gpgInvalidServer''),
     (''selected global proxy does not exist'', ''settings.proxySelectedMissing''),
     (''SOCKS5 global proxy URL must include a port'', ''settings.proxyInvalidUrl''),
     (''storage path cannot be changed while GPG publications are pending'', ''settings.gpgPendingStorageChange''),
     (''Background image exceeds 5 MiB'', ''error.bgExceedsSize''),
     (''Background URL must be a valid WebP image'', ''error.bgMustBeWebp''),
     (''Bad path'', ''error.badPath''),
     (''Bad request'', ''error.badRequest''),
     (''Bad Request'', ''error.badRequest''),
     (''Cancel'', ''confirm.cancelBtn''),
     (''Cannot delete current account'', ''error.cannotDeleteCurrentAccount''),
     (''Click to copy'', ''prompt.clickToCopy''),
     (''Close mirrors'', ''details.closeMirrors''),
     (''Close modal'', ''modal.close''),
     (''Confirm'', ''confirm.confirmBtn''),
     (''Confirm Action'', ''confirm.title''),
     (''Conflict'', ''error.conflict''),
     (''Copied to clipboard!'', ''prompt.copied''),
     (''Could not resolve host'', ''error.couldNotResolveHost''),
     (''Database DSN must not be empty'', ''error.dbDsnEmpty''),
     (''Debug mode is not active (enable server.debug_mode and restart)'', ''error.debugModeInactive''),
     (''Error'', ''common.error''),
     (''Error generating token'', ''profile.genTokenError''),
     (''Error loading FIDO devices'', ''error.fidoLoadFailed''),
     (''Error updating password'', ''profile.updatePasswordError''),
     (''Executable binary does not match current system or architecture'', ''error.incompatibleBinary''),
     (''Failed to access background URL or returned non-success status'', ''error.failedAccessBackgroundUrl''),
     (''Failed to begin FIDO login'', ''error.fidoBeginLoginFailed''),
     (''Failed to begin registration'', ''error.fidoBeginRegFailed''),
     (''Failed to create session'', ''error.failedCreateSession''),
     (''Failed to delete FIDO device'', ''error.fidoDeleteFailed''),
     (''Failed to delete file.'', ''browser.failedDelete''),
     (''Failed to delete repository'', ''repos.failedDelete''),
     (''Failed to delete token'', ''users.failedDeleteToken''),
     (''Failed to generate token'', ''profile.genTokenFailed''),
     (''Failed to load policy.'', ''privacy.failedLoad''),
     (''Failed to parse assertion response'', ''error.fidoParseAssertionFailed''),
     (''Failed to parse creation response'', ''error.fidoParseCreationFailed''),
     (''Failed to read chunk'', ''error.readChunk''),
     (''Failed to revoke session'', ''sessions.revokeFailed''),
     (''Failed to revoke sessions'', ''sessions.revokeOthersFailed''),
     (''Failed to save FIDO device'', ''error.failedSaveFidoDevice''),
     (''Failed to save token'', ''error.failedSaveToken''),
     (''Failed to save user'', ''users.failedSaveUser''),
     (''Failed to update FIDO device'', ''error.failedUpdateFidoDevice''),
     (''Failed to update password'', ''profile.updatePasswordFailed''),
     (''Failed to update token'', ''error.failedUpdateToken''),
     (''FIDO authentication failed'', ''error.fidoAuthFailed''),
     (''FIDO credential not found'', ''error.fidoCredNotFound''),
     (''File not found on S3'', ''error.notFound''),
     (''Forbidden'', ''error.forbidden''),
     (''Input Required'', ''prompt.title''),
     (''Installation already in progress'', ''error.installInProgress''),
     (''Insufficient disk space'', ''error.insufficientStorage''),
     (''Insufficient disk space to download update package'', ''updater.insufficientDiskSpace''),
     (''Insufficient disk space to generate POM'', ''error.insufficientStorage''),
     (''Insufficient disk space to upload file'', ''error.insufficientStorage''),
     (''Insufficient disk space to upload update package'', ''updater.insufficientDiskSpace''),
     (''Insufficient storage'', ''error.insufficientStorage''),
     (''Internal Server Error'', ''error.internalServerError''),
     (''Invalid channel'', ''error.invalidChannel''),
     (''Invalid credential payload'', ''error.invalidCredentialPayload''),
     (''Invalid credentials'', ''login.invalidCreds''),
     (''Invalid database driver'', ''error.invalidDbDriver''),
     (''Invalid domain'', ''error.invalidDomain''),
     (''Invalid domain.'', ''error.invalidDomain''),
     (''Invalid FIDO credential'', ''error.invalidFidoCred''),
     (''Invalid mode'', ''error.invalidMode''),
     ((''Invalid mode. Expected '' @ [CHR 0x27] @ ''full'' @ [CHR 0x27] @ '' or '' @ [CHR 0x27] @ ''diff'' @ [CHR 0x27]), ''error.invalidRebuildMode''),
     (''Invalid or expired login session'', ''error.invalidOrExpiredLoginSession''),
     (''Invalid or expired session'', ''error.invalidOrExpiredSession''),
     (''Invalid repository name'', ''error.invalidRepoName''),
     (''Invalid S3 key prefix'', ''error.invalidS3KeyPrefix''),
     (''Invalid URL'', ''error.invalidUrl''),
     (''Invalid URL host'', ''error.invalidUrlHost''),
     (''Invalid visibility. Expected PUBLIC, HIDDEN, or PRIVATE'', ''error.invalidVisibility''),
     (''Is a dir'', ''error.isDirectory''),
     (''Javadocs preview is not enabled on this RenoP instance.'', ''error.javadocsPreviewDisabled''),
     (''Max active requests must be positive'', ''error.maxActiveRequestsPositive''),
     (''Max Javadocs size limit must be positive'', ''error.maxJavadocSizePositive''),
     (''Method not allowed'', ''error.methodNotAllowed''),
     (''No update package file uploaded'', ''error.noUpdatePackageUploaded''),
     (''No update ready to install'', ''error.noUpdateReady''),
     (''Not found'', ''error.notFound''),
     (''Not Found'', ''error.notFound''),
     (''OK'', ''common.ok''),
     (''Password must be between 6 and 72 bytes'', ''error.passwordLength''),
     (''Port must be between 1 and 65535'', ''error.invalidPort''),
     (''profile not found'', ''error.notFound''),
     (''Registration failed'', ''error.fidoRegFailed''),
     (''Repository not found'', ''error.notFound''),
     (''Request Entity Too Large'', ''error.requestEntityTooLarge''),
     (''Service Unavailable'', ''error.serviceUnavailable''),
     (''Session not found'', ''error.sessionNotFound''),
     (''Storage path must not be empty'', ''error.storagePathEmpty''),
     (''Target executable not found in update package'', ''error.targetExeNotFound''),
     (''Task submission failed'', ''error.taskFailed''),
     (''This is an invalid domain'', ''error.invalidDomain''),
     (''This is an invalid domain.'', ''error.invalidDomain''),
     (''Token name already exists'', ''error.tokenExists''),
     (''Too Many Requests'', ''error.tooManyRequests''),
     (''Unauthorized'', ''error.unauthorized''),
     (''Uploaded file must be a .zip package'', ''error.mustBeZipPackage''),
     (''Uploaded file must be a .br or .zip package'', ''error.mustBeZipPackage''),
     (''URL must be http or https'', ''error.urlMustBeHttpOrHttps''),
     (''URL must not contain credentials'', ''error.urlNoCredentials''),
     (''URL points to an internal or private IP'', ''error.urlInternalIp''),
     (''Users cannot clear their own activity logs'', ''error.cannotClearOwnAuditLogs''),
     (''WebAuthn initialization failed'', ''error.webauthnInitFailed''),
     (''Repository is already registered'', ''repos.gitAlreadyRegistered''),
     (''Registration review is already pending for this repository'', ''repos.gitRegistrationPending''),
     (''You are not an owner or member of this repository organization'', ''repos.gitNotOwner''),
     (''You must link your GitHub account before registering a repository'', ''repos.gitIdentityNotLinked''),
     (''You must link your GitLab account before registering a repository'', ''repos.gitIdentityNotLinked''),
     (''GitHub OAuth is not configured on this server'', ''repos.gitOauthDisabled''),
     (''GitLab OAuth is not configured on this server'', ''repos.gitOauthDisabled''),
     (''Invalid repository format, expected owner/repository'', ''repos.gitInvalidFormat''),
     (''Registration cooldown active'', ''repos.gitRegistrationCooldown''),
     (''target_repo is required'', ''repos.gitTargetRequired''),
     (''A quota review request is already pending for this repository'', ''repos.gitQuotaPendingError''),
     (''Quota request cooldown active'', ''repos.gitQuotaCooldownError''),
     (''Not authorized to request quota adjustments for this repository'', ''repos.gitQuotaNotAuthorized'')]"

definition languageAliases :: "(string \<times> string) list" where
  "languageAliases =
    [(''en-US'', ''en-US''),
     (''en'', ''en-US''),
     (''zh-CN'', ''zh-CN''),
     (''zh-cn'', ''zh-CN''),
     (''zh-Hans'', ''zh-CN''),
     (''zh-hans'', ''zh-CN''),
     (''zh'', ''zh-CN''),
     (''zh-HK'', ''zh-HK''),
     (''zh-hk'', ''zh-HK''),
     (''zh-Hant-HK'', ''zh-HK''),
     (''zh-hant-hk'', ''zh-HK''),
     (''zh-TW'', ''zh-TW''),
     (''zh-tw'', ''zh-TW''),
     (''zh-Hant'', ''zh-TW''),
     (''zh-hant'', ''zh-TW''),
     (''zh-Hant-TW'', ''zh-TW''),
     (''zh-hant-tw'', ''zh-TW''),
     (''zh-YUE'', ''zh-YUE''),
     (''zh-yue'', ''zh-YUE''),
     (''yue'', ''zh-YUE''),
     (''yue-HK'', ''zh-YUE''),
     (''yue-hk'', ''zh-YUE''),
     (''zh-Hant-HK-yue'', ''zh-YUE''),
     (''ko-KR'', ''ko-KR''),
     (''ko-kr'', ''ko-KR''),
     (''ko'', ''ko-KR''),
     (''ja-JP'', ''ja-JP''),
     (''ja'', ''ja-JP''),
     (''de-DE'', ''de-DE''),
     (''de'', ''de-DE''),
     (''fr-FR'', ''fr-FR''),
     (''fr'', ''fr-FR''),
     (''ru-RU'', ''ru-RU''),
     (''ru-ru'', ''ru-RU''),
     (''ru'', ''ru-RU''),
     (''es-ES'', ''es-ES''),
     (''es-es'', ''es-ES''),
     (''es'', ''es-ES''),
     (''pt-PT'', ''pt-PT''),
     (''pt-pt'', ''pt-PT''),
     (''pt-BR'', ''pt-PT''),
     (''pt-br'', ''pt-PT''),
     (''pt'', ''pt-PT'')]"

record language_info =
  li_name :: string
  li_sub :: string
  li_code :: string

definition languageDetails :: "(string \<times> language_info) list" where
  "languageDetails =
    [(''zh-CN'', \<lparr>li_name = [CHR 0xE7, CHR 0xAE, CHR 0x80, CHR 0xE4, CHR 0xBD, CHR 0x93, CHR 0xE4, CHR 0xB8, CHR 0xAD, CHR 0xE6, CHR 0x96, CHR 0x87], li_sub = ''Simplified Chinese'', li_code = ''ZH''\<rparr>),
     (''zh-HK'', \<lparr>li_name = ([CHR 0xE7, CHR 0xB9, CHR 0x81, CHR 0xE9, CHR 0xAB, CHR 0x94, CHR 0xE4, CHR 0xB8, CHR 0xAD, CHR 0xE6, CHR 0x96, CHR 0x87] @ '' ('' @ [CHR 0xE9, CHR 0xA6, CHR 0x99, CHR 0xE6, CHR 0xB8, CHR 0xAF] @ '')''), li_sub = ''Traditional Chinese (HK)'', li_code = ''HK''\<rparr>),
     (''zh-TW'', \<lparr>li_name = ([CHR 0xE7, CHR 0xB9, CHR 0x81, CHR 0xE9, CHR 0xAB, CHR 0x94, CHR 0xE4, CHR 0xB8, CHR 0xAD, CHR 0xE6, CHR 0x96, CHR 0x87] @ '' ('' @ [CHR 0xE5, CHR 0x8F, CHR 0xB0, CHR 0xE7, CHR 0x81, CHR 0xA3] @ '')''), li_sub = ''Traditional Chinese (TW)'', li_code = ''TW''\<rparr>),
     (''zh-YUE'', \<lparr>li_name = ([CHR 0xE7, CHR 0xB9, CHR 0x81, CHR 0xE9, CHR 0xAB, CHR 0x94, CHR 0xE4, CHR 0xB8, CHR 0xAD, CHR 0xE6, CHR 0x96, CHR 0x87] @ '' ('' @ [CHR 0xE7, CHR 0xB2, CHR 0xB5, CHR 0xE8, CHR 0xAA, CHR 0x9E] @ '')''), li_sub = ''Cantonese (Traditional)'', li_code = ''YUE''\<rparr>),
     (''ko-KR'', \<lparr>li_name = [CHR 0xED, CHR 0x95, CHR 0x9C, CHR 0xEA, CHR 0xB5, CHR 0xAD, CHR 0xEC, CHR 0x96, CHR 0xB4], li_sub = ''Korean'', li_code = ''KO''\<rparr>),
     (''en-US'', \<lparr>li_name = ''English'', li_sub = ''English (US)'', li_code = ''EN''\<rparr>),
     (''ja-JP'', \<lparr>li_name = [CHR 0xE6, CHR 0x97, CHR 0xA5, CHR 0xE6, CHR 0x9C, CHR 0xAC, CHR 0xE8, CHR 0xAA, CHR 0x9E], li_sub = ''Japanese'', li_code = ''JA''\<rparr>),
     (''de-DE'', \<lparr>li_name = ''Deutsch'', li_sub = ''German'', li_code = ''DE''\<rparr>),
     (''fr-FR'', \<lparr>li_name = (''Fran'' @ [CHR 0xC3, CHR 0xA7] @ ''ais''), li_sub = ''French'', li_code = ''FR''\<rparr>),
     (''ru-RU'', \<lparr>li_name = [CHR 0xD0, CHR 0xA0, CHR 0xD1, CHR 0x83, CHR 0xD1, CHR 0x81, CHR 0xD1, CHR 0x81, CHR 0xD0, CHR 0xBA, CHR 0xD0, CHR 0xB8, CHR 0xD0, CHR 0xB9], li_sub = ''Russian'', li_code = ''RU''\<rparr>),
     (''es-ES'', \<lparr>li_name = (''Espa'' @ [CHR 0xC3, CHR 0xB1] @ ''ol''), li_sub = ''Spanish'', li_code = ''ES''\<rparr>),
     (''pt-PT'', \<lparr>li_name = (''Portugu'' @ [CHR 0xC3, CHR 0xAA] @ ''s''), li_sub = ''Portuguese'', li_code = ''PT''\<rparr>)]"

definition getAvailableLanguages :: "string list" where
  "getAvailableLanguages =
    [''zh-CN'', ''zh-HK'', ''zh-TW'', ''zh-YUE'', ''ko-KR'', ''en-US'', ''ja-JP'', ''de-DE'', ''fr-FR'', ''ru-RU'', ''es-ES'', ''pt-PT'']"

definition getLanguageNames :: "(string \<times> string) list" where
  "getLanguageNames =
    [(''zh-CN'', [CHR 0xE7, CHR 0xAE, CHR 0x80, CHR 0xE4, CHR 0xBD, CHR 0x93, CHR 0xE4, CHR 0xB8, CHR 0xAD, CHR 0xE6, CHR 0x96, CHR 0x87]),
     (''zh-HK'', ([CHR 0xE7, CHR 0xB9, CHR 0x81, CHR 0xE9, CHR 0xAB, CHR 0x94, CHR 0xE4, CHR 0xB8, CHR 0xAD, CHR 0xE6, CHR 0x96, CHR 0x87] @ '' ('' @ [CHR 0xE9, CHR 0xA6, CHR 0x99, CHR 0xE6, CHR 0xB8, CHR 0xAF] @ '')'')),
     (''zh-TW'', ([CHR 0xE7, CHR 0xB9, CHR 0x81, CHR 0xE9, CHR 0xAB, CHR 0x94, CHR 0xE4, CHR 0xB8, CHR 0xAD, CHR 0xE6, CHR 0x96, CHR 0x87] @ '' ('' @ [CHR 0xE5, CHR 0x8F, CHR 0xB0, CHR 0xE7, CHR 0x81, CHR 0xA3] @ '')'')),
     (''zh-YUE'', ([CHR 0xE7, CHR 0xB9, CHR 0x81, CHR 0xE9, CHR 0xAB, CHR 0x94, CHR 0xE4, CHR 0xB8, CHR 0xAD, CHR 0xE6, CHR 0x96, CHR 0x87] @ '' ('' @ [CHR 0xE7, CHR 0xB2, CHR 0xB5, CHR 0xE8, CHR 0xAA, CHR 0x9E] @ '')'')),
     (''ko-KR'', [CHR 0xED, CHR 0x95, CHR 0x9C, CHR 0xEA, CHR 0xB5, CHR 0xAD, CHR 0xEC, CHR 0x96, CHR 0xB4]),
     (''en-US'', ''English''),
     (''ja-JP'', [CHR 0xE6, CHR 0x97, CHR 0xA5, CHR 0xE6, CHR 0x9C, CHR 0xAC, CHR 0xE8, CHR 0xAA, CHR 0x9E]),
     (''de-DE'', ''Deutsch''),
     (''fr-FR'', (''Fran'' @ [CHR 0xC3, CHR 0xA7] @ ''ais'')),
     (''ru-RU'', [CHR 0xD0, CHR 0xA0, CHR 0xD1, CHR 0x83, CHR 0xD1, CHR 0x81, CHR 0xD1, CHR 0x81, CHR 0xD0, CHR 0xBA, CHR 0xD0, CHR 0xB8, CHR 0xD0, CHR 0xB9]),
     (''es-ES'', (''Espa'' @ [CHR 0xC3, CHR 0xB1] @ ''ol'')),
     (''pt-PT'', (''Portugu'' @ [CHR 0xC3, CHR 0xAA] @ ''s''))]"

definition DEFAULT_LANG :: string where "DEFAULT_LANG = ''en-US''"

end
