(* ===== verification/Language.thy ===== *)
theory Language
  imports I18n Tables
begin

text \<open>
  The language service of the application, \<open>i18n.js\<close>, with the startup loader
  \<open>packages/renop-ui/js/i18n-startup.js\<close>: resolving a tag through the alias registry, translating
  keys, page elements and backend errors, and switching the language.

  Dictionaries are maps from keys to texts. Switching is asynchronous: a call of \<open>setLanguage\<close>
  starts a request, which is resumed when the catalog it awaits has arrived or failed;
  requests overlap, and the abort signal of a request may fire at any time. The JSON parser is
  the parameter \<open>json\<close>: \<open>None\<close> when it throws, else the string-valued fields \<open>error\<close> and
  \<open>message\<close> of the object.
\<close>

section \<open>State and translation\<close>

type_synonym dictionary = "string \<rightharpoonup> string"

record lang_request =
  rq_id :: nat
  rq_lang :: string
  rq_source :: string
  rq_retry :: bool

record lang_state =
  languages :: "string \<rightharpoonup> dictionary"
  currentLang :: string
  currentSource :: string
  languageRequestID :: nat
  stored_lang :: "string option"
  lang_loading :: bool
  lang_requests :: "lang_request list"
  lang_events :: "(string \<times> string) list"

definition dict :: "lang_state \<Rightarrow> string \<Rightarrow> dictionary" where
  "dict s l = (case languages s l of None \<Rightarrow> Map.empty | Some d \<Rightarrow> d)"

definition tr :: "lang_state \<Rightarrow> string \<Rightarrow> (string \<times> string) list \<Rightarrow> string" where
  "tr s key params = translateKey key params (dict s (currentLang s)) (dict s DEFAULT_LANG)"

definition resolveLanguage :: "string option \<Rightarrow> string option" where
  "resolveLanguage lang =
     (case matchLocaleKey lang (map fst languageAliases) of
        None \<Rightarrow> None
      | Some matched \<Rightarrow> map_of languageAliases matched)"

definition detect :: "string option \<Rightarrow> string list \<Rightarrow> string option \<Rightarrow> string \<times> lang_source" where
  "detect saved browserLangs language =
     detectLanguage saved browserLangs language (\<lambda>l. resolveLanguage (Some l)) DEFAULT_LANG"

section \<open>Page elements\<close>

definition bind_attr :: "lang_state \<Rightarrow> string \<Rightarrow> string \<Rightarrow> 'a node \<Rightarrow> 'a node" where
  "bind_attr s attribute target n =
     (let key = attr_or attribute [] n; translation = tr s key [] in
      if key = [] \<or> translation = key \<or> getAttribute target n = Some translation then n
      else setAttribute target translation n)"

definition bind_text :: "lang_state \<Rightarrow> 'a node \<Rightarrow> 'a node" where
  "bind_text s n =
     (let key = attr_or ''data-i18n'' [] n; translation = tr s key [] in
      if key = [] \<or> translation = key \<or> textContent n = translation then n
      else setTextContent translation n)"

definition translateBoundElement :: "lang_state \<Rightarrow> 'a node \<Rightarrow> 'a node" where
  "translateBoundElement s n =
     bind_attr s ''data-i18n-aria-label'' ''aria-label''
       (bind_attr s ''data-i18n-title'' ''title''
         (bind_attr s ''data-i18n-placeholder'' ''placeholder'' (bind_text s n)))"

text \<open>
  Elements are visited in document order; where the text of an element was replaced its former
  descendants are detached.
\<close>

fun translateSubtree :: "lang_state \<Rightarrow> 'a node \<Rightarrow> 'a node" where
  "translateSubtree s (Elem t a st p l c) =
     (let n = translateBoundElement s (Elem t a st p l c) in
      if children n = c then replaceChildren (map (translateSubtree s) c) n else n)"
| "translateSubtree s n = n"

section \<open>Backend errors\<close>

type_synonym json_parser = "string \<Rightarrow> (string option \<times> string option) option"

definition strip_punct :: "string \<Rightarrow> string" where
  "strip_punct s = js_trim (rev (dropWhile (\<lambda>c. c = CHR ''.'' \<or> c = CHR '':'') (rev s)))"

fun json_text :: "string option \<times> string option \<Rightarrow> string \<Rightarrow> string" where
  "json_text (err, msg) d =
     (case err of
        Some (e # es) \<Rightarrow> js_trim (e # es)
      | _ \<Rightarrow> (case msg of Some (m # ms) \<Rightarrow> js_trim (m # ms) | _ \<Rightarrow> d))"

definition looks_like_object :: "string \<Rightarrow> bool" where
  "looks_like_object s \<longleftrightarrow> starts_with ''{'' s \<and> ends_with ''}'' s"

definition known_candidate :: "lang_state \<Rightarrow> string \<Rightarrow> string" where
  "known_candidate s candidate =
     (case map_of ERROR_KEY_MAP candidate of
        Some mappedKey \<Rightarrow> tr s mappedKey []
      | None \<Rightarrow> (if tr s candidate [] \<noteq> candidate then tr s candidate [] else []))"

definition translateKnownError :: "json_parser \<Rightarrow> lang_state \<Rightarrow> string \<Rightarrow> string" where
  "translateKnownError json s errorText =
     (if errorText = [] then []
      else (let trimmed' = js_trim errorText in
            case (if looks_like_object trimmed'
                  then map_option (\<lambda>fs. json_text fs trimmed') (json trimmed') else Some trimmed') of
              None \<Rightarrow> []
            | Some normalized \<Rightarrow>
                (let stripped = strip_punct normalized in
                 or_else (known_candidate s normalized)
                   (if normalized = stripped then [] else known_candidate s stripped))))"

definition tryTranslateSingle :: "lang_state \<Rightarrow> string \<Rightarrow> string" where
  "tryTranslateSingle s str =
     (if str = [] then str
      else (let clean = js_trim str; stripped = strip_punct clean in
            case map_of ERROR_KEY_MAP clean of
              Some k \<Rightarrow> tr s k []
            | None \<Rightarrow>
                (case map_of ERROR_KEY_MAP stripped of
                   Some k \<Rightarrow> tr s k []
                 | None \<Rightarrow>
                     if tr s clean [] \<noteq> clean then tr s clean []
                     else if tr s stripped [] \<noteq> stripped then tr s stripped []
                     else clean)))"

fun split_prefix :: "string \<Rightarrow> (string \<times> string) option" where
  "split_prefix [] = None"
| "split_prefix (c # s) =
     (if starts_with '': '' (c # s) then Some ([], drop 1 s)
      else map_option (\<lambda>(a, b). (c # a, b)) (split_prefix s))"

definition translateError :: "json_parser \<Rightarrow> lang_state \<Rightarrow> string \<Rightarrow> string" where
  "translateError json s errorText =
     (if errorText = [] then errorText
      else (let raw = js_trim errorText;
                text = (if looks_like_object raw
                        then (case json raw of None \<Rightarrow> raw | Some fs \<Rightarrow> json_text fs raw) else raw);
                directRes = tryTranslateSingle s text
            in if directRes \<noteq> text \<and> directRes \<noteq> strip_punct text then directRes
               else (case split_prefix text of
                       None \<Rightarrow> directRes
                     | Some (p, r) \<Rightarrow>
                         (let prefix = js_trim p; rest = js_trim r;
                              translatedPrefix = tryTranslateSingle s prefix;
                              translatedRest = tryTranslateSingle s rest
                          in if translatedPrefix \<noteq> prefix \<or> translatedRest \<noteq> rest
                             then translatedPrefix @ '': '' @ translatedRest else directRes))))"

section \<open>Switching the language\<close>

definition begin_request :: "string option \<Rightarrow> string \<Rightarrow> lang_state \<Rightarrow> lang_state" where
  "begin_request lang source s =
     (let i = Suc (languageRequestID s) in
      s\<lparr>languageRequestID := i, lang_loading := True,
        lang_requests := lang_requests s @
          [case resolveLanguage lang of
             Some r \<Rightarrow> \<lparr>rq_id = i, rq_lang = r, rq_source = source, rq_retry = False\<rparr>
           | None \<Rightarrow> \<lparr>rq_id = i, rq_lang = DEFAULT_LANG, rq_source = ''fallback'', rq_retry = False\<rparr>]\<rparr>)"

text \<open>\<open>ensureLanguage\<close>: a catalog already loaded is used, else the arriving one is stored.\<close>

definition ensureLanguage :: "string \<Rightarrow> dictionary option \<Rightarrow> lang_state \<Rightarrow> lang_state option" where
  "ensureLanguage l result s =
     (if languages s l \<noteq> None then Some s
      else map_option (\<lambda>d. s\<lparr>languages := (languages s)(l \<mapsto> d)\<rparr>) result)"

definition end_request :: "lang_request \<Rightarrow> lang_state \<Rightarrow> lang_state" where
  "end_request r s =
     s\<lparr>lang_requests := remove1 r (lang_requests s),
       lang_loading := (if rq_id r = languageRequestID s then False else lang_loading s)\<rparr>"

definition apply_request :: "lang_request \<Rightarrow> bool \<Rightarrow> lang_state \<Rightarrow> lang_state" where
  "apply_request r aborted s =
     (if rq_id r \<noteq> languageRequestID s \<or> aborted then s
      else s\<lparr>currentLang := rq_lang r, currentSource := rq_source r, stored_lang := Some (rq_lang r),
             lang_events := lang_events s @ [(rq_lang r, rq_source r)]\<rparr>)"

definition resume_request :: "lang_request \<Rightarrow> dictionary option \<Rightarrow> bool \<Rightarrow> lang_state \<Rightarrow> lang_state" where
  "resume_request r result aborted s =
     (case ensureLanguage (rq_lang r) result s of
        Some s' \<Rightarrow> end_request r (apply_request r aborted s')
      | None \<Rightarrow>
          if rq_retry r then end_request r s
          else s\<lparr>lang_requests := remove1 r (lang_requests s) @
                  [r\<lparr>rq_lang := DEFAULT_LANG, rq_source := ''fallback'', rq_retry := True\<rparr>]\<rparr>)"

datatype lang_event =
    SetLanguage "string option" string
  | Resume nat "dictionary option" bool

fun language_step :: "lang_event \<Rightarrow> lang_state \<Rightarrow> lang_state option" where
  "language_step (SetLanguage lang source) s = Some (begin_request lang source s)"
| "language_step (Resume k result aborted) s =
     (if k < length (lang_requests s)
      then Some (resume_request (lang_requests s ! k) result aborted s) else None)"

text \<open>
  Startup: each attempt of the loop is the pair of results for the fallback and the preferred
  language; the user starts the next attempt with the retry button.
\<close>

fun loadInitialLocales ::
  "(dictionary option \<times> dictionary option) list \<Rightarrow> string \<Rightarrow> string \<Rightarrow> (string \<times> (string \<rightharpoonup> dictionary)) option" where
  "loadInitialLocales [] preferred fallback = None"
| "loadInitialLocales ((english, selected) # attempts) preferred fallback =
     (case english of
        None \<Rightarrow> loadInitialLocales attempts preferred fallback
      | Some e \<Rightarrow>
          (case selected of
             None \<Rightarrow> Some (fallback, [fallback \<mapsto> e])
           | Some d \<Rightarrow> Some (preferred, [fallback \<mapsto> e, preferred \<mapsto> d])))"

definition initI18n :: "string \<times> lang_source \<Rightarrow> string \<times> (string \<rightharpoonup> dictionary) \<Rightarrow> string option \<Rightarrow> lang_state" where
  "initI18n detected initial saved =
     \<lparr>languages = snd initial, currentLang = fst initial,
      currentSource = (if fst initial \<noteq> fst detected then ''fallback''
        else (case snd detected of LocalStorage \<Rightarrow> ''localStorage'' | Browser \<Rightarrow> ''browser'' | Fallback \<Rightarrow> ''fallback'')),
      languageRequestID = 0, stored_lang = saved, lang_loading = False, lang_requests = [], lang_events = []\<rparr>"

section \<open>The alias registry\<close>

lemma alias_targets: "list_all (\<lambda>(a, l). l \<in> set getAvailableLanguages) languageAliases"
  by code_simp

lemma resolveLanguage_available: "resolveLanguage lang = Some r \<Longrightarrow> r \<in> set getAvailableLanguages"
  using alias_targets by (auto simp: resolveLanguage_def list_all_iff dest!: map_of_SomeD split: option.splits)

lemma DEFAULT_available: "DEFAULT_LANG \<in> set getAvailableLanguages"
  by code_simp

lemma first_resolved_Some: "first_resolved f ls = Some r \<Longrightarrow> \<exists>l\<in>set ls. f l = Some r"
  by (induction ls) (auto split: if_splits option.splits)

text \<open>
  whatever the browser or the storage contains, language detection ends with a language the
  application ships; every shipped language is found under its own code, has display details,
  and a stored choice that names one is respected.
\<close>

theorem language_registry_consistent:
  "fst (detect saved langs lang) \<in> set getAvailableLanguages \<and>
   list_all (\<lambda>l. resolveLanguage (Some l) = Some l \<and> map_of languageDetails l \<noteq> None \<and>
     map_of getLanguageNames l = map_option li_name (map_of languageDetails l)) getAvailableLanguages \<and>
   (l \<in> set getAvailableLanguages \<longrightarrow> detect (Some l) langs lang = (l, LocalStorage))"
proof (intro conjI impI)
  show *: "list_all (\<lambda>l. resolveLanguage (Some l) = Some l \<and> map_of languageDetails l \<noteq> None \<and>
      map_of getLanguageNames l = map_option li_name (map_of languageDetails l)) getAvailableLanguages"
    by code_simp
  show "fst (detect saved langs lang) \<in> set getAvailableLanguages"
    by (auto simp: detect_def detectLanguage_def DEFAULT_available resolveLanguage_available
        dest!: first_resolved_Some split: option.splits)
  have ne: "list_all (\<lambda>l. l \<noteq> []) getAvailableLanguages" by code_simp
  assume "l \<in> set getAvailableLanguages"
  with * ne show "detect (Some l) langs lang = (l, LocalStorage)"
    by (auto simp: detect_def detectLanguage_def list_all_iff)
qed

theorem language_registry_consistent_witness:
  "detect (Some ''zh-HK'') [''fr''] None = (''zh-HK'', LocalStorage)"
proof -
  have "''zh-HK'' \<in> set getAvailableLanguages" by code_simp
  then show ?thesis using language_registry_consistent [of None "[''fr'']" None "''zh-HK''"] by blast
qed

section \<open>Translating the page\<close>

lemma bind_attr_simps [simp]:
  "is_Elem (bind_attr s a t n) = is_Elem n"
  "children (bind_attr s a t n) = children n"
  "plain n \<Longrightarrow> plain (bind_attr s a t n)"
  "is_Elem n \<Longrightarrow> k \<noteq> t \<Longrightarrow> getAttribute k (bind_attr s a t n) = getAttribute k n"
  by (simp_all add: bind_attr_def Let_def)

lemma bind_text_simps [simp]:
  "is_Elem (bind_text s n) = is_Elem n"
  "getAttribute k (bind_text s n) = getAttribute k n"
  "plain n \<Longrightarrow> plain (bind_text s n)"
  by (simp_all add: bind_text_def Let_def setTextContent_def)

definition settled_attr :: "lang_state \<Rightarrow> string \<Rightarrow> string \<Rightarrow> 'a node \<Rightarrow> bool" where
  "settled_attr s a t n \<longleftrightarrow> (let key = attr_or a [] n in
     key = [] \<or> tr s key [] = key \<or> getAttribute t n = Some (tr s key []))"

definition settled_text :: "lang_state \<Rightarrow> 'a node \<Rightarrow> bool" where
  "settled_text s n \<longleftrightarrow> (let key = attr_or ''data-i18n'' [] n in
     key = [] \<or> tr s key [] = key \<or> textContent n = tr s key [])"

lemma settled_id: "settled_attr s a t n \<Longrightarrow> bind_attr s a t n = n"
  by (simp add: settled_attr_def bind_attr_def Let_def)

lemma settled_text_id: "settled_text s n \<Longrightarrow> bind_text s n = n"
  by (simp add: settled_text_def bind_text_def Let_def)

lemma bind_attr_settles: "is_Elem n \<Longrightarrow> a \<noteq> t \<Longrightarrow> settled_attr s a t (bind_attr s a t n)"
  by (auto simp: settled_attr_def bind_attr_def Let_def attr_or_def)

lemma bind_attr_other:
  "is_Elem n \<Longrightarrow> a \<noteq> t' \<Longrightarrow> t \<noteq> t' \<Longrightarrow> settled_attr s a t (bind_attr s a' t' n) = settled_attr s a t n"
  by (simp add: settled_attr_def attr_or_def)

lemma bind_text_settles: "is_Elem n \<Longrightarrow> settled_text s (bind_text s n)"
  by (cases n) (auto simp: settled_text_def bind_text_def Let_def attr_or_def setTextContent_def getAttribute_def)

lemma textContent_bind_attr [simp]: "textContent (bind_attr s a t n) = textContent n"
  by (cases n) (auto simp: bind_attr_def Let_def)

lemma bind_attr_text: "is_Elem n \<Longrightarrow> t \<noteq> ''data-i18n'' \<Longrightarrow> settled_text s (bind_attr s a t n) = settled_text s n"
  by (simp add: settled_text_def attr_or_def)

definition translated :: "lang_state \<Rightarrow> 'a node \<Rightarrow> bool" where
  "translated s n \<longleftrightarrow> settled_text s n \<and> settled_attr s ''data-i18n-placeholder'' ''placeholder'' n \<and>
     settled_attr s ''data-i18n-title'' ''title'' n \<and> settled_attr s ''data-i18n-aria-label'' ''aria-label'' n"

lemma translated_bound: "is_Elem n \<Longrightarrow> translated s (translateBoundElement s n)"
  unfolding translated_def translateBoundElement_def
  by (intro conjI)
    (simp_all add: bind_attr_text bind_text_settles bind_attr_other bind_attr_settles)

lemma translated_id: "translated s n \<Longrightarrow> translateBoundElement s n = n"
  by (simp add: translated_def translateBoundElement_def settled_id settled_text_id)

lemma tr_nonempty: "key \<noteq> [] \<Longrightarrow> tr s key [] \<noteq> []"
  by (simp add: tr_def translateKey_def interpolateMessage_def)

lemma bound_children: "is_Elem n \<Longrightarrow> children (translateBoundElement s n) = children n \<or>
    (\<exists>x. children (translateBoundElement s n) = [Text x])"
  by (cases n) (auto simp: translateBoundElement_def bind_text_def Let_def setTextContent_def tr_nonempty)

text \<open>Declarative texts belong to leaf elements: an element with a text binding has no element children.\<close>

fun leaf_bound :: "'a node \<Rightarrow> bool" where
  "leaf_bound (Elem t a st p l c) \<longleftrightarrow>
     (attr_or ''data-i18n'' [] (Elem t a st p l c) \<noteq> [] \<longrightarrow> list_all (\<lambda>x. \<not> is_Elem x) c) \<and> list_all leaf_bound c"
| "leaf_bound n = True"

lemma translateSubtree_other [simp]: "\<not> is_Elem n \<Longrightarrow> translateSubtree s n = n"
  by (cases n) auto

lemma map_translate_leaves: "list_all (\<lambda>x. \<not> is_Elem x) c \<Longrightarrow> map (translateSubtree s) c = c"
  by (induction c) auto

lemma getAttribute_bound [simp]:
  "is_Elem n \<Longrightarrow> k \<notin> {''aria-label'', ''title'', ''placeholder''} \<Longrightarrow>
   getAttribute k (translateBoundElement s n) = getAttribute k n"
  by (simp add: translateBoundElement_def)

lemma is_Elem_bound [simp]: "is_Elem (translateBoundElement s n) = is_Elem n"
  by (simp add: translateBoundElement_def)

lemma translated_replaceChildren:
  "is_Elem n \<Longrightarrow> translated s n \<Longrightarrow> attr_or ''data-i18n'' [] n = [] \<Longrightarrow> translated s (replaceChildren c n)"
  by (simp add: translated_def settled_text_def settled_attr_def attr_or_def)

lemma translateSubtree_unfold:
  "is_Elem n \<Longrightarrow> translateSubtree s n =
     (if children (translateBoundElement s n) = children n
      then replaceChildren (map (translateSubtree s) (children n)) (translateBoundElement s n)
      else translateBoundElement s n)"
  by (cases n) (simp_all add: Let_def)

lemma replaceChildren_same [simp]: "children n = c \<Longrightarrow> replaceChildren c n = n"
  by (cases n) auto

lemma translateSubtree_translated: "is_Elem n \<Longrightarrow> translated s n \<Longrightarrow>
    translateSubtree s n = replaceChildren (map (translateSubtree s) (children n)) n"
  by (simp add: translateSubtree_unfold translated_id)

lemma translateSubtree_idem: "leaf_bound n \<Longrightarrow> translateSubtree s (translateSubtree s n) = translateSubtree s n"
proof (induction n)
  case (Elem t a st p l c)
  define n where "n = Elem t a st p l c"
  define m where "m = translateBoundElement s n"
  have E: "is_Elem n" "children n = c" by (simp_all add: n_def)
  have m: "is_Elem m" "translated s m" using E(1) by (simp_all add: m_def translated_bound)
  have key: "attr_or ''data-i18n'' [] m = attr_or ''data-i18n'' [] n" using E by (simp add: m_def attr_or_def)
  consider (replaced) x where "children m = [Text x]" "translateSubtree s n = m"
    | (leaf) "children m = c" "list_all (\<lambda>x. \<not> is_Elem x) c" "translateSubtree s n = m"
    | (inner) "children m = c" "attr_or ''data-i18n'' [] n = []"
        "translateSubtree s n = replaceChildren (map (translateSubtree s) c) m"
  proof -
    assume repl: "\<And>x. children m = [Text x] \<Longrightarrow> translateSubtree s n = m \<Longrightarrow> thesis"
      and leaf: "children m = c \<Longrightarrow> list_all (\<lambda>x. \<not> is_Elem x) c \<Longrightarrow> translateSubtree s n = m \<Longrightarrow> thesis"
      and inner: "children m = c \<Longrightarrow> attr_or ''data-i18n'' [] n = [] \<Longrightarrow>
        translateSubtree s n = replaceChildren (map (translateSubtree s) c) m \<Longrightarrow> thesis"
    show thesis
    proof (cases "children m = c")
      case True
      with E have T: "translateSubtree s n = replaceChildren (map (translateSubtree s) c) m"
        by (simp add: translateSubtree_unfold m_def)
      show thesis
      proof (cases "attr_or ''data-i18n'' [] n = []")
        case False
        with Elem.prems have "list_all (\<lambda>x. \<not> is_Elem x) c" by (simp add: n_def)
        with True T show thesis by (intro leaf) (simp_all add: map_translate_leaves)
      qed (use True T inner in blast)
    next
      case False
      with E bound_children [OF E(1), of s] show thesis
        by (auto simp: translateSubtree_unfold m_def intro: repl)
    qed
  qed
  then have "translateSubtree s (translateSubtree s n) = translateSubtree s n"
  proof cases
    case replaced
    then show ?thesis using m by (simp add: translateSubtree_translated)
  next
    case leaf
    then show ?thesis using m by (simp add: translateSubtree_translated map_translate_leaves)
  next
    case inner
    have "list_all leaf_bound c" using Elem.prems by simp
    with Elem.IH have "map (translateSubtree s) (map (translateSubtree s) c) = map (translateSubtree s) c"
      by (simp add: list_all_iff)
    moreover have "translated s (replaceChildren (map (translateSubtree s) c) m)"
      using inner(2) m key by (simp add: translated_replaceChildren)
    ultimately show ?thesis
      unfolding inner(3) using m(1) by (subst translateSubtree_translated) simp_all
  qed
  then show ?case by (simp add: n_def)
qed simp_all

lemma plain_translateSubtree: "plain n \<Longrightarrow> plain (translateSubtree s n)"
proof (induction n)
  case (Elem t a st p l c)
  then have "plain (translateBoundElement s (Elem t a st p l c))" by (simp add: translateBoundElement_def)
  moreover have "list_all plain (map (translateSubtree s) c)" using Elem by (simp add: list_all_iff)
  ultimately show ?case by (simp add: Let_def)
qed simp_all

text \<open>
  translating a page is safe to repeat. Where declarative texts sit on leaf elements, a second
  pass changes nothing, so the mutation observer that retranslates inserted subtrees comes to
  rest; and a translation is always inserted as text, never as markup.
\<close>

theorem translateSubtree_stable:
  "(leaf_bound n \<longrightarrow> translateSubtree s (translateSubtree s n) = translateSubtree s n) \<and>
   (plain n \<longrightarrow> plain (translateSubtree s n))"
  using translateSubtree_idem plain_translateSubtree by blast

definition sample_languages :: lang_state where
  "sample_languages = initI18n (''en-US'', Fallback)
     (''en-US'', [''en-US'' \<mapsto> [''hi'' \<mapsto> ''<b>Hello</b>'', ''x'' \<mapsto> ''X'']]) None"

theorem translateSubtree_stable_witness:
  "leaf_bound (el ''p'' [(''data-i18n'', JStr ''hi'')] [CStr ''old''] :: string node) \<and>
   plain (translateSubtree sample_languages (el ''p'' [(''data-i18n'', JStr ''hi'')] [CStr ''old''] :: string node)) \<and>
   children (translateSubtree sample_languages (el ''p'' [(''data-i18n'', JStr ''hi'')] [CStr ''old''] :: string node)) =
     [Text ''<b>Hello</b>'']"
proof -
  have "leaf_bound (el ''p'' [(''data-i18n'', JStr ''hi'')] [CStr ''old''] :: string node)" by (simp add: el_eval)
  moreover have "children (translateSubtree sample_languages
      (el ''p'' [(''data-i18n'', JStr ''hi'')] [CStr ''old''] :: string node)) = [Text ''<b>Hello</b>'']"
    by (simp add: el_eval translateBoundElement_def bind_text_def bind_attr_def attr_or_def getAttribute_def
        tr_def translateKey_def interpolateMessage_def sample_languages_def initI18n_def dict_def lookup_text_def
        DEFAULT_LANG_def setTextContent_def)
  ultimately show ?thesis
    using translateSubtree_stable [of "el ''p'' [(''data-i18n'', JStr ''hi'')] [CStr ''old''] :: string node" sample_languages]
    by (simp add: plain_translateSubtree)
qed

section \<open>Overlapping requests\<close>

definition lang_inv :: "lang_state \<Rightarrow> bool" where
  "lang_inv s \<longleftrightarrow>
     languages s DEFAULT_LANG \<noteq> None \<and> languages s (currentLang s) \<noteq> None \<and>
     currentLang s \<in> set getAvailableLanguages \<and>
     (\<forall>r \<in> set (lang_requests s). rq_id r \<le> languageRequestID s \<and> rq_lang r \<in> set getAvailableLanguages) \<and>
     distinct (map rq_id (lang_requests s)) \<and>
     (lang_loading s \<longleftrightarrow> (\<exists>r \<in> set (lang_requests s). rq_id r = languageRequestID s))"

lemma ensureLanguage_simps:
  assumes "ensureLanguage l result s = Some t"
  shows "languages t l \<noteq> None" "languages s x \<noteq> None \<Longrightarrow> languages t x \<noteq> None"
    "currentLang t = currentLang s" "currentSource t = currentSource s" "stored_lang t = stored_lang s"
    "languageRequestID t = languageRequestID s" "lang_requests t = lang_requests s" "lang_loading t = lang_loading s"
  using assms by (auto simp: ensureLanguage_def split: if_splits)

lemma remove1_ids:
  "distinct (map f xs) \<Longrightarrow> r \<in> set xs \<Longrightarrow> set (remove1 r xs) = {x \<in> set xs. f x \<noteq> f r}"
  using inj_on_eq_iff [of f "set xs"] by (auto simp: distinct_map set_remove1_eq)

lemma distinct_map_remove1: "distinct (map f xs) \<Longrightarrow> distinct (map f (remove1 x xs))"
  by (induction xs) (auto dest: notin_set_remove1 simp: image_iff)

lemma end_request_inv:
  assumes "lang_inv s" "r \<in> set (lang_requests s)" "languages t DEFAULT_LANG \<noteq> None"
    "languages t (currentLang t) \<noteq> None" "currentLang t \<in> set getAvailableLanguages"
    "languageRequestID t = languageRequestID s" "lang_requests t = lang_requests s" "lang_loading t = lang_loading s"
  shows "lang_inv (end_request r t)"
  using assms
  by (auto simp: lang_inv_def end_request_def remove1_ids [of rq_id] distinct_map_remove1)

lemma resume_inv:
  assumes i: "lang_inv s" and r: "r \<in> set (lang_requests s)"
  shows "lang_inv (resume_request r result aborted s)"
proof (cases "ensureLanguage (rq_lang r) result s")
  case None
  have d: "distinct (map rq_id (lang_requests s))" using i by (simp add: lang_inv_def)
  show ?thesis
  proof (cases "rq_retry r")
    case True
    with None i r end_request_inv [OF i r, of s] show ?thesis
      by (simp add: resume_request_def lang_inv_def)
  next
    case False
    with None i r show ?thesis
      unfolding resume_request_def lang_inv_def
      by (auto simp: remove1_ids [OF d r] distinct_map_remove1 DEFAULT_available)
  qed
next
  case (Some t)
  note e = ensureLanguage_simps [OF Some]
  have "lang_inv (end_request r (apply_request r aborted t))"
  proof (rule end_request_inv [OF i r])
    show "languages (apply_request r aborted t) DEFAULT_LANG \<noteq> None"
      "languages (apply_request r aborted t) (currentLang (apply_request r aborted t)) \<noteq> None"
      "currentLang (apply_request r aborted t) \<in> set getAvailableLanguages"
      "languageRequestID (apply_request r aborted t) = languageRequestID s"
      "lang_requests (apply_request r aborted t) = lang_requests s"
      "lang_loading (apply_request r aborted t) = lang_loading s"
      using i r e by (auto simp: apply_request_def lang_inv_def)
  qed
  with Some show ?thesis by (simp add: resume_request_def)
qed

lemma begin_inv: "lang_inv s \<Longrightarrow> lang_inv (begin_request lang source s)"
  by (auto simp: lang_inv_def begin_request_def Let_def resolveLanguage_available DEFAULT_available
      split: option.splits)

interpretation lg: machine language_step lang_inv
proof
  show "lang_inv t" if "lang_inv s" "language_step e s = Some t" for s e t
    using that by (cases e) (auto simp: begin_inv resume_inv split: if_splits)
qed

lemma init_inv:
  assumes "loadInitialLocales attempts preferred DEFAULT_LANG = Some initial"
    and "preferred \<in> set getAvailableLanguages"
  shows "lang_inv (initI18n detected initial saved)"
  using assms
proof (induction attempts preferred DEFAULT_LANG rule: loadInitialLocales.induct)
  case (2 english selected attempts preferred)
  then show ?case
    by (auto simp: lang_inv_def initI18n_def DEFAULT_available split: option.splits)
qed simp

text \<open>
  C29: the latest language choice wins. However the catalogs of overlapping requests arrive, fail or
  are aborted, the active language is one of the shipped languages and its dictionary is loaded; a
  request that was overtaken or aborted changes neither the active nor the stored language; the latest
  one, once its catalog is there, does; and the picker shows loading exactly while the latest
  request is unfinished.
\<close>

theorem latest_language_wins:
  assumes "loadInitialLocales attempts (fst detected) DEFAULT_LANG = Some initial"
    and "detected = detect saved langs lang"
    and "run language_step es (initI18n detected initial saved) = Some s"
  shows "currentLang s \<in> set getAvailableLanguages \<and> languages s (currentLang s) \<noteq> None \<and>
    (lang_loading s \<longleftrightarrow> (\<exists>r \<in> set (lang_requests s). rq_id r = languageRequestID s)) \<and>
    (\<forall>k result aborted t. language_step (Resume k result aborted) s = Some t \<longrightarrow>
       (let r = lang_requests s ! k in
        (rq_id r \<noteq> languageRequestID s \<or> aborted \<longrightarrow>
           currentLang t = currentLang s \<and> stored_lang t = stored_lang s) \<and>
        (rq_id r = languageRequestID s \<and> \<not> aborted \<and> result \<noteq> None \<longrightarrow>
           currentLang t = rq_lang r \<and> stored_lang t = Some (rq_lang r) \<and> \<not> lang_loading t)))"
proof -
  have "fst detected \<in> set getAvailableLanguages"
    using first_resolved_Some
    by (auto simp: assms(2) detect_def detectLanguage_def DEFAULT_available resolveLanguage_available
        dest!: first_resolved_Some split: option.splits)
  then have "lang_inv (initI18n detected initial saved)" by (rule init_inv [OF assms(1)])
  with assms(3) have i: "lang_inv s" by (rule lg.inv_run)
  have "rq_id r \<noteq> languageRequestID s \<or> aborted \<longrightarrow>
      currentLang (resume_request r result aborted s) = currentLang s \<and>
      stored_lang (resume_request r result aborted s) = stored_lang s" for r result aborted
    by (auto simp: resume_request_def end_request_def apply_request_def
        dest: ensureLanguage_simps split: option.splits)
  moreover have "currentLang (resume_request r (Some d) False s) = rq_lang r \<and>
      stored_lang (resume_request r (Some d) False s) = Some (rq_lang r) \<and>
      \<not> lang_loading (resume_request r (Some d) False s)" if "rq_id r = languageRequestID s" for r d
    using that by (auto simp: resume_request_def end_request_def apply_request_def ensureLanguage_def)
  ultimately show ?thesis
    using i by (auto simp: lang_inv_def Let_def split: if_splits)
qed

theorem latest_language_wins_witness:
  "currentLang (the (run language_step
      [SetLanguage (Some ''fr'') ''user-set'', SetLanguage (Some ''de'') ''user-set'',
       Resume 1 (Some Map.empty) False, Resume 0 (Some Map.empty) False]
      (initI18n (''en-US'', Fallback) (''en-US'', [''en-US'' \<mapsto> Map.empty]) None))) = ''de-DE'' \<and>
   ''en-US'' \<in> set getAvailableLanguages"
proof -
  have l: "loadInitialLocales [(None, None), (Some Map.empty, None)] (fst (''en-US'', Fallback)) DEFAULT_LANG =
      Some (''en-US'', [''en-US'' \<mapsto> Map.empty])"
    by (simp add: DEFAULT_LANG_def)
  have d: "(''en-US'', Fallback) = detect None [] None" by code_simp
  have r: "run language_step [] (initI18n (''en-US'', Fallback) (''en-US'', [''en-US'' \<mapsto> Map.empty]) None) =
      Some (initI18n (''en-US'', Fallback) (''en-US'', [''en-US'' \<mapsto> Map.empty]) None)" by simp
  have f: "resolveLanguage (Some ''fr'') = Some ''fr-FR''" "resolveLanguage (Some ''de'') = Some ''de-DE''"
    by code_simp+
  show ?thesis
    using latest_language_wins [OF l d r]
    by (simp add: begin_request_def resume_request_def initI18n_def f ensureLanguage_def end_request_def
        apply_request_def)
qed

section \<open>Only registered backend errors are shown\<close>

definition registered :: "lang_state \<Rightarrow> string \<Rightarrow> bool" where
  "registered s k \<longleftrightarrow> k \<in> snd ` set ERROR_KEY_MAP \<or> lookup_text (dict s (currentLang s)) k \<noteq> [] \<or>
     lookup_text (dict s DEFAULT_LANG) k \<noteq> []"

lemma known_candidate_registered:
  "known_candidate s c \<noteq> [] \<Longrightarrow> \<exists>k. registered s k \<and> known_candidate s c = tr s k []"
proof (cases "map_of ERROR_KEY_MAP c")
  case None
  assume "known_candidate s c \<noteq> []"
  with None have t: "tr s c [] \<noteq> c" "known_candidate s c = tr s c []"
    by (auto simp: known_candidate_def split: if_splits)
  then have "lookup_text (dict s (currentLang s)) c \<noteq> [] \<or> lookup_text (dict s DEFAULT_LANG) c \<noteq> []"
    by (auto simp: tr_def translateKey_def interpolateMessage_def)
  with t show ?thesis by (auto simp: registered_def)
next
  case (Some k)
  then have "k \<in> snd ` set ERROR_KEY_MAP" by (force dest: map_of_SomeD)
  with Some show ?thesis by (auto simp: known_candidate_def registered_def)
qed

lemma translateKnownError_registered:
  "translateKnownError json s e \<noteq> [] \<Longrightarrow> \<exists>k. registered s k \<and> translateKnownError json s e = tr s k []"
  using known_candidate_registered
  by (auto simp: translateKnownError_def Let_def or_else_def split: if_splits option.splits)

end
