(* ===== verification/Responses.thy ===== *)
theory Responses
  imports Language
begin

text \<open>
  Reading HTTP responses: \<open>packages/renop-ui/js/response-bytes.js\<close>, \<open>legal-response.js\<close> and
  \<open>response-errors.js\<close>.

  A body is the sequence of results its reader delivers: \<open>Some\<close> a chunk of bytes, \<open>None\<close> a
  failed read, and the end of the list the end of the stream. \<open>r_body\<close> is \<open>None\<close> when the
  response has no readable stream. What a read does to the reader is part of the result:
  whether it was cancelled and whether its lock was released. Text decoding is a parameter
  \<open>decode\<close> on the bytes consumed (\<open>None\<close> where a fatal decoder throws).
\<close>

record http_response =
  r_ok :: bool
  r_status :: nat
  r_headers :: "string \<rightharpoonup> string"
  r_body :: "string option list option"
  r_used :: bool

record 'v read_result =
  outcome :: "string + 'v"
  cancelled :: bool
  released :: bool

definition header_or :: "string \<Rightarrow> http_response \<Rightarrow> string" where
  "header_or k r = (case r_headers r k of None \<Rightarrow> [] | Some v \<Rightarrow> v)"

definition media_type :: "http_response \<Rightarrow> string" where
  "media_type r = to_lower (js_trim (hd (split_on CHR '';'' (header_or ''Content-Type'' r))))"

text \<open>\<open>Number(headers.get('Content-Length'))\<close>; \<open>None\<close> when it is not a finite number.\<close>

definition declared_length :: "http_response \<Rightarrow> nat option" where
  "declared_length r =
     (case r_headers r ''Content-Length'' of
        None \<Rightarrow> Some 0
      | Some v \<Rightarrow> if js_trim v = [] then Some 0 else read_nat (js_trim v))"

definition exceeds :: "http_response \<Rightarrow> nat \<Rightarrow> bool" where
  "exceeds r maxBytes = (case declared_length r of None \<Rightarrow> False | Some n \<Rightarrow> n > maxBytes)"

section \<open>Bounded reads\<close>

text \<open>The loop: the chunks read so far, or the error that ended it.\<close>

fun read_chunks :: "nat \<Rightarrow> nat \<Rightarrow> string \<Rightarrow> string list \<Rightarrow> string option list \<Rightarrow> string + string list" where
  "read_chunks maxBytes length' tooLong chunks [] = Inr chunks"
| "read_chunks maxBytes length' tooLong chunks (None # rest) = Inl ''read failed''"
| "read_chunks maxBytes length' tooLong chunks (Some value # rest) =
     (if length' + length value > maxBytes then Inl tooLong
      else read_chunks maxBytes (length' + length value) tooLong (chunks @ [value]) rest)"

text \<open>\<open>result.set(chunk, offset)\<close> for each chunk in turn.\<close>

fun place_chunks :: "string \<Rightarrow> nat \<Rightarrow> string list \<Rightarrow> string" where
  "place_chunks result offset [] = result"
| "place_chunks result offset (chunk # chunks) =
     place_chunks (take offset result @ chunk @ drop (offset + length chunk) result) (offset + length chunk) chunks"

definition fail :: "string \<Rightarrow> 'v read_result" where
  "fail e = \<lparr>outcome = Inl e, cancelled = False, released = False\<rparr>"

definition readResponseBytes :: "http_response option \<Rightarrow> string list \<Rightarrow> int \<Rightarrow> string read_result" where
  "readResponseBytes response contentTypes maxBytes =
     (case response of
        None \<Rightarrow> fail ''Invalid binary response''
      | Some r \<Rightarrow>
          if \<not> r_ok r \<or> maxBytes < 0 then fail ''Invalid binary response''
          else if media_type r \<notin> set contentTypes then fail ''Unexpected binary response type''
          else if exceeds r (nat maxBytes) then fail ''Binary response exceeds the size limit''
          else (case r_body r of
                  None \<Rightarrow> fail ''Binary response is not streamable''
                | Some body \<Rightarrow>
                    (case read_chunks (nat maxBytes) 0 ''Binary response exceeds the size limit'' [] body of
                       Inl e \<Rightarrow> \<lparr>outcome = Inl e, cancelled = True, released = True\<rparr>
                     | Inr chunks \<Rightarrow>
                         \<lparr>outcome = Inr (place_chunks (replicate (length (concat chunks)) (CHR 0x00)) 0 chunks),
                          cancelled = False, released = True\<rparr>)))"

definition MAX_LEGAL_DOCUMENT_BYTES :: nat where "MAX_LEGAL_DOCUMENT_BYTES = 512 * 2 ^ 10"

definition readLegalTextResponse ::
  "(string \<Rightarrow> string option) \<Rightarrow> http_response option \<Rightarrow> string \<Rightarrow> nat \<Rightarrow> string read_result" where
  "readLegalTextResponse decode response expectedType maxBytes =
     (case response of
        None \<Rightarrow> fail ''privacy policy request failed''
      | Some r \<Rightarrow>
          if \<not> r_ok r then fail ''privacy policy request failed''
          else if media_type r \<noteq> [] \<and> media_type r \<noteq> expectedType
          then fail ''legal response has an unexpected content type''
          else if exceeds r maxBytes then fail ''privacy policy response exceeds the size limit''
          else (case r_body r of
                  None \<Rightarrow> fail ''privacy policy response is not streamable''
                | Some body \<Rightarrow>
                    (case read_chunks maxBytes 0 ''privacy policy response exceeds the size limit'' [] body of
                       Inl e \<Rightarrow> \<lparr>outcome = Inl e, cancelled = True, released = True\<rparr>
                     | Inr chunks \<Rightarrow>
                         (case decode (concat chunks) of
                            None \<Rightarrow> \<lparr>outcome = Inl ''decoding failed'', cancelled = True, released = True\<rparr>
                          | Some output \<Rightarrow>
                              \<lparr>outcome = (if output = [] \<or> CHR 0x00 \<in> set output
                                 then Inl ''privacy policy response is invalid'' else Inr output),
                               cancelled = False, released = True\<rparr>))))"

definition MAX_ERROR_BODY_BYTES :: nat where "MAX_ERROR_BODY_BYTES = 2048"

text \<open>The bytes kept and whether the end of the stream was seen; \<open>None\<close> when a read throws.\<close>

fun read_prefix :: "nat \<Rightarrow> string \<Rightarrow> string option list \<Rightarrow> (string \<times> bool) option" where
  "read_prefix limit kept body =
     (if length kept \<ge> limit then Some (kept, False)
      else (case body of
              [] \<Rightarrow> Some (kept, True)
            | None # rest \<Rightarrow> None
            | Some value # rest \<Rightarrow>
                (let remaining = limit - length kept;
                     chunk = (if length value > remaining then take remaining value else value)
                 in if length chunk \<noteq> length value then Some (kept @ chunk, False)
                    else read_prefix limit (kept @ chunk) rest)))"

declare read_prefix.simps [simp del]

definition readBoundedErrorText ::
  "(string \<Rightarrow> string) \<Rightarrow> http_response option \<Rightarrow> string read_result" where
  "readBoundedErrorText decode response =
     (case response of
        None \<Rightarrow> \<lparr>outcome = Inr [], cancelled = False, released = False\<rparr>
      | Some r \<Rightarrow>
          (case (if r_used r then None else r_body r) of
             None \<Rightarrow> \<lparr>outcome = Inr [], cancelled = False, released = False\<rparr>
           | Some body \<Rightarrow>
               (case read_prefix MAX_ERROR_BODY_BYTES [] body of
                  None \<Rightarrow> \<lparr>outcome = Inl ''read failed'', cancelled = False, released = True\<rparr>
                | Some (kept, complete) \<Rightarrow>
                    \<lparr>outcome = Inr (decode kept), cancelled = \<not> complete, released = True\<rparr>)))"

section \<open>Error messages\<close>

definition RESPONSE_ERROR_CODE_HEADER :: string where
  "RESPONSE_ERROR_CODE_HEADER = ''X-Renop-Error-Code''"

definition resp_header :: "string \<Rightarrow> http_response option \<Rightarrow> string" where
  "resp_header k response = (case response of None \<Rightarrow> [] | Some r \<Rightarrow> header_or k r)"

definition code_key :: "(string \<times> string) list \<Rightarrow> string \<Rightarrow> string" where
  "code_key errorCodeKeys code =
     or_else (lookup_text (map_of errorCodeKeys) code) (lookup_text (map_of commonErrorCodeKeys) code)"

definition status_key :: "http_response option \<Rightarrow> string" where
  "status_key response =
     (case map_of statusErrorKeys (case response of None \<Rightarrow> 0 | Some r \<Rightarrow> r_status r) of
        None \<Rightarrow> [] | Some k \<Rightarrow> k)"

text \<open>The message, or the error of a failed read of the body.\<close>

definition responseErrorMessage ::
  "(string \<Rightarrow> string) \<Rightarrow> json_parser \<Rightarrow> lang_state \<Rightarrow> http_response option \<Rightarrow> string \<Rightarrow>
   (string \<times> string) list \<Rightarrow> (string \<times> string) list \<Rightarrow> string + string" where
  "responseErrorMessage decode json s response fallbackKey params errorCodeKeys =
     (let code = resp_header RESPONSE_ERROR_CODE_HEADER response in
      if code = ''MFA_DEVICE_RATE_LIMITED'' then
        Inr (tr s ''mfa.deviceRateLimited''
          [(''time'', or_else (resp_header ''X-Renop-Rate-Limit-Time'' response) (lookup_text (map_of params) ''time''))])
      else if code_key errorCodeKeys code \<noteq> [] then Inr (tr s (code_key errorCodeKeys code) params)
      else (case outcome (readBoundedErrorText decode response) of
              Inl e \<Rightarrow> Inl e
            | Inr body \<Rightarrow>
                Inr (or_else (translateKnownError json s body)
                  (tr s (or_else (status_key response) fallbackKey) params))))"

text \<open>A caught value: an error already localized, with its HTTP status, or any other failure.\<close>

datatype caught = Localized string nat | Other string

definition localizedResponseError ::
  "(string \<Rightarrow> string) \<Rightarrow> json_parser \<Rightarrow> lang_state \<Rightarrow> http_response option \<Rightarrow> string \<Rightarrow>
   (string \<times> string) list \<Rightarrow> (string \<times> string) list \<Rightarrow> caught" where
  "localizedResponseError decode json s response fallbackKey params errorCodeKeys =
     (case responseErrorMessage decode json s response fallbackKey params errorCodeKeys of
        Inl e \<Rightarrow> Other e
      | Inr m \<Rightarrow> Localized m (case response of None \<Rightarrow> 0 | Some r \<Rightarrow> r_status r))"

fun caughtErrorMessage :: "lang_state \<Rightarrow> caught \<Rightarrow> string \<Rightarrow> (string \<times> string) list \<Rightarrow> string" where
  "caughtErrorMessage s (Localized m st) fallbackKey params = m"
| "caughtErrorMessage s (Other e) fallbackKey params = tr s fallbackKey params"

section \<open>Limits are enforced on the bytes received\<close>

lemma read_chunks_Inr:
  "read_chunks m n e acc body = Inr chunks \<Longrightarrow> n = length (concat acc) \<Longrightarrow> n \<le> m \<Longrightarrow>
   length (concat chunks) \<le> m \<and> concat chunks = concat acc @ concat (map the body) \<and> None \<notin> set body"
  by (induction m n e acc body rule: read_chunks.induct) (auto split: if_splits)

lemma place_chunks_eq:
  "offset \<le> length result \<Longrightarrow> length result = offset + length (concat chunks) \<Longrightarrow>
   place_chunks result offset chunks = take offset result @ concat chunks"
  by (induction chunks arbitrary: result offset) (simp_all add: min_def)

text \<open>
  a binary or legal response is returned only if it is complete and within its limit, measured on
  the bytes actually received and not on the declared length; the bytes returned are the bytes
  sent, in order; and a reader that was opened is always released, and cancelled when reading
  stopped early.
\<close>

theorem bounded_responses:
  assumes "r_body r = Some body"
  shows "(outcome (readResponseBytes (Some r) types m) = Inr bytes \<longrightarrow>
      r_ok r \<and> media_type r \<in> set types \<and> int (length bytes) \<le> m \<and> bytes = concat (map the body) \<and>
      None \<notin> set body \<and> released (readResponseBytes (Some r) types m)) \<and>
    (outcome (readLegalTextResponse decode (Some r) ty lim) = Inr txt \<longrightarrow>
      r_ok r \<and> length (concat (map the body)) \<le> lim \<and> decode (concat (map the body)) = Some txt \<and> txt \<noteq> [] \<and>
      released (readLegalTextResponse decode (Some r) ty lim)) \<and>
    (\<forall>e. released (readResponseBytes (Some r) types m) \<and> outcome (readResponseBytes (Some r) types m) = Inl e \<longrightarrow>
      cancelled (readResponseBytes (Some r) types m))"
proof (intro conjI impI allI)
  assume ok: "outcome (readResponseBytes (Some r) types m) = Inr bytes"
  then obtain chunks where ch: "read_chunks (nat m) 0 ''Binary response exceeds the size limit'' [] body = Inr chunks"
    and b: "bytes = place_chunks (replicate (length (concat chunks)) (CHR 0x00)) 0 chunks" and m: "\<not> m < 0"
    and g: "r_ok r" "media_type r \<in> set types" "released (readResponseBytes (Some r) types m)"
    using assms by (auto simp: readResponseBytes_def fail_def split: if_splits sum.splits)
  have "bytes = concat chunks" using b place_chunks_eq [of 0 "replicate (length (concat chunks)) (CHR 0x00)" chunks] by simp
  with read_chunks_Inr [OF ch] m g
  show "r_ok r" "media_type r \<in> set types" "int (length bytes) \<le> m" "bytes = concat (map the body)"
    "None \<notin> set body" "released (readResponseBytes (Some r) types m)" by auto
next
  assume "outcome (readLegalTextResponse decode (Some r) ty lim) = Inr txt"
  then obtain chunks where ch:
    "read_chunks lim 0 ''privacy policy response exceeds the size limit'' [] body = Inr chunks"
    and "decode (concat chunks) = Some txt" "txt \<noteq> []" "r_ok r" "released (readLegalTextResponse decode (Some r) ty lim)"
    using assms by (auto simp: readLegalTextResponse_def fail_def split: if_splits sum.splits option.splits)
  with read_chunks_Inr [OF ch]
  show "r_ok r" "length (concat (map the body)) \<le> lim" "decode (concat (map the body)) = Some txt" "txt \<noteq> []"
    "released (readLegalTextResponse decode (Some r) ty lim)" by auto
next
  fix e
  assume "released (readResponseBytes (Some r) types m) \<and> outcome (readResponseBytes (Some r) types m) = Inl e"
  then show "cancelled (readResponseBytes (Some r) types m)"
    using assms by (auto simp: readResponseBytes_def fail_def split: if_splits sum.splits)
qed

definition sample_response :: http_response where
  "sample_response = \<lparr>r_ok = True, r_status = 200,
     r_headers = [''Content-Type'' \<mapsto> ''Application/X; charset=binary''],
     r_body = Some [Some ''ab'', Some ''c''], r_used = False\<rparr>"

theorem bounded_responses_witness:
  "outcome (readResponseBytes (Some sample_response) [''application/x''] 3) = Inr ''abc'' \<and>
   outcome (readResponseBytes (Some sample_response) [''application/x''] 2) = Inl ''Binary response exceeds the size limit'' \<and>
   cancelled (readResponseBytes (Some sample_response) [''application/x''] 2)"
proof -
  have b: "r_body sample_response = Some [Some ''ab'', Some ''c'']" by (simp add: sample_response_def)
  have mt: "media_type sample_response = ''application/x''" by code_simp
  have d: "declared_length sample_response = Some 0" by (simp add: declared_length_def sample_response_def)
  have 1: "outcome (readResponseBytes (Some sample_response) [''application/x''] 3) = Inr ''abc''"
    by (simp add: readResponseBytes_def exceeds_def mt d b) (simp add: sample_response_def)
  have 2: "outcome (readResponseBytes (Some sample_response) [''application/x''] 2) = Inl ''Binary response exceeds the size limit''"
    "released (readResponseBytes (Some sample_response) [''application/x''] 2)"
    by (simp_all add: readResponseBytes_def exceeds_def mt d b) (simp_all add: sample_response_def fail_def)
  from 1 2 bounded_responses [OF b, of "[''application/x'']" 2 "''''"] show ?thesis by blast
qed

lemma read_prefix_Some:
  "read_prefix limit kept body = Some (out, complete) \<Longrightarrow> length kept \<le> limit \<Longrightarrow>
   length out \<le> limit \<and> (\<exists>rest. kept @ concat (map the (takeWhile (\<lambda>x. x \<noteq> None) body)) = out @ rest)"
proof (induction body arbitrary: kept)
  case Nil
  then show ?case by (auto simp: read_prefix.simps [of limit kept] split: if_splits)
next
  case (Cons x body)
  show ?case
  proof (cases "length kept \<ge> limit \<or> x = None")
    case True
    with Cons.prems show ?thesis by (auto simp: read_prefix.simps [of limit kept] split: if_splits)
  next
    case False
    then obtain v where v: "x = Some v" and k: "length kept < limit" by auto
    show ?thesis
    proof (cases "limit - length kept < length v")
      case True
      with Cons.prems v k have "out = kept @ take (limit - length kept) v"
        by (auto simp: read_prefix.simps [of limit kept] Let_def)
      then obtain w z where "v = w @ z" "out = kept @ w" "length w = limit - length kept"
        using True by (metis append_take_drop_id length_take min.absorb4)
      with v k show ?thesis by auto
    next
      case False
      with Cons.prems v k have "read_prefix limit (kept @ v) body = Some (out, complete)"
        by (simp add: read_prefix.simps [of limit kept])
      with Cons.IH [of "kept @ v"] False v k show ?thesis by auto
    qed
  qed
qed

text \<open>
  an error message never repeats the server's text. Whatever the failed response contains, the
  message shown is the translation of a message key fixed in the application or registered in its
  dictionaries; at most 2048 bytes of the body are read to find one, and the reader is released.
\<close>

theorem error_message_registered:
  assumes "responseErrorMessage decode json s response fallbackKey params errorCodeKeys = Inr message"
  shows "(\<exists>k ps. (registered s k \<or> k \<in> snd ` set errorCodeKeys \<or> k \<in> snd ` set commonErrorCodeKeys \<or>
        k \<in> snd ` set statusErrorKeys \<or> k = fallbackKey \<or> k = ''mfa.deviceRateLimited'') \<and>
      message = tr s k ps) \<and>
    (response = Some r \<and> r_body r = Some body \<and> \<not> r_used r \<longrightarrow> released (readBoundedErrorText decode response) \<and>
      (\<forall>txt. outcome (readBoundedErrorText decode response) = Inr txt \<longrightarrow>
         (\<exists>kept. txt = decode kept \<and> length kept \<le> 2048)))"
proof
  have look: "lookup_text (map_of xs) k \<noteq> [] \<Longrightarrow> lookup_text (map_of xs) k \<in> snd ` set xs" for xs and k :: string
    by (auto simp: lookup_text_def split: option.splits dest!: map_of_SomeD) force
  have stat: "status_key response \<noteq> [] \<Longrightarrow> status_key response \<in> snd ` set statusErrorKeys"
    by (auto simp: status_key_def split: option.splits dest!: map_of_SomeD) force+
  have code: "code_key errorCodeKeys c \<noteq> [] \<Longrightarrow>
      code_key errorCodeKeys c \<in> snd ` set errorCodeKeys \<union> snd ` set commonErrorCodeKeys" for c
    using look [of errorCodeKeys c] look [of commonErrorCodeKeys c] by (auto simp: code_key_def or_else_def)
  show "\<exists>k ps. (registered s k \<or> k \<in> snd ` set errorCodeKeys \<or> k \<in> snd ` set commonErrorCodeKeys \<or>
        k \<in> snd ` set statusErrorKeys \<or> k = fallbackKey \<or> k = ''mfa.deviceRateLimited'') \<and> message = tr s k ps"
  proof -
    define c where "c = resp_header RESPONSE_ERROR_CODE_HEADER response"
    consider ps where "message = tr s ''mfa.deviceRateLimited'' ps"
      | "code_key errorCodeKeys c \<noteq> []" "message = tr s (code_key errorCodeKeys c) params"
      | body where "translateKnownError json s body \<noteq> []" "message = translateKnownError json s body"
      | "message = tr s (or_else (status_key response) fallbackKey) params"
      using assms unfolding responseErrorMessage_def Let_def c_def [symmetric]
      by (auto simp: or_else_def [of "translateKnownError json s _"] split: if_splits sum.splits)
    then show ?thesis
    proof cases
      case 2
      with code [of c] show ?thesis by blast
    next
      case 3
      with translateKnownError_registered [of json s] show ?thesis by metis
    next
      case 4
      with stat show ?thesis by (cases "status_key response = []") auto
    qed blast
  qed
  show "response = Some r \<and> r_body r = Some body \<and> \<not> r_used r \<longrightarrow> released (readBoundedErrorText decode response) \<and>
      (\<forall>txt. outcome (readBoundedErrorText decode response) = Inr txt \<longrightarrow>
         (\<exists>kept. txt = decode kept \<and> length kept \<le> 2048))"
    using read_prefix_Some [of MAX_ERROR_BODY_BYTES "[]" body]
    by (auto simp: readBoundedErrorText_def MAX_ERROR_BODY_BYTES_def split: option.splits)
qed

theorem error_message_registered_witness:
  "\<exists>k ps. (registered sample_languages k \<or> k \<in> snd ` set ([] :: (string \<times> string) list) \<or>
       k \<in> snd ` set commonErrorCodeKeys \<or> k \<in> snd ` set statusErrorKeys \<or> k = ''x'' \<or> k = ''mfa.deviceRateLimited'') \<and>
     ''X'' = tr sample_languages k ps"
proof -
  have "responseErrorMessage id (\<lambda>x. None) sample_languages None ''x'' [] [] = Inr ''X''"
    by code_simp
  from error_message_registered [OF this, of sample_response "[]"] show ?thesis by (rule conjunct1)
qed

end
