(* ===== verification/Captcha.thy ===== *)
theory Captcha
  imports Responses Machine
begin

text \<open>
  The CAPTCHA gate \<open>captcha.js\<close> and the request layer \<open>api.js\<close> on top of it.

  The challenge dialog is a machine. \<open>render\<close> awaits the cookie consent, so several calls may be
  in flight (\<open>consent_checks\<close>); the provider frame posts messages; a completed frame starts one
  verification request, whose proof is accepted after a last look at the consent
  (\<open>proof_checks\<close>). Nonces are drawn from a counter: each frame has its own. \<open>posts\<close> and
  \<open>frames\<close> count the verification requests and the frames created.
\<close>

section \<open>The challenge\<close>

definition scopes :: "string list" where
  "scopes = [''password_login'', ''registration'', ''manual_mail'', ''super_team_create'', ''domain_create'',
     ''package_create'', ''anti_abuse'']"

definition providers :: "string list" where
  "providers = [''recaptcha_v2'', ''recaptcha_invisible'', ''recaptcha_v3'', ''turnstile'', ''hcaptcha'',
     ''friendlycaptcha'']"

record metadata =
  md_provider :: string
  md_scopes :: "string list"
  md_site_key :: "string option"

datatype gate = NotNeeded | Unavailable | Cancelled | OpenDialog

text \<open>The checks before the dialog opens.\<close>

definition challenge_gate :: "metadata \<Rightarrow> string \<Rightarrow> bool \<Rightarrow> bool \<Rightarrow> gate" where
  "challenge_gate md scope epochChanged aborted =
     (if md_provider md = ''disabled'' \<or> scope \<notin> set (md_scopes md) then NotNeeded
      else if md_provider md \<notin> set providers \<or> md_site_key md = None then Unavailable
      else if epochChanged \<or> aborted then Cancelled
      else OpenDialog)"

definition hidden_by_default :: "metadata \<Rightarrow> bool" where
  "hidden_by_default md \<longleftrightarrow> md_provider md \<in> {''turnstile'', ''recaptcha_invisible'', ''recaptcha_v3''}"

record challenge =
  invisible :: bool
  settled_as :: "(string + string) option"
  frame :: "nat option"
  frame_timer :: bool
  frame_height :: "nat option"
  verifying :: bool
  verify_pending :: nat
  proof_checks :: "string list"
  consent_checks :: nat
  is_aborted :: bool
  epoch_changed :: bool
  retry_hidden :: bool
  host_hidden :: bool
  status_text :: string
  next_nonce :: nat
  posts :: nat
  frames :: nat

definition open_challenge :: "metadata \<Rightarrow> challenge" where
  "open_challenge md =
     \<lparr>invisible = hidden_by_default md, settled_as = None, frame = None, frame_timer = False, frame_height = None,
      verifying = False, verify_pending = 0, proof_checks = [], consent_checks = 0, is_aborted = False,
      epoch_changed = False, retry_hidden = True, host_hidden = hidden_by_default md,
      status_text = (if hidden_by_default md then ''captcha.verifying'' else ''captcha.loading''),
      next_nonce = 0, posts = 0, frames = 0\<rparr>"

definition finish :: "string + string \<Rightarrow> challenge \<Rightarrow> challenge" where
  "finish r s = (if settled_as s \<noteq> None then s else s\<lparr>settled_as := Some r, frame_timer := False\<rparr>)"

definition failed :: "challenge \<Rightarrow> challenge" where
  "failed s =
     (if settled_as s \<noteq> None then s
      else s\<lparr>frame_timer := False, frame := None, verifying := False, host_hidden := True,
             status_text := ''captcha.failed'', retry_hidden := False\<rparr>)"

definition busy :: "challenge \<Rightarrow> bool" where
  "busy s \<longleftrightarrow> frame s \<noteq> None \<or> verifying s \<or> settled_as s \<noteq> None"

definition start_render :: "challenge \<Rightarrow> challenge" where
  "start_render s = (if busy s then s else s\<lparr>consent_checks := Suc (consent_checks s)\<rparr>)"

definition make_frame :: "challenge \<Rightarrow> challenge" where
  "make_frame s =
     s\<lparr>retry_hidden := True, host_hidden := invisible s,
       status_text := (if invisible s then ''captcha.verifying'' else ''captcha.loading''),
       frame := Some (next_nonce s), next_nonce := Suc (next_nonce s), frame_timer := True,
       frame_height := None, frames := Suc (frames s)\<rparr>"

text \<open>\<open>None\<close>: looking up the consent threw.\<close>

definition after_consent :: "bool option \<Rightarrow> challenge \<Rightarrow> challenge" where
  "after_consent allowed s =
     (let s = s\<lparr>consent_checks := consent_checks s - 1\<rparr> in
      case allowed of
        None \<Rightarrow> failed s
      | Some False \<Rightarrow> s\<lparr>host_hidden := True, status_text := ''captcha.consent''\<rparr>
      | Some True \<Rightarrow> if busy s \<or> is_aborted s then s else make_frame s)"

definition abort :: "challenge \<Rightarrow> challenge" where
  "abort s = finish (Inl ''captcha.cancelled'') (s\<lparr>is_aborted := True\<rparr>)"

datatype message =
    Size int
  | Interactive
  | FrameError
  | Complete string
  | Unknown

definition on_message :: "bool \<Rightarrow> bool \<Rightarrow> nat \<Rightarrow> message \<Rightarrow> challenge \<Rightarrow> challenge" where
  "on_message fromFrame sameOrigin msgNonce m s =
     (if settled_as s \<noteq> None \<or> frame s = None \<or> \<not> fromFrame \<or> \<not> sameOrigin \<or> frame s \<noteq> Some msgNonce then s
      else
        (let s = s\<lparr>frame_timer := False\<rparr> in
         case m of
           Size h \<Rightarrow> if 50 \<le> h \<and> h \<le> 900 then s\<lparr>frame_height := Some (nat h)\<rparr> else s
         | Interactive \<Rightarrow> s\<lparr>host_hidden := False, status_text := ''captcha.loading''\<rparr>
         | FrameError \<Rightarrow> failed s
         | Complete response \<Rightarrow>
             if \<not> verifying s \<and> js_length response \<le> 16384
             then s\<lparr>verifying := True, host_hidden := True, status_text := ''captcha.verifying'', frame := None,
                    verify_pending := Suc (verify_pending s), posts := Suc (posts s)\<rparr>
             else s
         | Unknown \<Rightarrow> s))"

text \<open>The answer to the verification: an HTTP failure, a thrown error, or the field \<open>proof\<close> when it is a string.\<close>

datatype verify_answer = Refused nat | VerifyThrew | Answered "string option"

definition valid_proof :: "string \<Rightarrow> bool" where
  "valid_proof p \<longleftrightarrow> p \<noteq> [] \<and> js_length p \<le> 128"

definition after_verify :: "verify_answer \<Rightarrow> challenge \<Rightarrow> challenge" where
  "after_verify a s =
     (let s = s\<lparr>verify_pending := verify_pending s - 1\<rparr> in
      case a of
        Refused status \<Rightarrow> if status = 409 then finish (Inl ''captcha.changed'') s else failed s
      | VerifyThrew \<Rightarrow> if is_aborted s then s else failed s
      | Answered p \<Rightarrow>
          (case p of
             None \<Rightarrow> failed s
           | Some pr \<Rightarrow>
               if \<not> valid_proof pr then failed s
               else if epoch_changed s \<or> is_aborted s then abort s
               else s\<lparr>proof_checks := proof_checks s @ [pr]\<rparr>))"

definition after_proof_check :: "bool option \<Rightarrow> string \<Rightarrow> challenge \<Rightarrow> challenge" where
  "after_proof_check allowed pr s =
     (let s = s\<lparr>proof_checks := remove1 pr (proof_checks s)\<rparr> in
      case allowed of
        None \<Rightarrow> if is_aborted s then s else failed s
      | Some False \<Rightarrow> abort s
      | Some True \<Rightarrow> finish (Inr pr) s)"

datatype challenge_event =
    Render
  | ConsentKnown "bool option"
  | Message bool bool nat message
  | FrameTimeout
  | Verified verify_answer
  | ProofConsent nat "bool option"
  | Abort
  | CancelAll
  | Timeout

fun challenge_step :: "challenge_event \<Rightarrow> challenge \<Rightarrow> challenge option" where
  "challenge_step Render s = Some (start_render s)"
| "challenge_step (ConsentKnown allowed) s = (if consent_checks s > 0 then Some (after_consent allowed s) else None)"
| "challenge_step (Message fromFrame sameOrigin nc m) s = Some (on_message fromFrame sameOrigin nc m s)"
| "challenge_step FrameTimeout s = (if frame_timer s then Some (failed s) else None)"
| "challenge_step (Verified a) s = (if verify_pending s > 0 then Some (after_verify a s) else None)"
| "challenge_step (ProofConsent i allowed) s =
     (if i < length (proof_checks s) then Some (after_proof_check allowed (proof_checks s ! i) s) else None)"
| "challenge_step Abort s = Some (abort s)"
| "challenge_step CancelAll s = Some (abort (s\<lparr>epoch_changed := True\<rparr>))"
| "challenge_step Timeout s = (if settled_as s = None then Some (finish (Inl ''captcha.failed'') s) else None)"

section \<open>Requests with a retry\<close>

record request_init =
  q_method :: "string option"
  q_headers :: "(string \<times> string) list"
  q_body :: "string option"
  q_stream :: bool
  q_credentials :: "string option"
  q_cache :: "string option"

text \<open>\<open>Headers\<close>: names are compared without regard to case.\<close>

definition headers_set :: "string \<Rightarrow> string \<Rightarrow> (string \<times> string) list \<Rightarrow> (string \<times> string) list" where
  "headers_set k v hs = assign (to_lower k) v (map (\<lambda>(a, b). (to_lower a, b)) hs)"

text \<open>
  The result of the queued challenge is the parameter \<open>solve\<close> (an error key, or the proof, empty
  when none is needed); \<open>left\<close> says that the context was left or the signal fired meanwhile.
\<close>

definition captchaHeaders ::
  "(string \<Rightarrow> string + string) \<Rightarrow> nat \<Rightarrow> bool \<Rightarrow> bool \<Rightarrow> http_response \<Rightarrow> string + (string \<times> string) list option" where
  "captchaHeaders solve pending sameOrigin left response =
     (if r_status response \<noteq> 428 \<or> header_or ''X-Renop-Error-Code'' response \<noteq> ''captcha_required'' then Inr None
      else if \<not> sameOrigin then Inr None
      else (let scope = header_or ''X-Renop-Captcha-Scope'' response in
            if scope \<notin> set scopes then Inl ''captcha.unavailable''
            else if pending \<ge> 8 then Inl ''captcha.unavailable''
            else (case solve scope of
                    Inl e \<Rightarrow> Inl e
                  | Inr proof \<Rightarrow>
                      if left then Inl ''captcha.cancelled''
                      else Inr (Some (if proof = [] then [] else [(''X-Renop-Captcha'', proof)])))))"

text \<open>The server is a function from the number of the attempt and the request to a response.\<close>

definition captchaFetch ::
  "(nat \<Rightarrow> request_init \<Rightarrow> http_response) \<Rightarrow> (string \<Rightarrow> string + string) \<Rightarrow> nat \<Rightarrow> bool \<Rightarrow> bool \<Rightarrow> request_init \<Rightarrow>
   (string + http_response) \<times> request_init list" where
  "captchaFetch server solve pending sameOrigin left options =
     (let response = server 0 options in
      if q_stream options then (Inr response, [options])
      else (case captchaHeaders solve pending sameOrigin left response of
              Inl e \<Rightarrow> (Inl e, [options])
            | Inr None \<Rightarrow> (Inr response, [options])
            | Inr (Some approval) \<Rightarrow>
                (let options' = options\<lparr>q_headers := fold (\<lambda>(k, v). headers_set k v) approval
                       (map (\<lambda>(a, b). (to_lower a, b)) (q_headers options))\<rparr>
                 in (Inr (server 1 options'), [options, options']))))"

definition acquireCaptchaProof ::
  "(string \<Rightarrow> string + string) \<Rightarrow> nat \<Rightarrow> bool \<Rightarrow> string \<Rightarrow> string + string" where
  "acquireCaptchaProof solve pending left scope =
     (if scope \<notin> set scopes then Inr []
      else if pending \<ge> 8 then Inl ''captcha.unavailable''
      else (case solve scope of
              Inl e \<Rightarrow> Inl e
            | Inr proof \<Rightarrow> if left then Inl ''captcha.cancelled'' else Inr proof))"

section \<open>The API layer\<close>

definition PROTO_CONTENT_TYPE :: string where "PROTO_CONTENT_TYPE = ''application/x-protobuf''"

definition getAuthHeaders :: "(string \<times> string) list" where "getAuthHeaders = []"

text \<open>Spreading the later headers over the earlier ones, as an object literal does.\<close>

definition spread :: "(string \<times> string) list \<Rightarrow> (string \<times> string) list \<Rightarrow> (string \<times> string) list" where
  "spread base over = fold (\<lambda>(k, v). assign k v) over base"

definition withCredentials :: "string \<Rightarrow> request_init \<Rightarrow> request_init" where
  "withCredentials lang options =
     options\<lparr>q_credentials := (case q_credentials options of None \<Rightarrow> Some ''include'' | c \<Rightarrow> c),
             q_cache := (case q_cache options of None \<Rightarrow> Some ''no-store'' | c \<Rightarrow> c),
             q_headers := spread (spread [(''Accept-Language'', or_else lang ''en-US'')] getAuthHeaders) (q_headers options)\<rparr>"

datatype api_error = Unauthorized | CaptchaError string | RequestError caught

text \<open>Whether the session is ended.\<close>

definition handleAuthFailure :: "bool \<Rightarrow> http_response \<Rightarrow> bool" where
  "handleAuthFailure logoutOnForbidden response \<longleftrightarrow>
     r_status response = 401 \<or> (r_status response = 403 \<and> logoutOnForbidden)"

type_synonym transport = "request_init \<Rightarrow> (string + http_response) \<times> request_init list"

definition apiRequest :: "transport \<Rightarrow> string \<Rightarrow> request_init \<Rightarrow> bool \<Rightarrow> (api_error + http_response) \<times> bool" where
  "apiRequest send lang options logoutOnForbidden =
     (case fst (send (withCredentials lang options)) of
        Inl e \<Rightarrow> (Inl (CaptchaError e), False)
      | Inr response \<Rightarrow>
          if handleAuthFailure logoutOnForbidden response then (Inl Unauthorized, True) else (Inr response, False))"

definition json_options :: "string option \<Rightarrow> request_init \<Rightarrow> request_init" where
  "json_options json options =
     (case json of
        None \<Rightarrow> options
      | Some body \<Rightarrow>
          options\<lparr>q_method := (case q_method options of None \<Rightarrow> Some ''POST'' | Some m \<Rightarrow> Some (or_else m ''POST'')),
                  q_body := Some body,
                  q_headers := spread [(''Content-Type'', ''application/json'')] (q_headers options)\<rparr>)"

text \<open>The body of a successful response is left to the JSON parser; 204 has none.\<close>

definition jsonClient ::
  "transport \<Rightarrow> (http_response \<Rightarrow> caught) \<Rightarrow> string \<Rightarrow> bool \<Rightarrow> string option \<Rightarrow> request_init \<Rightarrow>
   (api_error + http_response option) \<times> bool" where
  "jsonClient send localize lang publicRequest json options =
     (let options = json_options json options;
          r = (if publicRequest
               then (case fst (send (withCredentials lang options)) of
                       Inl e \<Rightarrow> (Inl (CaptchaError e), False) | Inr response \<Rightarrow> (Inr response, False))
               else apiRequest send lang options False)
      in case fst r of
           Inl e \<Rightarrow> (Inl e, snd r)
         | Inr response \<Rightarrow>
             if \<not> r_ok response then (Inl (RequestError (localize response)), snd r)
             else (Inr (if r_status response = 204 then None else Some response), snd r))"

definition fetchProto ::
  "transport \<Rightarrow> (http_response \<Rightarrow> 'm) \<Rightarrow> string \<Rightarrow> request_init \<Rightarrow> string + http_response \<times> 'm option" where
  "fetchProto send decodeProto lang options =
     (case fst (send (withCredentials lang
          (options\<lparr>q_headers := spread [(''Accept'', PROTO_CONTENT_TYPE)] (q_headers options)\<rparr>))) of
        Inl e \<Rightarrow> Inl e
      | Inr response \<Rightarrow> Inr (response, if r_ok response then Some (decodeProto response) else None))"

definition proto_headers :: "string option \<Rightarrow> request_init \<Rightarrow> (string \<times> string) list" where
  "proto_headers encoded options =
     (let h = spread [(''Accept'', PROTO_CONTENT_TYPE)] (q_headers options) in
      case encoded of None \<Rightarrow> h | Some b \<Rightarrow> assign ''Content-Type'' PROTO_CONTENT_TYPE h)"

definition sendProto ::
  "transport \<Rightarrow> (http_response \<Rightarrow> 'm) option \<Rightarrow> string \<Rightarrow> string \<Rightarrow> string option \<Rightarrow> request_init \<Rightarrow>
   string + http_response \<times> 'm option" where
  "sendProto send decodeProto lang verb encoded options =
     (case fst (send (withCredentials lang
          (options\<lparr>q_method := (case q_method options of None \<Rightarrow> Some verb | m \<Rightarrow> m),
                   q_headers := proto_headers encoded options, q_body := encoded\<rparr>))) of
        Inl e \<Rightarrow> Inl e
      | Inr response \<Rightarrow>
          Inr (response, case decodeProto of
                 None \<Rightarrow> None | Some d \<Rightarrow> if r_ok response then Some (d response) else None))"

section \<open>What a proof stands for\<close>

lemmas challenge_defs = start_render_def after_consent_def on_message_def failed_def finish_def abort_def
  after_verify_def after_proof_check_def make_frame_def busy_def Let_def

definition accepted_message :: "challenge_event list \<Rightarrow> bool" where
  "accepted_message es \<longleftrightarrow> (\<exists>n r. Message True True n (Complete r) \<in> set es \<and> js_length r \<le> 16384)"

definition challenge_trace :: "challenge_event list \<Rightarrow> challenge \<Rightarrow> bool" where
  "challenge_trace es s \<longleftrightarrow>
     (is_aborted s \<longrightarrow> settled_as s \<noteq> None) \<and>
     (\<forall>p \<in> set (proof_checks s). valid_proof p \<and> Verified (Answered (Some p)) \<in> set es) \<and>
     (posts s > 0 \<longrightarrow> accepted_message es) \<and>
     (verify_pending s > 0 \<or> proof_checks s \<noteq> [] \<longrightarrow> posts s > 0) \<and>
     posts s + (if frame s = None then 0 else 1) \<le> frames s \<and>
     (\<forall>p. settled_as s = Some (Inr p) \<longrightarrow> valid_proof p \<and> Verified (Answered (Some p)) \<in> set es \<and>
        posts s > 0 \<and> (\<exists>i. ProofConsent i (Some True) \<in> set es))"

lemma accepted_mono: "accepted_message es \<Longrightarrow> accepted_message (es @ fs)"
  by (auto simp: accepted_message_def)

lemma accepted_here: "js_length r \<le> 16384 \<Longrightarrow> accepted_message (es @ [Message True True n (Complete r)])"
  by (auto simp: accepted_message_def)

lemma trace_step_message:
  "challenge_trace es s \<Longrightarrow> challenge_trace (es @ [Message a b n m]) (on_message a b n m s)"
  unfolding challenge_trace_def
  by (cases m) (auto simp: challenge_defs accepted_mono intro: accepted_here split: if_splits)

lemma trace_step_verified:
  "challenge_trace es s \<Longrightarrow> verify_pending s > 0 \<Longrightarrow> challenge_trace (es @ [Verified a]) (after_verify a s)"
  unfolding challenge_trace_def
  by (cases a) (auto simp: challenge_defs accepted_mono split: if_splits option.splits)

lemma trace_step_proof:
  assumes "challenge_trace es s" "i < length (proof_checks s)"
  shows "challenge_trace (es @ [ProofConsent i allowed]) (after_proof_check allowed (proof_checks s ! i) s)"
proof -
  have m: "proof_checks s ! i \<in> set (proof_checks s)" using assms(2) by simp
  have sub: "set (remove1 x (proof_checks s)) \<subseteq> set (proof_checks s)" for x by (rule set_remove1_subset)
  show ?thesis
    using assms m sub unfolding challenge_trace_def
    by (cases allowed; cases "the allowed")
      (auto simp: after_proof_check_def failed_def finish_def abort_def Let_def accepted_mono split: if_splits dest: notin_set_remove1)
qed

lemma trace_step_consent:
  "challenge_trace es s \<Longrightarrow> challenge_trace (es @ [ConsentKnown a]) (after_consent a s)"
  unfolding challenge_trace_def
  by (cases a; cases "the a") (auto simp: challenge_defs accepted_mono split: if_splits)

lemma trace_mono: "challenge_trace es s \<Longrightarrow> challenge_trace (es @ fs) s"
  by (auto simp: challenge_trace_def accepted_mono)

lemma trace_failed: "challenge_trace es s \<Longrightarrow> challenge_trace es (failed s)"
  by (auto simp: challenge_trace_def failed_def)

lemma trace_finish_error: "challenge_trace es s \<Longrightarrow> challenge_trace es (finish (Inl x) s)"
  by (auto simp: challenge_trace_def finish_def)

lemma trace_abort: "challenge_trace es s \<Longrightarrow> challenge_trace es (abort s)"
  unfolding abort_def finish_def by (auto simp: challenge_trace_def)

lemma trace_other:
  "challenge_trace es s \<Longrightarrow> challenge_trace es (start_render s)"
  "challenge_trace es s \<Longrightarrow> challenge_trace es (s\<lparr>epoch_changed := b\<rparr>)"
  by (simp_all add: challenge_trace_def start_render_def)

lemma trace_step:
  "challenge_trace es s \<Longrightarrow> challenge_step e s = Some t \<Longrightarrow> challenge_trace (es @ [e]) t"
proof (cases e)
  case (ConsentKnown a)
  assume "challenge_trace es s" "challenge_step e s = Some t"
  with ConsentKnown show ?thesis by (auto intro: trace_step_consent split: if_splits)
next
  case (Message a b n m)
  assume "challenge_trace es s" "challenge_step e s = Some t"
  with Message show ?thesis by (auto intro: trace_step_message)
next
  case (Verified a)
  assume "challenge_trace es s" "challenge_step e s = Some t"
  with Verified show ?thesis by (auto intro: trace_step_verified split: if_splits)
next
  case (ProofConsent i allowed)
  assume "challenge_trace es s" "challenge_step e s = Some t"
  with ProofConsent show ?thesis by (auto intro: trace_step_proof split: if_splits)
qed (auto intro!: trace_mono intro: trace_failed trace_finish_error trace_abort trace_other split: if_splits)

lemma trace_run: "run challenge_step es (open_challenge md) = Some s \<Longrightarrow> challenge_trace es s"
proof (induction es arbitrary: s rule: rev_induct)
  case Nil
  then show ?case by (auto simp: challenge_trace_def open_challenge_def)
next
  case (snoc e es)
  then show ?case by (auto simp: run_append intro: trace_step split: Option.bind_splits option.splits)
qed

lemma settled_final: "challenge_step e s = Some t \<Longrightarrow> settled_as s = Some r \<Longrightarrow> settled_as t = Some r"
proof (cases e)
  case (Message a b n m)
  assume "challenge_step e s = Some t" "settled_as s = Some r"
  with Message show ?thesis by (auto simp: challenge_defs)
next
  case (Verified a)
  assume "challenge_step e s = Some t" "settled_as s = Some r"
  with Verified show ?thesis by (cases a) (auto simp: challenge_defs split: if_splits option.splits)
qed (auto simp: challenge_defs split: if_splits option.splits bool.splits)

text \<open>
  C5: a CAPTCHA proof is handed out only for a solved challenge. In every execution, when the dialog
  ends with a proof, the server issued exactly that proof (non-empty, at most 128 characters), the
  solution came in a message of the dialog's own frame with its nonce and origin, and the consent
  to the third-party service was confirmed afterwards; the outcome is final, and every
  frame is submitted at most once.
\<close>

theorem captcha_proof_guarded:
  assumes "run challenge_step es (open_challenge md) = Some s"
  shows "(settled_as s = Some (Inr p) \<longrightarrow>
      valid_proof p \<and> Verified (Answered (Some p)) \<in> set es \<and> accepted_message es \<and>
      (\<exists>i. ProofConsent i (Some True) \<in> set es)) \<and>
    (challenge_step e s = Some t \<and> settled_as s \<noteq> None \<longrightarrow> settled_as t = settled_as s) \<and>
    posts s \<le> frames s"
  using trace_run [OF assms] settled_final [of e s t]
  by (auto simp: challenge_trace_def split: if_splits)

definition sample_metadata :: metadata where
  "sample_metadata = \<lparr>md_provider = ''hcaptcha'', md_scopes = [''registration''], md_site_key = Some ''k''\<rparr>"

definition sample_solve :: "challenge_event list" where
  "sample_solve = [Render, ConsentKnown (Some True), Message True True 0 (Complete ''token''),
     Verified (Answered (Some ''proof'')), ProofConsent 0 (Some True)]"

theorem captcha_proof_guarded_witness:
  "settled_as (the (run challenge_step sample_solve (open_challenge sample_metadata))) = Some (Inr ''proof'') \<and>
   valid_proof ''proof'' \<and> posts (the (run challenge_step sample_solve (open_challenge sample_metadata))) \<le> 1"
proof -
  define s where "s = the (run challenge_step sample_solve (open_challenge sample_metadata))"
  have r: "run challenge_step sample_solve (open_challenge sample_metadata) = Some s"
    unfolding s_def
    by (simp add: sample_solve_def challenge_defs open_challenge_def valid_proof_def js_length_def units_def)
  have p: "settled_as s = Some (Inr ''proof'')" "frames s = 1" unfolding s_def by code_simp+
  from p captcha_proof_guarded [OF r, of "''proof''"] show ?thesis unfolding s_def by simp
qed

section \<open>No request is repeated without cause\<close>

text \<open>
  A request is repeated at most once, and only after the server's explicit refusal. When
  \<open>captchaFetch\<close> sends a second request, the first response was a 428 with the code
  \<open>captcha_required\<close> from the own origin for a known scope and the challenge was
  solved; the second request is the first one with, at most, the proof header added. A streamed body
  is never sent twice.
\<close>

theorem captcha_retries_once:
  "length (snd (captchaFetch server solve n same left options)) \<le> 2 \<and>
   (snd (captchaFetch server solve n same left options) = [a, b] \<longrightarrow>
      a = options \<and> \<not> q_stream options \<and> same \<and> \<not> left \<and> r_status (server 0 options) = 428 \<and>
      header_or ''X-Renop-Error-Code'' (server 0 options) = ''captcha_required'' \<and>
      (\<exists>proof. solve (header_or ''X-Renop-Captcha-Scope'' (server 0 options)) = Inr proof \<and>
         b = options\<lparr>q_headers := q_headers b\<rparr> \<and>
         (\<forall>k. k \<noteq> ''x-renop-captcha'' \<longrightarrow>
            map_of (q_headers b) k = map_of (map (\<lambda>(x, y). (to_lower x, y)) (q_headers options)) k) \<and>
         (proof \<noteq> [] \<longrightarrow> map_of (q_headers b) ''x-renop-captcha'' = Some proof)))"
proof -
  define hs where "hs = map (\<lambda>(x, y). (to_lower x, y)) (q_headers options)"
  have set: "map_of (assign k v xs) k' = (if k' = k then Some v else map_of xs k')" for k k' v and xs :: "(string \<times> string) list"
    by (induction xs) auto
  have low: "to_lower ''X-Renop-Captcha'' = ''x-renop-captcha''" by code_simp
  have idem: "to_lower (to_lower x) = to_lower x" for x
    by (auto simp: to_lower_def lower_char_def Let_def)
  have "map (\<lambda>(x, y). (to_lower x, y)) hs = hs"
    unfolding hs_def by (induction "q_headers options") (auto simp: idem split: prod.splits)
  then have add: "headers_set ''X-Renop-Captcha'' v hs = assign ''x-renop-captcha'' v hs" for v
    by (simp add: headers_set_def low)
  show ?thesis
    unfolding captchaFetch_def captchaHeaders_def Let_def hs_def [symmetric]
    by (auto simp: add set split: if_splits sum.splits option.splits)
qed

theorem captcha_retries_once_witness:
  "\<exists>b. snd (captchaFetch (\<lambda>n q. sample_response\<lparr>r_status := (if n = 0 then 428 else 200),
        r_headers := [''X-Renop-Error-Code'' \<mapsto> ''captcha_required'', ''X-Renop-Captcha-Scope'' \<mapsto> ''registration'']\<rparr>)
      (\<lambda>scope. Inr ''proof'') 0 True False
      \<lparr>q_method = None, q_headers = [(''Accept'', ''x'')], q_body = None, q_stream = False, q_credentials = None, q_cache = None\<rparr>) =
      [\<lparr>q_method = None, q_headers = [(''Accept'', ''x'')], q_body = None, q_stream = False, q_credentials = None, q_cache = None\<rparr>, b] \<and>
    map_of (q_headers b) ''x-renop-captcha'' = Some ''proof''"
proof -
  define q where "q = \<lparr>q_method = None, q_headers = [(''Accept'', ''x'')], q_body = None, q_stream = False,
    q_credentials = None, q_cache = None\<rparr>"
  define srv where "srv = (\<lambda>(n :: nat) (q :: request_init). sample_response\<lparr>r_status := (if n = 0 then 428 else 200),
    r_headers := [''X-Renop-Error-Code'' \<mapsto> ''captcha_required'', ''X-Renop-Captcha-Scope'' \<mapsto> ''registration'']\<rparr>)"
  obtain b where b: "snd (captchaFetch srv (\<lambda>scope. Inr ''proof'') 0 True False q) = [q, b]"
    by (simp add: captchaFetch_def captchaHeaders_def srv_def q_def header_or_def scopes_def)
  with captcha_retries_once [of srv "\<lambda>scope. Inr ''proof''" 0 True False q q b] show ?thesis
    unfolding q_def srv_def by auto
qed

text \<open>
  a session ends only for an authentication failure. An API request logs the user out exactly for
  401, and for 403 where the caller asked for it; a public request never does, so a rejected
  credential keeps the session; and every request carries the session cookie and bypasses the cache
  unless the caller says otherwise.
\<close>

theorem session_ends_only_on_auth_failure:
  "(snd (apiRequest send lang options forb) \<longleftrightarrow>
      (\<exists>r. fst (send (withCredentials lang options)) = Inr r \<and> (r_status r = 401 \<or> (r_status r = 403 \<and> forb)))) \<and>
   (snd (apiRequest send lang options forb) \<longrightarrow> fst (apiRequest send lang options forb) = Inl Unauthorized) \<and>
   \<not> snd (jsonClient send localize lang True json options) \<and>
   (snd (jsonClient send localize lang False json options) \<longrightarrow>
      fst (jsonClient send localize lang False json options) = Inl Unauthorized) \<and>
   q_credentials (withCredentials lang options) = Some (case q_credentials options of None \<Rightarrow> ''include'' | Some c \<Rightarrow> c) \<and>
   q_cache (withCredentials lang options) = Some (case q_cache options of None \<Rightarrow> ''no-store'' | Some c \<Rightarrow> c)"
  by (auto simp: apiRequest_def jsonClient_def handleAuthFailure_def withCredentials_def Let_def
      split: sum.splits option.splits if_splits)

theorem session_ends_only_on_auth_failure_witness:
  "snd (apiRequest (\<lambda>q. (Inr (sample_response\<lparr>r_status := 401\<rparr>), [q])) ''en-US''
      \<lparr>q_method = None, q_headers = [], q_body = None, q_stream = False, q_credentials = None, q_cache = None\<rparr> False)"
  using session_ends_only_on_auth_failure [of "\<lambda>q. (Inr (sample_response\<lparr>r_status := 401\<rparr>), [q])" "''en-US''"
      "\<lparr>q_method = None, q_headers = [], q_body = None, q_stream = False, q_credentials = None, q_cache = None\<rparr>" False]
  by simp

end
