(* ===== verification/Availability.thy ===== *)
theory Availability
  imports Machine
begin

text \<open>
  The offline detection of \<open>backend-availability.js\<close>: \<open>BackendAvailabilityMonitor\<close> and the hooks
  that feed it.

  The body of \<open>confirm\<close> is asynchronous; a confirmation is in one of the phases between its
  awaits, and \<open>Settling\<close> is the time between its return and its \<open>finally\<close> callback.
  \<open>queued\<close> counts the scheduled microtasks that call \<open>confirm\<close> again. The page may become
  hidden or visible, requests may succeed or fail, and the user may press retry at any time.
  Resolving a request target against the page URL is the parameter \<open>origin_of\<close>.
\<close>

datatype phase = Idle | Probe1 | Delaying | Probe2 | Settling

record monitor =
  pendingFailure :: bool
  offline :: bool
  overlay :: bool
  confirmation :: phase
  queued :: nat
  visible :: bool

definition monitor_start :: "bool \<Rightarrow> monitor" where
  "monitor_start v = \<lparr>pendingFailure = False, offline = False, overlay = False, confirmation = Idle,
     queued = 0, visible = v\<rparr>"

definition confirm :: "monitor \<Rightarrow> monitor" where
  "confirm s =
     (if confirmation s \<noteq> Idle then s
      else if \<not> visible s then s\<lparr>confirmation := Settling\<rparr>
      else s\<lparr>confirmation := Probe1\<rparr>)"

definition noteFailure :: "monitor \<Rightarrow> monitor" where
  "noteFailure s =
     (let s' = s\<lparr>pendingFailure := True\<rparr> in if visible s' then confirm s' else s')"

definition noteSuccess :: "monitor \<Rightarrow> monitor" where
  "noteSuccess s = s\<lparr>pendingFailure := False, offline := False, overlay := False\<rparr>"

definition resume :: "monitor \<Rightarrow> monitor" where
  "resume s =
     (if \<not> visible s \<or> (\<not> pendingFailure s \<and> \<not> offline s) then s
      else confirm (s\<lparr>pendingFailure := True\<rparr>))"

definition retry :: "monitor \<Rightarrow> monitor" where
  "retry s = confirm (s\<lparr>pendingFailure := True\<rparr>)"

text \<open>What follows the first and the second \<open>await this.runProbe()\<close>, and the delay between them.\<close>

definition after_probe1 :: "bool \<Rightarrow> monitor \<Rightarrow> monitor" where
  "after_probe1 ok s =
     (if ok then (noteSuccess s)\<lparr>confirmation := Settling\<rparr> else s\<lparr>confirmation := Delaying\<rparr>)"

definition after_delay :: "monitor \<Rightarrow> monitor" where
  "after_delay s =
     (if \<not> pendingFailure s \<or> \<not> visible s then s\<lparr>confirmation := Settling\<rparr>
      else s\<lparr>confirmation := Probe2\<rparr>)"

definition after_probe2 :: "bool \<Rightarrow> monitor \<Rightarrow> monitor" where
  "after_probe2 ok s =
     (if ok then (noteSuccess s)\<lparr>confirmation := Settling\<rparr>
      else if \<not> visible s then s\<lparr>confirmation := Settling\<rparr>
      else s\<lparr>pendingFailure := False, offline := True, overlay := True, confirmation := Settling\<rparr>)"

definition settle :: "monitor \<Rightarrow> monitor" where
  "settle s =
     s\<lparr>confirmation := Idle, queued := (if pendingFailure s \<and> visible s then Suc (queued s) else queued s)\<rparr>"

text \<open>\<open>isSameOriginRequest\<close>: the origin of the target, resolved against the page, is that of the page.\<close>

definition isSameOriginRequest :: "(string \<Rightarrow> string \<Rightarrow> string option) \<Rightarrow> string \<Rightarrow> string \<Rightarrow> bool" where
  "isSameOriginRequest origin_of target baseURL =
     (case origin_of baseURL baseURL of
        None \<Rightarrow> False
      | Some base \<Rightarrow> origin_of target baseURL = Some base)"

datatype fetch_result = Responded | NetworkFailure | OtherError

fun after_fetch :: "bool \<Rightarrow> fetch_result \<Rightarrow> monitor \<Rightarrow> monitor" where
  "after_fetch tracked Responded s = (if tracked then noteSuccess s else s)"
| "after_fetch tracked NetworkFailure s = (if tracked then noteFailure s else s)"
| "after_fetch tracked OtherError s = s"

datatype monitor_event =
    Fetch bool fetch_result
  | Visibility bool
  | ResumeHook
  | RetryClick
  | ProbeResult bool
  | DelayDone
  | Finally
  | Microtask

fun monitor_step :: "monitor_event \<Rightarrow> monitor \<Rightarrow> monitor option" where
  "monitor_step (Fetch tracked r) s = Some (after_fetch tracked r s)"
| "monitor_step (Visibility v) s = Some (resume (s\<lparr>visible := v\<rparr>))"
| "monitor_step ResumeHook s = Some (resume s)"
| "monitor_step RetryClick s = Some (retry s)"
| "monitor_step (ProbeResult ok) s =
     (if confirmation s = Probe1 then Some (after_probe1 ok s)
      else if confirmation s = Probe2 then Some (after_probe2 ok s) else None)"
| "monitor_step DelayDone s = (if confirmation s = Delaying then Some (after_delay s) else None)"
| "monitor_step Finally s = (if confirmation s = Settling then Some (settle s) else None)"
| "monitor_step Microtask s = (if queued s > 0 then Some (confirm (s\<lparr>queued := queued s - 1\<rparr>)) else None)"

section \<open>Correctness\<close>

lemmas monitor_defs = confirm_def noteFailure_def noteSuccess_def resume_def retry_def after_probe1_def
  after_delay_def after_probe2_def settle_def Let_def

definition monitor_inv :: "monitor \<Rightarrow> bool" where
  "monitor_inv s \<longleftrightarrow> overlay s = offline s \<and>
     (pendingFailure s \<and> visible s \<longrightarrow> confirmation s \<noteq> Idle \<or> queued s > 0)"

lemma monitor_step_inv [step_inv]: "monitor_inv s \<Longrightarrow> monitor_step e s = Some t \<Longrightarrow> monitor_inv t"
proof (cases e)
  case (Fetch tracked r)
  assume "monitor_inv s" "monitor_step e s = Some t"
  then show ?thesis using Fetch by (cases r) (auto simp: monitor_inv_def monitor_defs split: if_splits)
qed (auto simp: monitor_inv_def monitor_defs split: if_splits)

interpretation mon: machine monitor_step monitor_inv
  by unfold_locales (rule monitor_step_inv)

fun probe_results :: "monitor_event list \<Rightarrow> bool list" where
  "probe_results [] = []"
| "probe_results (ProbeResult ok # es) = ok # probe_results es"
| "probe_results (e # es) = probe_results es"

lemma probe_results_append [simp]: "probe_results (as @ bs) = probe_results as @ probe_results bs"
  by (induction as rule: probe_results.induct) auto

text \<open>While a confirmation is past its first probe, the last probe has failed.\<close>

lemma last_probe_failed:
  "run monitor_step es (monitor_start v) = Some s \<Longrightarrow> confirmation s \<in> {Delaying, Probe2} \<Longrightarrow>
   probe_results es \<noteq> [] \<and> \<not> last (probe_results es)"
proof (induction es arbitrary: s rule: rev_induct)
  case Nil
  then show ?case by (auto simp: monitor_start_def)
next
  case (snoc e es)
  then obtain u where u: "run monitor_step es (monitor_start v) = Some u" and e: "monitor_step e u = Some s"
    by (auto simp: run_append split: Option.bind_splits option.splits)
  show ?case
  proof (cases "\<exists>ok. e = ProbeResult ok")
    case True
    with e snoc.prems(2) show ?thesis by (auto simp: monitor_defs split: if_splits)
  next
    case False
    then have p: "probe_results (es @ [e]) = probe_results es" by (cases e) auto
    have "confirmation u \<in> {Delaying, Probe2}"
    proof (cases e)
      case (Fetch tracked r)
      with e snoc.prems(2) show ?thesis by (cases r) (auto simp: monitor_defs split: if_splits)
    qed (use e snoc.prems(2) False in \<open>auto simp: monitor_defs split: if_splits\<close>)
    with snoc.IH [OF u] p show ?thesis by simp
  qed
qed

text \<open>
  C28: the offline overlay is trustworthy. In every execution the overlay is shown exactly while the
  monitor is offline; it only ever appears at the failure of a probe while the page is visible, and
  then the last two probes have failed; a successful same-origin response removes it at once; and
  a failure noted while the page is visible is never forgotten, a confirmation is running or scheduled.
\<close>

theorem offline_only_when_confirmed:
  assumes "run monitor_step es (monitor_start v) = Some s"
  shows "overlay s = offline s \<and>
    (monitor_step e s = Some t \<and> overlay t \<and> \<not> overlay s \<longrightarrow>
       e = ProbeResult False \<and> visible s \<and>
       (\<exists>ps. probe_results (es @ [e]) = ps @ [False, False])) \<and>
    \<not> overlay (the (monitor_step (Fetch True Responded) s)) \<and>
    (pendingFailure s \<and> visible s \<longrightarrow> confirmation s \<noteq> Idle \<or> queued s > 0)"
proof -
  have i: "monitor_inv s" by (rule mon.inv_run [OF assms]) (simp add: monitor_inv_def monitor_start_def)
  have "e = ProbeResult False \<and> visible s \<and> confirmation s = Probe2"
    if "monitor_step e s = Some t" "overlay t" "\<not> overlay s"
  proof (cases e)
    case (Fetch tracked r)
    with that show ?thesis by (cases r) (auto simp: monitor_defs split: if_splits)
  qed (use that in \<open>auto simp: monitor_defs split: if_splits\<close>)
  moreover have "\<exists>ps. probe_results es @ [False] = ps @ [False, False]" if "confirmation s = Probe2"
  proof -
    have l: "probe_results es \<noteq> []" "\<not> last (probe_results es)"
      using last_probe_failed [OF assms] that by simp_all
    then have "probe_results es = butlast (probe_results es) @ [False]"
      using append_butlast_last_id [OF l(1)] by simp
    then have "probe_results es @ [False] = butlast (probe_results es) @ [False, False]" by simp
    then show ?thesis by blast
  qed
  ultimately show ?thesis using i by (auto simp: monitor_inv_def noteSuccess_def)
qed

definition sample_monitor_events :: "monitor_event list" where
  "sample_monitor_events = [Fetch True NetworkFailure, ProbeResult False, DelayDone]"

theorem offline_only_when_confirmed_witness:
  "overlay (the (run monitor_step (sample_monitor_events @ [ProbeResult False]) (monitor_start True))) \<and>
   (\<exists>ps. probe_results (sample_monitor_events @ [ProbeResult False]) = ps @ [False, False])"
proof -
  define s where "s = the (run monitor_step sample_monitor_events (monitor_start True))"
  have r: "run monitor_step sample_monitor_events (monitor_start True) = Some s"
    by (simp add: s_def sample_monitor_events_def monitor_defs monitor_start_def)
  have t: "monitor_step (ProbeResult False) s = Some (after_probe2 False s)" "overlay (after_probe2 False s)" "\<not> overlay s"
    by (simp_all add: s_def sample_monitor_events_def monitor_defs monitor_start_def)
  have "overlay (the (run monitor_step (sample_monitor_events @ [ProbeResult False]) (monitor_start True)))"
    using r t by (simp add: run_append)
  with offline_only_when_confirmed [OF r, of "ProbeResult False" "after_probe2 False s"] t show ?thesis by blast
qed

text \<open>
  A success noted while the second probe is in flight does not stop that probe: when the probe
  then fails, the overlay appears although a request has been answered since.
\<close>

theorem late_probe_overrides_success:
  "\<exists>s. run monitor_step (sample_monitor_events @ [Fetch True Responded, ProbeResult False]) (monitor_start True) = Some s \<and>
     overlay s"
  by (simp add: sample_monitor_events_def monitor_defs monitor_start_def)

end
