(* ===== verification/Components.thy ===== *)
theory Components
  imports Dom
begin

text \<open>
  The visual components of \<open>packages/renop-ui/js\<close>: factories built with \<open>el\<close> and custom
  elements that rebuild themselves from their attributes.

  A custom element is its host node. Setting an observed attribute runs \<open>render\<close> at once,
  whether or not the element is in the document, and inserting it into the document runs
  \<open>render\<close> again (\<open>connect\<close>). A render that assigns the class name, empties the host and
  appends new children is written as the new class and the new list of children; what it reads
  of the former children after emptying the host is read from the emptied host, as in the
  source. A text argument is a string, a node argument a node (\<open>content\<close>).
\<close>

section \<open>Custom elements\<close>

type_synonym 'a render = "'a node \<Rightarrow> 'a node"

definition observe :: "'a render \<Rightarrow> string list \<Rightarrow> string \<Rightarrow> string \<Rightarrow> 'a node \<Rightarrow> 'a node" where
  "observe render observed k v n =
     (let n' = setAttribute k v n in if k \<in> set observed then render n' else n')"

definition observe_if :: "'a render \<Rightarrow> string list \<Rightarrow> string \<Rightarrow> string \<Rightarrow> 'a node \<Rightarrow> 'a node" where
  "observe_if render observed k v n = (if v = [] then n else observe render observed k v n)"

definition connect :: "'a render \<Rightarrow> 'a node \<Rightarrow> 'a node" where
  "connect render n = render n"

datatype 'a content = NoContent | TextContent string | NodeContent "'a node"

text \<open>The first descendant with a property, in document order.\<close>

fun descendants :: "'a node \<Rightarrow> 'a node list" where
  "descendants (Elem t a s p l c) = concat (map (\<lambda>x. x # descendants x) c)"
| "descendants n = []"

definition find_slot :: "string \<Rightarrow> 'a node \<Rightarrow> 'a node option" where
  "find_slot name n = find (\<lambda>x. getAttribute ''slot'' x = Some name) (descendants n)"

definition add_slot :: "string \<Rightarrow> 'a node \<Rightarrow> 'a node \<Rightarrow> 'a node" where
  "add_slot name icon n = appendChild (el ''span'' [(''slot'', JStr name)] [CNode icon]) n"

definition div_class :: "string \<Rightarrow> 'a child list \<Rightarrow> 'a node" where
  "div_class c cs = el ''div'' [(''class'', JStr c)] cs"

text \<open>
  The icon wrapper most components share: an icon attribute starting with an angle bracket is
  markup; any other is ignored unless the (emptied) host has an icon slot.
\<close>

definition icon_div :: "string \<Rightarrow> string \<Rightarrow> 'a node \<Rightarrow> 'a node" where
  "icon_div cls icon emptied =
     (if starts_with ''<'' icon then setInnerHTML icon (div_class cls [])
      else (case find_slot ''icon'' emptied of
              Some slot \<Rightarrow> appendChild slot (div_class cls [])
            | None \<Rightarrow> div_class cls []))"

definition emptied :: "'a node \<Rightarrow> 'a node" where
  "emptied n = setInnerHTML [] n"

section \<open>Callout\<close>

definition callout_class :: "'a node \<Rightarrow> string" where
  "callout_class n = ''renop-callout renop-callout--'' @ attr_or ''type'' ''info'' n"

definition callout_body :: "'a node \<Rightarrow> 'a node list" where
  "callout_body n =
     (let icon = attr_or ''icon'' [] n; message = attr_or ''message'' [] n in
      (if icon = [] then []
       else [if starts_with ''<'' icon then setInnerHTML icon (div_class ''renop-callout-icon'' [])
             else setTextContent icon (div_class ''renop-callout-icon'' [])]) @
      [if message = [] then div_class ''renop-callout-text'' []
       else setTextContent message (div_class ''renop-callout-text'' [])])"

definition callout_render :: "'a render" where
  "callout_render n = replaceChildren (callout_body n) (setClassName (callout_class n) n)"

definition callout_observed :: "string list" where "callout_observed = [''type'', ''icon'', ''message'']"

definition createCallout :: "string \<Rightarrow> 'a content \<Rightarrow> 'a content \<Rightarrow> 'a node" where
  "createCallout type message icon =
     (let set = observe callout_render callout_observed;
          c1 = set ''type'' type (createElement ''renop-callout'');
          c2 = (case icon of
                  NoContent \<Rightarrow> c1
                | TextContent s \<Rightarrow> if s = [] then c1 else set ''icon'' s c1
                | NodeContent i \<Rightarrow> appendChild (div_class ''renop-callout-icon'' [CNode i]) c1)
      in case message of
           NoContent \<Rightarrow> c2
         | TextContent s \<Rightarrow> set ''message'' s c2
         | NodeContent m \<Rightarrow> appendChild (div_class ''renop-callout-text'' [CNode m]) c2)"

section \<open>Card\<close>

definition card_class :: "'a node \<Rightarrow> string" where "card_class n = ''renop-card''"

definition card_body :: "'a node \<Rightarrow> 'a node list" where
  "card_body n =
     (let icon = attr_or ''icon'' [] n; title = attr_or ''title'' [] n;
          description = attr_or ''description'' [] n; href = attr_or ''href'' [] n;
          content = div_class ''renop-card-content''
            [if icon = [] then CNull else CNode (icon_div ''renop-card-icon'' icon (emptied n)),
             CNode (div_class ''renop-card-text''
               [if title = [] then CNull else CNode (el ''h3'' [(''class'', JStr ''renop-card-title'')] [CStr title]),
                if description = [] then CNull
                else CNode (el ''p'' [(''class'', JStr ''renop-card-description'')] [CStr description])])]
      in if href = [] then [content]
         else [el ''a'' [(''href'', JStr href), (''class'', JStr ''renop-card-link'')] [CNode content]])"

definition card_render :: "'a render" where
  "card_render n = replaceChildren (card_body n) (setClassName (card_class n) n)"

definition card_observed :: "string list" where "card_observed = [''icon'', ''title'', ''description'', ''href'']"

definition icon_content :: "'a render \<Rightarrow> string list \<Rightarrow> 'a content \<Rightarrow> 'a node \<Rightarrow> 'a node" where
  "icon_content render observed icon n =
     (case icon of
        NoContent \<Rightarrow> n
      | TextContent s \<Rightarrow> observe_if render observed ''icon'' s n
      | NodeContent i \<Rightarrow> add_slot ''icon'' i n)"

definition createCard :: "string \<Rightarrow> string \<Rightarrow> string \<Rightarrow> 'a content \<Rightarrow> 'a node" where
  "createCard title description href icon =
     (let set = observe_if card_render card_observed in
      icon_content card_render card_observed icon
        (set ''href'' href (set ''description'' description (set ''title'' title (createElement ''renop-card'')))))"

section \<open>Statistic card\<close>

definition stat_class :: "'a node \<Rightarrow> string" where
  "stat_class n = ''renop-stat-card renop-stat-card--'' @ attr_or ''variant'' ''primary'' n"

definition stat_body :: "'a node \<Rightarrow> 'a node list" where
  "stat_body n =
     (let icon = attr_or ''icon'' [] n; label = attr_or ''label'' [] n; value = attr_or ''value'' ''-'' n;
          subtext = attr_or ''subtext'' [] n; valueId = attr_or ''value-id'' [] n;
          valueEl = div_class ''renop-stat-value'' [CStr value]
      in (if icon = [] then [] else [icon_div ''renop-stat-icon'' icon (emptied n)]) @
         [div_class ''renop-stat-content''
            [CNode (div_class ''renop-stat-label'' [CStr label]),
             CNode (if valueId = [] then valueEl else setAttribute ''id'' valueId valueEl),
             if subtext = [] then CNull else CNode (div_class ''renop-stat-subtext'' [CStr subtext])]])"

definition stat_render :: "'a render" where
  "stat_render n = replaceChildren (stat_body n) (setClassName (stat_class n) n)"

definition stat_observed :: "string list" where
  "stat_observed = [''icon'', ''label'', ''value'', ''subtext'', ''variant'', ''value-id'']"

definition createStatCard ::
  "string \<Rightarrow> string \<Rightarrow> string \<Rightarrow> string \<Rightarrow> string \<Rightarrow> 'a content \<Rightarrow> 'a node" where
  "createStatCard label value subtext variant valueId icon =
     (let set = observe_if stat_render stat_observed in
      icon_content stat_render stat_observed icon
        (set ''value-id'' valueId (set ''variant'' variant (set ''subtext'' subtext (set ''value'' value
          (set ''label'' label (createElement ''renop-stat-card'')))))))"

section \<open>Section\<close>

definition section_class :: "'a node \<Rightarrow> string" where "section_class n = ''renop-section''"

definition section_body :: "'a node \<Rightarrow> 'a node list" where
  "section_body n =
     (let icon = attr_or ''icon'' [] n; title = attr_or ''title'' [] n; subtitle = attr_or ''subtitle'' [] n in
      [div_class ''renop-section-header''
         [CNode (if icon = [] then div_class ''renop-section-icon'' []
                 else icon_div ''renop-section-icon'' icon (emptied n)),
          CNode (div_class ''renop-section-meta''
            [CNode (el ''h3'' [(''class'', JStr ''renop-section-title'')] [CStr title]),
             if subtitle = [] then CNull else CNode (el ''p'' [(''class'', JStr ''renop-section-subtitle'')] [CStr subtitle])])],
       div_class ''renop-section-fields'' []])"

definition section_render :: "'a render" where
  "section_render n = replaceChildren (section_body n) (setClassName (section_class n) n)"

definition section_observed :: "string list" where "section_observed = [''icon'', ''title'', ''subtitle'']"

definition createSection :: "string \<Rightarrow> string \<Rightarrow> 'a content \<Rightarrow> 'a node" where
  "createSection title subtitle icon =
     (let set = observe_if section_render section_observed in
      icon_content section_render section_observed icon
        (set ''subtitle'' subtitle (set ''title'' title (createElement ''renop-section''))))"

section \<open>Empty state\<close>

definition empty_class :: "'a node \<Rightarrow> string" where "empty_class n = ''renop-empty-state''"

definition empty_body :: "'a node \<Rightarrow> 'a node list" where
  "empty_body n =
     (let message = attr_or ''message'' [] n; icon = attr_or ''icon'' [] n; subtext = attr_or ''subtext'' [] n in
      (if icon = [] then []
       else [div_class ''empty-state-icon''
               [if starts_with ''<'' icon then CNode (el ''span'' [(''innerHTML'', JStr icon)] []) else CStr icon]]) @
      (if message = [] then [] else [div_class ''empty-state-message'' [CStr message]]) @
      (if subtext = [] then [] else [div_class ''empty-state-subtext'' [CStr subtext]]))"

definition empty_render :: "'a render" where
  "empty_render n = replaceChildren (empty_body n) (setClassName (empty_class n) n)"

definition empty_observed :: "string list" where "empty_observed = [''message'', ''icon'', ''subtext'']"

definition createEmptyState :: "string \<Rightarrow> 'a content \<Rightarrow> string \<Rightarrow> 'a node" where
  "createEmptyState message icon subtext =
     (let set = observe_if empty_render empty_observed;
          e1 = set ''message'' message (createElement ''renop-empty-state'');
          e2 = (case icon of NoContent \<Rightarrow> e1 | TextContent s \<Rightarrow> set ''icon'' s e1 | NodeContent i \<Rightarrow> appendChild i e1)
      in set ''subtext'' subtext e2)"

section \<open>Subsection header\<close>

text \<open>Children other than the rebuilt left part are kept, behind it.\<close>

definition sub_extra :: "'a node \<Rightarrow> 'a node list" where
  "sub_extra n = filter (\<lambda>x. \<not> (is_Elem x \<and> has_class ''renop-sub-header-left'' x)) (children n)"

definition sub_left :: "'a node \<Rightarrow> 'a node" where
  "sub_left n =
     (let icon = attr_or ''icon'' [] n; title = attr_or ''title'' [] n in
      div_class ''renop-sub-header-left''
        [if icon = [] then CNull else CNode (icon_div ''renop-sub-header-icon'' icon (emptied n)),
         if title = [] then CNull else CNode (el ''span'' [(''class'', JStr ''renop-sub-header-title'')] [CStr title])])"

definition sub_render :: "'a render" where
  "sub_render n = replaceChildren (sub_left n # sub_extra n) (setClassName ''renop-sub-header'' n)"

definition sub_observed :: "string list" where "sub_observed = [''icon'', ''title'']"

definition createSubHeader :: "'a content \<Rightarrow> string \<Rightarrow> 'a node option \<Rightarrow> 'a node" where
  "createSubHeader icon title action =
     (let h = icon_content sub_render sub_observed icon
                (observe_if sub_render sub_observed ''title'' title (createElement ''renop-sub-header''))
      in case action of None \<Rightarrow> h | Some a \<Rightarrow> appendChild a h)"

section \<open>Badges, alerts, spinners\<close>

definition badge_render :: "'a render" where
  "badge_render n =
     (let type = attr_or ''type'' ''none'' n; text = attr_or ''text'' (textContent n) n in
      setTextContent text (setClassName (''permission-badge badge-'' @ type) n))"

definition createBadge :: "string \<Rightarrow> string \<Rightarrow> string \<Rightarrow> string \<Rightarrow> 'a node" where
  "createBadge text type title cls =
     (let set = observe badge_render [''type'', ''text''];
          b = set ''text'' text (set ''type'' type (createElement ''renop-badge''));
          b = (if title = [] then b else setAttribute ''title'' title b)
      in if cls = [] then b else fold class_add (split_on CHR '' '' cls) b)"

definition code_style :: "(string \<times> string) list" where
  "code_style = [(''fontFamily'', ''monospace''), (''background'', ''var(--bg-color)''), (''padding'', ''0.2rem 0.4rem''),
     (''borderRadius'', ''4px''), (''border'', ''1px solid var(--border-color)''), (''fontSize'', ''0.85rem'')]"

definition code_badge_render :: "'a render" where
  "code_badge_render n =
     replaceChildren [el ''code'' [(''style'', JObj code_style)] [CStr (attr_or ''code'' (textContent n) n)]] n"

definition createCodeBadge :: "string \<Rightarrow> 'a node" where
  "createCodeBadge code = observe code_badge_render [''code''] ''code'' code (createElement ''renop-code-badge'')"

text \<open>The alert moves the content of its slots; without a close icon it shows a multiplication sign.\<close>

definition slot_children :: "string \<Rightarrow> 'a node \<Rightarrow> 'a node list" where
  "slot_children name n = (case find_slot name n of None \<Rightarrow> [] | Some slot \<Rightarrow> children slot)"

definition times_sign :: string where "times_sign = [CHR 0xC3, CHR 0x97]"

definition alert_render :: "'a \<Rightarrow> 'a render" where
  "alert_render dismiss n =
     (let type = attr_or ''type'' ''info'' n; message = attr_or ''message'' [] n;
          closeBtn = el ''button'' [(''class'', JStr ''alert-close''), (''type'', JStr ''button''), (''ariaLabel'', JStr ''Close'')] [];
          closeBtn = (if slot_children ''close-icon'' n = [] then setTextContent times_sign closeBtn
                      else fold appendChild (slot_children ''close-icon'' n) closeBtn)
      in replaceChildren
           [fold appendChild (slot_children ''icon'' n) (div_class ''alert-icon'' []),
            div_class ''alert-content'' [CNode (el ''span'' [(''class'', JStr ''alert-message'')] [CStr message])],
            set_raw_prop ''onclick'' (JFun dismiss) closeBtn,
            div_class ''alert-progress'' [CNode (div_class ''alert-progress-bar'' [])]]
           (setClassName (''alert alert-'' @ type) n))"

text \<open>\<open>attributeChangedCallback\<close> of the alert renders only when the value changed.\<close>

definition alert_set :: "'a \<Rightarrow> string \<Rightarrow> string \<Rightarrow> 'a node \<Rightarrow> 'a node" where
  "alert_set dismiss k v n =
     (if k \<in> {''type'', ''message''} \<and> getAttribute k n \<noteq> Some v then alert_render dismiss (setAttribute k v n)
      else setAttribute k v n)"

definition createAlert :: "'a \<Rightarrow> string \<Rightarrow> string \<Rightarrow> 'a node option \<Rightarrow> 'a node option \<Rightarrow> 'a node" where
  "createAlert dismiss message type icon closeIcon =
     (let a = alert_set dismiss ''message'' message (alert_set dismiss ''type'' type (createElement ''renop-alert''));
          a = (case icon of None \<Rightarrow> a | Some i \<Rightarrow> add_slot ''icon'' i a)
      in case closeIcon of None \<Rightarrow> a | Some i \<Rightarrow> add_slot ''close-icon'' i a)"

definition createLoadingSpinner :: "'a node" where
  "createLoadingSpinner = el ''div'' [(''class'', JStr ''sessions-loading-spinner''), (''aria-hidden'', JStr ''true'')] []"

definition createLoadingState :: "string \<Rightarrow> string \<Rightarrow> 'a node" where
  "createLoadingState label containerClass =
     div_class (or_else containerClass ''loading-state'')
       [CNode createLoadingSpinner, CNode (el ''span'' [] [CStr label])]"

record 'a button_props =
  bp_type :: string
  bp_class :: string
  bp_id :: string
  bp_title :: string
  bp_disabled :: bool
  bp_style :: "'a jsval"
  bp_icon :: "'a node option"
  bp_onClick :: "'a option"

definition createButton :: "'a content \<Rightarrow> 'a button_props \<Rightarrow> 'a node" where
  "createButton text p =
     (let as = [(''type'', JStr (or_else (bp_type p) ''button'')),
                (''class'', JStr (or_else (bp_class p) ''pill-btn pill-btn--primary''))] @
               (if bp_id p = [] then [] else [(''id'', JStr (bp_id p))]) @
               (if bp_title p = [] then [] else [(''title'', JStr (bp_title p))]) @
               (if bp_disabled p then [(''disabled'', JBool True)] else []) @
               (if truthy (bp_style p) then [(''style'', bp_style p)] else []);
          label = (case text of
                     NoContent \<Rightarrow> []
                   | TextContent s \<Rightarrow> if s = [] then [] else [CNode (Text ((if bp_icon p = None then [] else '' '') @ s))]
                   | NodeContent n \<Rightarrow> [CNode n]);
          btn = el ''button'' as ((case bp_icon p of None \<Rightarrow> [] | Some i \<Rightarrow> [CNode i]) @ label)
      in case bp_onClick p of None \<Rightarrow> btn | Some f \<Rightarrow> addEventListener ''click'' f btn)"

record 'a meta_item =
  mi_label :: string
  mi_value :: "'a content"
  mi_isCode :: bool
  mi_colon :: bool

definition full_colon :: string where "full_colon = [CHR 0xEF, CHR 0xBC, CHR 0x9A]"

definition content_child :: "'a content \<Rightarrow> 'a child" where
  "content_child c = (case c of NoContent \<Rightarrow> CNull | TextContent s \<Rightarrow> CStr s | NodeContent n \<Rightarrow> CNode n)"

definition meta_row :: "'a meta_item \<Rightarrow> 'a node" where
  "meta_row item =
     el ''div'' []
       [CNode (el ''strong'' [(''class'', JStr ''modal-meta-label'')]
          [CStr (mi_label item @ (if mi_colon item then full_colon else []))]),
        CNode (if mi_isCode item then el ''code'' [(''class'', JStr ''code-badge'')] [content_child (mi_value item)]
               else el ''span'' [(''class'', JStr ''modal-meta-value'')]
                 [case mi_value item of NodeContent n \<Rightarrow> CNode n | TextContent s \<Rightarrow> CStr s | NoContent \<Rightarrow> CStr []])]"

definition createMetaGrid :: "'a meta_item option list \<Rightarrow> 'a node" where
  "createMetaGrid items =
     fold appendChild (List.map_filter (map_option meta_row) items) (createElement ''renop-meta-grid'')"

section \<open>Skeletons, language cards, navigation controls\<close>

definition bone :: "(string \<times> string) list \<Rightarrow> 'a node" where
  "bone st = el ''div'' [(''class'', JStr ''skeleton-bone''), (''style'', JObj st)] []"

definition flex_row :: "(string \<times> string) list \<Rightarrow> 'a node list \<Rightarrow> 'a node" where
  "flex_row st cs = el ''div'' [(''style'', JObj st)] (map CNode cs)"

definition form_row_style :: "(string \<times> string) list" where
  "form_row_style = [(''display'', ''flex''), (''gap'', ''1rem''), (''alignItems'', ''center''), (''marginBottom'', ''1rem'')]"

definition wide_bone :: "'a node" where
  "wide_bone = bone [(''flex'', ''1''), (''height'', ''38px''), (''borderRadius'', ''8px'')]"

definition skeleton_children :: "string \<Rightarrow> 'a node list" where
  "skeleton_children type =
     (if type = ''form'' then
        [bone [(''width'', ''30%''), (''height'', ''22px''), (''marginBottom'', ''1.25rem'')],
         flex_row form_row_style [bone [(''width'', ''25%''), (''height'', ''16px'')], wide_bone],
         flex_row form_row_style [bone [(''width'', ''25%''), (''height'', ''16px'')], wide_bone]]
      else if type = ''repo'' then
        [flex_row [(''display'', ''flex''), (''alignItems'', ''center''), (''gap'', ''12px''), (''marginBottom'', ''1.2rem'')]
           [bone [(''width'', ''42px''), (''height'', ''42px''), (''borderRadius'', ''10px'')],
            flex_row [(''flex'', ''1'')]
              [bone [(''width'', ''140px''), (''height'', ''20px''), (''marginBottom'', ''6px'')],
               bone [(''width'', ''100px''), (''height'', ''14px'')]]],
         flex_row form_row_style [bone [(''width'', ''20%''), (''height'', ''16px'')], wide_bone]]
      else if type = ''table'' then
        [flex_row [(''display'', ''flex''), (''gap'', ''1rem''), (''alignItems'', ''center''), (''padding'', ''0.5rem 0'')]
           [bone [(''width'', ''40px''), (''height'', ''40px''), (''borderRadius'', ''50%'')],
            bone [(''width'', ''30%''), (''height'', ''18px'')],
            bone [(''flex'', ''1''), (''height'', ''24px''), (''borderRadius'', ''6px'')]]]
      else
        [bone [(''width'', ''40%''), (''height'', ''20px''), (''marginBottom'', ''1rem'')],
         bone [(''width'', ''100%''), (''height'', ''60px''), (''borderRadius'', ''6px'')]])"

text \<open>
  \<open>parseInt\<close> reads the leading digits of the attribute; without any the loop does not run.
  \<open>delay i\<close> is the text of the number \<open>i * 0.04\<close>.
\<close>

definition skeleton_count :: "'a node \<Rightarrow> nat" where
  "skeleton_count n = (case read_nat (takeWhile is_digit (attr_or ''count'' ''2'' n)) of None \<Rightarrow> 0 | Some k \<Rightarrow> k)"

definition skeleton_class :: "'a node \<Rightarrow> string" where "skeleton_class n = ''renop-skeleton-wrapper''"

definition skeleton_body :: "(nat \<Rightarrow> string) \<Rightarrow> 'a node \<Rightarrow> 'a node list" where
  "skeleton_body delay n =
     map (\<lambda>i. fold appendChild (skeleton_children (attr_or ''type'' ''form'' n))
            (setStyle ''animationDelay'' (delay i @ ''s'') (setClassName ''skeleton-loader-card'' (createElement ''div''))))
       [0..<skeleton_count n]"

definition skeleton_render :: "(nat \<Rightarrow> string) \<Rightarrow> 'a render" where
  "skeleton_render delay n = replaceChildren (skeleton_body delay n) (setClassName (skeleton_class n) n)"

definition createSkeleton :: "(nat \<Rightarrow> string) \<Rightarrow> string \<Rightarrow> nat \<Rightarrow> 'a node" where
  "createSkeleton delay type count =
     (let set = observe (skeleton_render delay) [''type'', ''count''] in
      set ''count'' (show_nat count) (set ''type'' type (createElement ''renop-skeleton'')))"

definition upper_char :: "char \<Rightarrow> char" where
  "upper_char c = (let n = (of_char c :: nat) in if 97 \<le> n \<and> n \<le> 122 then char_of (n - 32) else c)"

definition langShortCode :: "string \<Rightarrow> string" where
  "langShortCode code = map upper_char (take 3 (or_else (hd (split_on CHR ''-'' code)) code))"

definition createLangCardCheckSvg :: "'a node" where
  "createLangCardCheckSvg =
     svg ''svg'' [(''class'', ''lang-card-check''), (''viewBox'', ''0 0 24 24''), (''fill'', ''none''),
       (''stroke'', ''currentColor''), (''stroke-width'', ''2.5''), (''stroke-linecap'', ''round''),
       (''stroke-linejoin'', ''round''), (''aria-hidden'', ''true'')]
       [svg ''polyline'' [(''points'', ''20 6 9 17 4 12'')] []]"

definition fillLangCardBody :: "string \<Rightarrow> string \<Rightarrow> string \<Rightarrow> 'a node \<Rightarrow> 'a node" where
  "fillLangCardBody code name sub host =
     replaceChildren
       [div_class ''lang-card-left''
          [CNode (el ''span'' [(''class'', JStr ''lang-code-badge'')] [CStr (langShortCode code)]),
           CNode (div_class ''lang-card-info''
             [CNode (el ''span'' [(''class'', JStr ''lang-card-name'')] [CStr (or_else name code)]),
              CNode (el ''span'' [(''class'', JStr ''lang-card-sub'')] [CStr sub])])],
        createLangCardCheckSvg] host"

text \<open>A button is activated by its click; any other host also by the keyboard.\<close>

definition bindLangCardActivate :: "'a option \<Rightarrow> 'a node \<Rightarrow> 'a node" where
  "bindLangCardActivate onClick host =
     (case onClick of
        None \<Rightarrow> host
      | Some f \<Rightarrow>
          (let c = addEventListener ''click'' f host in
           if is_Elem host \<and> tag host \<noteq> ''button'' then addEventListener ''keydown'' f c else c))"

definition createLangCard :: "string \<Rightarrow> string \<Rightarrow> string \<Rightarrow> bool \<Rightarrow> 'a option \<Rightarrow> 'a node" where
  "createLangCard code name sub active onClick =
     bindLangCardActivate onClick (fillLangCardBody code name sub
       (el ''button'' [(''type'', JStr ''button''), (''class'', JStr (''lang-card'' @ (if active then '' active'' else []))),
          (''data-lang'', JStr code)] []))"

definition lang_card_render :: "'a render" where
  "lang_card_render n =
     (let code = attr_or ''code'' [] n; name = attr_or ''name'' [] n; sub = attr_or ''sub'' [] n in
      fillLangCardBody code name sub
        (setAttribute ''tabindex'' ''0'' (setAttribute ''role'' ''button'' (setAttribute ''data-lang'' code
          (setClassName (''lang-card'' @ (if getAttribute ''active'' n \<noteq> None then '' active'' else [])) n)))))"

definition svg_frame :: "string \<Rightarrow> string \<Rightarrow> string \<Rightarrow> 'a node list \<Rightarrow> 'a node" where
  "svg_frame cls sz sw cs =
     svg ''svg'' [(''aria-hidden'', ''true''), (''class'', cls), (''fill'', ''none''), (''height'', sz),
       (''stroke'', ''currentColor''), (''stroke-linecap'', ''round''), (''stroke-linejoin'', ''round''),
       (''stroke-width'', sw), (''viewBox'', ''0 0 24 24''), (''width'', sz)] cs"

definition line :: "string \<Rightarrow> string \<Rightarrow> string \<Rightarrow> string \<Rightarrow> 'a node" where
  "line x1 x2 y1 y2 = svg ''line'' [(''x1'', x1), (''x2'', x2), (''y1'', y1), (''y2'', y2)] []"

definition circle :: "string \<Rightarrow> 'a node" where
  "circle r = svg ''circle'' [(''cx'', ''12''), (''cy'', ''12''), (''r'', r)] []"

definition createLangButton :: "'a node" where
  "createLangButton =
     el ''button'' [(''aria-label'', JStr ''Select language''), (''class'', JStr ''lang-btn''),
       (''data-i18n-aria-label'', JStr ''language.selectTitle''), (''data-i18n-title'', JStr ''language.selectTitle''),
       (''id'', JStr ''lang-btn''), (''title'', JStr ''Select Language''), (''type'', JStr ''button'')]
       [CNode (svg_frame ''lang-icon'' ''16'' ''2''
          [circle ''10'', line ''2'' ''22'' ''12'' ''12'',
           svg ''path'' [(''d'', ''M12 2a15.3 15.3 0 0 1 4 10 15.3 15.3 0 0 1-4 10 15.3 15.3 0 0 1-4-10 15.3 15.3 0 0 1 4-10z'')] []]),
        CNode (el ''span'' [(''class'', JStr ''current-lang-name''), (''id'', JStr ''current-lang-name'')] [CStr ''English'']),
        CNode (svg_frame ''chevron-icon'' ''14'' ''2'' [svg ''polyline'' [(''points'', ''6 9 12 15 18 9'')] []])]"

definition createThemeToggle :: "'a node" where
  "createThemeToggle =
     el ''button'' [(''aria-label'', JStr ''Toggle theme''), (''class'', JStr ''theme-btn''),
       (''data-i18n-aria-label'', JStr ''nav.toggleTheme''), (''data-i18n-title'', JStr ''nav.toggleTheme''),
       (''id'', JStr ''theme-toggle''), (''title'', JStr ''Toggle Theme''), (''type'', JStr ''button'')]
       [CNode (svg_frame ''theme-icon sun-icon'' ''16'' ''2.2''
          [circle ''5'', line ''12'' ''12'' ''1'' ''3'', line ''12'' ''12'' ''21'' ''23'',
           line ''4.22'' ''5.64'' ''4.22'' ''5.64'', line ''18.36'' ''19.78'' ''18.36'' ''19.78'',
           line ''1'' ''3'' ''12'' ''12'', line ''21'' ''23'' ''12'' ''12'',
           line ''4.22'' ''5.64'' ''19.78'' ''18.36'', line ''18.36'' ''19.78'' ''5.64'' ''4.22'']),
        CNode (svg_frame ''theme-icon moon-icon'' ''16'' ''2.2''
          [svg ''path'' [(''d'', ''M21 12.79A9 9 0 1 1 11.21 3 7 7 0 0 0 21 12.79z'')] []])]"

definition createNavDivider :: "string option \<Rightarrow> 'a node" where
  "createNavDivider i = el ''div'' [(''id'', case i of None \<Rightarrow> JNull | Some x \<Rightarrow> JStr x), (''aria-hidden'', JStr ''true''),
     (''class'', JStr ''divider'')] []"

definition createNavControls :: "string option \<Rightarrow> string option \<Rightarrow> 'a node list \<Rightarrow> 'a node" where
  "createNavControls dividerId groupId trailing =
     el ''div'' [(''class'', JStr ''nav-controls-group''), (''id'', case groupId of None \<Rightarrow> JNull | Some x \<Rightarrow> JStr x)]
       ([CNode createLangButton, CNode createThemeToggle, CNode (createNavDivider dividerId)] @ map CNode trailing)"

section \<open>The toggle\<close>

text \<open>The attributes of the host, the input it owns once rendered, and the change events it has dispatched.\<close>

record toggle =
  tg_checked :: bool
  tg_disabled :: bool
  tg_rendered :: bool
  tg_input_checked :: bool
  tg_input_disabled :: bool
  tg_changes :: "bool list"

definition toggle_render :: "toggle \<Rightarrow> toggle" where
  "toggle_render t = t\<lparr>tg_rendered := True, tg_input_checked := tg_checked t, tg_input_disabled := tg_disabled t\<rparr>"

definition toggle_set_attr :: "bool \<Rightarrow> toggle \<Rightarrow> toggle" where
  "toggle_set_attr b t = (if b \<or> tg_checked t then toggle_render (t\<lparr>tg_checked := b\<rparr>) else t)"

definition toggle_set_checked :: "bool \<Rightarrow> toggle \<Rightarrow> toggle" where
  "toggle_set_checked val t =
     (let t' = toggle_set_attr val t in if tg_rendered t' then t'\<lparr>tg_input_checked := val\<rparr> else t')"

definition toggle_get_checked :: "toggle \<Rightarrow> bool" where
  "toggle_get_checked t = (if tg_rendered t then tg_input_checked t else tg_checked t)"

definition toggle_user_change :: "bool \<Rightarrow> toggle \<Rightarrow> toggle" where
  "toggle_user_change b t =
     (let t' = toggle_set_attr b (t\<lparr>tg_input_checked := b\<rparr>) in t'\<lparr>tg_changes := tg_changes t' @ [tg_input_checked t']\<rparr>)"

definition createToggle :: "bool \<Rightarrow> toggle" where
  "createToggle checked =
     (let t = \<lparr>tg_checked = False, tg_disabled = False, tg_rendered = False, tg_input_checked = False,
               tg_input_disabled = False, tg_changes = []\<rparr>
      in if checked then toggle_set_attr True t else t)"

lemma toggle_roundtrip:
  "toggle_get_checked (toggle_set_checked v t) = v"
  "toggle_get_checked (createToggle v) = v"
  "tg_rendered t \<Longrightarrow> toggle_get_checked (toggle_user_change v t) = v \<and>
     tg_changes (toggle_user_change v t) = tg_changes t @ [v]"
  by (auto simp: toggle_get_checked_def toggle_set_checked_def toggle_set_attr_def toggle_render_def Let_def
      createToggle_def toggle_user_change_def)

section \<open>Rendering from attributes\<close>

text \<open>
  The contract of an attribute-driven element: its class and its children depend on its
  attributes other than the class, not on what it showed before.
\<close>

locale attribute_driven =
  fixes cls :: "'a node \<Rightarrow> string" and body :: "'a node \<Rightarrow> 'a node list" and render :: "'a node \<Rightarrow> 'a node"
  assumes render_eq: "render n = replaceChildren (body n) (setClassName (cls n) n)"
    and cls_stable: "is_Elem n \<Longrightarrow> cls (replaceChildren c (setClassName x n)) = cls n"
    and body_stable: "is_Elem n \<Longrightarrow> body (replaceChildren c (setClassName x n)) = body n"
begin

lemma render_idem: "is_Elem n \<Longrightarrow> render (render n) = render n"
proof -
  assume n: "is_Elem n"
  have set2: "setClassName x (replaceChildren c (setClassName x n)) = replaceChildren c (setClassName x n)" for c x
  proof -
    have "assign k v (assign k v as) = assign k v as" for k v and as :: "(string \<times> string) list" by (induction as) auto
    with n show ?thesis by (cases n) (simp_all add: setClassName_def)
  qed
  have "render (render n) = replaceChildren (body n) (setClassName (cls n) (replaceChildren (body n) (setClassName (cls n) n)))"
    using cls_stable [OF n] body_stable [OF n] by (simp add: render_eq)
  also have "\<dots> = render n" unfolding set2 render_eq using n by (cases n) (simp_all add: setClassName_def)
  finally show ?thesis .
qed

lemma render_forgets_children: "is_Elem n \<Longrightarrow> children (render (replaceChildren c n)) = children (render n)"
proof -
  assume n: "is_Elem n"
  have "body (replaceChildren c n) = body (replaceChildren [] (setClassName [] (replaceChildren c n)))"
    using body_stable [of "replaceChildren c n" "[]" "[]"] n by simp
  also have "\<dots> = body (replaceChildren [] (setClassName [] n))"
    using n by (cases n) (simp_all add: setClassName_def)
  also have "\<dots> = body n" using body_stable [OF n] by simp
  finally show ?thesis using n by (simp add: render_eq setClassName_def)
qed

end

lemma getAttribute_setClassName [simp]: "is_Elem n \<Longrightarrow> k \<noteq> ''class'' \<Longrightarrow> getAttribute k (setClassName x n) = getAttribute k n"
  by (simp add: setClassName_def)

lemma attr_or_rebuilt [simp]:
  "is_Elem n \<Longrightarrow> k \<noteq> ''class'' \<Longrightarrow> attr_or k d (replaceChildren c (setClassName x n)) = attr_or k d n"
proof -
  assume n: "is_Elem n" and k: "k \<noteq> ''class''"
  then show ?thesis by (simp add: attr_or_def)
qed

lemma find_slot_emptied [simp]: "find_slot s (emptied n) = None"
  by (cases n) (simp_all add: find_slot_def emptied_def setInnerHTML_def)

lemma icon_div_emptied: "icon_div c i (emptied n) =
    (if starts_with ''<'' i then setInnerHTML i (div_class c []) else div_class c [])"
  by (simp add: icon_div_def)

interpretation callout: attribute_driven callout_class callout_body callout_render
  by unfold_locales (simp_all add: callout_render_def callout_class_def callout_body_def)

interpretation cardi: attribute_driven card_class card_body card_render
  by unfold_locales (simp_all add: card_render_def card_class_def card_body_def icon_div_emptied Let_def)

interpretation stat: attribute_driven stat_class stat_body stat_render
  by unfold_locales (simp_all add: stat_render_def stat_class_def stat_body_def icon_div_emptied Let_def)

interpretation sec: attribute_driven section_class section_body section_render
  by unfold_locales (simp_all add: section_render_def section_class_def section_body_def icon_div_emptied Let_def)

interpretation empt: attribute_driven empty_class empty_body empty_render
  by unfold_locales (simp_all add: empty_render_def empty_class_def empty_body_def)

interpretation skel: attribute_driven skeleton_class "skeleton_body delay" "skeleton_render delay"
  for delay :: "nat \<Rightarrow> string"
  by unfold_locales (simp_all add: skeleton_render_def skeleton_class_def skeleton_body_def skeleton_count_def)

text \<open>
  the attribute-driven elements can be rendered as often as the browser likes. Rendering a
  second time (on reconnection, or when an attribute is set to the value it has) changes nothing.
\<close>

theorem components_render_idempotent:
  assumes "is_Elem n"
  shows "callout_render (callout_render n) = callout_render n \<and> card_render (card_render n) = card_render n \<and>
    stat_render (stat_render n) = stat_render n \<and> section_render (section_render n) = section_render n \<and>
    empty_render (empty_render n) = empty_render n \<and>
    skeleton_render delay (skeleton_render delay n) = skeleton_render delay n"
  using callout.render_idem [OF assms] cardi.render_idem [OF assms] stat.render_idem [OF assms]
    sec.render_idem [OF assms] empt.render_idem [OF assms] skel.render_idem [OF assms]
  by (intro conjI)

theorem components_render_idempotent_witness:
  "callout_render (callout_render (createElement ''renop-callout'' :: string node)) = callout_render (createElement ''renop-callout'')"
  using components_render_idempotent [of "createElement ''renop-callout'' :: string node" "\<lambda>i. []"] by simp

section \<open>Where markup can come from\<close>

lemma plain_div_class [simp]: "list_all plain_child cs \<Longrightarrow> plain (div_class c cs)"
  by (simp add: div_class_def)

text \<open>An icon attribute that is not markup.\<close>

definition text_icon :: "'a node \<Rightarrow> bool" where
  "text_icon n \<longleftrightarrow> \<not> starts_with ''<'' (attr_or ''icon'' [] n)"

lemma plain_rebuild: "is_Elem n \<Longrightarrow> list_all plain cs \<Longrightarrow> plain (replaceChildren cs (setClassName x n))"
  by (cases n) (simp_all add: setClassName_def)

lemma plain_icon_div: "\<not> starts_with ''<'' i \<Longrightarrow> plain (icon_div c i (emptied n))"
  by (simp add: icon_div_emptied)

lemma plain_fold_append: "list_all plain cs \<Longrightarrow> plain n \<Longrightarrow> plain (fold appendChild cs n)"
  by (rule plain_fold) (auto simp: list_all_iff)

lemma plain_skeleton_children: "list_all plain (skeleton_children ty)"
  by (simp add: skeleton_children_def bone_def flex_row_def wide_bone_def)

text \<open>
  attributes are shown as text. Whatever an element showed before and whatever its title,
  message, label, value or description contains, the rendered element has no parsed markup unless
  its icon attribute starts with an angle bracket; the other components never have any.
\<close>

theorem components_show_text:
  assumes "is_Elem n"
  shows "(text_icon n \<longrightarrow> plain (callout_render n) \<and> plain (card_render n) \<and> plain (stat_render n) \<and>
      plain (section_render n) \<and> plain (empty_render n)) \<and>
    plain (badge_render n) \<and> plain (code_badge_render n) \<and> plain (skeleton_render delay n) \<and>
    plain (lang_card_render n) \<and> plain (createLangCard code name sub active f :: 'b node) \<and>
    plain (createLoadingState label cls :: 'b node) \<and> plain (createNavControls d g [] :: 'b node)"
proof (intro conjI impI)
  assume i: "text_icon n"
  show "plain (callout_render n)"
    unfolding callout_render_def using assms i
    by (intro plain_rebuild) (auto simp: callout_body_def Let_def text_icon_def)
  show "plain (card_render n)"
    unfolding card_render_def using assms i
    by (intro plain_rebuild) (auto simp: card_body_def Let_def text_icon_def plain_icon_div)
  show "plain (stat_render n)"
    unfolding stat_render_def using assms i
    by (intro plain_rebuild) (auto simp: stat_body_def Let_def text_icon_def plain_icon_div)
  show "plain (section_render n)"
    unfolding section_render_def using assms i
    by (intro plain_rebuild) (auto simp: section_body_def Let_def text_icon_def plain_icon_div)
  show "plain (empty_render n)"
    unfolding empty_render_def using assms i
    by (intro plain_rebuild) (auto simp: empty_body_def Let_def text_icon_def)
next
  show "plain (badge_render n)"
    using plain_rebuild [OF assms] by (simp add: badge_render_def Let_def setTextContent_def)
  show "plain (code_badge_render n)"
    using assms by (cases n) (simp_all add: code_badge_render_def)
  show "plain (skeleton_render delay n)"
    unfolding skeleton_render_def using assms
    by (intro plain_rebuild)
      (auto simp: skeleton_body_def list_all_iff setClassName_def intro!: plain_fold_append [unfolded list_all_iff]
        dest: plain_skeleton_children [unfolded list_all_iff, rule_format])
  have c: "plain (createLangCardCheckSvg :: 'c node)" by (simp add: createLangCardCheckSvg_def)
  have fill: "plain (fillLangCardBody a b x m)" if "is_Elem m" for a b x and m :: "'c node"
    using that c by (cases m) (simp_all add: fillLangCardBody_def)
  show "plain (lang_card_render n)"
    using assms by (cases n)
      (auto simp: lang_card_render_def Let_def fillLangCardBody_def setClassName_def createLangCardCheckSvg_def)
  show "plain (createLangCard code name sub active f :: 'b node)"
    by (auto simp: createLangCard_def bindLangCardActivate_def Let_def fillLangCardBody_def
        createLangCardCheckSvg_def split: option.splits)
  show "plain (createLoadingState label cls :: 'b node)"
    by (simp add: createLoadingState_def createLoadingSpinner_def)
  show "plain (createNavControls d g [] :: 'b node)"
    by (simp add: createNavControls_def createLangButton_def createThemeToggle_def createNavDivider_def
        svg_frame_def line_def circle_def)
qed

theorem components_show_text_witness:
  "plain (callout_render (setAttribute ''message'' ''<script>'' (createElement ''renop-callout'')) :: string node)"
proof -
  define n :: "string node" where "n = setAttribute ''message'' ''<script>'' (createElement ''renop-callout'')"
  have "is_Elem n" "text_icon n" by (simp_all add: n_def text_icon_def attr_or_def getAttribute_def)
  with components_show_text [of n] show ?thesis unfolding n_def by blast
qed

text \<open>
  An icon passed as a node never survives: setting the message renders the callout, and connecting
  the empty state renders it, and both renderings empty the host first.
\<close>

lemma attr_or_update:
  "is_Elem n \<Longrightarrow> k \<noteq> ''class'' \<Longrightarrow> attr_or k d (empty_render n) = attr_or k d n"
  "is_Elem n \<Longrightarrow> k \<noteq> ''class'' \<Longrightarrow> attr_or k d (callout_render n) = attr_or k d n"
  "attr_or k d (appendChild c n) = attr_or k d n"
  "is_Elem n \<Longrightarrow> attr_or k d (setAttribute k' v n) = (if k = k' then or_else v d else attr_or k d n)"
  by (simp_all add: empty_render_def callout_render_def) (simp_all add: attr_or_def appendChild_def)

lemma is_Elem_render [simp]:
  "is_Elem (callout_render n) = is_Elem n" "is_Elem (empty_render n) = is_Elem n"
  "is_Elem (appendChild c n) = is_Elem n"
  by (simp_all add: callout_render_def empty_render_def setClassName_def appendChild_def)

lemma children_render:
  "is_Elem n \<Longrightarrow> children (callout_render n) = callout_body n"
  "is_Elem n \<Longrightarrow> children (empty_render n) = empty_body n"
  by (simp_all add: callout_render_def empty_render_def setClassName_def)

theorem node_icons_are_dropped:
  "children (createCallout type (TextContent m) (NodeContent i)) = children (createCallout type (TextContent m) NoContent) \<and>
   children (connect empty_render (createEmptyState m (NodeContent i) sub)) =
     children (connect empty_render (createEmptyState m NoContent sub))"
proof
  have e: "is_Elem (createElement t)" for t by simp
  show "children (createCallout type (TextContent m) (NodeContent i)) = children (createCallout type (TextContent m) NoContent)"
    unfolding createCallout_def observe_def callout_observed_def Let_def
    by (simp add: children_render callout_body_def attr_or_update e del: createElement.simps)
  show "children (connect empty_render (createEmptyState m (NodeContent i) sub)) =
     children (connect empty_render (createEmptyState m NoContent sub))"
    unfolding createEmptyState_def observe_if_def observe_def empty_observed_def connect_def Let_def
    by (simp add: children_render empty_body_def attr_or_update e del: createElement.simps)
qed

end
