(* ===== verification/Routes.thy ===== *)
theory Routes
  imports Uri Machine
begin

text \<open>
  Navigation between pages: \<open>login-route.js\<close>, \<open>back-navigation.js\<close> and \<open>protected-route.js\<close>.

  Resolving a URL against the fixed base of \<open>safeLoginReturnTo\<close> is the parameter \<open>url_of\<close>: the
  origin and the path name, or \<open>None\<close> when the URL constructor throws. \<open>url_standard\<close> states
  what the URL standard says of the values that reach it, which begin with a single slash and have no backslash, space or
  control character: the origin is that of the base, and the path name is the one of the standard's path state
  (\<open>url_pathname\<close>). Query strings are encoded as \<open>URLSearchParams\<close> does.
\<close>

section \<open>The session history\<close>

text \<open>
  The session history as the page sees it: the entries before and after the current one, each
  with its URL and the depth kept in its state (\<open>None\<close> for an entry of another document).
  \<open>referrer_local\<close> says that the previous document is another page of the application.
\<close>

record history =
  past :: "(string \<times> nat option) list"
  here :: "string \<times> nat option"
  future :: "(string \<times> nat option) list"
  referrer_local :: bool

definition depth :: "history \<Rightarrow> nat" where
  "depth h = (case snd (here h) of None \<Rightarrow> 0 | Some d \<Rightarrow> d)"

definition installBackNavigation :: "history \<Rightarrow> history" where
  "installBackNavigation h = h\<lparr>here := (fst (here h), Some (depth h))\<rparr>"

definition pushState :: "string \<Rightarrow> history \<Rightarrow> history" where
  "pushState url h = h\<lparr>past := here h # past h, here := (url, Some (depth h + 1)), future := []\<rparr>"

definition replaceState :: "string \<Rightarrow> history \<Rightarrow> history" where
  "replaceState url h = h\<lparr>here := (url, Some (depth h))\<rparr>"

definition go_back :: "history \<Rightarrow> history" where
  "go_back h = (case past h of [] \<Rightarrow> h | p # ps \<Rightarrow> h\<lparr>past := ps, here := p, future := here h # future h\<rparr>)"

definition go_forward :: "history \<Rightarrow> history" where
  "go_forward h = (case future h of [] \<Rightarrow> h | f # fs \<Rightarrow> h\<lparr>past := here h # past h, here := f, future := fs\<rparr>)"

definition history_length :: "history \<Rightarrow> nat" where
  "history_length h = length (past h) + 1 + length (future h)"

definition navigateBack :: "history \<Rightarrow> history" where
  "navigateBack h =
     (if depth h > 0 \<or> (referrer_local h \<and> history_length h > 1) then go_back h else replaceState ''/'' h)"

text \<open>A click on a back link: only an unmodified primary click is taken over (the flag says that the default is prevented).\<close>

record click =
  button :: nat
  metaKey :: bool
  ctrlKey :: bool
  shiftKey :: bool
  altKey :: bool

definition handleBackClick :: "click \<Rightarrow> history \<Rightarrow> bool \<times> history" where
  "handleBackClick event h =
     (if button event \<noteq> 0 \<or> metaKey event \<or> ctrlKey event \<or> shiftKey event \<or> altKey event then (False, h)
      else (True, navigateBack h))"

datatype nav_event = Push string | Replace string | Back | Forward | BackLink

fun nav_step :: "nav_event \<Rightarrow> history \<Rightarrow> history option" where
  "nav_step (Push url) h = Some (pushState url h)"
| "nav_step (Replace url) h = Some (replaceState url h)"
| "nav_step Back h = (if past h \<noteq> [] \<and> snd (hd (past h)) \<noteq> None then Some (go_back h) else None)"
| "nav_step Forward h = (if future h \<noteq> [] then Some (go_forward h) else None)"
| "nav_step BackLink h = (if depth h > 0 \<or> \<not> referrer_local h then Some (navigateBack h) else None)"

section \<open>The sign-in route\<close>

definition strip_trailing_slash :: "string \<Rightarrow> string" where
  "strip_trailing_slash s = (if ends_with ''/'' s then butlast s else s)"

definition accountPageFromPath :: "string \<Rightarrow> string" where
  "accountPageFromPath pathname =
     (let path = strip_trailing_slash (to_lower pathname) in
      if path = ''/account/login'' then ''login''
      else if path = ''/account/register'' then ''registration''
      else if path = ''/account/recovery'' then ''recovery''
      else if path = ''/account/forgot-password'' then ''password-recovery''
      else [])"

definition isLoginPath :: "string \<Rightarrow> bool" where
  "isLoginPath pathname \<longleftrightarrow> accountPageFromPath pathname = ''login''"

definition unsafe_char :: "char \<Rightarrow> bool" where
  "unsafe_char c \<longleftrightarrow> (of_char c :: nat) = 92 \<or> (of_char c :: nat) \<le> 32"

definition local_base :: string where "local_base = ''https://renop.invalid''"

type_synonym url_of = "string \<Rightarrow> (string \<times> string) option"

definition safeLoginReturnTo :: "url_of \<Rightarrow> string option \<Rightarrow> string" where
  "safeLoginReturnTo url_of value =
     (case value of
        None \<Rightarrow> ''/''
      | Some v \<Rightarrow>
          if js_length v > 1024 \<or> \<not> starts_with ''/'' v \<or> starts_with ''//'' v \<or> list_ex unsafe_char v then ''/''
          else (case url_of v of
                  None \<Rightarrow> ''/''
                | Some (origin, pathname) \<Rightarrow>
                    (case decodeURIComponent pathname of
                       None \<Rightarrow> ''/''
                     | Some d \<Rightarrow>
                         (let decoded = to_lower d in
                          if origin \<noteq> local_base \<or> starts_with ''//'' decoded \<or> list_ex unsafe_char decoded \<or>
                             accountPageFromPath decoded \<noteq> [] \<or> decoded = ''/api'' \<or> starts_with ''/api/'' decoded \<or>
                             js_length pathname > 1024
                          then ''/'' else pathname))))"

text \<open>Serialising and parsing a query string.\<close>

definition form_plain :: "char \<Rightarrow> bool" where
  "form_plain c \<longleftrightarrow> (let n = (of_char c :: nat) in
     (48 \<le> n \<and> n \<le> 57) \<or> (65 \<le> n \<and> n \<le> 90) \<or> (97 \<le> n \<and> n \<le> 122) \<or> n = 42 \<or> n = 45 \<or> n = 46 \<or> n = 95)"

definition form_byte :: "char \<Rightarrow> string" where
  "form_byte c = (if c = CHR '' '' then ''+'' else if form_plain c then [c] else escape c)"

definition form_encode :: "string \<Rightarrow> string" where
  "form_encode s = concat (map form_byte s)"

fun form_decode :: "string \<Rightarrow> string" where
  "form_decode [] = []"
| "form_decode (c # s) =
     (if c = CHR ''+'' then CHR '' '' # form_decode s
      else if c = CHR ''%'' then
        (case s of
           a # b # r \<Rightarrow>
             (case (hex_val a, hex_val b) of
                (Some x, Some y) \<Rightarrow> char_of (16 * x + y) # form_decode r
              | _ \<Rightarrow> c # form_decode s)
         | _ \<Rightarrow> c # form_decode s)
      else c # form_decode s)"

definition pair_text :: "string \<times> string \<Rightarrow> string" where
  "pair_text kv = form_encode (fst kv) @ ''='' @ form_encode (snd kv)"

definition query_text :: "(string \<times> string) list \<Rightarrow> string" where
  "query_text kvs = join ''&'' (map pair_text kvs)"

definition parse_pair :: "string \<Rightarrow> string \<times> string" where
  "parse_pair s =
     (case index_of CHR ''='' s of
        None \<Rightarrow> (form_decode s, [])
      | Some i \<Rightarrow> (form_decode (take i s), form_decode (drop (i + 1) s)))"

definition parse_query :: "string \<Rightarrow> (string \<times> string) list" where
  "parse_query q =
     map parse_pair (filter (\<lambda>s. s \<noteq> []) (split_on CHR ''&'' (if starts_with ''?'' q then drop 1 q else q)))"

definition loginReturnTo :: "url_of \<Rightarrow> string \<Rightarrow> string" where
  "loginReturnTo url_of search = safeLoginReturnTo url_of (map_of (parse_query search) ''return_to'')"

text \<open>The query and the route \<open>navigateToLogin\<close> opens.\<close>

definition login_query :: "url_of \<Rightarrow> string option \<Rightarrow> bool \<Rightarrow> (string \<times> string) list" where
  "login_query url_of returnTo reauth =
     (let target = safeLoginReturnTo url_of returnTo in
      (if target \<noteq> ''/'' then [(''return_to'', target)] else []) @ (if reauth then [(''reauth'', ''1'')] else []))"

definition login_route :: "url_of \<Rightarrow> string option \<Rightarrow> bool \<Rightarrow> string" where
  "login_route url_of returnTo reauth =
     (let query = login_query url_of returnTo reauth in
      ''/account/login'' @ (if query = [] then [] else ''?'' @ query_text query))"

definition navigateToLogin :: "url_of \<Rightarrow> string \<Rightarrow> string option \<Rightarrow> bool \<Rightarrow> bool \<Rightarrow> history \<Rightarrow> history" where
  "navigateToLogin url_of pathname returnTo replace reauth h =
     (if isLoginPath pathname then h
      else if replace then replaceState (login_route url_of returnTo reauth) h
      else pushState (login_route url_of returnTo reauth) h)"

definition leaveLoginPage :: "url_of \<Rightarrow> string \<Rightarrow> string \<Rightarrow> history \<Rightarrow> history" where
  "leaveLoginPage url_of pathname search h =
     (if isLoginPath pathname then replaceState (loginReturnTo url_of search) h else h)"

text \<open>The path name and the query of a URL of this origin (the application's routes have no fragment).\<close>

definition location_parts :: "string \<Rightarrow> string \<times> string" where
  "location_parts url = (case index_of CHR ''?'' url of None \<Rightarrow> (url, []) | Some i \<Rightarrow> (take i url, drop i url))"

text \<open>
  \<open>protected-route.js\<close>: the status announced to the shell (a missing or unreadable one is 0), and
  the exit of a protected page: the announced status, if the page must be left.
\<close>

definition requestProtectedRouteExit :: "nat option \<Rightarrow> nat" where
  "requestProtectedRouteExit status = (case status of None \<Rightarrow> 0 | Some n \<Rightarrow> n)"

definition exitProtectedRouteOnDenial :: "nat option \<Rightarrow> nat option" where
  "exitProtectedRouteOnDenial response =
     (let status = (case response of None \<Rightarrow> 0 | Some n \<Rightarrow> n) in
      if status \<noteq> 401 \<and> status \<noteq> 403 then None else Some (requestProtectedRouteExit (Some status)))"

section \<open>Return targets are local\<close>

text \<open>
  The path state of the URL standard: the segments up to the query or fragment, percent-encoded; a dot segment is
  dropped, a double-dot segment takes the one before it away, and either of them at the end leaves an empty segment.
\<close>

definition path_reserved :: "char \<Rightarrow> bool" where
  "path_reserved c \<longleftrightarrow> byte c \<le> 32 \<or> byte c > 126 \<or> c \<in> set [CHR 0x22, CHR ''#'', CHR ''<'', CHR ''>'', CHR ''?'', CHR ''^'', CHR 0x60, CHR ''{'', CHR ''}'']"

definition encode_path :: "string \<Rightarrow> string" where
  "encode_path s = concat (map (\<lambda>c. if path_reserved c then escape c else [c]) s)"

definition single_dot :: "string \<Rightarrow> bool" where
  "single_dot s \<longleftrightarrow> to_lower s \<in> set [''.'', ''%2e'']"

definition double_dot :: "string \<Rightarrow> bool" where
  "double_dot s \<longleftrightarrow> to_lower s \<in> set [''..'', ''.%2e'', ''%2e.'', ''%2e%2e'']"

fun path_segments :: "string list \<Rightarrow> string list \<Rightarrow> string list" where
  "path_segments done_rev [] = rev done_rev"
| "path_segments done_rev (s # ss) =
     (if double_dot s then path_segments (if ss = [] then [] # tl done_rev else tl done_rev) ss
      else if single_dot s then path_segments (if ss = [] then [] # done_rev else done_rev) ss
      else path_segments (s # done_rev) ss)"

definition url_pathname :: "string \<Rightarrow> string" where
  "url_pathname v =
     concat (map ((#) CHR ''/'')
       (path_segments [] (map encode_path (split_on CHR ''/'' (takeWhile (\<lambda>c. c \<noteq> CHR ''?'' \<and> c \<noteq> CHR ''#'') (tl v))))))"

definition local_value :: "string \<Rightarrow> bool" where
  "local_value v \<longleftrightarrow> starts_with ''/'' v \<and> \<not> starts_with ''//'' v \<and> \<not> list_ex unsafe_char v"

definition url_standard :: "url_of \<Rightarrow> bool" where
  "url_standard url_of \<longleftrightarrow> (\<forall>v. local_value v \<longrightarrow> url_of v = Some (local_base, url_pathname v))"

definition standard_url :: url_of where
  "standard_url v = (if local_value v then Some (local_base, url_pathname v) else None)"

lemma standard_url_standard: "url_standard standard_url"
  by (simp add: url_standard_def standard_url_def)

text \<open>A path name is one: resolving it again changes nothing.\<close>

definition segment_ok :: "string \<Rightarrow> bool" where
  "segment_ok s \<longleftrightarrow> \<not> single_dot s \<and> \<not> double_dot s \<and> (\<forall>c \<in> set s. \<not> path_reserved c \<and> \<not> unsafe_char c \<and> c \<noteq> CHR ''/'')"

lemma hex_char_kept: "n < 16 \<Longrightarrow> \<not> path_reserved (hex_char n) \<and> \<not> unsafe_char (hex_char n) \<and> hex_char n \<noteq> CHR ''/''"
proof -
  assume "n < 16"
  then have "n \<in> set [0..<16]" by simp
  moreover have "\<forall>c \<in> set ''0123456789ABCDEF''. \<not> path_reserved c \<and> \<not> unsafe_char c \<and> c \<noteq> CHR ''/''"
    by code_simp
  moreover have "list_all (\<lambda>n. hex_char n \<in> set ''0123456789ABCDEF'') [0..<16]"
    by code_simp
  ultimately show ?thesis unfolding list_all_iff by blast
qed

lemma encode_path_chars:
  assumes "c \<in> set (encode_path s)" and "\<forall>c \<in> set s. \<not> unsafe_char c \<and> c \<noteq> CHR ''/''"
  shows "\<not> path_reserved c \<and> \<not> unsafe_char c \<and> c \<noteq> CHR ''/''"
proof -
  have "\<not> path_reserved CHR ''%'' \<and> \<not> unsafe_char CHR ''%'' \<and> CHR ''%'' \<noteq> CHR ''/''" by code_simp
  moreover obtain d where "d \<in> set s" "c \<in> set (if path_reserved d then escape d else [d])"
    using assms(1) by (auto simp: encode_path_def)
  ultimately show ?thesis
    using assms(2) hex_char_kept [of "byte d div 16"] hex_char_kept [of "byte d mod 16"] byte_div_16 [of d]
    by (cases "path_reserved d") (auto simp: escape_def)
qed

lemma encode_path_id: "\<forall>c \<in> set s. \<not> path_reserved c \<Longrightarrow> encode_path s = s"
  by (induction s) (auto simp: encode_path_def)

lemma path_segments_set:
  "s \<in> set (path_segments ds ss) \<Longrightarrow> s = [] \<or> s \<in> set ds \<or> s \<in> set ss \<and> \<not> single_dot s \<and> \<not> double_dot s"
proof (induction ds ss rule: path_segments.induct)
  case (2 ds x ss)
  have "set (tl ds) \<subseteq> set ds" by (cases ds) auto
  with 2 show ?case by (auto split: if_splits)
qed simp

lemma path_segments_nonempty: "ss \<noteq> [] \<or> ds \<noteq> [] \<Longrightarrow> path_segments ds ss \<noteq> []"
proof (induction ds ss rule: path_segments.induct)
  case (2 ds x ss)
  then show ?case by (cases "ss = []") auto
qed simp

lemma path_segments_id: "\<forall>s \<in> set ss. \<not> single_dot s \<and> \<not> double_dot s \<Longrightarrow> path_segments ds ss = rev ds @ ss"
  by (induction ds ss rule: path_segments.induct) auto

lemma join_chars: "c \<in> set (join ''/'' ss) \<Longrightarrow> c = CHR ''/'' \<or> (\<exists>s \<in> set ss. c \<in> set s)"
  by (induction ss rule: induct_list012) auto

lemma join_part_chars: "r \<in> set ss \<Longrightarrow> set r \<subseteq> set (join ''/'' ss)"
  by (induction ss rule: induct_list012) auto

lemma slash_join: "ss \<noteq> [] \<Longrightarrow> concat (map ((#) CHR ''/'') ss) = CHR ''/'' # join ''/'' ss"
  by (induction ss rule: induct_list012) auto

lemma url_pathname_segments:
  assumes "local_value v"
  shows "\<exists>ss. ss \<noteq> [] \<and> (\<forall>s \<in> set ss. segment_ok s) \<and> url_pathname v = CHR ''/'' # join ''/'' ss"
proof -
  define raw where "raw = split_on CHR ''/'' (takeWhile (\<lambda>c. c \<noteq> CHR ''?'' \<and> c \<noteq> CHR ''#'') (tl v))"
  define ss where "ss = path_segments [] (map encode_path raw)"
  have "set (join ''/'' raw) \<subseteq> set v"
    unfolding raw_def join_split by (cases v) (auto dest: set_takeWhileD)
  moreover have "set r \<subseteq> set (join ''/'' raw)" if "r \<in> set raw" for r
    using that by (rule join_part_chars)
  ultimately have "\<forall>c \<in> set r. \<not> unsafe_char c \<and> c \<noteq> CHR ''/''" if "r \<in> set raw" for r
    using that assms split_on_free [of r "CHR ''/''"] by (fastforce simp: local_value_def list_ex_iff raw_def)
  then have raw: "\<forall>r \<in> set raw. \<forall>c \<in> set r. \<not> unsafe_char c \<and> c \<noteq> CHR ''/''" by blast
  have "segment_ok s" if "s \<in> set ss" for s
  proof (cases "s = []")
    case True
    then show ?thesis by (simp add: segment_ok_def single_dot_def double_dot_def to_lower_def)
  next
    case False
    note cases = path_segments_set [OF that [unfolded ss_def]]
    from False obtain r where r: "r \<in> set raw" "s = encode_path r" and d: "\<not> single_dot s" "\<not> double_dot s"
      using cases by auto
    have "\<not> path_reserved c \<and> \<not> unsafe_char c \<and> c \<noteq> CHR ''/''" if "c \<in> set s" for c
      by (rule encode_path_chars [OF that [unfolded r(2)] bspec [OF raw r(1)]])
    with d show ?thesis unfolding segment_ok_def by blast
  qed
  moreover have "ss \<noteq> []" unfolding ss_def by (rule path_segments_nonempty) (simp add: raw_def)
  ultimately show ?thesis
    using slash_join [of ss] unfolding url_pathname_def raw_def [symmetric] ss_def [symmetric] by blast
qed

lemma url_pathname_fixed:
  assumes "ss \<noteq> []" and "\<forall>s \<in> set ss. segment_ok s"
  shows "url_pathname (CHR ''/'' # join ''/'' ss) = CHR ''/'' # join ''/'' ss"
proof -
  have "c \<noteq> CHR ''?'' \<and> c \<noteq> CHR ''#''" if "c \<in> set (join ''/'' ss)" for c
  proof -
    have "c = CHR ''/'' \<or> (\<exists>s \<in> set ss. c \<in> set s)"
      using that by (rule join_chars)
    then show ?thesis using assms(2) by (auto simp: segment_ok_def path_reserved_def)
  qed
  then have t: "takeWhile (\<lambda>c. c \<noteq> CHR ''?'' \<and> c \<noteq> CHR ''#'') (join ''/'' ss) = join ''/'' ss"
    unfolding takeWhile_eq_all_conv by blast
  have "split_on CHR ''/'' (join ''/'' ss) = ss"
    using assms by (intro split_join) (auto simp: segment_ok_def)
  moreover have "map encode_path ss = ss" using assms(2) by (intro map_idI encode_path_id) (auto simp: segment_ok_def)
  moreover have "path_segments [] ss = ss" using path_segments_id [of ss "[]"] assms(2) by (simp add: segment_ok_def)
  ultimately show ?thesis using slash_join [OF assms(1)] unfolding url_pathname_def list.sel t by simp
qed

lemma url_pathname_law:
  assumes "local_value v"
  shows "starts_with ''/'' (url_pathname v)" and "\<not> list_ex unsafe_char (url_pathname v)"
    and "url_pathname (url_pathname v) = url_pathname v"
proof -
  obtain ss where ss: "ss \<noteq> []" "\<forall>s \<in> set ss. segment_ok s" "url_pathname v = CHR ''/'' # join ''/'' ss"
    using url_pathname_segments [OF assms] by blast
  have "\<not> unsafe_char c" if "c \<in> set (join ''/'' ss)" for c
  proof -
    have "c = CHR ''/'' \<or> (\<exists>s \<in> set ss. c \<in> set s)"
      using that by (rule join_chars)
    moreover have "\<not> unsafe_char CHR ''/''" by code_simp
    ultimately show ?thesis using ss(2) unfolding segment_ok_def by blast
  qed
  then show "\<not> list_ex unsafe_char (url_pathname v)" by (auto simp: ss(3) list_ex_iff unsafe_char_def)
  show "starts_with ''/'' (url_pathname v)" by (simp add: ss(3))
  show "url_pathname (url_pathname v) = url_pathname v" unfolding ss(3) by (rule url_pathname_fixed [OF ss(1,2)])
qed

lemma decode_slash: "decodeURIComponent (CHR ''/'' # s) = map_option ((#) CHR ''/'') (decodeURIComponent s)"
  by (simp add: decode_plain)

lemma decode_slashes:
  "decodeURIComponent p = Some d \<Longrightarrow> starts_with ''//'' p \<Longrightarrow> starts_with ''//'' d"
  by (auto simp: starts_with_iff decode_slash)

lemma to_lower_slashes [simp]: "starts_with ''//'' s \<Longrightarrow> starts_with ''//'' (to_lower s)"
  by (auto simp: starts_with_iff to_lower_def lower_char_def)

lemma safeLoginReturnTo_Some:
  "safeLoginReturnTo url_of value = p \<Longrightarrow> p \<noteq> ''/'' \<Longrightarrow>
   \<exists>v origin d. value = Some v \<and> local_value v \<and> url_of v = Some (origin, p) \<and> decodeURIComponent p = Some d \<and> origin = local_base \<and>
     \<not> starts_with ''//'' (to_lower d) \<and> \<not> list_ex unsafe_char (to_lower d) \<and> accountPageFromPath (to_lower d) = [] \<and>
     to_lower d \<noteq> ''/api'' \<and> \<not> starts_with ''/api/'' (to_lower d) \<and> js_length p \<le> 1024"
  by (auto simp: safeLoginReturnTo_def local_value_def Let_def split: option.splits if_splits prod.splits)

lemma safeLoginReturnTo_path:
  assumes "url_standard url_of"
  shows "starts_with ''/'' (safeLoginReturnTo url_of value)" "\<not> list_ex unsafe_char (safeLoginReturnTo url_of value)"
    "\<not> starts_with ''//'' (safeLoginReturnTo url_of value)"
    "url_of (safeLoginReturnTo url_of value) = Some (local_base, safeLoginReturnTo url_of value)"
proof -
  define p where "p = safeLoginReturnTo url_of value"
  have "starts_with ''/'' p \<and> \<not> list_ex unsafe_char p \<and> \<not> starts_with ''//'' p \<and> url_of p = Some (local_base, p)"
  proof (cases "p = ''/''")
    case True
    have "local_value ''/''" "url_pathname ''/'' = ''/''" by code_simp+
    with True assms show ?thesis by (auto simp: url_standard_def local_value_def)
  next
    case False
    obtain v origin d where v: "local_value v" and u: "url_of v = Some (origin, p)" and d: "decodeURIComponent p = Some d"
      "\<not> starts_with ''//'' (to_lower d)"
      using safeLoginReturnTo_Some [OF p_def [symmetric] False] by blast
    have "\<not> starts_with ''//'' p" using decode_slashes [OF d(1)] d(2) by auto
    moreover have "p = url_pathname v" using assms u v by (simp add: url_standard_def)
    ultimately have "starts_with ''/'' p" "\<not> list_ex unsafe_char p" "\<not> starts_with ''//'' p" "url_pathname p = p"
      using url_pathname_law [OF v] by auto
    then show ?thesis using assms by (simp add: url_standard_def local_value_def)
  qed
  then show "starts_with ''/'' (safeLoginReturnTo url_of value)" "\<not> list_ex unsafe_char (safeLoginReturnTo url_of value)"
    "\<not> starts_with ''//'' (safeLoginReturnTo url_of value)"
    "url_of (safeLoginReturnTo url_of value) = Some (local_base, safeLoginReturnTo url_of value)"
    by (simp_all add: p_def)
qed

text \<open>
  C39: signing in never leads off the site. With a URL constructor that follows the standard on local paths (it may do
  anything on other values), and whatever the \<open>return_to\<close> parameter contains, the page
  opened after sign-in is a path of the application: it starts with a single slash, has no
  backslash or control character, and is at most 1024 characters long; decoded, it is neither
  an account page nor an API endpoint.
\<close>

theorem login_return_is_local:
  assumes "url_standard url_of"
  shows "let p = safeLoginReturnTo url_of value in
    starts_with ''/'' p \<and> \<not> starts_with ''//'' p \<and> \<not> list_ex unsafe_char p \<and> js_length p \<le> 1024 \<and>
    (\<exists>d. decodeURIComponent p = Some d \<and> accountPageFromPath (to_lower d) = [] \<and> to_lower d \<noteq> ''/api'' \<and>
       \<not> starts_with ''/api/'' (to_lower d))"
proof -
  define p where "p = safeLoginReturnTo url_of value"
  note path = safeLoginReturnTo_path [OF assms, of "value", folded p_def]
  have "js_length p \<le> 1024 \<and> (\<exists>d. decodeURIComponent p = Some d \<and> accountPageFromPath (to_lower d) = [] \<and>
      to_lower d \<noteq> ''/api'' \<and> \<not> starts_with ''/api/'' (to_lower d))"
  proof (cases "p = ''/''")
    case True
    have "js_length ''/'' \<le> 1024" "decodeURIComponent ''/'' = Some ''/''" "accountPageFromPath (to_lower ''/'') = []"
      "to_lower ''/'' \<noteq> ''/api''" "\<not> starts_with ''/api/'' (to_lower ''/'')" by code_simp+
    then show ?thesis unfolding True by blast
  next
    case False
    from safeLoginReturnTo_Some [OF p_def [symmetric] False] show ?thesis by blast
  qed
  with path show ?thesis unfolding p_def [symmetric] Let_def by blast
qed

section \<open>Return targets survive the sign-in\<close>

lemma form_decode_byte: "form_decode (form_byte c @ s) = c # form_decode s"
proof -
  have "form_decode (escape c @ s) = c # form_decode s"
    by (simp add: escape_def byte_div_16 byte_split)
  then show ?thesis
    by (auto simp: form_byte_def form_plain_def Let_def)
qed

lemma form_decode_encode: "form_decode (form_encode s) = s"
  by (induction s) (simp_all add: form_encode_def form_decode_byte del: form_decode.simps(2))

lemma form_byte_free: "c \<in> set (form_byte x) \<Longrightarrow> c \<noteq> CHR ''='' \<and> c \<noteq> CHR ''&''"
proof -
  have hex: "hex_char n \<noteq> CHR ''='' \<and> hex_char n \<noteq> CHR ''&''" if "n < 16" for n
    using hex_val_hex_char [OF that] by (auto simp: hex_val_def)
  assume "c \<in> set (form_byte x)"
  then show ?thesis
    using hex [of "byte x div 16"] hex [of "byte x mod 16"] byte_div_16 [of x]
    by (auto simp: form_byte_def form_plain_def escape_def Let_def split: if_splits)
qed

lemma form_encode_free: "CHR ''='' \<notin> set (form_encode s)" "CHR ''&'' \<notin> set (form_encode s)"
  using form_byte_free by (auto simp: form_encode_def)

lemma parse_pair_text: "parse_pair (pair_text kv) = kv"
  using index_of_append [of "CHR ''=''" "form_encode (fst kv)" "form_encode (snd kv)"] form_encode_free
  by (simp add: parse_pair_def pair_text_def form_decode_encode)

lemma parse_query_text: "kvs \<noteq> [] \<Longrightarrow> parse_query (''?'' @ query_text kvs) = kvs"
proof -
  assume ne: "kvs \<noteq> []"
  have free: "CHR ''&'' \<notin> set (pair_text kv)" for kv using form_encode_free by (simp add: pair_text_def)
  then have "split_on CHR ''&'' (query_text kvs) = map pair_text kvs"
    unfolding query_text_def using ne by (intro split_join) auto
  moreover have "filter (\<lambda>s. s \<noteq> []) (map pair_text kvs) = map pair_text kvs"
    by (auto simp: filter_id_conv pair_text_def)
  moreover have "map parse_pair (map pair_text kvs) = kvs"
    by (simp add: comp_def parse_pair_text)
  ultimately show ?thesis by (simp add: parse_query_def)
qed

lemma safe_idem:
  assumes "url_standard url_of"
  shows "safeLoginReturnTo url_of (Some (safeLoginReturnTo url_of value)) = safeLoginReturnTo url_of value"
proof -
  define p where "p = safeLoginReturnTo url_of value"
  note path = safeLoginReturnTo_path [OF assms, of "value", folded p_def]
  have "safeLoginReturnTo url_of (Some p) = p"
  proof (cases "p = ''/''")
    case True
    show ?thesis using path(4) unfolding True by (simp add: safeLoginReturnTo_def Let_def split: option.splits)
  next
    case False
    obtain d where d: "decodeURIComponent p = Some d" "\<not> starts_with ''//'' (to_lower d)"
        "\<not> list_ex unsafe_char (to_lower d)" "accountPageFromPath (to_lower d) = []" "to_lower d \<noteq> ''/api''"
        "\<not> starts_with ''/api/'' (to_lower d)" "js_length p \<le> 1024"
      using safeLoginReturnTo_Some [OF p_def [symmetric] False] by blast
    have "\<not> (js_length p > 1024 \<or> \<not> starts_with ''/'' p \<or> starts_with ''//'' p \<or> list_ex unsafe_char p)"
      using path d(7) by simp
    moreover have "\<not> (local_base \<noteq> local_base \<or> starts_with ''//'' (to_lower d) \<or> list_ex unsafe_char (to_lower d) \<or>
        accountPageFromPath (to_lower d) \<noteq> [] \<or> to_lower d = ''/api'' \<or> starts_with ''/api/'' (to_lower d) \<or>
        js_length p > 1024)"
      using d by simp
    ultimately show ?thesis
      unfolding safeLoginReturnTo_def Let_def option.case path(4) prod.case d(1) by (simp only: if_False)
  qed
  then show ?thesis by (simp add: p_def)
qed

lemma login_route_search:
  assumes "url_standard url_of"
  shows "fst (location_parts (login_route url_of returnTo reauth)) = ''/account/login''"
    and "loginReturnTo url_of (snd (location_parts (login_route url_of returnTo reauth))) = safeLoginReturnTo url_of returnTo"
proof -
  define q where "q = login_query url_of returnTo reauth"
  define search where "search = (if q = [] then [] else ''?'' @ query_text q)"
  have r: "login_route url_of returnTo reauth = ''/account/login'' @ search"
    by (simp add: login_route_def search_def q_def [symmetric] Let_def)
  have parts: "location_parts (''/account/login'' @ search) = (''/account/login'', search)"
    using index_of_append [of "CHR ''?''" "''/account/login''" "query_text q"]
    by (cases "q = []") (simp_all add: location_parts_def search_def)
  have get: "map_of q ''return_to'' = (if safeLoginReturnTo url_of returnTo = ''/'' then None
      else Some (safeLoginReturnTo url_of returnTo))"
    by (simp add: q_def login_query_def Let_def)
  have "parse_query search = q"
    using parse_query_text [of q] by (cases "q = []") (simp_all add: parse_query_def search_def)
  then have "loginReturnTo url_of search = safeLoginReturnTo url_of (map_of q ''return_to'')"
    by (simp add: loginReturnTo_def)
  also have "\<dots> = safeLoginReturnTo url_of returnTo"
    unfolding get using safe_idem [OF assms, of returnTo] by (simp add: safeLoginReturnTo_def [of url_of None])
  finally show "loginReturnTo url_of (snd (location_parts (login_route url_of returnTo reauth))) = safeLoginReturnTo url_of returnTo"
    unfolding r parts by simp
  show "fst (location_parts (login_route url_of returnTo reauth)) = ''/account/login''" unfolding r parts by simp
qed

lemma isLoginPath_login: "isLoginPath ''/account/login''"
  by code_simp

text \<open>
  The page a user was on is the page opened after sign-in. Opening the sign-in page from any other page and
  leaving it again ends on the (local) return target, whatever characters the path contains and whether or not
  a re-authentication is requested, and never leaves the sign-in form in the history: the entry behind the
  target is the page the user came from (or, with \<open>replace\<close>, what was behind it).
\<close>

theorem login_return_roundtrip:
  assumes "url_standard url_of" and "\<not> isLoginPath pathname"
  shows "let login = navigateToLogin url_of pathname returnTo replace reauth h;
             (path, search) = location_parts (fst (here login));
             back = leaveLoginPage url_of path search login
         in isLoginPath path \<and> fst (here back) = safeLoginReturnTo url_of returnTo \<and>
            past back = (if replace then past h else here h # past h)"
  using login_route_search [OF assms(1), of returnTo reauth] assms(2) isLoginPath_login
  by (cases "location_parts (login_route url_of returnTo reauth)")
    (auto simp: Let_def navigateToLogin_def leaveLoginPage_def replaceState_def pushState_def)

theorem login_return_is_local_witness:
  "safeLoginReturnTo standard_url (Some ''/libs/./x/%2E%2e/a b'') = ''/'' \<and>
   safeLoginReturnTo standard_url (Some ''/libs/./x/%2E%2e/a^b?q#f'') = ''/libs/a%5Eb'' \<and>
   \<not> starts_with ''//'' (safeLoginReturnTo standard_url (Some ''/.//evil.example''))"
proof -
  have "safeLoginReturnTo standard_url (Some ''/libs/./x/%2E%2e/a b'') = ''/''"
    "safeLoginReturnTo standard_url (Some ''/libs/./x/%2E%2e/a^b?q#f'') = ''/libs/a%5Eb''" by code_simp+
  then show ?thesis
    using login_return_is_local [OF standard_url_standard, of "Some ''/.//evil.example''"] by (simp add: Let_def)
qed

theorem login_return_roundtrip_witness:
  "let h = \<lparr>past = [], here = (''/repo/a&b'', Some 0), future = [], referrer_local = False\<rparr>;
       login = navigateToLogin standard_url ''/repo/a&b'' (Some ''/repo/a&b'') False False h;
       back = leaveLoginPage standard_url ''/account/login'' ''?return_to=%2Frepo%2Fa%26b'' login
   in fst (here login) = ''/account/login?return_to=%2Frepo%2Fa%26b'' \<and> fst (here back) = ''/repo/a&b''"
proof -
  define h where "h = \<lparr>past = [], here = (''/repo/a&b'', Some 0), future = [], referrer_local = False\<rparr>"
  define login where "login = navigateToLogin standard_url ''/repo/a&b'' (Some ''/repo/a&b'') False False h"
  have t: "safeLoginReturnTo standard_url (Some ''/repo/a&b'') = ''/repo/a&b''" by code_simp
  have "\<not> isLoginPath ''/repo/a&b''" by code_simp
  note rt = login_return_roundtrip [OF standard_url_standard this, of "Some ''/repo/a&b''" False False h, folded login_def]
  have r: "login_route standard_url (Some ''/repo/a&b'') False = ''/account/login?return_to=%2Frepo%2Fa%26b''" by code_simp
  have "\<not> isLoginPath ''/repo/a&b''" by code_simp
  then have l: "fst (here login) = ''/account/login?return_to=%2Frepo%2Fa%26b''"
    by (simp add: login_def navigateToLogin_def pushState_def r)
  have parts: "location_parts ''/account/login?return_to=%2Frepo%2Fa%26b'' =
      (''/account/login'', ''?return_to=%2Frepo%2Fa%26b'')" by code_simp
  from rt show ?thesis unfolding Let_def h_def [symmetric] login_def [symmetric] l parts prod.case t using l by blast
qed

section \<open>Back stays inside the application\<close>

text \<open>Entries of the application carry consecutive depths; before the first lies another document or nothing.\<close>

fun consecutive :: "nat \<Rightarrow> (string \<times> nat option) list \<Rightarrow> bool" where
  "consecutive d [] \<longleftrightarrow> d = 0"
| "consecutive d ((u, e) # es) \<longleftrightarrow>
     (if d = 0 then e = None else e = Some (d - 1) \<and> consecutive (d - 1) es)"

fun ascending :: "nat \<Rightarrow> (string \<times> nat option) list \<Rightarrow> bool" where
  "ascending d [] \<longleftrightarrow> True"
| "ascending d ((u, e) # es) \<longleftrightarrow> e = Some (d + 1) \<and> ascending (d + 1) es"

definition history_inv :: "history \<Rightarrow> bool" where
  "history_inv h \<longleftrightarrow> snd (here h) \<noteq> None \<and> consecutive (depth h) (past h) \<and> ascending (depth h) (future h)"

lemma nav_step_inv: "history_inv h \<Longrightarrow> nav_step e h = Some t \<Longrightarrow> history_inv t"
proof (cases e)
  case Back
  assume "history_inv h" "nav_step e h = Some t"
  with Back show ?thesis
    by (cases "here h"; cases "past h") (auto simp: history_inv_def go_back_def depth_def split: if_splits)
next
  case Forward
  assume "history_inv h" "nav_step e h = Some t"
  with Forward show ?thesis
    by (cases "future h"; cases "here h") (auto simp: history_inv_def go_forward_def depth_def split: if_splits)
next
  case BackLink
  assume "history_inv h" "nav_step e h = Some t"
  with BackLink show ?thesis
    by (cases "here h"; cases "past h")
      (auto simp: history_inv_def navigateBack_def go_back_def replaceState_def depth_def split: if_splits)
next
  case (Push url)
  assume "history_inv h" "nav_step e h = Some t"
  with Push show ?thesis by (cases "here h") (auto simp: history_inv_def pushState_def depth_def)
qed (auto simp: history_inv_def replaceState_def depth_def)

interpretation nav: machine nav_step history_inv
  by unfold_locales (rule nav_step_inv)

lemma install_inv:
  assumes "list_all (\<lambda>e. snd e = None) (past h)" "snd (here h) = None" "future h = []"
  shows "history_inv (installBackNavigation h)"
  using assms by (cases "past h") (auto simp: history_inv_def installBackNavigation_def depth_def)

text \<open>
  the back link never leaves the application by accident. Starting from a fresh entry, after any
  sequence of navigation, the link goes to the previous entry of the application when there is one, and
  otherwise (with no local referrer) replaces the page by the home page; the depth in the
  history state counts exactly the application entries behind the current one.
\<close>

theorem back_link_stays_inside:
  assumes "list_all (\<lambda>e. snd e = None) (past h)" and "snd (here h) = None" and "future h = []"
    and "run nav_step es (installBackNavigation h) = Some t"
  shows "depth t = length (takeWhile (\<lambda>e. snd e \<noteq> None) (past t)) \<and>
    (depth t > 0 \<longrightarrow> here (navigateBack t) = hd (past t) \<and> snd (hd (past t)) = Some (depth t - 1)) \<and>
    (depth t = 0 \<and> \<not> referrer_local t \<longrightarrow> fst (here (navigateBack t)) = ''/'' \<and> past (navigateBack t) = past t)"
proof -
  have i: "history_inv t" by (rule nav.inv_run [OF assms(4) install_inv [OF assms(1-3)]])
  have c: "consecutive d es \<Longrightarrow> d = length (takeWhile (\<lambda>e. snd e \<noteq> None) es)" for d es
    by (induction d es rule: consecutive.induct) (auto split: if_splits)
  have "depth t > 0 \<Longrightarrow> past t \<noteq> [] \<and> snd (hd (past t)) = Some (depth t - 1)"
    using i by (cases "past t") (auto simp: history_inv_def)
  then show ?thesis
    using i c [of "depth t" "past t"]
    by (auto simp: history_inv_def navigateBack_def go_back_def replaceState_def split: list.splits)
qed

theorem back_link_stays_inside_witness:
  "let h = \<lparr>past = [], here = (''/a'', None), future = [], referrer_local = False\<rparr>;
       t = the (run nav_step [Push ''/b'', Push ''/c'', Back] (installBackNavigation h))
   in depth t = 1 \<and> here (navigateBack t) = (''/a'', Some 0)"
proof -
  define h where "h = \<lparr>past = [], here = (''/a'', None), future = [], referrer_local = False\<rparr>"
  define t where "t = the (run nav_step [Push ''/b'', Push ''/c'', Back] (installBackNavigation h))"
  have r: "run nav_step [Push ''/b'', Push ''/c'', Back] (installBackNavigation h) = Some t"
    by (simp add: t_def h_def installBackNavigation_def pushState_def go_back_def depth_def)
  have p: "past t = [(''/a'', Some 0)]" "depth t = 1"
    by (simp_all add: t_def h_def installBackNavigation_def pushState_def go_back_def depth_def)
  have "list_all (\<lambda>e. snd e = None) (past h)" "snd (here h) = None" "future h = []" by (simp_all add: h_def)
  from back_link_stays_inside [OF this r] p have "depth t = 1 \<and> here (navigateBack t) = (''/a'', Some 0)" by simp
  then show ?thesis unfolding Let_def h_def [symmetric] t_def [symmetric] .
qed

end
