(* ===== verification/Json.thy ===== *)
theory Json
  imports Prelude
begin

text \<open>
  The JavaScript values \<open>JSON.parse\<close> yields, and the conversions the sources apply to them. An absent
  property is \<open>None\<close>. Numbers are integers: the sources read sizes, counts and time stamps from JSON.
  Reading a number from a string (\<open>Number(s)\<close>, \<open>None\<close> for \<open>NaN\<close>) is the parameter
  \<open>number_of\<close> of the functions that do it.
\<close>

datatype json =
    JNull
  | JBool bool
  | JNum int
  | JStr string
  | JArr "json list"
  | JObj "(string \<times> json) list"

fun json_truthy :: "json \<Rightarrow> bool" where
  "json_truthy JNull = False"
| "json_truthy (JBool b) = b"
| "json_truthy (JNum n) = (n \<noteq> 0)"
| "json_truthy (JStr s) = (s \<noteq> [])"
| "json_truthy (JArr xs) = True"
| "json_truthy (JObj kvs) = True"

text \<open>\<open>String(v)\<close>: inside an array, null becomes the empty string.\<close>

fun json_string :: "json \<Rightarrow> string" where
  "json_string JNull = ''null''"
| "json_string (JBool b) = (if b then ''true'' else ''false'')"
| "json_string (JNum n) = show_int n"
| "json_string (JStr s) = s"
| "json_string (JArr xs) = join '','' (map (\<lambda>x. if x = JNull then [] else json_string x) xs)"
| "json_string (JObj kvs) = ''[object Object]''"

text \<open>\<open>v.key\<close>, for a value other than null and a key that no built-in prototype has\<close>

fun get :: "string \<Rightarrow> json \<Rightarrow> json option" where
  "get k (JObj kvs) = map_of (rev kvs) k"
| "get k v = None"

definition truthy_opt :: "json option \<Rightarrow> bool" where
  "truthy_opt v = (case v of None \<Rightarrow> False | Some x \<Rightarrow> json_truthy x)"

text \<open>\<open>String(a || b || '')\<close>.\<close>

fun first_string :: "json option list \<Rightarrow> string" where
  "first_string [] = []"
| "first_string (v # vs) = (if truthy_opt v then json_string (the v) else first_string vs)"

text \<open>\<open>Number(v) || 0\<close>.\<close>

fun number_or_zero :: "(string \<Rightarrow> int option) \<Rightarrow> json option \<Rightarrow> int" where
  "number_or_zero number_of None = 0"
| "number_or_zero number_of (Some JNull) = 0"
| "number_or_zero number_of (Some (JBool b)) = (if b then 1 else 0)"
| "number_or_zero number_of (Some (JNum n)) = n"
| "number_or_zero number_of (Some v) = (case number_of (json_string v) of None \<Rightarrow> 0 | Some n \<Rightarrow> n)"

text \<open>The result of a request: the network failed, or a status and a body (\<open>None\<close> when it is not JSON).\<close>

datatype reply = NetworkError | Reply nat "json option"

definition reply_ok :: "nat \<Rightarrow> bool" where
  "reply_ok st \<longleftrightarrow> 200 \<le> st \<and> st < 300"

end
