(* ===== verification/Official.thy ===== *)
theory Official
  imports Uri Json
begin

text \<open>
  The download pages of the official site: \<open>lib/official.js\<close>. The platform matrix and the choice of a
  platform, the release metadata of the update channels, the choice of a package for a platform, the
  contributors, and the age of the last update.

  Requests are answered by parameters (a \<^typ>\<open>reply\<close> per request), dates are read by the
  parameter \<open>time_of\<close> (milliseconds, \<open>None\<close> for an invalid date). Operating systems
  are never named like a member of \<open>Object.prototype\<close>: the pages take them from the list below.
  Commit hashes, which are cut to seven characters, are ASCII.
\<close>

section \<open>Platforms\<close>

definition OFFICIAL_UPDATE_BASE :: string where
  "OFFICIAL_UPDATE_BASE = ''https://mvnc.pkg.one/update/renop''"

definition GITHUB_REPO :: string where "GITHUB_REPO = ''404Setup/RenoP''"

definition PLATFORMS_os :: "(string \<times> string) list" where
  "PLATFORMS_os = [(''windows'', ''Windows''), (''darwin'', ''macOS''), (''linux'', ''Linux''),
     (''freebsd'', ''FreeBSD''), (''netbsd'', ''NetBSD''), (''openbsd'', ''OpenBSD'')]"

definition PLATFORMS_arch :: "(string \<times> string) list" where
  "PLATFORMS_arch = [(''amd64'', ''amd64 (x86_64)''), (''arm64'', ''arm64 (aarch64)''),
     (''loong64'', ''loong64''), (''riscv64'', ''riscv64'')]"

definition X64_VERSIONS :: "(string \<times> string) list" where
  "X64_VERSIONS = [(''amd64'', ''v1''), (''amd64v2'', ''v2''), (''amd64v3'', ''v3''), (''amd64v4'', ''v4'')]"

definition PLATFORM_MATRIX :: "(string \<times> string list) list" where
  "PLATFORM_MATRIX =
     [(''windows'', [''amd64'', ''arm64'']),
      (''darwin'', [''amd64'', ''arm64'']),
      (''linux'', [''amd64'', ''arm64'', ''loong64'', ''riscv64'']),
      (''freebsd'', [''amd64'', ''arm64'']),
      (''netbsd'', [''amd64'']),
      (''openbsd'', [''amd64'', ''arm64''])]"

definition getArchOptionsForOs :: "string \<Rightarrow> (string \<times> string) list" where
  "getArchOptionsForOs os =
     (case map_of PLATFORM_MATRIX os of
        None \<Rightarrow> []
      | Some allowed \<Rightarrow> filter (\<lambda>a. fst a \<in> set allowed) PLATFORMS_arch)"

definition base_arch :: "string \<Rightarrow> string" where
  "base_arch arch = (if starts_with ''amd64'' arch then ''amd64'' else arch)"

definition isPlatformSupported :: "string \<Rightarrow> string \<Rightarrow> bool" where
  "isPlatformSupported os arch =
     (if os = [] \<or> arch = [] then False
      else (case map_of PLATFORM_MATRIX os of None \<Rightarrow> False | Some arches \<Rightarrow> base_arch arch \<in> set arches))"

definition normalizePlatform :: "string \<Rightarrow> string \<Rightarrow> string \<times> string" where
  "normalizePlatform os arch =
     (let validOs = (if os \<in> set (map fst PLATFORMS_os) then os else ''linux'');
          arches = (case map_of PLATFORM_MATRIX validOs of
                      None \<Rightarrow> the (map_of PLATFORM_MATRIX ''linux'') | Some as \<Rightarrow> as);
          validArch = (if base_arch arch \<in> set arches then arch
                       else (case arches of [] \<Rightarrow> ''amd64'' | a # _ \<Rightarrow> or_else a ''amd64''))
      in (validOs, validArch))"

text \<open>\<open>/word/i.test(s)\<close> for an alternative of words.\<close>

definition mentions :: "string list \<Rightarrow> string \<Rightarrow> bool" where
  "mentions ws s \<longleftrightarrow> list_ex (\<lambda>w. contains (to_lower w) (to_lower s)) ws"

definition detectPlatform :: "string \<Rightarrow> string \<Rightarrow> string \<Rightarrow> string \<times> string" where
  "detectPlatform ua platform uaArch =
     (let os = (if mentions [''Win''] platform \<or> mentions [''Windows''] ua then ''windows''
                else if mentions [''Mac'', ''iPhone'', ''iPad''] platform \<or> mentions [''Mac OS''] ua then ''darwin''
                else if mentions [''FreeBSD''] ua then ''freebsd''
                else if mentions [''NetBSD''] ua then ''netbsd''
                else if mentions [''OpenBSD''] ua then ''openbsd''
                else ''linux'');
          arch = (if mentions [''arm''] uaArch \<or> mentions [''aarch64''] ua then ''arm64''
                  else if mentions [''x86_64'', ''x64'', ''amd64''] uaArch \<or> mentions [''x86_64'', ''Win64'', ''WOW64''] ua
                  then ''amd64'' else ''amd64'')
      in normalizePlatform os arch)"

section \<open>Channels\<close>

definition channel_segment :: "string \<Rightarrow> string" where
  "channel_segment channel = (if channel = ''nightly'' \<or> channel = ''preview'' then ''nightly'' else ''stable'')"

definition channelInfoUrl :: "string \<Rightarrow> string" where
  "channelInfoUrl channel = OFFICIAL_UPDATE_BASE @ ''/'' @ channel_segment channel @ ''/info.json''"

definition packageDownloadUrl :: "string \<Rightarrow> string \<Rightarrow> string \<Rightarrow> string \<Rightarrow> string" where
  "packageDownloadUrl channel version file targetUrl =
     (if targetUrl \<noteq> [] then targetUrl
      else OFFICIAL_UPDATE_BASE @ ''/'' @ channel_segment channel @ ''/'' @ encodeURIComponent version @ ''/'' @
           encodeURIComponent file)"

record target =
  t_os :: string
  t_arch :: string
  t_file :: string
  t_sha256 :: string
  t_size :: int
  t_uncompressedSize :: int
  t_format :: string
  t_executable :: string
  t_downloadUrl :: string

record release =
  r_version :: string
  r_commit :: string
  r_previousCommit :: string
  r_channel :: string
  r_development :: bool
  r_publishedAt :: string
  r_changelog :: string
  r_targets :: "target list"

text \<open>\<open>None\<close> is the \<open>TypeError\<close> of reading a property of null.\<close>

definition parseTarget :: "(string \<Rightarrow> int option) \<Rightarrow> json \<Rightarrow> target option" where
  "parseTarget number_of t =
     (if t = JNull then None
      else Some \<lparr>t_os = first_string [get ''os'' t], t_arch = first_string [get ''arch'' t],
        t_file = first_string [get ''file'' t], t_sha256 = first_string [get ''sha256'' t],
        t_size = number_or_zero number_of (get ''size'' t),
        t_uncompressedSize = number_or_zero number_of
          (if truthy_opt (get ''uncompressed_size'' t) then get ''uncompressed_size'' t else get ''uncompressedSize'' t),
        t_format = first_string [get ''format'' t], t_executable = first_string [get ''executable'' t],
        t_downloadUrl = first_string [get ''download_url'' t, get ''downloadUrl'' t]\<rparr>)"

fun map_all :: "('a \<Rightarrow> 'b option) \<Rightarrow> 'a list \<Rightarrow> 'b list option" where
  "map_all f [] = Some []"
| "map_all f (x # xs) =
     (case f x of None \<Rightarrow> None | Some y \<Rightarrow> (case map_all f xs of None \<Rightarrow> None | Some ys \<Rightarrow> Some (y # ys)))"

definition parseReleaseItem :: "(string \<Rightarrow> int option) \<Rightarrow> string \<Rightarrow> json \<Rightarrow> release option" where
  "parseReleaseItem number_of channelDefault r =
     (if r = JNull then None
      else (case (case get ''targets'' r of Some (JArr ts) \<Rightarrow> map_all (parseTarget number_of) ts | _ \<Rightarrow> Some []) of
              None \<Rightarrow> None
            | Some ts \<Rightarrow>
                Some \<lparr>r_version = first_string [get ''version'' r], r_commit = first_string [get ''commit'' r],
                  r_previousCommit = first_string [get ''previous_commit'' r, get ''previousCommit'' r],
                  r_channel = (if truthy_opt (get ''channel'' r) then first_string [get ''channel'' r] else channelDefault),
                  r_development = truthy_opt (get ''development'' r),
                  r_publishedAt = first_string [get ''published_at'' r, get ''publishedAt'' r],
                  r_changelog = first_string [get ''changelog'' r], r_targets = ts\<rparr>))"

text \<open>The fields of the newest release, and all releases.\<close>

record channel_info =
  newest :: release
  releases :: "release list"

definition fetchChannelInfo :: "(string \<Rightarrow> int option) \<Rightarrow> (string \<Rightarrow> reply) \<Rightarrow> string \<Rightarrow> string + channel_info" where
  "fetchChannelInfo number_of fetch channel =
     (case fetch (channelInfoUrl channel) of
        NetworkError \<Rightarrow> Inl ''TypeError''
      | Reply status body \<Rightarrow>
          if \<not> reply_ok status then Inl (''Official update source HTTP '' @ show_nat status)
          else (case body of
                  None \<Rightarrow> Inl ''SyntaxError''
                | Some data \<Rightarrow>
                    (case get ''releases'' data of
                       Some (JArr (r # rs)) \<Rightarrow>
                         (case map_all (parseReleaseItem number_of channel) (r # rs) of
                            Some (f # fs) \<Rightarrow> Inr \<lparr>newest = f, releases = f # fs\<rparr>
                          | _ \<Rightarrow> Inl ''TypeError'')
                     | _ \<Rightarrow> Inl ''Invalid channel info.json'')))"

section \<open>Choosing a package\<close>

text \<open>One level of the amd64 search: by the declared architecture, then by the file name.\<close>

definition level_arch :: "nat \<Rightarrow> string" where
  "level_arch l = (if l = 1 then ''amd64'' else ''amd64v'' @ show_nat l)"

definition arch_match :: "string \<Rightarrow> nat \<Rightarrow> target \<Rightarrow> bool" where
  "arch_match o' l t \<longleftrightarrow> to_lower (t_os t) = o' \<and>
     (if l = 1 then to_lower (t_arch t) = ''amd64'' \<or> to_lower (t_arch t) = ''amd64v1''
      else to_lower (t_arch t) = level_arch l)"

definition file_match :: "string \<Rightarrow> nat \<Rightarrow> target \<Rightarrow> bool" where
  "file_match o' l t \<longleftrightarrow> to_lower (t_os t) = o' \<and>
     (let file = to_lower (t_file t) in
      if l = 1 then contains (o' @ ''-amd64v1'') file \<or>
        (contains (o' @ ''-amd64'') file \<and> \<not> contains ''amd64v2'' file \<and> \<not> contains ''amd64v3'' file \<and>
         \<not> contains ''amd64v4'' file)
      else contains (o' @ ''-'' @ level_arch l) file)"

fun find_level :: "target list \<Rightarrow> string \<Rightarrow> nat \<Rightarrow> target option" where
  "find_level targets o' 0 = None"
| "find_level targets o' (Suc l) =
     (case find (arch_match o' (Suc l)) targets of
        Some t \<Rightarrow> Some t
      | None \<Rightarrow> (case find (file_match o' (Suc l)) targets of
                   Some t \<Rightarrow> Some t
                 | None \<Rightarrow> find_level targets o' l))"

definition amd64_level :: "string \<Rightarrow> nat" where
  "amd64_level a = (if a = ''amd64v4'' then 4 else if a = ''amd64v3'' then 3 else if a = ''amd64v2'' then 2 else 1)"

definition same_platform :: "string \<Rightarrow> string \<Rightarrow> target \<Rightarrow> bool" where
  "same_platform o' a t \<longleftrightarrow> to_lower (t_os t) = o' \<and> to_lower (t_arch t) = a"

definition findTargetForPlatform :: "target list \<Rightarrow> string \<Rightarrow> string \<Rightarrow> target option" where
  "findTargetForPlatform targets os arch =
     (if targets = [] \<or> os = [] \<or> arch = [] then None
      else (let o' = to_lower os; a = to_lower arch in
        if starts_with ''amd64'' a then find_level targets o' (amd64_level a)
        else (case find (same_platform o' a) targets of
                Some t \<Rightarrow> Some t
              | None \<Rightarrow> find (\<lambda>t. contains (o' @ ''-'' @ a) (to_lower (t_file t))) targets)))"

section \<open>Releases\<close>

definition commitSubject :: "string \<Rightarrow> string" where
  "commitSubject message = js_trim (hd (split_on (CHR 0x0A) (js_trim message)))"

definition isWebOnlyCommit :: "string \<Rightarrow> bool" where
  "isWebOnlyCommit subject = starts_with ''[web]'' (to_lower (commitSubject subject))"

record release_card =
  c_id :: string
  c_tag :: string
  c_name :: string
  c_body :: string
  c_publishedAt :: string
  c_commitSha :: string
  c_targets :: "target list"

record preview_release = release_card +
  c_version :: string
  c_isLatest :: bool

definition stable_tag :: "string \<Rightarrow> string" where
  "stable_tag ver = (if starts_with ''v'' ver then ver else ''v'' @ ver)"

definition stable_url :: "nat \<Rightarrow> string \<Rightarrow> target \<Rightarrow> string" where
  "stable_url index ver t =
     (if t_downloadUrl t \<noteq> [] then t_downloadUrl t
      else if index \<le> 1 then packageDownloadUrl ''stable'' ver (t_file t) []
      else ''https://github.com/'' @ GITHUB_REPO @ ''/releases/download/'' @ encodeURIComponent (stable_tag ver) @ ''/'' @
           encodeURIComponent (t_file t))"

definition stable_card :: "nat \<Rightarrow> release \<Rightarrow> release_card" where
  "stable_card index rel =
     \<lparr>c_id = r_version rel, c_tag = stable_tag (r_version rel), c_name = r_version rel, c_body = r_changelog rel,
      c_publishedAt = r_publishedAt rel, c_commitSha = r_commit rel,
      c_targets = map (\<lambda>t. t\<lparr>t_downloadUrl := stable_url index (r_version rel) t\<rparr>) (r_targets rel)\<rparr>"

definition map_index :: "(nat \<Rightarrow> 'a \<Rightarrow> 'b) \<Rightarrow> 'a list \<Rightarrow> 'b list" where
  "map_index f xs = map (\<lambda>(i, x). f i x) (zip [0..<length xs] xs)"

definition fetchStableReleases :: "(string \<Rightarrow> int option) \<Rightarrow> (string \<Rightarrow> reply) \<Rightarrow> string + release_card list" where
  "fetchStableReleases number_of fetch =
     (case fetchChannelInfo number_of fetch ''stable'' of
        Inl e \<Rightarrow> Inl e
      | Inr info \<Rightarrow> Inr (map_index stable_card (releases info)))"

definition preview_name :: "release \<Rightarrow> string" where
  "preview_name rel =
     (if starts_with ''nightly-'' (r_version rel) then r_version rel
      else ''nightly-'' @ or_else (take 7 (or_else (r_commit rel) (r_version rel))) (r_version rel))"

definition preview_card :: "nat \<Rightarrow> release \<Rightarrow> preview_release" where
  "preview_card index rel =
     \<lparr>c_id = r_version rel, c_tag = preview_name rel, c_name = preview_name rel, c_body = r_changelog rel,
      c_publishedAt = r_publishedAt rel, c_commitSha = r_commit rel, c_targets = r_targets rel, c_version = r_version rel,
      c_isLatest = (index = 0)\<rparr>"

definition fetchPreviewReleases :: "(string \<Rightarrow> int option) \<Rightarrow> (string \<Rightarrow> reply) \<Rightarrow> string + preview_release list" where
  "fetchPreviewReleases number_of fetch =
     (case fetchChannelInfo number_of fetch ''nightly'' of
        Inl e \<Rightarrow> Inl e
      | Inr info \<Rightarrow> Inr (map_index preview_card (take 100 (releases info))))"

definition first_card :: "string + 'c list \<Rightarrow> string + 'c option" where
  "first_card r = (case r of Inl e \<Rightarrow> Inl e | Inr cs \<Rightarrow> Inr (case cs of [] \<Rightarrow> None | c # _ \<Rightarrow> Some c))"

definition fetchStableRelease :: "(string \<Rightarrow> int option) \<Rightarrow> (string \<Rightarrow> reply) \<Rightarrow> string + release_card option" where
  "fetchStableRelease number_of fetch = first_card (fetchStableReleases number_of fetch)"

definition fetchPreviewInfo :: "(string \<Rightarrow> int option) \<Rightarrow> (string \<Rightarrow> reply) \<Rightarrow> string + preview_release option" where
  "fetchPreviewInfo number_of fetch = first_card (fetchPreviewReleases number_of fetch)"

section \<open>Contributors\<close>

record contributor =
  k_id :: int
  k_login :: string
  k_avatarUrl :: string
  k_htmlUrl :: string
  k_contributions :: int

text \<open>One entry of the list GitHub returns, null for \<open>None\<close>.\<close>

record account = contributor +
  k_type :: string

definition keep :: "account option \<Rightarrow> contributor option" where
  "keep c =
     (case c of
        None \<Rightarrow> None
      | Some a \<Rightarrow> if k_type a = ''Bot'' then None else Some (contributor.truncate a))"

text \<open>The answer to a page request: the network failed, a status without success, no array, or a batch.\<close>

datatype page_reply = PageFailed | PageStatus nat | PageNoArray | Page "account option list"

text \<open>
  The loop from \<open>page\<close> on, with the number of pages left; the result is the list of requested pages
  and the error or the contributors.
\<close>

fun contributor_pages :: "(nat \<Rightarrow> page_reply) \<Rightarrow> nat \<Rightarrow> nat \<Rightarrow> nat \<Rightarrow> nat list \<times> (string + contributor list)" where
  "contributor_pages fetch perPage page 0 = ([], Inr [])"
| "contributor_pages fetch perPage page (Suc left) =
     (case fetch page of
        PageFailed \<Rightarrow> ([page], Inl ''TypeError'')
      | PageStatus status \<Rightarrow> ([page], Inl (''GitHub contributors HTTP '' @ show_nat status))
      | PageNoArray \<Rightarrow> ([page], Inr [])
      | Page batch \<Rightarrow>
          if batch = [] then ([page], Inr [])
          else (let kept = List.map_filter keep batch in
                if length batch < perPage then ([page], Inr kept)
                else (case contributor_pages fetch perPage (page + 1) left of
                        (ps, Inl e) \<Rightarrow> (page # ps, Inl e)
                      | (ps, Inr cs) \<Rightarrow> (page # ps, Inr (kept @ cs)))))"

definition fetchContributors :: "(nat \<Rightarrow> page_reply) \<Rightarrow> nat \<Rightarrow> nat \<Rightarrow> nat list \<times> (string + contributor list)" where
  "fetchContributors fetch perPage maxPages = contributor_pages fetch perPage 1 maxPages"

section \<open>The last update\<close>

definition channel_time :: "(string \<Rightarrow> int option) \<Rightarrow> string + channel_info \<Rightarrow> int option" where
  "channel_time time_of r =
     (case r of
        Inl e \<Rightarrow> None
      | Inr info \<Rightarrow>
          if r_publishedAt (newest info) = [] then None
          else (case time_of (r_publishedAt (newest info)) of
                  None \<Rightarrow> None
                | Some time \<Rightarrow> if time > 0 then Some time else None))"

definition commit_time :: "(string \<Rightarrow> int option) \<Rightarrow> reply \<Rightarrow> int option" where
  "commit_time time_of r =
     (case r of
        Reply status (Some (JArr (c # cs))) \<Rightarrow>
          if \<not> reply_ok status then None
          else (let date = (\<lambda>who. Option.bind (Option.bind (get ''commit'' c) (get who)) (get ''date''));
                    dateStr = (if truthy_opt (date ''committer'') then date ''committer'' else date ''author'') in
                if \<not> truthy_opt dateStr then None
                else (case time_of (json_string (the dateStr)) of
                        None \<Rightarrow> None
                      | Some time \<Rightarrow> if time > 0 then Some time else None))
      | _ \<Rightarrow> None)"

text \<open>The cached time stamp and the result; the cache is the module variable.\<close>

definition fetchLatestUpdateTimestamp ::
  "(string \<Rightarrow> int option) \<Rightarrow> (string \<Rightarrow> int option) \<Rightarrow> (string \<Rightarrow> reply) \<Rightarrow> int option \<Rightarrow> int option \<times> int option" where
  "fetchLatestUpdateTimestamp number_of time_of fetch cached =
     (case cached of
        Some t \<Rightarrow> (cached, Some t)
      | None \<Rightarrow>
          (case channel_time time_of (fetchChannelInfo number_of fetch ''nightly'') of
             Some t \<Rightarrow> (Some t, Some t)
           | None \<Rightarrow>
               (case channel_time time_of (fetchChannelInfo number_of fetch ''stable'') of
                  Some t \<Rightarrow> (Some t, Some t)
                | None \<Rightarrow>
                    (case commit_time time_of (fetch (''https://api.github.com/repos/'' @ GITHUB_REPO @ ''/commits?per_page=1'')) of
                       Some t \<Rightarrow> (Some t, Some t)
                     | None \<Rightarrow> (None, None)))))"

section \<open>Durations\<close>

abbreviation "YEAR \<equiv> (365 * 86400 :: nat)"
abbreviation "MONTH \<equiv> (30 * 86400 :: nat)"
abbreviation "DAY \<equiv> (86400 :: nat)"
abbreviation "HOUR \<equiv> (3600 :: nat)"
abbreviation "MINUTE \<equiv> (60 :: nat)"

text \<open>The two units: value and type of each.\<close>

definition duration_units :: "nat \<Rightarrow> (nat \<times> string) \<times> (nat \<times> string)" where
  "duration_units s =
     (if s \<ge> YEAR then
        (let rem = s mod YEAR; months = rem div MONTH; days = rem div DAY in
         ((s div YEAR, ''year''),
          if months > 0 then (months, ''month'') else if days > 0 then (days, ''day'') else (0, [])))
      else if s \<ge> MONTH then
        (let rem = s mod MONTH; days = rem div DAY; hours = rem div HOUR in
         ((s div MONTH, ''month''),
          if days > 0 then (days, ''day'') else if hours > 0 then (hours, ''hour_short'') else (0, [])))
      else if s \<ge> DAY then
        (let rem = s mod DAY; hours = rem div HOUR; mins = rem div MINUTE in
         ((s div DAY, ''day''),
          if hours > 0 then (hours, ''hour_short'') else if mins > 0 then (mins, ''minute_short'') else (0, [])))
      else if s \<ge> HOUR then
        (let rem = s mod HOUR; mins = rem div MINUTE; secs = rem mod MINUTE in
         ((s div HOUR, ''hour''),
          if mins > 0 then (mins, ''minute_short'') else if secs > 0 then (secs, ''second'') else (0, [])))
      else if s \<ge> MINUTE then
        (let secs = s mod MINUTE in
         ((s div MINUTE, ''minute''), if secs > 0 then (secs, ''second'') else (0, [])))
      else ((s, ''second''), (0, [])))"

definition plural :: "nat \<Rightarrow> string \<Rightarrow> string \<Rightarrow> string" where
  "plural val singular pl = show_nat val @ '' '' @ (if val = 1 then singular else pl)"

definition plural_fr :: "nat \<Rightarrow> string \<Rightarrow> string \<Rightarrow> string" where
  "plural_fr val singular pl = show_nat val @ '' '' @ (if val \<le> 1 then singular else pl)"

definition formatZh :: "nat \<Rightarrow> string \<Rightarrow> string" where
  "formatZh val type =
     (if type = ''year'' then show_nat val @ [CHR 0xE5, CHR 0xB9, CHR 0xB4]
      else if type = ''month'' then show_nat val @ [CHR 0xE4, CHR 0xB8, CHR 0xAA, CHR 0xE6, CHR 0x9C, CHR 0x88]
      else if type = ''day'' then show_nat val @ [CHR 0xE5, CHR 0xA4, CHR 0xA9]
      else if type = ''hour_short'' then show_nat val @ [CHR 0xE6, CHR 0x97, CHR 0xB6]
      else if type = ''hour'' then show_nat val @ [CHR 0xE5, CHR 0xB0, CHR 0x8F, CHR 0xE6, CHR 0x97, CHR 0xB6]
      else if type = ''minute_short'' then show_nat val @ [CHR 0xE5, CHR 0x88, CHR 0x86]
      else if type = ''minute'' then show_nat val @ [CHR 0xE5, CHR 0x88, CHR 0x86, CHR 0xE9, CHR 0x92, CHR 0x9F]
      else if type = ''second'' then show_nat val @ [CHR 0xE7, CHR 0xA7, CHR 0x92]
      else show_nat val)"

definition formatJa :: "nat \<Rightarrow> string \<Rightarrow> string" where
  "formatJa val type =
     (if type = ''year'' then show_nat val @ [CHR 0xE5, CHR 0xB9, CHR 0xB4]
      else if type = ''month'' then show_nat val @ [CHR 0xE3, CHR 0x83, CHR 0xB6, CHR 0xE6, CHR 0x9C, CHR 0x88]
      else if type = ''day'' then show_nat val @ [CHR 0xE6, CHR 0x97, CHR 0xA5]
      else if type = ''hour_short'' \<or> type = ''hour'' then show_nat val @ [CHR 0xE6, CHR 0x99, CHR 0x82, CHR 0xE9, CHR 0x96, CHR 0x93]
      else if type = ''minute_short'' \<or> type = ''minute'' then show_nat val @ [CHR 0xE5, CHR 0x88, CHR 0x86]
      else if type = ''second'' then show_nat val @ [CHR 0xE7, CHR 0xA7, CHR 0x92]
      else show_nat val)"

definition formatEn :: "nat \<Rightarrow> string \<Rightarrow> string" where
  "formatEn val type =
     (if type = ''year'' then plural val ''year'' ''years''
      else if type = ''month'' then plural val ''month'' ''months''
      else if type = ''day'' then plural val ''day'' ''days''
      else if type = ''hour_short'' \<or> type = ''hour'' then plural val ''hour'' ''hours''
      else if type = ''minute_short'' \<or> type = ''minute'' then plural val ''minute'' ''minutes''
      else if type = ''second'' then plural val ''second'' ''seconds''
      else show_nat val)"

definition formatFr :: "nat \<Rightarrow> string \<Rightarrow> string" where
  "formatFr val type =
     (if type = ''year'' then plural_fr val ''an'' ''ans''
      else if type = ''month'' then show_nat val @ '' mois''
      else if type = ''day'' then plural_fr val ''jour'' ''jours''
      else if type = ''hour_short'' \<or> type = ''hour'' then plural_fr val ''heure'' ''heures''
      else if type = ''minute_short'' \<or> type = ''minute'' then plural_fr val ''minute'' ''minutes''
      else if type = ''second'' then plural_fr val ''seconde'' ''secondes''
      else show_nat val)"

definition formatRu :: "nat \<Rightarrow> string \<Rightarrow> string" where
  "formatRu val type =
     (if type = ''year'' then show_nat val @ ('' '' @ [CHR 0xD0, CHR 0xB3] @ ''.'')
      else if type = ''month'' then show_nat val @ ('' '' @ [CHR 0xD0, CHR 0xBC, CHR 0xD0, CHR 0xB5, CHR 0xD1, CHR 0x81] @ ''.'')
      else if type = ''day'' then show_nat val @ ('' '' @ [CHR 0xD0, CHR 0xB4, CHR 0xD0, CHR 0xBD] @ ''.'')
      else if type = ''hour_short'' \<or> type = ''hour'' then show_nat val @ ('' '' @ [CHR 0xD1, CHR 0x87] @ ''.'')
      else if type = ''minute_short'' \<or> type = ''minute'' then show_nat val @ ('' '' @ [CHR 0xD0, CHR 0xBC, CHR 0xD0, CHR 0xB8, CHR 0xD0, CHR 0xBD] @ ''.'')
      else if type = ''second'' then show_nat val @ ('' '' @ [CHR 0xD1, CHR 0x81, CHR 0xD0, CHR 0xB5, CHR 0xD0, CHR 0xBA] @ ''.'')
      else show_nat val)"

definition two_units :: "(nat \<Rightarrow> string \<Rightarrow> string) \<Rightarrow> string \<Rightarrow> (nat \<times> string) \<times> (nat \<times> string) \<Rightarrow> string" where
  "two_units fmt sep us =
     (case us of ((v1, t1), (v2, t2)) \<Rightarrow> if v2 > 0 then fmt v1 t1 @ sep @ fmt v2 t2 else fmt v1 t1)"

definition formatDurationTwoUnits :: "int \<Rightarrow> string \<Rightarrow> string" where
  "formatDurationTwoUnits diffSeconds lang =
     (let us = duration_units (nat (max 0 diffSeconds)) in
      if starts_with ''zh'' lang then two_units formatZh [] us
      else if starts_with ''ja'' lang then two_units formatJa '' '' us
      else if starts_with ''fr'' lang then two_units formatFr '' '' us
      else if starts_with ''ru'' lang then two_units formatRu '' '' us
      else two_units formatEn '' '' us)"

section \<open>Platforms on offer are supported\<close>

text \<open>The matrix has exactly the listed systems, each with amd64 first and only listed base architectures.\<close>

lemma matrix_rows:
  "list_all (\<lambda>(os, as). os \<noteq> [] \<and> as \<noteq> [] \<and> hd as = ''amd64'' \<and>
     list_all (\<lambda>a. a \<noteq> [] \<and> a \<in> set (map fst PLATFORMS_arch) \<and> base_arch a = a) as) PLATFORM_MATRIX"
  by code_simp

lemma matrix_keys: "map fst PLATFORM_MATRIX = map fst PLATFORMS_os"
  by code_simp

lemma matrix_platforms: "os \<in> set (map fst PLATFORMS_os) \<longleftrightarrow> map_of PLATFORM_MATRIX os \<noteq> None"
  by (simp add: map_of_eq_None_iff matrix_keys [symmetric])

lemma matrix_row:
  assumes "map_of PLATFORM_MATRIX os = Some as"
  shows "os \<noteq> []" "as \<noteq> []" "hd as = ''amd64''" "[] \<notin> set as" "set as \<subseteq> set (map fst PLATFORMS_arch)"
    "a \<in> set as \<Longrightarrow> base_arch a = a"
  using map_of_SomeD [OF assms] matrix_rows by (auto simp: list_all_iff)

lemma base_arch_amd64 [simp]: "base_arch ''amd64'' = ''amd64''" "base_arch [] = []"
  by (simp_all add: base_arch_def)

lemma normalizePlatform_supported: "isPlatformSupported (fst (normalizePlatform os arch)) (snd (normalizePlatform os arch))"
proof -
  define valid where "valid = (if os \<in> set (map fst PLATFORMS_os) then os else ''linux'')"
  have "''linux'' \<in> set (map fst PLATFORMS_os)" by code_simp
  then have "valid \<in> set (map fst PLATFORMS_os)" by (simp add: valid_def)
  then obtain as where as: "map_of PLATFORM_MATRIX valid = Some as" unfolding matrix_platforms by auto
  obtain r where r: "as = ''amd64'' # r" "valid \<noteq> []" "[] \<notin> set as"
    using matrix_row(1-4) [OF as] by (cases as) auto
  have n: "normalizePlatform os arch = (valid, if base_arch arch \<in> set as then arch else ''amd64'')"
    unfolding normalizePlatform_def Let_def valid_def [symmetric] as by (simp add: r(1))
  have "base_arch arch \<in> set as \<Longrightarrow> arch \<noteq> []" using r(3) by auto
  then show ?thesis using r by (auto simp: n isPlatformSupported_def as)
qed

lemma normalizePlatform_keeps: "isPlatformSupported os arch \<Longrightarrow> normalizePlatform os arch = (os, arch)"
  using matrix_platforms [of os]
  by (auto simp: isPlatformSupported_def normalizePlatform_def Let_def split: if_splits option.splits)

lemma arch_options: "a \<in> set (map fst (getArchOptionsForOs os)) \<longleftrightarrow> a = base_arch a \<and> isPlatformSupported os a"
proof (cases "map_of PLATFORM_MATRIX os")
  case None
  then show ?thesis by (simp add: getArchOptionsForOs_def isPlatformSupported_def)
next
  case (Some as)
  have "set (map fst (filter (\<lambda>x. fst x \<in> set as) PLATFORMS_arch)) = set (map fst PLATFORMS_arch) \<inter> set as" by auto
  then have "set (map fst (getArchOptionsForOs os)) = set as"
    using matrix_row(5) [OF Some] by (auto simp: getArchOptionsForOs_def Some)
  then show ?thesis using matrix_row [OF Some] by (auto simp: isPlatformSupported_def Some)
qed

text \<open>
  the site only ever offers packages that are built. A platform chosen or detected in the browser is
  always one of the matrix, a supported choice is kept as it is, and the architectures on
  offer for an operating system are exactly its supported base architectures.
\<close>

theorem platform_always_supported:
  "(\<forall>os arch. let (o', a) = normalizePlatform os arch in isPlatformSupported o' a) \<and>
   (\<forall>ua platform uaArch. let (o', a) = detectPlatform ua platform uaArch in isPlatformSupported o' a) \<and>
   (\<forall>os arch. isPlatformSupported os arch \<longrightarrow> normalizePlatform os arch = (os, arch)) \<and>
   (\<forall>os a. a \<in> set (map fst (getArchOptionsForOs os)) \<longleftrightarrow> a = base_arch a \<and> isPlatformSupported os a)"
  using normalizePlatform_supported normalizePlatform_keeps arch_options
  unfolding detectPlatform_def Let_def by (auto simp: case_prod_beta)

theorem platform_always_supported_witness:
  "isPlatformSupported ''linux'' ''riscv64'' \<and> normalizePlatform ''linux'' ''riscv64'' = (''linux'', ''riscv64'')"
proof -
  have "isPlatformSupported ''linux'' ''riscv64''" by code_simp
  then show ?thesis using platform_always_supported by blast
qed

section \<open>The package that fits best\<close>

definition fits :: "string \<Rightarrow> nat \<Rightarrow> target \<Rightarrow> bool" where
  "fits o' l t \<longleftrightarrow> arch_match o' l t \<or> file_match o' l t"

lemma find_level_Some:
  "find_level ts o' n = Some t \<Longrightarrow>
   \<exists>l. 1 \<le> l \<and> l \<le> n \<and> t \<in> set ts \<and> fits o' l t \<and> (\<exists>u\<in>set ts. arch_match o' l u) = arch_match o' l t \<and>
     (\<forall>k u. l < k \<and> k \<le> n \<and> u \<in> set ts \<longrightarrow> \<not> fits o' k u)"
proof (induction n)
  case 0
  then show ?case by simp
next
  case (Suc n)
  show ?case
  proof (cases "\<exists>u\<in>set ts. fits o' (Suc n) u")
    case True
    then have "t \<in> set ts \<and> fits o' (Suc n) t \<and> (\<exists>u\<in>set ts. arch_match o' (Suc n) u) = arch_match o' (Suc n) t"
      using Suc.prems unfolding fits_def
      by (auto simp: find_None_iff find_Some_iff split: option.splits)
    then show ?thesis by (intro exI [of _ "Suc n"]) auto
  next
    case False
    then have "find_level ts o' n = Some t"
      using Suc.prems by (auto simp: fits_def find_Some_iff split: option.splits)
    from Suc.IH [OF this] False show ?thesis by (metis le_SucE le_SucI)
  qed
qed

lemma find_level_None: "find_level ts o' n = None \<longleftrightarrow> (\<forall>l u. 1 \<le> l \<and> l \<le> n \<and> u \<in> set ts \<longrightarrow> \<not> fits o' l u)"
proof (induction n)
  case 0
  then show ?case by auto
next
  case (Suc n)
  have "find_level ts o' (Suc n) = None \<longleftrightarrow> (\<forall>u\<in>set ts. \<not> fits o' (Suc n) u) \<and> find_level ts o' n = None"
    by (auto simp: fits_def find_None_iff find_Some_iff split: option.splits)
  also have "\<dots> \<longleftrightarrow> (\<forall>l u. 1 \<le> l \<and> l \<le> Suc n \<and> u \<in> set ts \<longrightarrow> \<not> fits o' l u)"
    unfolding Suc.IH using le_Suc_eq [of _ n] by fastforce
  finally show ?case .
qed

text \<open>
  the package offered for a platform is one of the release, and the best one. For amd64 it is a
  package for the operating system at a level the machine has (never a higher one), no package fits a level in
  between, and a declared architecture wins over a matching file name; nothing is offered
  only when no package fits any level. For the other architectures an exact match wins over a file name.
\<close>

theorem best_package:
  assumes "os \<noteq> []" and "arch \<noteq> []"
  shows "let o' = to_lower os; a = to_lower arch; found = findTargetForPlatform targets os arch in
    if starts_with ''amd64'' a then
      (case found of
         Some t \<Rightarrow> \<exists>l. 1 \<le> l \<and> l \<le> amd64_level a \<and> t \<in> set targets \<and> to_lower (t_os t) = o' \<and> fits o' l t \<and>
           ((\<exists>u\<in>set targets. arch_match o' l u) \<longrightarrow> arch_match o' l t) \<and>
           (\<forall>k u. l < k \<and> k \<le> amd64_level a \<and> u \<in> set targets \<longrightarrow> \<not> fits o' k u)
       | None \<Rightarrow> \<forall>l u. 1 \<le> l \<and> l \<le> amd64_level a \<and> u \<in> set targets \<longrightarrow> \<not> fits o' l u)
    else
      (case found of
         Some t \<Rightarrow> t \<in> set targets \<and>
           (same_platform o' a t \<or>
            contains (o' @ ''-'' @ a) (to_lower (t_file t)) \<and> (\<forall>u\<in>set targets. \<not> same_platform o' a u))
       | None \<Rightarrow> \<forall>u\<in>set targets. \<not> same_platform o' a u \<and> \<not> contains (o' @ ''-'' @ a) (to_lower (t_file u)))"
proof -
  define o' a where "o' = to_lower os" and "a = to_lower arch"
  have os: "fits o' l t \<Longrightarrow> to_lower (t_os t) = o'" for l t
    by (auto simp: fits_def arch_match_def file_match_def)
  show ?thesis
  proof (cases "starts_with ''amd64'' a")
    case True
    then have f: "findTargetForPlatform targets os arch = find_level targets o' (amd64_level a)"
      using assms find_level_None [of "[]"]
      by (auto simp: findTargetForPlatform_def Let_def o'_def a_def)
    show ?thesis
    proof (cases "find_level targets o' (amd64_level a)")
      case None
      then show ?thesis
        using True find_level_None [of targets o' "amd64_level a"]
        unfolding Let_def o'_def [symmetric] a_def [symmetric] f by simp
    next
      case (Some t)
      then show ?thesis
        using True find_level_Some [OF Some] os
        unfolding Let_def o'_def [symmetric] a_def [symmetric] f by auto
    qed
  next
    case False
    then show ?thesis
      using assms unfolding Let_def o'_def [symmetric] a_def [symmetric]
      by (auto simp: findTargetForPlatform_def Let_def o'_def [symmetric] a_def [symmetric] find_None_iff find_Some_iff
          split: option.splits)
  qed
qed

definition sample_target :: "string \<Rightarrow> string \<Rightarrow> string \<Rightarrow> target" where
  "sample_target os arch file =
     \<lparr>t_os = os, t_arch = arch, t_file = file, t_sha256 = [], t_size = 0, t_uncompressedSize = 0, t_format = ''zip'',
      t_executable = [], t_downloadUrl = []\<rparr>"

definition sample_targets :: "target list" where
  "sample_targets = [sample_target ''linux'' ''amd64'' ''renop-linux-amd64.zip'',
     sample_target ''linux'' ''amd64v2'' ''renop-linux-amd64v2.zip'']"

theorem best_package_witness:
  "findTargetForPlatform sample_targets ''linux'' ''amd64v3'' = Some (sample_targets ! 1) \<and>
   \<not> fits ''linux'' 3 (sample_targets ! 0)"
proof -
  have f: "findTargetForPlatform sample_targets ''linux'' ''amd64v3'' = Some (sample_targets ! 1)"
    and l: "to_lower ''linux'' = ''linux''" "to_lower ''amd64v3'' = ''amd64v3''" "amd64_level ''amd64v3'' = 3"
      "starts_with ''amd64'' ''amd64v3''"
    and n: "\<not> fits ''linux'' 1 (sample_targets ! 1)" "\<not> fits ''linux'' 3 (sample_targets ! 1)"
    unfolding fits_def by code_simp+
  from best_package [of "''linux''" "''amd64v3''" sample_targets]
  obtain k where k: "1 \<le> k" "k \<le> 3" "fits ''linux'' k (sample_targets ! 1)"
    "\<forall>m u. k < m \<and> m \<le> 3 \<and> u \<in> set sample_targets \<longrightarrow> \<not> fits ''linux'' m u"
    unfolding Let_def f l using l(4) by auto
  then have "k \<noteq> 1" "k \<noteq> 3" using n by auto
  then have "k = 2" using k by linarith
  moreover have "sample_targets ! 0 \<in> set sample_targets" by (simp add: sample_targets_def)
  ultimately show ?thesis using f k(4) [rule_format, of 3 "sample_targets ! 0"] by simp
qed

section \<open>Downloads of a release\<close>

lemma encode_no_slash: "CHR ''/'' \<notin> set (encodeURIComponent s)"
  by (auto simp: encodeURIComponent_def encode_byte_def escape_def unreserved_def Let_def
      hex_char_not_slash [OF byte_div_16, THEN not_sym] hex_char_not_slash [THEN not_sym])

lemma length_map_index [simp]: "length (map_index f xs) = length xs"
  by (simp add: map_index_def)

lemma nth_map_index [simp]: "i < length xs \<Longrightarrow> map_index f xs ! i = f i (xs ! i)"
  by (simp add: map_index_def)

lemma utf8_wf_tag: "utf8_wf ver \<Longrightarrow> utf8_wf (stable_tag ver)"
  by (simp add: stable_tag_def utf8_more_def utf8_tail_def)

text \<open>The last two segments of a download URL: the directory of the release and the file.\<close>

definition url_segments :: "string \<Rightarrow> string list" where
  "url_segments url = (let ss = split_on CHR ''/'' url in drop (length ss - 2) ss)"

lemma url_segments_two:
  assumes "CHR ''/'' \<notin> set a" "CHR ''/'' \<notin> set b"
  shows "url_segments (p @ ''/'' @ a @ ''/'' @ b) = [a, b]"
proof -
  have "split_on CHR ''/'' (p @ CHR ''/'' # q) = split_on CHR ''/'' p @ split_on CHR ''/'' q" for q
    by (induction p) (auto split: list.splits)
  then show ?thesis using assms by (simp add: url_segments_def split_on_append split_on_single Let_def)
qed

lemma stable_url_segments:
  assumes "t_downloadUrl t = []" "utf8_wf ver" "utf8_wf (t_file t)"
  shows "starts_with (if index \<le> 1 then OFFICIAL_UPDATE_BASE @ ''/stable/''
      else ''https://github.com/'' @ GITHUB_REPO @ ''/releases/download/'') (stable_url index ver t)"
    and "map decodeURIComponent (url_segments (stable_url index ver t)) =
      [Some (if index \<le> 1 then ver else stable_tag ver), Some (t_file t)]"
proof -
  have o: "stable_url index ver t = (OFFICIAL_UPDATE_BASE @ ''/stable'') @ ''/'' @ encodeURIComponent ver @ ''/'' @
      encodeURIComponent (t_file t)" if "index \<le> 1"
    using that assms(1) by (simp add: stable_url_def packageDownloadUrl_def channel_segment_def)
  have g: "stable_url index ver t = (''https://github.com/'' @ GITHUB_REPO @ ''/releases/download'') @ ''/'' @
      encodeURIComponent (stable_tag ver) @ ''/'' @ encodeURIComponent (t_file t)" if "\<not> index \<le> 1"
    using that assms(1) by (simp add: stable_url_def)
  note dec = decode_encode_component [OF assms(2)] decode_encode_component [OF assms(3)]
    decode_encode_component [OF utf8_wf_tag [OF assms(2)]]
  show "map decodeURIComponent (url_segments (stable_url index ver t)) =
      [Some (if index \<le> 1 then ver else stable_tag ver), Some (t_file t)]"
    by (cases "index \<le> 1") (simp_all only: o g url_segments_two encode_no_slash not_False_eq_True list.map dec if_True if_False)
  show "starts_with (if index \<le> 1 then OFFICIAL_UPDATE_BASE @ ''/stable/''
      else ''https://github.com/'' @ GITHUB_REPO @ ''/releases/download/'') (stable_url index ver t)"
    by (cases "index \<le> 1") (auto simp: o g starts_with_iff)
qed

text \<open>A good address for a package of the release at an index of the channel.\<close>

definition good_address :: "nat \<Rightarrow> string \<Rightarrow> target \<Rightarrow> string \<Rightarrow> bool" where
  "good_address index ver t url \<longleftrightarrow>
     (if t_downloadUrl t \<noteq> [] then url = t_downloadUrl t
      else starts_with (if index \<le> 1 then OFFICIAL_UPDATE_BASE @ ''/stable/''
             else ''https://github.com/'' @ GITHUB_REPO @ ''/releases/download/'') url \<and>
           map decodeURIComponent (url_segments url) =
             [Some (if index \<le> 1 then ver else stable_tag ver), Some (t_file t)])"

lemma stable_url_good: "utf8_wf ver \<Longrightarrow> utf8_wf (t_file t) \<Longrightarrow> good_address index ver t (stable_url index ver t)"
  using stable_url_segments [of t ver index] unfolding good_address_def by (simp add: stable_url_def [of index ver t])

definition well_formed :: "release \<Rightarrow> bool" where
  "well_formed rel \<longleftrightarrow> utf8_wf (r_version rel) \<and> list_all (\<lambda>t. utf8_wf (t_file t)) (r_targets rel)"

lemma stable_card_good:
  assumes "well_formed rel"
  shows "list_all2 (\<lambda>t p. t_file p = t_file t \<and> good_address index (r_version rel) t (t_downloadUrl p))
    (r_targets rel) (c_targets (stable_card index rel))"
  using assms by (auto simp: stable_card_def list_all2_conv_all_nth well_formed_def list_all_iff intro: stable_url_good)

text \<open>
  every package of the stable channel has a download address. The cards keep the releases of the
  channel in order with their versions and packages; an address the channel gives is kept, and any other
  package is fetched from the official host (the two newest releases) or from the release on GitHub, where the
  last two segments of the address decode to the version (or tag) and the file name, whatever characters they contain.
\<close>

theorem stable_downloads:
  assumes "fetchChannelInfo number_of fetch ''stable'' = Inr info" and "list_all well_formed (releases info)"
  shows "\<exists>cards. fetchStableReleases number_of fetch = Inr cards \<and> map c_id cards = map r_version (releases info) \<and>
    (\<forall>i < length cards.
       list_all2 (\<lambda>t p. t_file p = t_file t \<and> good_address i (r_version (releases info ! i)) t (t_downloadUrl p))
         (r_targets (releases info ! i)) (c_targets (cards ! i)))"
proof (intro exI [of _ "map_index stable_card (releases info)"] conjI)
  show "fetchStableReleases number_of fetch = Inr (map_index stable_card (releases info))"
    by (simp add: fetchStableReleases_def assms(1))
  show "map c_id (map_index stable_card (releases info)) = map r_version (releases info)"
    by (rule nth_equalityI) (simp_all add: stable_card_def)
qed (use assms(2) in \<open>auto simp: list_all_length intro: stable_card_good\<close>)

definition sample_info :: json where
  "sample_info = JObj [(''releases'', JArr [JObj [(''version'', JStr ''1.2.0''),
     (''targets'', JArr [JObj [(''os'', JStr ''linux''), (''file'', JStr ''renop linux/amd64.zip'')]])]])]"

definition sample_fetch :: "string \<Rightarrow> reply" where
  "sample_fetch url = (if url = channelInfoUrl ''stable'' then Reply 200 (Some sample_info) else NetworkError)"

theorem stable_downloads_witness:
  "\<exists>cards p. fetchStableReleases (\<lambda>s. None) sample_fetch = Inr cards \<and> p \<in> set (c_targets (cards ! 0)) \<and>
     map decodeURIComponent (url_segments (t_downloadUrl p)) = [Some ''1.2.0'', Some ''renop linux/amd64.zip'']"
proof -
  obtain info where i: "fetchChannelInfo (\<lambda>s. None) sample_fetch ''stable'' = Inr info"
    and t: "map t_downloadUrl (r_targets (releases info ! 0)) = [[]]"
      "map t_file (r_targets (releases info ! 0)) = [''renop linux/amd64.zip'']"
      "r_version (releases info ! 0) = ''1.2.0''" "length (releases info) = 1"
    by (simp add: fetchChannelInfo_def sample_fetch_def sample_info_def parseReleaseItem_def parseTarget_def truthy_opt_def
        reply_ok_def)
  define rel where "rel = releases info ! 0"
  obtain x where x: "r_targets rel = [x]" "t_file x = ''renop linux/amd64.zip''" "t_downloadUrl x = []"
    using t(1,2) by (auto simp: rel_def map_eq_Cons_conv)
  have rel: "releases info = [rel]" using t(4) by (cases "releases info") (auto simp: rel_def)
  have "utf8_wf ''1.2.0''" "utf8_wf ''renop linux/amd64.zip''" by code_simp+
  then have "list_all well_formed (releases info)"
    using t(3) x by (simp add: rel well_formed_def rel_def [symmetric] del: utf8_wf.simps)
  from stable_downloads [OF i this] obtain cards where c: "fetchStableReleases (\<lambda>s. None) sample_fetch = Inr cards"
    "map c_id cards = [''1.2.0'']" and g: "\<forall>i < length cards.
       list_all2 (\<lambda>t p. t_file p = t_file t \<and> good_address i (r_version (releases info ! i)) t (t_downloadUrl p))
         (r_targets (releases info ! i)) (c_targets (cards ! i))"
    using t(3) by (auto simp: rel rel_def [symmetric])
  have "0 < length cards" using c(2) by auto
  from g [rule_format, OF this] t(3) x
  obtain p where "c_targets (cards ! 0) = [p]" "good_address 0 ''1.2.0'' x (t_downloadUrl p)"
    unfolding rel_def [symmetric] by (auto simp: list_all2_Cons1)
  with x c show ?thesis by (auto simp: good_address_def)
qed

section \<open>Contributors\<close>

text \<open>The batch a page request yields, and whether a later page is requested after it.\<close>

definition batch_of :: "page_reply \<Rightarrow> account option list" where
  "batch_of r = (case r of Page b \<Rightarrow> b | _ \<Rightarrow> [])"

definition goes_on :: "nat \<Rightarrow> page_reply \<Rightarrow> bool" where
  "goes_on perPage r \<longleftrightarrow> (case r of Page b \<Rightarrow> b \<noteq> [] \<and> length b \<ge> perPage | _ \<Rightarrow> False)"

lemma contributor_pages_spec:
  "contributor_pages fetch perPage page left = (ps, res) \<Longrightarrow>
   ps = [page..<page + length ps] \<and> length ps \<le> left \<and>
   (\<forall>p\<in>set (butlast ps). goes_on perPage (fetch p)) \<and>
   (ps \<noteq> [] \<and> goes_on perPage (fetch (last ps)) \<longrightarrow> length ps = left) \<and>
   (ps = [] \<longrightarrow> left = 0) \<and>
   (case res of
      Inr cs \<Rightarrow> cs = concat (map (\<lambda>p. List.map_filter keep (batch_of (fetch p))) ps)
    | Inl e \<Rightarrow> ps \<noteq> [] \<and> (fetch (last ps) = PageFailed \<or> (\<exists>st. fetch (last ps) = PageStatus st)))"
proof (induction fetch perPage page left arbitrary: ps res rule: contributor_pages.induct)
  case (1 fetch perPage page)
  then show ?case by auto
next
  case (2 fetch perPage page left)
  show ?case
  proof (cases "goes_on perPage (fetch page)")
    case False
    then show ?thesis using 2(2)
      by (auto simp: goes_on_def batch_of_def Let_def List.map_filter_simps split: page_reply.splits if_splits prod.splits sum.splits)
  next
    case True
    then obtain b where b: "fetch page = Page b" "b \<noteq> []" "\<not> length b < perPage"
      by (auto simp: goes_on_def split: page_reply.splits)
    obtain qs r where q: "contributor_pages fetch perPage (page + 1) left = (qs, r)" by fastforce
    note IH = 2(1) [OF b(1,2) refl b(3) q]
    have ps: "ps = page # qs" and res: "res = (case r of Inl e \<Rightarrow> Inl e | Inr cs \<Rightarrow> Inr (List.map_filter keep b @ cs))"
      using 2(2) b q by (auto simp: Let_def split: sum.splits)
    have "qs = [page + 1..<page + 1 + length qs]" using IH by blast
    then have up: "[page..<page + length ps] = page # qs" by (simp add: ps upt_conv_Cons del: upt_Suc)
    show ?thesis
      using IH True b up unfolding res ps
      by (cases "qs = []") (auto simp: batch_of_def upt_conv_Cons split: sum.splits simp del: upt_Suc)
  qed
qed

text \<open>
  The contributor list is complete and the requests are bounded. Pages are requested one after the other, at
  most \<open>maxPages\<close> of them, until a page is short, empty or refused; the list holds the
  accounts of all requested pages in order, without robots; an error is reported only when the last request
  failed.
\<close>

theorem contributors_complete:
  assumes "fetchContributors fetch perPage maxPages = (ps, res)"
  shows "ps = [1..<1 + length ps] \<and> length ps \<le> maxPages \<and>
    (\<forall>p\<in>set (butlast ps). goes_on perPage (fetch p)) \<and>
    (ps \<noteq> [] \<and> goes_on perPage (fetch (last ps)) \<longrightarrow> length ps = maxPages) \<and>
    (case res of
       Inr cs \<Rightarrow> cs = concat (map (\<lambda>p. List.map_filter keep (batch_of (fetch p))) ps)
     | Inl e \<Rightarrow> ps \<noteq> [] \<and> (fetch (last ps) = PageFailed \<or> (\<exists>st. fetch (last ps) = PageStatus st)))"
  using contributor_pages_spec [of fetch perPage 1 maxPages ps res] assms by (simp add: fetchContributors_def)

definition sample_account :: "string \<Rightarrow> string \<Rightarrow> account option" where
  "sample_account type login =
     Some \<lparr>k_id = 1, k_login = login, k_avatarUrl = [], k_htmlUrl = [], k_contributions = 3, k_type = type\<rparr>"

definition sample_pages :: "nat \<Rightarrow> page_reply" where
  "sample_pages p =
     (if p = 1 then Page [sample_account ''User'' ''ann'', sample_account ''Bot'' ''ci'']
      else Page [sample_account ''User'' ''bob''])"

theorem contributors_complete_witness:
  "fst (fetchContributors sample_pages 2 10) = [1, 2] \<and>
   (case snd (fetchContributors sample_pages 2 10) of Inr cs \<Rightarrow> map k_login cs = [''ann'', ''bob''] | Inl e \<Rightarrow> False)"
proof -
  have ps: "fst (fetchContributors sample_pages 2 10) = [1, 2]"
    and r: "\<not> isl (snd (fetchContributors sample_pages 2 10))" by code_simp+
  obtain cs where c: "fetchContributors sample_pages 2 10 = ([1, 2], Inr cs)"
    using ps r by (cases "fetchContributors sample_pages 2 10"; cases "snd (fetchContributors sample_pages 2 10)") auto
  from contributors_complete [OF c]
  have "cs = concat (map (\<lambda>p. List.map_filter keep (batch_of (sample_pages p))) [1, 2])" by simp
  then have "map k_login cs = [''ann'', ''bob'']"
    by (simp add: batch_of_def sample_pages_def sample_account_def keep_def List.map_filter_simps contributor.defs)
  with c show ?thesis by simp
qed

section \<open>Durations\<close>

definition weight :: "string \<Rightarrow> nat" where
  "weight type =
     (if type = ''year'' then YEAR else if type = ''month'' then MONTH else if type = ''day'' then DAY
      else if type = ''hour'' \<or> type = ''hour_short'' then HOUR
      else if type = ''minute'' \<or> type = ''minute_short'' then MINUTE else 1)"

text \<open>What a lone unit leaves out: days of a year, hours of a month, minutes of a day.\<close>

definition precision :: "string \<Rightarrow> nat" where
  "precision type =
     (if type = ''year'' then DAY else if type = ''month'' then HOUR else if type = ''day'' then MINUTE else 1)"

lemma two_unit_bound:
  assumes "0 < (w::nat)" and "0 < u"
  shows "s div w * w + s mod w div u * u \<le> s \<and> s < s div w * w + s mod w div u * u + u"
proof -
  define r where "r = s mod w"
  have "s div w * w + r = s" by (simp add: r_def)
  moreover have "r div u * u + r mod u = r" "r mod u < u" using assms by simp_all
  ultimately show ?thesis unfolding r_def [symmetric] by linarith
qed

text \<open>
  the age of the last update is not overstated and as exact as its units: the two units
  never exceed the duration and miss less than one of the smaller unit (a lone unit misses less than its
  precision); the first unit of a positive duration is not zero and the second is smaller.
\<close>

theorem duration_exact:
  "case duration_units s of ((v1, t1), (v2, t2)) \<Rightarrow>
     v1 * weight t1 + v2 * weight t2 \<le> s \<and>
     s < v1 * weight t1 + v2 * weight t2 + (if v2 > 0 then weight t2 else precision t1) \<and>
     (s > 0 \<longrightarrow> v1 > 0) \<and> (v2 > 0 \<longrightarrow> weight t2 < weight t1)"
proof -
  have pos: "s \<ge> w \<Longrightarrow> 0 < w \<Longrightarrow> s div w > 0" for w by (simp add: div_greater_zero_iff)
  have whole: "s mod w = 0 \<Longrightarrow> s < Suc (s div w * w)" for w by auto
  consider (year) "s \<ge> YEAR" | (month) "s < YEAR" "s \<ge> MONTH" | (day) "s < MONTH" "s \<ge> DAY"
    | (hour) "s < DAY" "s \<ge> HOUR" | (minute) "s < HOUR" "s \<ge> MINUTE" | (second) "s < MINUTE" by linarith
  then show ?thesis
  proof cases
    case year
    with two_unit_bound [of YEAR MONTH s] two_unit_bound [of YEAR DAY s] pos [of YEAR] show ?thesis
      by (simp add: duration_units_def Let_def weight_def precision_def)
  next
    case month
    with two_unit_bound [of MONTH DAY s] two_unit_bound [of MONTH HOUR s] pos [of MONTH] show ?thesis
      by (simp add: duration_units_def Let_def weight_def precision_def)
  next
    case day
    with two_unit_bound [of DAY HOUR s] two_unit_bound [of DAY MINUTE s] pos [of DAY] show ?thesis
      by (simp add: duration_units_def Let_def weight_def precision_def)
  next
    case hour
    with two_unit_bound [of HOUR MINUTE s] whole [of HOUR] pos [of HOUR] show ?thesis
      by (simp add: duration_units_def Let_def weight_def precision_def)
  next
    case minute
    with whole [of MINUTE] pos [of MINUTE] show ?thesis
      by (simp add: duration_units_def Let_def weight_def precision_def)
  next
    case second
    then show ?thesis by (simp add: duration_units_def Let_def weight_def precision_def)
  qed
qed

theorem duration_exact_witness:
  "duration_units 3661 = ((1, ''hour''), (1, ''minute_short'')) \<and> 3660 \<le> (3661::nat) \<and> weight ''minute_short'' < weight ''hour''"
proof -
  have u: "duration_units 3661 = ((1, ''hour''), (1, ''minute_short''))" by (simp add: duration_units_def Let_def)
  show ?thesis using duration_exact [of 3661] unfolding u by simp
qed

text \<open>Months have 30 days but a year has 365, so a remainder of 360 days and more is shown as twelve months.\<close>

theorem twelve_months_beside_a_year:
  "formatDurationTwoUnits (2 * 365 * 86400 - 1) ''en'' = ''1 year 12 months''"
proof -
  have "show_nat 1 = ''1''" "show_nat 12 = ''12''" by code_simp+
  then show ?thesis
    by (simp add: formatDurationTwoUnits_def duration_units_def Let_def two_units_def formatEn_def plural_def)
qed

end
