(* ===== verification/Legal.thy ===== *)
theory Legal
  imports Machine Json
begin

text \<open>
  Consent to the policies: \<open>legal-consent.js\<close>, \<open>cookie-preferences.js\<close> and \<open>cookie-consent.js\<close>.

  The account-entry pages ask for an explicit choice (one check box per page) for the current revision of the
  policies. The module state, the check boxes and the cookies of the page are one record; an
  event runs the code from one await to the next. A call of \<open>ensureLegalConsent\<close> that waits for
  the policy descriptor is an entry of \<open>waiting\<close> (its page and the epoch it has seen), and of \<open>ready\<close> once
  the descriptor (\<open>True\<close>) or its failure has arrived: it resumes at any later time, so more
  interleavings are covered than a browser has. \<open>cookies_on\<close> says whether the browser stores cookies.

  The optional-services choice is kept in \<open>localStorage\<close> as JSON; parsing it is the parameter
  \<open>parse\<close> (\<open>JSON.parse\<close>, \<open>None\<close> when it throws), printing it the parameter \<open>stringify\<close>.
\<close>

section \<open>The policy descriptor and the check boxes\<close>

definition LEGAL_COOKIE :: string where "LEGAL_COOKIE = ''renop_legal_consent''"

definition LEGAL_DOCUMENTS :: "(string \<times> string) list" where
  "LEGAL_DOCUMENTS = [(''privacy-policy'', ''footer.privacyPolicy''), (''terms-of-service'', ''legal.termsTitle''),
     (''legal-notice'', ''footer.legalNotice'')]"

definition legalPageFromPath :: "string \<Rightarrow> string" where
  "legalPageFromPath path =
     (let lower = to_lower path;
          front = (if starts_with ''/'' lower then drop 1 lower else lower);
          name = (if ends_with ''/'' front then butlast front else front)
      in if name \<in> set (map fst LEGAL_DOCUMENTS) then name else [])"

record descriptor =
  revision :: string
  cookie_banner :: bool
  content_revision :: string

record consent_box =
  kind :: string
  checked :: bool
  disabled :: bool
  box_revision :: string
  error_key :: "string option"

record legal =
  metadata :: "descriptor option"
  pending :: bool
  consentEpoch :: nat
  boxes :: "consent_box list"
  jar :: "(string \<times> string) list"
  cookies_on :: bool
  waiting :: "(string \<times> nat) list"
  ready :: "(string \<times> nat \<times> bool) list"

definition document_cookie :: "legal \<Rightarrow> string" where
  "document_cookie s = join ''; '' (map (\<lambda>(n, v). n @ ''='' @ v) (jar s))"

definition acceptedRevision :: "legal \<Rightarrow> string" where
  "acceptedRevision s =
     (case find (starts_with (LEGAL_COOKIE @ ''='')) (map js_trim (split_on CHR '';'' (document_cookie s))) of
        None \<Rightarrow> []
      | Some part \<Rightarrow> drop (length LEGAL_COOKIE + 1) part)"

definition update_box :: "legal \<Rightarrow> consent_box \<Rightarrow> consent_box" where
  "update_box s b =
     (case metadata s of
        None \<Rightarrow> b\<lparr>disabled := True\<rparr>
      | Some m \<Rightarrow>
          b\<lparr>disabled := False,
            checked := (if box_revision b \<noteq> revision m \<or> acceptedRevision s \<noteq> revision m then False else checked b),
            box_revision := revision m\<rparr>)"

definition updateConsentControls :: "legal \<Rightarrow> legal" where
  "updateConsentControls s = s\<lparr>boxes := map (update_box s) (boxes s)\<rparr>"

text \<open>\<open>document.getElementById\<close> for the check box of a page, and changing it.\<close>

definition box_of :: "string \<Rightarrow> legal \<Rightarrow> consent_box option" where
  "box_of k s = find (\<lambda>b. kind b = k) (boxes s)"

definition change_box :: "string \<Rightarrow> (consent_box \<Rightarrow> consent_box) \<Rightarrow> legal \<Rightarrow> legal" where
  "change_box k f s = s\<lparr>boxes := map (\<lambda>b. if kind b = k then f b else b) (boxes s)\<rparr>"

definition resetLegalConsent :: "string \<Rightarrow> legal \<Rightarrow> legal" where
  "resetLegalConsent k s =
     (case box_of k s of
        None \<Rightarrow> s
      | Some b \<Rightarrow>
          if checked b then (change_box k (\<lambda>b. b\<lparr>checked := False\<rparr>) s)\<lparr>consentEpoch := Suc (consentEpoch s)\<rparr> else s)"

text \<open>Starting a read of the descriptor: an outstanding request is shared.\<close>

definition begin_load :: "legal \<Rightarrow> legal" where
  "begin_load s = (if pending s then s else s\<lparr>pending := True\<rparr>)"

definition hex_digit :: "char \<Rightarrow> bool" where
  "hex_digit c \<longleftrightarrow> (let n = (of_char c :: nat) in (48 \<le> n \<and> n \<le> 57) \<or> (97 \<le> n \<and> n \<le> 102))"

definition valid_descriptor :: "json \<Rightarrow> bool" where
  "valid_descriptor v \<longleftrightarrow>
     (case get ''revision'' v of Some (JStr r) \<Rightarrow> length r = 64 \<and> list_all hex_digit r | _ \<Rightarrow> False) \<and>
     (case get ''cookie_banner'' v of Some (JBool b) \<Rightarrow> True | _ \<Rightarrow> False)"

definition descriptor_of :: "json \<Rightarrow> descriptor" where
  "descriptor_of v =
     \<lparr>revision = (case get ''revision'' v of Some (JStr r) \<Rightarrow> r | _ \<Rightarrow> []),
      cookie_banner = (get ''cookie_banner'' v = Some (JBool True)),
      content_revision = (case get ''content_revision'' v of Some (JStr r) \<Rightarrow> r | _ \<Rightarrow> [])\<rparr>"

text \<open>
  The end of the request: the decoded message, or \<open>None\<close> when reading or decoding it failed. The
  flag says that \<open>legalConfigurationChanged\<close> is dispatched.
\<close>

definition end_load :: "json option \<Rightarrow> legal \<Rightarrow> legal \<times> bool" where
  "end_load reply s =
     (case reply of
        Some v \<Rightarrow>
          if valid_descriptor v then
            (let m = descriptor_of v in
             ((updateConsentControls (s\<lparr>metadata := Some m\<rparr>))
                \<lparr>pending := False, waiting := [], ready := ready s @ map (\<lambda>(k, e). (k, e, True)) (waiting s)\<rparr>,
              metadata s \<noteq> Some m))
          else (s\<lparr>pending := False, waiting := [], ready := ready s @ map (\<lambda>(k, e). (k, e, False)) (waiting s)\<rparr>, False)
      | None \<Rightarrow>
          (s\<lparr>pending := False, waiting := [], ready := ready s @ map (\<lambda>(k, e). (k, e, False)) (waiting s)\<rparr>, False))"

definition consentError :: "string \<Rightarrow> string \<Rightarrow> legal \<Rightarrow> legal" where
  "consentError k key s = change_box k (\<lambda>b. b\<lparr>error_key := Some key\<rparr>) s"

definition ensure_start :: "string \<Rightarrow> legal \<Rightarrow> legal" where
  "ensure_start k s = begin_load (s\<lparr>waiting := waiting s @ [(k, consentEpoch s)]\<rparr>)"

text \<open>What follows the await of \<open>ensureLegalConsent\<close>: the answer and the new state.\<close>

definition accepted :: "string \<Rightarrow> legal \<Rightarrow> bool" where
  "accepted k s =
     (case (box_of k s, metadata s) of
        (Some b, Some m) \<Rightarrow> checked b \<and> box_revision b = revision m \<and> acceptedRevision s = revision m
      | _ \<Rightarrow> False)"

definition ensure_finish :: "string \<Rightarrow> nat \<Rightarrow> bool \<Rightarrow> legal \<Rightarrow> bool \<times> legal" where
  "ensure_finish k epoch loaded s =
     (if \<not> loaded then (False, consentError k ''legal.loadFailed'' s)
      else if epoch \<noteq> consentEpoch s then (False, s)
      else if \<not> accepted k s then (False, consentError k ''legal.consentRequired'' s)
      else (True, change_box k (\<lambda>b. b\<lparr>error_key := None\<rparr>) s))"

text \<open>Setting a cookie: a maximal age of zero removes it; the browser may refuse cookies.\<close>

definition set_cookie :: "string \<Rightarrow> string \<Rightarrow> nat \<Rightarrow> legal \<Rightarrow> legal" where
  "set_cookie n v max_age s =
     (if \<not> cookies_on s then s
      else s\<lparr>jar := filter (\<lambda>c. fst c \<noteq> n) (jar s) @ (if max_age = 0 then [] else [(n, v)])\<rparr>)"

text \<open>The listener of the check box; the browser has already changed it to \<open>value\<close>.\<close>

definition on_change :: "string \<Rightarrow> bool \<Rightarrow> legal \<Rightarrow> legal" where
  "on_change k v s =
     (let s1 = (change_box k (\<lambda>b. b\<lparr>checked := v\<rparr>) s)\<lparr>consentEpoch := Suc (consentEpoch s)\<rparr> in
      case (box_of k s1, metadata s1) of
        (Some b, Some m) \<Rightarrow>
          if box_revision b \<noteq> revision m then s1
          else (let s2 = set_cookie LEGAL_COOKIE (if v then revision m else []) (if v then 900 else 0) s1 in
                if v \<and> acceptedRevision s2 \<noteq> revision m then consentError k ''legal.cookiesRequired'' s2
                else change_box k (\<lambda>b. b\<lparr>error_key := None\<rparr>) s2)
      | _ \<Rightarrow> s1)"

definition initializeLegalConsent :: "string list \<Rightarrow> legal \<Rightarrow> legal" where
  "initializeLegalConsent slots s =
     begin_load (s\<lparr>boxes := map (\<lambda>k. \<lparr>kind = k, checked = False, disabled = True, box_revision = [], error_key = None\<rparr>)
       (filter (\<lambda>k. k \<in> set slots) [''login'', ''registration''])\<rparr>)"

definition legal_start :: "bool \<Rightarrow> (string \<times> string) list \<Rightarrow> legal" where
  "legal_start cookies j =
     \<lparr>metadata = None, pending = False, consentEpoch = 0, boxes = [], jar = j, cookies_on = cookies, waiting = [], ready = []\<rparr>"

datatype legal_event =
    Tick string bool
  | Leave string
  | Refresh
  | Ensure string
  | Descriptor "json option"
  | Resume nat
  | CookieExpires

text \<open>A disabled box cannot be changed by the user; another tab or time may remove the cookie.\<close>

fun legal_step :: "legal_event \<Rightarrow> legal \<Rightarrow> legal option" where
  "legal_step (Tick k v) s =
     (case box_of k s of None \<Rightarrow> None | Some b \<Rightarrow> if disabled b then None else Some (on_change k v s))"
| "legal_step (Leave k) s = Some (resetLegalConsent k s)"
| "legal_step Refresh s = Some (begin_load s)"
| "legal_step (Ensure k) s = Some (ensure_start k s)"
| "legal_step (Descriptor reply) s = (if pending s then Some (fst (end_load reply s)) else None)"
| "legal_step (Resume i) s =
     (if i < length (ready s) then
        (case ready s ! i of (k, epoch, loaded) \<Rightarrow>
           Some ((snd (ensure_finish k epoch loaded s))\<lparr>ready := take i (ready s) @ drop (i + 1) (ready s)\<rparr>))
      else None)"
| "legal_step CookieExpires s = Some (s\<lparr>jar := filter (\<lambda>c. fst c \<noteq> LEGAL_COOKIE) (jar s)\<rparr>)"

text \<open>The answer of the \<open>ensureLegalConsent\<close> call that a \<open>Resume\<close> event completes.\<close>

definition answer :: "nat \<Rightarrow> legal \<Rightarrow> bool" where
  "answer i s = (case ready s ! i of (k, epoch, loaded) \<Rightarrow> fst (ensure_finish k epoch loaded s))"

section \<open>Consent is explicit and current\<close>

lemma change_box_simps [simp]:
  "metadata (change_box k f s) = metadata s" "pending (change_box k f s) = pending s"
  "consentEpoch (change_box k f s) = consentEpoch s" "jar (change_box k f s) = jar s"
  "waiting (change_box k f s) = waiting s" "ready (change_box k f s) = ready s"
  "boxes (change_box k f s) = map (\<lambda>b. if kind b = k then f b else b) (boxes s)"
  by (simp_all add: change_box_def)

lemma set_cookie_simps [simp]:
  "metadata (set_cookie n v a s) = metadata s" "boxes (set_cookie n v a s) = boxes s"
  "consentEpoch (set_cookie n v a s) = consentEpoch s" "waiting (set_cookie n v a s) = waiting s"
  "ready (set_cookie n v a s) = ready s"
  by (simp_all add: set_cookie_def)

lemma begin_load_simps [simp]:
  "metadata (begin_load s) = metadata s" "boxes (begin_load s) = boxes s" "consentEpoch (begin_load s) = consentEpoch s"
  "waiting (begin_load s) = waiting s" "ready (begin_load s) = ready s"
  by (simp_all add: begin_load_def)

text \<open>What an event does to a box: its page stays, and the box is new only in the listed ways.\<close>

definition touched :: "bool \<Rightarrow> consent_box \<Rightarrow> consent_box \<Rightarrow> bool" where
  "touched v b b' \<longleftrightarrow> kind b' = kind b \<and> disabled b' = disabled b \<and> box_revision b' = box_revision b \<and> checked b' = v"

lemma on_change_simps [simp]:
  "metadata (on_change k v s) = metadata s" "consentEpoch (on_change k v s) = Suc (consentEpoch s)"
  "waiting (on_change k v s) = waiting s" "ready (on_change k v s) = ready s"
  by (auto simp: on_change_def Let_def consentError_def split: option.splits)

lemma on_change_boxes:
  "list_all2 (\<lambda>b b'. if kind b = k then touched v b b' else b' = b) (boxes s) (boxes (on_change k v s))"
  by (auto simp: on_change_def Let_def consentError_def touched_def list_all2_map2 list_all2_same split: option.splits)

lemma reset_simps [simp]:
  "metadata (resetLegalConsent k s) = metadata s" "waiting (resetLegalConsent k s) = waiting s"
  "ready (resetLegalConsent k s) = ready s"
  by (auto simp: resetLegalConsent_def split: option.splits)

lemma reset_epoch: "consentEpoch s \<le> consentEpoch (resetLegalConsent k s)"
  by (auto simp: resetLegalConsent_def split: option.splits)

lemma reset_boxes:
  assumes "distinct (map kind (boxes s))"
  shows "list_all2 (\<lambda>b b'. if kind b = k then touched False b b' else b' = b) (boxes s) (boxes (resetLegalConsent k s))"
proof (cases "\<exists>b. box_of k s = Some b \<and> checked b")
  case True
  then show ?thesis
    by (auto simp: resetLegalConsent_def touched_def list_all2_map2 list_all2_same)
next
  case False
  have "\<not> checked b" if "b \<in> set (boxes s)" "kind b = k" for b
  proof -
    have "box_of k s \<noteq> None" using that by (auto simp: box_of_def find_None_iff)
    then obtain c where c: "box_of k s = Some c" by blast
    then have "c \<in> set (boxes s)" "kind c = k" by (auto simp: box_of_def find_Some_iff)
    with that assms have "c = b" by (auto simp: distinct_map inj_on_def)
    with c False show ?thesis by blast
  qed
  then show ?thesis using False
    by (auto simp: resetLegalConsent_def touched_def list_all2_same split: option.splits)
qed

definition consent_inv :: "legal \<Rightarrow> bool" where
  "consent_inv s \<longleftrightarrow> distinct (map kind (boxes s)) \<and>
     (\<forall>b\<in>set (boxes s). case metadata s of None \<Rightarrow> disabled b \<and> \<not> checked b | Some m \<Rightarrow> box_revision b = revision m)"

lemma list_all2_kinds:
  "list_all2 (\<lambda>b b'. if kind b = k then touched v b b' else b' = b) bs bs' \<Longrightarrow> map kind bs' = map kind bs"
  by (induction rule: list_all2_induct) (auto simp: touched_def split: if_splits)

lemma list_all2_back:
  "list_all2 P xs ys \<Longrightarrow> y \<in> set ys \<Longrightarrow> \<exists>x\<in>set xs. P x y"
  by (metis list_all2_conv_all_nth in_set_conv_nth)

text \<open>Events that touch the boxes of one page only keep the invariant when they uncheck or find the box enabled.\<close>

lemma consent_inv_touched:
  assumes "consent_inv s" "metadata t = metadata s" "v \<longrightarrow> (\<exists>b\<in>set (boxes s). kind b = k \<and> \<not> disabled b)"
    "list_all2 (\<lambda>b b'. if kind b = k then touched v b b' else b' = b) (boxes s) (boxes t)"
  shows "consent_inv t"
proof -
  have "metadata s \<noteq> None" if v using that assms(1,3) by (auto simp: consent_inv_def split: option.splits)
  then have "case metadata t of None \<Rightarrow> disabled b' \<and> \<not> checked b' | Some m \<Rightarrow> box_revision b' = revision m"
    if "b' \<in> set (boxes t)" for b'
    using list_all2_back [OF assms(4) that] assms(1,2)
    by (fastforce simp: consent_inv_def touched_def split: option.splits if_splits)
  then show ?thesis using assms(1) list_all2_kinds [OF assms(4)] by (auto simp: consent_inv_def)
qed

lemma consent_inv_same: "consent_inv s \<Longrightarrow> metadata t = metadata s \<Longrightarrow> boxes t = boxes s \<Longrightarrow> consent_inv t"
  by (simp add: consent_inv_def)

lemma box_of_enabled: "box_of k s = Some b \<Longrightarrow> \<not> disabled b \<Longrightarrow> \<exists>b\<in>set (boxes s). kind b = k \<and> \<not> disabled b"
  by (auto simp: box_of_def find_Some_iff)

lemma ensure_finish_simps [simp]:
  "metadata (snd (ensure_finish k e l s)) = metadata s" "consentEpoch (snd (ensure_finish k e l s)) = consentEpoch s"
  "waiting (snd (ensure_finish k e l s)) = waiting s"
  by (simp_all add: ensure_finish_def consentError_def)

lemma ensure_finish_boxes:
  "list_all2 (\<lambda>b b'. kind b' = kind b \<and> disabled b' = disabled b \<and> box_revision b' = box_revision b \<and> checked b' = checked b)
     (boxes s) (boxes (snd (ensure_finish k e l s)))"
  by (simp add: ensure_finish_def consentError_def list_all2_map2 list_all2_same)

lemma end_load_boxes:
  "boxes (fst (end_load reply s)) = boxes s \<and> metadata (fst (end_load reply s)) = metadata s \<or>
   (\<exists>m. metadata (fst (end_load reply s)) = Some m \<and>
      boxes (fst (end_load reply s)) = map (update_box (s\<lparr>metadata := Some m\<rparr>)) (boxes s))"
  by (auto simp: end_load_def Let_def updateConsentControls_def split: option.splits)

lemma update_box_kind [simp]: "kind (update_box u b) = kind b"
  by (simp add: update_box_def split: option.splits)

lemma legal_step_inv [step_inv]: "consent_inv s \<Longrightarrow> legal_step e s = Some t \<Longrightarrow> consent_inv t"
proof (cases e)
  case (Tick k v)
  assume s: "consent_inv s" "legal_step e s = Some t"
  with Tick obtain b where "box_of k s = Some b" "\<not> disabled b" "t = on_change k v s"
    by (auto split: option.splits if_splits)
  then show ?thesis using s(1) on_change_boxes by (auto intro: consent_inv_touched [where v = v] box_of_enabled)
next
  case (Leave k)
  assume s: "consent_inv s" "legal_step e s = Some t"
  with Leave have t: "t = resetLegalConsent k s" by simp
  have "distinct (map kind (boxes s))" using s(1) by (simp add: consent_inv_def)
  from consent_inv_touched [OF s(1) _ _ reset_boxes [OF this]] t show ?thesis by simp
next
  case (Descriptor reply)
  assume s: "consent_inv s" "legal_step e s = Some t"
  have r: "box_revision (update_box (s\<lparr>metadata := Some m\<rparr>) b) = revision m" for m b by (simp add: update_box_def)
  from s Descriptor end_load_boxes [of reply s] show ?thesis
    by (auto simp: consent_inv_def comp_def r split: if_splits)
next
  case (Resume i)
  assume s: "consent_inv s" "legal_step e s = Some t"
  obtain k ep l where r: "ready s ! i = (k, ep, l)" by (cases "ready s ! i") auto
  note bs = ensure_finish_boxes [of s k ep l]
  have k: "map kind (boxes (snd (ensure_finish k ep l s))) = map kind (boxes s)"
    using bs by (auto simp: list_all2_conv_all_nth intro!: nth_equalityI)
  have "case metadata s of None \<Rightarrow> disabled b' \<and> \<not> checked b' | Some m \<Rightarrow> box_revision b' = revision m"
    if "b' \<in> set (boxes (snd (ensure_finish k ep l s)))" for b'
    using list_all2_back [OF bs that] s(1) by (auto simp: consent_inv_def split: option.splits)
  with s Resume r k show ?thesis by (auto simp: consent_inv_def split: if_splits)
qed (auto intro: consent_inv_same simp: ensure_start_def)

interpretation consent: machine legal_step consent_inv
  by unfold_locales (rule legal_step_inv)

definition consent_page :: "string list \<Rightarrow> bool \<Rightarrow> (string \<times> string) list \<Rightarrow> legal" where
  "consent_page slots cookies j = initializeLegalConsent slots (legal_start cookies j)"

lemma consent_page_inv: "consent_inv (consent_page slots cookies j)"
  by (simp add: consent_inv_def consent_page_def initializeLegalConsent_def legal_start_def comp_def)

text \<open>A checked box was ticked by this event, or was checked before it and neither touched nor made stale by it.\<close>

lemma legal_step_checked:
  assumes "consent_inv s" "legal_step e s = Some t" "b' \<in> set (boxes t)" "checked b'"
  shows "(e = Tick (kind b') True \<and> metadata t = metadata s) \<or>
    (\<exists>b\<in>set (boxes s). kind b = kind b' \<and> checked b \<and> map_option revision (metadata t) = map_option revision (metadata s)) \<and>
    e \<noteq> Leave (kind b') \<and> (\<forall>v. e \<noteq> Tick (kind b') v)"
proof (cases e)
  case (Tick k v)
  with assms(2) have t: "t = on_change k v s" by (auto split: option.splits if_splits)
  then obtain b where "b \<in> set (boxes s)" "if kind b = k then touched v b b' else b' = b"
    using list_all2_back [OF on_change_boxes] assms(3) by blast
  with Tick t assms(4) show ?thesis by (cases "kind b = k") (auto simp: touched_def)
next
  case (Leave k)
  with assms(2) have t: "t = resetLegalConsent k s" by simp
  then obtain b where "b \<in> set (boxes s)" "if kind b = k then touched False b b' else b' = b"
    using list_all2_back [OF reset_boxes] assms(1,3) unfolding consent_inv_def by blast
  with Leave t assms(4) show ?thesis by (cases "kind b = k") (auto simp: touched_def)
next
  case (Descriptor reply)
  with assms(2) have t: "t = fst (end_load reply s)" by (simp split: if_splits)
  from end_load_boxes [of reply s] show ?thesis
  proof
    assume "boxes (fst (end_load reply s)) = boxes s \<and> metadata (fst (end_load reply s)) = metadata s"
    with t Descriptor assms(3,4) show ?thesis by auto
  next
    assume "\<exists>m. metadata (fst (end_load reply s)) = Some m \<and>
      boxes (fst (end_load reply s)) = map (update_box (s\<lparr>metadata := Some m\<rparr>)) (boxes s)"
    with t assms(3) obtain m b where m: "metadata t = Some m" and b: "b \<in> set (boxes s)"
      "b' = update_box (s\<lparr>metadata := Some m\<rparr>) b" by auto
    with assms(4) have c: "checked b" "box_revision b = revision m" "kind b' = kind b"
      by (auto simp: update_box_def split: if_splits)
    moreover from c assms(1) b have "\<exists>n. metadata s = Some n \<and> revision n = revision m"
      by (auto simp: consent_inv_def split: option.splits)
    ultimately show ?thesis using b m Descriptor by auto
  qed
next
  case (Resume i)
  obtain k ep l where r: "ready s ! i = (k, ep, l)" by (cases "ready s ! i") auto
  with Resume assms(2) have t: "boxes t = boxes (snd (ensure_finish k ep l s))" "metadata t = metadata s"
    by (auto split: if_splits)
  then obtain b where "b \<in> set (boxes s)" "kind b' = kind b \<and> disabled b' = disabled b \<and>
      box_revision b' = box_revision b \<and> checked b' = checked b"
    using list_all2_back [OF ensure_finish_boxes] assms(3) by metis
  with Resume t assms(4) show ?thesis by auto
qed (use assms in \<open>auto simp: ensure_start_def\<close>)

definition ticked :: "legal \<Rightarrow> legal_event list \<Rightarrow> string \<Rightarrow> string \<Rightarrow> bool" where
  "ticked s0 es k r \<longleftrightarrow> (\<exists>as bs u m. es = as @ Tick k True # bs \<and> run legal_step as s0 = Some u \<and>
     metadata u = Some m \<and> revision m = r \<and> Leave k \<notin> set bs \<and> (\<forall>v. Tick k v \<notin> set bs))"

lemma checked_ticked:
  assumes "consent_inv s0" "\<forall>b\<in>set (boxes s0). \<not> checked b" "run legal_step es s0 = Some s" "b \<in> set (boxes s)" "checked b"
  shows "\<exists>m. metadata s = Some m \<and> ticked s0 es (kind b) (revision m)"
  using assms(3-5)
proof (induction es arbitrary: s b rule: rev_induct)
  case Nil
  then show ?case using assms(2) by auto
next
  case (snoc e es)
  then obtain u where u: "run legal_step es s0 = Some u" "legal_step e u = Some s" by (auto simp: run_snoc)
  have i: "consent_inv u" by (rule consent.inv_run [OF u(1) assms(1)])
  have "consent_inv s" by (rule legal_step_inv [OF i u(2)])
  with snoc.prems have m: "\<exists>m. metadata s = Some m" by (auto simp: consent_inv_def split: option.splits)
  from legal_step_checked [OF i u(2) snoc.prems(2,3)] show ?case
  proof
    assume e: "e = Tick (kind b) True \<and> metadata s = metadata u"
    with m u(1) show ?thesis unfolding ticked_def by fastforce
  next
    assume e: "(\<exists>c\<in>set (boxes u). kind c = kind b \<and> checked c \<and>
      map_option revision (metadata s) = map_option revision (metadata u)) \<and> e \<noteq> Leave (kind b) \<and> (\<forall>v. e \<noteq> Tick (kind b) v)"
    then obtain c where c: "c \<in> set (boxes u)" "kind c = kind b" "checked c"
      "map_option revision (metadata s) = map_option revision (metadata u)" by blast
    from snoc.IH [OF u(1) c(1,3)] obtain n where n: "metadata u = Some n" "ticked s0 es (kind b) (revision n)"
      by (auto simp: c(2))
    then obtain as bs v k where d: "es = as @ Tick (kind b) True # bs" "run legal_step as s0 = Some v" "metadata v = Some k"
      "revision k = revision n" "Leave (kind b) \<notin> set bs" "\<forall>v. Tick (kind b) v \<notin> set bs" unfolding ticked_def by blast
    have "ticked s0 (es @ [e]) (kind b) (revision n)" unfolding ticked_def
      by (rule exI [of _ as], rule exI [of _ "bs @ [e]"], rule exI [of _ v], rule exI [of _ k]) (use d e in auto)
    with n(1) c(4) m show ?thesis by auto
  qed
qed

text \<open>A waiting or resumable call was made by an \<open>Ensure\<close> event, after which the epoch has not gone back.\<close>

lemma legal_step_epoch: "legal_step e s = Some t \<Longrightarrow> consentEpoch s \<le> consentEpoch t \<and> (\<forall>k v. e = Tick k v \<longrightarrow> consentEpoch s < consentEpoch t)"
  by (cases e) (auto simp: reset_epoch ensure_start_def end_load_def Let_def updateConsentControls_def
      split: option.splits if_splits prod.splits)

definition calls :: "legal \<Rightarrow> (string \<times> nat) set" where
  "calls s = set (waiting s) \<union> {(k, e). \<exists>l. (k, e, l) \<in> set (ready s)}"

lemma calls_Resume:
  "calls (u\<lparr>ready := take i rs @ drop (i + 1) rs\<rparr>) \<subseteq> set (waiting u) \<union> {(k, e). \<exists>l. (k, e, l) \<in> set rs}"
  using set_take_subset [of i rs] set_drop_subset [of "i + 1" rs] by (auto simp: calls_def)

lemma legal_step_calls:
  "legal_step e s = Some t \<Longrightarrow> (k, ep) \<in> calls t \<Longrightarrow> (k, ep) \<in> calls s \<or> (e = Ensure k \<and> ep = consentEpoch t)"
proof (cases e)
  case (Descriptor reply)
  assume "legal_step e s = Some t" "(k, ep) \<in> calls t"
  with Descriptor show ?thesis
    by (auto simp: calls_def end_load_def Let_def updateConsentControls_def image_iff split: option.splits if_splits)
next
  case (Resume i)
  assume a: "legal_step e s = Some t" "(k, ep) \<in> calls t"
  obtain j q l where r: "ready s ! i = (j, q, l)" by (cases "ready s ! i") auto
  with a Resume have "t = (snd (ensure_finish j q l s))\<lparr>ready := take i (ready s) @ drop (i + 1) (ready s)\<rparr>"
    by (auto split: if_splits)
  with a(2) calls_Resume [where u = "snd (ensure_finish j q l s)" and i = i and rs = "ready s"] show ?thesis by (auto simp: calls_def)
qed (auto simp: calls_def ensure_start_def split: option.splits if_splits)

lemma calls_made:
  assumes "calls s0 = {}" "run legal_step es s0 = Some s" "(k, ep) \<in> calls s"
  shows "ep \<le> consentEpoch s \<and> (\<exists>cs ds. es = cs @ Ensure k # ds \<and> (ep = consentEpoch s \<longrightarrow> (\<forall>j v. Tick j v \<notin> set ds)))"
  using assms(2,3)
proof (induction es arbitrary: s rule: rev_induct)
  case Nil
  then show ?case using assms(1) by auto
next
  case (snoc e es)
  then obtain u where u: "run legal_step es s0 = Some u" "legal_step e u = Some s" by (auto simp: run_snoc)
  note ep = legal_step_epoch [OF u(2)]
  from legal_step_calls [OF u(2) snoc.prems(2)] show ?case
  proof
    assume "(k, ep) \<in> calls u"
    from snoc.IH [OF u(1) this] obtain cs ds where "ep \<le> consentEpoch u" "es = cs @ Ensure k # ds"
      "ep = consentEpoch u \<longrightarrow> (\<forall>j v. Tick j v \<notin> set ds)" by blast
    with ep show ?thesis by (intro conjI exI [of _ cs] exI [of _ "ds @ [e]"]) auto
  next
    assume "e = Ensure k \<and> ep = consentEpoch s"
    then show ?thesis by (intro conjI exI [of _ es] exI [of _ "[]"]) auto
  qed
qed

text \<open>
  C7: nobody signs in or registers without consenting to the current policies. When \<open>ensureLegalConsent\<close>
  answers yes, the box of that page is checked and the stored acceptance is that of the policy revision known now;
  the user ticked the box while that same revision was current and has not left the page or touched
  the box since; and no box was changed while the call was waiting for the policy descriptor.
\<close>

theorem legal_consent_explicit:
  assumes "run legal_step es (consent_page slots cookies j) = Some s"
    and "i < length (ready s)" and "ready s ! i = (k, epoch, loaded)" and "answer i s"
  shows "\<exists>m b. metadata s = Some m \<and> box_of k s = Some b \<and> checked b \<and> box_revision b = revision m \<and>
      acceptedRevision s = revision m \<and> ticked (consent_page slots cookies j) es k (revision m) \<and>
      (\<exists>cs ds. es = cs @ Ensure k # ds \<and> (\<forall>j v. Tick j v \<notin> set ds))"
proof -
  have "loaded" "epoch = consentEpoch s" and a: "accepted k s"
    using assms(3,4) by (auto simp: answer_def ensure_finish_def split: if_splits)
  then obtain b m where b: "box_of k s = Some b" "checked b" "metadata s = Some m" "box_revision b = revision m"
    "acceptedRevision s = revision m" by (auto simp: accepted_def split: option.splits)
  then have bk: "b \<in> set (boxes s)" "kind b = k" by (auto simp: box_of_def find_Some_iff)
  have "\<forall>b\<in>set (boxes (consent_page slots cookies j)). \<not> checked b"
    by (auto simp: consent_page_def initializeLegalConsent_def)
  from checked_ticked [OF consent_page_inv this assms(1) bk(1) b(2)] b(3) bk(2)
  have t: "ticked (consent_page slots cookies j) es k (revision m)" by auto
  have "(k, epoch) \<in> calls s" using assms(2,3) nth_mem [OF assms(2)] by (auto simp: calls_def)
  moreover have "calls (consent_page slots cookies j) = {}"
    by (simp add: calls_def consent_page_def initializeLegalConsent_def legal_start_def)
  ultimately obtain cs ds where "es = cs @ Ensure k # ds" "\<forall>j v. Tick j v \<notin> set ds"
    using calls_made [OF _ assms(1)] \<open>epoch = consentEpoch s\<close> by blast
  with b t show ?thesis by blast
qed

definition sample_descriptor :: json where
  "sample_descriptor = JObj [(''revision'', JStr (replicate 64 CHR ''a'')), (''cookie_banner'', JBool True)]"

definition sample_consent :: "legal_event list" where
  "sample_consent = [Descriptor (Some sample_descriptor), Tick ''login'' True, Ensure ''login'',
     Descriptor (Some sample_descriptor)]"

theorem legal_consent_explicit_witness:
  "let s0 = consent_page [''login''] True []; s = the (run legal_step sample_consent s0)
   in answer 0 s \<and> (\<exists>m. metadata s = Some m \<and> ticked s0 sample_consent ''login'' (revision m))"
proof -
  define s where "s = the (run legal_step sample_consent (consent_page [''login''] True []))"
  have r: "run legal_step sample_consent (consent_page [''login''] True []) = Some s"
    and i: "0 < length (ready s)" and q: "ready s ! 0 = (''login'', 1, True)" and a: "answer 0 s"
    unfolding s_def by code_simp+
  from legal_consent_explicit [OF r i q a] a show ?thesis unfolding Let_def s_def [symmetric] by blast
qed

section \<open>Optional services\<close>

record cookie_choice =
  ch_revision :: string
  ch_optional :: bool
  ch_expires :: int

definition safe_integer :: "int \<Rightarrow> bool" where
  "safe_integer n \<longleftrightarrow> \<bar>n\<bar> \<le> 2 ^ 53 - 1"

definition parseCookiePreferences :: "(string \<Rightarrow> json option) \<Rightarrow> string option \<Rightarrow> string \<Rightarrow> int \<Rightarrow> cookie_choice option" where
  "parseCookiePreferences parse raw current at =
     (case raw of
        None \<Rightarrow> None
      | Some r \<Rightarrow>
          if js_length r > 4096 then None
          else (case parse r of
                  None \<Rightarrow> None
                | Some v \<Rightarrow>
                    (case (get ''revision'' v, get ''optional'' v, get ''expires'' v) of
                       (Some (JStr p), Some (JBool o'), Some (JNum e)) \<Rightarrow>
                         if p \<noteq> current \<or> \<not> safe_integer e \<or> e \<le> at then None
                         else Some \<lparr>ch_revision = p, ch_optional = o', ch_expires = e\<rparr>
                     | _ \<Rightarrow> None)))"

text \<open>
  The module state: its copy of the descriptor, the cached choice (\<open>None\<close> for undefined, \<open>Some None\<close> for
  null), whether the notice is hidden, and the revision an open preferences dialog was opened for. The storage of the
  browser is part of the state; \<open>storage_on\<close> says whether it can be used. \<open>now\<close> is the clock.
\<close>

record cookie_state =
  policy :: "descriptor option"
  choice :: "cookie_choice option option"
  banner_hidden :: bool
  dialog :: "string option"
  storage :: "string option"
  storage_on :: bool
  now :: int

text \<open>\<open>readChoice\<close> fills the cache; the answer is the second component.\<close>

definition cached_choice :: "(string \<Rightarrow> json option) \<Rightarrow> descriptor \<Rightarrow> cookie_state \<Rightarrow> cookie_choice option" where
  "cached_choice parse m s =
     (case choice s of
        Some c \<Rightarrow> c
      | None \<Rightarrow> if storage_on s then parseCookiePreferences parse (storage s) (revision m) (now s) else None)"

definition readChoice :: "(string \<Rightarrow> json option) \<Rightarrow> cookie_state \<Rightarrow> cookie_state \<times> cookie_choice option" where
  "readChoice parse s =
     (case policy s of
        None \<Rightarrow> (s, None)
      | Some m \<Rightarrow>
          (let c = cached_choice parse m s in
           (s\<lparr>choice := Some c\<rparr>,
            case c of
              None \<Rightarrow> None
            | Some d \<Rightarrow> if ch_revision d = revision m \<and> ch_expires d > now s then Some d else None)))"

definition renderNotice :: "(string \<Rightarrow> json option) \<Rightarrow> cookie_state \<Rightarrow> cookie_state" where
  "renderNotice parse s =
     (case policy s of
        None \<Rightarrow> s\<lparr>banner_hidden := True\<rparr>
      | Some m \<Rightarrow>
          if \<not> cookie_banner m then s\<lparr>banner_hidden := True\<rparr>
          else (case readChoice parse s of (s', c) \<Rightarrow> s'\<lparr>banner_hidden := (c \<noteq> None)\<rparr>))"

definition optional_allowed :: "(string \<Rightarrow> json option) \<Rightarrow> cookie_state \<Rightarrow> bool" where
  "optional_allowed parse s =
     (case snd (readChoice parse s) of None \<Rightarrow> False | Some c \<Rightarrow> ch_optional c)"

text \<open>\<open>optionalServicesAllowed\<close>, once the descriptor \<open>m\<close> is loaded.\<close>

definition optionalServicesAllowed :: "(string \<Rightarrow> json option) \<Rightarrow> descriptor \<Rightarrow> cookie_state \<Rightarrow> cookie_state \<times> bool" where
  "optionalServicesAllowed parse m s =
     (let s' = s\<lparr>policy := Some m\<rparr> in (fst (readChoice parse s'), optional_allowed parse s'))"

definition choice_json :: "cookie_choice \<Rightarrow> json" where
  "choice_json c = JObj [(''revision'', JStr (ch_revision c)), (''optional'', JBool (ch_optional c)), (''expires'', JNum (ch_expires c))]"

definition saveChoice ::
  "(string \<Rightarrow> json option) \<Rightarrow> (json \<Rightarrow> string) \<Rightarrow> bool \<Rightarrow> cookie_state \<Rightarrow> cookie_state" where
  "saveChoice parse stringify optional s =
     (case policy s of
        None \<Rightarrow> s
      | Some m \<Rightarrow>
          (let c = \<lparr>ch_revision = revision m, ch_optional = optional, ch_expires = now s + 31536000000\<rparr>;
               s1 = s\<lparr>choice := Some (Some c)\<rparr>;
               s2 = (if storage_on s1 then s1\<lparr>storage := Some (stringify (choice_json c))\<rparr> else s1)
           in renderNotice parse s2))"

definition openCookiePreferences :: "descriptor option \<Rightarrow> cookie_state \<Rightarrow> cookie_state" where
  "openCookiePreferences reply s =
     (if dialog s \<noteq> None then s
      else (case reply of
              None \<Rightarrow> s\<lparr>banner_hidden := False\<rparr>
            | Some m \<Rightarrow> s\<lparr>policy := Some m, dialog := Some (revision m)\<rparr>))"

definition dialog_save :: "(string \<Rightarrow> json option) \<Rightarrow> (json \<Rightarrow> string) \<Rightarrow> bool \<Rightarrow> cookie_state \<Rightarrow> cookie_state" where
  "dialog_save parse stringify v s =
     (let s' = (if dialog s = map_option revision (policy s) then saveChoice parse stringify v s else s)
      in s'\<lparr>dialog := None\<rparr>)"

definition configuration_changed :: "(string \<Rightarrow> json option) \<Rightarrow> descriptor \<Rightarrow> cookie_state \<Rightarrow> cookie_state" where
  "configuration_changed parse m s =
     (let known = (case choice s of Some (Some c) \<Rightarrow> ch_revision c = revision m | _ \<Rightarrow> False);
          s1 = s\<lparr>policy := Some m, choice := (if known then choice s else None)\<rparr>
      in renderNotice parse s1)"

definition storage_event :: "(string \<Rightarrow> json option) \<Rightarrow> string option \<Rightarrow> string option \<Rightarrow> cookie_state \<Rightarrow> cookie_state" where
  "storage_event parse key stored s =
     (if key \<noteq> None \<and> key \<noteq> Some ''renop_cookie_preferences'' then s
      else renderNotice parse (s\<lparr>choice := None, storage := stored\<rparr>))"

text \<open>A reload keeps only what the browser stores.\<close>

definition reload :: "descriptor \<Rightarrow> cookie_state \<Rightarrow> cookie_state" where
  "reload m s = s\<lparr>policy := Some m, choice := None, banner_hidden := True, dialog := None\<rparr>"

definition stored_law :: "(string \<Rightarrow> json option) \<Rightarrow> (json \<Rightarrow> string) \<Rightarrow> cookie_choice \<Rightarrow> bool" where
  "stored_law parse stringify c \<longleftrightarrow>
     parse (stringify (choice_json c)) = Some (choice_json c) \<and> js_length (stringify (choice_json c)) \<le> 4096"

lemma readChoice_sound:
  "snd (readChoice parse s) = Some c \<Longrightarrow>
   \<exists>m. policy s = Some m \<and> ch_revision c = revision m \<and> ch_expires c > now s"
  by (auto simp: readChoice_def Let_def split: option.splits if_splits)

lemma renderNotice_simps [simp]:
  "policy (renderNotice parse s) = policy s" "now (renderNotice parse s) = now s" "storage (renderNotice parse s) = storage s"
  "storage_on (renderNotice parse s) = storage_on s" "dialog (renderNotice parse s) = dialog s"
  by (auto simp: renderNotice_def readChoice_def Let_def split: option.splits prod.splits)

lemma renderNotice_choice: "choice s = Some c \<Longrightarrow> choice (renderNotice parse s) = Some c"
  by (auto simp: renderNotice_def readChoice_def cached_choice_def Let_def split: option.splits prod.splits)

lemma readChoice_cached:
  "policy s = Some m \<Longrightarrow> choice s = Some (Some c) \<Longrightarrow> ch_revision c = revision m \<Longrightarrow>
   snd (readChoice parse s) = (if ch_expires c > now s then Some c else None)"
  by (simp add: readChoice_def cached_choice_def Let_def)

lemma readChoice_stored:
  assumes "policy s = Some m" "choice s = None" "storage_on s" "storage s = Some (stringify (choice_json c))"
    "stored_law parse stringify c" "ch_revision c = revision m" "safe_integer (ch_expires c)"
  shows "snd (readChoice parse s) = (if ch_expires c > now s then Some c else None)"
  using assms by (simp add: readChoice_def cached_choice_def Let_def parseCookiePreferences_def stored_law_def choice_json_def)

text \<open>
  optional services follow the choice of the user. Without a choice for the current policy revision
  they are never allowed; a saved choice decides, in this page and after a reload (when the browser keeps its
  storage), for a year and for that revision only, and the notice stays away while it holds; a choice made in a
  dialog for another revision is dropped.
\<close>

theorem cookie_choice_respected:
  assumes "policy s = Some m"
    and "stored_law parse stringify \<lparr>ch_revision = revision m, ch_optional = optional, ch_expires = now s + 31536000000\<rparr>"
    and "safe_integer (now s + 31536000000)" and "storage_on s"
    and "saved = saveChoice parse stringify optional s"
  shows "(\<forall>t. optional_allowed parse t \<longrightarrow>
      (\<exists>n c. policy t = Some n \<and> snd (readChoice parse t) = Some c \<and> ch_optional c \<and> ch_revision c = revision n \<and>
        now t < ch_expires c)) \<and>
    banner_hidden saved \<and>
    (\<forall>later\<ge>0. optional_allowed parse (saved\<lparr>now := now s + later\<rparr>) \<longleftrightarrow> optional \<and> later < 31536000000) \<and>
    (\<forall>later\<ge>0. optional_allowed parse (reload m (saved\<lparr>now := now s + later\<rparr>)) \<longleftrightarrow> optional \<and> later < 31536000000) \<and>
    (\<forall>n. revision n \<noteq> revision m \<longrightarrow> \<not> optional_allowed parse (saved\<lparr>policy := Some n\<rparr>) \<and>
      \<not> optional_allowed parse (reload n saved)) \<and>
    (\<forall>r. r \<noteq> revision m \<longrightarrow> choice (dialog_save parse stringify v (s\<lparr>dialog := Some r\<rparr>)) = choice s)"
proof -
  define c where "c = \<lparr>ch_revision = revision m, ch_optional = optional, ch_expires = now s + 31536000000\<rparr>"
  define s2 where "s2 = s\<lparr>choice := Some (Some c), storage := Some (stringify (choice_json c))\<rparr>"
  have saved: "saved = renderNotice parse s2"
    using assms(1,4,5) by (simp add: saveChoice_def Let_def c_def s2_def)
  have st: "policy saved = Some m" "choice saved = Some (Some c)" "storage_on saved"
    "storage saved = Some (stringify (choice_json c))" "now saved = now s"
    using assms(1,4) by (simp_all add: saved s2_def renderNotice_choice)
  have c: "ch_revision c = revision m" "ch_optional c = optional" "ch_expires c = now s + 31536000000"
    by (simp_all add: c_def)
  have law: "stored_law parse stringify c" "safe_integer (ch_expires c)" using assms(2,3) by (simp_all add: c_def)
  have "optional_allowed parse (saved\<lparr>now := now s + later\<rparr>) \<longleftrightarrow> optional \<and> later < 31536000000" for later
    using st c readChoice_cached [of "saved\<lparr>now := now s + later\<rparr>" m c parse] by (simp add: optional_allowed_def)
  moreover have "optional_allowed parse (reload m (saved\<lparr>now := now s + later\<rparr>)) \<longleftrightarrow> optional \<and> later < 31536000000" for later
    using st c readChoice_stored [of "reload m (saved\<lparr>now := now s + later\<rparr>)" m stringify c parse] law
    by (simp add: optional_allowed_def reload_def)
  moreover have "banner_hidden saved"
    using assms(1) c unfolding saved
    by (simp add: renderNotice_def s2_def readChoice_def cached_choice_def Let_def)
  moreover have "\<not> optional_allowed parse (saved\<lparr>policy := Some n\<rparr>) \<and> \<not> optional_allowed parse (reload n saved)"
    if "revision n \<noteq> revision m" for n
    using that st c law by (auto simp: optional_allowed_def readChoice_def cached_choice_def Let_def reload_def
        parseCookiePreferences_def stored_law_def choice_json_def)
  moreover have "\<exists>n c. policy t = Some n \<and> snd (readChoice parse t) = Some c \<and> ch_optional c \<and>
      ch_revision c = revision n \<and> now t < ch_expires c" if "optional_allowed parse t" for t
    using that readChoice_sound [of parse t] by (auto simp: optional_allowed_def split: option.splits)
  moreover have "choice (dialog_save parse stringify v (s\<lparr>dialog := Some r\<rparr>)) = choice s" if "r \<noteq> revision m" for r
    using that assms(1) by (simp add: dialog_save_def)
  ultimately show ?thesis by blast
qed

definition sample_choice :: cookie_choice where
  "sample_choice = \<lparr>ch_revision = ''r1'', ch_optional = True, ch_expires = 31536001000\<rparr>"

theorem cookie_choice_respected_witness:
  "let parse = (\<lambda>t. if t = ''C'' then Some (choice_json sample_choice) else None);
       m = \<lparr>revision = ''r1'', cookie_banner = True, content_revision = []\<rparr>;
       s = \<lparr>policy = Some m, choice = None, banner_hidden = False, dialog = None, storage = None, storage_on = True, now = 1000\<rparr>;
       saved = saveChoice parse (\<lambda>j. ''C'') True s
   in banner_hidden saved \<and> optional_allowed parse (reload m (saved\<lparr>now := 1000 + 5\<rparr>))"
proof -
  define parse where "parse = (\<lambda>t. if t = ''C'' then Some (choice_json sample_choice) else None)"
  define m where "m = \<lparr>revision = ''r1'', cookie_banner = True, content_revision = []\<rparr>"
  define s where "s = \<lparr>policy = Some m, choice = None, banner_hidden = False, dialog = None, storage = None,
    storage_on = True, now = 1000\<rparr>"
  have "stored_law parse (\<lambda>j. ''C'') \<lparr>ch_revision = revision m, ch_optional = True, ch_expires = now s + 31536000000\<rparr>"
    by (simp add: stored_law_def parse_def s_def m_def sample_choice_def js_length_def units_def)
  moreover have "policy s = Some m" "safe_integer (now s + 31536000000)" "storage_on s" "now s = 1000"
    by (simp_all add: s_def safe_integer_def)
  ultimately have "banner_hidden (saveChoice parse (\<lambda>j. ''C'') True s)"
    "optional_allowed parse (reload m ((saveChoice parse (\<lambda>j. ''C'') True s)\<lparr>now := 1000 + 5\<rparr>))"
    using cookie_choice_respected [of s m parse "\<lambda>j. ''C''" True, OF _ _ _ _ refl, where v = True]
    by (auto dest!: spec [of _ "5::int"])
  then show ?thesis unfolding Let_def parse_def [symmetric] m_def [symmetric] s_def [symmetric] by blast
qed

end
