(* ===== verification/Fido.thy ===== *)
theory Fido
  imports Prelude
begin

text \<open>
  The browser side of Passkeys: \<open>fido-utils.js\<close>. A buffer is a list of characters standing for its bytes.

  \<open>btoa\<close> and \<open>atob\<close> are the functions of the HTML standard (\<open>None\<close> is the \<open>InvalidCharacterError\<close>).
  What the browser's prompt answers is an argument of \<open>requestCredential\<close>: the credential or null, or the name
  of the error the race of the prompt with the abort signal ended with, and the time when it ended.
\<close>

section \<open>Base64\<close>

definition alphabet :: string where
  "alphabet = ''ABCDEFGHIJKLMNOPQRSTUVWXYZabcdefghijklmnopqrstuvwxyz0123456789+/''"

definition b64_char :: "nat \<Rightarrow> char" where "b64_char n = alphabet ! n"

definition b64_val :: "char \<Rightarrow> nat option" where "b64_val c = index_of c alphabet"

abbreviation code :: "char \<Rightarrow> nat" where "code \<equiv> of_char"

fun btoa :: "string \<Rightarrow> string" where
  "btoa [] = []"
| "btoa [a] = [b64_char (code a div 4), b64_char (code a mod 4 * 16), CHR ''='', CHR ''='']"
| "btoa [a, b] =
     [b64_char (code a div 4), b64_char (code a mod 4 * 16 + code b div 16), b64_char (code b mod 16 * 4), CHR ''='']"
| "btoa (a # b # c # r) =
     b64_char (code a div 4) # b64_char (code a mod 4 * 16 + code b div 16) #
     b64_char (code b mod 16 * 4 + code c div 64) # b64_char (code c mod 64) # btoa r"

text \<open>Decoding the digits: groups of four digits are three bytes, a last group of two or three one or two.\<close>

fun decode_digits :: "nat list \<Rightarrow> string option" where
  "decode_digits [] = Some []"
| "decode_digits [x] = None"
| "decode_digits [x, y] = Some [char_of (x * 4 + y div 16)]"
| "decode_digits [x, y, z] = Some [char_of (x * 4 + y div 16), char_of (y mod 16 * 16 + z div 4)]"
| "decode_digits (x # y # z # w # r) =
     map_option (\<lambda>s. char_of (x * 4 + y div 16) # char_of (y mod 16 * 16 + z div 4) # char_of (z mod 4 * 64 + w) # s)
       (decode_digits r)"

fun digits :: "string \<Rightarrow> nat list option" where
  "digits [] = Some []"
| "digits (c # s) =
     (case b64_val c of None \<Rightarrow> None | Some n \<Rightarrow> map_option ((#) n) (digits s))"

definition strip_padding :: "string \<Rightarrow> string" where
  "strip_padding s =
     (if length s mod 4 \<noteq> 0 then s
      else if ends_with ''=='' s then take (length s - 2) s
      else if ends_with ''='' s then butlast s else s)"

definition atob :: "string \<Rightarrow> string option" where
  "atob s = Option.bind (digits (strip_padding (filter (\<lambda>c. \<not> js_ws c) s))) decode_digits"

lemma js_length_equals [simp]: "js_length ''='' = 1"
  by code_simp

function pad_to_four :: "string \<Rightarrow> string" where
  "pad_to_four s = (if js_length s mod 4 = 0 then s else pad_to_four (s @ ''=''))"
  by auto

termination
proof (relation "measure (\<lambda>s. (4 - js_length s mod 4) mod 4)")
  fix s :: string
  assume "js_length s mod 4 \<noteq> 0"
  moreover have "js_length s mod 4 < 4" by simp
  ultimately have "js_length s mod 4 = 1 \<or> js_length s mod 4 = 2 \<or> js_length s mod 4 = 3" by linarith
  then have "(4 - js_length (s @ ''='') mod 4) mod 4 < (4 - js_length s mod 4) mod 4"
    by (elim disjE) (simp_all add: mod_Suc)
  then show "(s @ ''='', s) \<in> measure (\<lambda>s. (4 - js_length s mod 4) mod 4)" by simp
qed simp

declare pad_to_four.simps [simp del]

definition swap_char :: "char \<Rightarrow> char \<Rightarrow> string \<Rightarrow> string" where
  "swap_char a b s = map (\<lambda>c. if c = a then b else c) s"

definition base64urlToBuffer :: "string \<Rightarrow> string option" where
  "base64urlToBuffer base64url =
     (if base64url = [] then Some []
      else atob (pad_to_four (swap_char CHR ''_'' CHR ''/'' (swap_char CHR ''-'' CHR ''+'' base64url))))"

definition bufferToBase64url :: "string \<Rightarrow> string" where
  "bufferToBase64url buffer =
     filter (\<lambda>c. c \<noteq> CHR ''='') (swap_char CHR ''/'' CHR ''_'' (swap_char CHR ''+'' CHR ''-'' (btoa buffer)))"

section \<open>Errors\<close>

definition passkey_error_keys :: "(string \<times> string) list" where
  "passkey_error_keys =
     [(''TimeoutError'', ''fido.timeout''), (''NotAllowedError'', ''fido.cancelled''), (''AbortError'', ''fido.cancelled''),
      (''InvalidStateError'', ''fido.alreadyRegistered''), (''NotSupportedError'', ''login.fidoUnsupported''),
      (''SecurityError'', ''fido.insecure''), (''ConstraintError'', ''fido.verificationUnavailable'')]"

text \<open>The key of the message; \<open>t\<close> translates it.\<close>

definition passkeyErrorMessage :: "string \<Rightarrow> string" where
  "passkeyErrorMessage name =
     (case map_of passkey_error_keys name of None \<Rightarrow> ''login.fidoFailed'' | Some key \<Rightarrow> key)"

section \<open>The prompt\<close>

record credential =
  cr_id :: string
  cr_rawId :: string
  cr_type :: string
  cr_response :: "(string \<times> string) list"

text \<open>A missing response field is the empty buffer: both have no bytes.\<close>

definition field :: "string \<Rightarrow> credential \<Rightarrow> string" where
  "field k c = (case map_of (cr_response c) k of None \<Rightarrow> [] | Some b \<Rightarrow> b)"

record browser =
  supported :: bool
  secure :: bool
  started :: int
  already_aborted :: bool

datatype prompt = Answered "credential option" int | Failed string

definition prompt_timeout :: "int option \<Rightarrow> int" where
  "prompt_timeout requested = min (case requested of Some n \<Rightarrow> if n > 0 then n else 60000 | None \<Rightarrow> 60000) 60000"

definition required_fields :: "string \<Rightarrow> string list" where
  "required_fields method' =
     (if method' = ''get'' then [''authenticatorData'', ''clientDataJSON'', ''signature'']
      else [''attestationObject'', ''clientDataJSON''])"

definition requestCredential :: "browser \<Rightarrow> string \<Rightarrow> int option \<Rightarrow> prompt \<Rightarrow> string + credential" where
  "requestCredential b method' requested p =
     (if \<not> supported b then Inl ''NotSupportedError''
      else if \<not> secure b then Inl ''SecurityError''
      else if already_aborted b then Inl ''AbortError''
      else (case p of
              Failed name \<Rightarrow> Inl name
            | Answered c at \<Rightarrow>
                if at \<ge> started b + prompt_timeout requested then Inl ''TimeoutError''
                else (case c of
                        None \<Rightarrow> Inl ''NotAllowedError''
                      | Some cr \<Rightarrow>
                          if cr_type cr \<noteq> ''public-key'' \<or> cr_id cr = [] \<or> cr_rawId cr = [] \<or>
                             list_ex (\<lambda>f. field f cr = []) (required_fields method')
                          then Inl ''DataError'' else Inr cr)))"

text \<open>The options of the server, as far as the code looks at them: identifiers are base64url.\<close>

record key_options =
  o_challenge :: string
  o_timeout :: "int option"
  o_userId :: string
  o_credentials :: "string list"
  o_userVerification :: string
  o_residentKey :: string
  o_attachment :: "string option"

text \<open>What is handed to the browser; \<open>None\<close> for a deleted list.\<close>

record key_request =
  q_challenge :: string
  q_userId :: string
  q_credentials :: "string list option"
  q_userVerification :: string
  q_residentKey :: string
  q_attachment :: "string option"

fun decode_all :: "string list \<Rightarrow> string list option" where
  "decode_all [] = Some []"
| "decode_all (x # xs) =
     (case (base64urlToBuffer x, decode_all xs) of (Some y, Some ys) \<Rightarrow> Some (y # ys) | _ \<Rightarrow> None)"

definition credential_list :: "string list \<Rightarrow> string list option option" where
  "credential_list cs = (if cs = [] then Some None else map_option Some (decode_all cs))"

definition assertion_request :: "key_options option \<Rightarrow> string + key_request" where
  "assertion_request options =
     (case options of
        None \<Rightarrow> Inl ''DataError''
      | Some k \<Rightarrow>
          if o_challenge k = [] then Inl ''DataError''
          else (case (base64urlToBuffer (o_challenge k), credential_list (o_credentials k)) of
                  (Some ch, Some cs) \<Rightarrow>
                    Inr \<lparr>q_challenge = ch, q_userId = o_userId k, q_credentials = cs,
                      q_userVerification = or_else (o_userVerification k) ''preferred'', q_residentKey = o_residentKey k,
                      q_attachment = o_attachment k\<rparr>
                | _ \<Rightarrow> Inl ''InvalidCharacterError''))"

record assertion =
  a_id :: string
  a_rawId :: string
  a_type :: string
  a_authenticatorData :: string
  a_clientDataJSON :: string
  a_signature :: string
  a_userHandle :: "string option"

definition assertion_of :: "credential \<Rightarrow> assertion" where
  "assertion_of c =
     \<lparr>a_id = cr_id c, a_rawId = bufferToBase64url (cr_rawId c), a_type = cr_type c,
      a_authenticatorData = bufferToBase64url (field ''authenticatorData'' c),
      a_clientDataJSON = bufferToBase64url (field ''clientDataJSON'' c),
      a_signature = bufferToBase64url (field ''signature'' c),
      a_userHandle = map_option bufferToBase64url (map_of (cr_response c) ''userHandle'')\<rparr>"

definition requestPasskeyAssertion :: "browser \<Rightarrow> key_options option \<Rightarrow> prompt \<Rightarrow> string + assertion" where
  "requestPasskeyAssertion b options p =
     (case assertion_request options of
        Inl e \<Rightarrow> Inl e
      | Inr q \<Rightarrow>
          (case requestCredential b ''get'' (o_timeout (the options)) p of
             Inl e \<Rightarrow> Inl e
           | Inr c \<Rightarrow> Inr (assertion_of c)))"

definition registration_request :: "key_options option \<Rightarrow> string + key_request" where
  "registration_request options =
     (case options of
        None \<Rightarrow> Inl ''DataError''
      | Some k \<Rightarrow>
          if o_challenge k = [] \<or> o_userId k = [] then Inl ''DataError''
          else (case (base64urlToBuffer (o_challenge k), base64urlToBuffer (o_userId k), credential_list (o_credentials k)) of
                  (Some ch, Some u, Some cs) \<Rightarrow>
                    Inr \<lparr>q_challenge = ch, q_userId = u, q_credentials = cs,
                      q_userVerification = or_else (o_userVerification k) ''preferred'',
                      q_residentKey = or_else (o_residentKey k) ''preferred'', q_attachment = None\<rparr>
                | _ \<Rightarrow> Inl ''InvalidCharacterError''))"

record registration =
  g_id :: string
  g_rawId :: string
  g_type :: string
  g_attestationObject :: string
  g_clientDataJSON :: string

definition requestPasskeyRegistration :: "browser \<Rightarrow> key_options option \<Rightarrow> prompt \<Rightarrow> string + registration" where
  "requestPasskeyRegistration b options p =
     (case registration_request options of
        Inl e \<Rightarrow> Inl e
      | Inr q \<Rightarrow>
          (case requestCredential b ''create'' (o_timeout (the options)) p of
             Inl e \<Rightarrow> Inl e
           | Inr c \<Rightarrow>
               Inr \<lparr>g_id = cr_id c, g_rawId = bufferToBase64url (cr_rawId c), g_type = cr_type c,
                 g_attestationObject = bufferToBase64url (field ''attestationObject'' c),
                 g_clientDataJSON = bufferToBase64url (field ''clientDataJSON'' c)\<rparr>))"

section \<open>Buffers survive the encoding\<close>

lemma alphabet_chars: "list_all (\<lambda>c. c \<noteq> CHR ''='' \<and> \<not> js_ws c \<and> c \<noteq> CHR ''-'' \<and> c \<noteq> CHR ''_'' \<and> code c < 128) alphabet"
  by code_simp

lemma alphabet_distinct: "distinct alphabet" "length alphabet = 64"
  by (simp_all add: alphabet_def)

lemma index_of_nth: "distinct xs \<Longrightarrow> n < length xs \<Longrightarrow> index_of (xs ! n) xs = Some n"
proof (induction xs arbitrary: n)
  case (Cons x xs)
  then show ?case by (cases n) auto
qed simp

lemma b64_digit:
  assumes "n < 64"
  shows "b64_val (b64_char n) = Some n" "b64_char n \<noteq> CHR ''=''" "\<not> js_ws (b64_char n)" "b64_char n \<noteq> CHR ''-''"
    "b64_char n \<noteq> CHR ''_''" "of_char (b64_char n) < (128 :: nat)"
  using alphabet_chars assms alphabet_distinct index_of_nth [of alphabet n]
  by (auto simp: list_all_length b64_char_def b64_val_def)

text \<open>The digits of a buffer, without padding.\<close>

fun enc_digits :: "string \<Rightarrow> nat list" where
  "enc_digits [] = []"
| "enc_digits [a] = [code a div 4, code a mod 4 * 16]"
| "enc_digits [a, b] = [code a div 4, code a mod 4 * 16 + code b div 16, code b mod 16 * 4]"
| "enc_digits (a # b # c # r) =
     [code a div 4, code a mod 4 * 16 + code b div 16, code b mod 16 * 4 + code c div 64, code c mod 64] @ enc_digits r"

definition padding :: "nat \<Rightarrow> string" where "padding n = replicate ((4 - n mod 4) mod 4) CHR ''=''"

lemma code_bounds: "code c div 4 < 64" "code c div 16 < 16" "code c div 64 < 4"
  using nat_of_char_less_256 [of c] by (simp_all add: less_mult_imp_div_less)

lemma mix_bound: "x < 4 \<Longrightarrow> y < 16 \<Longrightarrow> x * 16 + y < (64 :: nat)" "x < 16 \<Longrightarrow> y < 4 \<Longrightarrow> x * 4 + y < (64 :: nat)"
  by simp_all

lemma enc_digits_bound: "list_all (\<lambda>n. n < 64) (enc_digits s)"
  by (induction s rule: enc_digits.induct) (simp_all add: code_bounds mix_bound)

lemma btoa_digits: "btoa s = map b64_char (enc_digits s) @ padding (length (enc_digits s))"
  by (induction s rule: enc_digits.induct) (simp_all add: padding_def numeral_2_eq_2 mod_Suc)

lemma enc_digits_length: "length (enc_digits s) mod 4 \<noteq> 1"
  by (induction s rule: enc_digits.induct) simp_all

lemma unmix: "y < 16 \<Longrightarrow> (x * 16 + y) div 16 = x" "y < 16 \<Longrightarrow> (x * 16 + y) mod 16 = (y :: nat)"
  "z < 4 \<Longrightarrow> (x * 4 + z) div 4 = x" "z < 4 \<Longrightarrow> (x * 4 + z) mod 4 = (z :: nat)"
  by simp_all

lemma join_parts: "a div 4 * 4 + a mod 4 = (a :: nat)" "a div 16 * 16 + a mod 16 = a" "a div 64 * 64 + a mod 64 = a"
  by simp_all

lemma decode_enc_digits: "decode_digits (enc_digits s) = Some s"
  by (induction s rule: enc_digits.induct) (simp_all add: unmix code_bounds join_parts)

lemma digits_chars: "list_all (\<lambda>n. n < 64) ds \<Longrightarrow> digits (map b64_char ds) = Some ds"
  by (induction ds) (simp_all add: b64_digit)

lemma js_length_chars: "list_all (\<lambda>n. n < 64) ds \<Longrightarrow> js_length (map b64_char ds) = length ds"
  by (subst js_length_ascii) (auto simp: list_all_iff b64_digit)

lemma pad_to_four_eq: "pad_to_four s = s @ padding (js_length s)"
proof (induction s rule: pad_to_four.induct)
  case (1 s)
  show ?case
  proof (cases "js_length s mod 4 = 0")
    case True
    then show ?thesis by (simp add: pad_to_four.simps [of s] padding_def)
  next
    case False
    define n where "n = js_length s"
    have "n mod 4 = 1 \<or> n mod 4 = 2 \<or> n mod 4 = 3" using False unfolding n_def by presburger
    then have "padding n = CHR ''='' # padding (Suc n)"
      by (auto simp: padding_def mod_Suc numeral_2_eq_2 numeral_3_eq_3)
    with 1 [OF False] False show ?thesis by (simp add: pad_to_four.simps [of s] n_def)
  qed
qed

lemma strip_padding_chars:
  assumes "list_all (\<lambda>n. n < 64) ds" "length ds mod 4 \<noteq> 1"
  shows "strip_padding (map b64_char ds @ padding (length ds)) = map b64_char ds"
proof -
  have no: "CHR ''='' \<notin> set (map b64_char ds)" using assms(1) by (auto simp: list_all_iff dest: b64_digit(2) [THEN not_sym])
  have "length ds mod 4 = 0 \<or> length ds mod 4 = 2 \<or> length ds mod 4 = 3" using assms(2) by presburger
  then show ?thesis
  proof (elim disjE)
    assume z: "length ds mod 4 = 0"
    have "\<not> ends_with ''='' (map b64_char ds)" "\<not> ends_with ''=='' (map b64_char ds)"
      using no by (auto simp: ends_with_iff simp del: set_map)
    with z show ?thesis by (simp add: strip_padding_def padding_def)
  next
    assume "length ds mod 4 = 2"
    moreover from this have "(length ds + 2) mod 4 = 0" by presburger
    ultimately show ?thesis
      using ends_with_append [of "''==''" "map b64_char ds"] by (simp add: strip_padding_def padding_def numeral_2_eq_2)
  next
    assume "length ds mod 4 = 3"
    moreover from this have "(length ds + 1) mod 4 = 0" by presburger
    moreover have "\<not> ends_with ''=='' (map b64_char ds @ ''='')"
    proof
      assume "ends_with ''=='' (map b64_char ds @ ''='')"
      then obtain r where "map b64_char ds @ ''='' = (r @ ''='') @ ''=''" by (auto simp: ends_with_iff)
      then have "map b64_char ds = r @ ''=''" by blast
      then show False using no by (metis in_set_conv_decomp)
    qed
    ultimately show ?thesis
      using ends_with_append [of "''=''" "map b64_char ds"] by (simp add: strip_padding_def padding_def butlast_append)
  qed
qed

lemma base64url_roundtrip_aux: "base64urlToBuffer (bufferToBase64url s) = Some s"
proof (cases "s = []")
  case True
  then show ?thesis by (simp add: base64urlToBuffer_def bufferToBase64url_def swap_char_def)
next
  case False
  define ds where "ds = enc_digits s"
  have b: "list_all (\<lambda>n. n < 64) ds" "length ds mod 4 \<noteq> 1" "decode_digits ds = Some s" "ds \<noteq> []"
    using False enc_digits_length [of s]
    by (simp_all add: ds_def enc_digits_bound decode_enc_digits) (auto elim: enc_digits.elims)
  define u where "u = (\<lambda>c. if c = CHR ''/'' then CHR ''_'' else if c = CHR ''+'' then CHR ''-'' else c)"
  have "filter (\<lambda>c. c \<noteq> CHR ''='') (map b64_char ds) = map b64_char ds"
    using b(1) by (auto simp: filter_id_conv list_all_iff b64_digit)
  moreover have "swap_char CHR ''/'' CHR ''_'' (swap_char CHR ''+'' CHR ''-'' t) = map u t" for t
    by (simp add: swap_char_def u_def)
  moreover have "filter (\<lambda>c. c \<noteq> CHR ''='') (map u t) = map u (filter (\<lambda>c. c \<noteq> CHR ''='') t)" for t
    by (induction t) (auto simp: u_def)
  moreover have "filter (\<lambda>c. c \<noteq> CHR ''='') (padding n) = []" for n by (simp add: padding_def)
  ultimately have e: "bufferToBase64url s = map u (map b64_char ds)"
    by (simp add: bufferToBase64url_def btoa_digits ds_def [symmetric] del: map_map)
  have not_ws: "\<not> js_ws CHR ''=''" by code_simp
  have "swap_char CHR ''_'' CHR ''/'' (swap_char CHR ''-'' CHR ''+'' (map u (map b64_char ds))) = map b64_char ds"
    using b(1) by (auto simp: swap_char_def u_def list_all_iff b64_digit)
  moreover have "filter (\<lambda>c. \<not> js_ws c) (map b64_char ds @ padding (length ds)) = map b64_char ds @ padding (length ds)"
    using b(1) not_ws by (auto simp: filter_id_conv list_all_iff b64_digit padding_def)
  ultimately show ?thesis
    using b by (simp add: base64urlToBuffer_def e pad_to_four_eq js_length_chars atob_def strip_padding_chars digits_chars)
qed

text \<open>
  binary data survives the trip through JSON. Encoding any buffer as base64url and decoding the
  text gives the buffer back, whatever its length and bytes, and the text uses only URL-safe characters.
\<close>

theorem base64url_roundtrip:
  "base64urlToBuffer (bufferToBase64url buffer) = Some buffer \<and>
   set (bufferToBase64url buffer) \<inter> {CHR ''+'', CHR ''/'', CHR ''=''} = {}"
  using base64url_roundtrip_aux by (auto simp: bufferToBase64url_def swap_char_def)

section \<open>What is sent to the server\<close>

lemma requestCredential_Inr:
  "requestCredential b m r p = Inr c \<longleftrightarrow>
   supported b \<and> secure b \<and> \<not> already_aborted b \<and>
   (\<exists>at. p = Answered (Some c) at \<and> at < started b + prompt_timeout r) \<and>
   cr_type c = ''public-key'' \<and> cr_id c \<noteq> [] \<and> cr_rawId c \<noteq> [] \<and> list_all (\<lambda>f. field f c \<noteq> []) (required_fields m)"
  by (auto simp: requestCredential_def list_ex_iff list_all_iff split: prompt.splits option.splits if_splits)

text \<open>
  a Passkey assertion is sent only when the authenticator gave a complete one in time, and it carries
  exactly its bytes. The prompt is open for at most a minute; an assertion after an abort, after the time,
  without type, identifier or a required part is refused; the encoded parts decode to the parts of the
  authenticator, and the challenge handed to it is the one of the server.
\<close>

theorem passkey_assertion_exact:
  assumes "requestPasskeyAssertion b options p = Inr a"
  shows "\<exists>k c at. options = Some k \<and> p = Answered (Some c) at \<and> supported b \<and> secure b \<and> \<not> already_aborted b \<and>
    at < started b + prompt_timeout (o_timeout k) \<and> prompt_timeout (o_timeout k) \<le> 60000 \<and>
    (\<exists>q. assertion_request options = Inr q \<and> base64urlToBuffer (o_challenge k) = Some (q_challenge q)) \<and>
    a_id a = cr_id c \<and> a_id a \<noteq> [] \<and> a_type a = ''public-key'' \<and>
    map base64urlToBuffer [a_rawId a, a_authenticatorData a, a_clientDataJSON a, a_signature a] =
      map Some [cr_rawId c, field ''authenticatorData'' c, field ''clientDataJSON'' c, field ''signature'' c] \<and>
    cr_rawId c \<noteq> [] \<and> field ''authenticatorData'' c \<noteq> [] \<and> field ''clientDataJSON'' c \<noteq> [] \<and> field ''signature'' c \<noteq> []"
proof -
  obtain q where q: "assertion_request options = Inr q"
    and "requestCredential b ''get'' (o_timeout (the options)) p \<noteq> Inl e" for e
    using assms by (auto simp: requestPasskeyAssertion_def split: sum.splits)
  then obtain c where c: "requestCredential b ''get'' (o_timeout (the options)) p = Inr c" "a = assertion_of c"
    using assms by (auto simp: requestPasskeyAssertion_def split: sum.splits)
  obtain k where k: "options = Some k" "base64urlToBuffer (o_challenge k) = Some (q_challenge q)"
    using q by (auto simp: assertion_request_def split: option.splits if_splits)
  show ?thesis
    using c(1) k q unfolding requestCredential_Inr
    by (auto simp: c(2) assertion_of_def base64url_roundtrip_aux required_fields_def prompt_timeout_def)
qed

definition sample_key_options :: key_options where
  "sample_key_options = \<lparr>o_challenge = ''AQID'', o_timeout = Some 90000, o_userId = [], o_credentials = [],
     o_userVerification = [], o_residentKey = [], o_attachment = None\<rparr>"

definition sample_credential :: credential where
  "sample_credential = \<lparr>cr_id = ''k1'', cr_rawId = [CHR 0xFB, CHR 0xFF], cr_type = ''public-key'',
     cr_response = [(''authenticatorData'', ''ab''), (''clientDataJSON'', ''{}''), (''signature'', ''sig'')]\<rparr>"

theorem passkey_assertion_exact_witness:
  "let b = \<lparr>supported = True, secure = True, started = 1000, already_aborted = False\<rparr>;
       r = requestPasskeyAssertion b (Some sample_key_options) (Answered (Some sample_credential) 2000)
   in \<exists>a. r = Inr a \<and> base64urlToBuffer (a_rawId a) = Some [CHR 0xFB, CHR 0xFF]"
proof -
  define b where "b = \<lparr>supported = True, secure = True, started = 1000, already_aborted = False\<rparr>"
  have "\<not> isl (requestPasskeyAssertion b (Some sample_key_options) (Answered (Some sample_credential) 2000))"
    unfolding b_def by code_simp
  then obtain a where a: "requestPasskeyAssertion b (Some sample_key_options) (Answered (Some sample_credential) 2000) = Inr a"
    by (cases "requestPasskeyAssertion b (Some sample_key_options) (Answered (Some sample_credential) 2000)") auto
  from passkey_assertion_exact [OF a] have "base64urlToBuffer (a_rawId a) = Some [CHR 0xFB, CHR 0xFF]"
    by (auto simp: sample_credential_def)
  with a show ?thesis unfolding Let_def b_def by blast
qed

end
