(* ===== verification/Mfa.thy ===== *)
theory Mfa
  imports Machine Fido
begin

text \<open>
  The second sign-in step: \<open>mfa-login.js\<close>.

  Every call of \<open>showMFALogin\<close> and \<open>verifyFactor\<close> is a task that waits at one of its awaits; an event
  runs the code up to the next await. A task remembers the value of \<open>sequence\<close> it started with, and a
  verification its own abort controller, named by the number of the task. \<open>timer\<close> is the scheduled deadline with
  the sequence it captured. What the page shows is the state of the two forms, the error under the code field and the
  error of the password form; \<open>completed\<close> lists the announced sessions with the sequence of their
  challenge, and \<open>deletions\<close> counts the requests that drop a challenge on the server. Every await of
  a request may also throw; a request of an aborted controller throws.
\<close>

datatype show_phase = Getting | ShowErrorText | ReadingStatus

datatype verify_phase =
    Consenting | Beginning | BeginErrorText | ReadingOptions | Asserting | Sending | SendErrorText | ReadingSession

datatype mfa_task =
    ShowTask nat bool show_phase
  | VerifyTask nat string verify_phase

record mfa =
  sequence :: nat
  active :: bool
  timer :: "nat option"
  abort :: "nat option"
  aborted :: "nat list"
  tasks :: "(nat \<times> mfa_task) list"
  next_task :: nat
  form_shown :: bool
  password_shown :: bool
  error_box :: "string option"
  login_error :: "string option"
  totp_shown :: bool
  passkey_shown :: bool
  completed :: "(string \<times> nat) list"
  deletions :: nat

definition mfa_start :: mfa where
  "mfa_start = \<lparr>sequence = 0, active = False, timer = None, abort = None, aborted = [], tasks = [], next_task = 0,
     form_shown = False, password_shown = True, error_box = None, login_error = None, totp_shown = False,
     passkey_shown = False, completed = [], deletions = 0\<rparr>"

definition showChallengeError :: "string \<Rightarrow> mfa \<Rightarrow> mfa" where
  "showChallengeError message s = (if active s then s\<lparr>error_box := Some message\<rparr> else s\<lparr>login_error := Some message\<rparr>)"

definition abort_current :: "mfa \<Rightarrow> mfa" where
  "abort_current s = (case abort s of None \<Rightarrow> s | Some c \<Rightarrow> s\<lparr>aborted := c # aborted s\<rparr>)"

definition resetMFALogin :: "mfa \<Rightarrow> mfa" where
  "resetMFALogin s =
     (let hadChallenge = active s; s1 = abort_current s in
      s1\<lparr>sequence := Suc (sequence s), active := False, timer := None, abort := None, form_shown := False,
         error_box := None, password_shown := True, deletions := deletions s + (if hadChallenge then 1 else 0)\<rparr>)"

text \<open>Adding a task, moving it to its next await, and ending it.\<close>

definition spawn :: "mfa_task \<Rightarrow> mfa \<Rightarrow> mfa" where
  "spawn k s = s\<lparr>tasks := (next_task s, k) # tasks s, next_task := Suc (next_task s)\<rparr>"

definition continue_at :: "nat \<Rightarrow> mfa_task \<Rightarrow> mfa \<Rightarrow> mfa" where
  "continue_at i k s = s\<lparr>tasks := (i, k) # filter (\<lambda>p. fst p \<noteq> i) (tasks s)\<rparr>"

definition end_task :: "nat \<Rightarrow> mfa \<Rightarrow> mfa" where
  "end_task i s = s\<lparr>tasks := filter (\<lambda>p. fst p \<noteq> i) (tasks s)\<rparr>"

section \<open>Showing a challenge\<close>

definition showMFALogin :: "bool \<Rightarrow> mfa \<Rightarrow> mfa" where
  "showMFALogin silent s =
     (let s1 = s\<lparr>sequence := Suc (sequence s)\<rparr> in spawn (ShowTask (sequence s1) silent Getting) s1)"

definition show_failed :: "nat \<Rightarrow> bool \<Rightarrow> mfa \<Rightarrow> mfa" where
  "show_failed current silent s =
     (if \<not> silent \<and> current = sequence s then showChallengeError ''mfa.unavailable'' s else s)"

datatype answer = Thrown | Rejected | Ok

definition show_response :: "nat \<Rightarrow> nat \<Rightarrow> bool \<Rightarrow> answer \<Rightarrow> mfa \<Rightarrow> mfa" where
  "show_response i current silent r s =
     (case r of
        Thrown \<Rightarrow> end_task i (show_failed current silent s)
      | Rejected \<Rightarrow>
          if current \<noteq> sequence s \<or> silent then end_task i s
          else continue_at i (ShowTask current silent ShowErrorText) s
      | Ok \<Rightarrow>
          if current \<noteq> sequence s then end_task i s else continue_at i (ShowTask current silent ReadingStatus) s)"

record status =
  totp :: bool
  passkey :: bool

definition show_challenge :: "nat \<Rightarrow> status \<Rightarrow> mfa \<Rightarrow> mfa" where
  "show_challenge current st s =
     s\<lparr>active := True, password_shown := False, form_shown := True, error_box := None, totp_shown := totp st,
       passkey_shown := passkey st, timer := Some current\<rparr>"

definition show_status :: "nat \<Rightarrow> nat \<Rightarrow> bool \<Rightarrow> status option \<Rightarrow> mfa \<Rightarrow> mfa" where
  "show_status i current silent st s =
     end_task i
       (case st of
          None \<Rightarrow> show_failed current silent s
        | Some v \<Rightarrow> if current \<noteq> sequence s then s else show_challenge current v s)"

definition deadline_passed :: "mfa \<Rightarrow> mfa" where
  "deadline_passed s =
     (case timer s of
        None \<Rightarrow> s
      | Some current \<Rightarrow>
          (let s1 = s\<lparr>timer := None\<rparr> in
           if current \<noteq> sequence s1 then s1 else showChallengeError ''mfa.invalid'' (resetMFALogin s1)))"

definition updateMFALoginPage :: "bool \<Rightarrow> bool \<Rightarrow> mfa \<Rightarrow> mfa" where
  "updateMFALoginPage visible entering s =
     (if \<not> visible then resetMFALogin s else if entering then showMFALogin True s else s)"

section \<open>Verifying a factor\<close>

definition verifyFactor :: "string \<Rightarrow> mfa \<Rightarrow> mfa" where
  "verifyFactor factor s =
     (if \<not> active s then s
      else (let s1 = (abort_current s)\<lparr>abort := Some (next_task s), error_box := None\<rparr> in
            spawn (VerifyTask (sequence s) factor Consenting) s1))"

definition stale :: "nat \<Rightarrow> nat \<Rightarrow> mfa \<Rightarrow> bool" where
  "stale i current s \<longleftrightarrow> current \<noteq> sequence s \<or> i \<in> set (aborted s)"

text \<open>The \<open>catch\<close> block.\<close>

definition verify_catch :: "nat \<Rightarrow> nat \<Rightarrow> string \<Rightarrow> string \<Rightarrow> mfa \<Rightarrow> mfa" where
  "verify_catch i current factor error_name s =
     (if stale i current s then end_task i s
      else (let s1 = (if error_name = ''TimeoutError'' then resetMFALogin s else s) in
            end_task i (showChallengeError (if factor = ''passkey'' then passkeyErrorMessage error_name else ''mfa.unavailable'') s1)))"

definition after_consent :: "nat \<Rightarrow> nat \<Rightarrow> string \<Rightarrow> bool \<Rightarrow> mfa \<Rightarrow> mfa" where
  "after_consent i current factor given s =
     (if \<not> given \<or> stale i current s then end_task i s
      else continue_at i (VerifyTask current factor (if factor = ''passkey'' then Beginning else Sending)) s)"

text \<open>\<open>throwIfAborted\<close> looks at the controller only.\<close>

definition after_begin :: "nat \<Rightarrow> nat \<Rightarrow> string \<Rightarrow> answer \<Rightarrow> mfa \<Rightarrow> mfa" where
  "after_begin i current factor r s =
     (if r = Thrown \<or> i \<in> set (aborted s) then verify_catch i current factor ''Error'' s
      else continue_at i (VerifyTask current factor (if r = Ok then ReadingOptions else BeginErrorText)) s)"

definition error_text :: "nat \<Rightarrow> string \<Rightarrow> mfa \<Rightarrow> mfa" where
  "error_text i message s = end_task i (s\<lparr>error_box := Some message\<rparr>)"

definition after_options :: "nat \<Rightarrow> nat \<Rightarrow> string \<Rightarrow> bool \<Rightarrow> mfa \<Rightarrow> mfa" where
  "after_options i current factor ok s =
     (if \<not> ok \<or> i \<in> set (aborted s) then verify_catch i current factor ''Error'' s
      else continue_at i (VerifyTask current factor Asserting) s)"

definition after_assertion :: "nat \<Rightarrow> nat \<Rightarrow> string \<Rightarrow> string option \<Rightarrow> mfa \<Rightarrow> mfa" where
  "after_assertion i current factor failure s =
     (case failure of
        Some error_name \<Rightarrow> verify_catch i current factor error_name s
      | None \<Rightarrow>
          if i \<in> set (aborted s) then verify_catch i current factor ''AbortError'' s
          else continue_at i (VerifyTask current factor Sending) s)"

definition after_send :: "nat \<Rightarrow> nat \<Rightarrow> string \<Rightarrow> answer \<Rightarrow> mfa \<Rightarrow> mfa" where
  "after_send i current factor r s =
     (if r = Thrown then verify_catch i current factor ''Error'' s
      else if stale i current s then end_task i s
      else continue_at i (VerifyTask current factor (if r = Ok then ReadingSession else SendErrorText)) s)"

definition after_session :: "nat \<Rightarrow> nat \<Rightarrow> string \<Rightarrow> string option \<Rightarrow> mfa \<Rightarrow> mfa" where
  "after_session i current factor session s =
     (case session of
        None \<Rightarrow> verify_catch i current factor ''Error'' s
      | Some detail \<Rightarrow>
          if stale i current s then end_task i s
          else (let s1 = resetMFALogin (s\<lparr>active := False\<rparr>) in
                end_task i (s1\<lparr>completed := (detail, current) # completed s1\<rparr>)))"

section \<open>Events\<close>

datatype mfa_event =
    Show bool
  | ShowResponse nat answer
  | ShowMessage nat string
  | ShowStatus nat "status option"
  | Deadline
  | Page bool bool
  | Restart
  | Verify string
  | Consent nat bool
  | BeginResponse nat answer
  | Message nat string
  | Options nat bool
  | Assertion nat "string option"
  | SendResponse nat answer
  | Session nat "string option"

text \<open>An event of a task is possible only when the task waits for it.\<close>

fun mfa_step :: "mfa_event \<Rightarrow> mfa \<Rightarrow> mfa option" where
  "mfa_step (Show silent) s = Some (showMFALogin silent s)"
| "mfa_step (ShowResponse i r) s =
     (case map_of (tasks s) i of Some (ShowTask c q Getting) \<Rightarrow> Some (show_response i c q r s) | _ \<Rightarrow> None)"
| "mfa_step (ShowMessage i m) s =
     (case map_of (tasks s) i of Some (ShowTask c q ShowErrorText) \<Rightarrow> Some (end_task i (showChallengeError m s)) | _ \<Rightarrow> None)"
| "mfa_step (ShowStatus i st) s =
     (case map_of (tasks s) i of Some (ShowTask c q ReadingStatus) \<Rightarrow> Some (show_status i c q st s) | _ \<Rightarrow> None)"
| "mfa_step Deadline s = Some (deadline_passed s)"
| "mfa_step (Page visible entering) s = Some (updateMFALoginPage visible entering s)"
| "mfa_step Restart s = Some (resetMFALogin s)"
| "mfa_step (Verify factor) s = Some (verifyFactor factor s)"
| "mfa_step (Consent i b) s =
     (case map_of (tasks s) i of Some (VerifyTask c f Consenting) \<Rightarrow> Some (after_consent i c f b s) | _ \<Rightarrow> None)"
| "mfa_step (BeginResponse i r) s =
     (case map_of (tasks s) i of Some (VerifyTask c f Beginning) \<Rightarrow> Some (after_begin i c f r s) | _ \<Rightarrow> None)"
| "mfa_step (Message i m) s =
     (case map_of (tasks s) i of
        Some (VerifyTask c f BeginErrorText) \<Rightarrow> Some (error_text i m s)
      | Some (VerifyTask c f SendErrorText) \<Rightarrow> Some (error_text i m s)
      | _ \<Rightarrow> None)"
| "mfa_step (Options i b) s =
     (case map_of (tasks s) i of Some (VerifyTask c f ReadingOptions) \<Rightarrow> Some (after_options i c f b s) | _ \<Rightarrow> None)"
| "mfa_step (Assertion i r) s =
     (case map_of (tasks s) i of Some (VerifyTask c f Asserting) \<Rightarrow> Some (after_assertion i c f r s) | _ \<Rightarrow> None)"
| "mfa_step (SendResponse i r) s =
     (case map_of (tasks s) i of Some (VerifyTask c f Sending) \<Rightarrow> Some (after_send i c f r s) | _ \<Rightarrow> None)"
| "mfa_step (Session i d) s =
     (case map_of (tasks s) i of Some (VerifyTask c f ReadingSession) \<Rightarrow> Some (after_session i c f d s) | _ \<Rightarrow> None)"

section \<open>Sessions come from live challenges\<close>

fun task_ok :: "nat \<Rightarrow> bool \<Rightarrow> mfa_task \<Rightarrow> bool" where
  "task_ok n live (ShowTask c q p) \<longleftrightarrow> c \<le> n"
| "task_ok n live (VerifyTask c f p) \<longleftrightarrow> c \<le> n \<and> (c = n \<longrightarrow> live)"

definition mfa_inv :: "mfa \<Rightarrow> bool" where
  "mfa_inv s \<longleftrightarrow> list_all (\<lambda>p. task_ok (sequence s) (active s) (snd p)) (tasks s) \<and>
     form_shown s = active s \<and> password_shown s = (\<not> active s) \<and>
     distinct (map snd (completed s)) \<and> (\<forall>c\<in>snd ` set (completed s). c < sequence s)"

lemma abort_current_simps [simp]:
  "sequence (abort_current s) = sequence s" "active (abort_current s) = active s" "tasks (abort_current s) = tasks s"
  "form_shown (abort_current s) = form_shown s" "password_shown (abort_current s) = password_shown s"
  "completed (abort_current s) = completed s" "next_task (abort_current s) = next_task s"
  by (simp_all add: abort_current_def split: option.splits)

lemma task_ok_later: "task_ok n live k \<Longrightarrow> n < m \<Longrightarrow> task_ok m l k"
  by (cases k) auto

lemma tasks_later: "list_all (\<lambda>p. task_ok n live (snd p)) ks \<Longrightarrow> n < m \<Longrightarrow> list_all (\<lambda>p. task_ok m l (snd p)) ks"
  by (auto simp: list_all_iff intro: task_ok_later)

lemma tasks_filter: "list_all P ks \<Longrightarrow> list_all P (filter Q ks)"
  by (auto simp: list_all_iff)

lemma inv_end_task [simp]: "mfa_inv s \<Longrightarrow> mfa_inv (end_task i s)"
  by (simp add: mfa_inv_def end_task_def tasks_filter)

lemma inv_continue [simp]: "mfa_inv s \<Longrightarrow> task_ok (sequence s) (active s) k \<Longrightarrow> mfa_inv (continue_at i k s)"
  by (simp add: mfa_inv_def continue_at_def tasks_filter)

lemma inv_spawn [simp]: "mfa_inv s \<Longrightarrow> task_ok (sequence s) (active s) k \<Longrightarrow> mfa_inv (spawn k s)"
  by (simp add: mfa_inv_def spawn_def)

lemma inv_error [simp]: "mfa_inv s \<Longrightarrow> mfa_inv (showChallengeError m s)"
  by (cases "active s") (simp_all add: mfa_inv_def showChallengeError_def)

lemma inv_reset [simp]: "mfa_inv s \<Longrightarrow> mfa_inv (resetMFALogin s)"
  by (auto simp: mfa_inv_def resetMFALogin_def Let_def less_Suc_eq intro: tasks_later)

lemma inv_task: "mfa_inv s \<Longrightarrow> map_of (tasks s) i = Some k \<Longrightarrow> task_ok (sequence s) (active s) k"
  by (auto simp: mfa_inv_def list_all_iff dest!: map_of_SomeD)

lemma inv_catch [simp]: "mfa_inv s \<Longrightarrow> mfa_inv (verify_catch i c f e s)"
  by (simp add: verify_catch_def Let_def)

lemma tasks_live: "list_all (\<lambda>p. task_ok n l (snd p)) ks \<Longrightarrow> list_all (\<lambda>p. task_ok n True (snd p)) ks"
proof -
  have "task_ok n l k \<Longrightarrow> task_ok n True k" for k by (cases k) auto
  then show "list_all (\<lambda>p. task_ok n l (snd p)) ks \<Longrightarrow> list_all (\<lambda>p. task_ok n True (snd p)) ks"
    by (auto simp: list_all_iff)
qed

lemma inv_show_challenge: "mfa_inv s \<Longrightarrow> mfa_inv (show_challenge c st s)"
  by (auto simp: mfa_inv_def show_challenge_def intro: tasks_live)

lemma inv_show_failed [simp]: "mfa_inv s \<Longrightarrow> mfa_inv (show_failed c q s)"
  by (simp add: show_failed_def)

lemma inv_session:
  assumes "mfa_inv s" "\<not> stale i c s"
  shows "mfa_inv (after_session i c f (Some d) s)"
proof -
  define s1 where "s1 = resetMFALogin (s\<lparr>active := False\<rparr>)"
  have f: "tasks s1 = tasks s" "sequence s1 = Suc (sequence s)" "\<not> active s1" "\<not> form_shown s1" "password_shown s1"
    "completed s1 = completed s"
    by (simp_all add: s1_def resetMFALogin_def Let_def abort_current_def split: option.splits)
  have "c = sequence s" using assms(2) by (simp add: stale_def)
  then have "mfa_inv (s1\<lparr>completed := (d, c) # completed s1\<rparr>)"
    using assms(1) f by (auto simp: mfa_inv_def less_Suc_eq intro: tasks_later)
  then show ?thesis using assms(2) by (simp add: after_session_def s1_def Let_def)
qed

lemma inv_timer: "mfa_inv (s\<lparr>timer := x\<rparr>) = mfa_inv s"
  by (simp add: mfa_inv_def)

lemma inv_verify: "mfa_inv s \<Longrightarrow> mfa_inv (verifyFactor f s)"
proof -
  assume i: "mfa_inv s"
  define t where "t = (abort_current s)\<lparr>abort := Some (next_task s), error_box := None\<rparr>"
  have "mfa_inv t" using i by (simp add: t_def mfa_inv_def)
  then show ?thesis using i by (simp add: verifyFactor_def t_def [symmetric]) (simp add: t_def)
qed

lemma inv_show: "mfa_inv s \<Longrightarrow> mfa_inv (showMFALogin q s)"
proof -
  assume i: "mfa_inv s"
  define t where "t = s\<lparr>sequence := Suc (sequence s)\<rparr>"
  have "mfa_inv t" using i by (auto simp: t_def mfa_inv_def less_Suc_eq intro: tasks_later)
  moreover have "showMFALogin q s = spawn (ShowTask (sequence t) q Getting) t" by (simp add: showMFALogin_def t_def Let_def)
  ultimately show ?thesis by simp
qed

lemma inv_message: "mfa_inv s \<Longrightarrow> mfa_inv (error_text i m s)"
proof -
  assume "mfa_inv s"
  then have "mfa_inv (s\<lparr>error_box := Some m\<rparr>)" by (simp add: mfa_inv_def)
  then show ?thesis by (simp add: error_text_def)
qed

lemma mfa_step_inv [step_inv]: "mfa_inv s \<Longrightarrow> mfa_step e s = Some t \<Longrightarrow> mfa_inv t"
proof (cases e)
  case (ShowResponse i r)
  assume s: "mfa_inv s" "mfa_step e s = Some t"
  with ShowResponse obtain c q where k: "map_of (tasks s) i = Some (ShowTask c q Getting)" "t = show_response i c q r s"
    by (auto split: option.splits mfa_task.splits show_phase.splits)
  with s(1) inv_task [OF s(1) k(1)] show ?thesis by (cases r) (auto simp: show_response_def)
next
  case (ShowStatus i st)
  assume s: "mfa_inv s" "mfa_step e s = Some t"
  with ShowStatus show ?thesis
    by (auto simp: show_status_def inv_show_challenge split: option.splits mfa_task.splits show_phase.splits)
next
  case Deadline
  assume "mfa_inv s" "mfa_step e s = Some t"
  with Deadline show ?thesis by (auto simp: deadline_passed_def Let_def inv_timer split: option.splits)
next
  case (Page v en)
  assume "mfa_inv s" "mfa_step e s = Some t"
  with Page show ?thesis by (auto simp: updateMFALoginPage_def inv_show)
next
  case (Consent i b)
  assume s: "mfa_inv s" "mfa_step e s = Some t"
  with Consent obtain c f where k: "map_of (tasks s) i = Some (VerifyTask c f Consenting)" "t = after_consent i c f b s"
    by (auto split: option.splits mfa_task.splits verify_phase.splits)
  with s(1) inv_task [OF s(1) k(1)] show ?thesis by (auto simp: after_consent_def)
next
  case (BeginResponse i r)
  assume s: "mfa_inv s" "mfa_step e s = Some t"
  with BeginResponse obtain c f where k: "map_of (tasks s) i = Some (VerifyTask c f Beginning)" "t = after_begin i c f r s"
    by (auto split: option.splits mfa_task.splits verify_phase.splits)
  with s(1) inv_task [OF s(1) k(1)] show ?thesis by (auto simp: after_begin_def)
next
  case (Options i b)
  assume s: "mfa_inv s" "mfa_step e s = Some t"
  with Options obtain c f where k: "map_of (tasks s) i = Some (VerifyTask c f ReadingOptions)" "t = after_options i c f b s"
    by (auto split: option.splits mfa_task.splits verify_phase.splits)
  with s(1) inv_task [OF s(1) k(1)] show ?thesis by (auto simp: after_options_def)
next
  case (Assertion i r)
  assume s: "mfa_inv s" "mfa_step e s = Some t"
  with Assertion obtain c f where k: "map_of (tasks s) i = Some (VerifyTask c f Asserting)" "t = after_assertion i c f r s"
    by (auto split: option.splits mfa_task.splits verify_phase.splits)
  with s(1) inv_task [OF s(1) k(1)] show ?thesis by (auto simp: after_assertion_def split: option.splits)
next
  case (SendResponse i r)
  assume s: "mfa_inv s" "mfa_step e s = Some t"
  with SendResponse obtain c f where k: "map_of (tasks s) i = Some (VerifyTask c f Sending)" "t = after_send i c f r s"
    by (auto split: option.splits mfa_task.splits verify_phase.splits)
  with s(1) inv_task [OF s(1) k(1)] show ?thesis by (auto simp: after_send_def)
next
  case (Session i d)
  assume s: "mfa_inv s" "mfa_step e s = Some t"
  with Session obtain c f where k: "map_of (tasks s) i = Some (VerifyTask c f ReadingSession)" "t = after_session i c f d s"
    by (auto split: option.splits mfa_task.splits verify_phase.splits)
  with s(1) inv_session [of s i c f] show ?thesis
    by (cases d; cases "stale i c s") (auto simp: after_session_def)
qed (auto simp: inv_show inv_verify inv_message split: option.splits mfa_task.splits show_phase.splits verify_phase.splits)

interpretation mfa: machine mfa_step mfa_inv
  by unfold_locales (rule mfa_step_inv)

lemma mfa_start_inv: "mfa_inv mfa_start"
  by (simp add: mfa_inv_def mfa_start_def)

text \<open>Which tasks an operation leaves: it only removes tasks, or moves one to a later await.\<close>

lemma tasks_simps [simp]:
  "tasks (showChallengeError m s) = tasks s" "tasks (resetMFALogin s) = tasks s"
  "set (tasks (end_task i s)) = set (tasks s) - {p. fst p = i}"
  "set (tasks (continue_at i k s)) = insert (i, k) (set (tasks s) - {p. fst p = i})"
  "set (tasks (spawn k s)) = insert (next_task s, k) (set (tasks s))"
  by (auto simp: showChallengeError_def resetMFALogin_def Let_def end_task_def continue_at_def spawn_def)

lemma tasks_catch: "set (tasks (verify_catch i c f e s)) = set (tasks s) - {p. fst p = i}"
  by (simp add: verify_catch_def Let_def)

definition moved :: "nat \<Rightarrow> mfa \<Rightarrow> mfa \<Rightarrow> bool" where
  "moved i s t \<longleftrightarrow> (\<forall>j c f p. (j, VerifyTask c f p) \<in> set (tasks t) \<longrightarrow>
     (j, VerifyTask c f p) \<in> set (tasks s) \<or>
     (j = i \<and> (\<exists>p'. (j, VerifyTask c f p') \<in> set (tasks s) \<and> p' \<noteq> Consenting)))"

lemma moved_task:
  assumes "map_of (tasks s) i = Some (VerifyTask c f p)" "p \<noteq> Consenting"
    "set (tasks t) \<subseteq> set (tasks s) \<or> (\<exists>p'. set (tasks t) \<subseteq> insert (i, VerifyTask c f p') (set (tasks s)))"
  shows "moved i s t"
  using assms by (auto simp: moved_def dest!: map_of_SomeD)

lemma consent_step:
  assumes "mfa_step e s = Some t" "(j, VerifyTask c f p) \<in> set (tasks t)" "p \<noteq> Consenting"
  shows "(\<exists>p'. (j, VerifyTask c f p') \<in> set (tasks s) \<and> p' \<noteq> Consenting) \<or> e = Consent j True"
proof (cases e)
  case (Consent i b)
  with assms show ?thesis
    by (auto simp: after_consent_def split: option.splits mfa_task.splits verify_phase.splits if_splits)
next
  case (ShowResponse i r)
  with assms show ?thesis
    by (cases r) (auto simp: show_response_def show_failed_def split: option.splits mfa_task.splits show_phase.splits if_splits)
next
  case (ShowStatus i st)
  with assms show ?thesis
    by (auto simp: show_status_def show_failed_def show_challenge_def
        split: option.splits mfa_task.splits show_phase.splits if_splits)
next
  case (BeginResponse i r)
  with assms(1) obtain c' f' where k: "map_of (tasks s) i = Some (VerifyTask c' f' Beginning)" "t = after_begin i c' f' r s"
    by (auto split: option.splits mfa_task.splits verify_phase.splits)
  then have "moved i s t" by (intro moved_task [OF k(1)]) (auto simp: after_begin_def tasks_catch)
  with assms(2,3) show ?thesis unfolding moved_def by blast
next
  case (Options i b)
  with assms(1) obtain c' f' where k: "map_of (tasks s) i = Some (VerifyTask c' f' ReadingOptions)" "t = after_options i c' f' b s"
    by (auto split: option.splits mfa_task.splits verify_phase.splits)
  then have "moved i s t" by (intro moved_task [OF k(1)]) (auto simp: after_options_def tasks_catch)
  with assms(2,3) show ?thesis unfolding moved_def by blast
next
  case (Assertion i r)
  with assms(1) obtain c' f' where k: "map_of (tasks s) i = Some (VerifyTask c' f' Asserting)" "t = after_assertion i c' f' r s"
    by (auto split: option.splits mfa_task.splits verify_phase.splits)
  then have "moved i s t"
    by (intro moved_task [OF k(1)]) (auto simp: after_assertion_def tasks_catch split: option.splits)
  with assms(2,3) show ?thesis unfolding moved_def by blast
next
  case (SendResponse i r)
  with assms(1) obtain c' f' where k: "map_of (tasks s) i = Some (VerifyTask c' f' Sending)" "t = after_send i c' f' r s"
    by (auto split: option.splits mfa_task.splits verify_phase.splits)
  then have "moved i s t" by (intro moved_task [OF k(1)]) (auto simp: after_send_def tasks_catch)
  with assms(2,3) show ?thesis unfolding moved_def by blast
next
  case (Session i d)
  with assms(1) obtain c' f' where k: "map_of (tasks s) i = Some (VerifyTask c' f' ReadingSession)" "t = after_session i c' f' d s"
    by (auto split: option.splits mfa_task.splits verify_phase.splits)
  then have "set (tasks t) \<subseteq> set (tasks s)"
    by (auto simp: after_session_def tasks_catch Let_def end_task_def resetMFALogin_def split: option.splits)
  with assms(2,3) show ?thesis by blast
qed (use assms in \<open>auto simp: showMFALogin_def deadline_passed_def updateMFALoginPage_def verifyFactor_def error_text_def Let_def
      split: option.splits mfa_task.splits show_phase.splits verify_phase.splits if_splits\<close>)

lemma consent_given:
  "run mfa_step es mfa_start = Some s \<Longrightarrow> (j, VerifyTask c f p) \<in> set (tasks s) \<Longrightarrow> p \<noteq> Consenting \<Longrightarrow>
   Consent j True \<in> set es"
proof (induction es arbitrary: s p rule: rev_induct)
  case Nil
  then show ?case by (auto simp: mfa_start_def)
next
  case (snoc e es)
  then obtain u where u: "run mfa_step es mfa_start = Some u" "mfa_step e u = Some s" by (auto simp: run_snoc)
  from consent_step [OF u(2) snoc.prems(2,3)] snoc.IH [OF u(1)] show ?case by auto
qed

text \<open>
  C6: a second-factor sign-in completes only for a live challenge, with consent, once. Whatever the order of
  user actions, answers, time-outs and page changes: a session is announced only by a verification whose challenge is
  still the shown one and which was not superseded or aborted, after the legal consent was given for it; the
  challenge form is then closed and the password form shown, and no challenge completes twice. The
  challenge form is visible exactly while a challenge is active.
\<close>

theorem mfa_completion_guarded:
  assumes "run mfa_step es mfa_start = Some s" and "mfa_step e s = Some t"
  shows "form_shown s = active s \<and> password_shown s = (\<not> active s) \<and> distinct (map snd (completed s)) \<and>
    (completed t \<noteq> completed s \<longrightarrow>
       (\<exists>i d c f. e = Session i (Some d) \<and> map_of (tasks s) i = Some (VerifyTask c f ReadingSession) \<and>
          completed t = (d, c) # completed s \<and> c = sequence s \<and> active s \<and> i \<notin> set (aborted s) \<and>
          Consent i True \<in> set es \<and> \<not> active t \<and> password_shown t))"
proof -
  have i: "mfa_inv s" by (rule mfa.inv_run [OF assms(1) mfa_start_inv])
  have catch: "completed (verify_catch j c f x s) = completed s" for j c f x
    by (simp add: verify_catch_def end_task_def showChallengeError_def resetMFALogin_def Let_def)
  have "\<exists>i d c f. e = Session i (Some d) \<and> map_of (tasks s) i = Some (VerifyTask c f ReadingSession) \<and>
      \<not> stale i c s \<and> t = after_session i c f (Some d) s" if "completed t \<noteq> completed s"
  proof (cases e)
    case (Session i d)
    with assms(2) obtain c f where k: "map_of (tasks s) i = Some (VerifyTask c f ReadingSession)" "t = after_session i c f d s"
      by (auto split: option.splits mfa_task.splits verify_phase.splits)
    with that Session show ?thesis
      by (cases d; cases "stale i c s") (auto simp: after_session_def catch end_task_def)
  qed (use that assms(2) in \<open>auto simp: showMFALogin_def spawn_def deadline_passed_def updateMFALoginPage_def verifyFactor_def error_text_def
      resetMFALogin_def show_response_def show_status_def show_failed_def show_challenge_def showChallengeError_def end_task_def
      continue_at_def after_consent_def after_begin_def after_options_def after_assertion_def after_send_def catch Let_def
      split: option.splits mfa_task.splits show_phase.splits verify_phase.splits answer.splits if_splits\<close>)
  moreover have "Consent i True \<in> set es \<and> active s"
    if "map_of (tasks s) i = Some (VerifyTask c f ReadingSession)" "\<not> stale i c s" for i c f
    using that consent_given [OF assms(1) map_of_SomeD [OF that(1)]] inv_task [OF i that(1)] by (auto simp: stale_def)
  moreover have "completed (after_session i c f (Some d) s) = (d, c) # completed s \<and>
      \<not> active (after_session i c f (Some d) s) \<and> password_shown (after_session i c f (Some d) s)"
    if "\<not> stale i c s" for i c f d
    using that by (simp add: after_session_def Let_def end_task_def resetMFALogin_def)
  ultimately show ?thesis using i by (auto simp: mfa_inv_def stale_def)
qed

definition sample_mfa :: "mfa_event list" where
  "sample_mfa = [Show False, ShowResponse 0 Ok, ShowStatus 0 (Some \<lparr>totp = True, passkey = False\<rparr>), Verify ''totp'',
     Consent 1 True, SendResponse 1 Ok]"

theorem mfa_completion_guarded_witness:
  "let s = the (run mfa_step sample_mfa mfa_start); t = the (mfa_step (Session 1 (Some ''ann'')) s)
   in completed t = [(''ann'', 1)] \<and> active s \<and> \<not> active t \<and> Consent 1 True \<in> set sample_mfa"
proof -
  define s where "s = the (run mfa_step sample_mfa mfa_start)"
  define t where "t = the (mfa_step (Session 1 (Some ''ann'')) s)"
  have r: "run mfa_step sample_mfa mfa_start = Some s" and e: "mfa_step (Session 1 (Some ''ann'')) s = Some t"
    and c: "completed t = [(''ann'', 1)]" "completed s = []"
    unfolding t_def s_def by code_simp+
  from mfa_completion_guarded [OF r e] c show ?thesis unfolding Let_def s_def [symmetric] t_def [symmetric] by auto
qed

text \<open>
  A message that arrives late is not checked against the sequence: the error text of a verification of an
  abandoned challenge is shown below the code field of the next one.
\<close>

theorem stale_error_reaches_next_challenge:
  "\<exists>s. run mfa_step (sample_mfa @ [Verify ''totp'', Consent 2 True, SendResponse 2 Rejected, Restart, Show False,
        ShowResponse 3 Ok, ShowStatus 3 (Some \<lparr>totp = True, passkey = False\<rparr>), Message 2 ''old''])  mfa_start = Some s \<and>
     active s \<and> error_box s = Some ''old''"
proof -
  have "run mfa_step (sample_mfa @ [Verify ''totp'', Consent 2 True, SendResponse 2 Rejected, Restart, Show False,
        ShowResponse 3 Ok, ShowStatus 3 (Some \<lparr>totp = True, passkey = False\<rparr>), Message 2 ''old'']) mfa_start \<noteq> None"
    "active (the (run mfa_step (sample_mfa @ [Verify ''totp'', Consent 2 True, SendResponse 2 Rejected, Restart, Show False,
        ShowResponse 3 Ok, ShowStatus 3 (Some \<lparr>totp = True, passkey = False\<rparr>), Message 2 ''old'']) mfa_start))"
    "error_box (the (run mfa_step (sample_mfa @ [Verify ''totp'', Consent 2 True, SendResponse 2 Rejected, Restart, Show False,
        ShowResponse 3 Ok, ShowStatus 3 (Some \<lparr>totp = True, passkey = False\<rparr>), Message 2 ''old'']) mfa_start)) = Some ''old''"
    by code_simp+
  then show ?thesis by auto
qed

end
