(* ===== verification/Account_Language.thy ===== *)
theory Account_Language
  imports Machine
begin

text \<open>
  The language of a signed-in account: \<open>account-language.js\<close>.

  Every sign-in creates a state object; \<open>account\<close> is one of them, named by a number, and \<open>active\<close> is the
  current one. The asynchronous functions \<open>save\<close> and \<open>hydrate\<close> are split at their awaits: \<open>Saving\<close> is a PUT
  in flight, \<open>Loading\<close> a GET in flight, \<open>Applying\<close> the wait for \<open>setLanguage\<close> in \<open>hydrate\<close>. The entry
  of \<open>localStorage\<close> is read and written as the pair it encodes (\<open>Broken\<close> when it is not JSON), \<open>current\<close> and
  \<open>lang_revision\<close> are what \<open>getLanguage\<close> returns, and \<open>puts\<close> lists the requests sent. The languages on offer
  are the parameter \<open>available\<close>. \<open>wanted\<close> is a history variable that no code reads: the language the account
  was last known or chosen to have.
\<close>

datatype stored = Absent | Pair string string | Broken

record account =
  username :: string
  userID :: string
  is_ready :: bool
  pending :: string
  saved :: string
  saving :: bool
  saveFailed :: bool
  loadFailed :: bool
  loading :: bool
  wanted :: string

datatype language_task = Saving nat string | Loading nat nat | Applying nat bool

record accounts =
  active :: "nat option"
  objects :: "account list"
  running :: "language_task list"
  storage :: stored
  current :: string
  lang_revision :: nat
  puts :: "(nat \<times> string \<times> string) list"
  alerts :: "string list"

definition accounts_start :: "string \<Rightarrow> stored \<Rightarrow> accounts" where
  "accounts_start lang st = \<lparr>active = None, objects = [], running = [], storage = st, current = lang, lang_revision = 0,
     puts = [], alerts = []\<rparr>"

definition change :: "nat \<Rightarrow> (account \<Rightarrow> account) \<Rightarrow> accounts \<Rightarrow> accounts" where
  "change i f s = s\<lparr>objects := (objects s)[i := f (objects s ! i)]\<rparr>"

definition remember :: "nat \<Rightarrow> string \<Rightarrow> accounts \<Rightarrow> accounts" where
  "remember i language s =
     (let s1 = change i (\<lambda>a. a\<lparr>pending := language, wanted := language\<rparr>) s in
      if userID (objects s ! i) \<noteq> [] then s1\<lparr>storage := Pair (userID (objects s ! i)) language\<rparr> else s1)"

definition forget :: "nat \<Rightarrow> string \<Rightarrow> accounts \<Rightarrow> accounts" where
  "forget i language s = (if storage s = Pair (userID (objects s ! i)) language then s\<lparr>storage := Absent\<rparr> else s)"

text \<open>\<open>save\<close> up to the request.\<close>

definition save :: "nat \<Rightarrow> accounts \<Rightarrow> accounts" where
  "save i s =
     (let a = objects s ! i in
      if active s \<noteq> Some i \<or> \<not> is_ready a \<or> saving a \<or> pending a = [] then s
      else if pending a = saved a then change i (\<lambda>a. a\<lparr>pending := []\<rparr>) (forget i (pending a) s)
      else (change i (\<lambda>a. a\<lparr>saving := True\<rparr>) s)
             \<lparr>running := Saving i (pending a) # running s, puts := (i, userID a, pending a) # puts s\<rparr>)"

text \<open>The rest of \<open>save\<close>, with the outcome of the request for \<open>language\<close>, and its \<open>finally\<close> block.\<close>

definition save_result :: "nat \<Rightarrow> string \<Rightarrow> bool \<Rightarrow> accounts \<Rightarrow> accounts" where
  "save_result i language ok s =
     (if active s \<noteq> Some i then s
      else if ok then
        (let s1 = change i (\<lambda>a. a\<lparr>saved := language, saveFailed := False\<rparr>) s in
         if pending (objects s ! i) = language then forget i language (change i (\<lambda>a. a\<lparr>pending := []\<rparr>) s1) else s1)
      else if \<not> saveFailed (objects s ! i)
      then (change i (\<lambda>a. a\<lparr>saveFailed := True\<rparr>) s)\<lparr>alerts := ''profile.languageSaveFailed'' # alerts s\<rparr>
      else s)"

definition save_done :: "nat \<Rightarrow> string \<Rightarrow> bool \<Rightarrow> accounts \<Rightarrow> accounts" where
  "save_done i language ok s =
     (let s1 = change i (\<lambda>a. a\<lparr>saving := False\<rparr>) (save_result i language ok s) in
      if active s1 = Some i \<and> pending (objects s1 ! i) \<noteq> [] \<and> pending (objects s1 ! i) \<noteq> language then save i s1 else s1)"

definition hydrate :: "nat \<Rightarrow> accounts \<Rightarrow> accounts" where
  "hydrate i s =
     (if active s \<noteq> Some i \<or> loading (objects s ! i) then s
      else (change i (\<lambda>a. a\<lparr>loading := True\<rparr>) s)\<lparr>running := Loading i (lang_revision s) # running s\<rparr>)"

definition load_failed :: "nat \<Rightarrow> accounts \<Rightarrow> accounts" where
  "load_failed i s =
     (if active s = Some i \<and> \<not> loadFailed (objects s ! i)
      then (change i (\<lambda>a. a\<lparr>loadFailed := True\<rparr>) s)\<lparr>alerts := ''profile.languageLoadFailed'' # alerts s\<rparr> else s)"

definition end_loading :: "nat \<Rightarrow> accounts \<Rightarrow> accounts" where
  "end_loading i s = change i (\<lambda>a. a\<lparr>loading := False\<rparr>) s"

record profile_data =
  d_username :: string
  d_user_id :: string
  d_locale :: string

definition valid_data :: "string list \<Rightarrow> account \<Rightarrow> profile_data \<Rightarrow> bool" where
  "valid_data available a d \<longleftrightarrow> d_username d = username a \<and> d_user_id d \<noteq> [] \<and> js_length (d_user_id d) \<le> 64 \<and>
     (d_locale d = [] \<or> d_locale d \<in> set available)"

text \<open>Taking over an unfinished choice: the one made meanwhile, or the stored one of the same account.\<close>

definition adopt_pending :: "string list \<Rightarrow> nat \<Rightarrow> accounts \<Rightarrow> accounts" where
  "adopt_pending available i s =
     (let a = objects s ! i in
      if pending a \<noteq> [] then remember i (pending a) s
      else (case storage s of
              Pair uid loc \<Rightarrow>
                if uid = userID a \<and> loc \<in> set available then change i (\<lambda>a. a\<lparr>pending := loc, wanted := loc\<rparr>) s else s
            | Absent \<Rightarrow> s
            | Broken \<Rightarrow> s\<lparr>storage := Absent\<rparr>))"

definition hydrated :: "string list \<Rightarrow> nat \<Rightarrow> profile_data \<Rightarrow> accounts \<Rightarrow> accounts" where
  "hydrated available i d s =
     change i (\<lambda>a. a\<lparr>saved := d_locale d, is_ready := True, loadFailed := False, wanted := (if pending a = [] then d_locale d else wanted a)\<rparr>)
       (adopt_pending available i (change i (\<lambda>a. a\<lparr>userID := d_user_id d\<rparr>) s))"

text \<open>What follows the answer to the GET; \<open>None\<close> is any failure of the request or its body.\<close>

definition hydrate_done :: "string list \<Rightarrow> nat \<Rightarrow> nat \<Rightarrow> profile_data option \<Rightarrow> accounts \<Rightarrow> accounts" where
  "hydrate_done available i revision reply s =
     (case reply of
        None \<Rightarrow> end_loading i (load_failed i s)
      | Some d \<Rightarrow>
          if active s \<noteq> Some i then end_loading i s
          else if \<not> valid_data available (objects s ! i) d then end_loading i (load_failed i s)
          else (let s1 = hydrated available i d s; p = pending (objects s1 ! i) in
                if p \<noteq> [] then
                  (if lang_revision s1 = revision \<and> current s1 \<noteq> p then s1\<lparr>running := Applying i True # running s1\<rparr>
                   else end_loading i (save i s1))
                else if lang_revision s1 = revision then
                  (if d_locale d \<noteq> [] then
                     (if current s1 \<noteq> d_locale d then s1\<lparr>running := Applying i False # running s1\<rparr> else end_loading i s1)
                   else end_loading i (save i (remember i (current s1) s1)))
                else end_loading i s1))"

text \<open>What follows \<open>setLanguage\<close> in \<open>hydrate\<close>.\<close>

definition applied :: "nat \<Rightarrow> bool \<Rightarrow> bool \<Rightarrow> accounts \<Rightarrow> accounts" where
  "applied i then_save ok s =
     (if \<not> ok then end_loading i (load_failed i s)
      else end_loading i (if then_save then save i s else s))"

definition auth_changed :: "bool \<Rightarrow> string \<Rightarrow> accounts \<Rightarrow> accounts" where
  "auth_changed demo user s =
     (if demo then s\<lparr>active := None\<rparr>
      else if (case active s of None \<Rightarrow> False | Some i \<Rightarrow> username (objects s ! i) = user) then s
      else if user = [] then s\<lparr>active := None\<rparr>
      else (let i = length (objects s);
                a = \<lparr>username = user, userID = [], is_ready = False, pending = [], saved = [], saving = False, saveFailed = False,
                     loadFailed = False, loading = False, wanted = []\<rparr>
            in hydrate i (s\<lparr>active := Some i, objects := objects s @ [a]\<rparr>)))"

definition language_changed :: "string \<Rightarrow> accounts \<Rightarrow> accounts" where
  "language_changed lang s =
     (case active s of None \<Rightarrow> s | Some i \<Rightarrow> save i (remember i lang s))"

definition retry :: "accounts \<Rightarrow> accounts" where
  "retry s =
     (case active s of
        None \<Rightarrow> s
      | Some i \<Rightarrow> if is_ready (objects s ! i) then save i s else hydrate i s)"

section \<open>Events\<close>

text \<open>
  \<open>UserChoice\<close> is a choice in the language menu (never empty), \<open>Switched\<close> any other change of the page language;
  \<open>OtherTab\<close> is a write of another tab. The answers come for the first task that waits for them.
\<close>

datatype account_event =
    Auth bool string
  | UserChoice string
  | Switched string
  | OtherTab stored
  | Retry
  | SaveAnswer nat bool
  | LoadAnswer nat "profile_data option"
  | ApplyDone nat bool

definition drop_task :: "nat \<Rightarrow> accounts \<Rightarrow> accounts" where
  "drop_task n s = s\<lparr>running := take n (running s) @ drop (Suc n) (running s)\<rparr>"

fun account_step :: "string list \<Rightarrow> account_event \<Rightarrow> accounts \<Rightarrow> accounts option" where
  "account_step av (Auth demo user) s = Some (auth_changed demo user s)"
| "account_step av (UserChoice lang) s =
     (if lang = [] then None else Some (language_changed lang (s\<lparr>current := lang, lang_revision := Suc (lang_revision s)\<rparr>)))"
| "account_step av (Switched lang) s = Some (s\<lparr>current := lang, lang_revision := Suc (lang_revision s)\<rparr>)"
| "account_step av (OtherTab st) s = Some (s\<lparr>storage := st\<rparr>)"
| "account_step av Retry s = Some (retry s)"
| "account_step av (SaveAnswer n ok) s =
     (if n < length (running s) then
        (case running s ! n of Saving i lang \<Rightarrow> Some (save_done i lang ok (drop_task n s)) | _ \<Rightarrow> None) else None)"
| "account_step av (LoadAnswer n reply) s =
     (if n < length (running s) then
        (case running s ! n of Loading i r \<Rightarrow> Some (hydrate_done av i r reply (drop_task n s)) | _ \<Rightarrow> None) else None)"
| "account_step av (ApplyDone n ok) s =
     (if n < length (running s) then
        (case running s ! n of Applying i b \<Rightarrow> Some (applied i b ok (drop_task n s)) | _ \<Rightarrow> None) else None)"

section \<open>Choices reach the account, one request at a time\<close>

fun owner :: "language_task \<Rightarrow> nat" where
  "owner (Saving i l) = i" | "owner (Loading i r) = i" | "owner (Applying i b) = i"

fun is_save :: "language_task \<Rightarrow> bool" where
  "is_save (Saving i l) = True" | "is_save k = False"

definition mine :: "nat \<Rightarrow> language_task list \<Rightarrow> language_task list" where
  "mine i rs = filter (\<lambda>k. owner k = i) rs"

text \<open>
  One account, whether it is the active one, and its tasks: flags count the tasks, the choice waiting to be
  saved is the newest one, and nothing is left waiting unless a task or a reported failure explains it.
\<close>

definition consistent :: "account \<Rightarrow> language_task list \<Rightarrow> bool" where
  "consistent a ks \<longleftrightarrow>
     length (filter is_save ks) = (if saving a then 1 else 0) \<and>
     length (filter (\<lambda>k. \<not> is_save k) ks) = (if loading a then 1 else 0) \<and>
     (is_ready a \<longrightarrow> userID a \<noteq> []) \<and> (saving a \<longrightarrow> is_ready a \<and> pending a \<noteq> []) \<and>
     (is_ready a \<longrightarrow> list_all (\<lambda>k. case k of Loading i r \<Rightarrow> False | _ \<Rightarrow> True) ks) \<and>
     (pending a \<noteq> [] \<longrightarrow> pending a = wanted a) \<and> (is_ready a \<and> pending a = [] \<longrightarrow> saved a = wanted a)"

definition settled :: "account \<Rightarrow> language_task list \<Rightarrow> bool" where
  "settled a ks \<longleftrightarrow> (is_ready a \<and> \<not> saving a \<and> \<not> saveFailed a \<and> \<not> loadFailed a \<and>
     list_all (\<lambda>k. case k of Applying i b \<Rightarrow> \<not> b | _ \<Rightarrow> True) ks \<longrightarrow> pending a = [])"

definition accounts_inv :: "accounts \<Rightarrow> bool" where
  "accounts_inv s \<longleftrightarrow>
     (\<forall>i < length (objects s). consistent (objects s ! i) (mine i (running s)) \<and>
        (active s = Some i \<longrightarrow> settled (objects s ! i) (mine i (running s)))) \<and>
     (\<forall>i. active s = Some i \<longrightarrow> i < length (objects s)) \<and>
     (\<forall>k\<in>set (running s). owner k < length (objects s)) \<and>
     (\<forall>(i, u, l)\<in>set (puts s). i < length (objects s) \<and> is_ready (objects s ! i) \<and> u = userID (objects s ! i) \<and> l \<noteq> [])"

text \<open>The parts of the state an operation on account \<open>i\<close> may change.\<close>

definition only :: "nat \<Rightarrow> accounts \<Rightarrow> accounts \<Rightarrow> bool" where
  "only i s t \<longleftrightarrow> length (objects t) = length (objects s) \<and> active t = active s \<and>
     (\<forall>j. j \<noteq> i \<longrightarrow> objects t ! j = objects s ! j \<and> mine j (running t) = mine j (running s)) \<and>
     (\<forall>k\<in>set (running t). k \<in> set (running s) \<or> owner k = i) \<and>
     (\<forall>p\<in>set (puts t). p \<in> set (puts s) \<or> fst p = i)"

definition own_puts :: "nat \<Rightarrow> accounts \<Rightarrow> bool" where
  "own_puts i s \<longleftrightarrow> (\<forall>(j, u, l)\<in>set (puts s). j = i \<longrightarrow> is_ready (objects s ! i) \<and> u = userID (objects s ! i) \<and> l \<noteq> [])"

lemma only_refl [simp]: "only i s s"
  by (simp add: only_def)

lemma only_trans: "only i s t \<Longrightarrow> only i t u \<Longrightarrow> only i s u"
  unfolding only_def by (metis (no_types, lifting))

lemma only_inv:
  assumes "accounts_inv s" "only i s t" "i < length (objects s)"
    "consistent (objects t ! i) (mine i (running t))" "active s = Some i \<longrightarrow> settled (objects t ! i) (mine i (running t))"
    "own_puts i t"
  shows "accounts_inv t"
  unfolding accounts_inv_def
proof (intro conjI allI impI ballI)
  fix j assume "j < length (objects t)"
  then show "consistent (objects t ! j) (mine j (running t))"
    using assms by (cases "j = i") (auto simp: accounts_inv_def only_def)
next
  fix j assume "j < length (objects t)" "active t = Some j"
  then show "settled (objects t ! j) (mine j (running t))"
    using assms by (cases "j = i") (auto simp: accounts_inv_def only_def)
next
  fix j assume "active t = Some j"
  then show "j < length (objects t)" using assms by (auto simp: accounts_inv_def only_def)
next
  fix k assume "k \<in> set (running t)"
  then show "owner k < length (objects t)" using assms by (auto simp: accounts_inv_def only_def)
next
  fix p assume p: "p \<in> set (puts t)"
  obtain j u l where jul: "p = (j, u, l)" by (cases p) auto
  show "case p of (j, u, l) \<Rightarrow> j < length (objects t) \<and> is_ready (objects t ! j) \<and> u = userID (objects t ! j) \<and> l \<noteq> []"
  proof (cases "j = i")
    case True
    with p jul assms show ?thesis by (auto simp: own_puts_def only_def)
  next
    case False
    with p jul assms(2) have "p \<in> set (puts s)" by (auto simp: only_def)
    with jul False assms(1,2) show ?thesis by (auto simp: accounts_inv_def only_def)
  qed
qed

lemma inv_parts:
  assumes "accounts_inv s" "i < length (objects s)"
  shows "consistent (objects s ! i) (mine i (running s))" "active s = Some i \<Longrightarrow> settled (objects s ! i) (mine i (running s))"
    "own_puts i s"
  using assms by (auto simp: accounts_inv_def own_puts_def)

lemma mine_Cons [simp]: "mine i (k # rs) = (if owner k = i then k # mine i rs else mine i rs)"
  by (simp add: mine_def)

lemma change_simps [simp]:
  "active (change i f s) = active s" "running (change i f s) = running s" "puts (change i f s) = puts s"
  "storage (change i f s) = storage s" "current (change i f s) = current s" "lang_revision (change i f s) = lang_revision s"
  "length (objects (change i f s)) = length (objects s)"
  "i < length (objects s) \<Longrightarrow> objects (change i f s) ! i = f (objects s ! i)"
  "j \<noteq> i \<Longrightarrow> objects (change i f s) ! j = objects s ! j"
  by (simp_all add: change_def)

lemma only_change [simp]: "only i s (change i f s)"
  by (simp add: only_def)

lemma forget_simps [simp]:
  "objects (forget i l s) = objects s" "active (forget i l s) = active s" "running (forget i l s) = running s"
  "puts (forget i l s) = puts s"
  by (simp_all add: forget_def)

lemma remember_simps [simp]:
  "active (remember i l s) = active s" "running (remember i l s) = running s" "puts (remember i l s) = puts s"
  "length (objects (remember i l s)) = length (objects s)" "lang_revision (remember i l s) = lang_revision s"
  "current (remember i l s) = current s"
  "i < length (objects s) \<Longrightarrow> objects (remember i l s) ! i = (objects s ! i)\<lparr>pending := l, wanted := l\<rparr>"
  "j \<noteq> i \<Longrightarrow> objects (remember i l s) ! j = objects s ! j"
  by (simp_all add: remember_def Let_def)

lemma only_remember [simp]: "only i s (remember i l s)"
  by (simp add: only_def)

text \<open>\<open>save\<close> leaves nothing waiting.\<close>

lemma save_active [simp]: "active (save i s) = active s" "length (objects (save i s)) = length (objects s)"
  by (simp_all add: save_def Let_def)

lemma save_cases [consumes 1, case_names idle clean send]:
  assumes "i < length (objects s)"
  obtains (idle) "save i s = s"
      "active s \<noteq> Some i \<or> \<not> is_ready (objects s ! i) \<or> saving (objects s ! i) \<or> pending (objects s ! i) = []"
  | (clean) "active s = Some i" "is_ready (objects s ! i)" "\<not> saving (objects s ! i)"
      "pending (objects s ! i) = saved (objects s ! i)" "pending (objects s ! i) \<noteq> []"
      "save i s = change i (\<lambda>a. a\<lparr>pending := []\<rparr>) (forget i (pending (objects s ! i)) s)"
  | (send) "active s = Some i" "is_ready (objects s ! i)" "\<not> saving (objects s ! i)" "pending (objects s ! i) \<noteq> []"
      "save i s = (change i (\<lambda>a. a\<lparr>saving := True\<rparr>) s)\<lparr>running := Saving i (pending (objects s ! i)) # running s,
         puts := (i, userID (objects s ! i), pending (objects s ! i)) # puts s\<rparr>"
  by (cases "active s \<noteq> Some i \<or> \<not> is_ready (objects s ! i) \<or> saving (objects s ! i) \<or> pending (objects s ! i) = []";
      cases "pending (objects s ! i) = saved (objects s ! i)") (auto simp: save_def Let_def)

lemma save_spec:
  assumes "i < length (objects s)" "consistent (objects s ! i) (mine i (running s))" "own_puts i s"
  shows "only i s (save i s)" "consistent (objects (save i s) ! i) (mine i (running (save i s)))"
    "active s = Some i \<Longrightarrow> settled (objects (save i s) ! i) (mine i (running (save i s)))" "own_puts i (save i s)"
    "loading (objects (save i s) ! i) = loading (objects s ! i)"
proof -
  define a ks where "a = objects s ! i" and "ks = mine i (running s)"
  note c = assms(2) [folded a_def ks_def, unfolded consistent_def]
  have "only i s (save i s) \<and> consistent (objects (save i s) ! i) (mine i (running (save i s))) \<and>
      (active s = Some i \<longrightarrow> settled (objects (save i s) ! i) (mine i (running (save i s)))) \<and> own_puts i (save i s) \<and>
      loading (objects (save i s) ! i) = loading (objects s ! i)"
    using assms(1)
  proof (cases rule: save_cases)
    case idle
    with assms show ?thesis by (simp add: settled_def) blast
  next
    case clean
    have o: "objects (save i s) ! i = a\<lparr>pending := []\<rparr>" "running (save i s) = running s" "puts (save i s) = puts s"
      using assms(1) by (simp_all add: clean(6) a_def)
    moreover have "only i s (save i s)" unfolding clean(6) by (simp add: only_def)
    moreover have "consistent (a\<lparr>pending := []\<rparr>) ks" "settled (a\<lparr>pending := []\<rparr>) ks"
      using c clean(2-5) by (simp_all add: consistent_def settled_def a_def [symmetric])
    moreover have "own_puts i (save i s)" using assms(3) o by (simp add: own_puts_def a_def)
    ultimately show ?thesis by (simp add: ks_def a_def)
  next
    case send
    have o: "objects (save i s) ! i = a\<lparr>saving := True\<rparr>" "running (save i s) = Saving i (pending a) # running s"
      "puts (save i s) = (i, userID a, pending a) # puts s"
      using assms(1) by (simp_all add: send(5) a_def)
    moreover have "only i s (save i s)" unfolding send(5) by (simp add: only_def)
    moreover have "consistent (a\<lparr>saving := True\<rparr>) (Saving i (pending a) # ks)" "settled (a\<lparr>saving := True\<rparr>) (Saving i (pending a) # ks)"
      using c send(2-4) by (simp_all add: consistent_def settled_def a_def [symmetric])
    moreover have "own_puts i (save i s)" using assms(3) o send(2,4) by (simp add: own_puts_def a_def)
    ultimately show ?thesis by (simp add: ks_def a_def)
  qed
  then show "only i s (save i s)" "consistent (objects (save i s) ! i) (mine i (running (save i s)))"
    "active s = Some i \<Longrightarrow> settled (objects (save i s) ! i) (mine i (running (save i s)))" "own_puts i (save i s)"
    "loading (objects (save i s) ! i) = loading (objects s ! i)" by blast+
qed

lemma hydrate_spec:
  assumes "i < length (objects s)" "consistent (objects s ! i) (mine i (running s))" "own_puts i s" "\<not> is_ready (objects s ! i)"
  shows "only i s (hydrate i s)" "consistent (objects (hydrate i s) ! i) (mine i (running (hydrate i s)))"
    "settled (objects (hydrate i s) ! i) (mine i (running (hydrate i s)))" "own_puts i (hydrate i s)"
  using assms by (auto simp: hydrate_def only_def consistent_def settled_def own_puts_def)

lemma inv_save: "accounts_inv s \<Longrightarrow> i < length (objects s) \<Longrightarrow> accounts_inv (save i s)"
  by (rule only_inv [OF _ save_spec(1) _ save_spec(2)]) (auto simp: inv_parts save_spec)

lemma inv_storage: "accounts_inv (s\<lparr>storage := x\<rparr>) = accounts_inv s"
  "accounts_inv (s\<lparr>current := c, lang_revision := r\<rparr>) = accounts_inv s"
  by (simp_all add: accounts_inv_def)

lemma mine_drop:
  assumes "n < length rs" "owner (rs ! n) = i"
  obtains A B where "mine i rs = A @ rs ! n # B" "mine i (take n rs @ drop (Suc n) rs) = A @ B"
    "\<And>j. j \<noteq> i \<Longrightarrow> mine j (take n rs @ drop (Suc n) rs) = mine j rs"
proof -
  have rs: "rs = take n rs @ rs ! n # drop (Suc n) rs" by (rule id_take_nth_drop [OF assms(1)])
  have app: "mine j (xs @ ys) = mine j xs @ mine j ys" for j xs ys by (simp add: mine_def)
  have "mine i rs = mine i (take n rs) @ rs ! n # mine i (drop (Suc n) rs)"
    using assms(2) by (subst (1) rs) (simp add: app)
  moreover have "mine j (take n rs @ drop (Suc n) rs) = mine j rs" if "j \<noteq> i" for j
    using that assms(2) by (subst (3) rs) (simp add: app)
  ultimately show ?thesis using app by (intro that [of "mine i (take n rs)" "mine i (drop (Suc n) rs)"])
qed

lemma drop_task_simps [simp]:
  "objects (drop_task n s) = objects s" "active (drop_task n s) = active s" "puts (drop_task n s) = puts s"
  by (simp_all add: drop_task_def)

lemma drop_task_only:
  assumes "n < length (running s)" "owner (running s ! n) = i"
  shows "only i s (drop_task n s)"
proof -
  have "set (take n (running s) @ drop (Suc n) (running s)) \<subseteq> set (running s)"
    using set_take_subset [of n "running s"] set_drop_subset [of "Suc n" "running s"] by auto
  moreover obtain A B where "\<And>j. j \<noteq> i \<Longrightarrow> mine j (take n (running s) @ drop (Suc n) (running s)) = mine j (running s)"
    using mine_drop [OF assms] by metis
  ultimately show ?thesis by (auto simp: only_def drop_task_def)
qed

text \<open>The end of a request.\<close>

definition outcome :: "string \<Rightarrow> bool \<Rightarrow> bool \<Rightarrow> account \<Rightarrow> account" where
  "outcome language ok act a =
     (if \<not> act then a
      else if ok then a\<lparr>saved := language, saveFailed := False, pending := (if pending a = language then [] else pending a)\<rparr>
      else a\<lparr>saveFailed := True\<rparr>)"

lemma save_result_spec:
  assumes "i < length (objects s)"
  shows "only i s (save_result i l ok s)" "running (save_result i l ok s) = running s" "puts (save_result i l ok s) = puts s"
    "objects (save_result i l ok s) ! i = outcome l ok (active s = Some i) (objects s ! i)"
  using assms by (auto simp: save_result_def only_def Let_def outcome_def)

lemma outcome_consistent:
  assumes "consistent a (A @ Saving i l # B)" "saving a"
  shows "consistent ((outcome l ok act a)\<lparr>saving := False\<rparr>) (A @ B)"
  using assms by (auto simp: consistent_def outcome_def split: if_splits)

lemma inv_save_done:
  assumes inv: "accounts_inv s" and n: "n < length (running s)" "running s ! n = Saving i l"
  shows "accounts_inv (save_done i l ok (drop_task n s))"
proof -
  have o: "owner (running s ! n) = i" and i: "i < length (objects s)"
    using n inv nth_mem [OF n(1)] by (auto simp: accounts_inv_def)
  obtain A B where ab: "mine i (running s) = A @ Saving i l # B" "mine i (running (drop_task n s)) = A @ B"
    using mine_drop [OF n(1) o] n(2) by (metis drop_task_def accounts.select_convs(3) accounts.update_convs(3) accounts.surjective)
  define a where "a = objects s ! i"
  have c: "consistent a (A @ Saving i l # B)" using inv_parts(1) [OF inv i] ab by (simp add: a_def)
  then have sv: "saving a" by (auto simp: consistent_def split: if_splits)
  define u where "u = change i (\<lambda>a. a\<lparr>saving := False\<rparr>) (save_result i l ok (drop_task n s))"
  have i': "i < length (objects (drop_task n s))" using i by simp
  note r = save_result_spec [OF i', of l ok]
  have len: "length (objects (save_result i l ok (drop_task n s))) = length (objects s)" using r(1) by (simp add: only_def)
  have u: "objects u ! i = (outcome l ok (active s = Some i) a)\<lparr>saving := False\<rparr>" "mine i (running u) = A @ B"
    "puts u = puts s" "active u = active s" "length (objects u) = length (objects s)"
    using r len i ab by (simp_all add: u_def a_def only_def)
  have only: "only i s u"
    using only_trans [OF drop_task_only [OF n(1) o] only_trans [OF r(1) only_change]] by (simp add: u_def)
  have cu: "consistent (objects u ! i) (mine i (running u))" using outcome_consistent [OF c sv] u by simp
  have own: "own_puts i u"
    using inv_parts(3) [OF inv i] u by (auto simp: own_puts_def outcome_def a_def split: if_splits)
  show ?thesis
  proof (cases "active u = Some i \<and> pending (objects u ! i) \<noteq> [] \<and> pending (objects u ! i) \<noteq> l")
    case True
    then have "save_done i l ok (drop_task n s) = save i u" unfolding save_done_def Let_def u_def [symmetric] by simp
    moreover note sp = save_spec [OF _ cu own] 
    ultimately show ?thesis
      using only_inv [OF inv only_trans [OF only sp(1)] i sp(2) _ sp(4)] sp(3) i u(4,5) by simp
  next
    case False
    then have "save_done i l ok (drop_task n s) = u"
      unfolding save_done_def Let_def u_def [symmetric] by (simp only: if_False)
    moreover have "active s = Some i \<longrightarrow> settled (objects u ! i) (mine i (running u))"
      using False u by (auto simp: settled_def outcome_def split: if_splits)
    ultimately show ?thesis using only_inv [OF inv only i cu _ own] by simp
  qed
qed

text \<open>Ending the load commutes with \<open>save\<close>.\<close>

lemma end_loading_simps [simp]:
  "i < length (objects s) \<Longrightarrow> objects (end_loading i s) ! i = (objects s ! i)\<lparr>loading := False\<rparr>"
  "running (end_loading i s) = running s" "puts (end_loading i s) = puts s" "active (end_loading i s) = active s"
  "length (objects (end_loading i s)) = length (objects s)" "only i s (end_loading i s)"
  by (simp_all add: end_loading_def)

lemma end_loading_save: "i < length (objects s) \<Longrightarrow> end_loading i (save i s) = save i (end_loading i s)"
proof -
  have swap: "pending_update (\<lambda>_. x) (loading_update (\<lambda>_. y) a) = loading_update (\<lambda>_. y) (pending_update (\<lambda>_. x) a)"
    "saving_update (\<lambda>_. z) (loading_update (\<lambda>_. y) a) = loading_update (\<lambda>_. y) (saving_update (\<lambda>_. z) a)"
    for a :: account and x y z by (cases a; simp)+
  assume "i < length (objects s)"
  then show ?thesis
    by (cases s) (simp add: end_loading_def save_def forget_def change_def Let_def swap)
qed

lemma load_failed_spec:
  assumes "i < length (objects s)"
  shows "only i s (load_failed i s)" "running (load_failed i s) = running s" "puts (load_failed i s) = puts s"
    "objects (load_failed i s) ! i = (if active s = Some i then (objects s ! i)\<lparr>loadFailed := True\<rparr> else objects s ! i)"
  using assms by (auto simp: load_failed_def only_def)

text \<open>Ending a load for good: without a save, or with one.\<close>

lemma inv_ended:
  assumes "accounts_inv s" "i < length (objects s)" "only i s u"
    "consistent ((objects u ! i)\<lparr>loading := False\<rparr>) (mine i (running u))" "own_puts i u"
  shows "(active s = Some i \<longrightarrow> settled ((objects u ! i)\<lparr>loading := False\<rparr>) (mine i (running u))) \<Longrightarrow> accounts_inv (end_loading i u)"
    "accounts_inv (end_loading i (save i u))"
proof -
  have l: "i < length (objects u)" "active u = active s" using assms(2,3) by (simp_all add: only_def)
  define v where "v = end_loading i u"
  have v: "objects v ! i = (objects u ! i)\<lparr>loading := False\<rparr>" "mine i (running v) = mine i (running u)" "own_puts i v"
    "only i s v" "i < length (objects v)" "active v = active s"
    using l assms(3,5) only_trans [OF assms(3), of v] by (simp_all add: v_def own_puts_def)
  then show "(active s = Some i \<longrightarrow> settled ((objects u ! i)\<lparr>loading := False\<rparr>) (mine i (running u))) \<Longrightarrow> accounts_inv (end_loading i u)"
    using only_inv [OF assms(1) v(4) assms(2)] assms(4) by (simp add: v_def)
  note sp = save_spec [OF v(5), of, OF _ v(3)]
  show "accounts_inv (end_loading i (save i u))"
    unfolding end_loading_save [OF l(1)] v_def [symmetric]
    using only_inv [OF assms(1) only_trans [OF v(4) sp(1)] assms(2) sp(2) _ sp(4)] sp(3) v assms(4) by simp
qed

lemma adopt_pending_spec:
  assumes "i < length (objects s)"
  shows "only i s (adopt_pending av i s)" "running (adopt_pending av i s) = running s" "puts (adopt_pending av i s) = puts s"
    "lang_revision (adopt_pending av i s) = lang_revision s" "current (adopt_pending av i s) = current s"
    "\<exists>p. objects (adopt_pending av i s) ! i =
       (if pending (objects s ! i) \<noteq> [] then (objects s ! i)\<lparr>wanted := pending (objects s ! i)\<rparr>
        else if p = None then objects s ! i else (objects s ! i)\<lparr>pending := the p, wanted := the p\<rparr>)"
proof -
  have keep: "a\<lparr>pending := pending a, wanted := w\<rparr> = a\<lparr>wanted := w\<rparr>" for a :: account and w by (cases a) simp
  show "\<exists>p. objects (adopt_pending av i s) ! i =
       (if pending (objects s ! i) \<noteq> [] then (objects s ! i)\<lparr>wanted := pending (objects s ! i)\<rparr>
        else if p = None then objects s ! i else (objects s ! i)\<lparr>pending := the p, wanted := the p\<rparr>)"
    using assms
    by (cases "storage s") (auto simp: adopt_pending_def Let_def keep intro: exI [of _ None] exI [of _ "Some _"])
qed (use assms in \<open>auto simp: adopt_pending_def Let_def only_def split: stored.splits\<close>)

lemma hydrated_spec:
  assumes "i < length (objects s)" "\<not> is_ready (objects s ! i)" "own_puts i s" "mine i (running s) = []"
    "consistent ((objects s ! i)\<lparr>loading := False\<rparr>) []" "d_user_id d \<noteq> []"
  shows "only i s (hydrated av i d s)" "running (hydrated av i d s) = running s" "own_puts i (hydrated av i d s)"
    "consistent ((objects (hydrated av i d s) ! i)\<lparr>loading := False\<rparr>) []"
    "loading (objects (hydrated av i d s) ! i) = loading (objects s ! i)"
    "\<not> loadFailed (objects (hydrated av i d s) ! i)" "is_ready (objects (hydrated av i d s) ! i)"
    "lang_revision (hydrated av i d s) = lang_revision s" "active (hydrated av i d s) = active s"
    "\<not> saving (objects (hydrated av i d s) ! i)" "saved (objects (hydrated av i d s) ! i) = d_locale d"
proof -
  define u where "u = change i (\<lambda>a. a\<lparr>userID := d_user_id d\<rparr>) s"
  have u: "i < length (objects u)" "objects u ! i = (objects s ! i)\<lparr>userID := d_user_id d\<rparr>" "running u = running s"
    "puts u = puts s" "only i s u" "active u = active s" "lang_revision u = lang_revision s"
    using assms(1) by (simp_all add: u_def)
  note ad = adopt_pending_spec [OF u(1), of av]
  define v where "v = adopt_pending av i u"
  have v: "i < length (objects v)" "only i s v" "running v = running s" "puts v = puts s" "active v = active s" "lang_revision v = lang_revision s"
    using ad(1-4) u only_trans [OF u(5)] by (simp_all add: v_def only_def)
  have h: "hydrated av i d s = change i (\<lambda>a. a\<lparr>saved := d_locale d, is_ready := True, loadFailed := False,
      wanted := (if pending a = [] then d_locale d else wanted a)\<rparr>) v"
    by (simp add: hydrated_def u_def v_def)
  have np: "(j, x) \<in> set (puts s) \<Longrightarrow> j \<noteq> i" for j x using assms(2,3) by (auto simp: own_puts_def)
  show "only i s (hydrated av i d s)" "running (hydrated av i d s) = running s" "active (hydrated av i d s) = active s"
    "lang_revision (hydrated av i d s) = lang_revision s"
    using v only_trans [OF v(2) only_change] by (simp_all add: h)
  show "own_puts i (hydrated av i d s)" using np v by (auto simp: own_puts_def h)
  obtain p where p: "objects v ! i = (if pending (objects u ! i) \<noteq> [] then (objects u ! i)\<lparr>wanted := pending (objects u ! i)\<rparr>
        else if p = None then objects u ! i else (objects u ! i)\<lparr>pending := the p, wanted := the p\<rparr>)"
    using ad(6) unfolding v_def by blast
  have ns: "\<not> saving (objects s ! i)" using assms(2,5) by (simp add: consistent_def)
  show "consistent ((objects (hydrated av i d s) ! i)\<lparr>loading := False\<rparr>) []"
    using v(1) p u(2) assms(5,6) ns by (auto simp: h consistent_def)
  show "loading (objects (hydrated av i d s) ! i) = loading (objects s ! i)" "\<not> loadFailed (objects (hydrated av i d s) ! i)"
    "is_ready (objects (hydrated av i d s) ! i)" "\<not> saving (objects (hydrated av i d s) ! i)"
    "saved (objects (hydrated av i d s) ! i) = d_locale d"
    using v(1) p u(2) ns by (auto simp: h)
qed

lemma inv_applying:
  assumes "accounts_inv s" "i < length (objects s)" "only i s u" "mine i (running u) = []" "own_puts i u"
    "consistent ((objects u ! i)\<lparr>loading := False\<rparr>) []" "loading (objects u ! i)" "is_ready (objects u ! i)"
    "b \<or> pending (objects u ! i) = []"
  shows "accounts_inv (u\<lparr>running := Applying i b # running u\<rparr>)"
proof -
  have "consistent (objects u ! i) [Applying i b]" "settled (objects u ! i) [Applying i b]"
    using assms(6-9) by (auto simp: consistent_def settled_def)
  then show ?thesis
    using assms(3-5) by (intro only_inv [OF assms(1) _ assms(2)]) (auto simp: only_def own_puts_def)
qed

lemma inv_hydrate_done:
  assumes inv: "accounts_inv s" and n: "n < length (running s)" "running s ! n = Loading i r"
  shows "accounts_inv (hydrate_done av i r reply (drop_task n s))"
proof -
  have o: "owner (running s ! n) = i" and i: "i < length (objects s)"
    using n inv nth_mem [OF n(1)] by (auto simp: accounts_inv_def)
  define w where "w = drop_task n s"
  obtain A B where ab: "mine i (running s) = A @ Loading i r # B" "mine i (running w) = A @ B"
    using mine_drop [OF n(1) o] n(2)
    by (metis w_def drop_task_def accounts.select_convs(3) accounts.update_convs(3) accounts.surjective)
  define a where "a = objects s ! i"
  have c: "consistent a (A @ Loading i r # B)" using inv_parts(1) [OF inv i] ab by (simp add: a_def)
  then have nr: "\<not> is_ready a" "\<not> saving a" by (auto simp: consistent_def)
  have "length (filter is_save (A @ B)) = 0" "length (filter (\<lambda>k. \<not> is_save k) (A @ B)) = 0"
    using c nr by (auto simp: consistent_def split: if_splits)
  then have "set (A @ B) = {}" by (auto simp: filter_empty_conv)
  then have nil: "A @ B = []" by simp
  have ca: "consistent (a\<lparr>loading := False\<rparr>) []" using c nr nil by (auto simp: consistent_def)
  have la: "loading a" using c by (auto simp: consistent_def split: if_splits)
  have w: "objects w ! i = a" "i < length (objects w)" "active w = active s" "mine i (running w) = []" "only i s w" "own_puts i w"
    using i ab nil inv_parts(3) [OF inv i] drop_task_only [OF n(1) o] by (simp_all add: w_def a_def own_puts_def)
  have fail: "accounts_inv (end_loading i (load_failed i w))"
  proof (rule inv_ended(1) [OF inv i])
    note lf = load_failed_spec [OF w(2)]
    show "only i s (load_failed i w)" by (rule only_trans [OF w(5) lf(1)])
    show "consistent ((objects (load_failed i w) ! i)\<lparr>loading := False\<rparr>) (mine i (running (load_failed i w)))"
      using ca w lf by (auto simp: consistent_def)
    show "own_puts i (load_failed i w)" using w lf nr by (auto simp: own_puts_def)
    show "active s = Some i \<longrightarrow> settled ((objects (load_failed i w) ! i)\<lparr>loading := False\<rparr>) (mine i (running (load_failed i w)))"
      using lf w nr by (simp add: settled_def)
  qed
  have plain: "accounts_inv (end_loading i w)"
    using ca w nr by (intro inv_ended(1) [OF inv i w(5)]) (auto simp: settled_def)
  have good: "accounts_inv (hydrate_done av i r (Some d) w)" if d: "active w = Some i" "valid_data av (objects w ! i) d" for d
  proof -
    have "d_user_id d \<noteq> []" using d(2) by (simp add: valid_data_def)
    note h = hydrated_spec [OF w(2) _ w(6,4) _ this, unfolded w(1), OF nr(1) ca, of av]
    define u where "u = hydrated av i d w"
    note hu = h [folded u_def]
    have os: "only i s u" by (rule only_trans [OF w(5) hu(1)])
    have m: "mine i (running u) = []" using w(4) hu(2) by simp
    have lu: "i < length (objects u)" using hu(1) w(2) by (simp add: only_def)
    show ?thesis
    proof (cases "pending (objects u ! i) = []")
      case False
      have "accounts_inv (u\<lparr>running := Applying i True # running u\<rparr>)"
        using hu la by (intro inv_applying [OF inv i os m]) simp_all
      moreover have "accounts_inv (end_loading i (save i u))"
        using hu m by (intro inv_ended(2) [OF inv i os]) simp_all
      ultimately show ?thesis using d False by (simp add: hydrate_done_def u_def [symmetric] Let_def)
    next
      case True
      have "accounts_inv (u\<lparr>running := Applying i False # running u\<rparr>)"
        using hu la True by (intro inv_applying [OF inv i os m]) simp_all
      moreover have "accounts_inv (end_loading i u)"
        using hu m True by (intro inv_ended(1) [OF inv i os]) (simp_all add: settled_def)
      moreover have "accounts_inv (end_loading i (save i (remember i (current u) u)))" if "d_locale d = []"
      proof (rule inv_ended(2) [OF inv i only_trans [OF os only_remember]])
        show "consistent ((objects (remember i (current u) u) ! i)\<lparr>loading := False\<rparr>) (mine i (running (remember i (current u) u)))"
          using hu(4,10,11) lu m True that by (cases "current u = []") (auto simp: consistent_def)
        show "own_puts i (remember i (current u) u)" using hu(3) lu by (simp add: own_puts_def)
      qed
      ultimately show ?thesis using d True by (simp add: hydrate_done_def u_def [symmetric] Let_def)
    qed
  qed
  show ?thesis
    unfolding w_def [symmetric] using fail plain good w(3)
    by (cases reply) (auto simp: hydrate_done_def Let_def split: if_splits)
qed

lemma inv_applied:
  assumes inv: "accounts_inv s" and n: "n < length (running s)" "running s ! n = Applying i b"
  shows "accounts_inv (applied i b ok (drop_task n s))"
proof -
  have o: "owner (running s ! n) = i" and i: "i < length (objects s)"
    using n inv nth_mem [OF n(1)] by (auto simp: accounts_inv_def)
  define w where "w = drop_task n s"
  obtain A B where ab: "mine i (running s) = A @ Applying i b # B" "mine i (running w) = A @ B"
    using mine_drop [OF n(1) o] n(2)
    by (metis w_def drop_task_def accounts.select_convs(3) accounts.update_convs(3) accounts.surjective)
  define a where "a = objects s ! i"
  have c: "consistent a (A @ Applying i b # B)" and st: "active s = Some i \<Longrightarrow> settled a (A @ Applying i b # B)"
    using inv_parts [OF inv i] ab by (simp_all add: a_def)
  have ca: "consistent (a\<lparr>loading := False\<rparr>) (A @ B)" using c by (auto simp: consistent_def split: if_splits)
  have w: "objects w ! i = a" "i < length (objects w)" "active w = active s" "only i s w" "own_puts i w"
    using i inv_parts(3) [OF inv i] drop_task_only [OF n(1) o] by (simp_all add: w_def a_def own_puts_def)
  note lf = load_failed_spec [OF w(2)]
  have "accounts_inv (end_loading i (load_failed i w))"
  proof (rule inv_ended(1) [OF inv i only_trans [OF w(4) lf(1)]])
    show "consistent ((objects (load_failed i w) ! i)\<lparr>loading := False\<rparr>) (mine i (running (load_failed i w)))"
      using ca w lf ab by (auto simp: consistent_def)
    show "own_puts i (load_failed i w)" using w lf by (auto simp: own_puts_def)
    show "active s = Some i \<longrightarrow> settled ((objects (load_failed i w) ! i)\<lparr>loading := False\<rparr>) (mine i (running (load_failed i w)))"
      using lf w by (simp add: settled_def)
  qed
  moreover have "accounts_inv (end_loading i (save i w))"
    using ca w ab by (intro inv_ended(2) [OF inv i w(4)]) simp_all
  moreover have "accounts_inv (end_loading i w)" if "\<not> b"
    using ca w ab st that by (intro inv_ended(1) [OF inv i w(4)]) (auto simp: settled_def)
  ultimately show ?thesis unfolding w_def [symmetric] by (simp add: applied_def)
qed

lemma inv_auth: "accounts_inv s \<Longrightarrow> accounts_inv (auth_changed demo user s)"
proof -
  assume inv: "accounts_inv s"
  have off: "accounts_inv (s\<lparr>active := None\<rparr>)" using inv by (simp add: accounts_inv_def)
  define i a where "i = length (objects s)" and "a = \<lparr>username = user, userID = [], is_ready = False, pending = [],
    saved = [], saving = False, saveFailed = False, loadFailed = False, loading = False, wanted = []\<rparr>"
  define u where "u = s\<lparr>active := Some i, objects := objects s @ [a]\<rparr>"
  have m: "mine i (running s) = []" using inv by (fastforce simp: accounts_inv_def mine_def i_def filter_empty_conv)
  have ca: "consistent a []" "settled a []" by (simp_all add: consistent_def settled_def a_def)
  have p: "(j, x) \<in> set (puts s) \<Longrightarrow> j < i" for j x using inv by (auto simp: accounts_inv_def i_def)
  have iu: "accounts_inv u"
    using inv m ca p unfolding accounts_inv_def u_def
    by (fastforce simp: nth_append i_def less_Suc_eq)
  have "i < length (objects u)" "objects u ! i = a" "mine i (running u) = []" "own_puts i u"
    using m p by (auto simp: u_def i_def own_puts_def)
  then have "accounts_inv (hydrate i u)"
    using hydrate_spec [of i u] ca by (intro only_inv [OF iu]) (auto simp: a_def)
  with off inv show ?thesis
    by (auto simp: auth_changed_def Let_def u_def i_def a_def split: option.splits)
qed

lemma inv_choice: "accounts_inv s \<Longrightarrow> lang \<noteq> [] \<Longrightarrow> accounts_inv (language_changed lang s)"
proof (cases "active s")
  case (Some i)
  assume inv: "accounts_inv s" and l: "lang \<noteq> []"
  have i: "i < length (objects s)" using inv Some by (simp add: accounts_inv_def)
  define u where "u = remember i lang s"
  have c: "consistent (objects u ! i) (mine i (running u))" "own_puts i u" "only i s u" "i < length (objects u)"
    using inv_parts [OF inv i] i l by (auto simp: u_def consistent_def own_puts_def)
  note sp = save_spec [OF c(4,1,2)]
  show ?thesis
    using only_inv [OF inv only_trans [OF c(3) sp(1)] i sp(2) _ sp(4)] sp(3) Some
    by (simp add: language_changed_def u_def)
qed (simp add: language_changed_def)

lemma inv_retry: "accounts_inv s \<Longrightarrow> accounts_inv (retry s)"
proof (cases "active s")
  case (Some i)
  assume inv: "accounts_inv s"
  have i: "i < length (objects s)" using inv Some by (simp add: accounts_inv_def)
  have "accounts_inv (hydrate i s)" if "\<not> is_ready (objects s ! i)"
    using hydrate_spec [OF i inv_parts(1,3) [OF inv i] that] by (intro only_inv [OF inv _ i]) auto
  then show ?thesis using inv_save [OF inv i] Some by (simp add: retry_def)
qed (simp add: retry_def)

lemma account_step_inv [step_inv]: "accounts_inv s \<Longrightarrow> account_step av e s = Some t \<Longrightarrow> accounts_inv t"
  by (cases e) (auto simp: inv_auth inv_choice inv_retry inv_storage inv_save_done inv_hydrate_done inv_applied
      split: if_splits language_task.splits)

interpretation acc: machine "account_step av" accounts_inv for av
  by unfold_locales (rule account_step_inv)

lemma accounts_start_inv: "accounts_inv (accounts_start lang st)"
  by (simp add: accounts_inv_def accounts_start_def)


definition sample_account_events :: "account_event list" where
  "sample_account_events = [Auth False ''ann'', LoadAnswer 0 (Some \<lparr>d_username = ''ann'', d_user_id = ''u1'', d_locale = ''en''\<rparr>),
     UserChoice ''fr'', UserChoice ''de'', SaveAnswer 0 True, SaveAnswer 0 True]"


end
