(* ===== verification/Markdown.thy ===== *)
theory Markdown
  imports Dom
begin

text \<open>
  Markdown written by users (\<open>markdown.js\<close> of the application) and the documentation pages
  (\<open>lib/markdown.js\<close> of the web site). The Markdown parser and the URL parser are not part of the
  sources: \<open>parse_markdown\<close> stands for \<open>Marked.parse\<close> followed by the HTML parser of the
  template element, \<open>url_of\<close> for the constructor \<open>URL\<close> (\<open>None\<close> when it
  throws). The sanitizer is correct whatever they answer.
\<close>

section \<open>Slicing strings\<close>

text \<open>
  \<open>s.slice(0, n)\<close> counts UTF-16 code units. A character outside the basic plane that is cut in half
  leaves its first surrogate, which is kept here as the three bytes that encode it.
\<close>

fun first_surrogate :: "nat list \<Rightarrow> string" where
  "first_surrogate (a # b # c # d # s) =
     (let v = ((a - 240) * 262144 + (b - 128) * 4096 + (c - 128) * 64 + (d - 128) - 65536) div 1024 mod 1024
      in [CHR 0xED, char_of (160 + v div 64), char_of (128 + v mod 64)])"
| "first_surrogate s = []"

fun js_take :: "nat \<Rightarrow> string \<Rightarrow> string" where
  "js_take n [] = []"
| "js_take n (c # s) =
     (if units c \<le> n then c # js_take (n - units c) s
      else if n = 0 then []
      else first_surrogate (map of_char (c # s)))"

section \<open>The sanitizer\<close>

text \<open>A parsed document fragment: names of elements are upper case, as \<open>tagName\<close> gives them.\<close>

datatype frag =
    FText string
  | FComment string
  | FElem string "(string \<times> string) list" "frag list"

fun fragText :: "frag \<Rightarrow> string" where
  "fragText (FText s) = s"
| "fragText (FComment s) = []"
| "fragText (FElem el_name ats xs) = concat (map fragText xs)"

definition allowedMarkdownElements :: "string list" where
  "allowedMarkdownElements =
     [''A'', ''B'', ''BLOCKQUOTE'', ''BR'', ''CODE'', ''DEL'', ''EM'', ''H1'', ''H2'', ''H3'', ''H4'', ''H5'', ''H6'',
      ''HR'', ''IMG'', ''LI'', ''OL'', ''P'', ''PRE'', ''STRONG'', ''TABLE'', ''TBODY'', ''TD'', ''TH'', ''THEAD'',
      ''TR'', ''UL'']"

text \<open>An absent or empty text is the empty text.\<close>

definition escapeMarkdownHTML :: "string option \<Rightarrow> string" where
  "escapeMarkdownHTML value =
     replace_all [CHR 0x27] ''&#39;''
       (replace_all [CHR 0x22] ''&quot;''
         (replace_all ''>'' ''&gt;''
           (replace_all ''<'' ''&lt;''
             (replace_all ''&'' ''&amp;'' (case value of None \<Rightarrow> [] | Some s \<Rightarrow> s)))))"

text \<open>The renderer of raw HTML in Markdown: its text, or else its source, as text.\<close>

definition or_source :: "string option \<Rightarrow> string option \<Rightarrow> string option" where
  "or_source txt raw = (if txt \<noteq> None \<and> txt \<noteq> Some [] then txt else raw)"

definition html_token :: "string option \<Rightarrow> string option \<Rightarrow> string" where
  "html_token txt raw = escapeMarkdownHTML (or_source txt raw)"

record parsed_url =
  protocol :: string
  hostname :: string
  username :: string
  url_password :: string
  href :: string

definition safeMarkdownURL :: "(string \<Rightarrow> parsed_url option) \<Rightarrow> string option \<Rightarrow> string" where
  "safeMarkdownURL url_of value =
     (let raw = js_trim (case value of None \<Rightarrow> [] | Some s \<Rightarrow> s) in
      if raw = [] then []
      else (case url_of raw of
              None \<Rightarrow> []
            | Some u \<Rightarrow>
                if protocol u \<notin> {''http:'', ''https:''} \<or> hostname u = [] \<or> username u \<noteq> [] \<or> url_password u \<noteq> []
                then [] else href u))"

text \<open>\<open>/^language-[a-z0-9_-]{1,40}$/i\<close>.\<close>

definition code_char :: "char \<Rightarrow> bool" where
  "code_char c \<longleftrightarrow> (let n = (of_char (lower_char c) :: nat) in
     97 \<le> n \<and> n \<le> 122 \<or> 48 \<le> n \<and> n \<le> 57 \<or> n = 95 \<or> n = 45)"

definition is_code_class :: "string \<Rightarrow> bool" where
  "is_code_class s \<longleftrightarrow>
     to_lower (take 9 s) = ''language-'' \<and> 1 \<le> length (drop 9 s) \<and> length (drop 9 s) \<le> 40 \<and> list_all code_char (drop 9 s)"

definition attr :: "string \<Rightarrow> (string \<times> string) list \<Rightarrow> string" where
  "attr name ats = (case map_of ats name of None \<Rightarrow> [] | Some v \<Rightarrow> v)"

text \<open>The attributes an element is left with, in the order in which they are set; an empty attribute is not set.\<close>

definition when_text :: "string \<Rightarrow> string \<Rightarrow> (string \<times> string) list" where
  "when_text name v = (if v = [] then [] else [(name, v)])"

definition kept_attributes :: "(string \<Rightarrow> parsed_url option) \<Rightarrow> string \<Rightarrow> (string \<times> string) list \<Rightarrow> (string \<times> string) list" where
  "kept_attributes url_of el_name ats =
     (let href = (if el_name = ''A'' then safeMarkdownURL url_of (map_of ats ''href'') else []);
          source = (if el_name = ''IMG'' then safeMarkdownURL url_of (map_of ats ''src'') else []);
          title = js_take 512 (attr ''title'' ats);
          alternative = js_take 512 (attr ''alt'' ats);
          codeClass = (if el_name = ''CODE'' \<and> is_code_class (attr ''class'' ats) then attr ''class'' ats else [])
      in (if el_name = ''A'' \<and> href \<noteq> []
          then [(''href'', href), (''target'', ''_blank''), (''rel'', ''noopener noreferrer nofollow'')] @ when_text ''title'' title
          else []) @
         (if el_name = ''IMG''
          then [(''src'', source), (''alt'', alternative), (''loading'', ''lazy''), (''referrerpolicy'', ''no-referrer'')] @
               when_text ''title'' title
          else []) @
         when_text ''class'' codeClass)"

text \<open>
  The sanitizer visits the elements in document order, a parent before its children. What it puts in place of an
  element is a text node, so the descendants of that element, which it still visits, are no longer in the document.
\<close>

fun sanitize :: "(string \<Rightarrow> parsed_url option) \<Rightarrow> frag \<Rightarrow> frag" where
  "sanitize url_of (FText s) = FText s"
| "sanitize url_of (FComment s) = FComment s"
| "sanitize url_of (FElem el_name ats xs) =
     (if el_name \<notin> set allowedMarkdownElements then FText (fragText (FElem el_name ats xs))
      else if el_name = ''IMG'' \<and> safeMarkdownURL url_of (map_of ats ''src'') = []
      then FText (js_take 512 (attr ''alt'' ats))
      else FElem el_name (kept_attributes url_of el_name ats) (map (sanitize url_of) xs))"

definition sanitizeMarkdownFragment :: "(string \<Rightarrow> parsed_url option) \<Rightarrow> frag list \<Rightarrow> frag list" where
  "sanitizeMarkdownFragment url_of fragment = map (sanitize url_of) fragment"

text \<open>The new children of the target; \<open>None\<close> when the target is not an HTML element.\<close>

definition setSafeMarkdown ::
  "(string \<Rightarrow> parsed_url option) \<Rightarrow> (string \<Rightarrow> frag list) \<Rightarrow> bool \<Rightarrow> string option \<Rightarrow> frag list option" where
  "setSafeMarkdown url_of parse_markdown is_html_element source =
     (if \<not> is_html_element then None
      else Some (sanitizeMarkdownFragment url_of (parse_markdown (case source of None \<Rightarrow> [] | Some s \<Rightarrow> s))))"

section \<open>What the sanitizer lets through\<close>

lemma char_of_39: "char_of (39 :: nat) = CHR 0x27"
  by (simp add: char_of_def bit_iff_odd)

lemma js_length_take: "js_length (js_take n s) \<le> n"
proof (induction n s rule: js_take.induct)
  case (2 n c s)
  show ?case
  proof (cases "units c \<le> n \<or> n = 0")
    case True
    with 2 show ?thesis by (auto simp: js_length_def)
  next
    case False
    have "units (char_of (160 + v div 64)) = 0" "units (char_of (128 + v mod 64)) = 0" if "v < 1024" for v :: nat
    proof -
      have "v div 64 < 16" "v mod 64 < 64" using that by auto
      then show "units (char_of (160 + v div 64)) = 0" "units (char_of (128 + v mod 64)) = 0"
        by (simp_all add: units_def Let_def)
    qed
    moreover have "units (CHR 0xED) = 1" by code_simp
    ultimately have "js_length (first_surrogate xs) \<le> 1" for xs
      by (cases xs rule: first_surrogate.cases) (auto simp: js_length_def Let_def)
    then have "js_length (first_surrogate xs) \<le> n" for xs using False by (auto intro: order_trans [of _ 1])
    with False show ?thesis by auto
  qed
qed (simp add: js_length_def)

lemma js_take_all: "js_length s \<le> n \<Longrightarrow> js_take n s = s"
  by (induction s arbitrary: n) (auto simp: js_length_def)

lemma js_take_idem [simp]: "js_take n (js_take n s) = js_take n s"
  by (rule js_take_all) (rule js_length_take)

text \<open>An address the sanitizer accepts: what the parser made of some text, and of no other scheme.\<close>

definition web_address :: "(string \<Rightarrow> parsed_url option) \<Rightarrow> string \<Rightarrow> bool" where
  "web_address url_of v \<longleftrightarrow> (\<exists>raw u. url_of raw = Some u \<and> v = href u \<and> protocol u \<in> {''http:'', ''https:''} \<and>
     hostname u \<noteq> [] \<and> username u = [] \<and> url_password u = [])"

lemma safe_url_cases: "safeMarkdownURL url_of x = [] \<or> web_address url_of (safeMarkdownURL url_of x)"
  by (auto simp: safeMarkdownURL_def web_address_def Let_def split: option.splits)

text \<open>The attributes of the contract of safe Markdown.\<close>

fun attr_ok :: "(string \<Rightarrow> parsed_url option) \<Rightarrow> string \<Rightarrow> string \<times> string \<Rightarrow> bool" where
  "attr_ok url_of el_name (k, v) \<longleftrightarrow>
     el_name = ''A'' \<and> k = ''href'' \<and> web_address url_of v \<or>
     el_name = ''A'' \<and> k = ''target'' \<and> v = ''_blank'' \<or>
     el_name = ''A'' \<and> k = ''rel'' \<and> v = ''noopener noreferrer nofollow'' \<or>
     el_name = ''IMG'' \<and> k = ''src'' \<and> web_address url_of v \<or>
     el_name = ''IMG'' \<and> k = ''alt'' \<and> js_length v \<le> 512 \<or>
     el_name = ''IMG'' \<and> (k, v) = (''loading'', ''lazy'') \<or>
     el_name = ''IMG'' \<and> (k, v) = (''referrerpolicy'', ''no-referrer'') \<or>
     el_name \<in> {''A'', ''IMG''} \<and> k = ''title'' \<and> js_length v \<le> 512 \<or>
     el_name = ''CODE'' \<and> k = ''class'' \<and> is_code_class v"

fun frag_ok :: "(string \<Rightarrow> parsed_url option) \<Rightarrow> frag \<Rightarrow> bool" where
  "frag_ok url_of (FText s) = True"
| "frag_ok url_of (FComment s) = True"
| "frag_ok url_of (FElem el_name ats xs) \<longleftrightarrow>
     el_name \<in> set allowedMarkdownElements \<and> list_all (attr_ok url_of el_name) ats \<and> distinct (map fst ats) \<and>
     list_all (frag_ok url_of) xs"

lemma when_text_simps [simp]:
  "list_all P (when_text k v) \<longleftrightarrow> v = [] \<or> P (k, v)"
  "map fst (when_text k v) = (if v = [] then [] else [k])"
  by (auto simp: when_text_def)

lemma kept_cases:
  "kept_attributes url_of ''A'' ats =
     (if safeMarkdownURL url_of (map_of ats ''href'') = [] then []
      else [(''href'', safeMarkdownURL url_of (map_of ats ''href'')), (''target'', ''_blank''),
            (''rel'', ''noopener noreferrer nofollow'')] @ when_text ''title'' (js_take 512 (attr ''title'' ats)))"
  "kept_attributes url_of ''IMG'' ats =
     [(''src'', safeMarkdownURL url_of (map_of ats ''src'')), (''alt'', js_take 512 (attr ''alt'' ats)),
      (''loading'', ''lazy''), (''referrerpolicy'', ''no-referrer'')] @ when_text ''title'' (js_take 512 (attr ''title'' ats))"
  "kept_attributes url_of ''CODE'' ats =
     when_text ''class'' (if is_code_class (attr ''class'' ats) then attr ''class'' ats else [])"
  "el_name \<noteq> ''A'' \<Longrightarrow> el_name \<noteq> ''IMG'' \<Longrightarrow> el_name \<noteq> ''CODE'' \<Longrightarrow> kept_attributes url_of el_name ats = []"
  by (simp_all add: kept_attributes_def Let_def when_text_def)

lemma safe_url_web: "safeMarkdownURL url_of x \<noteq> [] \<Longrightarrow> web_address url_of (safeMarkdownURL url_of x)"
  using safe_url_cases by blast

lemma kept_ok:
  assumes "el_name = ''IMG'' \<longrightarrow> safeMarkdownURL url_of (map_of ats ''src'') \<noteq> []"
  shows "list_all (attr_ok url_of el_name) (kept_attributes url_of el_name ats)"
    and "distinct (map fst (kept_attributes url_of el_name ats))"
proof -
  consider "el_name = ''A''" | "el_name = ''IMG''" | "el_name = ''CODE''"
    | "el_name \<noteq> ''A''" "el_name \<noteq> ''IMG''" "el_name \<noteq> ''CODE''" by blast
  then have "list_all (attr_ok url_of el_name) (kept_attributes url_of el_name ats) \<and>
    distinct (map fst (kept_attributes url_of el_name ats))"
    using assms by cases (simp_all add: kept_cases safe_url_web js_length_take)
  then show "list_all (attr_ok url_of el_name) (kept_attributes url_of el_name ats)"
    and "distinct (map fst (kept_attributes url_of el_name ats))" by simp_all
qed

lemma sanitize_ok: "frag_ok url_of (sanitize url_of f)"
proof (induction f)
  case (FElem el_name ats xs)
  show ?case
  proof (cases "el_name = ''IMG'' \<and> safeMarkdownURL url_of (map_of ats ''src'') = []")
    case False
    with FElem show ?thesis
      using kept_ok [of el_name url_of ats] by (simp add: list_all_iff)
  qed simp
qed simp_all

text \<open>An attribute that the sanitizer has set is set again to the same value.\<close>

definition stable_urls :: "(string \<Rightarrow> parsed_url option) \<Rightarrow> bool" where
  "stable_urls url_of \<longleftrightarrow> (\<forall>raw u. url_of raw = Some u \<longrightarrow> url_of (href u) = Some u \<and> js_trim (href u) = href u)"

lemma safe_url_again:
  assumes "stable_urls url_of"
  shows "safeMarkdownURL url_of (Some (safeMarkdownURL url_of x)) = safeMarkdownURL url_of x"
  using assms by (auto simp: safeMarkdownURL_def Let_def stable_urls_def js_trim_Nil split: option.splits)

lemma map_of_when_text [simp]: "map_of (when_text k v) j = (if j = k \<and> v \<noteq> [] then Some v else None)"
  by (simp add: when_text_def)

lemma attr_found [simp]: "map_of ats k = Some v \<Longrightarrow> attr k ats = v"
  by (simp add: attr_def)

lemma kept_again:
  assumes u: "stable_urls url_of"
    and "el_name = ''IMG'' \<longrightarrow> safeMarkdownURL url_of (map_of ats ''src'') \<noteq> []"
  shows "kept_attributes url_of el_name (kept_attributes url_of el_name ats) = kept_attributes url_of el_name ats"
proof -
  have empty: "safeMarkdownURL url_of None = []" by (simp add: safeMarkdownURL_def js_trim_def)
  consider "el_name = ''A''" | "el_name = ''IMG''" | "el_name = ''CODE''"
    | "el_name \<noteq> ''A''" "el_name \<noteq> ''IMG''" "el_name \<noteq> ''CODE''" by blast
  then show ?thesis
    using assms by cases (simp_all add: kept_cases safe_url_again empty attr_def when_text_def is_code_class_def)
qed

lemma sanitize_again: "stable_urls url_of \<Longrightarrow> sanitize url_of (sanitize url_of f) = sanitize url_of f"
proof (induction f)
  case (FElem el_name ats xs)
  show ?case
  proof (cases "el_name = ''IMG'' \<and> safeMarkdownURL url_of (map_of ats ''src'') = []")
    case False
    then have "el_name = ''IMG'' \<Longrightarrow> safeMarkdownURL url_of (map_of (kept_attributes url_of el_name ats) ''src'') \<noteq> []"
      using FElem.prems by (auto simp: kept_cases safe_url_again)
    with FElem False show ?thesis
      using kept_again [of url_of el_name ats] by auto
  qed simp
qed simp_all

fun image_free :: "frag \<Rightarrow> bool" where
  "image_free (FText s) = True"
| "image_free (FComment s) = True"
| "image_free (FElem el_name ats xs) \<longleftrightarrow> el_name \<noteq> ''IMG'' \<and> list_all image_free xs"

lemma sanitize_text: "image_free f \<Longrightarrow> fragText (sanitize url_of f) = fragText f"
  by (induction f) (auto simp: list_all_iff intro!: arg_cong [where f = concat])

text \<open>
  C25: Markdown from users cannot put active content on a page. Whatever the Markdown parser produced,
  every element of the rendered fragment is one of the allowed ones, every attribute is one of the contract of
  safe Markdown, set once, and every link and image address is the normal form of an http(s) address with
  a host and without credentials; titles and alternative texts are bounded. Raw HTML in
  the source is escaped: the text the renderer returns has no markup and reads back as the source.
\<close>

theorem safe_markdown_inert:
  assumes "setSafeMarkdown url_of parse_markdown is_html source = Some page"
  shows "list_all (frag_ok url_of) page \<and>
    set (html_token txt raw) \<inter> {CHR ''<'', CHR ''>'', CHR 0x22, CHR 0x27} = {} \<and>
    unescape (html_token txt raw) = (case or_source txt raw of None \<Rightarrow> [] | Some s \<Rightarrow> s)"
proof -
  have "escapeMarkdownHTML v = escapeHtml v" for v
    by (cases v) (simp_all add: escapeMarkdownHTML_def escapeHtml_def replace_all_char char_of_39)
  then have e: "escapeMarkdownHTML v = concat (map html_char (case v of None \<Rightarrow> [] | Some s \<Rightarrow> s))" for v
    by (cases v) (simp_all add: escapeHtml_eq escapeHtml_def [of None])
  show ?thesis
    using assms html_inert by (auto simp: setSafeMarkdown_def sanitizeMarkdownFragment_def list_all_iff sanitize_ok
        html_token_def e unescape_html split: if_splits)
qed

text \<open>A small document, and a URL parser that knows a few addresses.\<close>

definition sample_url :: "string \<Rightarrow> parsed_url option" where
  "sample_url raw =
     (if raw = ''https://renop.dev'' \<or> raw = ''https://renop.dev/''
      then Some \<lparr>protocol = ''https:'', hostname = ''renop.dev'', username = [], url_password = [], href = ''https://renop.dev/''\<rparr>
      else if raw = ''javascript:alert(1)''
      then Some \<lparr>protocol = ''javascript:'', hostname = [], username = [], url_password = [], href = raw\<rparr>
      else None)"

definition sample_fragment :: "frag list" where
  "sample_fragment =
     [FElem ''P'' [(''onclick'', ''go()'')]
        [FElem ''A'' [(''href'', '' https://renop.dev''), (''title'', ''Home'')] [FText ''home''],
         FElem ''A'' [(''href'', ''javascript:alert(1)'')] [FText ''x''],
         FElem ''SCRIPT'' [] [FText ''go()'']],
      FElem ''CODE'' [(''class'', ''language-Java'')] [FText ''int x'']]"

lemma sample_sanitized:
  "sanitizeMarkdownFragment sample_url sample_fragment =
     [FElem ''P'' []
        [FElem ''A'' [(''href'', ''https://renop.dev/''), (''target'', ''_blank''), (''rel'', ''noopener noreferrer nofollow''),
                      (''title'', ''Home'')] [FText ''home''],
         FElem ''A'' [] [FText ''x''],
         FText ''go()''],
      FElem ''CODE'' [(''class'', ''language-Java'')] [FText ''int x'']]"
  by code_simp

theorem safe_markdown_inert_witness:
  "list_all (frag_ok sample_url) (sanitizeMarkdownFragment sample_url sample_fragment) \<and>
   unescape (html_token None (Some ''<b>'')) = ''<b>''"
  using safe_markdown_inert [of sample_url "\<lambda>s. sample_fragment" True None
      "sanitizeMarkdownFragment sample_url sample_fragment" None "Some ''<b>''"]
  by (simp add: setSafeMarkdown_def or_source_def)

text \<open>
  the sanitizer is stable and keeps the text. When the URL parser reads back the addresses it
  writes, sanitizing a fragment a second time changes nothing; the text of a fragment without images
  is the same before and after.
\<close>

theorem sanitizer_stable:
  assumes "stable_urls url_of"
  shows "sanitizeMarkdownFragment url_of (sanitizeMarkdownFragment url_of fragment) = sanitizeMarkdownFragment url_of fragment \<and>
    (list_all image_free fragment \<longrightarrow>
      concat (map fragText (sanitizeMarkdownFragment url_of fragment)) = concat (map fragText fragment))"
  using assms by (auto simp: sanitizeMarkdownFragment_def sanitize_again sanitize_text list_all_iff
      intro!: arg_cong [where f = concat])

lemma sample_stable: "stable_urls sample_url"
proof -
  have "js_trim ''https://renop.dev/'' = ''https://renop.dev/''" "js_trim ''javascript:alert(1)'' = ''javascript:alert(1)''"
    by code_simp+
  then show ?thesis by (simp add: stable_urls_def sample_url_def)
qed

theorem sanitizer_stable_witness:
  "concat (map fragText (sanitizeMarkdownFragment sample_url sample_fragment)) = ''homexgo()int x'' \<and>
   sanitizeMarkdownFragment sample_url (sanitizeMarkdownFragment sample_url sample_fragment) =
     sanitizeMarkdownFragment sample_url sample_fragment"
  using sanitizer_stable [OF sample_stable, of sample_fragment]
  by (simp add: sample_fragment_def)

end
