(* ===== verification/Headings.thy ===== *)
theory Headings
  imports Prelude
begin

text \<open>
  The anchors of the documentation pages (\<open>lib/markdown.js\<close> of the web site). The functions here look
  at the Unicode classes of characters, so a text is its list of code points. Which code points are letters or
  numbers, and the conversion to lower case, are parameters; \<open>Marked\<close> hands over the headings of a
  document in order and the tokens of each.
\<close>

type_synonym utext = "int list"

text \<open>An ASCII text as code points.\<close>

definition u :: "string \<Rightarrow> utext" where
  "u s = map (\<lambda>c. int (of_char c)) s"

definition dash :: int where "dash = 45"

text \<open>\<open>\\s\<close>, which is also what \<open>trim\<close> removes.\<close>

definition is_space :: "int \<Rightarrow> bool" where
  "is_space c \<longleftrightarrow> 9 \<le> c \<and> c \<le> 13 \<or> 8192 \<le> c \<and> c \<le> 8202 \<or>
     c \<in> {32, 160, 5760, 8232, 8233, 8239, 8287, 12288, 65279}"

definition u_trim :: "utext \<Rightarrow> utext" where
  "u_trim s = rev (dropWhile is_space (rev (dropWhile is_space s)))"

text \<open>\<open>replace(/<[^>]*>/g, '')\<close>: a bracket that is never closed stays.\<close>

function strip_tags :: "utext \<Rightarrow> utext" where
  "strip_tags [] = []"
| "strip_tags (c # s) =
     (if c = 60 \<and> 62 \<in> set s then strip_tags (tl (dropWhile (\<lambda>x. x \<noteq> 62) s)) else c # strip_tags s)"
  by pat_completeness auto

termination
proof (relation "measure length")
  fix c s
  have "length (tl (dropWhile (\<lambda>x. x \<noteq> 62) s)) \<le> length s"
    using length_dropWhile_le [of "\<lambda>x. x \<noteq> 62" s] by (simp add: le_diff_conv)
  then show "(tl (dropWhile (\<lambda>x. x \<noteq> 62) s), c # s) \<in> measure length" by simp
qed simp_all

text \<open>Replacing every run of matching characters by one dash.\<close>

fun dash_runs :: "(int \<Rightarrow> bool) \<Rightarrow> utext \<Rightarrow> utext" where
  "dash_runs P [] = []"
| "dash_runs P (c # s) =
     (if \<not> P c then c # dash_runs P s
      else if s \<noteq> [] \<and> P (hd s) then dash_runs P s
      else dash # dash_runs P s)"

text \<open>\<open>replace(/^-|-$/g, '')\<close>\<close>

definition strip_dashes :: "utext \<Rightarrow> utext" where
  "strip_dashes s =
     (let s = (if s \<noteq> [] \<and> hd s = dash then tl s else s)
      in if s \<noteq> [] \<and> last s = dash then butlast s else s)"

definition kept_in_slug :: "(int \<Rightarrow> bool) \<Rightarrow> int \<Rightarrow> bool" where
  "kept_in_slug word c \<longleftrightarrow> word c \<or> is_space c \<or> c \<in> {45, 95, 47}"

definition slugify :: "(int \<Rightarrow> bool) \<Rightarrow> (utext \<Rightarrow> utext) \<Rightarrow> utext \<Rightarrow> utext" where
  "slugify word lower s =
     (let r = strip_dashes
                (dash_runs (\<lambda>c. c = dash)
                  (dash_runs (\<lambda>c. is_space c \<or> c = 95 \<or> c = 47)
                    (filter (kept_in_slug word) (lower (u_trim (strip_tags s))))))
      in if r = [] then u ''section'' else r)"

section \<open>Front matter and headings\<close>

fun index_of_text :: "utext \<Rightarrow> utext \<Rightarrow> nat option" where
  "index_of_text p [] = (if p = [] then Some 0 else None)"
| "index_of_text p (c # s) =
     (if take (length p) (c # s) = p then Some 0 else map_option Suc (index_of_text p s))"

definition stripFrontMatter :: "utext \<Rightarrow> utext" where
  "stripFrontMatter raw =
     (if take 3 raw \<noteq> u ''---'' then raw
      else (case index_of_text (10 # u ''---'') (drop 3 raw) of
              None \<Rightarrow> raw
            | Some i \<Rightarrow>
                (let r = drop (3 + i + 4) raw in
                 if take 2 r = [13, 10] then drop 2 r else if take 1 r = [10] then drop 1 r else r)))"

text \<open>An inline token: its tokens (\<open>None\<close> when it has no list of them), text and source.\<close>

datatype inline = Inline (sub_tokens: "inline list option") (tok_text: "utext option") (tok_raw: "utext option")

fun visit :: "inline \<Rightarrow> utext" where
  "visit (Inline (Some (t # ts)) txt raw) = concat (map visit (t # ts))"
| "visit (Inline (Some []) txt raw) = (case txt of Some s \<Rightarrow> s | None \<Rightarrow> (case raw of Some r \<Rightarrow> r | None \<Rightarrow> []))"
| "visit (Inline None txt raw) = (case txt of Some s \<Rightarrow> s | None \<Rightarrow> (case raw of Some r \<Rightarrow> r | None \<Rightarrow> []))"

definition headingText :: "inline list option \<Rightarrow> utext option \<Rightarrow> utext" where
  "headingText ts fallback =
     u_trim (strip_tags (case ts of
        Some (t # r) \<Rightarrow> concat (map visit (t # r))
      | _ \<Rightarrow> (case fallback of None \<Rightarrow> [] | Some s \<Rightarrow> s)))"

record heading =
  h_tokens :: "inline list option"
  h_depth :: nat
  h_text :: "utext option"

record toc_entry =
  toc_id :: utext
  toc_text :: utext
  toc_level :: nat

record toc_state =
  used_slugs :: "utext \<Rightarrow> nat option"
  toc :: "toc_entry list"

definition heading_step ::
  "(int \<Rightarrow> bool) \<Rightarrow> (utext \<Rightarrow> utext) \<Rightarrow> (inline list option \<Rightarrow> utext) \<Rightarrow> heading \<Rightarrow> toc_state \<Rightarrow> toc_state \<times> utext \<times> utext" where
  "heading_step word lower inner h s =
     (let plain = headingText (h_tokens h) (h_text h);
          slug = slugify word lower plain;
          n = (case used_slugs s slug of None \<Rightarrow> 0 | Some k \<Rightarrow> k);
          s1 = s\<lparr>used_slugs := (used_slugs s)(slug \<mapsto> n + 1)\<rparr>;
          id = (if 0 < n then slug @ [dash] @ u (show_nat n) else slug);
          s2 = (if 2 \<le> h_depth h \<and> h_depth h \<le> 3
                then s1\<lparr>toc := toc s1 @ [\<lparr>toc_id = id, toc_text = plain, toc_level = h_depth h\<rparr>]\<rparr> else s1);
          d = u (show_nat (h_depth h))
      in (s2, id, u ''<h'' @ d @ u '' id='' @ [34] @ id @ [34] @ u ''>'' @ inner (h_tokens h) @ u ''</h'' @ d @ u ''>'' @ [10]))"

text \<open>The headings in order: the state, the anchors and the markup of each.\<close>

fun headings_of ::
  "(int \<Rightarrow> bool) \<Rightarrow> (utext \<Rightarrow> utext) \<Rightarrow> (inline list option \<Rightarrow> utext) \<Rightarrow> heading list \<Rightarrow> toc_state \<Rightarrow>
   toc_state \<times> (utext \<times> utext) list" where
  "headings_of word lower inner [] s = (s, [])"
| "headings_of word lower inner (h # hs) s =
     (let (s1, r) = heading_step word lower inner h s; (s2, rs) = headings_of word lower inner hs s1 in (s2, r # rs))"

text \<open>
  \<open>parsed\<close> is what the parser does with a body: the headings it renders before it ends, and, unless it
  throws, how the markup of the headings becomes the page; \<open>fallback\<close> is its answer without the
  renderer.
\<close>

definition renderMarkdown ::
  "(int \<Rightarrow> bool) \<Rightarrow> (utext \<Rightarrow> utext) \<Rightarrow> (inline list option \<Rightarrow> utext) \<Rightarrow>
   (utext \<Rightarrow> heading list \<times> (utext list \<Rightarrow> utext) option) \<Rightarrow> (utext \<Rightarrow> utext) \<Rightarrow> utext option \<Rightarrow> utext \<times> toc_entry list" where
  "renderMarkdown word lower inner parsed fallback source =
     (let body = stripFrontMatter (case source of None \<Rightarrow> [] | Some s \<Rightarrow> s);
          (hs, page) = parsed body;
          (s, rs) = headings_of word lower inner hs \<lparr>used_slugs = Map.empty, toc = []\<rparr>
      in (case page of
            Some assemble \<Rightarrow> assemble (map snd rs)
          | None \<Rightarrow> fallback body, toc s))"

definition wrap_table :: "utext \<Rightarrow> utext" where
  "wrap_table inner = u ''<div class='' @ [34] @ u ''docs-table-wrap'' @ [34] @ u ''>'' @ inner @ u ''</div>'' @ [10]"

section \<open>Slugs are valid fragments\<close>

text \<open>The type of slugs: non-empty, letters, numbers and single dashes, none of them at an end.\<close>

fun single_dashes :: "utext \<Rightarrow> bool" where
  "single_dashes (a # b # s) \<longleftrightarrow> \<not> (a = dash \<and> b = dash) \<and> single_dashes (b # s)"
| "single_dashes s = True"

definition is_slug :: "(int \<Rightarrow> bool) \<Rightarrow> utext \<Rightarrow> bool" where
  "is_slug word s \<longleftrightarrow> s \<noteq> [] \<and> (\<forall>c\<in>set s. word c \<or> c = dash) \<and> hd s \<noteq> dash \<and> last s \<noteq> dash \<and> single_dashes s"

lemma set_dash_runs: "c \<in> set (dash_runs P s) \<Longrightarrow> c = dash \<or> c \<in> set s \<and> \<not> P c"
  by (induction P s rule: dash_runs.induct) (auto split: if_splits)

lemma hd_dash_runs: "s \<noteq> [] \<Longrightarrow> hd (dash_runs (\<lambda>c. c = dash) s) = hd s"
proof (induction s)
  case (Cons c s)
  then show ?case by (cases s) auto
qed simp

lemma single_dashes_Cons:
  "single_dashes (c # s) \<longleftrightarrow> single_dashes s \<and> \<not> (c = dash \<and> s \<noteq> [] \<and> hd s = dash)"
  by (cases s) auto

lemma single_dash_runs: "single_dashes (dash_runs (\<lambda>c. c = dash) s)"
proof (induction s)
  case (Cons c s)
  then show ?case
    using hd_dash_runs [of s] by (cases "s = []") (auto simp: single_dashes_Cons)
qed simp

lemma single_tl: "single_dashes s \<Longrightarrow> single_dashes (tl s)"
  by (cases s) (auto simp: single_dashes_Cons)

lemma single_butlast: "single_dashes s \<Longrightarrow> single_dashes (butlast s)"
  by (induction s rule: single_dashes.induct) (auto simp: single_dashes_Cons)

lemma hd_butlast: "butlast s \<noteq> [] \<Longrightarrow> hd (butlast s) = hd s"
  by (cases s) (auto split: if_splits)

lemma last_butlast: "single_dashes s \<Longrightarrow> s \<noteq> [] \<Longrightarrow> last s = dash \<Longrightarrow> butlast s \<noteq> [] \<Longrightarrow> last (butlast s) \<noteq> dash"
  by (induction s rule: single_dashes.induct) (auto split: if_splits)

lemma strip_dashes_slug:
  assumes "single_dashes s" and "strip_dashes s \<noteq> []"
  shows "hd (strip_dashes s) \<noteq> dash \<and> last (strip_dashes s) \<noteq> dash \<and> single_dashes (strip_dashes s)"
proof -
  define r where "r = (if s \<noteq> [] \<and> hd s = dash then tl s else s)"
  have r: "single_dashes r" "r \<noteq> [] \<Longrightarrow> hd r \<noteq> dash"
    using assms(1) by (cases s; auto simp: r_def single_dashes_Cons)+
  have "strip_dashes s = (if r \<noteq> [] \<and> last r = dash then butlast r else r)"
    by (simp add: strip_dashes_def r_def Let_def)
  with assms(2) r show ?thesis
    using last_butlast [of r] hd_butlast [of r] single_butlast [of r] by (auto split: if_splits)
qed

lemma set_strip_dashes: "set (strip_dashes s) \<subseteq> set s"
  by (auto simp: strip_dashes_def Let_def dest: in_set_butlastD list.set_sel(2) split: if_splits)

text \<open>
  the anchor of a heading is a valid fragment. For every heading text, the slug is not empty, consists of
  letters, numbers and dashes, never starts or ends with a dash and never has two in a row; it has no
  white space, markup, slash or quote that could leave the attribute or change the link.
\<close>

theorem slug_well_formed:
  assumes "\<forall>c\<in>set (u ''section''). word c"
  shows "is_slug word (slugify word lower s)"
proof -
  define a where "a = dash_runs (\<lambda>c. is_space c \<or> c = 95 \<or> c = 47) (filter (kept_in_slug word) (lower (u_trim (strip_tags s))))"
  define r where "r = strip_dashes (dash_runs (\<lambda>c. c = dash) a)"
  have "word c \<or> c = dash" if "c \<in> set a" for c
    using set_dash_runs [OF that [unfolded a_def]] by (auto simp: kept_in_slug_def dash_def)
  then have "word c \<or> c = dash" if "c \<in> set r" for c
    using that set_strip_dashes set_dash_runs unfolding r_def by blast
  then have "is_slug word r" if "r \<noteq> []"
    using that strip_dashes_slug [OF single_dash_runs, of a] by (simp add: is_slug_def r_def)
  moreover have "single_dashes (u ''section'')" "hd (u ''section'') \<noteq> dash" "last (u ''section'') \<noteq> dash" "u ''section'' \<noteq> []"
    by code_simp+
  ultimately show ?thesis
    using assms by (auto simp: slugify_def Let_def a_def [symmetric] r_def [symmetric] is_slug_def)
qed

definition ascii_word :: "int \<Rightarrow> bool" where
  "ascii_word c \<longleftrightarrow> 97 \<le> c \<and> c \<le> 122 \<or> 65 \<le> c \<and> c \<le> 90 \<or> 48 \<le> c \<and> c \<le> 57"

definition ascii_lower :: "utext \<Rightarrow> utext" where
  "ascii_lower s = map (\<lambda>c. if 65 \<le> c \<and> c \<le> 90 then c + 32 else c) s"

theorem slug_well_formed_witness:
  "is_slug ascii_word (slugify ascii_word ascii_lower (u '' - The <b>new</b> API / v2 - '')) \<and>
   slugify ascii_word ascii_lower (u '' - The <b>new</b> API / v2 - '') = u ''the-new-api-v2''"
proof -
  have "\<forall>c\<in>set (u ''section''). ascii_word c" by code_simp
  moreover have "slugify ascii_word ascii_lower (u '' - The <b>new</b> API / v2 - '') = u ''the-new-api-v2''" by code_simp
  ultimately show ?thesis by (intro conjI slug_well_formed)
qed

section \<open>Anchors of a page\<close>

text \<open>What the map of used slugs computes: how often the slug of a heading occurred before it.\<close>

definition slug_of :: "(int \<Rightarrow> bool) \<Rightarrow> (utext \<Rightarrow> utext) \<Rightarrow> heading \<Rightarrow> utext" where
  "slug_of word lower h = slugify word lower (headingText (h_tokens h) (h_text h))"

definition anchor :: "utext \<Rightarrow> nat \<Rightarrow> utext" where
  "anchor slug n = (if 0 < n then slug @ [dash] @ u (show_nat n) else slug)"

fun anchors :: "utext list \<Rightarrow> utext list \<Rightarrow> utext list" where
  "anchors earlier [] = []"
| "anchors earlier (s # ss) = anchor s (count_list earlier s) # anchors (s # earlier) ss"

definition counts :: "utext list \<Rightarrow> toc_state \<Rightarrow> bool" where
  "counts earlier s \<longleftrightarrow> (\<forall>x. (case used_slugs s x of None \<Rightarrow> 0 | Some k \<Rightarrow> k) = count_list earlier x)"

lemma heading_step_anchor:
  assumes "counts earlier s"
  shows "fst (snd (heading_step word lower inner h s)) = anchor (slug_of word lower h) (count_list earlier (slug_of word lower h))"
    and "counts (slug_of word lower h # earlier) (fst (heading_step word lower inner h s))"
    and "toc (fst (heading_step word lower inner h s)) = toc s @
      (if h_depth h \<in> {2, 3}
       then [\<lparr>toc_id = fst (snd (heading_step word lower inner h s)), toc_text = headingText (h_tokens h) (h_text h),
              toc_level = h_depth h\<rparr>] else [])"
  using assms by (auto simp: heading_step_def Let_def counts_def anchor_def slug_of_def)

lemma headings_of_anchors:
  "counts earlier s \<Longrightarrow> map fst (snd (headings_of word lower inner hs s)) = anchors earlier (map (slug_of word lower) hs) \<and>
   map toc_id (toc (fst (headings_of word lower inner hs s))) = map toc_id (toc s) @
     map fst (filter (\<lambda>(i, h). h_depth h \<in> {2, 3}) (zip (anchors earlier (map (slug_of word lower) hs)) hs))"
proof (induction hs arbitrary: earlier s)
  case (Cons h hs)
  obtain s1 i m where r: "heading_step word lower inner h s = (s1, i, m)" by (metis prod_cases3)
  note step = heading_step_anchor [OF Cons.prems, where word = word and lower = lower and inner = inner and h = h, unfolded r fst_conv snd_conv]
  show ?case
    using Cons.IH [OF step(2)] by (auto simp: r step(1,3) case_prod_beta)
qed simp

text \<open>Slugs none of which is another one followed by a number.\<close>

definition unnumbered :: "utext set \<Rightarrow> bool" where
  "unnumbered S \<longleftrightarrow> (\<forall>a\<in>S. \<forall>b\<in>S. \<forall>n. a \<noteq> b @ [dash] @ u (show_nat n))"

lemma u_inj: "u a = u b \<longleftrightarrow> a = b"
  by (auto simp: u_def inj_map_eq_map inj_on_def)

lemma show_nat_no_dash: "dash \<notin> set (u (show_nat n))"
  using show_nat_digits [of n] by (auto simp: u_def dash_def is_digit_def list_all_iff)

lemma anchor_inj:
  assumes "anchor a m = anchor b n" and "unnumbered S" and "a \<in> S" and "b \<in> S"
  shows "a = b \<and> m = n"
proof -
  have split: "x = y \<and> p = q" if "x @ dash # p = y @ dash # q" "dash \<notin> set p" "dash \<notin> set q" for x y p q
    using that by (auto simp: append_eq_append_conv2 Cons_eq_append_conv append_eq_Cons_conv)
  have free: "c \<noteq> d @ dash # u (show_nat k)" if "c \<in> S" "d \<in> S" for c d k
    using assms(2) that by (auto simp: unnumbered_def)
  show ?thesis
    using assms(1) free [OF assms(3,4)] free [OF assms(4,3)] split [OF _ show_nat_no_dash show_nat_no_dash, of a m b n]
    by (auto simp: anchor_def u_inj show_nat_inj split: if_splits dest: sym)
qed

lemma in_anchors: "x \<in> set (anchors earlier ss) \<Longrightarrow> \<exists>s\<in>set ss. \<exists>n\<ge>count_list earlier s. x = anchor s n"
proof (induction ss arbitrary: earlier)
  case (Cons s ss)
  then consider "x = anchor s (count_list earlier s)" | "x \<in> set (anchors (s # earlier) ss)" by auto
  then show ?case
  proof cases
    case 2
    from Cons.IH [OF this] obtain t n where "t \<in> set ss" "n \<ge> count_list (s # earlier) t" "x = anchor t n" by blast
    then show ?thesis by (auto split: if_splits intro: Suc_leD)
  qed auto
qed simp

lemma distinct_anchors: "unnumbered S \<Longrightarrow> set ss \<subseteq> S \<Longrightarrow> distinct (anchors earlier ss)"
proof (induction ss arbitrary: earlier)
  case (Cons s ss)
  have "anchor s (count_list earlier s) \<notin> set (anchors (s # earlier) ss)"
  proof
    assume "anchor s (count_list earlier s) \<in> set (anchors (s # earlier) ss)"
    from in_anchors [OF this] obtain t n where
      t: "t \<in> set ss" "n \<ge> count_list (s # earlier) t" "anchor s (count_list earlier s) = anchor t n" by blast
    with Cons.prems anchor_inj [OF t(3) Cons.prems(1)] have "s = t" "n = count_list earlier s" by auto
    with t(2) show False by simp
  qed
  with Cons show ?case by auto
qed simp

text \<open>
  the table of contents leads to the headings. The entries are the second- and third-level headings in
  their order, each with the anchor its heading has on the page, whatever the parser answers; and when no slug of
  the page is another slug followed by a number, no two headings have the same anchor.
\<close>

theorem toc_anchors_match:
  assumes "headings_of word lower inner hs \<lparr>used_slugs = Map.empty, toc = []\<rparr> = (s, rs)"
    and "unnumbered (set (map (slug_of word lower) hs))"
  shows "map toc_id (toc s) = map fst (filter (\<lambda>(i, h). h_depth h \<in> {2, 3}) (zip (map fst rs) hs)) \<and> distinct (map fst rs)"
proof -
  have "counts [] \<lparr>used_slugs = Map.empty, toc = []\<rparr>" by (simp add: counts_def)
  from headings_of_anchors [OF this, of word lower inner hs]
  have "map fst rs = anchors [] (map (slug_of word lower) hs)"
    and "map toc_id (toc s) = map fst (filter (\<lambda>(i, h). h_depth h \<in> {2, 3}) (zip (anchors [] (map (slug_of word lower) hs)) hs))"
    by (simp_all add: assms(1))
  with distinct_anchors [OF assms(2) subset_refl] show ?thesis by simp
qed

definition sample_heading :: "string \<Rightarrow> nat \<Rightarrow> heading" where
  "sample_heading s d = \<lparr>h_tokens = None, h_depth = d, h_text = Some (u s)\<rparr>"

definition sample_page :: "string list \<Rightarrow> toc_state \<times> (utext \<times> utext) list" where
  "sample_page ss = headings_of ascii_word ascii_lower (\<lambda>_. []) (map (\<lambda>s. sample_heading s 2) ss) \<lparr>used_slugs = Map.empty, toc = []\<rparr>"

theorem toc_anchors_match_witness:
  "map toc_id (toc (fst (sample_page [''Install'', ''Use'', ''Install'']))) = [u ''install'', u ''use'', u ''install-1''] \<and>
   distinct (map fst (snd (sample_page [''Install'', ''Use'', ''Install''])))"
proof -
  have slugs: "map (slug_of ascii_word ascii_lower) (map (\<lambda>s. sample_heading s 2) [''Install'', ''Use'', ''Install'']) =
    [u ''install'', u ''use'', u ''install'']" by code_simp
  have "unnumbered (set (map (slug_of ascii_word ascii_lower) (map (\<lambda>s. sample_heading s 2) [''Install'', ''Use'', ''Install''])))"
  proof -
    have "dash \<notin> set (u ''install'')" "dash \<notin> set (u ''use'')" by code_simp+
    then show ?thesis unfolding slugs by (auto simp: unnumbered_def)
  qed
  from toc_anchors_match [OF _ this, of "\<lambda>_. []" "fst (sample_page [''Install'', ''Use'', ''Install''])"
      "snd (sample_page [''Install'', ''Use'', ''Install''])"]
  have d: "distinct (map fst (snd (sample_page [''Install'', ''Use'', ''Install''])))"
    by (simp only: sample_page_def prod.collapse simp_thms)
  have "map toc_id (toc (fst (sample_page [''Install'', ''Use'', ''Install'']))) = [u ''install'', u ''use'', u ''install-1'']"
    by code_simp
  with d show ?thesis by simp
qed

text \<open>
  The condition is needed: a heading that spells out a number, after two equal ones, gets an anchor that is taken.
\<close>

theorem numbered_heading_takes_anchor:
  "map fst (snd (sample_page [''Foo'', ''Foo'', ''Foo 1''])) = [u ''foo'', u ''foo-1'', u ''foo-1'']"
  by code_simp

end
