(* ===== verification/Modals.thy ===== *)
theory Modals
  imports Machine "HOL-Library.Multiset"
begin

text \<open>
  Modal windows: \<open>modal.js\<close> of the component library and the life of the dialogs of
  \<open>components/dialog.js\<close> (showing, dismissing, closing and answering; their content is not modelled). The
  elements of the page that can be modals are kept in document order. Closing takes until a timer fires.
\<close>

section \<open>The page\<close>

record element =
  el_id :: nat
  el_name :: string
  modal_class :: bool
  display :: string
  is_closing :: bool
  inert :: bool
  flag_closing :: bool
  promise :: "nat option"
  esc_handler :: "nat option"
  closable :: bool
  destroyOnClose :: bool

text \<open>What runs at the end of a closing animation: the callback of a plain modal, or that of a dialog.\<close>

datatype close_callback = Plain | DialogClosed string

text \<open>The listeners for the Escape key: of a bound modal, or handler number \<open>n\<close> of a dialog.\<close>

datatype esc_listener = Bound nat | OfDialog nat nat

record page =
  els :: "element list"
  page_roots :: "bool list"
  modalIds :: "string list"
  timers :: "(nat \<times> close_callback) list"
  closed_log :: "nat list"
  listeners :: "esc_listener list"
  answers :: "(nat \<times> string) list"
  next_id :: nat
  next_promise :: nat
  next_handler :: nat

definition isModalOpen :: "element \<Rightarrow> bool" where
  "isModalOpen e \<longleftrightarrow> \<not> is_closing e \<and> display e \<noteq> ''none'' \<and> display e \<noteq> []"

text \<open>The last open modal of the document.\<close>

definition topOpenModal :: "element list \<Rightarrow> nat option" where
  "topOpenModal es = map_option el_id (find (\<lambda>e. modal_class e \<and> isModalOpen e) (rev es))"

text \<open>\<open>document.getElementById\<close>\<close>

definition by_name :: "string \<Rightarrow> element list \<Rightarrow> element option" where
  "by_name n es = find (\<lambda>e. el_name e = n) es"

definition any_open :: "string list \<Rightarrow> element list \<Rightarrow> bool" where
  "any_open ids es \<longleftrightarrow> topOpenModal es \<noteq> None \<or>
     list_ex (\<lambda>n. case by_name n es of None \<Rightarrow> False | Some e \<Rightarrow> isModalOpen e) ids"

definition set_inert :: "nat option \<Rightarrow> element \<Rightarrow> element" where
  "set_inert topmost e = (if modal_class e then e\<lparr>inert := isModalOpen e \<and> topmost \<noteq> Some (el_id e)\<rparr> else e)"

definition updateModalInertState :: "page \<Rightarrow> page" where
  "updateModalInertState s =
     s\<lparr>page_roots := map (\<lambda>_. any_open (modalIds s) (els s)) (page_roots s),
       els := map (set_inert (topOpenModal (els s))) (els s)\<rparr>"

definition configureModalInert :: "string list option \<Rightarrow> page \<Rightarrow> page" where
  "configureModalInert ids s = (case ids of None \<Rightarrow> s | Some l \<Rightarrow> s\<lparr>modalIds := l\<rparr>)"

definition change :: "nat \<Rightarrow> (element \<Rightarrow> element) \<Rightarrow> page \<Rightarrow> page" where
  "change i f s = s\<lparr>els := map (\<lambda>e. if el_id e = i then f e else e) (els s)\<rparr>"

definition element_of :: "nat \<Rightarrow> page \<Rightarrow> element option" where
  "element_of i s = find (\<lambda>e. el_id e = i) (els s)"

section \<open>Opening and closing\<close>

definition openModalWithAnim :: "nat \<Rightarrow> page \<Rightarrow> page" where
  "openModalWithAnim i s =
     (case element_of i s of
        None \<Rightarrow> s
      | Some e \<Rightarrow>
          if is_closing e then s else updateModalInertState (change i (\<lambda>e. e\<lparr>display := ''flex''\<rparr>) s))"

definition closeModalWithAnim :: "nat \<Rightarrow> close_callback \<Rightarrow> page \<Rightarrow> page" where
  "closeModalWithAnim i cb s =
     (case element_of i s of
        None \<Rightarrow> s
      | Some e \<Rightarrow>
          if is_closing e then s
          else (updateModalInertState (change i (\<lambda>e. e\<lparr>is_closing := True\<rparr>) s))\<lparr>timers := timers s @ [(i, cb)]\<rparr>)"

text \<open>Settling a promise: only the first answer counts.\<close>

definition resolve :: "nat option \<Rightarrow> string \<Rightarrow> page \<Rightarrow> page" where
  "resolve p r s =
     (case p of
        None \<Rightarrow> s
      | Some n \<Rightarrow> if n \<in> fst ` set (answers s) then s else s\<lparr>answers := answers s @ [(n, r)]\<rparr>)"

text \<open>
  The timer of a closing animation. The callback of a dialog takes the dialog out of the document, unless it is to be
  kept, and answers the promise that the dialog has at this time.
\<close>

definition animation_over :: "nat \<Rightarrow> close_callback \<Rightarrow> page \<Rightarrow> page" where
  "animation_over i cb s =
     (let s = updateModalInertState (change i (\<lambda>e. e\<lparr>display := ''none'', is_closing := False\<rparr>) s) in
      case cb of
        Plain \<Rightarrow> s\<lparr>closed_log := closed_log s @ [i]\<rparr>
      | DialogClosed r \<Rightarrow>
          (case element_of i s of
             None \<Rightarrow> s
           | Some e \<Rightarrow>
               resolve (promise e) r
                 (if destroyOnClose e then s\<lparr>els := filter (\<lambda>x. el_id x \<noteq> i) (els s)\<rparr>
                  else change i (\<lambda>e. e\<lparr>flag_closing := False\<rparr>) s)))"

section \<open>Bound modals\<close>

text \<open>\<open>bindModalChrome\<close>: the listeners it installs open and close the modal.\<close>

definition bindModalChrome :: "nat \<Rightarrow> bool \<Rightarrow> page \<Rightarrow> page" where
  "bindModalChrome i escape s =
     (if element_of i s = None \<or> \<not> escape then s else s\<lparr>listeners := listeners s @ [Bound i]\<rparr>)"

definition chrome_open :: "nat \<Rightarrow> page \<Rightarrow> page" where
  "chrome_open i s = openModalWithAnim i s"

definition chrome_close :: "nat \<Rightarrow> page \<Rightarrow> page" where
  "chrome_close i s =
     (case element_of i s of
        None \<Rightarrow> s
      | Some e \<Rightarrow> if \<not> isModalOpen e \<and> display e = ''none'' then s else closeModalWithAnim i Plain s)"

section \<open>Dialogs\<close>

record dialog_options =
  o_name :: "string option"
  o_closable :: bool
  o_destroy :: bool

text \<open>\<open>buildUI\<close>, as far as the state goes: the attribute of a closing animation is not reset.\<close>

definition buildUI :: "dialog_options \<Rightarrow> nat \<Rightarrow> element \<Rightarrow> element" where
  "buildUI opts p e =
     e\<lparr>modal_class := True, display := ''none'', flag_closing := False, promise := Some p, closable := o_closable opts,
       destroyOnClose := o_destroy opts\<rparr>"

definition dialog_open :: "nat \<Rightarrow> page \<Rightarrow> page" where
  "dialog_open i s =
     (let s = updateModalInertState (change i (\<lambda>e. e\<lparr>display := ''flex''\<rparr>) s) in
      (change i (\<lambda>e. e\<lparr>esc_handler := Some (next_handler s)\<rparr>) s)
        \<lparr>listeners := listeners s @ [OfDialog i (next_handler s)], next_handler := Suc (next_handler s)\<rparr>)"

text \<open>A new dialog element at the end of the document.\<close>

definition new_dialog :: "dialog_options \<Rightarrow> page \<Rightarrow> page" where
  "new_dialog opts s =
     s\<lparr>els := els s @ [\<lparr>el_id = next_id s, el_name = (case o_name opts of None \<Rightarrow> [] | Some n \<Rightarrow> n), modal_class = False,
         display = [], is_closing = False, inert = False, flag_closing = False, promise = None, esc_handler = None,
         closable = True, destroyOnClose = True\<rparr>], next_id := Suc (next_id s)\<rparr>"

definition reused :: "dialog_options \<Rightarrow> page \<Rightarrow> element option" where
  "reused opts s =
     (case o_name opts of
        None \<Rightarrow> None
      | Some n \<Rightarrow> if n = [] then None
                  else (case by_name n (els s) of None \<Rightarrow> None | Some e \<Rightarrow> if promise e = None then None else Some e))"

definition dialog_show :: "dialog_options \<Rightarrow> page \<Rightarrow> page" where
  "dialog_show opts s =
     (let (i, s) = (case reused opts s of Some e \<Rightarrow> (el_id e, s) | None \<Rightarrow> (next_id s, new_dialog opts s));
          p = next_promise s
      in dialog_open i (change i (buildUI opts p) (s\<lparr>next_promise := Suc p\<rparr>)))"

definition dialog_close :: "nat \<Rightarrow> string \<Rightarrow> page \<Rightarrow> page" where
  "dialog_close i r s =
     (case element_of i s of
        None \<Rightarrow> s
      | Some e \<Rightarrow>
          if flag_closing e \<or> is_closing e then s
          else closeModalWithAnim i (DialogClosed r)
                 (change i (\<lambda>e. e\<lparr>flag_closing := True\<rparr>)
                   (case esc_handler e of None \<Rightarrow> s
                    | Some h \<Rightarrow> s\<lparr>listeners := removeAll (OfDialog i h) (listeners s)\<rparr>)))"

definition backdrop_click :: "nat \<Rightarrow> page \<Rightarrow> page" where
  "backdrop_click i s =
     (case element_of i s of None \<Rightarrow> s | Some e \<Rightarrow> if closable e then dialog_close i ''false'' s else s)"

text \<open>
  The Escape key: the listeners run in the order in which they were added; that of the topmost dialog stops the others.
\<close>

fun escape_listener :: "esc_listener \<Rightarrow> bool \<times> page \<Rightarrow> bool \<times> page" where
  "escape_listener (Bound i) (stopped, s) =
     (if stopped then (stopped, s)
      else case element_of i s of
             None \<Rightarrow> (False, s)
           | Some e \<Rightarrow> (False, if isModalOpen e \<and> display e = ''flex'' then chrome_close i s else s))"
| "escape_listener (OfDialog i h) (stopped, s) =
     (if stopped \<or> topOpenModal (els s) \<noteq> Some i then (stopped, s) else (True, backdrop_click i s))"

definition escape_key :: "page \<Rightarrow> page" where
  "escape_key s = snd (fold escape_listener (listeners s) (False, s))"

text \<open>
  The events. Only dialogs have a promise; they are closed by their own operation.
\<close>

datatype page_event =
    Bind nat bool
  | OpenModal nat
  | CloseModal nat
  | ShowDialog dialog_options
  | CloseDialog nat string
  | Backdrop nat
  | EscapeKey
  | AnimationOver nat

definition is_plain :: "nat \<Rightarrow> page \<Rightarrow> bool" where
  "is_plain i s \<longleftrightarrow> (case element_of i s of None \<Rightarrow> False | Some e \<Rightarrow> promise e = None)"

fun page_step :: "page_event \<Rightarrow> page \<Rightarrow> page option" where
  "page_step (Bind i escape) s = (if is_plain i s then Some (bindModalChrome i escape s) else None)"
| "page_step (OpenModal i) s = (if is_plain i s then Some (chrome_open i s) else None)"
| "page_step (CloseModal i) s = (if is_plain i s then Some (chrome_close i s) else None)"
| "page_step (ShowDialog opts) s = Some (dialog_show opts s)"
| "page_step (CloseDialog i r) s = Some (dialog_close i r s)"
| "page_step (Backdrop i) s = Some (backdrop_click i s)"
| "page_step EscapeKey s = Some (escape_key s)"
| "page_step (AnimationOver k) s =
     (if k < length (timers s)
      then Some (animation_over (fst (timers s ! k)) (snd (timers s ! k)) (s\<lparr>timers := take k (timers s) @ drop (Suc k) (timers s)\<rparr>))
      else None)"

text \<open>The page at the start: hidden modals in document order, of which some are configured by name.\<close>

definition page_start :: "string list \<Rightarrow> nat \<Rightarrow> string list option \<Rightarrow> page" where
  "page_start names roots ids =
     configureModalInert ids
       \<lparr>els = map (\<lambda>(i, n). \<lparr>el_id = i, el_name = n, modal_class = True, display = ''none'', is_closing = False, inert = False,
            flag_closing = False, promise = None, esc_handler = None, closable = True, destroyOnClose = False\<rparr>)
            (zip [0..<length names] names),
        page_roots = replicate roots False, modalIds = [], timers = [], closed_log = [], listeners = [], answers = [],
        next_id = length names, next_promise = 0, next_handler = 0\<rparr>"

section \<open>The inert state follows the open modals\<close>

definition inert_ok :: "bool list \<Rightarrow> element list \<Rightarrow> bool" where
  "inert_ok roots es \<longleftrightarrow>
     set roots \<subseteq> {\<exists>e\<in>set es. isModalOpen e} \<and>
     (\<forall>e\<in>set es. inert e \<longleftrightarrow> isModalOpen e \<and> topOpenModal es \<noteq> Some (el_id e))"

text \<open>
  The elements are modals with identities of their own; the elements that are being closed are those with a timer.
\<close>

definition struct_ok :: "nat \<Rightarrow> nat list \<Rightarrow> element list \<Rightarrow> bool" where
  "struct_ok n ts es \<longleftrightarrow>
     distinct (map el_id es) \<and> distinct ts \<and> set ts \<subseteq> el_id ` set es \<and>
     (\<forall>e\<in>set es. el_id e < n \<and> modal_class e \<and> (is_closing e \<longleftrightarrow> el_id e \<in> set ts))"

definition page_inv :: "page \<Rightarrow> bool" where
  "page_inv s \<longleftrightarrow> struct_ok (next_id s) (map fst (timers s)) (els s) \<and> inert_ok (page_roots s) (els s)"

lemma top_None: "topOpenModal es = None \<longleftrightarrow> \<not> (\<exists>e\<in>set es. modal_class e \<and> isModalOpen e)"
  by (auto simp: topOpenModal_def find_None_iff)

lemma any_open_iff: "\<forall>e\<in>set es. modal_class e \<Longrightarrow> any_open ids es \<longleftrightarrow> (\<exists>e\<in>set es. isModalOpen e)"
proof -
  assume m: "\<forall>e\<in>set es. modal_class e"
  have "e \<in> set es" if "by_name n es = Some e" for n e
    using that by (auto simp: by_name_def find_Some_iff)
  then show ?thesis
    using m top_None [of es] by (auto simp: any_open_def list_ex_iff split: option.splits)
qed

lemma set_inert_simps [simp]:
  "el_id (set_inert i e) = el_id e" "modal_class (set_inert i e) = modal_class e" "isModalOpen (set_inert i e) = isModalOpen e"
  "is_closing (set_inert i e) = is_closing e" "flag_closing (set_inert i e) = flag_closing e"
  "promise (set_inert i e) = promise e" "destroyOnClose (set_inert i e) = destroyOnClose e"
  "el_name (set_inert i e) = el_name e" "display (set_inert i e) = display e"
  by (simp_all add: set_inert_def isModalOpen_def)

lemma find_mem: "find P xs = Some x \<Longrightarrow> x \<in> set xs \<and> P x"
  by (induction xs) (auto split: if_splits)

lemma find_map: "find P (map f xs) = map_option f (find (P \<circ> f) xs)"
  by (induction xs) auto

lemma top_map:
  assumes "\<And>e. e \<in> set es \<Longrightarrow> el_id (f e) = el_id e" and "\<And>e. e \<in> set es \<Longrightarrow> modal_class (f e) = modal_class e"
    and "\<And>e. e \<in> set es \<Longrightarrow> isModalOpen (f e) = isModalOpen e"
  shows "topOpenModal (map f es) = topOpenModal es"
proof -
  have "find (\<lambda>e. modal_class (f e) \<and> isModalOpen (f e)) (rev es) = find (\<lambda>e. modal_class e \<and> isModalOpen e) (rev es)"
    using assms by (intro find_cong) auto
  moreover have "el_id (f e) = el_id e" if "find (\<lambda>e. modal_class e \<and> isModalOpen e) (rev es) = Some e" for e
  proof -
    from that have "e \<in> set es" by (auto dest: find_mem)
    with assms(1) show ?thesis .
  qed
  ultimately show ?thesis
    by (auto simp: topOpenModal_def rev_map find_map comp_def option.map_comp split: option.splits intro: option.map_cong)
qed

lemma update_simps [simp]:
  "timers (updateModalInertState s) = timers s" "next_id (updateModalInertState s) = next_id s"
  "listeners (updateModalInertState s) = listeners s" "answers (updateModalInertState s) = answers s"
  "next_promise (updateModalInertState s) = next_promise s" "next_handler (updateModalInertState s) = next_handler s"
  "closed_log (updateModalInertState s) = closed_log s"
  by (simp_all add: updateModalInertState_def)

lemma page_change_simps [simp]:
  "timers (change i f s) = timers s" "next_id (change i f s) = next_id s" "page_roots (change i f s) = page_roots s"
  "listeners (change i f s) = listeners s" "answers (change i f s) = answers s"
  "next_promise (change i f s) = next_promise s" "next_handler (change i f s) = next_handler s"
  by (simp_all add: change_def)

text \<open>After an update, the inert state is right.\<close>

lemma struct_map:
  assumes "struct_ok n ts es"
    and "\<And>e. e \<in> set es \<Longrightarrow> el_id (f e) = el_id e \<and> modal_class (f e) \<and> (is_closing (f e) \<longleftrightarrow> el_id e \<in> set us)"
    and "distinct us" and "set us \<subseteq> el_id ` set es"
  shows "struct_ok n us (map f es)"
proof -
  have "map el_id (map f es) = map el_id es" using assms(2) by simp
  then have "distinct (map el_id (map f es))" "el_id ` set (map f es) = el_id ` set es"
    using assms(1) by (simp_all only: struct_ok_def flip: set_map)
  with assms show ?thesis by (auto simp: struct_ok_def)
qed

lemma struct_update: "struct_ok n ts (els s) \<Longrightarrow> struct_ok n ts (els (updateModalInertState s))"
  by (simp add: updateModalInertState_def, rule struct_map [of n ts]) (auto simp: struct_ok_def)

lemma inert_update: "struct_ok n ts (els s) \<Longrightarrow> inert_ok (page_roots (updateModalInertState s)) (els (updateModalInertState s))"
proof -
  assume a: "struct_ok n ts (els s)"
  then have m: "\<forall>e\<in>set (els s). modal_class e" by (simp add: struct_ok_def)
  have t: "topOpenModal (map (set_inert (topOpenModal (els s))) (els s)) = topOpenModal (els s)"
    by (rule top_map) simp_all
  show ?thesis
    using m t by (auto simp: inert_ok_def updateModalInertState_def any_open_iff) (auto simp: set_inert_def isModalOpen_def)
qed

lemma update_inv: "struct_ok (next_id s) (map fst (timers s)) (els s) \<Longrightarrow> page_inv (updateModalInertState s)"
  by (simp add: page_inv_def struct_update inert_update)

text \<open>Changes the inert state does not depend on.\<close>

lemma inert_ok_map:
  assumes "inert_ok roots es"
    and "\<And>e. e \<in> set es \<Longrightarrow> el_id (f e) = el_id e \<and> modal_class (f e) = modal_class e \<and> isModalOpen (f e) = isModalOpen e \<and> inert (f e) = inert e"
  shows "inert_ok roots (map f es)"
proof -
  have "topOpenModal (map f es) = topOpenModal es" using assms(2) by (intro top_map) auto
  moreover have "(\<exists>e\<in>set (map f es). isModalOpen e) \<longleftrightarrow> (\<exists>e\<in>set es. isModalOpen e)" using assms(2) by simp
  ultimately show ?thesis using assms(1) assms(2) unfolding inert_ok_def by simp
qed

lemma find_filter: "(\<And>x. x \<in> set xs \<Longrightarrow> P x \<Longrightarrow> Q x) \<Longrightarrow> find P (filter Q xs) = find P xs"
  by (induction xs) auto

lemma inert_ok_filter:
  assumes "inert_ok roots es" and "\<And>e. e \<in> set es \<Longrightarrow> \<not> Q e \<Longrightarrow> \<not> isModalOpen e"
  shows "inert_ok roots (filter Q es)"
proof -
  have "find (\<lambda>e. modal_class e \<and> isModalOpen e) (filter Q (rev es)) = find (\<lambda>e. modal_class e \<and> isModalOpen e) (rev es)"
    by (rule find_filter) (use assms(2) in auto)
  then have "topOpenModal (filter Q es) = topOpenModal es"
    by (simp add: topOpenModal_def rev_filter)
  moreover have "(\<exists>e\<in>set (filter Q es). isModalOpen e) \<longleftrightarrow> (\<exists>e\<in>set es. isModalOpen e)" using assms(2) by auto
  ultimately show ?thesis using assms(1) unfolding inert_ok_def by simp
qed

section \<open>Every operation\<close>

lemma element_of_mem: "element_of i s = Some e \<Longrightarrow> e \<in> set (els s) \<and> el_id e = i"
  by (auto simp: element_of_def dest: find_mem)

lemma struct_change:
  assumes "struct_ok n ts (els s)"
    and "\<And>e. modal_class (f e) = modal_class e" "\<And>e. el_id (f e) = el_id e"
    and "\<And>e. e \<in> set (els s) \<Longrightarrow> el_id e = i \<Longrightarrow> is_closing (f e) \<longleftrightarrow> is_closing e"
  shows "struct_ok n ts (els (change i f s))"
  by (simp add: change_def, rule struct_map [OF assms(1)]) (use assms in \<open>auto simp: struct_ok_def\<close>)

lemma inert_change:
  assumes "inert_ok (page_roots s) (els s)"
    and "\<And>e. el_id (f e) = el_id e" "\<And>e. modal_class (f e) = modal_class e" "\<And>e. isModalOpen (f e) = isModalOpen e"
      "\<And>e. inert (f e) = inert e"
  shows "inert_ok (page_roots s) (els (change i f s))"
  by (simp add: change_def, rule inert_ok_map [OF assms(1)]) (simp add: assms)

lemma open_inv:
  assumes "page_inv s"
  shows "page_inv (openModalWithAnim i s)"
proof (cases "element_of i s")
  case (Some e)
  have "struct_ok (next_id s) (map fst (timers s)) (els (change i (\<lambda>e. e\<lparr>display := ''flex''\<rparr>) s))"
    by (rule struct_change) (use assms in \<open>auto simp: page_inv_def struct_ok_def\<close>)
  then have "page_inv (updateModalInertState (change i (\<lambda>e. e\<lparr>display := ''flex''\<rparr>) s))"
    by (intro update_inv) simp
  with assms Some show ?thesis by (simp add: openModalWithAnim_def)
qed (use assms in \<open>simp add: openModalWithAnim_def\<close>)

text \<open>Starting the closing animation, also when the flag of the dialog is set before.\<close>

lemma page_inv_timers:
  "page_inv (s\<lparr>timers := ts\<rparr>) \<longleftrightarrow> struct_ok (next_id s) (map fst ts) (els s) \<and> inert_ok (page_roots s) (els s)"
  by (simp add: page_inv_def)

lemma close_inv:
  assumes "struct_ok (next_id s) (map fst (timers s)) (els s)" and "inert_ok (page_roots s) (els s)"
  shows "page_inv (closeModalWithAnim i cb s)"
proof (cases "element_of i s")
  case (Some e)
  note e = element_of_mem [OF Some]
  show ?thesis
  proof (cases "is_closing e")
    case False
    with e assms(1) have i: "i \<notin> set (map fst (timers s))" by (auto simp: struct_ok_def)
    have unique: "x = e" if "x \<in> set (els s)" "el_id x = i" for x
      using that e assms(1) by (auto simp: struct_ok_def distinct_map inj_on_def)
    have "struct_ok (next_id s) (map fst (timers s @ [(i, cb)])) (els (change i (\<lambda>e. e\<lparr>is_closing := True\<rparr>) s))"
      unfolding change_def page.simps
      by (simp, rule struct_map [OF assms(1)]) (use assms(1) i e unique in \<open>auto simp: struct_ok_def\<close>)
    with Some False inert_update [OF this] struct_update [OF this] show ?thesis
      by (simp add: closeModalWithAnim_def page_inv_timers)
  qed (use assms Some in \<open>simp add: closeModalWithAnim_def page_inv_def\<close>)
qed (use assms in \<open>simp add: closeModalWithAnim_def page_inv_def\<close>)

lemma resolve_simps [simp]:
  "els (resolve p r s) = els s" "timers (resolve p r s) = timers s" "next_id (resolve p r s) = next_id s"
  "page_roots (resolve p r s) = page_roots s" "listeners (resolve p r s) = listeners s"
  "next_promise (resolve p r s) = next_promise s"
  by (simp_all add: resolve_def split: option.split)

lemma resolve_answers: "fst ` set (answers (resolve p r s)) = fst ` set (answers s) \<union> set_option p"
proof (cases p)
  case (Some n)
  then show ?thesis by (cases "n \<in> fst ` set (answers s)") (simp_all add: resolve_def insert_absorb)
qed (simp add: resolve_def)

lemma hidden_after:
  assumes "e \<in> set (els (updateModalInertState (change i (\<lambda>e. e\<lparr>display := ''none'', is_closing := False\<rparr>) s)))" and "el_id e = i"
  shows "\<not> isModalOpen e"
proof -
  from assms(1) obtain x where x: "x \<in> set (els (change i (\<lambda>e. e\<lparr>display := ''none'', is_closing := False\<rparr>) s))"
    and e: "isModalOpen e = isModalOpen x" "el_id e = el_id x"
    by (auto simp: updateModalInertState_def)
  from x have "(\<exists>y. x = y\<lparr>display := ''none'', is_closing := False\<rparr>) \<or> el_id x \<noteq> i"
    unfolding change_def by auto
  moreover have "el_id x = i" using e(2) assms(2) by simp
  ultimately have "display x = ''none''" by auto
  then have "\<not> isModalOpen x" by (simp add: isModalOpen_def)
  with e(1) show ?thesis by blast
qed

lemma struct_remove:
  assumes "struct_ok n ts es" and "i \<notin> set ts"
  shows "struct_ok n ts (filter (\<lambda>e. el_id e \<noteq> i) es)"
proof -
  have "set ts \<subseteq> el_id ` set (filter (\<lambda>e. el_id e \<noteq> i) es)"
    using assms by (fastforce simp: struct_ok_def)
  with assms show ?thesis by (auto simp: struct_ok_def distinct_map intro: inj_on_subset)
qed

text \<open>The end of an animation: \<open>s\<close> has its timer no more.\<close>

lemma over_inv:
  assumes s: "struct_ok (next_id s) ts (els s)" and ts: "mset ts = add_mset i (mset (map fst (timers s)))"
  shows "page_inv (animation_over i cb s)"
proof -
  define f where "f = (\<lambda>e :: element. e\<lparr>display := ''none'', is_closing := False\<rparr>)"
  define t where "t = updateModalInertState (change i f s)"
  have set: "set ts = insert i (set (map fst (timers s)))" using ts by (metis set_mset_add_mset_insert set_mset_mset)
  have "distinct (i # map fst (timers s))" using s ts by (metis mset.simps(2) mset_eq_imp_distinct_iff struct_ok_def)
  with set s have "struct_ok (next_id s) (map fst (timers s)) (els (change i f s))"
    unfolding change_def page.simps
    by (simp, intro struct_map [OF s]) (auto simp: struct_ok_def f_def)
  then have t: "page_inv t" "timers t = timers s" by (auto simp: t_def intro: update_inv)
  have hidden: "\<not> isModalOpen e" if "e \<in> set (els t)" "el_id e = i" for e
    using that hidden_after unfolding t_def f_def by blast
  have i: "i \<notin> set (map fst (timers t))" using \<open>distinct (i # _)\<close> t by simp
  have "page_inv (t\<lparr>els := filter (\<lambda>x. el_id x \<noteq> i) (els t)\<rparr>)"
    using t(1) i inert_ok_filter [of "page_roots t" "els t" "\<lambda>x. el_id x \<noteq> i"] hidden
    by (simp add: page_inv_def struct_remove)
  moreover have "page_inv (change i (\<lambda>e. e\<lparr>flag_closing := False\<rparr>) t)"
    using t(1) unfolding page_inv_def page_change_simps
    by (intro conjI struct_change inert_change) (simp_all add: isModalOpen_def)
  ultimately show ?thesis
    using t(1) by (auto simp: animation_over_def Let_def t_def [symmetric, unfolded f_def] page_inv_def split: close_callback.splits option.splits)
qed

lemma chrome_close_inv: "page_inv s \<Longrightarrow> page_inv (chrome_close i s)"
  by (auto simp: chrome_close_def page_inv_def [of s] intro: close_inv split: option.splits)

lemma page_inv_listeners [simp]: "page_inv (s\<lparr>listeners := l\<rparr>) = page_inv s" "page_inv (s\<lparr>next_promise := k\<rparr>) = page_inv s"
  by (simp_all add: page_inv_def)

lemma dialog_close_inv:
  assumes "page_inv s"
  shows "page_inv (dialog_close i r s)"
proof -
  have "page_inv (closeModalWithAnim i (DialogClosed r) (change i (\<lambda>e. e\<lparr>flag_closing := True\<rparr>) t))" if "page_inv t" for t
    by (rule close_inv) (use that in \<open>auto simp: page_inv_def isModalOpen_def intro: struct_change inert_change\<close>)
  with assms show ?thesis by (auto simp: dialog_close_def split: option.splits)
qed

lemma backdrop_inv: "page_inv s \<Longrightarrow> page_inv (backdrop_click i s)"
  by (simp add: backdrop_click_def dialog_close_inv split: option.split)

lemma dialog_open_inv:
  assumes "struct_ok (next_id s) (map fst (timers s)) (els s)"
  shows "page_inv (dialog_open i s)"
proof -
  define t where "t = updateModalInertState (change i (\<lambda>e. e\<lparr>display := ''flex''\<rparr>) s)"
  have "page_inv t" unfolding t_def by (rule update_inv) (use assms in \<open>simp add: struct_change\<close>)
  then have "page_inv (change i (\<lambda>e. e\<lparr>esc_handler := Some (next_handler t)\<rparr>) t)"
    by (auto simp: page_inv_def isModalOpen_def intro: struct_change inert_change)
  then show ?thesis by (simp add: dialog_open_def Let_def t_def [symmetric] page_inv_def)
qed

lemma reused_mem: "reused opts s = Some e \<Longrightarrow> e \<in> set (els s) \<and> promise e \<noteq> None"
  by (auto simp: reused_def by_name_def dest: find_mem split: option.splits if_splits)

text \<open>The element of a dialog that is shown for the first time.\<close>

definition shown_dialog :: "dialog_options \<Rightarrow> page \<Rightarrow> element" where
  "shown_dialog opts s = buildUI opts (next_promise s) (last (els (new_dialog opts s)))"

lemma new_dialog_els:
  assumes "next_id s \<notin> el_id ` set (els s)"
  shows "els (change (next_id s) (buildUI opts (next_promise s)) ((new_dialog opts s)\<lparr>next_promise := k\<rparr>)) = els s @ [shown_dialog opts s]"
proof -
  have "map (\<lambda>e. if el_id e = next_id s then buildUI opts (next_promise s) e else e) (els s) = els s"
    using assms by (intro map_idI) (metis imageI)
  then show ?thesis by (simp add: change_def new_dialog_def shown_dialog_def)
qed

lemma struct_snoc:
  assumes "struct_ok n ts es" and "el_id e = n" "modal_class e" "\<not> is_closing e"
  shows "struct_ok (Suc n) ts (es @ [e])"
proof -
  have n: "n \<notin> el_id ` set es" using assms(1) by (auto simp: struct_ok_def)
  then have "n \<notin> set ts" using assms(1) unfolding struct_ok_def by blast
  with assms n show ?thesis by (auto simp: struct_ok_def less_Suc_eq)
qed

lemma dialog_show_inv:
  assumes "page_inv s"
  shows "page_inv (dialog_show opts s)"
proof (cases "reused opts s")
  case (Some e)
  have "struct_ok (next_id s) (map fst (timers s)) (els (change (el_id e) (buildUI opts (next_promise s)) (s\<lparr>next_promise := Suc (next_promise s)\<rparr>)))"
    unfolding change_def page.simps
    by (simp, rule struct_map [of _ "map fst (timers s)"]) (use assms in \<open>auto simp: page_inv_def struct_ok_def buildUI_def\<close>)
  with Some show ?thesis by (simp add: dialog_show_def Let_def dialog_open_inv)
next
  case None
  define t where "t = (new_dialog opts s)\<lparr>next_promise := Suc (next_promise s)\<rparr>"
  have new: "next_id s \<notin> el_id ` set (els s)"
    using assms by (auto simp: page_inv_def struct_ok_def)
  have e: "els (change (next_id s) (buildUI opts (next_promise s)) t) = els s @ [shown_dialog opts s]"
    unfolding t_def by (rule new_dialog_els [OF new])
  have "struct_ok (Suc (next_id s)) (map fst (timers s)) (els (change (next_id s) (buildUI opts (next_promise s)) t))"
    unfolding e by (rule struct_snoc) (use assms in \<open>simp_all add: page_inv_def shown_dialog_def buildUI_def new_dialog_def\<close>)
  moreover have "dialog_show opts s = dialog_open (next_id s) (change (next_id s) (buildUI opts (next_promise s)) t)"
    using None by (simp add: dialog_show_def Let_def t_def new_dialog_def)
  ultimately show ?thesis
    by (simp add: dialog_open_inv t_def new_dialog_def)
qed

lemma escape_inv: "page_inv s \<Longrightarrow> page_inv (escape_key s)"
proof -
  have one: "page_inv (snd (escape_listener l p))" if "page_inv (snd p)" for l p
    using that by (cases l; cases p) (auto simp: chrome_close_inv backdrop_inv split: option.splits)
  have "page_inv (snd (fold escape_listener ls p))" if "page_inv (snd p)" for ls p
    using that by (induction ls arbitrary: p) (simp_all add: one)
  then show "page_inv s \<Longrightarrow> page_inv (escape_key s)" by (simp add: escape_key_def)
qed

lemma remove_nth: "k < length xs \<Longrightarrow> mset xs = add_mset (xs ! k) (mset (take k xs @ drop (Suc k) xs))"
  by (metis add_mset_add_single id_take_nth_drop mset.simps(2) mset_append union_mset_add_mset_right)

lemma timer_mset:
  "k < length ts \<Longrightarrow> mset (map fst ts) = add_mset (fst (ts ! k)) (mset (map fst (take k ts @ drop (Suc k) ts)))"
  using remove_nth [of k "map fst ts"] by (simp add: take_map drop_map)

lemma page_step_inv [step_inv]:
  assumes "page_inv s" and "page_step e s = Some t"
  shows "page_inv t"
proof (cases e)
  case (AnimationOver k)
  with assms timer_mset [of k "timers s"] show ?thesis
    by (auto simp: page_inv_def [of s] intro!: over_inv split: if_splits)
qed (use assms in \<open>auto simp: bindModalChrome_def chrome_open_def open_inv chrome_close_inv dialog_show_inv dialog_close_inv
      backdrop_inv escape_inv split: if_splits\<close>)

interpretation pages: machine page_step page_inv
  by unfold_locales (rule page_step_inv)

lemma page_start_inv: "page_inv (page_start names roots ids)"
proof -
  have s: "struct_ok (length names) [] (els (page_start names roots ids))"
    by (auto simp: page_start_def configureModalInert_def struct_ok_def comp_def case_prod_beta dest: set_zip_leftD split: option.splits)
  have hidden: "\<not> isModalOpen e \<and> \<not> inert e" if "e \<in> set (els (page_start names roots ids))" for e
    using that by (auto simp: page_start_def configureModalInert_def isModalOpen_def split: option.splits)
  then have "inert_ok (page_roots (page_start names roots ids)) (els (page_start names roots ids))"
    by (auto simp: inert_ok_def) (auto simp: page_start_def configureModalInert_def split: option.splits)
  with s show ?thesis by (auto simp: page_inv_def page_start_def configureModalInert_def split: option.splits)
qed

text \<open>
  C14: the user can reach exactly the topmost modal. However modals and dialogs are opened, shown again, closed,
  dismissed by Escape or the backdrop, and whenever the closing animations end: the page behind is inert exactly
  when some modal is open, and a modal is inert exactly when it is open and not the last open one of the document.
\<close>

theorem only_top_modal_reachable:
  assumes "run page_step es (page_start names roots ids) = Some s"
  shows "(\<forall>b\<in>set (page_roots s). b = (\<exists>e\<in>set (els s). isModalOpen e)) \<and>
    (\<forall>e\<in>set (els s). inert e \<longleftrightarrow> isModalOpen e \<and> topOpenModal (els s) \<noteq> Some (el_id e)) \<and>
    ((\<exists>e\<in>set (els s). isModalOpen e) \<longrightarrow> (\<exists>e\<in>set (els s). isModalOpen e \<and> \<not> inert e \<and> topOpenModal (els s) = Some (el_id e)))"
proof -
  have inv: "page_inv s" by (rule pages.inv_run [OF assms page_start_inv])
  then have ok: "inert_ok (page_roots s) (els s)" and m: "\<forall>e\<in>set (els s). modal_class e"
    by (simp_all add: page_inv_def struct_ok_def)
  have "\<exists>e\<in>set (els s). isModalOpen e \<and> \<not> inert e \<and> topOpenModal (els s) = Some (el_id e)" if "\<exists>e\<in>set (els s). isModalOpen e"
  proof -
    from that m obtain e where "find (\<lambda>e. modal_class e \<and> isModalOpen e) (rev (els s)) = Some e"
      using top_None [of "els s"] by (auto simp: topOpenModal_def)
    with find_mem [OF this] ok show ?thesis by (auto simp: inert_ok_def topOpenModal_def)
  qed
  with ok show ?thesis by (auto simp: inert_ok_def)
qed

definition sample_options :: dialog_options where
  "sample_options = \<lparr>o_name = None, o_closable = True, o_destroy = True\<rparr>"

text \<open>A modal, two dialogs above it, and Escape.\<close>

definition sample_modals :: "page_event list" where
  "sample_modals = [OpenModal 0, ShowDialog sample_options, ShowDialog sample_options, EscapeKey, AnimationOver 0]"

theorem only_top_modal_reachable_witness:
  "\<exists>s. run page_step sample_modals (page_start [''language-modal''] 2 None) = Some s \<and>
     (\<forall>b\<in>{True}. b = (\<exists>e\<in>set (els s). isModalOpen e)) \<and> topOpenModal (els s) = Some 1 \<and>
     map inert (els s) = [True, False] \<and> page_roots s = [True, True]"
proof -
  define s where "s = the (run page_step sample_modals (page_start [''language-modal''] 2 None))"
  have r: "run page_step sample_modals (page_start [''language-modal''] 2 None) = Some s"
    unfolding s_def by code_simp
  have "topOpenModal (els s) = Some 1" "map inert (els s) = [True, False]" "page_roots s = [True, True]"
    unfolding s_def by code_simp+
  with r only_top_modal_reachable [OF r] show ?thesis by simp
qed

section \<open>Every dialog is answered\<close>

text \<open>
  A dialog whose element is in use may not be shown again (dialogs without an identifier never are): \<open>fresh_step\<close>
  excludes it. Then a promise that is not settled is that of a dialog which is open or closing.
\<close>

definition fresh_step :: "page_event \<Rightarrow> page \<Rightarrow> page option" where
  "fresh_step e s = (case e of ShowDialog opts \<Rightarrow> if reused opts s = None then page_step e s else None | _ \<Rightarrow> page_step e s)"

definition waiting :: "nat \<Rightarrow> element \<Rightarrow> bool" where
  "waiting p e \<longleftrightarrow> promise e = Some p \<and> (isModalOpen e \<or> is_closing e)"

definition promise_inv :: "nat \<Rightarrow> nat set \<Rightarrow> nat \<Rightarrow> (nat \<times> close_callback) list \<Rightarrow> esc_listener list \<Rightarrow> element list \<Rightarrow> bool" where
  "promise_inv np answered n ts ls es \<longleftrightarrow>
     (\<forall>p<np. p \<in> answered \<or> (\<exists>e\<in>set es. waiting p e)) \<and>
     (\<forall>e\<in>set es. \<forall>p. promise e = Some p \<longrightarrow> (el_id e, Plain) \<notin> set ts \<and> Bound (el_id e) \<notin> set ls) \<and>
     (\<forall>i. Bound i \<in> set ls \<or> i \<in> fst ` set ts \<longrightarrow> i < n)"

definition answered_inv :: "page \<Rightarrow> bool" where
  "answered_inv s \<longleftrightarrow> page_inv s \<and>
     promise_inv (next_promise s) (fst ` set (answers s)) (next_id s) (timers s) (listeners s) (els s)"

text \<open>Changes that keep the waiting dialogs waiting.\<close>

lemma promise_map:
  assumes "promise_inv np an n ts ls es" and "set ls' \<inter> range Bound \<subseteq> set ls"
    and "\<And>e. e \<in> set es \<Longrightarrow> el_id (f e) = el_id e \<and> promise (f e) = promise e"
    and "\<And>e p. e \<in> set es \<Longrightarrow> waiting p e \<Longrightarrow> waiting p (f e)"
  shows "promise_inv np an n ts ls' (map f es)"
proof -
  have "\<exists>e\<in>set (map f es). waiting p e" if "\<exists>e\<in>set es. waiting p e" for p
    using that assms(4) by auto
  moreover have "Bound i \<in> set ls" if "Bound i \<in> set ls'" for i
    using that assms(2) by blast
  ultimately show ?thesis
    using assms(1,3) unfolding promise_inv_def by (simp add: ball_simps) blast
qed

lemma waiting_set_inert [simp]: "waiting p (set_inert i e) = waiting p e"
  by (simp add: waiting_def)

lemma promise_update: "promise_inv np an n ts ls (els s) \<Longrightarrow> promise_inv np an n ts ls (els (updateModalInertState s))"
  by (simp add: updateModalInertState_def, rule promise_map) auto

lemma promise_change:
  assumes "promise_inv np an n ts ls (els s)"
    and "\<And>e. el_id (f e) = el_id e \<and> promise (f e) = promise e"
    and "\<And>e p. e \<in> set (els s) \<Longrightarrow> el_id e = i \<Longrightarrow> waiting p e \<Longrightarrow> waiting p (f e)"
  shows "promise_inv np an n ts ls (els (change i f s))"
  by (simp add: change_def, rule promise_map [OF assms(1)]) (use assms(2,3) in auto)

lemma promise_timer:
  "promise_inv np an n ts ls es \<Longrightarrow> i < n \<Longrightarrow> (cb = Plain \<Longrightarrow> \<forall>e\<in>set es. el_id e = i \<longrightarrow> promise e = None) \<Longrightarrow>
   promise_inv np an n (ts @ [(i, cb)]) ls es"
  unfolding promise_inv_def by auto

lemma promise_close:
  assumes s: "promise_inv np an (next_id s) (timers s) ls (els s)" "struct_ok (next_id s) (map fst (timers s)) (els s)"
    and cb: "cb = Plain \<Longrightarrow> \<forall>e\<in>set (els s). el_id e = i \<longrightarrow> promise e = None"
  shows "promise_inv np an (next_id s) (timers (closeModalWithAnim i cb s)) ls (els (closeModalWithAnim i cb s))"
proof (cases "element_of i s")
  case (Some e)
  note e = element_of_mem [OF Some]
  define t where "t = updateModalInertState (change i (\<lambda>e. e\<lparr>is_closing := True\<rparr>) s)"
  have "promise_inv np an (next_id s) (timers s) ls (els t)"
    unfolding t_def by (intro promise_update promise_change s(1)) (auto simp: waiting_def)
  moreover have "i < next_id s" using e s(2) by (auto simp: struct_ok_def)
  moreover have "\<forall>e\<in>set (els t). el_id e = i \<longrightarrow> promise e = None" if "cb = Plain"
    using cb [OF that] by (auto simp: t_def updateModalInertState_def change_def)
  ultimately have "promise_inv np an (next_id s) (timers s @ [(i, cb)]) ls (els t)" by (rule promise_timer)
  with s Some show ?thesis by (simp add: closeModalWithAnim_def t_def)
qed (use s in \<open>simp add: closeModalWithAnim_def\<close>)

lemma same_element:
  "struct_ok n ts (els s) \<Longrightarrow> element_of i s = Some e \<Longrightarrow> x \<in> set (els s) \<Longrightarrow> el_id x = i \<Longrightarrow> x = e"
  using element_of_mem [of i s e] by (auto simp: struct_ok_def distinct_map inj_on_def)

lemma plain_all:
  assumes "answered_inv s" and "is_plain i s"
  shows "\<forall>x\<in>set (els s). el_id x = i \<longrightarrow> promise x = None"
  using assms same_element [of "next_id s" "map fst (timers s)" s i]
  by (auto simp: is_plain_def answered_inv_def page_inv_def split: option.splits)

lemma open_answered: "answered_inv s \<Longrightarrow> answered_inv (openModalWithAnim i s)"
  using open_inv [of s i]
  by (auto simp: answered_inv_def openModalWithAnim_def waiting_def isModalOpen_def intro!: promise_update promise_change
      split: option.splits)

lemma close_simps [simp]:
  "listeners (closeModalWithAnim i cb s) = listeners s" "next_promise (closeModalWithAnim i cb s) = next_promise s"
  "answers (closeModalWithAnim i cb s) = answers s" "next_id (closeModalWithAnim i cb s) = next_id s"
  by (simp_all add: closeModalWithAnim_def split: option.split)

lemma chrome_close_answered:
  assumes "answered_inv s" and "\<forall>x\<in>set (els s). el_id x = i \<longrightarrow> promise x = None"
  shows "answered_inv (chrome_close i s)"
proof -
  have "answered_inv (closeModalWithAnim i Plain s)"
    using assms close_inv [of s i Plain] promise_close [of "next_promise s" "fst ` set (answers s)" s "listeners s" Plain i]
    by (auto simp: answered_inv_def page_inv_def)
  with assms(1) show ?thesis by (simp add: chrome_close_def split: option.split)
qed

lemma dialog_close_answered:
  assumes "answered_inv s"
  shows "answered_inv (dialog_close i r s)"
proof -
  have c: "answered_inv (closeModalWithAnim i (DialogClosed r) t)" if "answered_inv t" for t
    using that close_inv [of t i "DialogClosed r"]
      promise_close [of "next_promise t" "fst ` set (answers t)" t "listeners t" "DialogClosed r" i]
    by (auto simp: answered_inv_def page_inv_def)
  have f: "answered_inv (change i (\<lambda>e. e\<lparr>flag_closing := True\<rparr>) t)" if "answered_inv t" for t
    using that by (auto simp: answered_inv_def page_inv_def waiting_def isModalOpen_def
        intro!: struct_change inert_change promise_change)
  have l: "answered_inv (s\<lparr>listeners := removeAll (OfDialog i h) (listeners s)\<rparr>)" for h
    using assms by (auto simp: answered_inv_def promise_inv_def)
  show ?thesis using assms c f l by (simp add: dialog_close_def split: option.split)
qed

lemma backdrop_answered: "answered_inv s \<Longrightarrow> answered_inv (backdrop_click i s)"
  by (simp add: backdrop_click_def dialog_close_answered split: option.split)

lemma bound_listeners:
  "Bound i \<in> set (listeners (chrome_close j s)) \<longleftrightarrow> Bound i \<in> set (listeners s)"
  "Bound i \<in> set (listeners (backdrop_click j s)) \<longleftrightarrow> Bound i \<in> set (listeners s)"
  by (auto simp: chrome_close_def backdrop_click_def dialog_close_def split: option.split)

lemma escape_answered:
  assumes "answered_inv s"
  shows "answered_inv (escape_key s)"
proof -
  define B where "B = (\<lambda>s. \<forall>i. Bound i \<in> set (listeners s) \<longrightarrow> (\<forall>e\<in>set (els s). el_id e = i \<longrightarrow> promise e = None))"
  have one: "answered_inv (snd (escape_listener l p)) \<and> (\<forall>i. Bound i \<in> set (listeners (snd (escape_listener l p))) \<longleftrightarrow> Bound i \<in> set (listeners (snd p)))"
    if p: "answered_inv (snd p)" and l: "l \<in> range Bound \<Longrightarrow> l \<in> set (listeners (snd p))" for l p
  proof (cases l)
    case (Bound i)
    with l p have "\<forall>x\<in>set (els (snd p)). el_id x = i \<longrightarrow> promise x = None"
      by (auto simp: answered_inv_def promise_inv_def)
    with p Bound show ?thesis
      by (cases p) (auto simp: chrome_close_answered bound_listeners split: option.splits)
  next
    case (OfDialog i h)
    with p show ?thesis by (cases p) (auto simp: backdrop_answered bound_listeners)
  qed
  have "answered_inv (snd (fold escape_listener ls p))"
    if "answered_inv (snd p)" and "\<forall>l\<in>set ls. l \<in> range Bound \<longrightarrow> l \<in> set (listeners (snd p))" for ls p
    using that
  proof (induction ls arbitrary: p)
    case (Cons l ls)
    have o: "answered_inv (snd (escape_listener l p))"
      "\<And>i. Bound i \<in> set (listeners (snd (escape_listener l p))) \<longleftrightarrow> Bound i \<in> set (listeners (snd p))"
      using one [of p l] Cons.prems by auto
    have "answered_inv (snd (fold escape_listener ls (escape_listener l p)))"
      by (rule Cons.IH) (use o Cons.prems in auto)
    then show ?case by simp
  qed simp
  with assms show ?thesis by (simp add: escape_key_def)
qed

text \<open>The end of an animation answers the promise of its dialog.\<close>

lemma promise_over:
  assumes p: "promise_inv np an n ((i, cb) # ts) ls es" and an: "an \<subseteq> an'"
    and others: "\<And>e q. e \<in> set es \<Longrightarrow> el_id e \<noteq> i \<Longrightarrow> waiting q e \<Longrightarrow> \<exists>x\<in>set es'. waiting q x"
    and own: "\<And>e q. e \<in> set es \<Longrightarrow> el_id e = i \<Longrightarrow> waiting q e \<Longrightarrow> q \<in> an'"
    and old: "\<And>x. x \<in> set es' \<Longrightarrow> \<exists>e\<in>set es. el_id e = el_id x \<and> promise e = promise x"
  shows "promise_inv np an' n ts ls es'"
  unfolding promise_inv_def
proof (intro conjI allI ballI impI)
  fix q assume "q < np"
  with p consider "q \<in> an" | e where "e \<in> set es" "waiting q e" by (auto simp: promise_inv_def)
  then show "q \<in> an' \<or> (\<exists>e\<in>set es'. waiting q e)" using an others own by cases blast+
next
  fix x q assume "x \<in> set es'" "promise x = Some q"
  with old obtain e where "e \<in> set es" "el_id e = el_id x" "promise e = Some q" by metis
  with p show "(el_id x, Plain) \<notin> set ts" "Bound (el_id x) \<notin> set ls" by (force simp: promise_inv_def)+
next
  fix j assume "Bound j \<in> set ls \<or> j \<in> fst ` set ts"
  with p show "j < n" by (auto simp: promise_inv_def)
qed

lemma over_answered:
  assumes inv: "page_inv (animation_over i cb s)"
    and p: "promise_inv (next_promise s) (fst ` set (answers s)) (next_id s) ((i, cb) # timers s) (listeners s) (els s)"
    and d: "distinct (map el_id (els s))"
  shows "answered_inv (animation_over i cb s)"
proof -
  define f where "f = (\<lambda>e :: element. e\<lparr>display := ''none'', is_closing := False\<rparr>)"
  define t where "t = updateModalInertState (change i f s)"
  have t: "els t = map (\<lambda>e. set_inert (topOpenModal (els (change i f s))) (if el_id e = i then f e else e)) (els s)"
    "timers t = timers s" "next_id t = next_id s" "listeners t = listeners s" "answers t = answers s" "next_promise t = next_promise s"
    by (simp_all add: t_def updateModalInertState_def change_def comp_def)
  have keep: "\<exists>x\<in>set (els t). el_id x = el_id e \<and> waiting q x" if "e \<in> set (els s)" "el_id e \<noteq> i" "waiting q e" for e q
    using that by (auto simp: t)
  have old: "\<exists>e\<in>set (els s). el_id e = el_id x \<and> promise e = promise x" if "x \<in> set (els t)" for x
    using that by (auto simp: t f_def)
  show ?thesis
  proof (cases cb)
    case Plain
    have "promise_inv (next_promise s) (fst ` set (answers s)) (next_id s) (timers s) (listeners s) (els t)"
    proof (rule promise_over [OF p subset_refl])
      fix e q assume "e \<in> set (els s)" "el_id e = i" "waiting q e"
      with p Plain show "q \<in> fst ` set (answers s)" by (auto simp: promise_inv_def waiting_def)
    qed (use keep old in blast)+
    with Plain inv t show ?thesis
      by (simp add: animation_over_def t_def [symmetric, unfolded f_def] answered_inv_def)
  next
    case (DialogClosed r)
    show ?thesis
    proof (cases "element_of i t")
      case None
      then have gone: "el_id e \<noteq> i" if "e \<in> set (els s)" for e
        using that by (auto simp: element_of_def find_None_iff t f_def)
      have "promise_inv (next_promise s) (fst ` set (answers s)) (next_id s) (timers s) (listeners s) (els t)"
        by (rule promise_over [OF p subset_refl]) (use keep old gone in blast)+
      with None DialogClosed inv t show ?thesis
        by (simp add: animation_over_def t_def [symmetric, unfolded f_def] answered_inv_def)
    next
      case (Some x)
      have x: "promise x = promise e" if "e \<in> set (els s)" "el_id e = i" for e
      proof -
        from old element_of_mem [OF Some] obtain y where "y \<in> set (els s)" "el_id y = i" "promise y = promise x" by auto
        with that d show ?thesis by (auto simp: distinct_map inj_on_def)
      qed
      define v where "v = (if destroyOnClose x then t\<lparr>els := filter (\<lambda>x. el_id x \<noteq> i) (els t)\<rparr>
        else change i (\<lambda>e. e\<lparr>flag_closing := False\<rparr>) t)"
      have v: "animation_over i cb s = resolve (promise x) r v"
        using Some DialogClosed by (simp add: animation_over_def t_def [symmetric, unfolded f_def] v_def)
      have vt: "timers v = timers t" "next_id v = next_id t" "listeners v = listeners t" "answers v = answers t"
        "next_promise v = next_promise t"
        by (simp_all add: v_def)
      have keep_v: "\<exists>y\<in>set (els v). waiting q y" if "e \<in> set (els s)" "el_id e \<noteq> i" "waiting q e" for e q
        using keep [OF that] that(2) by (auto simp: v_def change_def)
      have old_v: "\<exists>e\<in>set (els s). el_id e = el_id y \<and> promise e = promise y" if "y \<in> set (els v)" for y
        using that old by (auto simp: v_def change_def split: if_splits)
      have "promise_inv (next_promise s) (fst ` set (answers s) \<union> set_option (promise x)) (next_id s) (timers s) (listeners s) (els v)"
        by (rule promise_over [OF p]) (use keep_v old_v x in \<open>auto simp: waiting_def\<close>)
      with inv vt t show ?thesis by (simp add: v answered_inv_def resolve_answers)
    qed
  qed
qed

lemma show_answered:
  assumes "answered_inv s" and "reused opts s = None"
  shows "answered_inv (dialog_show opts s)"
proof -
  have p: "promise_inv (next_promise s) (fst ` set (answers s)) (next_id s) (timers s) (listeners s) (els s)"
    and new: "next_id s \<notin> el_id ` set (els s)"
    using assms(1) by (auto simp: answered_inv_def page_inv_def struct_ok_def)
  define t where "t = change (next_id s) (buildUI opts (next_promise s)) ((new_dialog opts s)\<lparr>next_promise := Suc (next_promise s)\<rparr>)"
  have t: "els t = els s @ [shown_dialog opts s]" "timers t = timers s" "next_id t = Suc (next_id s)" "listeners t = listeners s"
    "answers t = answers s" "next_promise t = Suc (next_promise s)"
    using new_dialog_els [OF new] by (simp_all add: t_def new_dialog_def)
  define v where "v = updateModalInertState (change (next_id s) (\<lambda>e. e\<lparr>display := ''flex''\<rparr>) t)"
  define d where "d = set_inert (topOpenModal (els (change (next_id s) (\<lambda>e. e\<lparr>display := ''flex''\<rparr>) t))) ((shown_dialog opts s)\<lparr>display := ''flex''\<rparr>)"
  have d: "waiting (next_promise s) d" "el_id d = next_id s" "promise d = Some (next_promise s)"
    by (simp_all add: d_def waiting_def isModalOpen_def shown_dialog_def buildUI_def new_dialog_def)
  have v: "els v = map (set_inert (topOpenModal (els (change (next_id s) (\<lambda>e. e\<lparr>display := ''flex''\<rparr>) t)))) (els s) @ [d]"
  proof -
    have "map (\<lambda>e. if el_id e = next_id s then e\<lparr>display := ''flex''\<rparr> else e) (els s) = els s"
      using new by (intro map_idI) (metis imageI)
    moreover have "el_id (shown_dialog opts s) = next_id s" by (simp add: shown_dialog_def buildUI_def new_dialog_def)
    ultimately show ?thesis by (simp add: v_def updateModalInertState_def change_def t d_def)
  qed
  have "promise_inv (Suc (next_promise s)) (fst ` set (answers s)) (Suc (next_id s)) (timers s)
      (listeners s @ [OfDialog (next_id s) (next_handler v)]) (els v)"
    unfolding promise_inv_def v
  proof (intro conjI allI ballI impI)
    fix q assume "q < Suc (next_promise s)"
    with p d(1) show "q \<in> fst ` set (answers s) \<or> (\<exists>e\<in>set (map (set_inert (topOpenModal (els (change (next_id s) (\<lambda>e. e\<lparr>display := ''flex''\<rparr>) t)))) (els s) @ [d]). waiting q e)"
      by (auto simp: promise_inv_def less_Suc_eq)
  next
    fix e q assume "e \<in> set (map (set_inert (topOpenModal (els (change (next_id s) (\<lambda>e. e\<lparr>display := ''flex''\<rparr>) t)))) (els s) @ [d])"
      and "promise e = Some q"
    then consider x where "x \<in> set (els s)" "el_id e = el_id x" "promise x = Some q" | "el_id e = next_id s"
      using d by auto
    then show "(el_id e, Plain) \<notin> set (timers s)" "Bound (el_id e) \<notin> set (listeners s @ [OfDialog (next_id s) (next_handler v)])"
      using p by (cases; force simp: promise_inv_def)+
  next
    fix j assume "Bound j \<in> set (listeners s @ [OfDialog (next_id s) (next_handler v)]) \<or> j \<in> fst ` set (timers s)"
    then have "Bound j \<in> set (listeners s) \<or> j \<in> fst ` set (timers s)" by simp
    with p have "j < next_id s" unfolding promise_inv_def by blast
    then show "j < Suc (next_id s)" by simp
  qed
  then have "promise_inv (Suc (next_promise s)) (fst ` set (answers s)) (Suc (next_id s)) (timers s)
      (listeners s @ [OfDialog (next_id s) (next_handler v)]) (els (change (next_id s) (\<lambda>e. e\<lparr>esc_handler := Some (next_handler v)\<rparr>) v))"
    by (rule promise_change) (auto simp: waiting_def isModalOpen_def)
  moreover have "dialog_show opts s = (change (next_id s) (\<lambda>e. e\<lparr>esc_handler := Some (next_handler v)\<rparr>) v)
      \<lparr>listeners := listeners v @ [OfDialog (next_id s) (next_handler v)], next_handler := Suc (next_handler v)\<rparr>"
  proof -
    have "next_promise (new_dialog opts s) = next_promise s" by (simp add: new_dialog_def)
    with assms(2) show ?thesis by (simp add: dialog_show_def Let_def dialog_open_def t_def v_def)
  qed
  ultimately show ?thesis
    using dialog_show_inv [of s opts] assms(1) t by (simp add: answered_inv_def v_def)
qed

lemma promise_rotate:
  assumes "promise_inv np an n ts ls es" and "set ts = insert x (set ts')"
  shows "promise_inv np an n (x # ts') ls es"
  using assms by (auto simp: promise_inv_def)

lemma set_take_drop: "k < length xs \<Longrightarrow> set xs = insert (xs ! k) (set (take k xs @ drop (Suc k) xs))"
  using arg_cong [OF remove_nth, of k xs set_mset] by simp

lemma bind_answered:
  assumes "answered_inv s" and "is_plain i s"
  shows "answered_inv (bindModalChrome i escape s)"
proof (cases "element_of i s")
  case (Some e)
  note e = element_of_mem [OF Some]
  have "i < next_id s" using e assms(1) by (auto simp: answered_inv_def page_inv_def struct_ok_def)
  with assms(1) plain_all [OF assms] show ?thesis
    by (auto simp: bindModalChrome_def answered_inv_def promise_inv_def)
qed (use assms in \<open>simp add: bindModalChrome_def\<close>)

lemma fresh_step_inv [step_inv]:
  assumes "answered_inv s" and "fresh_step e s = Some t"
  shows "answered_inv t"
proof (cases e)
  case (AnimationOver k)
  with assms have k: "k < length (timers s)" and t: "page_step e s = Some t" by (auto simp: fresh_step_def split: if_splits)
  define s' where "s' = s\<lparr>timers := take k (timers s) @ drop (Suc k) (timers s)\<rparr>"
  have "page_inv t" using page_step_inv [OF _ t] assms(1) by (simp add: answered_inv_def)
  moreover have "promise_inv (next_promise s') (fst ` set (answers s')) (next_id s')
      ((fst (timers s ! k), snd (timers s ! k)) # timers s') (listeners s') (els s')"
    using assms(1) promise_rotate [OF _ set_take_drop [OF k]] by (simp add: answered_inv_def s'_def)
  moreover have "distinct (map el_id (els s'))" using assms(1) by (simp add: s'_def answered_inv_def page_inv_def struct_ok_def)
  moreover have "t = animation_over (fst (timers s ! k)) (snd (timers s ! k)) s'" using AnimationOver k t by (simp add: s'_def)
  ultimately show ?thesis using over_answered by simp
next
  case (ShowDialog opts)
  with assms show ?thesis by (auto simp: fresh_step_def show_answered split: if_splits)
next
  case (CloseModal i)
  with assms have "is_plain i s" and "t = chrome_close i s" by (auto simp: fresh_step_def split: if_splits)
  with assms(1) show ?thesis using chrome_close_answered plain_all by blast
qed (use assms in \<open>auto simp: fresh_step_def bind_answered chrome_open_def open_answered dialog_close_answered
      backdrop_answered escape_answered split: if_splits\<close>)

interpretation fresh: machine fresh_step answered_inv
  by unfold_locales (rule fresh_step_inv)

lemma page_start_answered: "answered_inv (page_start names roots ids)"
  using page_start_inv [of names roots ids]
  by (simp add: answered_inv_def) (auto simp: promise_inv_def page_start_def configureModalInert_def split: option.splits)

text \<open>
  C24: no dialog is left without an answer. As long as no dialog is shown again while its element is in use, every
  promise that \<open>show\<close> returned is settled, or is that of a dialog that is open (so that it can be closed) or is being
  closed; in particular, once the animations have ended, every dialog that is no longer open has been answered.
\<close>

theorem every_dialog_answered:
  assumes "run fresh_step es (page_start names roots ids) = Some s" and "p < next_promise s" and "p \<notin> fst ` set (answers s)"
  shows "\<exists>e\<in>set (els s). promise e = Some p \<and> (isModalOpen e \<or> is_closing e \<and> el_id e \<in> fst ` set (timers s)) \<and>
    (timers s = [] \<longrightarrow> isModalOpen e)"
proof -
  have inv: "answered_inv s" by (rule fresh.inv_run [OF assms(1) page_start_answered])
  with assms(2,3) obtain e where e: "e \<in> set (els s)" "waiting p e" by (auto simp: answered_inv_def promise_inv_def)
  with inv have "is_closing e \<Longrightarrow> el_id e \<in> fst ` set (timers s)"
    by (auto simp: answered_inv_def page_inv_def struct_ok_def)
  with e show ?thesis by (auto simp: waiting_def)
qed

definition sample_dialogs :: "page_event list" where
  "sample_dialogs = [ShowDialog sample_options, ShowDialog sample_options, CloseDialog 0 ''saved'', AnimationOver 0]"

theorem every_dialog_answered_witness:
  "\<exists>s. run fresh_step sample_dialogs (page_start [] 1 None) = Some s \<and> answers s = [(0, ''saved'')] \<and>
     (\<exists>e\<in>set (els s). promise e = Some 1 \<and> (isModalOpen e \<or> is_closing e \<and> el_id e \<in> fst ` set (timers s)))"
proof -
  define s where "s = the (run fresh_step sample_dialogs (page_start [] 1 None))"
  have r: "run fresh_step sample_dialogs (page_start [] 1 None) = Some s"
    unfolding s_def by code_simp
  have a: "answers s = [(0, ''saved'')]" "next_promise s = 2"
    unfolding s_def by code_simp+
  have "1 < next_promise s" "1 \<notin> fst ` set (answers s)" unfolding a by simp_all
  with every_dialog_answered [OF r, of 1] r a(1) show ?thesis by blast
qed

text \<open>
  The condition is needed. A dialog that is shown again under its identifier while it is being closed is taken out of the
  document by the timer of the first closing, and its promise gets the answer meant for the first one, which
  is never answered.
\<close>

definition named_options :: dialog_options where
  "named_options = \<lparr>o_name = Some ''user-edit'', o_closable = True, o_destroy = True\<rparr>"

theorem shown_again_while_closing:
  "map_option (\<lambda>s. (els s, timers s, answers s, next_promise s))
     (run page_step [ShowDialog named_options, CloseDialog 0 ''cancelled'', ShowDialog named_options, AnimationOver 0]
       (page_start [] 1 None)) = Some ([], [], [(1, ''cancelled'')], 2)"
  by code_simp

text \<open>Escape also closes a bound modal that lies under an open dialog.\<close>

theorem escape_closes_modal_below:
  "map_option (\<lambda>s. map is_closing (els s))
     (run page_step [Bind 0 True, OpenModal 0, ShowDialog named_options, EscapeKey] (page_start [''language-modal''] 1 None)) =
   Some [True, True]"
  by code_simp

section \<open>A stack of modals\<close>

text \<open>
  The specification: the open modals in document order, the last of which has the focus. The operations of the page are
  those of the specification.
\<close>

definition opened :: "page \<Rightarrow> nat list" where
  "opened s = map el_id (filter isModalOpen (els s))"

fun focus_of :: "nat list \<Rightarrow> nat option" where
  "focus_of [] = None"
| "focus_of (i # is) = Some (last (i # is))"

lemma opened_update [simp]: "opened (updateModalInertState s) = opened s"
  by (simp add: opened_def updateModalInertState_def filter_map comp_def)

lemma opened_change:
  assumes "\<And>e. el_id (f e) = el_id e"
  shows "opened (change i f s) = map el_id (filter (\<lambda>e. isModalOpen (if el_id e = i then f e else e)) (els s))"
proof -
  have "el_id \<circ> (\<lambda>e. if el_id e = i then f e else e) = el_id" using assms by auto
  then show ?thesis by (simp add: opened_def change_def filter_map comp_def)
qed

lemma in_opened: "struct_ok n ts (els s) \<Longrightarrow> e \<in> set (els s) \<Longrightarrow> el_id e \<in> set (opened s) \<longleftrightarrow> isModalOpen e"
  by (auto simp: opened_def struct_ok_def distinct_map inj_on_def)

lemma top_focus:
  assumes "\<forall>e\<in>set (els s). modal_class e"
  shows "topOpenModal (els s) = focus_of (opened s)"
proof -
  have "map_option el_id (find P (rev es)) = focus_of (map el_id (filter P es))" for P es
  proof (induction es rule: rev_induct)
    case (snoc e es)
    have last: "focus_of (xs @ [x]) = Some x" for xs x by (cases xs) auto
    from snoc show ?case by (simp add: last)
  qed simp
  moreover have "find (\<lambda>e. modal_class e \<and> isModalOpen e) (rev (els s)) = find isModalOpen (rev (els s))"
    using assms by (intro find_cong) auto
  ultimately show ?thesis by (simp add: topOpenModal_def opened_def)
qed

lemma opened_open:
  assumes "struct_ok n ts (els s)" and "element_of i s = Some e" and "\<not> is_closing e"
  shows "opened (openModalWithAnim i s) = filter (\<lambda>j. j = i \<or> j \<in> set (opened s)) (map el_id (els s))"
proof -
  have "isModalOpen (if el_id x = i then x\<lparr>display := ''flex''\<rparr> else x) \<longleftrightarrow> el_id x = i \<or> el_id x \<in> set (opened s)"
    if "x \<in> set (els s)" for x
    using in_opened [OF assms(1) that] same_element [OF assms(1,2) that] assms(3) by (auto simp: isModalOpen_def)
  then have "filter (\<lambda>x. isModalOpen (if el_id x = i then x\<lparr>display := ''flex''\<rparr> else x)) (els s) =
    filter (\<lambda>x. el_id x = i \<or> el_id x \<in> set (opened s)) (els s)" by (intro filter_cong) auto
  with assms show ?thesis by (simp add: openModalWithAnim_def opened_change filter_map comp_def)
qed

lemma removeAll_opened: "removeAll i (opened s) = map el_id (filter (\<lambda>e. isModalOpen e \<and> el_id e \<noteq> i) (els s))"
  by (auto simp: opened_def removeAll_filter_not_eq filter_map comp_def intro!: arg_cong [where f = "map el_id"] filter_cong)

lemma opened_closed:
  assumes "struct_ok n ts (els s)" and c: "\<And>e. \<not> isModalOpen (f e)" and i: "\<And>e. el_id (f e) = el_id e"
  shows "opened (change i f s) = removeAll i (opened s)"
proof -
  have "filter (\<lambda>x. isModalOpen (if el_id x = i then f x else x)) (els s) = filter (\<lambda>x. isModalOpen x \<and> el_id x \<noteq> i) (els s)"
    using c by (intro filter_cong) auto
  with opened_change [OF i] show ?thesis by (simp add: removeAll_opened)
qed

lemma opened_close:
  assumes "struct_ok n ts (els s)"
  shows "opened (closeModalWithAnim i cb s) = removeAll i (opened s)"
proof (cases "element_of i s")
  case None
  then have "i \<notin> set (opened s)" by (auto simp: opened_def element_of_def find_None_iff)
  with None show ?thesis by (simp add: closeModalWithAnim_def)
next
  case (Some e)
  show ?thesis
  proof (cases "is_closing e")
    case True
    with Some in_opened [OF assms, of e] element_of_mem [OF Some] have "i \<notin> set (opened s)" by (auto simp: isModalOpen_def)
    with True Some show ?thesis by (simp add: closeModalWithAnim_def)
  next
    case False
    have "opened (s\<lparr>timers := x\<rparr>) = opened s" for s x by (simp add: opened_def)
    with False Some opened_closed [OF assms, of "\<lambda>e. e\<lparr>is_closing := True\<rparr>" i] show ?thesis
      by (simp add: closeModalWithAnim_def isModalOpen_def)
  qed
qed

lemma opened_show:
  assumes "next_id s \<notin> el_id ` set (els s)" and "reused opts s = None"
  shows "opened (dialog_show opts s) = opened s @ [next_id s]"
proof -
  define t where "t = change (next_id s) (buildUI opts (next_promise s)) ((new_dialog opts s)\<lparr>next_promise := Suc (next_promise s)\<rparr>)"
  have e: "els t = els s @ [shown_dialog opts s]" using new_dialog_els [OF assms(1)] by (simp add: t_def)
  have "next_promise (new_dialog opts s) = next_promise s" by (simp add: new_dialog_def)
  then have d: "dialog_show opts s = dialog_open (next_id s) t" using assms(2) by (simp add: dialog_show_def Let_def t_def)
  have o: "opened (dialog_open i t) = opened (change i (\<lambda>e. e\<lparr>display := ''flex''\<rparr>) t)" for i
  proof -
    have "opened (x\<lparr>listeners := l, next_handler := h\<rparr>) = opened x" for x l h by (simp add: opened_def)
    moreover have "opened (change i (\<lambda>e. e\<lparr>esc_handler := h\<rparr>) x) = opened x" for x h
      by (simp add: opened_change) (auto simp: opened_def isModalOpen_def intro!: arg_cong [where f = "map el_id"] filter_cong)
    ultimately show ?thesis by (simp add: dialog_open_def Let_def)
  qed
  have "filter (\<lambda>e. isModalOpen (if el_id e = next_id s then e\<lparr>display := ''flex''\<rparr> else e)) (els s) = filter isModalOpen (els s)"
    using assms(1) by (intro filter_cong) (auto simp: image_iff)
  then show ?thesis
    by (simp add: d o opened_change e) (simp add: opened_def isModalOpen_def shown_dialog_def buildUI_def new_dialog_def)
qed

lemma opened_over:
  assumes "struct_ok n ts (els s)" and "i \<notin> set (opened s)"
  shows "opened (animation_over i cb s) = opened s"
proof -
  define f where "f = (\<lambda>e :: element. e\<lparr>display := ''none'', is_closing := False\<rparr>)"
  have o: "opened (change i f s) = opened s"
    using opened_closed [OF assms(1), of f i] assms(2) by (simp add: f_def isModalOpen_def)
  define t where "t = updateModalInertState (change i f s)"
  have t: "opened t = opened s" by (simp add: t_def o)
  have "opened (t\<lparr>els := filter (\<lambda>x. el_id x \<noteq> i) (els t)\<rparr>) = removeAll i (opened t)"
    unfolding removeAll_opened by (simp add: opened_def conj_commute)
  moreover have "opened (change i (\<lambda>e. e\<lparr>flag_closing := False\<rparr>) t) = opened t"
    by (simp add: opened_change) (auto simp: opened_def isModalOpen_def intro!: arg_cong [where f = "map el_id"] filter_cong)
  moreover have "opened (resolve p r x) = opened x" "opened (x\<lparr>closed_log := l\<rparr>) = opened x" for p r x l
    by (simp_all add: opened_def)
  ultimately show ?thesis
    using t assms(2) by (simp add: animation_over_def t_def [symmetric, unfolded f_def] split: close_callback.split option.split)
qed

text \<open>
  C23: the modals of the page implement a stack of open modals in document order. In every reachable
  state the topmost modal is the last one of the stack; opening a modal adds it at its place, starting to close one removes
  it at once, showing a new dialog puts it on top, and the end of a closing animation changes nothing.
\<close>

theorem modal_stack_refined:
  assumes "run page_step es (page_start names roots ids) = Some s"
  shows "topOpenModal (els s) = focus_of (opened s) \<and>
    (\<forall>i e. element_of i s = Some e \<and> \<not> is_closing e \<longrightarrow>
       opened (openModalWithAnim i s) = filter (\<lambda>j. j = i \<or> j \<in> set (opened s)) (map el_id (els s))) \<and>
    (\<forall>i cb. opened (closeModalWithAnim i cb s) = removeAll i (opened s)) \<and>
    (\<forall>opts. reused opts s = None \<longrightarrow> opened (dialog_show opts s) = opened s @ [next_id s]) \<and>
    (\<forall>k t. page_step (AnimationOver k) s = Some t \<longrightarrow> opened t = opened s)"
proof (intro conjI allI impI)
  have inv: "page_inv s" by (rule pages.inv_run [OF assms page_start_inv])
  then have st: "struct_ok (next_id s) (map fst (timers s)) (els s)" by (simp add: page_inv_def)
  show "topOpenModal (els s) = focus_of (opened s)" using st by (intro top_focus) (simp add: struct_ok_def)
  show "opened (openModalWithAnim i s) = filter (\<lambda>j. j = i \<or> j \<in> set (opened s)) (map el_id (els s))"
    if "element_of i s = Some e \<and> \<not> is_closing e" for i e
    using that st by (simp add: opened_open)
  show "opened (closeModalWithAnim i cb s) = removeAll i (opened s)" for i cb by (rule opened_close [OF st])
  show "opened (dialog_show opts s) = opened s @ [next_id s]" if "reused opts s = None" for opts
    using that st by (intro opened_show) (auto simp: struct_ok_def)
  show "opened t = opened s" if "page_step (AnimationOver k) s = Some t" for k t
  proof -
    from that have k: "k < length (timers s)"
      and t: "t = animation_over (fst (timers s ! k)) (snd (timers s ! k)) (s\<lparr>timers := take k (timers s) @ drop (Suc k) (timers s)\<rparr>)"
      by (auto split: if_splits)
    have o: "opened (s\<lparr>timers := x\<rparr>) = opened s" for x by (simp add: opened_def)
    have "fst (timers s ! k) \<in> set (map fst (timers s))" using k by simp
    then have "fst (timers s ! k) \<notin> set (opened s)" using st by (force simp: opened_def struct_ok_def isModalOpen_def)
    with st show ?thesis by (simp add: t opened_over o)
  qed
qed

theorem modal_stack_refined_witness:
  "\<exists>s. run page_step sample_dialogs (page_start [''language-modal''] 1 None) = Some s \<and>
     opened (closeModalWithAnim 2 Plain s) = removeAll 2 (opened s) \<and> topOpenModal (els s) = focus_of (opened s) \<and>
     opened s = [1, 2]"
proof -
  define s where "s = the (run page_step sample_dialogs (page_start [''language-modal''] 1 None))"
  have r: "run page_step sample_dialogs (page_start [''language-modal''] 1 None) = Some s"
    unfolding s_def by code_simp
  have "opened s = [1, 2]" unfolding s_def by code_simp
  with r modal_stack_refined [OF r] show ?thesis by blast
qed

end
