(* ===== verification/Router.thy ===== *)
theory Router
  imports Machine
begin

text \<open>
  The page router of the web site (\<open>router.js\<close>, \<open>lib/doc-routes.js\<close> and the routes of
  \<open>main.js\<close>). \<open>renderRoute\<close> is asynchronous: it waits for the leaving animation and for the
  page handler. The model runs it from one wait to the next; navigation may happen at any time in between.
  The handlers are not modelled: a handler may change the page while it runs, and ends with or without a
  cleanup function, or throws.
\<close>

section \<open>Locations and routes\<close>

record url_location =
  pathname :: string
  search :: string
  fragment :: string

definition docURL :: "string \<Rightarrow> string" where
  "docURL slug = (if starts_with ''api/'' slug then ''/'' @ slug else ''/docs/'' @ slug)"

text \<open>\<open>canonicalPageURL\<close>: only the path of the address changes.\<close>

definition canonical_path :: "string \<Rightarrow> string" where
  "canonical_path p =
     (if starts_with ''/docs/api'' p \<and> (drop 9 p = [] \<or> hd (drop 9 p) = CHR ''/'') then ''/api'' @ drop 9 p else p)"

definition canonicalPageURL :: "url_location \<Rightarrow> url_location" where
  "canonicalPageURL l = l\<lparr>pathname := canonical_path (pathname l)\<rparr>"

record route =
  pattern :: string
  handler :: string

definition registerRoute :: "string \<Rightarrow> string \<Rightarrow> route list \<Rightarrow> route list" where
  "registerRoute p h routes = routes @ [\<lparr>pattern = p, handler = h\<rparr>]"

definition site_routes :: "route list" where
  "site_routes = fold (\<lambda>(p, h). registerRoute p h)
     [(''/'', ''renderHome''), (''/api'', ''renderAPI''), (''/api/*'', ''renderAPI''), (''/download'', ''renderDownload''),
      (''/contributors'', ''renderContributors''), (''/docs'', ''renderDocs''), (''/docs/*'', ''renderDocs'')] []"

definition normal_path :: "string \<Rightarrow> string" where
  "normal_path path =
     (let p = or_else path ''/'';
          p = (if starts_with ''/'' p then p else ''/'' @ p)
      in if 1 < length p \<and> ends_with ''/'' p then butlast p else p)"

text \<open>A match: the route and its \<open>splat\<close> parameter, if it has one.\<close>

fun match_from :: "route list \<Rightarrow> string \<Rightarrow> (route \<times> string option) option" where
  "match_from [] p = None"
| "match_from (r # rs) p =
     (if pattern r = p then Some (r, None)
      else if ends_with ''/*'' (pattern r) then
        (let prefix = take (length (pattern r) - 2) (pattern r) in
         if p = prefix then Some (r, Some [])
         else if starts_with (prefix @ ''/'') p then Some (r, Some (drop (length prefix + 1) p))
         else match_from rs p)
      else match_from rs p)"

definition matchRoute :: "route list \<Rightarrow> string \<Rightarrow> (route \<times> string option) option" where
  "matchRoute routes path = match_from routes (normal_path path)"

definition sectionKey :: "string \<Rightarrow> string" where
  "sectionKey path =
     (let p = normal_path path in
      if p = ''/docs'' \<or> starts_with ''/docs/'' p then ''docs''
      else if p = ''/download'' then ''download''
      else if p = ''/api'' \<or> starts_with ''/api/'' p then ''api''
      else if p = ''/contributors'' then ''contributors''
      else if p = ''/'' then ''home''
      else p)"

definition link_active :: "string \<Rightarrow> string \<Rightarrow> bool" where
  "link_active path href \<longleftrightarrow> href = path \<or> (href \<noteq> ''/'' \<and> starts_with href path)"

section \<open>Rendering\<close>

text \<open>A call of a page handler: the handler, the path, the splat and whether the page shell is kept.\<close>

record page_call =
  c_handler :: string
  c_path :: string
  c_splat :: "string option"
  c_soft :: bool

text \<open>Where a render waits: for the leaving animation, or for the handler of the last call.\<close>

datatype phase = Idle | Leaving string "route \<times> string option" | Handling bool

record router =
  location :: url_location
  rendering :: bool
  pendingRender :: bool
  firstRender :: bool
  previousPath :: "string option"
  previousView :: "string option"
  currentCleanup :: "nat option"
  root_filled :: bool
  docs_layout :: bool
  page_class :: string
  waits :: phase
  calls :: "page_call list"
  cleaned :: "nat list"
  active_links :: "string list"

text \<open>The parts of the page that stay: whether it has the root element, and the navigation links.\<close>

record site =
  routes :: "route list"
  has_root :: bool
  nav_links :: "string list"
  view_of :: "string \<Rightarrow> string option"

definition router_start :: "url_location \<Rightarrow> router" where
  "router_start l =
     \<lparr>location = l, rendering = False, pendingRender = False, firstRender = True, previousPath = None, previousView = None,
      currentCleanup = None, root_filled = False, docs_layout = False, page_class = [], waits = Idle, calls = [],
      cleaned = [], active_links = []\<rparr>"

definition find_route :: "site \<Rightarrow> string \<Rightarrow> (route \<times> string option) option" where
  "find_route w path =
     (case matchRoute (routes w) path of Some m \<Rightarrow> Some m | None \<Rightarrow> matchRoute (routes w) ''/'')"

definition is_soft :: "string \<Rightarrow> string option \<Rightarrow> router \<Rightarrow> bool" where
  "is_soft path view s \<longleftrightarrow>
     \<not> firstRender s \<and> previousPath s \<noteq> None \<and> previousView s = view \<and>
     sectionKey (the (previousPath s)) = sectionKey path \<and> sectionKey path \<in> {''docs'', ''api''} \<and> docs_layout s"

text \<open>Marking the links and calling the handler.\<close>

definition call_handler :: "site \<Rightarrow> string \<Rightarrow> route \<times> string option \<Rightarrow> bool \<Rightarrow> router \<Rightarrow> router" where
  "call_handler w path m soft s =
     s\<lparr>active_links := filter (link_active path) (nav_links w),
       calls := calls s @ [\<lparr>c_handler = handler (fst m), c_path = path, c_splat = snd m, c_soft = soft\<rparr>],
       waits := Handling soft\<rparr>"

text \<open>Leaving the old page: its cleanup function runs, once, and the root is emptied.\<close>

definition enter_page :: "site \<Rightarrow> string \<Rightarrow> route \<times> string option \<Rightarrow> router \<Rightarrow> router" where
  "enter_page w path m s =
     call_handler w path m False
       (s\<lparr>firstRender := False,
          cleaned := cleaned s @ (case currentCleanup s of None \<Rightarrow> [] | Some k \<Rightarrow> [k]), currentCleanup := None,
          page_class := [], root_filled := False, docs_layout := False\<rparr>)"

text \<open>
  \<open>renderRoute\<close> up to its first wait. When it returns early, \<open>pendingRender\<close> is not set: nothing has
  run since it was entered.
\<close>

definition start_render :: "site \<Rightarrow> router \<Rightarrow> router" where
  "start_render w s =
     (let s = s\<lparr>rendering := True, location := canonicalPageURL (location s)\<rparr>;
          path = or_else (pathname (location s)) ''/''
      in case (has_root w, find_route w path) of
           (True, Some m) \<Rightarrow>
             (let view = view_of w (search (location s));
                  soft = is_soft path view s;
                  s = s\<lparr>previousPath := Some path, previousView := view\<rparr>
              in if soft then call_handler w path m True s
                 else if \<not> firstRender s \<and> root_filled s then s\<lparr>page_class := ''page-leave'', waits := Leaving path m\<rparr>
                 else enter_page w path m s)
         | _ \<Rightarrow> s\<lparr>rendering := False\<rparr>)"

definition renderRoute :: "site \<Rightarrow> router \<Rightarrow> router" where
  "renderRoute w s = (if rendering s then s\<lparr>pendingRender := True\<rparr> else start_render w s)"

text \<open>The \<open>finally\<close> block.\<close>

definition end_render :: "site \<Rightarrow> router \<Rightarrow> router" where
  "end_render w s =
     (let s = s\<lparr>rendering := False, waits := Idle\<rparr> in
      if pendingRender s then renderRoute w (s\<lparr>pendingRender := False\<rparr>) else s)"

text \<open>The handler returned, perhaps with a cleanup function, which is known by the number of its call.\<close>

definition handler_returned :: "site \<Rightarrow> bool \<Rightarrow> bool \<Rightarrow> router \<Rightarrow> router" where
  "handler_returned w has_cleanup soft s =
     (let s = (if has_cleanup then s\<lparr>currentCleanup := Some (length (calls s) - 1)\<rparr> else s);
          s = (if soft then s else s\<lparr>page_class := ''page-enter''\<rparr>)
      in end_render w s)"

text \<open>\<open>resolve\<close> is the browser's reading of a URL relative to the page.\<close>

definition navigate :: "(string \<Rightarrow> url_location) \<Rightarrow> site \<Rightarrow> string \<Rightarrow> router \<Rightarrow> router" where
  "navigate resolve w path s =
     renderRoute w (s\<lparr>location := resolve (if starts_with ''/'' path then path else ''/'' @ path)\<rparr>)"

text \<open>The click on a link of the site: \<open>None\<close> leaves the click to the browser.\<close>

definition link_click :: "(string \<Rightarrow> url_location) \<Rightarrow> site \<Rightarrow> bool \<Rightarrow> string option \<Rightarrow> router \<Rightarrow> router option" where
  "link_click resolve w modified link_href s =
     (case link_href of
        None \<Rightarrow> None
      | Some h \<Rightarrow>
          if modified \<or> h = [] \<or> starts_with ''http'' h \<or> starts_with ''//'' h \<or> starts_with ''#'' h then None
          else if h \<noteq> pathname (location s) @ search (location s) @ fragment (location s) then Some (navigate resolve w h s)
          else Some (renderRoute w s))"

datatype router_event =
    Ready
  | Navigate string
  | Click bool "string option"
  | PopState url_location
  | Left
  | Returned bool
  | Threw
  | PageChanged bool bool

fun router_step :: "(string \<Rightarrow> url_location) \<Rightarrow> site \<Rightarrow> router_event \<Rightarrow> router \<Rightarrow> router option" where
  "router_step resolve w Ready s = Some (renderRoute w s)"
| "router_step resolve w (Navigate path) s = Some (navigate resolve w path s)"
| "router_step resolve w (Click modified h) s = link_click resolve w modified h s"
| "router_step resolve w (PopState l) s = Some (renderRoute w (s\<lparr>location := l\<rparr>))"
| "router_step resolve w Left s =
     (case waits s of Leaving path m \<Rightarrow> Some (enter_page w path m s) | _ \<Rightarrow> None)"
| "router_step resolve w (Returned c) s =
     (case waits s of Handling soft \<Rightarrow> Some (handler_returned w c soft s) | _ \<Rightarrow> None)"
| "router_step resolve w Threw s = (case waits s of Handling soft \<Rightarrow> Some (end_render w s) | _ \<Rightarrow> None)"
| "router_step resolve w (PageChanged filled layout) s = Some (s\<lparr>root_filled := filled, docs_layout := layout\<rparr>)"

section \<open>The page follows the address\<close>

text \<open>
  The invariant: a render that is running has been called for the address, or another one is due; when none is
  running, none is due. The path shown is the canonical path of the address.
\<close>

definition target_path :: "router \<Rightarrow> string" where
  "target_path s = or_else (canonical_path (pathname (location s))) ''/''"

fun phase_ok :: "site \<Rightarrow> bool \<Rightarrow> string \<Rightarrow> page_call list \<Rightarrow> phase \<Rightarrow> bool" where
  "phase_ok w due p cs Idle = False"
| "phase_ok w due p cs (Leaving path m) \<longleftrightarrow> find_route w path = Some m \<and> (due \<or> path = p)"
| "phase_ok w due p cs (Handling soft) \<longleftrightarrow> cs \<noteq> [] \<and> (due \<or> c_path (last cs) = p)"

definition no_page :: "site \<Rightarrow> router \<Rightarrow> bool" where
  "no_page w s \<longleftrightarrow> \<not> has_root w \<or> find_route w (target_path s) = None"

definition router_inv :: "site \<Rightarrow> router \<Rightarrow> bool" where
  "router_inv w s \<longleftrightarrow>
     (if rendering s then phase_ok w (pendingRender s) (target_path s) (calls s) (waits s)
      else \<not> pendingRender s \<and> waits s = Idle \<and>
           (calls s = [] \<or> no_page w s \<or> c_path (last (calls s)) = target_path s))"

lemma canonical_idem [simp]: "canonical_path (canonical_path p) = canonical_path p"
  by (auto simp: canonical_path_def starts_with_def)

lemma canonical_again [simp]:
  "canonical_path (pathname (canonicalPageURL l)) = canonical_path (pathname l)"
  "pathname (canonicalPageURL l) = canonical_path (pathname l)"
  "search (canonicalPageURL l) = search l"
  by (simp_all add: canonicalPageURL_def)

lemma find_slash: "find_route w path \<noteq> None \<or> find_route w ''/'' = None"
  by (auto simp: find_route_def split: option.splits)

lemma waits_simps [simp]:
  "waits (call_handler w path m soft s) = Handling soft" "waits (enter_page w path m s) = Handling False"
  "rendering (call_handler w path m soft s) = rendering s" "rendering (enter_page w path m s) = rendering s"
  "pendingRender (call_handler w path m soft s) = pendingRender s" "pendingRender (enter_page w path m s) = pendingRender s"
  "location (call_handler w path m soft s) = location s" "location (enter_page w path m s) = location s"
  "calls (call_handler w path m soft s) = calls s @ [\<lparr>c_handler = handler (fst m), c_path = path, c_splat = snd m, c_soft = soft\<rparr>]"
  "calls (enter_page w path m s) = calls s @ [\<lparr>c_handler = handler (fst m), c_path = path, c_splat = snd m, c_soft = False\<rparr>]"
  by (simp_all add: call_handler_def enter_page_def)

lemma target_canonical: "location t = canonicalPageURL (location s) \<Longrightarrow> target_path t = target_path s"
  by (simp add: target_path_def)

text \<open>What a render started now leads to: it ends at once, calls the handler, or waits for the animation.\<close>

lemma start_render_cases [case_names stopped called leaving]:
  obtains "no_page w s" "start_render w s = s\<lparr>rendering := False, location := canonicalPageURL (location s)\<rparr>"
  | m soft where "find_route w (target_path s) = Some m" "rendering (start_render w s)"
      "pendingRender (start_render w s) = pendingRender s"
      "location (start_render w s) = canonicalPageURL (location s)" "waits (start_render w s) = Handling soft"
      "calls (start_render w s) = calls s @ [\<lparr>c_handler = handler (fst m), c_path = target_path s, c_splat = snd m, c_soft = soft\<rparr>]"
  | m where "find_route w (target_path s) = Some m" "rendering (start_render w s)"
      "pendingRender (start_render w s) = pendingRender s"
      "location (start_render w s) = canonicalPageURL (location s)" "waits (start_render w s) = Leaving (target_path s) m"
      "calls (start_render w s) = calls s"
proof (cases "has_root w \<and> find_route w (target_path s) \<noteq> None")
  case False
  then consider "\<not> has_root w" | "has_root w" "find_route w (target_path s) = None" by blast
  then have "start_render w s = s\<lparr>rendering := False, location := canonicalPageURL (location s)\<rparr>"
    by cases (simp_all add: start_render_def Let_def target_path_def)
  moreover have "no_page w s" unfolding no_page_def using False by blast
  ultimately show thesis by (intro that(1))
next
  case True
  then obtain m where m: "has_root w" "find_route w (target_path s) = Some m" by blast
  define view where "view = view_of w (search (location s))"
  define c where "c = s\<lparr>rendering := True, location := canonicalPageURL (location s)\<rparr>"
  define d where "d = c\<lparr>previousPath := Some (target_path s), previousView := view\<rparr>"
  have e: "start_render w s =
    (if is_soft (target_path s) view c then call_handler w (target_path s) m True d
     else if \<not> firstRender d \<and> root_filled d then d\<lparr>page_class := ''page-leave'', waits := Leaving (target_path s) m\<rparr>
     else enter_page w (target_path s) m d)"
    using m by (simp add: start_render_def Let_def target_path_def c_def d_def view_def)
  have d: "rendering d" "pendingRender d = pendingRender s" "location d = canonicalPageURL (location s)" "calls d = calls s"
    by (simp_all add: d_def c_def)
  show thesis
  proof (cases "is_soft (target_path s) view c \<or> firstRender d \<or> \<not> root_filled d")
    case True
    with m d show thesis by (intro that(2) [of m "is_soft (target_path s) view c"]) (auto simp: e)
  next
    case False
    with m d show thesis by (intro that(3) [of m]) (auto simp: e)
  qed
qed


lemma start_render_inv: "\<not> pendingRender s \<Longrightarrow> waits s = Idle \<Longrightarrow> router_inv w (start_render w s)"
  by (cases rule: start_render_cases [of w s]) (simp_all add: router_inv_def target_canonical no_page_def)

lemma renderRoute_inv:
  assumes "router_inv w s"
  shows "router_inv w (renderRoute w (s\<lparr>location := l\<rparr>))"
proof (cases "rendering s")
  case True
  with assms have "phase_ok w True q (calls s) (waits s)" for q
    by (cases "waits s") (auto simp: router_inv_def)
  with True show ?thesis by (simp add: renderRoute_def router_inv_def)
next
  case False
  then have "renderRoute w (s\<lparr>location := l\<rparr>) = start_render w (s\<lparr>location := l\<rparr>)" by (simp add: renderRoute_def)
  moreover have "\<not> pendingRender s" "waits s = Idle" using assms False by (auto simp: router_inv_def)
  ultimately show ?thesis by (simp add: start_render_inv)
qed

lemma end_render_inv:
  assumes "router_inv w s" and "rendering s" and "waits s = Handling soft"
  shows "router_inv w (end_render w s)"
proof (cases "pendingRender s")
  case True
  then have "end_render w s = start_render w (s\<lparr>rendering := False, waits := Idle, pendingRender := False\<rparr>)"
    by (simp add: end_render_def renderRoute_def)
  then show ?thesis by (simp add: start_render_inv)
next
  case False
  with assms show ?thesis by (simp add: end_render_def router_inv_def target_path_def)
qed

lemma handling_rendering: "router_inv w s \<Longrightarrow> waits s = Handling soft \<Longrightarrow> rendering s"
  by (auto simp: router_inv_def split: if_splits)

lemma handler_returned_end:
  "\<exists>t. handler_returned w c soft s = end_render w t \<and> rendering t = rendering s \<and> waits t = waits s \<and> calls t = calls s \<and>
     location t = location s \<and> pendingRender t = pendingRender s"
  by (rule exI [of _ "let s = (if c then s\<lparr>currentCleanup := Some (length (calls s) - 1)\<rparr> else s) in
      (if soft then s else s\<lparr>page_class := ''page-enter''\<rparr>)"]) (simp add: handler_returned_def Let_def)

lemma router_step_inv [step_inv]:
  assumes "router_inv w s" and "router_step resolve w e s = Some t"
  shows "router_inv w t"
proof (cases e)
  case Ready
  with assms renderRoute_inv [of w s "location s"] show ?thesis by auto
next
  case (Navigate path)
  with assms renderRoute_inv show ?thesis by (auto simp: navigate_def)
next
  case (Click modified h)
  with assms renderRoute_inv [of w s "location s"] renderRoute_inv [of w s] show ?thesis
    by (auto simp: navigate_def link_click_def split: option.splits if_splits)
next
  case (PopState l)
  with assms renderRoute_inv show ?thesis by auto
next
  case Left
  with assms obtain path m where "waits s = Leaving path m" and t: "t = enter_page w path m s"
    by (auto split: phase.splits)
  with assms(1) show ?thesis by (auto simp: router_inv_def target_path_def split: if_splits)
next
  case (Returned c)
  with assms obtain soft where "waits s = Handling soft" and t: "t = handler_returned w c soft s"
    by (auto split: phase.splits)
  moreover obtain v where "t = end_render w v" "rendering v = rendering s" "waits v = waits s" "calls v = calls s"
      "location v = location s" "pendingRender v = pendingRender s"
    using handler_returned_end [of w c soft s] t by auto
  moreover have "router_inv w v"
    using assms(1) handling_rendering [OF assms(1)] calculation by (simp add: router_inv_def target_path_def)
  ultimately show ?thesis
    using handling_rendering [OF assms(1)] end_render_inv [of w v soft] by simp
next
  case Threw
  with assms obtain soft where "waits s = Handling soft" and "t = end_render w s"
    by (auto split: phase.splits)
  with handling_rendering [OF assms(1)] end_render_inv [OF assms(1)] show ?thesis by simp
next
  case (PageChanged filled layout)
  with assms show ?thesis by (auto simp: router_inv_def target_path_def no_page_def)
qed

interpretation rm: machine "router_step resolve w" "router_inv w" for resolve w
  by unfold_locales (rule router_step_inv)

section \<open>Navigation settles\<close>

text \<open>The events that complete a wait of a render, and how many of them a render may still need.\<close>

fun completes :: "router_event \<Rightarrow> bool" where
  "completes Left = True"
| "completes (Returned c) = True"
| "completes Threw = True"
| "completes e = False"

definition complete_step ::
  "(string \<Rightarrow> url_location) \<Rightarrow> site \<Rightarrow> router_event \<Rightarrow> router \<Rightarrow> router option" where
  "complete_step resolve w e s = (if completes e then router_step resolve w e s else None)"

definition waits_left :: "router \<Rightarrow> nat" where
  "waits_left s = (if rendering s then (case waits s of Idle \<Rightarrow> 0 | Handling soft \<Rightarrow> 1 | Leaving path m \<Rightarrow> 2) else 0) +
     (if pendingRender s then 2 else 0)"

lemma start_render_left: "\<not> pendingRender s \<Longrightarrow> waits_left (start_render w s) \<le> 2"
  by (cases rule: start_render_cases [of w s]) (simp_all add: waits_left_def)

lemma end_render_left:
  assumes "rendering s" and "waits s = Handling soft"
  shows "waits_left (end_render w s) < waits_left s"
proof (cases "pendingRender s")
  case True
  then have "end_render w s = start_render w (s\<lparr>rendering := False, waits := Idle, pendingRender := False\<rparr>)"
    by (simp add: end_render_def renderRoute_def)
  with True assms start_render_left [of "s\<lparr>rendering := False, waits := Idle, pendingRender := False\<rparr>" w]
  show ?thesis by (simp add: waits_left_def)
next
  case False
  with assms show ?thesis by (simp add: end_render_def waits_left_def)
qed

lemma complete_step_left:
  assumes "router_inv w s" and "complete_step resolve w e s = Some t"
  shows "waits_left t < waits_left s"
proof (cases e)
  case Left
  with assms show ?thesis
    by (auto simp: complete_step_def waits_left_def router_inv_def split: phase.splits if_splits)
next
  case (Returned c)
  with assms obtain soft where h: "waits s = Handling soft" and t: "t = handler_returned w c soft s"
    by (auto simp: complete_step_def split: phase.splits)
  obtain v where v: "t = end_render w v" "rendering v = rendering s" "waits v = waits s" "pendingRender v = pendingRender s"
    using handler_returned_end [of w c soft s] t by auto
  then have "waits_left v = waits_left s" by (simp add: waits_left_def)
  with v h handling_rendering [OF assms(1) h] end_render_left [of v soft w] show ?thesis by simp
next
  case Threw
  with assms show ?thesis
    using handling_rendering [OF assms(1)] by (auto simp: complete_step_def end_render_left split: phase.splits)
qed (use assms in \<open>simp_all add: complete_step_def\<close>)

interpretation cm: ranked_machine "complete_step resolve w" "router_inv w" "\<lambda>e. True" waits_left for resolve w
proof unfold_locales
  fix s e t
  assume s: "router_inv w s" "complete_step resolve w e s = Some t"
  then show "router_inv w t" by (auto simp: complete_step_def intro: router_step_inv split: if_splits)
  show "waits_left t < waits_left s" and "waits_left t \<le> waits_left s"
    using complete_step_left [OF s] by simp_all
qed

text \<open>A render that is running waits for something, so an event completes it.\<close>

lemma rendering_progress:
  assumes "router_inv w s" and "rendering s"
  shows "\<exists>e t. complete_step resolve w e s = Some t"
proof (cases "waits s")
  case Idle
  with assms show ?thesis by (simp add: router_inv_def)
next
  case (Leaving path m)
  then have "complete_step resolve w Left s = Some (enter_page w path m s)" by (simp add: complete_step_def)
  then show ?thesis by blast
next
  case (Handling soft)
  then have "complete_step resolve w Threw s = Some (end_render w s)" by (simp add: complete_step_def)
  then show ?thesis by blast
qed

lemma settles: "router_inv w s \<Longrightarrow> \<exists>es t. run (complete_step resolve w) es s = Some t \<and> \<not> rendering t"
proof (induction "waits_left s" arbitrary: s rule: less_induct)
  case less
  show ?case
  proof (cases "rendering s")
    case True
    with rendering_progress [OF less.prems] obtain e u where u: "complete_step resolve w e s = Some u" by blast
    with less.prems have "router_inv w u" by (rule cm.inv_exec)
    with less.hyps [OF complete_step_left [OF less.prems u]]
    obtain es t where "run (complete_step resolve w) es u = Some t" "\<not> rendering t" by blast
    with u have "run (complete_step resolve w) (e # es) s = Some t" by simp
    with \<open>\<not> rendering t\<close> show ?thesis by blast
  next
    case False
    then show ?thesis by (intro exI [of _ "[]"] exI [of _ s]) simp
  qed
qed

lemma router_start_inv: "router_inv w (router_start l)"
  by (simp add: router_inv_def router_start_def)

text \<open>
  C13: the page follows the address. However navigations, history moves, animations and page handlers interleave:
  while no render is running, the handler called last was called for the canonical path of the address (unless
  the page has no root or no route, or nothing was shown yet); and a running render always ends when its animation and
  handlers do: some event it waits for is always possible, at most four of them bring the router to rest, and
  it can come to rest from every state.
\<close>

theorem router_settles_on_address:
  assumes "run (router_step resolve w) es (router_start l) = Some s"
  shows "(\<not> rendering s \<longrightarrow> calls s = [] \<or> no_page w s \<or> c_path (last (calls s)) = target_path s) \<and>
    (rendering s \<longrightarrow> (\<exists>e t. complete_step resolve w e s = Some t)) \<and>
    (\<forall>cs t. run (complete_step resolve w) cs s = Some t \<longrightarrow> length cs \<le> 4) \<and>
    (\<exists>cs t. run (complete_step resolve w) cs s = Some t \<and> \<not> rendering t)"
proof -
  have inv: "router_inv w s" by (rule rm.inv_run [OF assms router_start_inv])
  have "length cs \<le> 4" if "run (complete_step resolve w) cs s = Some t" for cs t
  proof -
    have "length cs \<le> waits_left s" using cm.work_bounded [OF that inv] by simp
    also have "\<dots> \<le> 4" by (simp add: waits_left_def split: phase.splits)
    finally show ?thesis .
  qed
  moreover have "\<not> rendering s \<longrightarrow> calls s = [] \<or> no_page w s \<or> c_path (last (calls s)) = target_path s"
    using inv by (simp add: router_inv_def)
  ultimately show ?thesis using rendering_progress [OF inv] settles [OF inv] by blast
qed

definition sample_site :: site where
  "sample_site = \<lparr>routes = site_routes, has_root = True, nav_links = [''/'', ''/docs''], view_of = (\<lambda>q. None)\<rparr>"

definition at :: "string \<Rightarrow> url_location" where
  "at p = \<lparr>pathname = p, search = [], fragment = []\<rparr>"

text \<open>Two navigations while the first page is still being rendered.\<close>

definition sample_browsing :: "router_event list" where
  "sample_browsing = [Ready, Navigate ''docs/intro'', Navigate ''/docs/api/start'', PageChanged True False, Returned True, Left,
     Returned False]"

theorem router_settles_on_address_witness:
  "\<exists>s. run (router_step at sample_site) sample_browsing (router_start (at ''/'')) = Some s \<and> \<not> rendering s \<and>
     c_path (last (calls s)) = ''/api/start'' \<and> cleaned s = [0] \<and>
     (\<exists>cs t. run (complete_step at sample_site) cs s = Some t \<and> \<not> rendering t)"
proof -
  define s where "s = the (run (router_step at sample_site) sample_browsing (router_start (at ''/'')))"
  have r: "run (router_step at sample_site) sample_browsing (router_start (at ''/'')) = Some s"
    unfolding s_def by code_simp
  have "\<not> rendering s" "c_path (last (calls s)) = ''/api/start''" "cleaned s = [0]"
    unfolding s_def by code_simp+
  with r router_settles_on_address [OF r] show ?thesis by blast
qed

end
