(* ===== verification/Update_Package.thy ===== *)
theory Update_Package
  imports Prelude "HOL-Library.AList"
begin

text \<open>
  Update packages on the web site: \<open>lib/update-package.js\<close>, the worker
  \<open>workers/update-package-worker.js\<close> and \<open>lib/brotli-zip.js\<close>. A package is downloaded, in
  parts when the host supports ranges, checked against its SHA-256 digest, decompressed and packed as a ZIP
  archive. The digest, the Brotli decoder and the ZIP writer are not part of the sources and are parameters.
  An error is its message. The memory of the device is in gigabytes, rounded up, which the comparisons of
  the code cannot tell from the exact amount; \<open>None\<close> stands for a value that is not a number.
\<close>

definition minParallelPartSize :: int where "minParallelPartSize = 8 * 2 ^ 20"
definition maxDownloadWorkers :: int where "maxDownloadWorkers = 4"
definition maxUpdatePackageSize :: int where "maxUpdatePackageSize = 2 * 1024 * 1024 * 1024"
definition maxUpdateExecutableSize :: int where "maxUpdateExecutableSize = 512 * 1024 * 1024"

record update_target =
  t_format :: "string option"
  t_packageFormat :: "string option"
  t_file :: "string option"

definition opt_text :: "string option \<Rightarrow> string" where
  "opt_text v = (case v of None \<Rightarrow> [] | Some s \<Rightarrow> s)"

definition isBrotliUpdateTarget :: "update_target option \<Rightarrow> bool" where
  "isBrotliUpdateTarget t =
     (case t of
        None \<Rightarrow> False
      | Some t \<Rightarrow> to_lower (or_else (opt_text (t_format t)) (opt_text (t_packageFormat t))) = ''brotli'' \<or>
                  ends_with ''.br'' (to_lower (opt_text (t_file t))))"

text \<open>\<open>Number(v) || d\<close>\<close>

definition number_or :: "int \<Rightarrow> int option \<Rightarrow> int" where
  "number_or d v = (case v of None \<Rightarrow> d | Some n \<Rightarrow> if n = 0 then d else n)"

definition int_ceil_div :: "int \<Rightarrow> int \<Rightarrow> int" where
  "int_ceil_div a b = - ((- a) div b)"

definition chooseUpdateDownloadWorkers :: "int option \<Rightarrow> int option \<Rightarrow> int option \<Rightarrow> int" where
  "chooseUpdateDownloadWorkers sz hardwareConcurrency deviceMemory =
     (let sizeWorkers = max 1 (int_ceil_div (max 0 (number_or 0 sz)) minParallelPartSize);
          cpus = number_or 1 hardwareConcurrency - 1;
          cpuWorkers = max 1 (min maxDownloadWorkers (if cpus = 0 then 1 else cpus));
          memoryWorkers = (case deviceMemory of
              None \<Rightarrow> maxDownloadWorkers
            | Some m \<Rightarrow> if m \<le> 2 then 1 else if m \<le> 4 then 2 else maxDownloadWorkers)
      in max 1 (min (min maxDownloadWorkers sizeWorkers) (min cpuWorkers memoryWorkers)))"

definition legacyZipFilename :: "string option \<Rightarrow> string" where
  "legacyZipFilename filename =
     (let name = or_else (opt_text filename) ''renop-update.br'' in
      if ends_with ''.br'' (to_lower name) then take (length name - 3) name @ ''.zip'' else name @ ''.zip'')"

section \<open>The worker\<close>

text \<open>
  A response as the worker sees it: \<open>None\<close> for a body without a stream, which is read whole; otherwise the
  chunks of the stream and whether it ends without an error.
\<close>

record worker_response =
  w_status :: nat
  w_length :: "int option"
  w_stream :: "(string list \<times> bool) option"
  w_whole :: string

definition w_ok :: "worker_response \<Rightarrow> bool" where
  "w_ok r \<longleftrightarrow> 200 \<le> w_status r \<and> w_status r < 300"

text \<open>Reading the stream: the progress reported and the bytes, or an error. \<open>expected\<close> is zero when it is not known.\<close>

fun read_stream :: "int \<Rightarrow> string \<Rightarrow> string list \<Rightarrow> bool \<Rightarrow> nat list \<times> (string + string)" where
  "read_stream expected received [] ends =
     ([], if \<not> ends then Inl ''stream_failed''
          else if expected > 0 \<and> int (length received) \<noteq> expected then Inl ''download_size_mismatch''
          else Inr received)"
| "read_stream expected received (c # cs) ends =
     (if c = [] then read_stream expected received cs ends
      else if expected > 0 \<and> int (length received + length c) > expected then ([], Inl ''download_size_mismatch'')
      else if int (length received + length c) > maxUpdatePackageSize then ([], Inl ''package_too_large'')
      else (let (ps, r) = read_stream expected (received @ c) cs ends in (length c # ps, r)))"

definition readResponseBytes :: "worker_response \<Rightarrow> nat list \<times> (string + string)" where
  "readResponseBytes r =
     (case w_stream r of
        None \<Rightarrow> ([], Inr (w_whole r))
      | Some (chunks, ends) \<Rightarrow>
          (let expected = number_or 0 (w_length r) in
           if expected > maxUpdatePackageSize then ([], Inl ''package_too_large'')
           else read_stream expected [] chunks ends))"

text \<open>The byte range of a job, if it has one; \<open>fetch\<close> is the network (\<open>None\<close> when the request fails).\<close>

type_synonym network = "(nat \<times> nat) option \<Rightarrow> worker_response option"

definition worker_download :: "network \<Rightarrow> (nat \<times> nat) option \<Rightarrow> nat list \<times> (string + string)" where
  "worker_download fetch part =
     (case fetch part of
        None \<Rightarrow> ([], Inl ''Failed to fetch'')
      | Some r \<Rightarrow>
          if \<not> w_ok r \<or> (part \<noteq> None \<and> w_status r \<noteq> 206)
          then ([], Inl (if part \<noteq> None \<and> w_status r = 200 then ''range_unsupported'' else ''download_http_'' @ show_nat (w_status r)))
          else readResponseBytes r)"

text \<open>
  An entry of the archive: its name, content and, for an executable of a Unix system, its attributes. The entries are the
  object literal \<open>{[executableName]: entry, ...additionalFiles}\<close>: a later entry of the same name replaces the earlier one
  in its place.
\<close>

type_synonym zip_entry = "string \<times> string \<times> (nat \<times> int) option"

definition archive_entries :: "zip_entry list \<Rightarrow> (string \<times> string) list \<Rightarrow> zip_entry list" where
  "archive_entries entries additionalFiles = fold (\<lambda>(n, b). AList.update n (b, None)) additionalFiles entries"

definition brotliExecutableToZip ::
  "(string \<Rightarrow> string option) \<Rightarrow> (zip_entry list \<Rightarrow> string) \<Rightarrow> string \<Rightarrow> string \<Rightarrow> int \<Rightarrow> (string \<times> string) list \<Rightarrow> string + string" where
  "brotliExecutableToZip decompress zipSync compressed executableName expectedSize additionalFiles =
     (case decompress compressed of
        None \<Rightarrow> Inl ''decompress_failed''
      | Some executable \<Rightarrow>
          if expectedSize > 0 \<and> int (length executable) \<noteq> expectedSize then Inl ''uncompressed_size_mismatch''
          else (let windows = ends_with ''.exe'' (to_lower executableName);
                    attributes = (if windows then None else Some (3, 493 * 2 ^ 16))
                in Inr (zipSync (archive_entries [(executableName, executable, attributes)] additionalFiles))))"

definition legalNames :: "string list" where
  "legalNames = [''LICENSE'', ''README.md'', ''THIRD_PARTY_NOTICES.md'']"

text \<open>The documents that go with a release: a status and content for each name.\<close>

fun legal_entries :: "(string \<Rightarrow> (nat \<times> string) option) \<Rightarrow> string list \<Rightarrow> (string \<times> string) list option" where
  "legal_entries fetch [] = Some []"
| "legal_entries fetch (n # ns) =
     (case fetch n of
        None \<Rightarrow> None
      | Some (st, b) \<Rightarrow> if 200 \<le> st \<and> st < 300 then map_option ((#) (n, b)) (legal_entries fetch ns) else None)"

definition worker_convert ::
  "(string \<Rightarrow> string option) \<Rightarrow> (zip_entry list \<Rightarrow> string) \<Rightarrow> (string \<Rightarrow> (nat \<times> string) option) \<Rightarrow> string \<Rightarrow> string \<Rightarrow> int \<Rightarrow> string + string" where
  "worker_convert decompress zipSync documents compressed executableName expectedSize =
     (case legal_entries documents legalNames of
        None \<Rightarrow> Inl ''release_document_unavailable''
      | Some es \<Rightarrow> brotliExecutableToZip decompress zipSync compressed executableName expectedSize es)"

section \<open>The page\<close>

text \<open>
  What arrives from a worker. \<open>runWorkerJob\<close> ignores messages of other jobs, hands on the progress and settles
  with the first other message; it never settles when there is none.
\<close>

datatype worker_message =
    Progress string nat
  | ErrorMessage string string
  | DataMessage string "string option"
  | WorkerCrash string

fun runWorkerJob :: "string \<Rightarrow> worker_message list \<Rightarrow> nat list \<times> (string + string) option" where
  "runWorkerJob job [] = ([], None)"
| "runWorkerJob job (Progress j d # ms) =
     (if j \<noteq> job then runWorkerJob job ms else (let (ps, r) = runWorkerJob job ms in (d # ps, r)))"
| "runWorkerJob job (ErrorMessage j e # ms) =
     (if j \<noteq> job then runWorkerJob job ms else ([], Some (Inl (or_else e ''worker_failed''))))"
| "runWorkerJob job (DataMessage j d # ms) =
     (if j \<noteq> job then runWorkerJob job ms
      else ([], Some (case d of None \<Rightarrow> Inl ''invalid_worker_response'' | Some b \<Rightarrow> Inr b)))"
| "runWorkerJob job (WorkerCrash e # ms) = ([], Some (Inl (or_else e ''worker_failed'')))"

text \<open>The messages a worker posts for a result.\<close>

definition posted :: "string \<Rightarrow> nat list \<times> (string + string) \<Rightarrow> worker_message list" where
  "posted job r = map (Progress job) (fst r) @ [case snd r of Inl e \<Rightarrow> ErrorMessage job e | Inr b \<Rightarrow> DataMessage job (Some b)]"

definition job_result :: "string \<Rightarrow> nat list \<times> (string + string) \<Rightarrow> string + string" where
  "job_result job r = the (snd (runWorkerJob job (posted job r)))"

fun ranges_from :: "nat \<Rightarrow> nat \<Rightarrow> nat \<Rightarrow> nat \<Rightarrow> (nat \<times> nat) list" where
  "ranges_from sz partSize index 0 = []"
| "ranges_from sz partSize index (Suc left) =
     (let start = index * partSize in
      if start \<ge> sz then []
      else (start, min (sz - 1) (start + partSize - 1)) # ranges_from sz partSize (Suc index) left)"

definition byteRanges :: "nat \<Rightarrow> nat \<Rightarrow> (nat \<times> nat) list" where
  "byteRanges sz workers = ranges_from sz (ceil_div sz workers) 0 workers"

text \<open>
  The parts: all of them, or the error of the part that failed first; \<open>order\<close> is the order in which the
  jobs end, as far as it matters.
\<close>

definition all_parts :: "nat list \<Rightarrow> (string + string) list \<Rightarrow> string + string list" where
  "all_parts order rs =
     (if list_all (\<lambda>r. \<not> isl r) rs then Inr (map projr rs)
      else Inl (projl (hd (filter isl (map (\<lambda>i. rs ! i) (filter (\<lambda>i. i < length rs) order) @ rs)))))"

text \<open>\<open>output.set(part, offset)\<close> for each part in turn.\<close>

fun place_parts :: "string \<Rightarrow> nat \<Rightarrow> string list \<Rightarrow> string" where
  "place_parts output offset [] = output"
| "place_parts output offset (p # ps) =
     place_parts (take offset output @ p @ drop (offset + length p) output) (offset + length p) ps"

text \<open>The size at the end of a \<open>Content-Range\<close> header: \<open>/\\/(\\d+)$/\<close>.\<close>

definition range_total :: "string \<Rightarrow> nat option" where
  "range_total h = (case last_index_of CHR ''/'' h of None \<Rightarrow> None | Some i \<Rightarrow> read_nat (drop (i + 1) h))"

text \<open>The answer to the request for the first byte: its status and its \<open>Content-Range\<close>.\<close>

type_synonym probe = "(nat \<times> string) option"

definition range_job :: "nat \<Rightarrow> string" where
  "range_job i = ''range-'' @ show_nat i"

definition downloadPackage ::
  "network \<Rightarrow> probe \<Rightarrow> nat list \<Rightarrow> int option \<Rightarrow> int option \<Rightarrow> int option \<Rightarrow> string + string" where
  "downloadPackage fetch probe order hardwareConcurrency deviceMemory declaredSize =
     (let sz = max 0 (number_or 0 declaredSize) in
      if sz > maxUpdatePackageSize then Inl ''package_too_large''
      else
        (let workerCount = chooseUpdateDownloadWorkers (Some sz) hardwareConcurrency deviceMemory in
         if workerCount > 1 \<and> sz > 0 then
           (case probe of
              None \<Rightarrow> Inl ''Failed to fetch''
            | Some (st, contentRange) \<Rightarrow>
                if st = 206 then
                  (let total = (case range_total contentRange of
                       Some n \<Rightarrow> if n > 0 then n else nat sz | None \<Rightarrow> nat sz)
                   in case all_parts order
                        (map (\<lambda>(i, r). job_result (range_job i) (worker_download fetch (Some r)))
                          (zip [0..<length (byteRanges total (nat workerCount))] (byteRanges total (nat workerCount)))) of
                        Inl e \<Rightarrow> Inl e
                      | Inr parts \<Rightarrow>
                          (let output = place_parts (replicate (sum_list (map length parts)) (CHR 0x00)) 0 parts in
                           if length output \<noteq> total then Inl ''download_size_mismatch'' else Inr output))
                else if \<not> (200 \<le> st \<and> st < 300) then Inl (''download_http_'' @ show_nat st)
                else job_result ''complete-fallback'' (worker_download fetch None))
         else job_result ''complete'' (worker_download fetch None)))"

definition lower_hex :: "nat \<Rightarrow> char" where
  "lower_hex n = (if n < 10 then char_of (48 + n) else char_of (87 + n))"

definition hex_bytes :: "string \<Rightarrow> string" where
  "hex_bytes bs = concat (map (\<lambda>b. [lower_hex (of_char b div 16), lower_hex (of_char b mod 16)]) bs)"

definition is_lower_hex :: "char \<Rightarrow> bool" where
  "is_lower_hex c \<longleftrightarrow> (let n = (of_char c :: nat) in 48 \<le> n \<and> n \<le> 57 \<or> 97 \<le> n \<and> n \<le> 102)"

definition verifySHA256 :: "(string \<Rightarrow> string) \<Rightarrow> string \<Rightarrow> string option \<Rightarrow> bool" where
  "verifySHA256 sha256 bytes expectedHex =
     (let expected = to_lower (js_trim (opt_text expectedHex)) in
      if length expected \<noteq> 64 \<or> \<not> list_all is_lower_hex expected then False
      else hex_bytes (sha256 bytes) = expected)"

record update_options =
  u_size :: "int option"
  u_uncompressedSize :: "int option"
  u_sha256 :: "string option"
  u_executableName :: string
  u_filename :: "string option"

definition convertBrotliUpdateToZip ::
  "(string \<Rightarrow> string) \<Rightarrow> (string \<Rightarrow> string option) \<Rightarrow> (zip_entry list \<Rightarrow> string) \<Rightarrow> (string \<Rightarrow> (nat \<times> string) option) \<Rightarrow>
   (int option \<Rightarrow> string + string) \<Rightarrow> update_options \<Rightarrow> string + string \<times> string" where
  "convertBrotliUpdateToZip sha256 decompress zipSync documents download options =
     (let expectedSize = number_or 0 (u_uncompressedSize options) in
      if expectedSize \<le> 0 \<or> expectedSize > maxUpdateExecutableSize then Inl ''invalid_uncompressed_size''
      else (case download (Some (number_or 0 (u_size options))) of
              Inl e \<Rightarrow> Inl e
            | Inr compressed \<Rightarrow>
                if \<not> verifySHA256 sha256 compressed (u_sha256 options) then Inl ''integrity_failed''
                else (case worker_convert decompress zipSync documents compressed (u_executableName options) expectedSize of
                        Inl e \<Rightarrow> Inl e
                      | Inr archive \<Rightarrow> Inr (archive, legacyZipFilename (u_filename options)))))"

section \<open>The plan of a download\<close>

text \<open>The bytes of an inclusive range.\<close>

definition in_range :: "string \<Rightarrow> nat \<times> nat \<Rightarrow> string" where
  "in_range file r = slice (fst r) (Suc (snd r)) file"

lemma slice_join: "i \<le> j \<Longrightarrow> j \<le> k \<Longrightarrow> slice i j xs @ slice j k xs = slice i k xs"
proof -
  assume "i \<le> j" "j \<le> k"
  then obtain a b where "j = i + a" "k = i + a + b" by (metis le_Suc_ex)
  then show ?thesis by (simp add: slice_def take_add drop_drop add.commute)
qed

lemma ranges_from_spec:
  assumes "0 < p" and "n \<le> (i + left) * p"
  shows "concat (map (in_range file) (ranges_from n p i left)) = slice (i * p) n file \<and>
    length (ranges_from n p i left) \<le> left \<and> (\<forall>(a, b)\<in>set (ranges_from n p i left). a \<le> b \<and> b < n)"
  using assms
proof (induction left arbitrary: i)
  case 0
  then show ?case by (simp add: slice_def)
next
  case (Suc left)
  show ?case
  proof (cases "n \<le> i * p")
    case True
    then show ?thesis by (simp add: slice_def Let_def)
  next
    case False
    define b where "b = min (n - 1) (i * p + p - 1)"
    have b: "Suc b = min n (i * p + p)" "i * p \<le> b" "b < n" using False Suc.prems(1) by (auto simp: b_def)
    have IH: "concat (map (in_range file) (ranges_from n p (Suc i) left)) = slice (Suc i * p) n file \<and>
      length (ranges_from n p (Suc i) left) \<le> left \<and> (\<forall>(a, b)\<in>set (ranges_from n p (Suc i) left). a \<le> b \<and> b < n)"
      by (rule Suc.IH) (use Suc.prems in \<open>simp_all add: algebra_simps\<close>)
    have j: "slice (i * p) (min n (i * p + p)) file @ slice (Suc i * p) n file = slice (i * p) n file"
      using False slice_join [of "i * p" "min n (i * p + p)" n "file"]
      by (cases "n \<le> i * p + p") (simp_all add: slice_def add.commute)
    have r: "ranges_from n p i (Suc left) = (i * p, b) # ranges_from n p (Suc i) left"
      using False by (simp add: Let_def b_def)
    have f: "in_range file (i * p, b) = slice (i * p) (min n (i * p + p)) file"
      using b(1) by (simp add: in_range_def)
    show ?thesis using IH b(2,3) unfolding r list.map concat.simps f by (simp only: j) simp
  qed
qed

lemma workers_bounds: "1 \<le> chooseUpdateDownloadWorkers sz hw mem \<and> chooseUpdateDownloadWorkers sz hw mem \<le> 4"
proof -
  have "1 \<le> max 1 (min (min 4 a) (min b c)) \<and> max 1 (min (min 4 a) (min b c)) \<le> 4" for a b c :: int
    by (simp only: le_max_iff_disj min_le_iff_disj max.bounded_iff) simp
  then show ?thesis unfolding chooseUpdateDownloadWorkers_def Let_def maxDownloadWorkers_def .
qed

lemma byteRanges_spec:
  assumes "0 < n" and "0 < k"
  shows "concat (map (in_range file) (byteRanges n k)) = take n file \<and> length (byteRanges n k) \<le> k \<and>
    (\<forall>(a, b)\<in>set (byteRanges n k). a \<le> b \<and> b < n)"
  using ranges_from_spec [of "ceil_div n k" n 0 k "file"] assms ceil_div_bound [of k n] ceil_div_pos [of k n]
  by (simp add: byteRanges_def slice_def mult.commute)

text \<open>
  a package is split into one to four parts that cover it exactly. For every size, processor count and memory the
  number of workers is between one and four; their ranges lie within the file, none is empty, there are at most as
  many as workers, and put together in order they are the file.
\<close>

theorem download_plan_exact:
  assumes "0 < length file" and "k = chooseUpdateDownloadWorkers sz hw mem"
  shows "1 \<le> k \<and> k \<le> 4 \<and> concat (map (in_range file) (byteRanges (length file) (nat k))) = file \<and>
    length (byteRanges (length file) (nat k)) \<le> nat k \<and>
    (\<forall>(a, b)\<in>set (byteRanges (length file) (nat k)). a \<le> b \<and> b < length file)"
  using workers_bounds [of sz hw mem] byteRanges_spec [of "length file" "nat k" "file"] assms by simp

theorem download_plan_exact_witness:
  "concat (map (in_range ''0123456789'') (byteRanges 10 4)) = ''0123456789'' \<and>
   byteRanges 10 4 = [(0, 2), (3, 5), (6, 8), (9, 9)]"
proof -
  have w: "4 = chooseUpdateDownloadWorkers (Some (100 * 2 ^ 20)) (Some 8) (Some 8)"
    by code_simp
  have l: "length ''0123456789'' = 10" by simp
  have "concat (map (in_range ''0123456789'') (byteRanges 10 4)) = ''0123456789''"
    using download_plan_exact [OF _ w, of "''0123456789''"] unfolding l by simp
  moreover have "byteRanges 10 4 = [(0, 2), (3, 5), (6, 8), (9, 9)]" by code_simp
  ultimately show ?thesis by simp
qed

section \<open>The assembled package\<close>

lemma posted_result [simp]: "job_result job r = (case snd r of Inl e \<Rightarrow> Inl (or_else e ''worker_failed'') | Inr b \<Rightarrow> Inr b)"
proof -
  have "snd (runWorkerJob job (map (Progress job) ps @ ms)) = snd (runWorkerJob job ms)" for ps ms
    by (induction ps) (simp_all add: case_prod_beta)
  then show ?thesis by (simp add: job_result_def posted_def split: sum.split)
qed

lemma read_stream_Inr:
  "snd (read_stream expected received cs ends) = Inr b \<Longrightarrow>
   b = received @ concat cs \<and> ends \<and> (expected > 0 \<longrightarrow> int (length b) = expected) \<and>
   (int (length received) \<le> maxUpdatePackageSize \<longrightarrow> int (length b) \<le> maxUpdatePackageSize)"
proof (induction cs arbitrary: received)
  case (Cons c cs)
  show ?case
  proof (cases "c = []")
    case True
    with Cons.prems have "snd (read_stream expected received cs ends) = Inr b" by simp
    from Cons.IH [OF this] show ?thesis unfolding True concat.simps append_Nil .
  next
    case False
    with Cons.prems have r: "snd (read_stream expected (received @ c) cs ends) = Inr b"
      and "int (length (received @ c)) \<le> maxUpdatePackageSize"
      by (simp_all add: case_prod_beta split: if_splits)
    with Cons.IH [OF r] show ?thesis unfolding concat.simps append_assoc by blast
  qed
qed (auto split: if_splits)

lemma place_parts_eq: "place_parts (pre @ replicate (sum_list (map length ps)) z @ post) (length pre) ps = pre @ concat ps @ post"
proof (induction ps arbitrary: pre)
  case (Cons p ps)
  have "take (length pre) (pre @ replicate (length p + n) z @ post) @ p @ drop (length pre + length p) (pre @ replicate (length p + n) z @ post) =
    (pre @ p) @ replicate n z @ post" for n
    by (simp add: replicate_add)
  with Cons [of "pre @ p"] show ?case by simp
qed simp

lemma place_parts_all: "place_parts (replicate (sum_list (map length ps)) z) 0 ps = concat ps"
  using place_parts_eq [of "[]" ps z "[]"] by simp

text \<open>
  A host that serves a file: a range is answered with 206 and these bytes, in any chunks or without a stream, with or
  without a \<open>Content-Length\<close>, which is then the length of the range.
\<close>

definition serves :: "network \<Rightarrow> string \<Rightarrow> bool" where
  "serves fetch file \<longleftrightarrow>
     (\<forall>a b. a \<le> b \<and> b < length file \<longrightarrow> (\<exists>r. fetch (Some (a, b)) = Some r \<and> w_status r = 206 \<and>
        (w_stream r = None \<and> w_whole r = in_range file (a, b) \<or>
         (\<exists>cs. w_stream r = Some (cs, True) \<and> concat cs = in_range file (a, b))) \<and>
        (w_length r = None \<or> w_length r = Some (int (Suc b - a)))))"

lemma read_stream_all:
  "int (length received + length (concat cs)) \<le> maxUpdatePackageSize \<Longrightarrow>
   expected \<le> 0 \<or> expected = int (length received + length (concat cs)) \<Longrightarrow>
   snd (read_stream expected received cs True) = Inr (received @ concat cs)"
  by (induction cs arbitrary: received) (auto simp: case_prod_beta)

lemma served_part:
  assumes "serves fetch file" and "a \<le> b" and "b < length file" and "int (length file) \<le> maxUpdatePackageSize"
  shows "snd (worker_download fetch (Some (a, b))) = Inr (in_range file (a, b))"
proof -
  obtain r where r: "fetch (Some (a, b)) = Some r" "w_status r = 206"
      "w_stream r = None \<and> w_whole r = in_range file (a, b) \<or> (\<exists>cs. w_stream r = Some (cs, True) \<and> concat cs = in_range file (a, b))"
      "w_length r = None \<or> w_length r = Some (int (Suc b - a))"
    using assms(1-3) unfolding serves_def by blast
  have l: "length (in_range file (a, b)) = Suc b - a" "Suc b - a \<le> length file" using assms(3) by (simp_all add: in_range_def slice_def)
  have e: "number_or 0 (w_length r) \<le> 0 \<or> number_or 0 (w_length r) = int (Suc b - a)" "number_or 0 (w_length r) \<le> maxUpdatePackageSize"
    using r(4) l assms(2,4) by (auto simp: number_or_def maxUpdatePackageSize_def)
  have "snd (readResponseBytes r) = Inr (in_range file (a, b))"
    using r(3)
  proof
    assume "\<exists>cs. w_stream r = Some (cs, True) \<and> concat cs = in_range file (a, b)"
    then obtain cs where cs: "w_stream r = Some (cs, True)" "concat cs = in_range file (a, b)" by blast
    then have "snd (read_stream (number_or 0 (w_length r)) [] cs True) = Inr ([] @ concat cs)"
      using e l assms(4) by (intro read_stream_all) simp_all
    then show ?thesis using cs e(2) by (simp add: readResponseBytes_def)
  qed (simp add: readResponseBytes_def)
  with r(1,2) show ?thesis by (simp add: worker_download_def w_ok_def)
qed

lemma all_parts_Inr: "(\<And>r. r \<in> set rs \<Longrightarrow> \<not> isl r) \<Longrightarrow> all_parts order rs = Inr (map projr rs)"
  by (simp add: all_parts_def list_all_iff)

text \<open>
  C27: a parallel download yields the file. When several workers are used, the host reports the size of the file
  and serves its ranges, with or without a \<open>Content-Length\<close>, the result is exactly the file, in whatever chunks the
  parts arrive and in whatever order the workers end.
\<close>

theorem parallel_download_complete:
  assumes "serves fetch file" and "0 < length file" and "int (length file) \<le> maxUpdatePackageSize"
    and "range_total contentRange = Some (length file)"
    and "0 < declared" and "declared \<le> maxUpdatePackageSize"
    and "chooseUpdateDownloadWorkers (Some declared) hw mem > 1"
  shows "downloadPackage fetch (Some (206, contentRange)) order hw mem (Some declared) = Inr file"
proof -
  define k where "k = nat (chooseUpdateDownloadWorkers (Some declared) hw mem)"
  define rs where "rs = byteRanges (length file) k"
  define jobs where "jobs = map (\<lambda>(i, r). job_result (range_job i) (worker_download fetch (Some r))) (zip [0..<length rs] rs)"
  have k: "0 < k" using assms(7) by (simp add: k_def)
  note spec = byteRanges_spec [OF assms(2) k, of "file", folded rs_def]
  have "jobs = map (\<lambda>r. Inr (in_range file r)) (map snd (zip [0..<length rs] rs))"
    unfolding jobs_def map_map
  proof (rule map_cong [OF refl])
    fix x assume "x \<in> set (zip [0..<length rs] rs)"
    then obtain i a b where x: "x = (i, a, b)" "(a, b) \<in> set rs" by (metis prod_cases3 set_zip_rightD)
    with spec have "a \<le> b" "b < length file" by auto
    from served_part [OF assms(1) this assms(3)]
    show "(case x of (i, r) \<Rightarrow> job_result (range_job i) (worker_download fetch (Some r))) =
      ((\<lambda>r. Inr (in_range file r)) \<circ> snd) x" by (simp add: x)
  qed
  then have jobs: "jobs = map (\<lambda>r. Inr (in_range file r)) rs" by simp
  have "all_parts order jobs = Inr (map projr jobs)" by (rule all_parts_Inr) (auto simp: jobs)
  also have "map projr jobs = map (in_range file) rs" by (simp add: jobs comp_def)
  finally have parts: "all_parts order jobs = Inr (map (in_range file) rs)" .
  have "place_parts (replicate (sum_list (map length (map (in_range file) rs))) (CHR 0x00)) 0 (map (in_range file) rs) = file"
    using spec by (simp only: place_parts_all) simp
  moreover have "max 0 (number_or 0 (Some declared)) = declared" using assms(5) by (simp add: number_or_def)
  ultimately show ?thesis
    using parts assms(2-7)
    by (simp add: downloadPackage_def Let_def k_def [symmetric] rs_def [symmetric] jobs_def [symmetric] del: posted_result)
qed

definition sample_network :: "string \<Rightarrow> network" where
  "sample_network file part =
     (case part of
        None \<Rightarrow> None
      | Some r \<Rightarrow> Some \<lparr>w_status = 206, w_length = (if fst r = 0 then None else Some (int (Suc (snd r) - fst r))),
                   w_stream = Some ([take 1 (in_range file r), [], drop 1 (in_range file r)], True), w_whole = []\<rparr>)"

theorem parallel_download_complete_witness:
  "w_length (the (sample_network ''0123456789'' (Some (3, 5)))) = Some 3 \<and>
   downloadPackage (sample_network ''0123456789'') (Some (206, ''bytes 0-0/10'')) [2, 0] (Some 8) (Some 8) (Some (100 * 2 ^ 20)) =
   Inr ''0123456789''"
proof
  show "w_length (the (sample_network ''0123456789'' (Some (3, 5)))) = Some 3" by (simp add: sample_network_def)
  show "downloadPackage (sample_network ''0123456789'') (Some (206, ''bytes 0-0/10'')) [2, 0] (Some 8) (Some 8) (Some (100 * 2 ^ 20)) =
    Inr ''0123456789''"
  proof (rule parallel_download_complete)
    have "concat [take 1 (in_range ''0123456789'' r), [], drop 1 (in_range ''0123456789'' r)] = in_range ''0123456789'' r" for r
      by (simp only: concat.simps append_Nil append_Nil2 append_take_drop_id)
    then show "serves (sample_network ''0123456789'') ''0123456789''" by (simp add: serves_def sample_network_def)
    have l: "length ''0123456789'' = 10" by simp
    show "range_total ''bytes 0-0/10'' = Some (length ''0123456789'')" unfolding l by code_simp
    show "chooseUpdateDownloadWorkers (Some (100 * 2 ^ 20)) (Some 8) (Some 8) > 1" by code_simp
    show "(100 * 2 ^ 20 :: int) \<le> maxUpdatePackageSize" "int (length ''0123456789'') \<le> maxUpdatePackageSize"
      by (simp_all add: maxUpdatePackageSize_def)
  qed simp_all
qed

text \<open>
  The limit on the size of a package holds for the size that the metadata declares, not for the size that the host reports
  in \<open>Content-Range\<close>: with the largest possible report the ranges that are requested cover any number of bytes.
\<close>

theorem reported_size_unbounded:
  "snd (last (byteRanges (10 * 2 ^ 30) 4)) + 1 = 10 * 2 ^ 30 \<and> maxUpdatePackageSize < 10 * 2 ^ 30"
proof -
  have four: "ranges_from n p i 4 = ranges_from n p i (Suc (Suc (Suc (Suc 0))))" for n p i
    by (simp add: numeral_eq_Suc)
  have "byteRanges (10 * 2 ^ 30) 4 = [(0, 2684354559), (2684354560, 5368709119), (5368709120, 8053063679), (8053063680, 10737418239)]"
    by (simp add: byteRanges_def ceil_div_def four)
  then show ?thesis by (simp add: maxUpdatePackageSize_def)
qed

section \<open>What is handed to the user\<close>

lemma legal_entries_Some:
  "legal_entries documents ns = Some es \<Longrightarrow>
   map fst es = ns \<and> (\<forall>(n, d)\<in>set es. \<exists>st. documents n = Some (st, d) \<and> 200 \<le> st \<and> st < 300)"
proof (induction ns arbitrary: es)
  case (Cons n ns)
  then obtain st b fs where "documents n = Some (st, b)" "200 \<le> st" "st < 300" "legal_entries documents ns = Some fs"
      "es = (n, b) # fs"
    by (auto split: option.splits if_splits)
  with Cons.IH show ?case by simp
qed simp

lemma archive_entries_map: "map_of (archive_entries es fs) = map_of es ++ map_of (rev (map (\<lambda>(n, b). (n, b, None)) fs))"
proof (induction fs arbitrary: es)
  case (Cons f fs)
  then show ?case
    by (cases f) (simp add: archive_entries_def update_conv' map_add_assoc [symmetric] fun_upd_def map_add_def fun_eq_iff split: option.splits)
qed (simp add: archive_entries_def)

lemma archive_entries_distinct: "distinct (map fst es) \<Longrightarrow> distinct (map fst (archive_entries es fs))"
  by (induction fs arbitrary: es) (auto simp: archive_entries_def distinct_update)

lemma update_new: "n \<notin> set (map fst es) \<Longrightarrow> AList.update n v es = es @ [(n, v)]"
  by (induction es) auto

lemma archive_entries_new:
  "distinct (map fst es @ map fst fs) \<Longrightarrow> archive_entries es fs = es @ map (\<lambda>(n, b). (n, b, None)) fs"
proof (induction fs arbitrary: es)
  case (Cons f fs)
  then show ?case by (cases f) (auto simp: archive_entries_def update_new)
qed (simp add: archive_entries_def)

text \<open>
  C26: only an authentic package is converted. When the conversion succeeds, the downloaded bytes have exactly the
  SHA-256 digest of the official metadata, they decompress to an executable whose size is the declared one and within
  the limit, and the file is named as a ZIP archive. The archive has one entry per name: the executable and all license
  documents, in this order, unless the executable has the name of a license document, whose text then replaces it.
\<close>

theorem update_authentic:
  assumes "convertBrotliUpdateToZip sha256 decompress zipSync documents download options = Inr (archive, name)"
  shows "\<exists>compressed executable n docs.
    download (Some (number_or 0 (u_size options))) = Inr compressed \<and>
    hex_bytes (sha256 compressed) = to_lower (js_trim (opt_text (u_sha256 options))) \<and>
    length (hex_bytes (sha256 compressed)) = 64 \<and>
    decompress compressed = Some executable \<and> u_uncompressedSize options = Some n \<and> int (length executable) = n \<and>
    0 < n \<and> n \<le> maxUpdateExecutableSize \<and>
    map fst docs = legalNames \<and> (\<forall>(n, d)\<in>set docs. \<exists>st. documents n = Some (st, d) \<and> 200 \<le> st \<and> st < 300) \<and>
    (let exe = (u_executableName options, executable,
           if ends_with ''.exe'' (to_lower (u_executableName options)) then None else Some (3, 493 * 2 ^ 16));
         documents = map (\<lambda>(n, b). (n, b, None)) docs
     in \<exists>entries. archive = zipSync entries \<and> distinct (map fst entries) \<and> map_of entries = map_of [exe] ++ map_of documents \<and>
          (u_executableName options \<notin> set legalNames \<longrightarrow> entries = exe # documents)) \<and> ends_with ''.zip'' name"
proof -
  define n where "n = number_or 0 (u_uncompressedSize options)"
  from assms obtain compressed where c: "download (Some (number_or 0 (u_size options))) = Inr compressed"
      "verifySHA256 sha256 compressed (u_sha256 options)" "0 < n" "n \<le> maxUpdateExecutableSize"
      "worker_convert decompress zipSync documents compressed (u_executableName options) n = Inr archive"
      "name = legacyZipFilename (u_filename options)"
    by (auto simp: convertBrotliUpdateToZip_def n_def Let_def split: if_splits sum.splits)
  from c(5) obtain docs where d: "legal_entries documents legalNames = Some docs"
      "brotliExecutableToZip decompress zipSync compressed (u_executableName options) n docs = Inr archive"
    by (auto simp: worker_convert_def split: option.splits)
  from d(2) c(3) obtain executable where e: "decompress compressed = Some executable" "int (length executable) = n"
      "archive = zipSync (archive_entries [(u_executableName options, executable,
        if ends_with ''.exe'' (to_lower (u_executableName options)) then None else Some (3, 493 * 2 ^ 16))] docs)"
    by (auto simp: brotliExecutableToZip_def Let_def split: option.splits if_splits)
  have "u_uncompressedSize options = Some n" using c(3) by (auto simp: n_def number_or_def split: option.splits if_splits)
  moreover have "ends_with ''.zip'' name" by (simp add: c(6) legacyZipFilename_def Let_def ends_with_append)
  moreover have "hex_bytes (sha256 compressed) = to_lower (js_trim (opt_text (u_sha256 options)))"
      "length (hex_bytes (sha256 compressed)) = 64"
    using c(2) by (auto simp: verifySHA256_def Let_def split: if_splits)
  moreover have dd: "distinct (map fst docs)" using legal_entries_Some [OF d(1)] by (simp add: legalNames_def)
  have "map_of (rev (map (\<lambda>(n, b). (n, b, None)) docs)) = map_of (map (\<lambda>(n, b). (n, b, None :: (nat \<times> int) option)) docs)"
    using dd by (subst map_of_inject_set) (simp_all add: comp_def case_prod_beta rev_map [symmetric])
  then have "let documents = map (\<lambda>(n, b). (n, b, None)) docs; entries = archive_entries [exe] docs
      in distinct (map fst entries) \<and> map_of entries = map_of [exe] ++ map_of documents \<and>
        (fst exe \<notin> set legalNames \<longrightarrow> entries = exe # documents)" for exe :: zip_entry
    using dd legal_entries_Some [OF d(1)] archive_entries_map [of "[exe]" docs] archive_entries_distinct [of "[exe]" docs]
      archive_entries_new [of "[exe]" docs] by (simp add: Let_def)
  ultimately show ?thesis using c d e legal_entries_Some [OF d(1)] unfolding Let_def by fastforce
qed

definition sample_digest :: "string \<Rightarrow> string" where
  "sample_digest bytes = replicate 32 (CHR ''N'')"

definition sample_update :: update_options where
  "sample_update = \<lparr>u_size = Some 3, u_uncompressedSize = Some 2, u_sha256 = Some (concat (replicate 32 ''4E'')),
     u_executableName = ''renop'', u_filename = Some ''renop-linux.br''\<rparr>"

theorem update_authentic_witness:
  "convertBrotliUpdateToZip sample_digest (\<lambda>c. Some (drop 1 c)) (\<lambda>es. concat (map fst es)) (\<lambda>n. Some (200, n))
     (\<lambda>n. Inr ''xab'') sample_update = Inr (''renopLICENSEREADME.mdTHIRD_PARTY_NOTICES.md'', ''renop-linux.zip'') \<and>
   (\<exists>executable. Some (drop 1 ''xab'') = Some executable \<and> int (length executable) = 2)"
proof -
  have r: "convertBrotliUpdateToZip sample_digest (\<lambda>c. Some (drop 1 c)) (\<lambda>es. concat (map fst es)) (\<lambda>n. Some (200, n))
     (\<lambda>n. Inr ''xab'') sample_update = Inr (''renopLICENSEREADME.mdTHIRD_PARTY_NOTICES.md'', ''renop-linux.zip'')"
    by code_simp
  have "u_uncompressedSize sample_update = Some 2" by (simp add: sample_update_def)
  with r update_authentic [OF r] show ?thesis by auto
qed

end
