(* ===== verification/Passwords.thy ===== *)
theory Passwords
  imports Machine
begin

text \<open>
  Password strength (\<open>password-strength.js\<close>): the limits on the length, the score, the
  confirmations asked for a weak password, and the meter below a password field as a machine over the events of
  the field. The regular expressions look at UTF-16 code units, so a password is the list of its units. The
  translation function is a parameter: it gets the key of a text and the numbers to insert.
\<close>

type_synonym code_units = "nat list"
type_synonym translator = "string \<Rightarrow> (string \<times> nat) list \<Rightarrow> string"

text \<open>The units of an ASCII text.\<close>

definition ascii :: "string \<Rightarrow> code_units" where "ascii s = map of_char s"

section \<open>Length and strength\<close>

definition MIN_PASSWORD_LENGTH :: nat where "MIN_PASSWORD_LENGTH = 6"
definition MAX_PASSWORD_LENGTH :: nat where "MAX_PASSWORD_LENGTH = 72"

definition getPasswordLengthError :: "translator \<Rightarrow> code_units \<Rightarrow> string option" where
  "getPasswordLengthError t password =
     (if password = [] then Some (t ''strength.enterPassword'' [])
      else if length password < MIN_PASSWORD_LENGTH then
        Some (t ''strength.minCharError'' [(''min'', MIN_PASSWORD_LENGTH)])
      else if length password > MAX_PASSWORD_LENGTH then
        Some (t ''strength.maxCharError'' [(''max'', MAX_PASSWORD_LENGTH)])
      else None)"

definition unit_lower :: "nat \<Rightarrow> bool" where "unit_lower c \<longleftrightarrow> 97 \<le> c \<and> c \<le> 122"
definition unit_upper :: "nat \<Rightarrow> bool" where "unit_upper c \<longleftrightarrow> 65 \<le> c \<and> c \<le> 90"
definition unit_digit :: "nat \<Rightarrow> bool" where "unit_digit c \<longleftrightarrow> 48 \<le> c \<and> c \<le> 57"
definition unit_other :: "nat \<Rightarrow> bool" where
  "unit_other c \<longleftrightarrow> \<not> unit_lower c \<and> \<not> unit_upper c \<and> \<not> unit_digit c"

definition point :: "bool \<Rightarrow> nat" where "point b = (if b then 1 else 0)"

definition length_score :: "nat \<Rightarrow> nat" where
  "length_score len = point (len \<ge> 6) + point (len \<ge> 8) + point (len \<ge> 12) + point (len \<ge> 16)"

definition class_score :: "code_units \<Rightarrow> nat" where
  "class_score password =
     point (list_ex unit_lower password) + point (list_ex unit_upper password) +
     point (list_ex unit_digit password) + point (list_ex unit_other password)"

text \<open>\<open>/^(.)\1+$/\<close>: the dot matches no line terminator.\<close>

definition repeated :: "code_units \<Rightarrow> bool" where
  "repeated password =
     (case password of
        [] \<Rightarrow> False
      | c # rest \<Rightarrow> c \<notin> {10, 13, 8232, 8233} \<and> rest \<noteq> [] \<and> list_all (\<lambda>x. x = c) rest)"

text \<open>Under the flag \<open>i\<close> an ASCII letter is matched by its two forms only.\<close>

definition fold_unit :: "nat \<Rightarrow> nat" where "fold_unit c = (if unit_upper c then c + 32 else c)"

definition common_prefixes :: "string list" where
  "common_prefixes = [''0123'', ''1234'', ''2345'', ''3456'', ''4567'', ''5678'', ''6789'', ''7890'', ''abcd'', ''qwer'',
     ''asdf'', ''password'', ''admin'', ''letmein'']"

definition common_start :: "code_units \<Rightarrow> bool" where
  "common_start password =
     list_ex (\<lambda>w. take (length w) (map fold_unit password) = ascii w) common_prefixes"

definition letters_only :: "code_units \<Rightarrow> bool" where
  "letters_only password \<longleftrightarrow> password \<noteq> [] \<and> list_all (\<lambda>c. unit_lower c \<or> unit_upper c) password"

definition digits_only :: "code_units \<Rightarrow> bool" where
  "digits_only password \<longleftrightarrow> password \<noteq> [] \<and> list_all unit_digit password"

text \<open>The subtraction of natural numbers is \<open>Math.max(0, score - n)\<close>.\<close>

definition strength_score :: "code_units \<Rightarrow> nat" where
  "strength_score password =
     (let len = length password;
          score = length_score len + class_score password;
          score = (if repeated password then min score 1 else score);
          score = (if common_start password then score - 2 else score);
          score = (if letters_only password \<and> len < 12 then score - 1 else score)
      in if digits_only password then min score 2 else score)"

definition strength_level :: "code_units \<Rightarrow> nat" where
  "strength_level password =
     (let len = length password; score = strength_score password;
          level = (if score \<le> 2 then 1 else if score \<le> 4 then 2 else if score \<le> 6 then 3 else 4)
      in if len < MIN_PASSWORD_LENGTH then 1
         else if len < 8 \<and> level > 2 then 2 else level)"

record strength =
  level :: nat
  strength_label :: string
  strength_hint :: string

definition evaluatePasswordStrength :: "translator \<Rightarrow> code_units \<Rightarrow> strength" where
  "evaluatePasswordStrength t password =
     (if password = [] then \<lparr>level = 0, strength_label = [], strength_hint = []\<rparr>
      else (let len = length password; l = strength_level password in
        \<lparr>level = l, strength_label = t (''strength.level'' @ show_nat l) [],
         strength_hint =
           (if len > 0 \<and> len < MIN_PASSWORD_LENGTH then t ''strength.minChars'' [(''min'', MIN_PASSWORD_LENGTH)]
            else if len > MAX_PASSWORD_LENGTH then t ''strength.maxChars'' [(''max'', MAX_PASSWORD_LENGTH)]
            else t (''strength.hint'' @ show_nat l) [])\<rparr>))"

section \<open>Confirming a weak password\<close>

text \<open>
  The dialogs are shown one after the other; the answers are given in order. The
  result is the number of dialogs shown and the value the promise settles with, \<open>None\<close> while a dialog is open.
\<close>

fun ask_all :: "nat \<Rightarrow> bool list \<Rightarrow> nat \<times> bool option" where
  "ask_all 0 answers = (0, Some True)"
| "ask_all (Suc n) [] = (1, None)"
| "ask_all (Suc n) (ok # answers) =
     (if \<not> ok then (1, Some False)
      else (case ask_all n answers of (shown, r) \<Rightarrow> (Suc shown, r)))"

definition weak_warnings :: "(string \<times> string) list" where
  "weak_warnings =
     [(''strength.warnTitle1'', ''strength.warnMsg1''), (''strength.warnTitle2'', ''strength.warnMsg2''),
      (''strength.warnTitle3'', ''strength.warnMsg3'')]"

definition confirmWeakPasswordIfNeeded :: "translator \<Rightarrow> code_units \<Rightarrow> bool list \<Rightarrow> nat \<times> bool option" where
  "confirmWeakPasswordIfNeeded t password answers =
     (if level (evaluatePasswordStrength t password) \<ge> 2 then (0, Some True)
      else ask_all (length weak_warnings) answers)"

section \<open>The meter\<close>

record meter =
  input_value :: code_units
  prevLevel :: nat
  hideTimer :: bool
  isLeaving :: bool
  meter_hidden :: bool
  data_level :: nat
  meter_label :: string
  meter_hint :: string
  leaving_class :: bool
  animate_class :: bool
  change_class :: bool
  reducedMotion :: bool
  language :: translator

definition attachPasswordStrength :: "translator \<Rightarrow> bool \<Rightarrow> code_units \<Rightarrow> meter" where
  "attachPasswordStrength t reduced v =
     \<lparr>input_value = v, prevLevel = 0, hideTimer = False, isLeaving = False, meter_hidden = True, data_level = 0,
      meter_label = [], meter_hint = [], leaving_class = False, animate_class = False, change_class = False,
      reducedMotion = reduced, language = t\<rparr>"

definition finishHide :: "meter \<Rightarrow> meter" where
  "finishHide m =
     m\<lparr>hideTimer := False, meter_hidden := True, data_level := 0, leaving_class := False, animate_class := False,
       change_class := False, isLeaving := False, meter_label := [], meter_hint := []\<rparr>"

definition showMeter :: "meter \<Rightarrow> meter" where
  "showMeter m =
     m\<lparr>hideTimer := False, isLeaving := False, leaving_class := False, meter_hidden := False,
       animate_class := (if meter_hidden m \<or> isLeaving m then True else animate_class m)\<rparr>"

definition hideMeter :: "bool \<Rightarrow> meter \<Rightarrow> meter" where
  "hideMeter animated m =
     (if meter_hidden m \<and> \<not> isLeaving m then m
      else if \<not> animated \<or> reducedMotion m then finishHide m
      else if isLeaving m then m
      else m\<lparr>isLeaving := True, animate_class := False, change_class := False, leaving_class := True,
             hideTimer := True\<rparr>)"

definition meter_update :: "meter \<Rightarrow> meter" where
  "meter_update m =
     (let result = evaluatePasswordStrength (language m) (input_value m);
          m1 = (if level result > 0 then
                  (let shown = showMeter (m\<lparr>data_level := level result, meter_label := strength_label result,
                                           meter_hint := strength_hint result\<rparr>)
                   in if level result \<noteq> prevLevel m then shown\<lparr>change_class := True\<rparr> else shown)
                else hideMeter True m)
      in m1\<lparr>prevLevel := level result\<rparr>)"

definition meter_reset :: "meter \<Rightarrow> meter" where
  "meter_reset m = hideMeter True (m\<lparr>prevLevel := 0\<rparr>)"

text \<open>
  \<open>Typed\<close> is an input or change event, \<open>Assigned\<close> an assignment to the field by the program, which sends no event;
  \<open>Hide_Elapsed\<close> is the expiry of the timer of the closing animation.
\<close>

datatype meter_event = Typed code_units | Assigned code_units | Reset | Hide_Elapsed | Motion bool | Translated translator

fun meter_step :: "meter_event \<Rightarrow> meter \<Rightarrow> meter option" where
  "meter_step (Typed v) m = Some (meter_update (m\<lparr>input_value := v\<rparr>))"
| "meter_step (Assigned v) m = Some (m\<lparr>input_value := v\<rparr>)"
| "meter_step Reset m = Some (meter_reset m)"
| "meter_step Hide_Elapsed m = (if hideTimer m then Some (finishHide m) else None)"
| "meter_step (Motion b) m = Some (m\<lparr>reducedMotion := b\<rparr>)"
| "meter_step (Translated t) m = Some (meter_update (m\<lparr>language := t\<rparr>))"

section \<open>What the levels promise\<close>

lemma point_le [simp]: "point b \<le> 1" and point_True [simp]: "b \<Longrightarrow> point b = 1" and point_False [simp]: "\<not> b \<Longrightarrow> point b = 0"
  by (simp_all add: point_def)

lemma length_score_cases:
  "length_score len = (if len < 6 then 0 else if len < 8 then 1 else if len < 12 then 2 else if len < 16 then 3 else 4)"
  by (simp add: length_score_def point_def)

lemma class_score_le: "class_score p \<le> 4"
  by (simp add: class_score_def point_def)

lemma strength_score_le: "strength_score p \<le> length_score (length p) + class_score p"
  unfolding strength_score_def Let_def by auto

lemma score_common: "common_start p \<Longrightarrow> strength_score p \<le> 6"
  using class_score_le [of p] length_score_cases [of "length p"]
  by (auto simp: strength_score_def Let_def split: if_splits)

lemma score_repeated: "repeated p \<Longrightarrow> strength_score p \<le> 1"
  by (auto simp: strength_score_def Let_def)

lemma score_digits: "digits_only p \<Longrightarrow> strength_score p \<le> 2"
  by (auto simp: strength_score_def Let_def)

lemma level_evaluate:
  "level (evaluatePasswordStrength t p) = (if p = [] then 0 else strength_level p)"
  by (simp add: evaluatePasswordStrength_def Let_def)

lemma strength_level_range: "1 \<le> strength_level p \<and> strength_level p \<le> 4"
  by (simp add: strength_level_def Let_def)

lemma level_weak: "strength_score p \<le> 2 \<Longrightarrow> strength_level p = 1"
  by (simp add: strength_level_def Let_def)

lemma level_positive: "level (evaluatePasswordStrength t p) > 0 \<longleftrightarrow> p \<noteq> []"
  using strength_level_range [of p] by (auto simp: level_evaluate)

text \<open>
  the strength of a password is honest. The level is 0 for the empty password only; a password that is too short,
  repeats one character or has digits only is at level 1, the level that asks for confirmation. Level 3 needs eight
  characters, level 4 twelve characters of at least three classes and no common beginning.
\<close>

theorem strength_levels:
  "(let l = level (evaluatePasswordStrength t p) in
      l \<le> 4 \<and> (l = 0 \<longleftrightarrow> p = []) \<and>
      (p \<noteq> [] \<and> (length p < MIN_PASSWORD_LENGTH \<or> repeated p \<or> digits_only p) \<longrightarrow> l = 1) \<and>
      (l \<ge> 3 \<longrightarrow> 8 \<le> length p) \<and>
      (l = 4 \<longrightarrow> 12 \<le> length p \<and> 3 \<le> class_score p \<and> \<not> common_start p))"
proof -
  have weak: "strength_level p = 1" if "length p < MIN_PASSWORD_LENGTH \<or> repeated p \<or> digits_only p"
    using that level_weak score_repeated [of p] score_digits [of p]
    by (auto simp: strength_level_def Let_def MIN_PASSWORD_LENGTH_def)
  have three: "8 \<le> length p" if "strength_level p \<ge> 3"
    using that by (auto simp: strength_level_def Let_def MIN_PASSWORD_LENGTH_def split: if_splits)
  have four: "7 \<le> strength_score p" if "strength_level p = 4"
    using that by (auto simp: strength_level_def Let_def split: if_splits)
  have "12 \<le> length p \<and> 3 \<le> class_score p \<and> \<not> common_start p" if "strength_level p = 4"
    using four [OF that] strength_score_le [of p] class_score_le [of p] score_common [of p]
      length_score_cases [of "length p"] by (auto split: if_splits)
  with weak three strength_level_range [of p] show ?thesis by (auto simp: level_evaluate Let_def)
qed

theorem strength_levels_witness:
  "level (evaluatePasswordStrength (\<lambda>k n. k) (ascii ''11111111'')) = 1"
proof -
  define q where "q = ascii ''11111111''"
  have "q \<noteq> []" "repeated q" by (simp_all add: q_def ascii_def repeated_def)
  then show ?thesis using strength_levels [of "\<lambda>k n. k" q] unfolding Let_def q_def [symmetric] by simp
qed

lemma ask_all_True: "snd (ask_all n answers) = Some True \<longleftrightarrow> n \<le> length answers \<and> list_all id (take n answers)"
proof (induction n arbitrary: answers)
  case (Suc n)
  then show ?case by (cases answers) (simp_all add: case_prod_beta)
qed simp

lemma warnings_length: "length weak_warnings = 3"
  by (simp add: weak_warnings_def)

lemma ask_all_False: "snd (ask_all n answers) = Some False \<Longrightarrow> False \<in> set (take n answers)"
  by (induction n answers rule: ask_all.induct) (auto split: prod.splits if_splits)

text \<open>
  a weak password is used only after three confirmations: the promise settles with true exactly when the
  level is at least 2 or the first three answers are all positive, and one negative answer ends it with false.
\<close>

theorem weak_password_confirmed:
  "(snd (confirmWeakPasswordIfNeeded t p answers) = Some True \<longleftrightarrow>
      level (evaluatePasswordStrength t p) \<ge> 2 \<or> 3 \<le> length answers \<and> list_all id (take 3 answers)) \<and>
   (snd (confirmWeakPasswordIfNeeded t p answers) = Some False \<longrightarrow> False \<in> set (take 3 answers))"
  using ask_all_True [of 3 answers] ask_all_False [of 3 answers]
  by (cases "2 \<le> level (evaluatePasswordStrength t p)")
    (simp_all add: confirmWeakPasswordIfNeeded_def warnings_length)

theorem weak_password_confirmed_witness:
  "False \<in> set (take 3 [True, False])"
proof -
  have "level (evaluatePasswordStrength (\<lambda>k n. k) (ascii ''abc'')) = 1"
    by (simp add: ascii_def level_evaluate strength_level_def Let_def MIN_PASSWORD_LENGTH_def)
  then have "snd (confirmWeakPasswordIfNeeded (\<lambda>k n. k) (ascii ''abc'') [True, False]) = Some False"
    by (simp add: confirmWeakPasswordIfNeeded_def weak_warnings_def)
  then show ?thesis
    using weak_password_confirmed [of "\<lambda>k n. k" "ascii ''abc''" "[True, False]"] by blast
qed

section \<open>The meter follows the field\<close>

text \<open>Hidden, closing (with a running timer), or showing the level last computed.\<close>

definition meter_inv :: "meter \<Rightarrow> bool" where
  "meter_inv m \<longleftrightarrow>
     hideTimer m = isLeaving m \<and> leaving_class m = isLeaving m \<and>
     (meter_hidden m \<longrightarrow> \<not> isLeaving m \<and> data_level m = 0 \<and> meter_label m = [] \<and> meter_hint m = [] \<and> \<not> animate_class m) \<and>
     (prevLevel m > 0 \<longleftrightarrow> \<not> meter_hidden m \<and> \<not> isLeaving m) \<and>
     (prevLevel m > 0 \<longrightarrow> data_level m = prevLevel m \<and> prevLevel m \<le> 4 \<and>
        meter_label m = language m (''strength.level'' @ show_nat (prevLevel m)) [])"

lemmas meter_defs = meter_inv_def finishHide_def showMeter_def hideMeter_def

lemma meter_inv_attach: "meter_inv (attachPasswordStrength t b v)"
  by (simp add: meter_inv_def attachPasswordStrength_def)

lemma evaluate_cases:
  obtains "p = []" "evaluatePasswordStrength t p = \<lparr>level = 0, strength_label = [], strength_hint = []\<rparr>"
  | l hint where "p \<noteq> []" "0 < l" "l \<le> 4"
      "evaluatePasswordStrength t p =
         \<lparr>level = l, strength_label = t (''strength.level'' @ show_nat l) [], strength_hint = hint\<rparr>"
proof (cases "p = []")
  case True
  then show ?thesis by (intro that(1)) (simp_all add: evaluatePasswordStrength_def)
next
  case False
  with strength_level_range [of p] show ?thesis
    by (intro that(2) [of "strength_level p"]) (auto simp: evaluatePasswordStrength_def Let_def)
qed

lemma meter_inv_hide: "meter_inv m \<Longrightarrow> meter_inv ((hideMeter True m)\<lparr>prevLevel := 0\<rparr>)"
  by (auto simp: meter_defs)

lemma meter_inv_reset: "meter_inv m \<Longrightarrow> meter_inv (meter_reset m)"
  by (auto simp: meter_reset_def meter_defs)

text \<open>The update needs the invariant only up to the language, which it reads anew.\<close>

lemma meter_inv_update: "meter_inv m \<Longrightarrow> meter_inv (meter_update (m\<lparr>input_value := v, language := t\<rparr>))"
proof (cases rule: evaluate_cases [where p = v and t = t])
  case 1
  assume "meter_inv m"
  with 1 show ?thesis by (auto simp: meter_update_def meter_defs Let_def)
next
  case (2 l hint)
  then show ?thesis by (auto simp: meter_update_def meter_defs Let_def)
qed

lemma meter_inv_step: "meter_inv m \<Longrightarrow> meter_step e m = Some n \<Longrightarrow> meter_inv n"
proof (cases e)
  case (Typed v)
  assume "meter_inv m" "meter_step e m = Some n"
  with Typed meter_inv_update [where m = m and v = v and t = "language m"] show ?thesis by simp
next
  case (Translated t)
  assume "meter_inv m" "meter_step e m = Some n"
  with Translated meter_inv_update [where m = m and v = "input_value m" and t = t] show ?thesis by simp
next
  case Reset
  assume "meter_inv m" "meter_step e m = Some n"
  with Reset meter_inv_reset [of m] show ?thesis by simp
qed (auto simp: meter_defs split: if_splits)

interpretation mt: machine meter_step meter_inv
  by unfold_locales (rule meter_inv_step)

text \<open>
  whatever happened before, typing a password shows the meter with the level of that password and its label in the
  current language, and emptying the field hides the meter, at once or when the running timer expires.
\<close>

theorem meter_shows_strength:
  assumes "run meter_step es (attachPasswordStrength t b v) = Some m" and "meter_step (Typed p) m = Some n"
  shows "if p \<noteq> [] then \<not> meter_hidden n \<and> \<not> leaving_class n \<and>
           data_level n = level (evaluatePasswordStrength (language m) p) \<and>
           meter_label n = language m (''strength.level'' @ show_nat (data_level n)) []
         else meter_hidden n \<or> (\<exists>h. meter_step Hide_Elapsed n = Some h \<and> meter_hidden h \<and> data_level h = 0)"
proof -
  have m: "meter_inv m" by (rule mt.inv_run [OF assms(1) meter_inv_attach])
  then have n: "meter_inv n" using assms(2) by (rule meter_inv_step)
  have "n = meter_update (m\<lparr>input_value := p\<rparr>)" using assms(2) by simp
  then have lv: "prevLevel n = level (evaluatePasswordStrength (language m) p)" and lang: "language n = language m"
    by (simp_all add: meter_update_def Let_def showMeter_def hideMeter_def finishHide_def)
  show ?thesis
  proof (cases "p = []")
    case True
    with lv have "prevLevel n = 0" by (simp add: level_evaluate)
    with n have "meter_hidden n \<or> hideTimer n" by (auto simp: meter_inv_def)
    with True show ?thesis by (auto simp: finishHide_def)
  next
    case False
    with lv level_positive have "prevLevel n > 0" by simp
    with n lv lang False show ?thesis by (auto simp: meter_inv_def)
  qed
qed

theorem meter_shows_strength_witness:
  "\<exists>n. meter_step (Typed (ascii ''111111'')) (attachPasswordStrength (\<lambda>k x. k) False []) = Some n \<and>
     \<not> meter_hidden n \<and> data_level n = 1"
proof -
  define s where "s = attachPasswordStrength (\<lambda>k x. k) False []"
  have "strength_score (ascii ''111111'') \<le> 1"
    by (rule score_repeated) (simp add: ascii_def repeated_def)
  then have l: "level (evaluatePasswordStrength (\<lambda>k x. k) (ascii ''111111'')) = 1"
    by (simp add: level_evaluate level_weak) (simp add: ascii_def)
  have "run meter_step [] s = Some s" "meter_step (Typed (ascii ''111111'')) s =
      Some (meter_update (s\<lparr>input_value := ascii ''111111''\<rparr>))" by simp_all
  from meter_shows_strength [OF this(1) [unfolded s_def] this(2) [unfolded s_def]] l
  show ?thesis by (auto simp: ascii_def attachPasswordStrength_def)
qed

end
