(* ===== verification/Repository_Formats.thy ===== *)
theory Repository_Formats
  imports Uri
begin

text \<open>
  The catalogue of repository formats (\<open>repository-formats.js\<close> and the descriptors in
  \<open>repository-engines\<close>), the payload that creates a repository, and the names accepted for one.
\<close>

section \<open>Descriptors\<close>

text \<open>The function a descriptor refers to; \<open>Snippets\<close> models the builders.\<close>

datatype builder = MavenSnippets | CargoSnippets | DockerSnippets | NpmSnippets | NativeSnippets string | ConanSnippets | GitSnippets

text \<open>An absent field is \<open>None\<close>; a field compared with \<open>!== false\<close> keeps this difference.\<close>

record engine =
  engine_id :: string
  aliases :: "string list"
  protocol :: string
  layout :: "string option"
  icon :: string
  offered :: "bool option"
  labelKey :: string
  descriptionKey :: string
  supportsMirrors :: "bool option"
  supportsBrowserUpload :: bool
  managedNative :: bool
  supportsRedeployment :: bool
  supportsGpg :: bool
  supportsArtifactTemplate :: bool
  supportsUploadHelpers :: "bool option"
  snippetTabs :: "string list"
  buildSnippets :: "builder option"

definition mavenEngine :: engine where
  "mavenEngine = \<lparr>engine_id = ''maven'', aliases = [], protocol = ''maven'', layout = Some ''modern'',
     icon = ''repositoryMaven'', offered = None, labelKey = ''repos.formatMaven'', descriptionKey = ''repos.formatMavenDesc'',
     supportsMirrors = None, supportsBrowserUpload = False, managedNative = False, supportsRedeployment = True,
     supportsGpg = True, supportsArtifactTemplate = False, supportsUploadHelpers = None,
     snippetTabs = [''maven'', ''gradle-kotlin'', ''gradle-groovy'', ''sbt''], buildSnippets = Some MavenSnippets\<rparr>"

definition maven_classicEngine :: engine where
  "maven_classicEngine = \<lparr>engine_id = ''maven-classic'', aliases = [], protocol = ''maven'', layout = Some ''classic'',
     icon = ''repositoryMaven'', offered = Some False, labelKey = ''repos.formatMaven'',
     descriptionKey = ''repos.formatMavenDesc'', supportsMirrors = None, supportsBrowserUpload = False,
     managedNative = False, supportsRedeployment = True, supportsGpg = True, supportsArtifactTemplate = False,
     supportsUploadHelpers = None, snippetTabs = [''maven'', ''gradle-kotlin'', ''gradle-groovy'', ''sbt''],
     buildSnippets = Some MavenSnippets\<rparr>"

definition filesEngine :: engine where
  "filesEngine = \<lparr>engine_id = ''files'', aliases = [], protocol = ''files'', layout = None, icon = ''repositoryFiles'',
     offered = None, labelKey = ''repos.formatFiles'', descriptionKey = ''repos.formatFilesDesc'',
     supportsMirrors = None, supportsBrowserUpload = True, managedNative = False, supportsRedeployment = False,
     supportsGpg = False, supportsArtifactTemplate = False, supportsUploadHelpers = Some False, snippetTabs = [],
     buildSnippets = None\<rparr>"

definition cargoEngine :: engine where
  "cargoEngine = \<lparr>engine_id = ''cargo'', aliases = [], protocol = ''cargo'', layout = None, icon = ''repositoryCargo'',
     offered = None, labelKey = ''repos.formatCargo'', descriptionKey = ''repos.formatCargoDesc'',
     supportsMirrors = None, supportsBrowserUpload = False, managedNative = False, supportsRedeployment = False,
     supportsGpg = False, supportsArtifactTemplate = True, supportsUploadHelpers = None,
     snippetTabs = [''cargo-registry'', ''cargo-source'', ''cargo-login'', ''cargo-publish''],
     buildSnippets = Some CargoSnippets\<rparr>"

definition dockerEngine :: engine where
  "dockerEngine = \<lparr>engine_id = ''docker'', aliases = [], protocol = ''docker'', layout = None,
     icon = ''repositoryDocker'', offered = None, labelKey = ''repos.formatDocker'',
     descriptionKey = ''repos.formatDockerDesc'', supportsMirrors = None, supportsBrowserUpload = False,
     managedNative = False, supportsRedeployment = True, supportsGpg = False, supportsArtifactTemplate = False,
     supportsUploadHelpers = None, snippetTabs = [''docker-pull'', ''docker-tag'', ''docker-push'', ''docker-login''],
     buildSnippets = Some DockerSnippets\<rparr>"

definition npmEngine :: engine where
  "npmEngine = \<lparr>engine_id = ''npm'', aliases = [], protocol = ''npm'', layout = None, icon = ''repositoryNpm'',
     offered = None, labelKey = ''repos.formatNpm'', descriptionKey = ''repos.formatNpmDesc'', supportsMirrors = None,
     supportsBrowserUpload = False, managedNative = False, supportsRedeployment = False, supportsGpg = False,
     supportsArtifactTemplate = False, supportsUploadHelpers = None,
     snippetTabs = [''npm-config'', ''npm-install'', ''npm-publish''], buildSnippets = Some NpmSnippets\<rparr>"

definition conanEngine :: engine where
  "conanEngine = \<lparr>engine_id = ''conan'', aliases = [], protocol = ''conan'', layout = None, icon = ''repositoryConan'',
     offered = None, labelKey = ''repos.formatConan'', descriptionKey = ''repos.formatConanDesc'',
     supportsMirrors = None, supportsBrowserUpload = False, managedNative = True, supportsRedeployment = True,
     supportsGpg = False, supportsArtifactTemplate = False, supportsUploadHelpers = Some False,
     snippetTabs = [''native-client''], buildSnippets = Some ConanSnippets\<rparr>"

definition condaEngine :: engine where
  "condaEngine = \<lparr>engine_id = ''conda'', aliases = [], protocol = ''conda'', layout = None, icon = ''repositoryConda'',
     offered = None, labelKey = ''repos.formatConda'', descriptionKey = ''repos.formatCondaDesc'',
     supportsMirrors = None, supportsBrowserUpload = False, managedNative = True, supportsRedeployment = True,
     supportsGpg = False, supportsArtifactTemplate = False, supportsUploadHelpers = Some False,
     snippetTabs = [''native-client''], buildSnippets = Some (NativeSnippets ''conda'')\<rparr>"

definition conda_nativeEngine :: engine where
  "conda_nativeEngine = \<lparr>engine_id = ''conda-native'', aliases = [], protocol = ''conda'', layout = None,
     icon = ''repositoryCondaNative'', offered = None, labelKey = ''repos.formatCondaNative'',
     descriptionKey = ''repos.formatCondaNativeDesc'', supportsMirrors = None, supportsBrowserUpload = False,
     managedNative = True, supportsRedeployment = True, supportsGpg = False, supportsArtifactTemplate = False,
     supportsUploadHelpers = Some False, snippetTabs = [''native-client''],
     buildSnippets = Some (NativeSnippets ''conda-native'')\<rparr>"

definition apkEngine :: engine where
  "apkEngine = \<lparr>engine_id = ''apk'', aliases = [], protocol = ''apk'', layout = None, icon = ''repositoryApk'',
     offered = None, labelKey = ''repos.formatApk'', descriptionKey = ''repos.formatApkDesc'', supportsMirrors = None,
     supportsBrowserUpload = False, managedNative = True, supportsRedeployment = True, supportsGpg = False,
     supportsArtifactTemplate = False, supportsUploadHelpers = Some False, snippetTabs = [''native-client''],
     buildSnippets = Some (NativeSnippets ''apk'')\<rparr>"

definition aptEngine :: engine where
  "aptEngine = \<lparr>engine_id = ''apt'', aliases = [], protocol = ''apt'', layout = None, icon = ''repositoryApt'',
     offered = None, labelKey = ''repos.formatApt'', descriptionKey = ''repos.formatAptDesc'', supportsMirrors = None,
     supportsBrowserUpload = False, managedNative = True, supportsRedeployment = True, supportsGpg = False,
     supportsArtifactTemplate = False, supportsUploadHelpers = Some False, snippetTabs = [''native-client''],
     buildSnippets = Some (NativeSnippets ''apt'')\<rparr>"

definition rpmEngine :: engine where
  "rpmEngine = \<lparr>engine_id = ''rpm'', aliases = [''yum''], protocol = ''rpm'', layout = None, icon = ''repositoryRpm'',
     offered = None, labelKey = ''repos.formatRpm'', descriptionKey = ''repos.formatRpmDesc'', supportsMirrors = None,
     supportsBrowserUpload = False, managedNative = True, supportsRedeployment = True, supportsGpg = False,
     supportsArtifactTemplate = False, supportsUploadHelpers = Some False, snippetTabs = [''native-client''],
     buildSnippets = Some (NativeSnippets ''rpm'')\<rparr>"

definition githubEngine :: engine where
  "githubEngine = \<lparr>engine_id = ''github'', aliases = [], protocol = ''github'', layout = None,
     icon = ''repositoryGithub'', offered = None, labelKey = ''repos.formatGithub'',
     descriptionKey = ''repos.formatGithubDesc'', supportsMirrors = Some False, supportsBrowserUpload = False,
     managedNative = False, supportsRedeployment = False, supportsGpg = False, supportsArtifactTemplate = False,
     supportsUploadHelpers = Some False, snippetTabs = [''releases'', ''actions''], buildSnippets = Some GitSnippets\<rparr>"

definition gitlabEngine :: engine where
  "gitlabEngine = \<lparr>engine_id = ''gitlab'', aliases = [], protocol = ''gitlab'', layout = None,
     icon = ''repositoryGitlab'', offered = None, labelKey = ''repos.formatGitlab'',
     descriptionKey = ''repos.formatGitlabDesc'', supportsMirrors = Some False, supportsBrowserUpload = False,
     managedNative = False, supportsRedeployment = False, supportsGpg = False, supportsArtifactTemplate = False,
     supportsUploadHelpers = Some False, snippetTabs = [''releases'', ''actions''], buildSnippets = Some GitSnippets\<rparr>"

section \<open>The catalogue\<close>

definition engines :: "engine list" where
  "engines = [mavenEngine, maven_classicEngine, filesEngine, cargoEngine, dockerEngine, npmEngine, conanEngine, condaEngine,
     conda_nativeEngine, apkEngine, aptEngine, rpmEngine, githubEngine, gitlabEngine]"

text \<open>The entries in order; \<open>Object.fromEntries\<close> lets a later entry with the same key replace an earlier one.\<close>

definition FORMAT_CATALOG :: "(string \<times> engine) list" where
  "FORMAT_CATALOG = concat (map (\<lambda>e. map (\<lambda>i. (i, e)) (engine_id e # aliases e)) engines)"

text \<open>
  The lower-case names every object inherits from \<open>Object.prototype\<close>: looked up in the catalogue
  they give a built-in object that has no field of a descriptor, here \<open>None\<close>.
\<close>

definition prototype_names :: "string list" where
  "prototype_names = [''constructor'', ''__proto__'']"

definition normalized_format :: "string \<Rightarrow> string" where
  "normalized_format format = to_lower (js_trim (or_else format ''maven''))"

definition getRepositoryFormat :: "string \<Rightarrow> engine option" where
  "getRepositoryFormat format =
     (let normalized = normalized_format format in
      case map_of (rev FORMAT_CATALOG) normalized of
        Some e \<Rightarrow> Some e
      | None \<Rightarrow> if normalized \<in> set prototype_names then None else Some mavenEngine)"

definition listRepositoryFormats :: "engine list" where
  "listRepositoryFormats =
     filter (\<lambda>e. offered e \<noteq> Some False) (rev (remdups (rev (map snd FORMAT_CATALOG))))"

record git_settings =
  git_mode :: string
  max_version_size_bytes :: int
  max_daily_traffic_bytes :: int
  retain_latest_workflow_runs :: bool
  retain_latest_releases :: bool
  quota_request_cooldown_hours :: int
  git_owner :: string
  registered_repos :: "string list"

record draft =
  draft_name :: string
  draft_format :: "string option"
  visibility :: string
  mirrors :: "string list option"
  allow_redeployment :: "bool option"
  require_gpg_signature :: "bool option"
  git_repo :: "git_settings option"

definition default_git :: git_settings where
  "default_git = \<lparr>git_mode = ''lax'', max_version_size_bytes = 300 * 1024 * 1024,
     max_daily_traffic_bytes = 25 * 1024 * 1024 * 1024, retain_latest_workflow_runs = True,
     retain_latest_releases = True, quota_request_cooldown_hours = 72, git_owner = [], registered_repos = []\<rparr>"

definition createRepositoryDraft :: "string \<Rightarrow> string \<Rightarrow> draft" where
  "createRepositoryDraft name format =
     (let descriptor = getRepositoryFormat format;
          i = map_option engine_id descriptor;
          p = map_option protocol descriptor;
          repository = \<lparr>draft_name = name, draft_format = i, visibility = ''PUBLIC'',
            mirrors = (if Option.bind descriptor supportsMirrors \<noteq> Some False then Some [] else None),
            allow_redeployment = None, require_gpg_signature = None, git_repo = None\<rparr>
      in if i = Some ''maven'' then repository\<lparr>allow_redeployment := Some False, require_gpg_signature := Some False\<rparr>
         else if i = Some ''files'' then repository\<lparr>allow_redeployment := Some True\<rparr>
         else if p = Some ''github'' \<or> p = Some ''gitlab'' then repository\<lparr>git_repo := Some default_git\<rparr>
         else repository)"

section \<open>Repository names\<close>

definition RESERVED_REPOSITORY_NAMES :: "string list" where
  "RESERVED_REPOSITORY_NAMES =
     [''api'', ''assets'', ''css'', ''js'', ''svg'', ''javadoc'', ''javadocs'', ''cargodoc'', ''cargodocs'', ''cratedoc'',
      ''cratedocs'', ''v2'', ''dashboard'', ''users'', ''repositories'', ''settings'', ''account'', ''user'', ''domain'', ''team'']"

definition az :: "char \<Rightarrow> bool" where "az c \<longleftrightarrow> 97 \<le> (of_char c :: nat) \<and> (of_char c :: nat) \<le> 122"

text \<open>\<open>/^[a-z]+(?:-[a-z]+)*$/\<close> as an automaton: at the start of a word, or inside one.\<close>

fun slug_words :: "bool \<Rightarrow> string \<Rightarrow> bool" where
  "slug_words inside [] = inside"
| "slug_words inside (c # s) =
     (if az c then slug_words True s else c = CHR ''-'' \<and> inside \<and> slug_words False s)"

definition isValidRepositorySlug :: "string \<Rightarrow> bool" where
  "isValidRepositorySlug value \<longleftrightarrow>
     js_length value \<le> 64 \<and> slug_words False value \<and> value \<notin> set RESERVED_REPOSITORY_NAMES"

section \<open>The catalogue is consistent\<close>

lemmas engine_defs = mavenEngine_def maven_classicEngine_def filesEngine_def cargoEngine_def dockerEngine_def npmEngine_def
  conanEngine_def condaEngine_def conda_nativeEngine_def apkEngine_def aptEngine_def rpmEngine_def githubEngine_def
  gitlabEngine_def

lemma catalog_keys: "distinct (map fst FORMAT_CATALOG)"
  by code_simp

lemma catalog_values: "set (map snd FORMAT_CATALOG) = set engines"
  by (auto simp: FORMAT_CATALOG_def image_iff intro!: exI)

lemma catalog_lookup: "(k, e) \<in> set FORMAT_CATALOG \<Longrightarrow> map_of (rev FORMAT_CATALOG) k = Some e"
  using catalog_keys by (simp add: map_of_is_SomeI rev_map [symmetric])

lemma catalog_id: "e \<in> set engines \<Longrightarrow> (engine_id e, e) \<in> set FORMAT_CATALOG"
  by (auto simp: FORMAT_CATALOG_def)

lemma catalog_ids_normal: "list_all (\<lambda>(k, e). k \<noteq> [] \<and> to_lower k = k \<and> trimmed k) FORMAT_CATALOG"
  by code_simp

lemma normalized_catalog: "(k, e) \<in> set FORMAT_CATALOG \<Longrightarrow> normalized_format k = k"
  using catalog_ids_normal by (fastforce simp: normalized_format_def list_all_iff)

lemma get_catalog: "(k, e) \<in> set FORMAT_CATALOG \<Longrightarrow> getRepositoryFormat k = Some e"
  by (simp add: getRepositoryFormat_def Let_def normalized_catalog catalog_lookup)

lemma get_engines: "getRepositoryFormat f = Some e \<Longrightarrow> e \<in> set engines"
proof -
  assume f: "getRepositoryFormat f = Some e"
  have "e \<in> set engines" if "map_of (rev FORMAT_CATALOG) k = Some e" for k
  proof -
    have "(k, e) \<in> set FORMAT_CATALOG" using map_of_SomeD [OF that] by simp
    then have "e \<in> set (map snd FORMAT_CATALOG)" by force
    then show ?thesis by (simp only: catalog_values)
  qed
  moreover have "mavenEngine \<in> set engines" by (simp add: engines_def)
  ultimately show ?thesis using f by (auto simp: getRepositoryFormat_def Let_def split: option.splits if_splits)
qed


lemma list_offered: "listRepositoryFormats = filter (\<lambda>e. offered e \<noteq> Some False) engines"
  by code_simp

text \<open>
  the catalogue is consistent. Every descriptor is found under its own identifier and under each alias, written in any
  case and with surrounding blanks; the formats offered are the descriptors not excluded, each once; and a draft of an offered
  format names that format, has mirrors unless it is a Git mirror, and only then Git settings.
\<close>

theorem format_catalog_consistent:
  assumes "e \<in> set engines" and "i \<in> set (engine_id e # aliases e)" and "to_lower (js_trim f) = i"
  shows "getRepositoryFormat f = Some e \<and>
    (e \<in> set listRepositoryFormats \<longleftrightarrow> offered e \<noteq> Some False) \<and> distinct listRepositoryFormats \<and>
    draft_format (createRepositoryDraft name f) = Some (engine_id e) \<and>
    (mirrors (createRepositoryDraft name f) = Some [] \<longleftrightarrow> git_repo (createRepositoryDraft name f) = None)"
proof -
  have k: "(i, e) \<in> set FORMAT_CATALOG" using assms(1,2) by (auto simp: FORMAT_CATALOG_def)
  then have "i \<noteq> []" using catalog_ids_normal by (auto simp: list_all_iff)
  then have "f \<noteq> []" using assms(3) by (auto simp: to_lower_def)
  then have "normalized_format f = i" using assms(3) by (simp add: normalized_format_def)
  then have g: "getRepositoryFormat f = Some e"
    using k by (simp add: getRepositoryFormat_def Let_def catalog_lookup)
  have "distinct engines" by code_simp
  then have l: "(e \<in> set listRepositoryFormats \<longleftrightarrow> offered e \<noteq> Some False) \<and> distinct listRepositoryFormats"
    using assms(1) by (simp add: list_offered)
  have "list_all (\<lambda>e. supportsMirrors e = Some False \<longleftrightarrow> protocol e = ''github'' \<or> protocol e = ''gitlab'') engines"
    "list_all (\<lambda>e. engine_id e = ''maven'' \<or> engine_id e = ''files'' \<longrightarrow> supportsMirrors e = None) engines"
    by (simp_all add: engines_def engine_defs)
  then have m: "supportsMirrors e = Some False \<longleftrightarrow> protocol e = ''github'' \<or> protocol e = ''gitlab''"
    "engine_id e = ''maven'' \<or> engine_id e = ''files'' \<longrightarrow> supportsMirrors e = None"
    using assms(1) by (simp_all add: list_all_iff)
  show ?thesis using g l m by (auto simp: createRepositoryDraft_def Let_def)
qed

theorem format_catalog_consistent_witness:
  "getRepositoryFormat '' Yum '' = Some rpmEngine"
proof -
  have "to_lower (js_trim '' Yum '') = ''yum''" by code_simp
  then show ?thesis
    using format_catalog_consistent [of rpmEngine "''yum''" "'' Yum ''" "[]"] by (simp add: engines_def engine_defs(12))
qed

text \<open>A format named like a property of every object gets a built-in object instead of a descriptor.\<close>

theorem inherited_name_is_no_format:
  "getRepositoryFormat ''constructor'' = None \<and> draft_format (createRepositoryDraft n ''Constructor'') = None"
proof -
  have "normalized_format ''constructor'' = ''constructor''" "normalized_format ''Constructor'' = ''constructor''"
    by code_simp+
  moreover have "map_of (rev FORMAT_CATALOG) ''constructor'' = None"
    by (simp add: FORMAT_CATALOG_def engines_def engine_defs)
  ultimately have "getRepositoryFormat ''constructor'' = None" "getRepositoryFormat ''Constructor'' = None"
    by (simp_all add: getRepositoryFormat_def Let_def prototype_names_def)
  then show ?thesis by (simp add: createRepositoryDraft_def Let_def)
qed

section \<open>Repository names are route-safe\<close>

lemma az_unreserved: "az c \<Longrightarrow> unreserved c" and az_not_dash: "az c \<Longrightarrow> c \<noteq> CHR ''-''" and az_ascii: "az c \<Longrightarrow> byte c < 128"
  and az_not_slash: "az c \<Longrightarrow> c \<noteq> CHR ''/''"
  by (auto simp: az_def unreserved_def Let_def)

lemma slug_words_split:
  "slug_words b s \<longleftrightarrow>
     (case split_on CHR ''-'' s of
        [] \<Rightarrow> False
      | w # ws \<Rightarrow> list_all az w \<and> (b \<or> w \<noteq> []) \<and> list_all (\<lambda>v. v \<noteq> [] \<and> list_all az v) ws)"
proof (induction b s rule: slug_words.induct)
  case (2 b c s)
  obtain w ws where sp: "split_on CHR ''-'' s = w # ws" by (meson neq_Nil_conv split_on_nonempty)
  with 2 show ?case by (cases "az c") (auto dest: az_not_dash)
qed simp

lemma slug_words_chars: "slug_words b s \<Longrightarrow> c \<in> set s \<Longrightarrow> az c \<or> c = CHR ''-''"
  by (induction b s rule: slug_words.induct) (auto split: if_splits)

lemma unreserved_encode: "list_all unreserved s \<Longrightarrow> encodeURIComponent s = s"
  by (induction s) (auto simp: encodeURIComponent_def encode_byte_def)

lemma unreserved_segment: "list_all unreserved s \<Longrightarrow> encodePathSegment s = s"
  unfolding encodePathSegment_eq by (induction s) (auto simp: segment_byte_def encode_byte_def)

lemma slug_facts:
  assumes "slug_words b s"
  shows "encodeURIComponent s = s" "utf8_wf s" "js_length s = length s" "CHR ''/'' \<notin> set s"
proof -
  have c: "az c \<or> c = CHR ''-''" if "c \<in> set s" for c using slug_words_chars [OF assms that] .
  have d: "unreserved CHR ''-''" "byte CHR ''-'' < 128" by (simp_all add: unreserved_def)
  show "encodeURIComponent s = s" using c d(1) by (intro unreserved_encode) (auto simp: list_all_iff dest: c az_unreserved)
  show "utf8_wf s" using d(2) by (intro utf8_wf_ascii) (auto simp: list_all_iff dest: c az_ascii)
  show "js_length s = length s" using d(2) by (intro js_length_ascii) (auto dest: c az_ascii)
  show "CHR ''/'' \<notin> set s" using c az_not_slash by fastforce
qed

text \<open>
  a repository name is accepted exactly when it is one to 64 characters long, consists of non-empty words of lower-case
  letters joined by single hyphens, and is not reserved; an accepted name is its own encoding in a path and is read back
  from it, so that every encoding of the name gives the same URL.
\<close>

theorem repository_slug_grammar:
  "(isValidRepositorySlug s \<longleftrightarrow>
      length s \<le> 64 \<and> s \<notin> set RESERVED_REPOSITORY_NAMES \<and>
      (\<forall>w\<in>set (split_on CHR ''-'' s). w \<noteq> [] \<and> list_all az w)) \<and>
   (isValidRepositorySlug s \<longrightarrow>
      encodePathSegment s = s \<and> decodePathSegment s = s \<and> split_on CHR ''/'' s = [s] \<and> s \<noteq> [])"
proof -
  have sw: "slug_words False s \<longleftrightarrow> (\<forall>w\<in>set (split_on CHR ''-'' s). w \<noteq> [] \<and> list_all az w)"
    unfolding slug_words_split [of False s] by (auto simp: list_all_iff split: list.splits)
  have v: "isValidRepositorySlug s \<longleftrightarrow> length s \<le> 64 \<and> s \<notin> set RESERVED_REPOSITORY_NAMES \<and> slug_words False s"
    using slug_facts(3) [of False s] by (auto simp: isValidRepositorySlug_def)
  have "encodePathSegment s = s \<and> decodePathSegment s = s \<and> split_on CHR ''/'' s = [s] \<and> s \<noteq> []" if w: "slug_words False s"
  proof -
    have "unreserved CHR ''-''" by code_simp
    then have "list_all unreserved s" unfolding list_all_iff using slug_words_chars [OF w] az_unreserved by blast
    then have e: "encodePathSegment s = s" by (rule unreserved_segment)
    moreover have "decodePathSegment s = s" using decode_encode_segment [OF slug_facts(2) [OF w]] e by simp
    moreover have "s \<noteq> []" using w by auto
    ultimately show ?thesis using split_on_single [OF slug_facts(4) [OF w]] by simp
  qed
  with v sw show ?thesis by auto
qed

theorem repository_slug_grammar_witness:
  "encodePathSegment ''my-repo'' = ''my-repo''"
proof -
  have "isValidRepositorySlug ''my-repo''" by code_simp
  then show ?thesis using repository_slug_grammar [of "''my-repo''"] by blast
qed

end
