(* ===== verification/Snippets.thy ===== *)
theory Snippets
  imports Repository_Formats Machine
begin

text \<open>
  The snippets beside a repository (\<open>browser/snippets.js\<close>) and the functions that build them
  (\<open>repository-engines/*-snippets.js\<close>). The origin and host of the page, the instance name it shows, the
  answers of the server and the XML parser are parameters. Sizes and the indicator under the tabs are not modelled.
\<close>

section \<open>Building snippets\<close>

definition nl :: string where "nl = [CHR 0x0A]"
definition dq :: "string \<Rightarrow> string" where "dq s = CHR 0x22 # s @ [CHR 0x22]"
definition sq :: "string \<Rightarrow> string" where "sq s = CHR 0x27 # s @ [CHR 0x27]"

record snippet_state =
  artifact :: bool
  snippets :: "(string \<times> string) list"
  titleKey :: string
  subtitleKey :: string

record site =
  origin :: string
  host :: string
  instanceName :: string

definition buildCargoSnippets :: "site \<Rightarrow> string \<Rightarrow> (string \<times> string) list" where
  "buildCargoSnippets w repositoryName =
     (let encodedName = encodeURIComponent repositoryName;
          registryURL = origin w @ ''/'' @ encodedName @ ''/'';
          sparseURL = ''sparse+'' @ registryURL
      in [(''cargo-registry'', ''[registries.'' @ repositoryName @ '']'' @ nl @ ''index = '' @ dq sparseURL),
          (''cargo-source'', ''[source.crates-io]'' @ nl @ ''replace-with = '' @ dq repositoryName @ nl @ nl @
             ''[source.'' @ repositoryName @ '']'' @ nl @ ''registry = '' @ dq sparseURL),
          (''cargo-login'', ''cargo login --registry '' @ repositoryName),
          (''cargo-publish'', ''cargo publish --registry '' @ repositoryName)])"

definition buildDockerSnippets :: "site \<Rightarrow> string \<Rightarrow> (string \<times> string) list" where
  "buildDockerSnippets w repositoryName =
     (let prefix = host w @ ''/'' @ repositoryName
      in [(''docker-pull'', ''docker pull '' @ prefix @ ''/<image>:<tag>''),
          (''docker-tag'', ''docker tag <source-image>:<tag> '' @ prefix @ ''/<image>:<tag>''),
          (''docker-push'', ''docker push '' @ prefix @ ''/<image>:<tag>''),
          (''docker-login'', ''docker login '' @ host w)])"

definition buildNPMSnippets :: "site \<Rightarrow> string \<Rightarrow> (string \<times> string) list" where
  "buildNPMSnippets w repositoryName =
     (let encodedName = encodeURIComponent repositoryName;
          registryURL = origin w @ ''/'' @ encodedName @ ''/'';
          authPath = host w @ ''/'' @ encodedName @ ''/''
      in [(''npm-config'', ''npm config set registry '' @ registryURL @ nl @ ''npm config set //'' @ authPath @
             '':_authToken <API_TOKEN>''),
          (''npm-install'', ''npm install <package> --registry '' @ registryURL),
          (''npm-publish'', ''npm publish --registry '' @ registryURL)])"

definition native_texts :: "string \<Rightarrow> string \<Rightarrow> (string \<times> string) list" where
  "native_texts url name =
     [(''conda'', ''conda install --override-channels --channel '' @ dq url @ '' PACKAGE''),
      (''conda-native'', ''conda install --override-channels --channel '' @ dq url @ '' PACKAGE''),
      (''apk'', ''wget -O /etc/apk/keys/renop.rsa.pub '' @ dq (url @ ''/renop.rsa.pub'') @ nl @
         ''apk add --repository '' @ dq url @ '' PACKAGE''),
      (''apt'', ''# Install '' @ url @ ''/renop.asc as /etc/apt/keyrings/'' @ name @ ''.asc'' @ nl @ ''Types: deb'' @ nl @
         ''URIs: '' @ url @ nl @ ''Suites: stable'' @ nl @ ''Components: main'' @ nl @
         ''Signed-By: /etc/apt/keyrings/'' @ name @ ''.asc''),
      (''rpm'', ''['' @ name @ '']'' @ nl @ ''name='' @ name @ nl @ ''baseurl='' @ url @ nl @ ''enabled=1'' @ nl @
         ''repo_gpgcheck=1'' @ nl @ ''gpgcheck=1'' @ nl @ ''gpgkey='' @ url @ ''/repodata/repomd.xml.key'' @ nl @
         ''# Also import the publisher'' @ [CHR 0x27] @ ''s RPM package signing key.'')]"

text \<open>A format without a text would give the value undefined under the key; the descriptors name only these formats.\<close>

definition buildNativeSnippets :: "site \<Rightarrow> string \<Rightarrow> string list \<Rightarrow> snippet_state" where
  "buildNativeSnippets w format parts =
     (let name = hd parts; url = origin w @ ''/'' @ encodeURIComponent name
      in \<lparr>artifact = False,
          snippets = (case map_of (native_texts url name) format of None \<Rightarrow> [] | Some s \<Rightarrow> [(''native-client'', s)]),
          titleKey = ''details.nativeTitle'', subtitleKey = ''details.nativeSubtitle''\<rparr>)"

definition conan_snippets :: "site \<Rightarrow> string list \<Rightarrow> snippet_state" where
  "conan_snippets w parts =
     \<lparr>artifact = False,
      snippets = [(''native-client'', ''conan remote add '' @ dq (hd parts) @ '' '' @
        dq (origin w @ ''/'' @ encodeURIComponent (hd parts)) @ nl @ ''conan cache sign '' @ dq ''PACKAGE/*'' @ nl @
        ''conan upload '' @ dq ''PACKAGE/*'' @ '' --remote '' @ dq (hd parts) @ '' --confirm'')],
      titleKey = ''details.nativeTitle'', subtitleKey = ''details.nativeSubtitle''\<rparr>"

definition buildGitSnippets :: "site \<Rightarrow> string \<Rightarrow> string \<Rightarrow> (string \<times> string) list" where
  "buildGitSnippets w repositoryName slug =
     (let prefix = origin w @ ''/'' @ encodeURIComponent repositoryName @ ''/'' @ slug
      in [(''releases'', ''# Download release artifact'' @ nl @ ''curl -fSL -O '' @
             dq (prefix @ ''/releases/download/<tag>/<filename>'')),
          (''actions'', ''# Download workflow artifact'' @ nl @ ''curl -fSL -O '' @
             dq (prefix @ ''/actions/<run_id>/<filename>''))])"

definition git_snippets :: "site \<Rightarrow> string list \<Rightarrow> snippet_state" where
  "git_snippets w pathParts =
     (let repoName = (case pathParts of [] \<Rightarrow> ''<repo>'' | p # _ \<Rightarrow> or_else p ''<repo>'');
          slug = (if length pathParts \<ge> 3 \<and> pathParts ! 1 \<noteq> [] \<and> pathParts ! 2 \<noteq> []
                  then pathParts ! 1 @ ''/'' @ pathParts ! 2 else ''<owner>/<repo>'')
      in \<lparr>artifact = False, snippets = buildGitSnippets w repoName slug,
          titleKey = ''details.gitSnippetTitle'', subtitleKey = ''details.gitSnippetSubtitle''\<rparr>)"

subsection \<open>Maven\<close>

text \<open>
  A request answers with \<open>Inl\<close> when it fails, or with \<open>response.ok\<close> and the text of the body. The parser gives for
  each element name the texts of its elements, or nothing for a document with an error.
\<close>

record net =
  fetch :: "string \<Rightarrow> unit + (bool \<times> string)"
  parse_xml :: "string \<Rightarrow> (string \<Rightarrow> string list) option"

record coordinates =
  groupId :: string
  artifactId :: string
  version :: string

definition xmlText :: "(string \<Rightarrow> string list) \<Rightarrow> string \<Rightarrow> string" where
  "xmlText doc tag = (case doc tag of [] \<Rightarrow> [] | s # _ \<Rightarrow> s)"

definition details_url :: "string \<Rightarrow> string" where
  "details_url metadataPath = ''/api/repositories/details'' @ metadataPath"

text \<open>The metadata beside the path or one level up: its path, whether it was found, and the version already known.\<close>

definition metadata_location :: "net \<Rightarrow> string \<Rightarrow> string list \<Rightarrow> (string \<times> bool \<times> string) option" where
  "metadata_location n path pathParts =
     (let directoryPath = (if ends_with ''/'' path then path else path @ ''/'');
          metadataPath = directoryPath @ ''maven-metadata.xml''
      in case fetch n (details_url metadataPath) of
           Inl _ \<Rightarrow> None
         | Inr (True, _) \<Rightarrow> Some (metadataPath, True, [])
         | Inr (False, _) \<Rightarrow>
             (let parentPath = ''/'' @ join ''/'' (butlast pathParts) @ ''/'';
                  metadataPath = parentPath @ ''maven-metadata.xml''
              in case fetch n (details_url metadataPath) of
                   Inl _ \<Rightarrow> None
                 | Inr (ok, _) \<Rightarrow> Some (metadataPath, ok, last pathParts)))"

definition read_coordinates :: "string \<Rightarrow> (string \<Rightarrow> string list) \<Rightarrow> coordinates option" where
  "read_coordinates v doc =
     (let g = xmlText doc ''groupId''; a = xmlText doc ''artifactId'';
          v = (if v \<noteq> [] then v else (case doc ''version'' of [] \<Rightarrow> [] | vs \<Rightarrow> last vs))
      in if g \<noteq> [] \<and> a \<noteq> [] \<and> v \<noteq> [] then Some \<lparr>groupId = g, artifactId = a, version = v\<rparr> else None)"

definition detectMavenCoordinates :: "net \<Rightarrow> string \<Rightarrow> string list \<Rightarrow> coordinates option" where
  "detectMavenCoordinates n path pathParts =
     (if length pathParts \<le> 3 then None
      else (case metadata_location n path pathParts of
              None \<Rightarrow> None
            | Some (metadataPath, ok, v) \<Rightarrow>
                if \<not> ok then None
                else (case fetch n metadataPath of
                        Inr (True, body) \<Rightarrow>
                          (case parse_xml n body of None \<Rightarrow> None | Some doc \<Rightarrow> read_coordinates v doc)
                      | _ \<Rightarrow> None)))"

definition artifact_texts :: "coordinates \<Rightarrow> (string \<times> string) list" where
  "artifact_texts c =
     (let gav = groupId c @ '':'' @ artifactId c @ '':'' @ version c
      in [(''maven'', ''<dependency>'' @ nl @ ''  <groupId>'' @ groupId c @ ''</groupId>'' @ nl @ ''  <artifactId>'' @
             artifactId c @ ''</artifactId>'' @ nl @ ''  <version>'' @ version c @ ''</version>'' @ nl @ ''</dependency>''),
          (''gradle-kotlin'', ''implementation('' @ dq gav @ '')''),
          (''gradle-groovy'', ''implementation '' @ sq gav),
          (''sbt'', ''libraryDependencies += '' @ dq (groupId c) @ '' % '' @ dq (artifactId c) @ '' % '' @ dq (version c))])"

definition name_char :: "char \<Rightarrow> bool" where
  "name_char c \<longleftrightarrow> (let n = (of_char c :: nat) in
     (48 \<le> n \<and> n \<le> 57) \<or> (65 \<le> n \<and> n \<le> 90) \<or> (97 \<le> n \<and> n \<le> 122) \<or> n = 45)"

text \<open>Every UTF-16 unit outside the class becomes a dash: a lead byte as many as it counts units.\<close>

definition dashed :: "string \<Rightarrow> string" where
  "dashed s = concat (map (\<lambda>c. if name_char c then [c] else replicate (units c) CHR ''-'') s)"

definition repository_texts :: "site \<Rightarrow> string list \<Rightarrow> (string \<times> string) list" where
  "repository_texts w pathParts =
     (let repositoryPath = (case pathParts of [] \<Rightarrow> [] | p # _ \<Rightarrow> ''/'' @ encodeURIComponent p);
          repositoryURL = origin w @ repositoryPath;
          name = js_trim (instanceName w);
          cleanName = to_lower (dashed name);
          repositoryID = (case pathParts of [] \<Rightarrow> cleanName | p # _ \<Rightarrow> cleanName @ ''-'' @ p);
          repositoryName = (case pathParts of [] \<Rightarrow> name | p # _ \<Rightarrow> name @ '' - '' @ p)
      in [(''maven'', ''<repository>'' @ nl @ ''  <id>'' @ repositoryID @ ''</id>'' @ nl @ ''  <name>'' @ repositoryName @
             ''</name>'' @ nl @ ''  <url>'' @ repositoryURL @ ''</url>'' @ nl @ ''</repository>''),
          (''gradle-kotlin'', ''maven {'' @ nl @ ''  url = uri('' @ dq repositoryURL @ '')'' @ nl @ ''}''),
          (''gradle-groovy'', ''maven {'' @ nl @ ''  url '' @ dq repositoryURL @ nl @ ''}''),
          (''sbt'', ''resolvers += '' @ dq repositoryName @ '' at '' @ dq repositoryURL)])"

definition buildMavenSnippets :: "site \<Rightarrow> net \<Rightarrow> string \<Rightarrow> string list \<Rightarrow> bool \<times> (string \<times> string) list" where
  "buildMavenSnippets w n path pathParts =
     (case detectMavenCoordinates n path pathParts of
        Some c \<Rightarrow> (True, artifact_texts c)
      | None \<Rightarrow> (False, repository_texts w pathParts))"

definition maven_snippets :: "site \<Rightarrow> net \<Rightarrow> string \<Rightarrow> string list \<Rightarrow> snippet_state" where
  "maven_snippets w n path pathParts =
     (case buildMavenSnippets w n path pathParts of (a, texts) \<Rightarrow>
        \<lparr>artifact = a, snippets = texts, titleKey = (if a then ''details.artifactTitle'' else ''details.title''),
         subtitleKey = ''details.subtitle''\<rparr>)"

fun build :: "site \<Rightarrow> net \<Rightarrow> builder \<Rightarrow> string \<Rightarrow> string list \<Rightarrow> snippet_state" where
  "build w n MavenSnippets path parts = maven_snippets w n path parts"
| "build w n CargoSnippets path parts =
     \<lparr>artifact = False, snippets = buildCargoSnippets w (hd parts), titleKey = ''details.cargoTitle'',
      subtitleKey = ''details.cargoSubtitle''\<rparr>"
| "build w n DockerSnippets path parts =
     \<lparr>artifact = False, snippets = buildDockerSnippets w (hd parts), titleKey = ''details.dockerTitle'',
      subtitleKey = ''details.dockerSubtitle''\<rparr>"
| "build w n NpmSnippets path parts =
     \<lparr>artifact = False, snippets = buildNPMSnippets w (hd parts), titleKey = ''details.npmTitle'',
      subtitleKey = ''details.npmSubtitle''\<rparr>"
| "build w n (NativeSnippets format) path parts = buildNativeSnippets w format parts"
| "build w n ConanSnippets path parts = conan_snippets w parts"
| "build w n GitSnippets path parts = git_snippets w parts"

section \<open>The card\<close>

text \<open>
  A job is an update that waits for the repository details (no descriptor yet) or for the builder. \<open>fade\<close> is the
  running timer of a tab change with the tab it will show.
\<close>

record job =
  sequence :: nat
  job_path :: string
  job_parts :: "string list"
  job_engine :: "engine option"

record card =
  snippetUpdateSequence :: nat
  jobs :: "job list"
  card_visible :: bool
  col_right_hidden :: bool
  no_sidebar :: bool
  currentSnippets :: "(string \<times> string) list"
  card_tabs :: "string list"
  active_tab :: "string option"
  title_key :: string
  subtitle_key :: string
  snippet_code :: string
  fade :: "string option"

definition path_parts :: "string \<Rightarrow> string list" where
  "path_parts path = map decodePathSegment (filter (\<lambda>p. p \<noteq> []) (split_on CHR ''/'' path))"

definition snippet_of :: "(string \<times> string) list \<Rightarrow> string option \<Rightarrow> string" where
  "snippet_of ss tab = (case Option.bind tab (map_of ss) of None \<Rightarrow> [] | Some s \<Rightarrow> s)"

text \<open>Until the first await.\<close>

definition updateSnippets :: "string \<Rightarrow> card \<Rightarrow> card" where
  "updateSnippets path c =
     (let seq = Suc (snippetUpdateSequence c); parts = path_parts path;
          c = c\<lparr>snippetUpdateSequence := seq, card_visible := False\<rparr>
      in if parts = [] \<or> hd parts = ''index.html'' then c\<lparr>col_right_hidden := True, no_sidebar := True\<rparr>
         else c\<lparr>col_right_hidden := False, no_sidebar := False,
                jobs := jobs c @ [\<lparr>sequence = seq, job_path = path, job_parts = parts, job_engine = None\<rparr>]\<rparr>)"

definition remove_job :: "nat \<Rightarrow> 'a list \<Rightarrow> 'a list" where
  "remove_job k js = take k js @ drop (Suc k) js"

text \<open>The details arrived; a request that failed or a missing format counts as the empty format.\<close>

definition after_details :: "nat \<Rightarrow> string \<Rightarrow> card \<Rightarrow> card" where
  "after_details k format c =
     (let j = jobs c ! k in
      if sequence j \<noteq> snippetUpdateSequence c then c\<lparr>jobs := remove_job k (jobs c)\<rparr>
      else (case getRepositoryFormat format of
              Some e \<Rightarrow>
                if buildSnippets e = None \<or> snippetTabs e = [] then c\<lparr>jobs := remove_job k (jobs c), currentSnippets := []\<rparr>
                else c\<lparr>jobs := (jobs c)[k := j\<lparr>job_engine := Some e\<rparr>]\<rparr>
            | None \<Rightarrow> c\<lparr>jobs := remove_job k (jobs c), currentSnippets := []\<rparr>))"

definition after_build :: "nat \<Rightarrow> snippet_state \<Rightarrow> string list \<Rightarrow> card \<Rightarrow> card" where
  "after_build k r tabs c =
     (let j = jobs c ! k; c = c\<lparr>jobs := remove_job k (jobs c)\<rparr> in
      if sequence j \<noteq> snippetUpdateSequence c then c
      else c\<lparr>currentSnippets := snippets r, title_key := titleKey r, subtitle_key := subtitleKey r, card_visible := True,
             card_tabs := tabs, active_tab := (case tabs of [] \<Rightarrow> None | x # _ \<Rightarrow> Some x),
             snippet_code := snippet_of (snippets r) (case tabs of [] \<Rightarrow> None | x # _ \<Rightarrow> Some x)\<rparr>)"

definition handleSnippetTabClick :: "string \<Rightarrow> card \<Rightarrow> card" where
  "handleSnippetTabClick tab c = c\<lparr>active_tab := Some tab, fade := Some tab\<rparr>"

definition applySnippetChange :: "string \<Rightarrow> card \<Rightarrow> card" where
  "applySnippetChange tab c = c\<lparr>snippet_code := snippet_of (currentSnippets c) (Some tab), fade := None\<rparr>"

datatype card_event = Navigate string | Details nat string | Built nat net | TabClick string | Fade_Elapsed

fun card_step :: "site \<Rightarrow> card_event \<Rightarrow> card \<Rightarrow> card option" where
  "card_step w (Navigate path) c = Some (updateSnippets path c)"
| "card_step w (Details k format) c =
     (if k < length (jobs c) \<and> job_engine (jobs c ! k) = None then Some (after_details k format c) else None)"
| "card_step w (Built k n) c =
     (if k < length (jobs c) then
        (case job_engine (jobs c ! k) of
           Some e \<Rightarrow>
             (case buildSnippets e of
                Some b \<Rightarrow>
                  Some (after_build k (build w n b (job_path (jobs c ! k)) (job_parts (jobs c ! k))) (snippetTabs e) c)
              | None \<Rightarrow> None)
         | None \<Rightarrow> None)
      else None)"
| "card_step w (TabClick tab) c =
     (if card_visible c \<and> tab \<in> set (card_tabs c) then Some (handleSnippetTabClick tab c) else None)"
| "card_step w Fade_Elapsed c =
     (case fade c of Some tab \<Rightarrow> Some (applySnippetChange tab c) | None \<Rightarrow> None)"

definition card_start :: card where
  "card_start = \<lparr>snippetUpdateSequence = 0, jobs = [], card_visible = False, col_right_hidden = False, no_sidebar = False,
     currentSnippets = [], card_tabs = [], active_tab = None, title_key = [], subtitle_key = [], snippet_code = [], fade = None\<rparr>"

section \<open>Tabs and builders agree\<close>

text \<open>
  every tab of every format has a text: the builder a descriptor refers to yields exactly the keys the descriptor lists as
  its tabs, in that order, whatever the repository, the path and the answers of the server.
\<close>

theorem every_tab_has_snippet:
  assumes "e \<in> set engines"
  shows "case buildSnippets e of
      Some b \<Rightarrow> map fst (snippets (build w n b path parts)) = snippetTabs e \<and> snippetTabs e \<noteq> []
    | None \<Rightarrow> snippetTabs e = []"
proof -
  have "list_all (\<lambda>e. case buildSnippets e of
      Some b \<Rightarrow> map fst (snippets (build w n b path parts)) = snippetTabs e \<and> snippetTabs e \<noteq> []
    | None \<Rightarrow> snippetTabs e = []) engines"
    by (simp add: engines_def engine_defs maven_snippets_def buildMavenSnippets_def artifact_texts_def repository_texts_def
        buildCargoSnippets_def buildDockerSnippets_def buildNPMSnippets_def buildNativeSnippets_def native_texts_def
        conan_snippets_def git_snippets_def buildGitSnippets_def Let_def split: option.split)
  with assms show ?thesis by (simp add: list_all_iff)
qed

theorem every_tab_has_snippet_witness:
  "map fst (snippets (build w n DockerSnippets path [''images''])) =
     [''docker-pull'', ''docker-tag'', ''docker-push'', ''docker-login'']"
proof -
  have "dockerEngine \<in> set engines" by (simp add: engines_def)
  from every_tab_has_snippet [OF this, of w n path "[''images'']"] show ?thesis by (simp add: engine_defs(5))
qed

section \<open>The card shows the current repository\<close>

fun last_path :: "card_event list \<Rightarrow> string option" where
  "last_path [] = None"
| "last_path (e # es) = (case last_path es of Some p \<Rightarrow> Some p | None \<Rightarrow> (case e of Navigate p \<Rightarrow> Some p | _ \<Rightarrow> None))"

lemma last_path_snoc: "last_path (es @ [e]) = (case e of Navigate p \<Rightarrow> Some p | _ \<Rightarrow> last_path es)"
  by (induction es) (auto split: card_event.splits option.splits)

text \<open>What the card shows is what the builder of one engine made for the path.\<close>

definition shows_path :: "site \<Rightarrow> string option \<Rightarrow> card \<Rightarrow> bool" where
  "shows_path w p c \<longleftrightarrow>
     (\<exists>path e b n. p = Some path \<and> e \<in> set engines \<and> buildSnippets e = Some b \<and>
        currentSnippets c = snippets (build w n b path (path_parts path)) \<and>
        title_key c = titleKey (build w n b path (path_parts path)) \<and> card_tabs c = snippetTabs e)"

definition job_ok :: "nat \<Rightarrow> string option \<Rightarrow> job \<Rightarrow> bool" where
  "job_ok seq p j \<longleftrightarrow> sequence j \<le> seq \<and> job_parts j = path_parts (job_path j) \<and>
     (sequence j = seq \<longrightarrow> p = Some (job_path j)) \<and> (\<forall>e. job_engine j = Some e \<longrightarrow> e \<in> set engines)"

definition card_inv :: "site \<Rightarrow> string option \<Rightarrow> card \<Rightarrow> bool" where
  "card_inv w p c \<longleftrightarrow>
     distinct (map sequence (jobs c)) \<and> list_all (job_ok (snippetUpdateSequence c) p) (jobs c) \<and>
     (card_visible c \<longrightarrow> shows_path w p c \<and> snippetUpdateSequence c \<notin> sequence ` set (jobs c) \<and>
        (case fade c of
           Some t \<Rightarrow> active_tab c = Some t
         | None \<Rightarrow> snippet_code c = snippet_of (currentSnippets c) (active_tab c)))"

text \<open>The steps in which no card is built while the timer of a tab change is running.\<close>

definition unhurried :: "site \<Rightarrow> card_event \<Rightarrow> card \<Rightarrow> card option" where
  "unhurried w e c = (case e of Built k n \<Rightarrow> if fade c = None then card_step w e c else None | _ \<Rightarrow> card_step w e c)"

lemma set_remove_job: "set (remove_job k js) \<subseteq> set js"
  using set_take_subset set_drop_subset by (force simp: remove_job_def)

lemma map_remove_job: "map f (remove_job k js) = remove_job k (map f js)"
  by (simp add: remove_job_def take_map drop_map)

lemma remove_job_distinct: "distinct xs \<Longrightarrow> k < length xs \<Longrightarrow> distinct (remove_job k xs) \<and> xs ! k \<notin> set (remove_job k xs)"
  using id_take_nth_drop [of k xs] unfolding remove_job_def
  by (metis distinct_append disjoint_insert(1) distinct.simps(2) list.simps(15) Un_iff disjoint_iff set_append)

lemma jobs_removed:
  assumes "card_inv w p c" "k < length (jobs c)"
  shows "distinct (map sequence (remove_job k (jobs c)))"
    "list_all (job_ok (snippetUpdateSequence c) p) (remove_job k (jobs c))"
    "sequence (jobs c ! k) \<notin> sequence ` set (remove_job k (jobs c))"
proof -
  have "distinct (map sequence (jobs c))" using assms(1) by (simp add: card_inv_def)
  from remove_job_distinct [OF this, of k] assms(2)
  show "distinct (map sequence (remove_job k (jobs c)))" "sequence (jobs c ! k) \<notin> sequence ` set (remove_job k (jobs c))"
    by (simp_all add: map_remove_job [symmetric])
  show "list_all (job_ok (snippetUpdateSequence c) p) (remove_job k (jobs c))"
    using assms(1) set_remove_job by (fastforce simp: card_inv_def list_all_iff)
qed

lemma stale_removed:
  assumes "card_inv w p c" "k < length (jobs c)"
  shows "card_inv w p (c\<lparr>jobs := remove_job k (jobs c)\<rparr>)"
  using jobs_removed [OF assms] assms(1) set_remove_job [of k "jobs c"]
  by (auto simp: card_inv_def shows_path_def split: option.splits)

lemma navigate_inv: "card_inv w p c \<Longrightarrow> card_inv w (Some q) (updateSnippets q c)"
  by (auto simp: card_inv_def updateSnippets_def Let_def job_ok_def list_all_iff)

lemma hidden_inv:
  "card_inv w p c \<Longrightarrow> k < length (jobs c) \<Longrightarrow> \<not> card_visible c \<Longrightarrow>
   card_inv w p (c\<lparr>jobs := remove_job k (jobs c), currentSnippets := s\<rparr>)"
  by (subst card_inv_def) (simp add: jobs_removed(1,2))

lemma current_hidden: "card_inv w p c \<Longrightarrow> k < length (jobs c) \<Longrightarrow> sequence (jobs c ! k) = snippetUpdateSequence c \<Longrightarrow> \<not> card_visible c"
  unfolding card_inv_def by (metis image_eqI nth_mem)

lemma details_inv:
  assumes "card_inv w p c" "k < length (jobs c)"
  shows "card_inv w p (after_details k format c)"
proof (cases "sequence (jobs c ! k) = snippetUpdateSequence c")
  case False
  with stale_removed [OF assms] show ?thesis by (simp add: after_details_def Let_def)
next
  case True
  note h = current_hidden [OF assms True]
  show ?thesis
  proof (cases "getRepositoryFormat format")
    case None
    with True h hidden_inv [OF assms] show ?thesis by (simp add: after_details_def Let_def)
  next
    case (Some e)
    have "job_ok (snippetUpdateSequence c) p (jobs c ! k)" using assms by (simp add: card_inv_def list_all_length)
    then have "job_ok (snippetUpdateSequence c) p ((jobs c ! k)\<lparr>job_engine := Some e\<rparr>)"
      using get_engines [OF Some] by (simp add: job_ok_def)
    moreover have "map sequence ((jobs c)[k := (jobs c ! k)\<lparr>job_engine := Some e\<rparr>]) = map sequence (jobs c)"
      using assms(2) by (simp add: map_update list_update_same_conv)
    ultimately have "card_inv w p (c\<lparr>jobs := (jobs c)[k := (jobs c ! k)\<lparr>job_engine := Some e\<rparr>]\<rparr>)"
      using assms(1) h by (auto simp: card_inv_def list_all_iff dest!: set_update_subset_insert [THEN subsetD])
    with True Some h hidden_inv [OF assms] show ?thesis by (simp add: after_details_def Let_def)
  qed
qed

lemma built_inv:
  assumes "card_inv w p c" "k < length (jobs c)" "job_engine (jobs c ! k) = Some e" "buildSnippets e = Some b" "fade c = None"
  shows "card_inv w p (after_build k (build w n b (job_path (jobs c ! k)) (job_parts (jobs c ! k))) (snippetTabs e) c)"
proof (cases "sequence (jobs c ! k) = snippetUpdateSequence c")
  case False
  with stale_removed [OF assms(1,2)] show ?thesis by (simp add: after_build_def Let_def)
next
  case True
  have "job_ok (snippetUpdateSequence c) p (jobs c ! k)" using assms by (simp add: card_inv_def list_all_length)
  then have "p = Some (job_path (jobs c ! k))" "e \<in> set engines" "job_parts (jobs c ! k) = path_parts (job_path (jobs c ! k))"
    using True assms(3) by (auto simp: job_ok_def)
  with True assms(4,5) jobs_removed [OF assms(1,2)] show ?thesis
    by (auto simp: card_inv_def after_build_def Let_def shows_path_def)
qed

lemma click_inv: "card_inv w p c \<Longrightarrow> card_inv w p (handleSnippetTabClick t c)"
  by (auto simp: card_inv_def handleSnippetTabClick_def shows_path_def)

lemma fade_inv: "card_inv w p c \<Longrightarrow> fade c = Some t \<Longrightarrow> card_inv w p (applySnippetChange t c)"
  by (auto simp: card_inv_def applySnippetChange_def shows_path_def)

lemma unhurried_inv:
  assumes "card_inv w p c" "unhurried w e c = Some d"
  shows "card_inv w (case e of Navigate q \<Rightarrow> Some q | _ \<Rightarrow> p) d"
proof (cases e)
  case (Navigate q)
  with assms navigate_inv show ?thesis by (auto simp: unhurried_def)
next
  case (Details k format)
  with assms details_inv [OF assms(1)] show ?thesis by (auto simp: unhurried_def split: if_splits)
next
  case (Built k n)
  with assms built_inv [OF assms(1)] show ?thesis by (auto simp: unhurried_def split: if_splits option.splits)
next
  case (TabClick t)
  with assms click_inv show ?thesis by (auto simp: unhurried_def split: if_splits)
next
  case Fade_Elapsed
  with assms fade_inv show ?thesis by (auto simp: unhurried_def split: option.splits)
qed

lemma card_inv_run: "run (unhurried w) es card_start = Some c \<Longrightarrow> card_inv w (last_path es) c"
proof (induction es arbitrary: c rule: rev_induct)
  case Nil
  then show ?case by (auto simp: card_inv_def card_start_def)
next
  case (snoc e es)
  then obtain b where "run (unhurried w) es card_start = Some b" "unhurried w e b = Some c" by (auto simp: run_snoc)
  with unhurried_inv [OF snoc.IH] show ?case by (simp add: last_path_snoc)
qed

text \<open>
  the visible card belongs to the repository last navigated to, in whatever order the details and the snippets of
  several navigations arrive: its texts and its title are those a format's builder made for that path, its tabs are those
  of the format, and between tab changes the code is the text of the highlighted tab.
\<close>

theorem snippets_follow_navigation:
  assumes "run (unhurried w) es card_start = Some c" and "card_visible c"
  shows "shows_path w (last_path es) c \<and>
    (fade c = None \<longrightarrow> snippet_code c = snippet_of (currentSnippets c) (active_tab c))"
  using card_inv_run [OF assms(1)] assms(2) by (auto simp: card_inv_def split: option.splits)

definition sample_site :: site where
  "sample_site = \<lparr>origin = ''https://r.test'', host = ''r.test'', instanceName = ''R''\<rparr>"

definition no_net :: net where "no_net = \<lparr>fetch = (\<lambda>u. Inl ()), parse_xml = (\<lambda>b. None)\<rparr>"

definition sample_visit :: "card_event list" where
  "sample_visit = [Navigate ''/a'', Navigate ''/b'', Details 0 ''npm'', Details 0 ''docker'', Built 0 no_net]"

lemma sample_parts: "path_parts ''/a'' = [''a'']" "path_parts ''/b'' = [''b'']"
  by code_simp+

lemma sample_formats: "getRepositoryFormat ''npm'' = Some npmEngine" "getRepositoryFormat ''docker'' = Some dockerEngine"
  by (rule get_catalog, simp add: FORMAT_CATALOG_def engines_def engine_defs)+

theorem snippets_follow_navigation_witness:
  "\<exists>c. run (unhurried sample_site) sample_visit card_start = Some c \<and> card_visible c \<and>
     shows_path sample_site (Some ''/b'') c"
proof -
  have "\<exists>c. run (unhurried sample_site) sample_visit card_start = Some c \<and> card_visible c"
    by (simp add: sample_visit_def unhurried_def card_start_def updateSnippets_def sample_parts after_details_def
        after_build_def remove_job_def sample_formats engine_defs(5,6) Let_def)
  moreover have "last_path sample_visit = Some ''/b''" by (simp add: sample_visit_def)
  ultimately show ?thesis using snippets_follow_navigation by metis
qed

text \<open>
  The timer of a tab change survives a navigation: when the new card is built before it expires, it replaces the new
  code by the text of a tab the new format does not have.
\<close>

theorem stale_tab_change_empties_code:
  "\<exists>c. run (card_step sample_site) [Navigate ''/a'', Details 0 ''npm'', Built 0 no_net, TabClick ''npm-install'',
       Navigate ''/b'', Details 0 ''docker'', Built 0 no_net, Fade_Elapsed] card_start = Some c \<and>
     card_visible c \<and> active_tab c = Some ''docker-pull'' \<and> snippet_code c = [] \<and>
     snippet_of (currentSnippets c) (active_tab c) \<noteq> []"
  by (simp add: card_start_def updateSnippets_def sample_parts after_details_def after_build_def remove_job_def sample_formats
      engine_defs(5,6) Let_def handleSnippetTabClick_def applySnippetChange_def snippet_of_def buildDockerSnippets_def)

end
