(* ===== verification/App_Routes.thy ===== *)
theory App_Routes
  imports Routes Legal Repository_Formats
begin

text \<open>
  The pages of the application by path: the parsers of \<open>main.js\<close>, \<open>user-profiles.js\<close>,
  \<open>browser/maven.js\<close>, \<open>super-teams.js\<close> and \<open>tickets.js\<close>, the paths they are opened with, and how they share the
  top level of the site with the repositories.
\<close>

section \<open>Parsers\<close>

definition strip_slashes :: "string \<Rightarrow> string" where
  "strip_slashes s = rev (dropWhile (\<lambda>c. c = CHR ''/'') (rev s))"

definition normalized_path :: "string \<Rightarrow> string" where
  "normalized_path pathname = or_else (strip_slashes pathname) ''/''"

definition managerTabFromPath :: "string \<Rightarrow> string" where
  "managerTabFromPath pathname =
     (let normalized = normalized_path pathname in
      if normalized = ''/dashboard'' then ''dashboard''
      else if normalized = ''/storage'' then ''storage''
      else if normalized = ''/database'' then ''database''
      else if normalized = ''/users'' then ''users''
      else if normalized = ''/repositories'' then ''repositories''
      else if normalized = ''/settings'' \<or> starts_with ''/settings/'' normalized then ''settings''
      else [])"

definition managerRouteForTab :: "string \<Rightarrow> string" where
  "managerRouteForTab tabId =
     (if tabId = ''dashboard'' then ''/dashboard''
      else if tabId = ''storage'' then ''/storage''
      else if tabId = ''database'' then ''/database''
      else if tabId = ''users'' then ''/users''
      else if tabId = ''repositories'' then ''/repositories''
      else if tabId = ''settings'' then ''/settings''
      else [])"

text \<open>
  What follows a root: the rest after \<open>root/\<close>, if it is one non-empty segment that decodes. The functions
  of the sources share these steps and differ in what they do with the segment.
\<close>

definition segment_below :: "string \<Rightarrow> string \<Rightarrow> string option" where
  "segment_below root normalized =
     (if \<not> starts_with (root @ ''/'') normalized then None
      else (let segment = drop (length root + 1) normalized in
            if segment = [] \<or> CHR ''/'' \<in> set segment then None else decodeURIComponent segment))"

definition domain_of :: "string \<Rightarrow> string option" where
  "domain_of segment = (let domain = to_lower (js_trim segment) in if domain \<noteq> [] then Some domain else None)"

definition domainCenterRouteRoot :: string where "domainCenterRouteRoot = ''/account/maven-domains''"
definition publicDomainRouteRoot :: string where "publicDomainRouteRoot = ''/domain''"

definition mavenDomainRouteFromPath :: "string \<Rightarrow> string option" where
  "mavenDomainRouteFromPath pathname =
     (let normalized = normalized_path pathname in
      if normalized = domainCenterRouteRoot then Some []
      else Option.bind (segment_below domainCenterRouteRoot normalized) domain_of)"

definition publicMavenDomainRouteFromPath :: "string \<Rightarrow> string option" where
  "publicMavenDomainRouteFromPath pathname =
     Option.bind (segment_below publicDomainRouteRoot (normalized_path pathname)) domain_of"

definition prefix_edge :: "char \<Rightarrow> bool" where "prefix_edge c \<longleftrightarrow> az c \<or> is_digit c"

text \<open>\<open>/^[a-z0-9](?:[a-z0-9_-]*[a-z0-9])$/\<close>: at least two characters, the first and the last not a sign.\<close>

definition validPrefix :: "string \<Rightarrow> bool" where
  "validPrefix prefix \<longleftrightarrow> js_length prefix \<ge> 2 \<and> js_length prefix \<le> 64 \<and> length prefix \<ge> 2 \<and>
     list_all (\<lambda>c. prefix_edge c \<or> c = CHR ''_'' \<or> c = CHR ''-'') prefix \<and>
     prefix_edge (hd prefix) \<and> prefix_edge (last prefix)"

definition team_of :: "string \<Rightarrow> string option" where
  "team_of segment = (let prefix = to_lower (js_trim segment) in if validPrefix prefix then Some prefix else None)"

definition superTeamRouteRoot :: string where "superTeamRouteRoot = ''/account/teams''"
definition publicTeamRouteRoot :: string where "publicTeamRouteRoot = ''/team''"

definition superTeamRouteFromPath :: "string \<Rightarrow> string option" where
  "superTeamRouteFromPath pathname =
     (let normalized = normalized_path pathname in
      if normalized = superTeamRouteRoot then Some []
      else Option.bind (segment_below superTeamRouteRoot normalized) team_of)"

definition publicSuperTeamRouteFromPath :: "string \<Rightarrow> string option" where
  "publicSuperTeamRouteFromPath pathname =
     Option.bind (segment_below publicTeamRouteRoot (normalized_path pathname)) team_of"

definition ticketRoutes :: "string list" where "ticketRoutes = [''/account/tickets'', ''/account/reviews'']"

definition ticket_of :: "string \<Rightarrow> string option" where
  "ticket_of segment = (let i = js_trim segment in if i \<noteq> [] then Some i else None)"

fun ticket_route_in :: "string list \<Rightarrow> string \<Rightarrow> (string \<times> string) option" where
  "ticket_route_in [] normalized = None"
| "ticket_route_in (root # roots) normalized =
     (if normalized = root then Some ([], root)
      else if starts_with (root @ ''/'') normalized then
        map_option (\<lambda>i. (i, root)) (Option.bind (segment_below root normalized) ticket_of)
      else ticket_route_in roots normalized)"

definition parseTicketRoute :: "string \<Rightarrow> (string \<times> string) option" where
  "parseTicketRoute pathname = ticket_route_in ticketRoutes (normalized_path pathname)"

definition ticketRouteFromPath :: "string \<Rightarrow> bool" where
  "ticketRouteFromPath pathname \<longleftrightarrow> parseTicketRoute pathname \<noteq> None"

definition profile_sections :: "string list" where
  "profile_sections = [''edit'', ''maven'', ''cargo'', ''docker'', ''npm'']"

text \<open>The pattern of a profile path, by its segments: the name and the section.\<close>

definition profile_match :: "string \<Rightarrow> (string \<times> string) option" where
  "profile_match path =
     (case split_on CHR ''/'' path of
        [[], r, n] \<Rightarrow> if r = ''user'' \<and> n \<noteq> [] then Some (n, []) else None
      | [[], r, n, x] \<Rightarrow>
          if r = ''user'' \<and> n \<noteq> [] \<and> (x = [] \<or> x \<in> set profile_sections) then Some (n, x) else None
      | [[], r, n, x, []] \<Rightarrow> if r = ''user'' \<and> n \<noteq> [] \<and> x \<in> set profile_sections then Some (n, x) else None
      | _ \<Rightarrow> None)"

definition profileRouteFromPath :: "string \<Rightarrow> (string \<times> string) option" where
  "profileRouteFromPath path =
     (case profile_match path of
        None \<Rightarrow> None
      | Some (n, x) \<Rightarrow>
          (case decodeURIComponent n of
             None \<Rightarrow> None
           | Some d \<Rightarrow> (let username = to_lower (js_trim d) in if username \<noteq> [] then Some (username, x) else None)))"

definition accountTabFromPath :: "string \<Rightarrow> string" where
  "accountTabFromPath pathname =
     (if mavenDomainRouteFromPath pathname \<noteq> None then ''maven-domains''
      else if superTeamRouteFromPath pathname \<noteq> None then ''super-teams''
      else if ticketRouteFromPath pathname then ''tickets''
      else [])"

definition isAccountTab :: "string \<Rightarrow> bool" where
  "isAccountTab tabId \<longleftrightarrow> tabId = ''maven-domains'' \<or> tabId = ''super-teams'' \<or> tabId = ''tickets''"

section \<open>The paths pages are opened with\<close>

text \<open>The path \<open>navigateToUserProfile\<close> opens, if the name is not blank.\<close>

definition user_profile_path :: "string \<Rightarrow> string \<Rightarrow> string option" where
  "user_profile_path username section =
     (let normalized = to_lower (js_trim username);
          normalizedSection = (if section \<in> set profile_sections then section else [])
      in if normalized = [] then None
         else Some (''/user/'' @ encodeURIComponent normalized @
           (if normalizedSection \<noteq> [] then ''/'' @ normalizedSection else [])))"

definition maven_center_path :: "string \<Rightarrow> string" where
  "maven_center_path domain =
     (if domain \<noteq> [] then domainCenterRouteRoot @ ''/'' @ encodeURIComponent (to_lower (js_trim domain))
      else domainCenterRouteRoot)"

definition team_center_path :: "string \<Rightarrow> string" where
  "team_center_path prefix =
     (if prefix \<noteq> [] then superTeamRouteRoot @ ''/'' @ encodeURIComponent prefix else superTeamRouteRoot)"

section \<open>Segments below a root\<close>

lemma strip_slashes_id [simp]: "s \<noteq> [] \<Longrightarrow> last s \<noteq> CHR ''/'' \<Longrightarrow> strip_slashes s = s"
  by (cases s rule: rev_cases) (simp_all add: strip_slashes_def)

lemma encoded_no_slash: "CHR ''/'' \<notin> set (encodeURIComponent s)"
proof -
  have "CHR ''/'' \<notin> set (encode_byte c)" for c
    using hex_char_not_slash [of "byte c div 16"] hex_char_not_slash [of "byte c mod 16"] byte_div_16 [of c]
    by (auto simp: encode_byte_def escape_def unreserved_def Let_def)
  then show ?thesis by (auto simp: encodeURIComponent_def)
qed

lemma encoded_nonempty: "encodeURIComponent s = [] \<longleftrightarrow> s = []"
  by (cases s) (auto simp: encodeURIComponent_def encode_byte_def escape_def)

lemma encode_last: "s \<noteq> [] \<Longrightarrow> last (root @ ''/'' @ encodeURIComponent s) \<noteq> CHR ''/''"
proof -
  assume "s \<noteq> []"
  then have ne: "encodeURIComponent s \<noteq> []" by (simp add: encoded_nonempty)
  have "last (encodeURIComponent s) \<noteq> CHR ''/''" using encoded_no_slash [of s] last_in_set [OF ne] by metis
  with ne show ?thesis by simp
qed

lemma segment_below_encoded:
  assumes "s \<noteq> []" "utf8_wf s"
  shows "segment_below root (normalized_path (root @ ''/'' @ encodeURIComponent s)) = Some s"
proof -
  let ?p = "root @ ''/'' @ encodeURIComponent s"
  have ne: "encodeURIComponent s \<noteq> []" using assms(1) by (simp add: encoded_nonempty)
  have "normalized_path ?p = ?p" using encode_last [OF assms(1), of root] by (simp add: normalized_path_def)
  then show ?thesis
    using ne encoded_no_slash [of s] decode_encode_component [OF assms(2)]
      starts_with_append [of "root @ ''/''" "encodeURIComponent s"] by (simp add: segment_below_def Let_def)
qed

text \<open>A name as the routes hold it: without surrounding blanks and in lower case.\<close>

definition canonical :: "string \<Rightarrow> bool" where
  "canonical s \<longleftrightarrow> s \<noteq> [] \<and> utf8_wf s \<and> js_trim s = s \<and> to_lower s = s"

lemma root_not_segment: "normalized_path (root @ ''/'' @ encodeURIComponent s) = root \<Longrightarrow> s = []"
proof (rule ccontr)
  assume n: "normalized_path (root @ ''/'' @ encodeURIComponent s) = root" and "s \<noteq> []"
  from encode_last [OF this(2), of root] have "last (root @ ''/'' @ encodeURIComponent s) \<noteq> CHR ''/''" .
  with n show False by (simp add: normalized_path_def)
qed

lemma profile_match_path:
  assumes "CHR ''/'' \<notin> set n" "n \<noteq> []" "x = [] \<or> x \<in> set profile_sections"
  shows "profile_match (''/user/'' @ n @ (if x \<noteq> [] then ''/'' @ x else [])) = Some (n, x)"
proof -
  have x: "CHR ''/'' \<notin> set x" using assms(3) by (auto simp: profile_sections_def)
  have "split_on CHR ''/'' (''/user/'' @ n @ (if x \<noteq> [] then ''/'' @ x else [])) =
      [[], ''user'', n] @ (if x \<noteq> [] then [x] else [])"
    using assms(1) x by (simp add: split_on_single split_on_append)
  then show ?thesis using assms(2,3) by (auto simp: profile_match_def)
qed

text \<open>
  C38: the application reads back the paths it opens. Opening the profile of a user in a section, the center of a Maven
  domain or of a team, or a domain or team page with any canonical name, however it has to be escaped, gives a path from
  which the route yields exactly that name (and section).
\<close>

theorem opened_routes_roundtrip:
  assumes "canonical s"
  shows "(x = [] \<or> x \<in> set profile_sections \<longrightarrow>
      map_option profileRouteFromPath (user_profile_path s x) = Some (Some (s, x))) \<and>
    mavenDomainRouteFromPath (maven_center_path s) = Some s \<and>
    publicMavenDomainRouteFromPath (publicDomainRouteRoot @ ''/'' @ encodeURIComponent s) = Some s \<and>
    (validPrefix s \<longrightarrow> superTeamRouteFromPath (team_center_path s) = Some s \<and>
       publicSuperTeamRouteFromPath (publicTeamRouteRoot @ ''/'' @ encodeURIComponent s) = Some s)"
proof -
  have s: "s \<noteq> []" "utf8_wf s" "js_trim s = s" "to_lower s = s" using assms by (simp_all add: canonical_def)
  note below = segment_below_encoded [OF s(1,2)] and dec = decode_encode_component [OF s(2)]
  have root: "normalized_path (root @ ''/'' @ encodeURIComponent s) \<noteq> root" for root
    using root_not_segment s(1) by blast
  have "profileRouteFromPath (''/user/'' @ encodeURIComponent s @ (if x \<noteq> [] then ''/'' @ x else [])) = Some (s, x)"
    if "x = [] \<or> x \<in> set profile_sections"
    using profile_match_path [OF encoded_no_slash _ that] s dec
    by (simp add: profileRouteFromPath_def Let_def encoded_nonempty)
  then have "x = [] \<or> x \<in> set profile_sections \<longrightarrow>
      map_option profileRouteFromPath (user_profile_path s x) = Some (Some (s, x))"
    using s by (auto simp: user_profile_path_def Let_def)
  moreover have "mavenDomainRouteFromPath (maven_center_path s) = Some s"
    using below [of domainCenterRouteRoot] root [of domainCenterRouteRoot] s
    by (simp add: mavenDomainRouteFromPath_def maven_center_path_def domain_of_def Let_def)
  moreover have "publicMavenDomainRouteFromPath (publicDomainRouteRoot @ ''/'' @ encodeURIComponent s) = Some s"
    using below [of publicDomainRouteRoot] s by (simp add: publicMavenDomainRouteFromPath_def domain_of_def Let_def)
  moreover have "superTeamRouteFromPath (team_center_path s) = Some s" if "validPrefix s"
    using below [of superTeamRouteRoot] root [of superTeamRouteRoot] s that
    by (simp add: superTeamRouteFromPath_def team_center_path_def team_of_def Let_def)
  moreover have "publicSuperTeamRouteFromPath (publicTeamRouteRoot @ ''/'' @ encodeURIComponent s) = Some s" if "validPrefix s"
    using below [of publicTeamRouteRoot] s that by (simp add: publicSuperTeamRouteFromPath_def team_of_def Let_def)
  ultimately show ?thesis by blast
qed

lemma sample_canonical: "canonical ''a/b c''"
  unfolding canonical_def by code_simp

theorem opened_routes_roundtrip_witness:
  "mavenDomainRouteFromPath (maven_center_path ''a/b c'') = Some ''a/b c''"
  using opened_routes_roundtrip [OF sample_canonical, of "[]"] by blast

section \<open>Pages and repositories share the top level\<close>

text \<open>The first two segments of an absolute path.\<close>

definition until_slash :: "string \<Rightarrow> string" where "until_slash s = takeWhile (\<lambda>c. c \<noteq> CHR ''/'') s"
definition after_slash :: "string \<Rightarrow> string" where "after_slash s = drop 1 (dropWhile (\<lambda>c. c \<noteq> CHR ''/'') s)"
definition first_segment :: "string \<Rightarrow> string" where "first_segment path = until_slash (drop 1 path)"
definition second_segment :: "string \<Rightarrow> string" where "second_segment path = until_slash (after_slash (drop 1 path))"

text \<open>The end of a segment: the end of the path, or a slash.\<close>

definition at_slash :: "string \<Rightarrow> bool" where "at_slash s \<longleftrightarrow> s = [] \<or> hd s = CHR ''/''"

lemma until_slash_append: "CHR ''/'' \<notin> set w \<Longrightarrow> at_slash r \<Longrightarrow> until_slash (w @ r) = w"
proof (induction w)
  case Nil
  then show ?case by (cases r) (simp_all add: until_slash_def at_slash_def)
next
  case (Cons c w)
  then show ?case by (auto simp: until_slash_def)
qed

lemma after_slash_append: "CHR ''/'' \<notin> set w \<Longrightarrow> after_slash (w @ CHR ''/'' # r) = r"
  by (induction w) (auto simp: after_slash_def)

lemma first_of: "CHR ''/'' \<notin> set w \<Longrightarrow> at_slash r \<Longrightarrow> first_segment (CHR ''/'' # w @ r) = w"
  by (simp add: first_segment_def until_slash_append)

lemma second_of: "CHR ''/'' \<notin> set w \<Longrightarrow> CHR ''/'' \<notin> set v \<Longrightarrow> at_slash r \<Longrightarrow>
    second_segment (CHR ''/'' # w @ CHR ''/'' # v @ r) = v"
  by (simp add: second_segment_def after_slash_append until_slash_append)

lemma at_slash_append: "at_slash r \<Longrightarrow> set t \<subseteq> {CHR ''/''} \<Longrightarrow> at_slash (r @ t)"
  by (cases r; cases t) (auto simp: at_slash_def)

lemma normalized_split: "normalized_path p = CHR ''/'' # c # n \<Longrightarrow> \<exists>t. p = CHR ''/'' # c # n @ t \<and> set t \<subseteq> {CHR ''/''}"
proof -
  assume "normalized_path p = CHR ''/'' # c # n"
  then have s: "strip_slashes p = CHR ''/'' # c # n" by (auto simp: normalized_path_def or_else_def split: if_splits)
  let ?P = "\<lambda>c. c = CHR ''/''"
  have "p = strip_slashes p @ rev (takeWhile ?P (rev p))"
    unfolding strip_slashes_def by (metis rev_append rev_rev_ident takeWhile_dropWhile_id)
  then have "p = CHR ''/'' # c # n @ rev (takeWhile ?P (rev p))" using s by simp
  moreover have "set (rev (takeWhile ?P (rev p))) \<subseteq> {CHR ''/''}" by (auto dest: set_takeWhileD)
  ultimately show ?thesis by blast
qed

text \<open>A normalized path equal to a root, or below it, has the segments of the root.\<close>

lemma below_first:
  assumes "normalized_path p = CHR ''/'' # w \<or> starts_with (CHR ''/'' # w @ ''/'') (normalized_path p)"
    and "w \<noteq> []" "CHR ''/'' \<notin> set w"
  shows "first_segment p = w"
proof -
  obtain r where r: "normalized_path p = CHR ''/'' # w @ r" "at_slash r"
    using assms(1) by (auto simp: starts_with_iff at_slash_def)
  obtain c w' where w: "w = c # w'" using assms(2) by (cases w) auto
  obtain t where "p = CHR ''/'' # w @ (r @ t)" "set t \<subseteq> {CHR ''/''}"
    using normalized_split [of p c "w' @ r"] r(1) w by auto
  with first_of [OF assms(3) at_slash_append [OF r(2)]] show ?thesis by metis
qed

lemma below_second:
  assumes "normalized_path p = CHR ''/'' # w @ CHR ''/'' # v \<or> starts_with (CHR ''/'' # w @ CHR ''/'' # v @ ''/'') (normalized_path p)"
    and "w \<noteq> []" "CHR ''/'' \<notin> set w" "CHR ''/'' \<notin> set v"
  shows "first_segment p = w \<and> second_segment p = v"
proof -
  obtain r where r: "normalized_path p = CHR ''/'' # w @ CHR ''/'' # v @ r" "at_slash r"
    using assms(1) by (auto simp: starts_with_iff at_slash_def)
  obtain c w' where w: "w = c # w'" using assms(2) by (cases w) auto
  obtain t where t: "p = CHR ''/'' # w @ CHR ''/'' # v @ (r @ t)" "set t \<subseteq> {CHR ''/''}"
    using normalized_split [of p c "w' @ CHR ''/'' # v @ r"] r(1) w by auto
  have "second_segment p = v" using second_of [OF assms(3,4) at_slash_append [OF r(2) t(2)]] t(1) by metis
  moreover have "first_segment p = w"
    using first_of [OF assms(3), of "CHR ''/'' # v @ (r @ t)"] t(1) by (simp add: at_slash_def)
  ultimately show ?thesis by simp
qed

lemma manager_first: "managerTabFromPath p \<noteq> [] \<Longrightarrow>
    first_segment p \<in> {''dashboard'', ''storage'', ''database'', ''users'', ''repositories'', ''settings''}"
  using below_first [of p "''dashboard''"] below_first [of p "''storage''"] below_first [of p "''database''"]
    below_first [of p "''users''"] below_first [of p "''repositories''"] below_first [of p "''settings''"]
  by (auto simp: managerTabFromPath_def Let_def split: if_splits)

lemma segment_below_root: "Option.bind (segment_below root n) f \<noteq> None \<Longrightarrow> starts_with (root @ ''/'') n"
  by (auto simp: segment_below_def split: if_splits)

lemma domain_center_first: "mavenDomainRouteFromPath p \<noteq> None \<Longrightarrow> first_segment p = ''account'' \<and> second_segment p = ''maven-domains''"
  using below_second [of p "''account''" "''maven-domains''"] segment_below_root [of domainCenterRouteRoot "normalized_path p" domain_of]
  by (auto simp: mavenDomainRouteFromPath_def domainCenterRouteRoot_def Let_def split: if_splits)

lemma team_center_first: "superTeamRouteFromPath p \<noteq> None \<Longrightarrow> first_segment p = ''account'' \<and> second_segment p = ''teams''"
  using below_second [of p "''account''" "''teams''"] segment_below_root [of superTeamRouteRoot "normalized_path p" team_of]
  by (auto simp: superTeamRouteFromPath_def superTeamRouteRoot_def Let_def split: if_splits)

lemma ticket_first: "ticketRouteFromPath p \<Longrightarrow> first_segment p = ''account'' \<and> second_segment p \<in> {''tickets'', ''reviews''}"
  using below_second [of p "''account''" "''tickets''"] below_second [of p "''account''" "''reviews''"]
  by (auto simp: ticketRouteFromPath_def parseTicketRoute_def ticketRoutes_def split: if_splits)

lemma domain_first: "publicMavenDomainRouteFromPath p \<noteq> None \<Longrightarrow> first_segment p = ''domain''"
  using below_first [of p "''domain''"] segment_below_root [of publicDomainRouteRoot "normalized_path p" domain_of]
  by (auto simp: publicMavenDomainRouteFromPath_def publicDomainRouteRoot_def)

lemma team_first: "publicSuperTeamRouteFromPath p \<noteq> None \<Longrightarrow> first_segment p = ''team''"
  using below_first [of p "''team''"] segment_below_root [of publicTeamRouteRoot "normalized_path p" team_of]
  by (auto simp: publicSuperTeamRouteFromPath_def publicTeamRouteRoot_def)

lemma profile_first: "profileRouteFromPath p \<noteq> None \<Longrightarrow> first_segment p = ''user''"
proof -
  assume "profileRouteFromPath p \<noteq> None"
  then have "profile_match p \<noteq> None" by (auto simp: profileRouteFromPath_def split: option.splits)
  then obtain n r where "split_on CHR ''/'' p = [] # ''user'' # n # r"
    unfolding profile_match_def by (auto split: list.splits if_splits)
  then have "p = join [CHR ''/''] ([] # ''user'' # n # r)" using join_split [of "CHR ''/''" p] by simp
  then have "p = CHR ''/'' # ''user'' @ CHR ''/'' # join [CHR ''/''] (n # r)" by simp
  then show ?thesis using first_of [of "''user''" "CHR ''/'' # join [CHR ''/''] (n # r)"] by (simp add: at_slash_def)
qed

lemma lower_slash: "lower_char c = CHR ''/'' \<longleftrightarrow> c = CHR ''/''"
proof -
  have "lower_char CHR ''/'' = CHR ''/''" by code_simp
  moreover have "c = CHR ''/''" if "lower_char c = CHR ''/''"
  proof (cases "65 \<le> byte c \<and> byte c \<le> 90")
    case True
    then have "byte (lower_char c) = byte c + 32" by (simp add: lower_char_def Let_def)
    with True that show ?thesis by simp
  next
    case False
    with that show ?thesis by (auto simp: lower_char_def Let_def)
  qed
  ultimately show ?thesis by metis
qed

lemma until_lower: "until_slash (to_lower s) = to_lower (until_slash s)"
  by (simp add: until_slash_def to_lower_def takeWhile_map comp_def lower_slash)

lemma after_lower: "after_slash (to_lower s) = to_lower (after_slash s)"
  by (simp add: after_slash_def to_lower_def dropWhile_map comp_def lower_slash drop_map)

lemma segments_lower:
  "first_segment (to_lower p) = to_lower (first_segment p)" "second_segment (to_lower p) = to_lower (second_segment p)"
  unfolding first_segment_def second_segment_def by (simp_all add: until_lower [symmetric] after_lower [symmetric])
    (simp_all add: to_lower_def drop_map)

lemma strip_one: "strip_trailing_slash s = t \<Longrightarrow> s = t \<or> s = t @ ''/''"
  unfolding strip_trailing_slash_def by (auto simp: ends_with_iff split: if_splits)

lemma account_page_first: "accountPageFromPath p \<noteq> [] \<Longrightarrow>
    to_lower (first_segment p) = ''account'' \<and>
    to_lower (second_segment p) \<in> {''login'', ''register'', ''recovery'', ''forgot-password''}"
proof -
  assume "accountPageFromPath p \<noteq> []"
  then obtain v where v: "strip_trailing_slash (to_lower p) = CHR ''/'' # ''account'' @ CHR ''/'' # v"
    "v \<in> {''login'', ''register'', ''recovery'', ''forgot-password''}"
    by (auto simp: accountPageFromPath_def Let_def split: if_splits)
  then obtain r where r: "to_lower p = CHR ''/'' # ''account'' @ CHR ''/'' # v @ r" "at_slash r"
    using strip_one [OF v(1)] by (auto simp: at_slash_def)
  have "CHR ''/'' \<notin> set v" using v(2) by auto
  then have "second_segment (to_lower p) = v" using r second_of [of "''account''" v r] by simp
  moreover have "first_segment (to_lower p) = ''account''"
    using r first_of [of "''account''" "CHR ''/'' # v @ r"] by (simp add: at_slash_def)
  ultimately show ?thesis using v(2) by (simp add: segments_lower)
qed

definition legal_names :: "string set" where "legal_names = set (map fst LEGAL_DOCUMENTS)"

lemma legal_first: "starts_with ''/'' p \<Longrightarrow> legalPageFromPath p \<noteq> [] \<Longrightarrow> to_lower (first_segment p) \<in> legal_names"
proof -
  assume p: "starts_with ''/'' p" and l: "legalPageFromPath p \<noteq> []"
  obtain q where q: "p = CHR ''/'' # q" using p by (auto simp: starts_with_iff)
  define n where "n = (if ends_with ''/'' (to_lower q) then butlast (to_lower q) else to_lower q)"
  have lp: "to_lower p = CHR ''/'' # to_lower q" using q lower_slash [of "CHR ''/''"] by (simp add: to_lower_def)
  then have n: "n \<in> legal_names" using l by (auto simp: legalPageFromPath_def Let_def legal_names_def n_def split: if_splits)
  have "to_lower q = n \<or> to_lower q = n @ ''/''" unfolding n_def by (auto simp: ends_with_iff)
  then obtain r where "to_lower p = CHR ''/'' # n @ r" "at_slash r" using lp by (auto simp: at_slash_def)
  moreover have "CHR ''/'' \<notin> set n" using n by (auto simp: legal_names_def LEGAL_DOCUMENTS_def)
  ultimately have "first_segment (to_lower p) = n" using first_of by simp
  with n show ?thesis by (simp add: segments_lower)
qed

section \<open>No path is claimed twice\<close>

text \<open>The parsers of the shell that accept a path.\<close>

definition claims :: "string \<Rightarrow> string list" where
  "claims p = map fst (filter snd
     [(''sign-in'', accountPageFromPath p \<noteq> []), (''legal'', legalPageFromPath p \<noteq> []),
      (''profile'', profileRouteFromPath p \<noteq> None), (''domain'', publicMavenDomainRouteFromPath p \<noteq> None),
      (''team'', publicSuperTeamRouteFromPath p \<noteq> None), (''maven-domains'', mavenDomainRouteFromPath p \<noteq> None),
      (''super-teams'', superTeamRouteFromPath p \<noteq> None), (''tickets'', ticketRouteFromPath p),
      (''manager'', managerTabFromPath p \<noteq> [])])"

lemma lower_words:
  "map to_lower [''dashboard'', ''storage'', ''database'', ''users'', ''repositories'', ''settings'', ''user'', ''domain'',
     ''team'', ''account'', ''maven-domains'', ''teams'', ''tickets'', ''reviews''] =
   [''dashboard'', ''storage'', ''database'', ''users'', ''repositories'', ''settings'', ''user'', ''domain'',
     ''team'', ''account'', ''maven-domains'', ''teams'', ''tickets'', ''reviews'']"
  by code_simp

text \<open>What each claim says about the first two segments, in lower case.\<close>

definition page_words :: "(string \<times> string list \<times> string list) list" where
  "page_words =
     [(''sign-in'', [''account''], [''login'', ''register'', ''recovery'', ''forgot-password'']),
      (''legal'', [''privacy-policy'', ''terms-of-service'', ''legal-notice''], []),
      (''profile'', [''user''], []), (''domain'', [''domain''], []), (''team'', [''team''], []),
      (''maven-domains'', [''account''], [''maven-domains'']), (''super-teams'', [''account''], [''teams'']),
      (''tickets'', [''account''], [''tickets'', ''reviews'']),
      (''manager'', [''dashboard'', ''storage'', ''database'', ''users'', ''repositories'', ''settings''], [])]"

definition worded :: "string \<Rightarrow> string \<times> string list \<times> string list \<Rightarrow> bool" where
  "worded p w = (to_lower (first_segment p) \<in> set (fst (snd w)) \<and>
     (snd (snd w) = [] \<or> to_lower (second_segment p) \<in> set (snd (snd w))))"

lemma claims_subset:
  "list_all2 (\<lambda>c w. fst w = fst c \<and> (snd c \<longrightarrow> worded p w)) cs ws \<Longrightarrow>
   set (map fst (filter snd cs)) \<subseteq> set (map fst (filter (worded p) ws))"
  by (induction rule: list_all2_induct) auto

lemma claims_worded:
  assumes "starts_with ''/'' p"
  shows "set (claims p) \<subseteq> set (map fst (filter (worded p) page_words))"
proof -
  note w = page_words_def worded_def
  have "accountPageFromPath p \<noteq> [] \<Longrightarrow> worded p (page_words ! 0)"
    using account_page_first [of p] by (simp add: w)
  moreover have "legalPageFromPath p \<noteq> [] \<Longrightarrow> worded p (page_words ! 1)"
    using legal_first [OF assms] by (simp add: w legal_names_def LEGAL_DOCUMENTS_def)
  moreover have "profileRouteFromPath p \<noteq> None \<Longrightarrow> worded p (page_words ! 2)"
    using profile_first [of p] lower_words by (simp add: w)
  moreover have "publicMavenDomainRouteFromPath p \<noteq> None \<Longrightarrow> worded p (page_words ! 3)"
    using domain_first [of p] lower_words by (simp add: w)
  moreover have "publicSuperTeamRouteFromPath p \<noteq> None \<Longrightarrow> worded p (page_words ! 4)"
    using team_first [of p] lower_words by (simp add: w)
  moreover have "mavenDomainRouteFromPath p \<noteq> None \<Longrightarrow> worded p (page_words ! 5)"
    using domain_center_first [of p] lower_words by (simp add: w)
  moreover have "superTeamRouteFromPath p \<noteq> None \<Longrightarrow> worded p (page_words ! 6)"
    using team_center_first [of p] lower_words by (simp add: w)
  moreover have "ticketRouteFromPath p \<Longrightarrow> worded p (page_words ! 7)"
    using ticket_first [of p] lower_words by (auto simp: w)
  moreover have "managerTabFromPath p \<noteq> [] \<Longrightarrow> worded p (page_words ! 8)"
    using manager_first [of p] lower_words by (auto simp: w)
  ultimately show ?thesis unfolding claims_def by (intro claims_subset) (simp add: page_words_def)
qed

definition compatible :: "string \<times> string list \<times> string list \<Rightarrow> string \<times> string list \<times> string list \<Rightarrow> bool" where
  "compatible v w = (fst v = fst w \<or> \<not> list_ex (\<lambda>x. x \<in> set (fst (snd w))) (fst (snd v)) \<or>
     (snd (snd v) \<noteq> [] \<and> snd (snd w) \<noteq> [] \<and> \<not> list_ex (\<lambda>x. x \<in> set (snd (snd w))) (snd (snd v))))"

lemma words_compatible: "list_all (\<lambda>v. list_all (compatible v) page_words) page_words"
  unfolding page_words_def by (simp add: compatible_def)

lemma worded_unique:
  "v \<in> set page_words \<Longrightarrow> w \<in> set page_words \<Longrightarrow> worded p v \<Longrightarrow> worded p w \<Longrightarrow> fst v = fst w"
  using words_compatible by (fastforce simp: list_all_iff compatible_def worded_def list_ex_iff)

lemma claims_distinct: "distinct (claims p)"
proof -
  have "distinct (map fst (filter snd xs))" if "distinct (map fst xs)" for xs :: "(string \<times> bool) list"
    using that by (simp add: distinct_map_filter)
  then show ?thesis unfolding claims_def by simp
qed

text \<open>
  every absolute path belongs to at most one page of the application: the sign-in pages, the legal documents, the profiles,
  the public and the account pages and the management pages never claim the same path. A path whose first segment is a valid
  repository name is claimed by none of them, except for the names \<open>storage\<close> and \<open>database\<close> and those of the legal
  documents.
\<close>

theorem routes_disjoint:
  assumes "starts_with ''/'' p"
  shows "length (claims p) \<le> 1 \<and>
    (isValidRepositorySlug (first_segment p) \<and>
     first_segment p \<notin> {''storage'', ''database'', ''privacy-policy'', ''terms-of-service'', ''legal-notice''} \<longrightarrow> claims p = [])"
proof (intro conjI impI)
  have "x = y" if xy: "x \<in> set (claims p)" "y \<in> set (claims p)" for x y
  proof -
    have "x \<in> set (map fst (filter (worded p) page_words))" "y \<in> set (map fst (filter (worded p) page_words))"
      using xy claims_worded [OF assms] by blast+
    then have "\<exists>v. v \<in> set page_words \<and> worded p v \<and> x = fst v" "\<exists>w. w \<in> set page_words \<and> worded p w \<and> y = fst w"
      by auto blast+
    then show ?thesis using worded_unique by metis
  qed
  then have "card (set (claims p)) \<le> 1" by (simp add: card_le_Suc0_iff_eq)
  then show "length (claims p) \<le> 1" using claims_distinct by (simp add: distinct_card)
next
  assume s: "isValidRepositorySlug (first_segment p) \<and>
     first_segment p \<notin> {''storage'', ''database'', ''privacy-policy'', ''terms-of-service'', ''legal-notice''}"
  have lower: "to_lower s = s" if "slug_words b s" for b s
    using slug_words_chars [OF that] by (intro map_idI [where f = lower_char, folded to_lower_def]) (force simp: lower_char_def az_def Let_def)
  then have l: "to_lower (first_segment p) = first_segment p" using s by (auto simp: isValidRepositorySlug_def)
  have "first_segment p \<notin> set (concat (map (fst \<circ> snd) page_words))"
    using s by (auto simp: isValidRepositorySlug_def RESERVED_REPOSITORY_NAMES_def page_words_def)
  then have "filter (worded p) page_words = []" using l by (auto simp: filter_empty_conv worded_def)
  then show "claims p = []" using claims_worded [OF assms] by simp
qed

theorem routes_disjoint_witness:
  "length (claims ''/my-repo/x'') \<le> 1 \<and> claims ''/my-repo/x'' = []"
proof -
  have "starts_with ''/'' ''/my-repo/x''" "isValidRepositorySlug (first_segment ''/my-repo/x'')"
    "first_segment ''/my-repo/x'' \<notin> {''storage'', ''database'', ''privacy-policy'', ''terms-of-service'', ''legal-notice''}"
    by code_simp+
  then show ?thesis using routes_disjoint by blast
qed

text \<open>Two management pages and the legal documents are not reserved: a repository of that name cannot be opened.\<close>

theorem unreserved_page_names:
  "isValidRepositorySlug ''storage'' \<and> claims ''/storage'' = [''manager''] \<and>
   isValidRepositorySlug ''database'' \<and> claims ''/database/'' = [''manager''] \<and>
   isValidRepositorySlug ''privacy-policy'' \<and> claims ''/privacy-policy'' = [''legal'']"
  by code_simp

end
