(* ===== verification/Shell.thy ===== *)
theory Shell
  imports App_Routes
begin

text \<open>
  The application shell (\<open>main.js\<close>): which page is shown for an address and a session, the redirections to the
  sign-in page and to the home page, and the events that change the page. What \<open>switchTab\<close> does before its
  first await is modelled; of the loaders it starts the name of the page is kept in \<open>loads\<close>. \<open>popstates\<close> counts
  the popstate events, which other parts of the application listen to. The addresses of the
  application have no fragment. Resolving a URL is the parameter \<open>u\<close> of \<open>Routes\<close>.

  \<open>renopTab\<close> is kept in the state of a history entry; \<open>entry_tab\<close> is its value for the current entry. Moving
  through the history brings an entry with a value of its own, an argument of the event.
\<close>

section \<open>The state and the decision\<close>

record shell =
  nav :: history
  logged_in :: bool
  manager :: bool
  active :: string
  selectedTab :: "string option"
  entry_tab :: "string option"
  login_error :: bool
  account_search :: string
  dashboard_refresh :: bool
  loads :: "string list"
  popstates :: nat

definition address :: "shell \<Rightarrow> string \<times> string" where
  "address s = location_parts (fst (here (nav s)))"

definition pathname :: "shell \<Rightarrow> string" where "pathname s = fst (address s)"
definition search :: "shell \<Rightarrow> string" where "search s = snd (address s)"

definition isManagerTab :: "string \<Rightarrow> bool" where
  "isManagerTab tabId \<longleftrightarrow> tabId \<in> {''dashboard'', ''users'', ''repositories'', ''settings'', ''storage'', ''database''}"

datatype decision = SignIn | Home | Page string

text \<open>An overview becomes the page of the address, if it has one: the checks in the order of the code.\<close>

definition overview_page :: "string \<Rightarrow> string \<Rightarrow> string" where
  "overview_page p tabId =
     (let t = tabId;
          t = (if t = ''overview'' \<and> profileRouteFromPath p \<noteq> None then ''profile'' else t);
          t = (if t = ''overview'' \<and> publicMavenDomainRouteFromPath p \<noteq> None then ''maven-domain'' else t);
          t = (if t = ''overview'' \<and> publicSuperTeamRouteFromPath p \<noteq> None then ''super-team'' else t);
          t = (if t = ''overview'' \<and> accountTabFromPath p \<noteq> [] then accountTabFromPath p else t);
          t = (if t = ''overview'' \<and> managerTabFromPath p \<noteq> [] then managerTabFromPath p else t)
      in t)"

definition requested_tab :: "string \<Rightarrow> string \<Rightarrow> string" where
  "requested_tab p tabId =
     (if legalPageFromPath p \<noteq> [] then ''legal''
      else if accountPageFromPath p \<noteq> [] then accountPageFromPath p else tabId)"

definition decide :: "bool \<Rightarrow> bool \<Rightarrow> string \<Rightarrow> string \<Rightarrow> decision" where
  "decide li mgr p tabId =
     (let t = requested_tab p tabId; routedAccountTab = accountTabFromPath p; routedManagerTab = managerTabFromPath p in
      if \<not> li \<and> (isAccountTab t \<or> routedAccountTab \<noteq> []) then SignIn
      else if \<not> li \<and> map_option snd (profileRouteFromPath p) = Some ''edit'' then SignIn
      else if \<not> li \<and> (isManagerTab t \<or> routedManagerTab \<noteq> []) then SignIn
      else if isManagerTab t \<and> \<not> mgr \<and> routedManagerTab \<noteq> [] then Home
      else Page (overview_page p (if isManagerTab t \<and> \<not> mgr then ''overview'' else t)))"

section \<open>Activating a page\<close>

definition set_url :: "(history \<Rightarrow> history) \<Rightarrow> shell \<Rightarrow> shell" where
  "set_url f s = s\<lparr>nav := f (nav s), entry_tab := None\<rparr>"

text \<open>The query appended to the links between the account pages.\<close>

definition return_search :: "url_of \<Rightarrow> string \<Rightarrow> string" where
  "return_search u q =
     (let returnTo = loginReturnTo u q in
      if returnTo = ''/'' then [] else ''?return_to='' @ encodeURIComponent returnTo)"

definition activate :: "url_of \<Rightarrow> string \<Rightarrow> shell \<Rightarrow> shell" where
  "activate u tabId s =
     (let accountPage = accountPageFromPath (pathname s);
          s = s\<lparr>active := tabId, login_error := (if tabId \<noteq> ''login'' then False else login_error s)\<rparr>;
          s = (if accountPage \<noteq> [] then s\<lparr>account_search := return_search u (search s)\<rparr> else s);
          s = (if accountPage = [] \<and> tabId \<notin> {''legal'', ''profile'', ''maven-domain'', ''super-team''} \<and> \<not> isAccountTab tabId
               then s\<lparr>selectedTab := Some tabId, entry_tab := (if pathname s = ''/'' then Some tabId else entry_tab s)\<rparr>
               else s)
      in s\<lparr>dashboard_refresh := (tabId = ''dashboard''), loads := loads s @ [tabId]\<rparr>)"

definition popstate_tab :: "string \<Rightarrow> string option \<Rightarrow> string" where
  "popstate_tab p previous =
     (if profileRouteFromPath p \<noteq> None then ''profile''
      else if publicMavenDomainRouteFromPath p \<noteq> None then ''maven-domain''
      else if publicSuperTeamRouteFromPath p \<noteq> None then ''super-team''
      else if accountTabFromPath p \<noteq> [] then accountTabFromPath p
      else if managerTabFromPath p \<noteq> [] then managerTabFromPath p
      else (case (if p = ''/'' then previous else None) of
              Some t \<Rightarrow> if t = ''overview'' \<or> isManagerTab t then t else ''overview''
            | None \<Rightarrow> ''overview''))"

section \<open>The addresses of the redirections\<close>

lemma location_login: "location_parts (login_route u r reauth) = (''/account/login'', drop 14 (login_route u r reauth))"
proof -
  have "login_route u r reauth = ''/account/login'' \<or> (\<exists>q. login_route u r reauth = ''/account/login'' @ CHR ''?'' # q)"
    by (simp add: login_route_def Let_def)
  then show ?thesis
  proof
    assume "login_route u r reauth = ''/account/login''"
    then show ?thesis by (simp add: location_parts_def)
  next
    assume "\<exists>q. login_route u r reauth = ''/account/login'' @ CHR ''?'' # q"
    then obtain q where q: "login_route u r reauth = ''/account/login'' @ CHR ''?'' # q" by blast
    have "index_of CHR ''?'' (login_route u r reauth) = Some 14" unfolding q by (subst index_of_append) simp_all
    then show ?thesis by (simp add: location_parts_def q)
  qed
qed

lemma login_path_facts:
  "accountPageFromPath ''/account/login'' = ''login''" "legalPageFromPath ''/account/login'' = []"
  "accountTabFromPath ''/account/login'' = []" "managerTabFromPath ''/account/login'' = []"
  "profileRouteFromPath ''/account/login'' = None" "popstate_tab ''/account/login'' None = ''overview''"
  by code_simp+

lemma home_path_facts:
  "accountPageFromPath ''/'' = []" "legalPageFromPath ''/'' = []" "accountTabFromPath ''/'' = []" "managerTabFromPath ''/'' = []"
  "profileRouteFromPath ''/'' = None" "publicMavenDomainRouteFromPath ''/'' = None" "publicSuperTeamRouteFromPath ''/'' = None"
  by code_simp+

lemma decide_login: "decide li mgr ''/account/login'' t = Page ''login''"
  by (simp add: decide_def requested_tab_def login_path_facts isAccountTab_def isManagerTab_def overview_page_def Let_def)

lemma decide_home: "decide li mgr ''/'' ''overview'' = Page ''overview''"
  by (simp add: decide_def requested_tab_def home_path_facts isAccountTab_def isManagerTab_def overview_page_def Let_def)

definition to_login :: "url_of \<Rightarrow> bool \<Rightarrow> shell \<Rightarrow> shell" where
  "to_login u replace s = set_url (navigateToLogin u (pathname s) (Some (pathname s)) replace False) s"

definition dispatched :: "shell \<Rightarrow> shell" where "dispatched s = s\<lparr>popstates := Suc (popstates s)\<rparr>"

lemma dispatched_simps [simp]:
  "pathname (dispatched s) = pathname s" "search (dispatched s) = search s" "address (dispatched s) = address s"
  "logged_in (dispatched s) = logged_in s" "manager (dispatched s) = manager s" "active (dispatched s) = active s"
  "nav (dispatched s) = nav s" "entry_tab (dispatched s) = entry_tab s"
  by (simp_all add: dispatched_def pathname_def search_def address_def)

lemma pathname_to_login: "\<not> isLoginPath (pathname s) \<Longrightarrow> pathname (to_login u r s) = ''/account/login''"
  by (simp add: to_login_def set_url_def pathname_def address_def navigateToLogin_def replaceState_def pushState_def location_login)

lemma pathname_home: "pathname (set_url (replaceState ''/'') s) = ''/''" "pathname (set_url (pushState ''/'') s) = ''/''"
  by (simp_all add: set_url_def pathname_def address_def replaceState_def pushState_def location_parts_def)

lemma session_set_url [simp]:
  "logged_in (set_url f s) = logged_in s" "manager (set_url f s) = manager s"
  "logged_in (to_login u r s) = logged_in s" "manager (to_login u r s) = manager s"
  by (simp_all add: set_url_def to_login_def)

section \<open>Switching pages\<close>

definition redirects_left :: "string \<Rightarrow> shell \<Rightarrow> nat" where
  "redirects_left tabId s = (case decide (logged_in s) (manager s) (pathname s) tabId of Page t \<Rightarrow> 0 | _ \<Rightarrow> 1)"

lemma redirected_home:
  "redirects_left ''overview'' (if pathname s \<noteq> ''/'' \<or> search s \<noteq> [] then set_url (replaceState ''/'') s else s) = 0"
  by (simp add: redirects_left_def pathname_home decide_home)

lemma redirected_login: "\<not> isLoginPath (pathname s) \<Longrightarrow> redirects_left t (dispatched (to_login u True s)) = 0"
  by (simp add: redirects_left_def pathname_to_login decide_login)

text \<open>
  A redirection replaces the address and starts over: to the sign-in page through the popstate handler, to the home page through
  \<open>navigateHome\<close>. It happens at most once, because the new address is decided at once.
\<close>

function switchTab :: "url_of \<Rightarrow> string \<Rightarrow> shell \<Rightarrow> shell" where
  "switchTab u tabId s =
     (case decide (logged_in s) (manager s) (pathname s) tabId of
        Page t \<Rightarrow> activate u t s
      | SignIn \<Rightarrow>
          (if isLoginPath (pathname s) then s
           else (let s = dispatched (to_login u True s) in switchTab u (popstate_tab (pathname s) None) s))
      | Home \<Rightarrow>
          switchTab u ''overview''
            (if pathname s \<noteq> ''/'' \<or> search s \<noteq> [] then set_url (replaceState ''/'') s else s))"
  by pat_completeness auto

termination
proof (relation "measure (\<lambda>(u, t, s). redirects_left t s)")
  fix u tabId s x
  assume d: "decide (logged_in s) (manager s) (pathname s) tabId = SignIn" "\<not> isLoginPath (pathname s)" "x = dispatched (to_login u True s)"
  then show "((u, popstate_tab (pathname x) None, x), (u, tabId, s)) \<in> measure (\<lambda>(u, t, s). redirects_left t s)"
    by (simp add: redirected_login) (simp add: redirects_left_def)
next
  fix u tabId s
  assume d: "decide (logged_in s) (manager s) (pathname s) tabId = Home"
  then have "redirects_left tabId s = 1" by (simp add: redirects_left_def)
  then show "((u, ''overview'', if pathname s \<noteq> ''/'' \<or> search s \<noteq> [] then set_url (replaceState ''/'') s else s), (u, tabId, s))
      \<in> measure (\<lambda>(u, t, s). redirects_left t s)"
    using redirected_home [of s] by simp
qed simp

declare switchTab.simps [simp del]

section \<open>Events\<close>

definition popstate :: "url_of \<Rightarrow> shell \<Rightarrow> shell" where
  "popstate u s = switchTab u (popstate_tab (pathname s) (entry_tab s)) (dispatched s)"

definition navigateHome :: "url_of \<Rightarrow> bool \<Rightarrow> shell \<Rightarrow> shell" where
  "navigateHome u replace s =
     switchTab u ''overview''
       (if pathname s \<noteq> ''/'' \<or> search s \<noteq> [] then set_url (if replace then replaceState ''/'' else pushState ''/'') s else s)"

definition sign_in :: "url_of \<Rightarrow> bool \<Rightarrow> shell \<Rightarrow> shell" where
  "sign_in u replace s = (if isLoginPath (pathname s) then s else popstate u (to_login u replace s))"

definition leave_login :: "url_of \<Rightarrow> shell \<Rightarrow> shell" where
  "leave_login u s =
     (if isLoginPath (pathname s) then popstate u (set_url (leaveLoginPage u (pathname s) (search s)) s) else s)"

text \<open>A protected page was refused with a status.\<close>

definition route_denied :: "url_of \<Rightarrow> nat \<Rightarrow> shell \<Rightarrow> shell" where
  "route_denied u status s =
     (if status = 401 \<and> accountPageFromPath (pathname s) \<noteq> [] then s
      else if status = 401 then sign_in u True s
      else navigateHome u True s)"

definition routed_elsewhere :: "string \<Rightarrow> bool" where
  "routed_elsewhere p \<longleftrightarrow> accountPageFromPath p \<noteq> [] \<or> legalPageFromPath p \<noteq> [] \<or> profileRouteFromPath p \<noteq> None \<or>
     accountTabFromPath p \<noteq> [] \<or> managerTabFromPath p \<noteq> []"

text \<open>Opening a tab from the tab bar or the menu: its route, or the home address when another page owns the address.\<close>

definition open_tab :: "url_of \<Rightarrow> string \<Rightarrow> shell \<Rightarrow> shell" where
  "open_tab u targetTab s =
     (let managerPath = managerRouteForTab targetTab;
          s = (if managerPath \<noteq> [] then
                 (if pathname s \<noteq> managerPath \<or> search s \<noteq> [] then set_url (pushState managerPath) s else s)
               else if routed_elsewhere (pathname s) then set_url (pushState ''/'') s else s)
      in switchTab u targetTab s)"

definition tab_click :: "url_of \<Rightarrow> string \<Rightarrow> shell \<Rightarrow> shell" where
  "tab_click u targetTab s = (if active s = targetTab then s else open_tab u targetTab s)"

definition menu_click :: "url_of \<Rightarrow> string \<Rightarrow> shell \<Rightarrow> shell" where
  "menu_click u targetTab s =
     (if targetTab = ''overview'' then navigateHome u False s
      else if \<not> manager s then s
      else open_tab u targetTab s)"

definition home_link :: "url_of \<Rightarrow> click \<Rightarrow> shell \<Rightarrow> shell" where
  "home_link u event s =
     (if button event \<noteq> 0 \<or> metaKey event \<or> ctrlKey event \<or> shiftKey event \<or> altKey event then s
      else navigateHome u False s)"

text \<open>The page shown again after a change of the language.\<close>

definition saved_home :: "shell \<Rightarrow> string" where
  "saved_home s = (case selectedTab s of Some t \<Rightarrow> if pathname s = ''/'' then or_else t ''overview'' else ''overview'' | None \<Rightarrow> ''overview'')"

definition language_tab :: "shell \<Rightarrow> string" where
  "language_tab s =
     (let p = pathname s in
      if legalPageFromPath p \<noteq> [] then ''legal''
      else if profileRouteFromPath p \<noteq> None then ''profile''
      else if publicMavenDomainRouteFromPath p \<noteq> None then ''maven-domain''
      else if publicSuperTeamRouteFromPath p \<noteq> None then ''super-team''
      else or_else (accountTabFromPath p) (or_else (managerTabFromPath p) (saved_home s)))"

text \<open>The first page, once the session is known.\<close>

definition startup :: "url_of \<Rightarrow> shell \<Rightarrow> shell" where
  "startup u s =
     (let q = parse_query (search s);
          s = (if isLoginPath (pathname s) \<and> logged_in s \<and> map_of q ''reauth'' = None \<and> map_of q ''mfa'' = None
               then leave_login u s else s);
          p = pathname s;
          profile = profileRouteFromPath p \<noteq> None; accountTab = accountTabFromPath p; mgrTab = managerTabFromPath p;
          saved = (if profile then ''profile'' else or_else accountTab (or_else mgrTab (saved_home s)));
          reset = \<not> profile \<and> accountTab = [] \<and> mgrTab = [] \<and> (saved = ''profile'' \<or> isAccountTab saved);
          s = (if reset then s\<lparr>selectedTab := Some ''overview''\<rparr> else s);
          saved = (if reset then ''overview'' else saved);
          saved = (if (\<not> profile \<and> accountTab = [] \<and> \<not> logged_in s \<and> mgrTab = []) \<or>
                      (accountTab \<noteq> [] \<and> \<not> logged_in s) \<or> (isManagerTab saved \<and> \<not> manager s)
                   then ''overview'' else saved)
      in switchTab u saved s)"

text \<open>
  The end of \<open>updateAuthUI\<close> of \<open>auth.js\<close>, with the session caches already set: a page the session may not see is left.
\<close>

definition session_changed :: "url_of \<Rightarrow> bool \<Rightarrow> bool \<Rightarrow> shell \<Rightarrow> shell" where
  "session_changed u li mgr s =
     (let s = s\<lparr>logged_in := li, manager := mgr\<rparr>;
          current = (case selectedTab s of Some t \<Rightarrow> or_else t ''overview'' | None \<Rightarrow> ''overview'')
      in if \<not> li \<or> (isManagerTab current \<and> \<not> mgr)
         then switchTab u ''overview'' (s\<lparr>selectedTab := Some ''overview''\<rparr>) else s)"

datatype shell_event =
    Startup | BackTo "string option" | ForwardTo "string option" | TabClicked string | MenuClicked string | HomeLink click
  | LanguageSwitched | Denied nat | SessionChanged bool bool | LoginDone bool | OpenLogin | OpenPath string

text \<open>\<open>BackTo\<close> and \<open>ForwardTo\<close> move to an entry of this document; \<open>OpenPath\<close> is a page that pushes its route and dispatches popstate.\<close>

fun shell_step :: "url_of \<Rightarrow> shell_event \<Rightarrow> shell \<Rightarrow> shell option" where
  "shell_step u Startup s = Some (startup u s)"
| "shell_step u (BackTo t) s =
     map_option (\<lambda>h. popstate u (s\<lparr>nav := h, entry_tab := t\<rparr>)) (nav_step Back (nav s))"
| "shell_step u (ForwardTo t) s =
     map_option (\<lambda>h. popstate u (s\<lparr>nav := h, entry_tab := t\<rparr>)) (nav_step Forward (nav s))"
| "shell_step u (TabClicked t) s = Some (tab_click u t s)"
| "shell_step u (MenuClicked t) s = Some (menu_click u t s)"
| "shell_step u (HomeLink event) s = Some (home_link u event s)"
| "shell_step u LanguageSwitched s = Some (switchTab u (language_tab s) s)"
| "shell_step u (Denied status) s = Some (route_denied u status s)"
| "shell_step u (SessionChanged li mgr) s = (if mgr \<longrightarrow> li then Some (session_changed u li mgr s) else None)"
| "shell_step u (LoginDone mgr) s = Some (leave_login u (session_changed u True mgr s))"
| "shell_step u OpenLogin s = Some (sign_in u False s)"
| "shell_step u (OpenPath url) s = Some (popstate u (set_url (pushState url) s))"

section \<open>One redirection at most\<close>

lemma account_page_alone:
  assumes "accountPageFromPath p \<noteq> []"
  shows "accountTabFromPath p = []" "managerTabFromPath p = []" "profileRouteFromPath p = None"
proof -
  note a = account_page_first [OF assms]
  have low: "to_lower ''maven-domains'' = ''maven-domains''" "to_lower ''teams'' = ''teams''" "to_lower ''tickets'' = ''tickets''"
    "to_lower ''reviews'' = ''reviews''" "to_lower ''user'' = ''user''" using lower_words by simp_all
  have low2: "map to_lower [''dashboard'', ''storage'', ''database'', ''users'', ''repositories'', ''settings''] =
      [''dashboard'', ''storage'', ''database'', ''users'', ''repositories'', ''settings'']" using lower_words by simp
  have "mavenDomainRouteFromPath p = None" by (rule ccontr) (use a domain_center_first [of p] low in auto)
  moreover have "superTeamRouteFromPath p = None" by (rule ccontr) (use a team_center_first [of p] low in auto)
  moreover have "\<not> ticketRouteFromPath p" by (rule notI) (use a ticket_first [of p] low in auto)
  ultimately show "accountTabFromPath p = []" by (simp add: accountTabFromPath_def)
  show "profileRouteFromPath p = None" by (rule ccontr) (use a profile_first [of p] low in auto)
  show "managerTabFromPath p = []" by (rule ccontr) (use a manager_first [of p] low2 in auto)
qed

lemma requested_account:
  "accountPageFromPath p \<noteq> [] \<Longrightarrow> requested_tab p t \<in> {''legal'', ''login'', ''registration'', ''recovery'', ''password-recovery''}"
  by (auto simp: requested_tab_def accountPageFromPath_def Let_def)

lemma login_never_redirects: "isLoginPath p \<Longrightarrow> \<exists>x. decide li mgr p t = Page x"
  using account_page_alone [of p] requested_account [of p t]
  by (auto simp: isLoginPath_def decide_def Let_def isAccountTab_def isManagerTab_def)

definition home_address :: "shell \<Rightarrow> shell" where
  "home_address s = (if pathname s \<noteq> ''/'' \<or> search s \<noteq> [] then set_url (replaceState ''/'') s else s)"

lemma home_address_path [simp]:
  "pathname (home_address s) = ''/''" "logged_in (home_address s) = logged_in s" "manager (home_address s) = manager s"
  by (simp_all add: home_address_def pathname_home)

lemma switch_eq:
  "switchTab u tabId s =
     (case decide (logged_in s) (manager s) (pathname s) tabId of
        Page t \<Rightarrow> activate u t s
      | SignIn \<Rightarrow> activate u ''login'' (dispatched (to_login u True s))
      | Home \<Rightarrow> activate u ''overview'' (home_address s))"
proof (cases "decide (logged_in s) (manager s) (pathname s) tabId")
  case SignIn
  then have n: "\<not> isLoginPath (pathname s)" using login_never_redirects [of "pathname s"] by (metis decision.distinct(3))
  with SignIn show ?thesis
    by (subst switchTab.simps) (simp add: Let_def switchTab.simps [of u _ "dispatched (to_login u True s)"] pathname_to_login decide_login)
next
  case Home
  then have "switchTab u tabId s = switchTab u ''overview'' (home_address s)"
    by (subst switchTab.simps) (simp only: decision.simps home_address_def)
  also have "\<dots> = activate u ''overview'' (home_address s)"
    by (subst switchTab.simps) (simp add: decide_home)
  finally show ?thesis using Home by simp
next
  case (Page t)
  then show ?thesis by (subst switchTab.simps) simp
qed

lemma activate_simps [simp]:
  "active (activate u t s) = t" "logged_in (activate u t s) = logged_in s" "manager (activate u t s) = manager s"
  "nav (activate u t s) = nav s" "pathname (activate u t s) = pathname s"
  by (simp_all add: activate_def Let_def pathname_def address_def)

lemma switch_session [simp]: "logged_in (switchTab u t s) = logged_in s" "manager (switchTab u t s) = manager s"
  by (simp_all add: switch_eq split: decision.split)

section \<open>Protected pages need a session\<close>

definition edits_profile :: "string \<Rightarrow> bool" where
  "edits_profile p \<longleftrightarrow> map_option snd (profileRouteFromPath p) = Some ''edit''"

definition protected :: "shell \<Rightarrow> bool" where
  "protected s \<longleftrightarrow> isManagerTab (active s) \<or> isAccountTab (active s) \<or> (active s = ''profile'' \<and> edits_profile (pathname s))"

lemma manager_route_tab: "managerTabFromPath p \<noteq> [] \<Longrightarrow> isManagerTab (managerTabFromPath p)"
  by (auto simp: managerTabFromPath_def isManagerTab_def Let_def split: if_splits)

lemma account_route_tab: "accountTabFromPath p \<noteq> [] \<Longrightarrow> isAccountTab (accountTabFromPath p)"
  by (auto simp: accountTabFromPath_def isAccountTab_def split: if_splits)

lemma overview_page_cases:
  "overview_page p t \<in> {t, ''profile'', ''maven-domain'', ''super-team'', accountTabFromPath p, managerTabFromPath p}"
  by (simp add: overview_page_def Let_def)

lemma overview_page_other: "t \<noteq> ''overview'' \<Longrightarrow> overview_page p t = t"
  by (simp add: overview_page_def Let_def)

lemma guest_page:
  assumes "decide False mgr p t = Page x"
  shows "\<not> isManagerTab x \<and> \<not> isAccountTab x \<and> \<not> edits_profile p"
proof -
  let ?t = "requested_tab p t"
  have g: "\<not> isAccountTab ?t" "accountTabFromPath p = []" "\<not> isManagerTab ?t" "managerTabFromPath p = []" "\<not> edits_profile p"
    and x: "x = overview_page p ?t"
    using assms by (auto simp: decide_def Let_def edits_profile_def split: if_splits)
  have "x \<in> {?t, ''profile'', ''maven-domain'', ''super-team'', []}"
    using overview_page_cases [of p ?t] x g(2,4) by simp
  then show ?thesis using g by (auto simp: isManagerTab_def isAccountTab_def)
qed

lemma switch_protected: "protected (switchTab u t s) \<Longrightarrow> logged_in (switchTab u t s)"
proof (rule ccontr)
  assume p: "protected (switchTab u t s)" and n: "\<not> logged_in (switchTab u t s)"
  then have l: "logged_in s = False" by simp
  show False
  proof (cases "decide (logged_in s) (manager s) (pathname s) t")
    case (Page x)
    then have "decide False (manager s) (pathname s) t = Page x" using l by simp
    from guest_page [OF this] p Page show False by (simp add: switch_eq protected_def)
  qed (use p in \<open>simp_all add: switch_eq protected_def isManagerTab_def isAccountTab_def\<close>)
qed

definition session_inv :: "shell \<Rightarrow> bool" where
  "session_inv s \<longleftrightarrow> (protected s \<longrightarrow> logged_in s) \<and> (manager s \<longrightarrow> logged_in s)"

lemma switch_inv: "(manager s \<longrightarrow> logged_in s) \<Longrightarrow> session_inv (switchTab u t s)"
  using switch_protected [of u t s] by (simp add: session_inv_def)

lemma popstate_inv: "(manager s \<longrightarrow> logged_in s) \<Longrightarrow> session_inv (popstate u s)"
  unfolding popstate_def by (rule switch_inv) simp

lemma sign_in_inv: "session_inv s \<Longrightarrow> session_inv (sign_in u r s)"
  by (simp add: sign_in_def popstate_inv session_inv_def [of s])

lemma leave_login_inv: "session_inv s \<Longrightarrow> session_inv (leave_login u s)"
  by (simp add: leave_login_def popstate_inv session_inv_def [of s])

lemma home_inv: "session_inv s \<Longrightarrow> session_inv (navigateHome u r s)"
  unfolding navigateHome_def by (rule switch_inv) (simp add: session_inv_def)

lemma open_tab_inv: "session_inv s \<Longrightarrow> session_inv (open_tab u t s)"
  unfolding open_tab_def Let_def by (rule switch_inv) (simp add: session_inv_def)

lemma session_changed_inv: "session_inv s \<Longrightarrow> (mgr \<longrightarrow> li) \<Longrightarrow> session_inv (session_changed u li mgr s)"
  by (auto simp: session_changed_def Let_def switch_inv) (auto simp: session_inv_def)

lemma startup_inv: "session_inv s \<Longrightarrow> session_inv (startup u s)"
proof -
  assume s: "session_inv s"
  define s1 where "s1 = (if isLoginPath (pathname s) \<and> logged_in s \<and> map_of (parse_query (search s)) ''reauth'' = None \<and>
      map_of (parse_query (search s)) ''mfa'' = None then leave_login u s else s)"
  have "session_inv s1" using s leave_login_inv by (simp add: s1_def)
  then have m: "manager s1 \<longrightarrow> logged_in s1" by (simp add: session_inv_def)
  then show ?thesis unfolding startup_def Let_def s1_def [symmetric] by (intro switch_inv) simp
qed

lemma shell_step_inv: "session_inv s \<Longrightarrow> shell_step u e s = Some t \<Longrightarrow> session_inv t"
proof (cases e)
  case (BackTo x)
  assume "session_inv s" "shell_step u e s = Some t"
  with BackTo show ?thesis by (auto split: if_splits intro!: popstate_inv) (auto simp: session_inv_def)
next
  case (ForwardTo x)
  assume "session_inv s" "shell_step u e s = Some t"
  with ForwardTo show ?thesis by (auto split: if_splits intro!: popstate_inv) (auto simp: session_inv_def)
next
  case (Denied n)
  assume "session_inv s" "shell_step u e s = Some t"
  with Denied show ?thesis by (auto simp: route_denied_def intro: sign_in_inv home_inv)
next
  case (OpenPath url)
  assume "session_inv s" "shell_step u e s = Some t"
  with OpenPath show ?thesis by (auto intro!: popstate_inv) (auto simp: session_inv_def)
next
  case LanguageSwitched
  assume "session_inv s" "shell_step u e s = Some t"
  with LanguageSwitched show ?thesis by (auto intro!: switch_inv) (auto simp: session_inv_def)
qed (auto simp: tab_click_def menu_click_def home_link_def intro: startup_inv open_tab_inv home_inv leave_login_inv sign_in_inv
      session_changed_inv split: if_splits)

interpretation sh: machine "shell_step u" session_inv
  by unfold_locales (rule shell_step_inv)

text \<open>The shell before its first page, with a session not yet known.\<close>

definition shell_start :: "string \<Rightarrow> string option \<Rightarrow> shell" where
  "shell_start url saved =
     \<lparr>nav = \<lparr>past = [], here = (url, Some 0), future = [], referrer_local = False\<rparr>, logged_in = False, manager = False,
      active = [], selectedTab = saved, entry_tab = None, login_error = False, account_search = [],
      dashboard_refresh = False, loads = [], popstates = 0\<rparr>"

lemma shell_start_inv: "session_inv (shell_start url saved)"
  by (simp add: session_inv_def protected_def shell_start_def isManagerTab_def isAccountTab_def)

text \<open>
  C16: protected pages are shown to signed-in visitors only. Whatever the address and whatever happens (starting the page, moving
  through the history, clicks, sign-in and the end of a session, refused requests, a change of the language), a
  management page, an account page or the editor of a profile is active only while there is a session.
\<close>

theorem protected_pages_need_session:
  assumes "run (shell_step u) es (shell_start url saved) = Some s"
  shows "(isManagerTab (active s) \<or> isAccountTab (active s) \<or>
      (active s = ''profile'' \<and> map_option snd (profileRouteFromPath (pathname s)) = Some ''edit'') \<longrightarrow> logged_in s) \<and>
    (manager s \<longrightarrow> logged_in s)"
  using sh.inv_run [OF assms shell_start_inv] by (simp add: session_inv_def protected_def edits_profile_def)

definition local_url :: url_of where
  "local_url v = (if starts_with ''/'' v then Some (local_base, v) else None)"

theorem protected_pages_need_session_witness:
  "\<exists>s. run (shell_step local_url) [Startup] (shell_start ''/'' None) = Some s \<and>
     (isManagerTab (active s) \<longrightarrow> logged_in s)"
proof -
  have "run (shell_step local_url) [Startup] (shell_start ''/'' None) = Some (startup local_url (shell_start ''/'' None))" by simp
  from this protected_pages_need_session [OF this] show ?thesis by blast
qed

section \<open>The address determines the page\<close>

text \<open>The page of an address, for a session that may see it.\<close>

definition page_of :: "string \<Rightarrow> string" where
  "page_of p =
     (if legalPageFromPath p \<noteq> [] then ''legal''
      else if accountPageFromPath p \<noteq> [] then accountPageFromPath p
      else if profileRouteFromPath p \<noteq> None then ''profile''
      else if publicMavenDomainRouteFromPath p \<noteq> None then ''maven-domain''
      else if publicSuperTeamRouteFromPath p \<noteq> None then ''super-team''
      else if accountTabFromPath p \<noteq> [] then accountTabFromPath p
      else if managerTabFromPath p \<noteq> [] then managerTabFromPath p
      else ''overview'')"

lemma account_tab_not_overview: "accountTabFromPath p \<noteq> ''overview''" and manager_tab_not_overview: "managerTabFromPath p \<noteq> ''overview''"
  using account_route_tab [of p] manager_route_tab [of p] by (auto simp: isAccountTab_def isManagerTab_def)

lemma overview_page_popstate:
  "p \<noteq> ''/'' \<Longrightarrow> legalPageFromPath p = [] \<Longrightarrow> accountPageFromPath p = [] \<Longrightarrow> overview_page p (popstate_tab p prev) = page_of p"
  using account_tab_not_overview [of p] manager_tab_not_overview [of p]
  by (simp add: overview_page_def popstate_tab_def page_of_def Let_def)

lemma popstate_manager: "p \<noteq> ''/'' \<Longrightarrow> isManagerTab (popstate_tab p prev) \<Longrightarrow> managerTabFromPath p \<noteq> []"
  using account_route_tab [of p] by (auto simp: popstate_tab_def isManagerTab_def isAccountTab_def split: if_splits)

lemma popstate_page:
  assumes "logged_in s" "manager s \<or> managerTabFromPath (pathname s) = []" "pathname s \<noteq> ''/''"
  shows "active (popstate u s) = page_of (pathname s) \<and> pathname (popstate u s) = pathname s"
proof -
  let ?p = "pathname s" and ?t = "popstate_tab (pathname s) (entry_tab s)"
  have d: "decide True (manager s) ?p ?t = Page (page_of ?p)"
  proof (cases "legalPageFromPath ?p = [] \<and> accountPageFromPath ?p = []")
    case True
    with popstate_manager [OF assms(3)] assms(2) overview_page_popstate [OF assms(3)] show ?thesis
      by (auto simp: decide_def requested_tab_def Let_def)
  next
    case False
    then have "requested_tab ?p ?t = page_of ?p" "page_of ?p \<in> {''legal'', ''login'', ''registration'', ''recovery'', ''password-recovery''}"
      by (auto simp: requested_tab_def page_of_def accountPageFromPath_def Let_def)
    then show ?thesis using overview_page_other [of "page_of ?p" ?p] by (auto simp: decide_def Let_def isManagerTab_def)
  qed
  then show ?thesis using assms(1) by (simp add: popstate_def switch_eq)
qed

text \<open>
  What a visitor has to get at an address \<open>p\<close> whose history entry remembers the tab \<open>x\<close>: the sign-in page where a session
  is needed, the home page where a session that is not a manager's may not see a management page, and otherwise the page of
  the address; at the home address it is the remembered tab, for those who may see it.
\<close>

definition private_address :: "string \<Rightarrow> string option \<Rightarrow> bool" where
  "private_address p x \<longleftrightarrow> accountTabFromPath p \<noteq> [] \<or> managerTabFromPath p \<noteq> [] \<or> edits_profile p \<or>
     (p = ''/'' \<and> (case x of Some t \<Rightarrow> isManagerTab t | None \<Rightarrow> False))"

definition expected_page :: "bool \<Rightarrow> bool \<Rightarrow> string \<Rightarrow> string option \<Rightarrow> decision" where
  "expected_page li mgr p x =
     (if \<not> li \<and> private_address p x then SignIn
      else if p = ''/''
      then Page (case x of Some t \<Rightarrow> if isManagerTab t \<and> mgr then t else ''overview'' | None \<Rightarrow> ''overview'')
      else if isManagerTab (page_of p) \<and> \<not> mgr then Home
      else Page (page_of p))"

lemma popstate_requested: "p \<noteq> ''/'' \<Longrightarrow> requested_tab p (popstate_tab p prev) = page_of p"
  by (auto simp: requested_tab_def popstate_tab_def page_of_def accountPageFromPath_def)

lemma page_of_manager: "isManagerTab (page_of p) \<Longrightarrow> managerTabFromPath p \<noteq> []"
  using account_route_tab [of p]
  by (auto simp: page_of_def accountPageFromPath_def isManagerTab_def isAccountTab_def Let_def split: if_splits)

lemma page_of_account: "isAccountTab (page_of p) \<Longrightarrow> accountTabFromPath p \<noteq> []"
  using manager_route_tab [of p]
  by (auto simp: page_of_def accountPageFromPath_def isManagerTab_def isAccountTab_def Let_def split: if_splits)

lemma overview_page_of: "overview_page p (page_of p) = page_of p"
proof -
  have "accountPageFromPath p \<noteq> ''overview''" by (simp add: accountPageFromPath_def Let_def)
  then show ?thesis
    using account_tab_not_overview [of p] manager_tab_not_overview [of p]
    by (auto simp: overview_page_def page_of_def Let_def)
qed

lemma decide_home_address: "decide li mgr ''/'' (popstate_tab ''/'' x) = expected_page li mgr ''/'' x"
proof -
  have o: "overview_page ''/'' t = t" for t by (simp add: overview_page_def home_path_facts Let_def)
  have t: "popstate_tab ''/'' x = (case x of Some t \<Rightarrow> if t = ''overview'' \<or> isManagerTab t then t else ''overview'' | None \<Rightarrow> ''overview'')"
    by (simp add: popstate_tab_def home_path_facts)
  show ?thesis
    unfolding decide_def expected_page_def private_address_def requested_tab_def Let_def t o
    by (auto simp: home_path_facts edits_profile_def isManagerTab_def isAccountTab_def split: option.split)
qed

lemma decide_expected: "decide li mgr p (popstate_tab p x) = expected_page li mgr p x"
proof (cases "p = ''/''")
  case False
  show ?thesis
    unfolding decide_def expected_page_def private_address_def Let_def popstate_requested [OF False]
    using page_of_manager [of p] page_of_account [of p] overview_page_of [of p] False
    by (auto simp: edits_profile_def)
qed (simp add: decide_home_address)

text \<open>The address an event asks for: the history after it, and the tab its entry remembers.\<close>

fun asked :: "shell_event \<Rightarrow> shell \<Rightarrow> (history \<times> string option) option" where
  "asked (BackTo x) s = map_option (\<lambda>h. (h, x)) (nav_step Back (nav s))"
| "asked (ForwardTo x) s = map_option (\<lambda>h. (h, x)) (nav_step Forward (nav s))"
| "asked (OpenPath url) s = Some (pushState url (nav s), None)"
| "asked _ s = None"

text \<open>
  C17: the page shown follows the address. After a movement through the history, or a link that opens a route, every visitor gets
  the page of the new address, whatever was shown and selected before, and the address is kept; only a visitor without a session
  who asks for a page that needs one gets the sign-in page instead, and a signed-in visitor who is no manager and asks for a
  management page the home page.
\<close>

theorem address_determines_page:
  assumes "asked e s = Some (h, x)" and "shell_step u e s = Some t"
  shows "case expected_page (logged_in s) (manager s) (fst (location_parts (fst (here h)))) x of
      SignIn \<Rightarrow> pathname t = ''/account/login'' \<and> active t = ''login''
    | Home \<Rightarrow> pathname t = ''/'' \<and> active t = ''overview''
    | Page q \<Rightarrow> nav t = h \<and> active t = q"
proof -
  define r where "r = s\<lparr>nav := h, entry_tab := x\<rparr>"
  have t: "t = popstate u r" using assms by (cases e) (auto simp: r_def set_url_def)
  have r: "logged_in r = logged_in s" "manager r = manager s" "pathname r = fst (location_parts (fst (here h)))" "entry_tab r = x"
    "nav r = h" by (simp_all add: r_def pathname_def address_def)
  have login: "\<not> isLoginPath (pathname r)"
    if "expected_page (logged_in s) (manager s) (pathname r) x = SignIn"
    using that login_never_redirects [of "pathname r"] decide_expected [of "logged_in s" "manager s" "pathname r" x]
    by (metis decision.distinct(3))
  show ?thesis
    unfolding t popstate_def switch_eq dispatched_simps decide_expected r
    using login by (auto simp: r pathname_to_login split: decision.split)
qed

definition signed_in :: "bool \<Rightarrow> string \<Rightarrow> shell" where
  "signed_in mgr url = (shell_start url None)\<lparr>logged_in := True, manager := mgr\<rparr>"

theorem address_determines_page_witness:
  "(\<exists>t. shell_step local_url (OpenPath ''/team/red-ants'') (signed_in True ''/settings'') = Some t \<and> active t = ''super-team'') \<and>
   (\<exists>t. shell_step local_url (OpenPath ''/settings'') (signed_in False ''/'') = Some t \<and> pathname t = ''/'')"
proof -
  have p: "location_parts ''/team/red-ants'' = (''/team/red-ants'', [])" "location_parts ''/settings'' = (''/settings'', [])"
    by (simp_all add: location_parts_def)
  have e: "expected_page True True ''/team/red-ants'' None = Page ''super-team''" "expected_page True False ''/settings'' None = Home"
    by code_simp+
  note a = address_determines_page [OF asked.simps(3) shell_step.simps(12)]
  from a [of local_url "''/team/red-ants''" "signed_in True ''/settings''"] a [of local_url "''/settings''" "signed_in False ''/''"]
  show ?thesis by (simp add: signed_in_def pushState_def p e)
qed

section \<open>Signing in resumes the page asked for\<close>

lemma login_search:
  assumes "safeLoginReturnTo u (Some p) = p" "p \<noteq> ''/''"
  shows "loginReturnTo u (drop 14 (login_route u (Some p) False)) = p"
proof -
  have "login_query u (Some p) False = [(''return_to'', p)]" using assms by (simp add: login_query_def Let_def)
  then have "drop 14 (login_route u (Some p) False) = ''?'' @ query_text [(''return_to'', p)]"
    by (simp add: login_route_def Let_def)
  moreover have "parse_query (''?'' @ query_text [(''return_to'', p)]) = [(''return_to'', p)]" by (rule parse_query_text) simp
  ultimately show ?thesis using assms(1) by (simp add: loginReturnTo_def)
qed

lemma address_to_login:
  "\<not> isLoginPath (pathname s) \<Longrightarrow>
   address (to_login u r s) = (''/account/login'', drop 14 (login_route u (Some (pathname s)) False))"
  by (simp add: address_def to_login_def set_url_def navigateToLogin_def replaceState_def pushState_def location_login)

lemma session_changed_login:
  "pathname s = ''/account/login'' \<Longrightarrow> nav (session_changed u li mgr s) = nav s"
  by (simp add: session_changed_def Let_def switch_eq decide_login pathname_def address_def)

text \<open>
  C30: a visitor without a session who asks for a protected page is sent to the sign-in page, and completing the sign-in shows the
  page asked for under its own address, if the new session may see it. The path must be one that the sign-in page returns to
  (local and bounded) and without a query.
\<close>

theorem sign_in_resumes_page:
  assumes "decide False False p tabId = SignIn" and "pathname s = p" "logged_in s = False" "manager s = False"
    and "safeLoginReturnTo u (Some p) = p" "p \<noteq> ''/''" "CHR ''?'' \<notin> set p"
    and "mgr \<or> managerTabFromPath p = []"
  shows "active (switchTab u tabId s) = ''login'' \<and>
    (\<exists>t. shell_step u (LoginDone mgr) (switchTab u tabId s) = Some t \<and> active t = page_of p \<and> pathname t = p)"
proof -
  define l where "l = switchTab u tabId s"
  have n: "\<not> isLoginPath p" using assms(1) login_never_redirects [of p False False tabId] by auto
  have l: "l = activate u ''login'' (dispatched (to_login u True s))" using assms by (simp add: l_def switch_eq)
  have a: "address l = (''/account/login'', drop 14 (login_route u (Some p) False))"
    using address_to_login [of s u True] n assms(2) by (simp add: l address_def)
  define c where "c = session_changed u True mgr l"
  have c: "address c = address l" "logged_in c" "manager c = mgr"
    using session_changed_login [of l u True mgr] a
    by (simp_all add: c_def address_def pathname_def) (simp_all add: session_changed_def Let_def)
  have pc: "pathname c = ''/account/login''" "search c = drop 14 (login_route u (Some p) False)"
    using c(1) a by (simp_all add: pathname_def search_def)
  define r where "r = set_url (leaveLoginPage u (pathname c) (search c)) c"
  have "isLoginPath ''/account/login''" by (simp add: isLoginPath_def login_path_facts)
  then have lc: "leave_login u c = popstate u r"
    and rp: "pathname r = p"
    using pc login_search [OF assms(5,6)] assms(7)
    by (simp_all add: leave_login_def r_def leaveLoginPage_def pathname_def address_def set_url_def replaceState_def
        location_parts_def)
  have "logged_in r" "manager r = mgr" using c by (simp_all add: r_def)
  with popstate_page [of r u] rp assms(6,8) have "active (popstate u r) = page_of p \<and> pathname (popstate u r) = p" by simp
  then show ?thesis using lc by (simp add: l_def [symmetric] c_def [symmetric]) (simp add: l)
qed

theorem sign_in_resumes_page_witness:
  "active (switchTab local_url ''settings'' (shell_start ''/settings'' None)) = ''login''"
proof -
  have "decide False False ''/settings'' ''settings'' = SignIn" "safeLoginReturnTo local_url (Some ''/settings'') = ''/settings''"
    "pathname (shell_start ''/settings'' None) = ''/settings''"
    by code_simp+
  moreover have "logged_in (shell_start ''/settings'' None) = False" "manager (shell_start ''/settings'' None) = False"
    by (simp_all add: shell_start_def)
  ultimately show ?thesis
    using sign_in_resumes_page [of "''/settings''" "''settings''" "shell_start ''/settings'' None" local_url True] by simp
qed

section \<open>Management pages\<close>

lemma account_not_manager: "\<not> isManagerTab (accountTabFromPath p)"
  by (simp add: accountTabFromPath_def isManagerTab_def)

lemma decide_manager:
  assumes "decide li mgr p t = Page x" "isManagerTab x" "t \<noteq> ''overview'' \<or> managerTabFromPath p = []"
  shows "mgr"
proof (rule ccontr)
  assume m: "\<not> mgr"
  let ?t = "requested_tab p t"
  have x: "x = overview_page p (if isManagerTab ?t then ''overview'' else ?t)" and nr: "isManagerTab ?t \<longrightarrow> managerTabFromPath p = []"
    using assms(1) m by (auto simp: decide_def Let_def split: if_splits)
  show False
  proof (cases "managerTabFromPath p = []")
    case True
    have lit: "\<not> isManagerTab ''overview''" "\<not> isManagerTab ''profile''" "\<not> isManagerTab ''maven-domain''"
      "\<not> isManagerTab ''super-team''" "\<not> isManagerTab []"
      by (simp_all add: isManagerTab_def)
    define y where "y = (if isManagerTab ?t then ''overview'' else ?t)"
    have "\<not> isManagerTab y" using lit by (simp add: y_def)
    moreover have "x \<in> {y, ''profile'', ''maven-domain'', ''super-team'', accountTabFromPath p, managerTabFromPath p}"
      using x overview_page_cases [of p y] by (simp add: y_def)
    ultimately show False using lit account_not_manager [of p] True assms(2) by auto
  next
    case False
    then have "\<not> isManagerTab ?t" "t \<noteq> ''overview''" using nr assms(3) by auto
    moreover have "?t \<noteq> ''overview''"
      using calculation(2) requested_account [of p t] by (auto simp: requested_tab_def)
    ultimately show False using x assms(2) overview_page_other by simp
  qed
qed

lemma switch_manager:
  assumes "isManagerTab (active (switchTab u t s))" "t \<noteq> ''overview'' \<or> managerTabFromPath (pathname s) = []"
  shows "manager s"
proof (cases "decide (logged_in s) (manager s) (pathname s) t")
  case (Page x)
  with decide_manager [OF Page _ assms(2)] assms(1) show ?thesis by (simp add: switch_eq)
qed (use assms(1) in \<open>simp_all add: switch_eq isManagerTab_def\<close>)

lemma popstate_tab_routed: "managerTabFromPath p \<noteq> [] \<Longrightarrow> popstate_tab p prev \<noteq> ''overview''"
  using account_tab_not_overview [of p] manager_tab_not_overview [of p] by (simp add: popstate_tab_def)

lemma popstate_guard: "isManagerTab (active (popstate u s)) \<Longrightarrow> manager s"
  unfolding popstate_def
  using switch_manager [of u _ "dispatched s"] popstate_tab_routed [of "pathname s" "entry_tab s"] by auto

lemma home_guard: "isManagerTab (active (navigateHome u r s)) \<Longrightarrow> manager s"
proof -
  let ?s = "if pathname s \<noteq> ''/'' \<or> search s \<noteq> [] then set_url (if r then replaceState ''/'' else pushState ''/'') s else s"
  have p: "pathname ?s = ''/''" by (simp add: pathname_home)
  assume "isManagerTab (active (navigateHome u r s))"
  with switch_manager [of u "''overview''" ?s] p home_path_facts(4) show ?thesis
    by (simp add: navigateHome_def split: if_splits)
qed

lemma open_tab_guard: "isManagerTab (active (open_tab u t s)) \<Longrightarrow> manager s"
proof -
  define r where "r = (if managerRouteForTab t \<noteq> [] then
      (if pathname s \<noteq> managerRouteForTab t \<or> search s \<noteq> [] then set_url (pushState (managerRouteForTab t)) s else s)
      else if routed_elsewhere (pathname s) then set_url (pushState ''/'') s else s)"
  assume a: "isManagerTab (active (open_tab u t s))"
  have "t \<noteq> ''overview'' \<or> managerTabFromPath (pathname r) = []"
    by (auto simp: r_def managerRouteForTab_def pathname_home home_path_facts routed_elsewhere_def)
  moreover have "open_tab u t s = switchTab u t r" by (simp add: open_tab_def r_def Let_def)
  moreover have "manager r = manager s" by (simp add: r_def)
  ultimately show ?thesis using a switch_manager [of u t r] by metis
qed

lemma language_guard: "isManagerTab (active (switchTab u (language_tab s) s)) \<Longrightarrow> manager s"
proof -
  assume a: "isManagerTab (active (switchTab u (language_tab s) s))"
  have "language_tab s \<noteq> ''overview'' \<or> managerTabFromPath (pathname s) = []"
    using account_tab_not_overview [of "pathname s"] manager_tab_not_overview [of "pathname s"]
    by (auto simp: language_tab_def Let_def or_else_def)
  with a switch_manager show ?thesis by blast
qed

lemma sign_in_guard: "isManagerTab (active (sign_in u r s)) \<Longrightarrow> (isManagerTab (active s) \<longrightarrow> manager s) \<Longrightarrow> manager s"
  by (auto simp: sign_in_def dest: popstate_guard split: if_splits)

definition navigates :: "shell_event \<Rightarrow> bool" where
  "navigates e = (case e of Startup \<Rightarrow> False | SessionChanged li mgr \<Rightarrow> False | LoginDone mgr \<Rightarrow> False | _ \<Rightarrow> True)"

text \<open>
  navigation never shows a management page to a session without the rights for it: if the page before was allowed, then so
  is the page after a movement through the history, a click on a tab, the menu or the home link, a refused request, a change
  of the language or an opened route.
\<close>

theorem navigation_keeps_managers_only:
  assumes "navigates e" and "shell_step u e s = Some t" and "isManagerTab (active s) \<longrightarrow> manager s"
  shows "isManagerTab (active t) \<longrightarrow> manager s"
proof (cases e)
  case (Denied n)
  with assms show ?thesis
    by (auto simp: route_denied_def dest: sign_in_guard home_guard split: if_splits)
next
  case OpenLogin
  with assms show ?thesis by (auto dest: sign_in_guard)
qed (use assms in \<open>auto simp: navigates_def tab_click_def menu_click_def home_link_def
      dest: popstate_guard open_tab_guard home_guard language_guard split: if_splits\<close>)

theorem navigation_keeps_managers_only_witness:
  "isManagerTab (active (tab_click local_url ''users'' (signed_in False ''/''))) = False"
proof -
  have "shell_step local_url (TabClicked ''users'') (signed_in False ''/'') = Some (tab_click local_url ''users'' (signed_in False ''/''))"
    by simp
  from navigation_keeps_managers_only [OF _ this] show ?thesis
    by (simp add: navigates_def signed_in_def shell_start_def isManagerTab_def)
qed

text \<open>
  The start is different: for a session without the rights it asks for the overview instead of the management page of the
  address, but \<open>switchTab\<close> turns an overview into the page of the address after its check.
\<close>

theorem startup_shows_management_page:
  "active (startup u (signed_in False ''/dashboard'')) = ''dashboard'' \<and> \<not> manager (startup u (signed_in False ''/dashboard''))"
proof -
  have p: "pathname (signed_in False ''/dashboard'') = ''/dashboard''" "logged_in (signed_in False ''/dashboard'')"
    "\<not> manager (signed_in False ''/dashboard'')"
    by (simp_all add: signed_in_def shell_start_def pathname_def address_def location_parts_def)
  have f: "isLoginPath ''/dashboard'' = False" "profileRouteFromPath ''/dashboard'' = None" "accountTabFromPath ''/dashboard'' = []"
    "managerTabFromPath ''/dashboard'' = ''dashboard''" "decide True False ''/dashboard'' ''overview'' = Page ''dashboard''"
    "isManagerTab ''dashboard''"
    by code_simp+
  show ?thesis using p by (simp add: startup_def Let_def f switch_eq)
qed

end
