(* ===== verification/Session.thy ===== *)
theory Session
  imports Shell
begin

text \<open>
  The session of the browser (\<open>auth.js\<close>): what the permissions of a session allow, its caches and the controls that
  follow them, restoring a remembered session, signing in with a password or a Passkey, and signing out. The shell of
  \<open>Shell\<close> is a part of the state, because a change of the session may change the page. The agreement to the
  policies, the CAPTCHA and the Passkey prompt are awaited answers here; they have theories of their own.
  The label of an unnamed profile is the parameter \<open>unnamed\<close>. Error texts are given by their keys.
\<close>

section \<open>Permissions\<close>

text \<open>An entry is a string, an object with or without identifier, or null.\<close>

datatype permission = PStr string | PObj "string option" | PNull

definition perm_id :: "permission \<Rightarrow> string" where
  "perm_id p = (case p of PStr s \<Rightarrow> s | PObj (Some s) \<Rightarrow> s | _ \<Rightarrow> [])"

record route =
  route_path :: "string option"
  route_permission :: "string option"

definition MANAGER_PERMISSION_IDS :: "string list" where
  "MANAGER_PERMISSION_IDS = [''manager'', ''m'', ''access-token:manager'', ''admin'']"

definition isManagerFromSession :: "permission list \<Rightarrow> bool" where
  "isManagerFromSession permissions =
     list_ex (\<lambda>p. perm_id p \<noteq> [] \<and> perm_id p \<in> set MANAGER_PERMISSION_IDS) permissions"

definition repoNameFromPath :: "string \<Rightarrow> string" where
  "repoNameFromPath path =
     (case filter (\<lambda>p. p \<noteq> []) (split_on CHR ''/'' path) of
        [] \<Rightarrow> []
      | p # _ \<Rightarrow> (case decodeURIComponent p of Some d \<Rightarrow> d | None \<Rightarrow> p))"

fun permits_update :: "string \<Rightarrow> permission list \<Rightarrow> bool" where
  "permits_update name [] = False"
| "permits_update name (p # ps) =
     (if perm_id p = [] then permits_update name ps
      else if perm_id p = ''canupdate:*'' then True
      else if perm_id p = ''canupdate:'' @ name then True
      else permits_update name ps)"

fun routes_write :: "string \<Rightarrow> route option list \<Rightarrow> bool" where
  "routes_write name [] = False"
| "routes_write name (None # rs) = routes_write name rs"
| "routes_write name (Some r # rs) =
     (if route_permission r \<noteq> Some ''route:write'' \<and> route_permission r \<noteq> Some ''w'' then routes_write name rs
      else if route_path r = Some ''*'' \<or> route_path r = Some name then True
      else routes_write name rs)"

definition canUpdateRepo :: "bool \<Rightarrow> bool \<Rightarrow> permission list \<Rightarrow> route option list \<Rightarrow> string \<Rightarrow> bool" where
  "canUpdateRepo li mgr permissions routes repoName =
     (if \<not> li then False
      else if mgr then True
      else if repoName = [] then False
      else (let name = (case decodeURIComponent repoName of Some d \<Rightarrow> d | None \<Rightarrow> repoName)
            in permits_update name permissions \<or> routes_write name routes))"

section \<open>The state\<close>

record profile =
  profile_username :: string
  nickname :: string

record session_data =
  sd_permissions :: "permission list"
  sd_routes :: "route option list"
  sd_name :: string

text \<open>A Passkey sign-in: its controller, the name typed, what it waits for, and the popstate events seen when it started.\<close>

datatype fido_stage = FConsent | FCaptcha | FBegin | FBeginError | FOptions | FPrompt | FFinish | FFinishError | FDecode | FMFA

record fido_attempt =
  at_id :: nat
  at_name :: string
  at_stage :: fido_stage
  at_popstates :: nat

datatype login_stage = LConsent | LRequest | LErrorText

text \<open>
  \<open>username\<close> is the entry of the local storage, \<open>stored_tokens\<close> the old token entries, \<open>session_cookie\<close> the cookie scripts
  can see. \<open>session_check\<close> is the running check of the remembered session with \<open>wasLoggedIn\<close>; \<open>logout_pending\<close>
  the running sign-out with its reason and \<open>wasLoggedIn\<close>.
\<close>

record auth =
  app :: shell
  permissions :: "permission list"
  routes :: "route option list"
  username :: "string option"
  stored_tokens :: "string list"
  session_cookie :: bool
  login_btn :: bool
  user_info :: bool
  manager_only :: bool
  user_only :: bool
  nav_name :: string
  nav_profile :: "profile option"
  nav_sequence :: nat
  nav_loads :: "(nat \<times> string) list"
  session_check :: "bool option"
  login_pending :: "(string \<times> login_stage) option"
  logout_pending :: "(string \<times> bool) option"
  logout_requests :: nat
  login_error_key :: string
  mfa_shown :: nat
  notices :: "string list"
  fido_abort :: "nat option"
  aborted :: "nat list"
  attempts :: "fido_attempt list"
  next_attempt :: nat
  completed :: "nat list"

text \<open>\<open>completed\<close> lists the attempts that signed in. The page runs the listener that cancels a Passkey sign-in on every popstate event.\<close>

definition cancelFidoLogin :: "auth \<Rightarrow> auth" where
  "cancelFidoLogin a = (case fido_abort a of None \<Rightarrow> a | Some i \<Rightarrow> a\<lparr>aborted := i # aborted a\<rparr>)"

definition on_shell :: "(shell \<Rightarrow> shell) \<Rightarrow> auth \<Rightarrow> auth" where
  "on_shell f a =
     (let s = f (app a); b = a\<lparr>app := s\<rparr> in if popstates s \<noteq> popstates (app a) then cancelFidoLogin b else b)"

section \<open>The identity in the navigation\<close>

definition profileDisplayName :: "string \<Rightarrow> profile option \<Rightarrow> string" where
  "profileDisplayName unnamed p = or_else (case p of None \<Rightarrow> [] | Some p \<Rightarrow> js_trim (nickname p)) unnamed"

definition applyNavProfile :: "string \<Rightarrow> profile option \<Rightarrow> auth \<Rightarrow> auth" where
  "applyNavProfile unnamed p a = a\<lparr>nav_profile := p, nav_name := profileDisplayName unnamed p\<rparr>"

definition refreshNavProfile :: "string \<Rightarrow> auth \<Rightarrow> auth" where
  "refreshNavProfile name a =
     a\<lparr>nav_sequence := Suc (nav_sequence a), nav_loads := nav_loads a @ [(Suc (nav_sequence a), name)]\<rparr>"

text \<open>The profile arrived, or could not be loaded.\<close>

definition nav_loaded :: "string \<Rightarrow> nat \<Rightarrow> profile option \<Rightarrow> auth \<Rightarrow> auth" where
  "nav_loaded unnamed k result a =
     (let sequence = fst (nav_loads a ! k); a = a\<lparr>nav_loads := take k (nav_loads a) @ drop (Suc k) (nav_loads a)\<rparr> in
      if sequence \<noteq> nav_sequence a then a
      else (case result of
              Some p \<Rightarrow> applyNavProfile unnamed (Some p) a
            | None \<Rightarrow> if nav_profile a = None then applyNavProfile unnamed None a else a))"

definition current_username :: "auth \<Rightarrow> string" where
  "current_username a = to_lower (case username a of Some n \<Rightarrow> n | None \<Rightarrow> [])"

definition profile_changed :: "string \<Rightarrow> string \<Rightarrow> profile \<Rightarrow> auth \<Rightarrow> auth" where
  "profile_changed unnamed name p a =
     (if name \<noteq> current_username a then a
      else applyNavProfile unnamed (Some p) (a\<lparr>nav_sequence := Suc (nav_sequence a)\<rparr>))"

definition profiles_invalidated :: "string list \<Rightarrow> auth \<Rightarrow> auth" where
  "profiles_invalidated names a =
     (if current_username a \<in> set names then refreshNavProfile (current_username a) a else a)"

definition nav_language :: "string \<Rightarrow> auth \<Rightarrow> auth" where
  "nav_language unnamed a =
     (if logged_in (app a) \<and> nav_profile a \<noteq> None then applyNavProfile unnamed (nav_profile a) a else a)"

section \<open>The session caches\<close>

text \<open>The caches and the manager flag \<open>applySessionCaches\<close> computes; the flag passed by older callers counts without a list.\<close>

definition applySessionCaches :: "bool \<Rightarrow> permission list \<Rightarrow> route option list \<Rightarrow> auth \<Rightarrow> auth" where
  "applySessionCaches li ps rs a =
     a\<lparr>permissions := (if li then ps else []), routes := (if li then rs else [])\<rparr>"

definition manager_flag :: "bool \<Rightarrow> permission list \<Rightarrow> bool \<Rightarrow> bool" where
  "manager_flag li ps legacy = (li \<and> (isManagerFromSession ps \<or> (ps = [] \<and> legacy)))"

definition updateAuthUI :: "url_of \<Rightarrow> bool \<Rightarrow> string \<Rightarrow> bool \<Rightarrow> permission list \<Rightarrow> route option list \<Rightarrow> auth \<Rightarrow> auth" where
  "updateAuthUI u li name legacy ps rs a =
     (let mgr = manager_flag li ps legacy;
          a = applySessionCaches li ps rs a;
          a = (if li then refreshNavProfile name (a\<lparr>login_btn := False, user_info := True\<rparr>)
               else a\<lparr>login_btn := True, user_info := False, nav_name := [], nav_profile := None\<rparr>);
          a = a\<lparr>manager_only := mgr, user_only := li\<rparr>
      in on_shell (session_changed u li mgr) a)"

section \<open>Restoring a session\<close>

datatype check_answer = CheckOk "session_data option" | CheckStatus nat | CheckFailed

definition start_logout :: "url_of \<Rightarrow> string \<Rightarrow> auth \<Rightarrow> auth" where
  "start_logout u reason a =
     (let a = on_shell (route_denied u (if reason = ''expired'' \<or> reason = ''kicked'' then 401 else 0)) a in
      if logout_pending a \<noteq> None then a
      else a\<lparr>logout_pending := Some (reason, or_else (case username a of Some n \<Rightarrow> n | None \<Rightarrow> []) [] \<noteq> []),
             logout_requests := Suc (logout_requests a)\<rparr>)"

definition initializeSession :: "auth \<Rightarrow> auth" where
  "initializeSession a =
     a\<lparr>stored_tokens := filter (\<lambda>k. k \<noteq> ''session-token'') (stored_tokens a),
       session_check := Some (case username a of Some n \<Rightarrow> n \<noteq> [] | None \<Rightarrow> False)\<rparr>"

definition remembered :: "auth \<Rightarrow> string" where
  "remembered a = (case username a of Some n \<Rightarrow> n | None \<Rightarrow> [])"

definition end_check :: "url_of \<Rightarrow> check_answer \<Rightarrow> bool \<Rightarrow> auth \<Rightarrow> auth" where
  "end_check u ans wasLoggedIn a =
     (let a = a\<lparr>session_check := None\<rparr> in
      case ans of
        CheckOk d \<Rightarrow>
          (let ps = (case d of Some d \<Rightarrow> sd_permissions d | None \<Rightarrow> []);
               rs = (case d of Some d \<Rightarrow> sd_routes d | None \<Rightarrow> []);
               serverName = (case d of Some d \<Rightarrow> or_else (sd_name d) (remembered a) | None \<Rightarrow> remembered a);
               a = (if serverName \<noteq> [] then a\<lparr>username := Some serverName\<rparr> else a)
           in updateAuthUI u True serverName (isManagerFromSession ps) ps rs a)
      | CheckStatus st \<Rightarrow>
          if st = 401 then (if wasLoggedIn then start_logout u ''expired'' a else updateAuthUI u False [] False [] [] a)
          else updateAuthUI u (remembered a \<noteq> []) (remembered a) False [] [] a
      | CheckFailed \<Rightarrow> updateAuthUI u False [] False [] [] a)"

section \<open>Signing in\<close>

definition completeLogin :: "url_of \<Rightarrow> session_data option \<Rightarrow> string \<Rightarrow> auth \<Rightarrow> auth" where
  "completeLogin u d fallback a =
     (let name = (case d of Some d \<Rightarrow> or_else (sd_name d) fallback | None \<Rightarrow> fallback);
          ps = (case d of Some d \<Rightarrow> sd_permissions d | None \<Rightarrow> []);
          rs = (case d of Some d \<Rightarrow> sd_routes d | None \<Rightarrow> []);
          a = a\<lparr>stored_tokens := filter (\<lambda>k. k \<notin> {''token-name'', ''token-secret'', ''session-token''}) (stored_tokens a),
                username := Some name\<rparr>;
          a = updateAuthUI u True name (isManagerFromSession ps) ps rs a;
          a = a\<lparr>notices := notices a @ [''login.welcomeBack'']\<rparr>
      in on_shell (leave_login u) a)"

definition show_login_error :: "string \<Rightarrow> auth \<Rightarrow> auth" where
  "show_login_error key a = a\<lparr>login_error_key := key, app := (app a)\<lparr>login_error := True\<rparr>\<rparr>"

definition hide_login_error :: "auth \<Rightarrow> auth" where
  "hide_login_error a = a\<lparr>app := (app a)\<lparr>login_error := False\<rparr>\<rparr>"

datatype login_answer = LoginOk "session_data option" | LoginMFA | LoginRefused | LoginFailed

definition login_request :: "bool \<Rightarrow> string \<Rightarrow> auth \<Rightarrow> auth" where
  "login_request given name a =
     (if given then (hide_login_error a)\<lparr>login_pending := Some (name, LRequest)\<rparr> else a\<lparr>login_pending := None\<rparr>)"

text \<open>While \<open>showMFALogin\<close> prepares the second factor the button stays busy; its end is not told apart here.\<close>

definition login_answered :: "url_of \<Rightarrow> login_answer \<Rightarrow> string \<Rightarrow> auth \<Rightarrow> auth" where
  "login_answered u ans name a =
     (let a = a\<lparr>login_pending := None\<rparr> in
      case ans of
        LoginOk d \<Rightarrow> completeLogin u d name a
      | LoginMFA \<Rightarrow> a\<lparr>mfa_shown := Suc (mfa_shown a)\<rparr>
      | LoginRefused \<Rightarrow> a\<lparr>login_pending := Some (name, LErrorText)\<rparr>
      | LoginFailed \<Rightarrow> show_login_error ''login.loginError'' a)"

section \<open>Signing out\<close>

definition logout_notice :: "string \<Rightarrow> bool \<Rightarrow> bool \<Rightarrow> string list" where
  "logout_notice reason wasLoggedIn providerRevocationFailed =
     (if wasLoggedIn \<and> providerRevocationFailed then [''oauth.logoutRevokeFailed'']
      else if wasLoggedIn \<and> (reason = ''expired'' \<or> reason = ''kicked'') then [''login.sessionExpired'']
      else if wasLoggedIn \<and> reason \<noteq> ''silent'' \<and> reason \<noteq> ''account_deleted'' then [''login.signedOut'']
      else [])"

text \<open>The answer of the sign-out request: whether it says that revoking at the provider failed.\<close>

definition performLogout :: "url_of \<Rightarrow> bool \<Rightarrow> auth \<Rightarrow> auth" where
  "performLogout u providerRevocationFailed a =
     (case logout_pending a of
        None \<Rightarrow> a
      | Some (reason, wasLoggedIn) \<Rightarrow>
          (let a = a\<lparr>stored_tokens := filter (\<lambda>k. k \<notin> {''token-name'', ''token-secret'', ''session-token''}) (stored_tokens a),
                     username := None, session_cookie := False, nav_sequence := Suc (nav_sequence a)\<rparr>;
               a = updateAuthUI u False [] False [] [] a;
               a = a\<lparr>notices := notices a @ logout_notice reason wasLoggedIn providerRevocationFailed\<rparr>;
               a = on_shell (\<lambda>s. switchTab u ''overview'' (s\<lparr>dashboard_refresh := False, selectedTab := Some ''overview''\<rparr>)) a
           in a\<lparr>logout_pending := None\<rparr>))"

section \<open>Passkey sign-in\<close>

definition start_fido :: "bool \<Rightarrow> string \<Rightarrow> auth \<Rightarrow> auth" where
  "start_fido supported name a =
     (let a = hide_login_error (cancelFidoLogin a) in
      if \<not> supported then show_login_error ''login.fidoUnsupported'' a
      else a\<lparr>fido_abort := Some (next_attempt a), next_attempt := Suc (next_attempt a),
             attempts := attempts a @ [\<lparr>at_id = next_attempt a, at_name = js_trim name, at_stage = FConsent,
                                        at_popstates = popstates (app a)\<rparr>]\<rparr>)"

datatype fido_answer = Granted | Refused | Failed string | NeedsMFA | Session "session_data option"

definition end_attempt :: "nat \<Rightarrow> auth \<Rightarrow> auth" where
  "end_attempt i a =
     a\<lparr>attempts := filter (\<lambda>t. at_id t \<noteq> i) (attempts a),
       fido_abort := (if fido_abort a = Some i then None else fido_abort a)\<rparr>"

definition set_stage :: "nat \<Rightarrow> fido_stage \<Rightarrow> auth \<Rightarrow> auth" where
  "set_stage i g a = a\<lparr>attempts := map (\<lambda>t. if at_id t = i then t\<lparr>at_stage := g\<rparr> else t) (attempts a)\<rparr>"

text \<open>The catch clause.\<close>

definition fido_failed :: "nat \<Rightarrow> string \<Rightarrow> auth \<Rightarrow> auth" where
  "fido_failed i key a = (if i \<in> set (aborted a) then end_attempt i a else end_attempt i (show_login_error key a))"

text \<open>
  An awaited answer of an attempt; an error text that was read is \<open>Failed\<close> with its key. \<open>throwIfAborted\<close> follows every await but those of the error texts, of the second
  factor and of the agreement, which returns. \<open>None\<close>: the answer does not fit what is awaited.
\<close>

definition fido_continue :: "url_of \<Rightarrow> fido_attempt \<Rightarrow> fido_answer \<Rightarrow> auth \<Rightarrow> auth option" where
  "fido_continue u t ans a =
     (let i = at_id t; gone = at_id t \<in> set (aborted a) in
      case ans of
        Failed key \<Rightarrow>
          if at_stage t = FBeginError \<or> at_stage t = FFinishError
          then Some (end_attempt i (show_login_error key a)) else Some (fido_failed i key a)
      | Granted \<Rightarrow>
          (case at_stage t of
             FConsent \<Rightarrow> Some (if gone then end_attempt i a else set_stage i FCaptcha a)
           | FCaptcha \<Rightarrow> Some (if gone then end_attempt i a else set_stage i FBegin a)
           | FBegin \<Rightarrow> Some (if gone then end_attempt i a else set_stage i FOptions a)
           | FOptions \<Rightarrow> Some (if gone then end_attempt i a else set_stage i FPrompt a)
           | FPrompt \<Rightarrow> Some (if gone then end_attempt i a else set_stage i FFinish a)
           | FFinish \<Rightarrow> Some (if gone then end_attempt i a else set_stage i FDecode a)
           | FMFA \<Rightarrow> Some (end_attempt i a)
           | _ \<Rightarrow> None)
      | Refused \<Rightarrow>
          (case at_stage t of
             FConsent \<Rightarrow> Some (end_attempt i a)
           | FBegin \<Rightarrow> Some (if gone then end_attempt i a else set_stage i FBeginError a)
           | FOptions \<Rightarrow> Some (if gone then end_attempt i a else end_attempt i (show_login_error ''login.fidoFailed'' a))
           | FFinish \<Rightarrow> Some (if gone then end_attempt i a else set_stage i FFinishError a)
           | _ \<Rightarrow> None)
      | NeedsMFA \<Rightarrow>
          if at_stage t = FFinish
          then Some (if gone then end_attempt i a else (set_stage i FMFA a)\<lparr>mfa_shown := Suc (mfa_shown a)\<rparr>) else None
      | Session d \<Rightarrow>
          if at_stage t = FDecode
          then Some (if gone then end_attempt i a
                     else (end_attempt i (completeLogin u d (at_name t) a))\<lparr>completed := i # completed a\<rparr>)
          else None)"

section \<open>Events\<close>

datatype auth_event =
    CheckEnds check_answer | Shown shell_event
  | NavLoaded nat "profile option" | ProfileChanged string profile | ProfilesInvalidated "string list" | NavLanguage
  | LoginSubmitted string | LoginConsent bool | LoginAnswered login_answer | LoginErrorRead string
  | MFACompleted "session_data option" | LogoutRequested string | LogoutAnswered bool
  | FidoStarted bool string | FidoAnswered nat fido_answer | PageHidden

definition navigation :: "shell_event \<Rightarrow> bool" where
  "navigation e = (case e of SessionChanged li mgr \<Rightarrow> False | LoginDone mgr \<Rightarrow> False | _ \<Rightarrow> True)"

fun auth_step :: "url_of \<Rightarrow> string \<Rightarrow> auth_event \<Rightarrow> auth \<Rightarrow> auth option" where
  "auth_step u unnamed (CheckEnds ans) a =
     (case session_check a of None \<Rightarrow> None | Some was \<Rightarrow> Some (end_check u ans was a))"
| "auth_step u unnamed (Shown e) a =
     (if \<not> navigation e then None
      else (case shell_step u e (app a) of None \<Rightarrow> None | Some s \<Rightarrow> Some (on_shell (\<lambda>_. s) a)))"
| "auth_step u unnamed (NavLoaded k r) a = (if k < length (nav_loads a) then Some (nav_loaded unnamed k r a) else None)"
| "auth_step u unnamed (ProfileChanged n p) a = (if n \<noteq> [] then Some (profile_changed unnamed n p a) else None)"
| "auth_step u unnamed (ProfilesInvalidated ns) a = (if [] \<notin> set ns then Some (profiles_invalidated ns a) else None)"
| "auth_step u unnamed NavLanguage a = Some (nav_language unnamed a)"
| "auth_step u unnamed (LoginSubmitted name) a =
     (if login_pending a = None then Some (a\<lparr>login_pending := Some (name, LConsent)\<rparr>) else None)"
| "auth_step u unnamed (LoginConsent given) a =
     (case login_pending a of Some (name, LConsent) \<Rightarrow> Some (login_request given name a) | _ \<Rightarrow> None)"
| "auth_step u unnamed (LoginAnswered ans) a =
     (case login_pending a of Some (name, LRequest) \<Rightarrow> Some (login_answered u ans name a) | _ \<Rightarrow> None)"
| "auth_step u unnamed (LoginErrorRead key) a =
     (case login_pending a of Some (name, LErrorText) \<Rightarrow> Some (show_login_error key (a\<lparr>login_pending := None\<rparr>)) | _ \<Rightarrow> None)"
| "auth_step u unnamed (MFACompleted d) a = (if mfa_shown a > 0 then Some (completeLogin u d [] a) else None)"
| "auth_step u unnamed (LogoutRequested reason) a = Some (start_logout u reason a)"
| "auth_step u unnamed (LogoutAnswered failed) a = (if logout_pending a \<noteq> None then Some (performLogout u failed a) else None)"
| "auth_step u unnamed (FidoStarted supported name) a = Some (start_fido supported name a)"
| "auth_step u unnamed (FidoAnswered i ans) a =
     (case find (\<lambda>t. at_id t = i) (attempts a) of None \<Rightarrow> None | Some t \<Rightarrow> fido_continue u t ans a)"
| "auth_step u unnamed PageHidden a = Some (cancelFidoLogin a)"

text \<open>The page starts with the check of the remembered session.\<close>

definition auth_start :: "string \<Rightarrow> string option \<Rightarrow> string option \<Rightarrow> auth" where
  "auth_start url saved name = initializeSession
     \<lparr>app = shell_start url saved, permissions = [], routes = [], username = name, stored_tokens = [], session_cookie = True,
      login_btn = True, user_info = False, manager_only = False, user_only = False, nav_name = [], nav_profile = None,
      nav_sequence = 0, nav_loads = [], session_check = None, login_pending = None, logout_pending = None,
      logout_requests = 0, login_error_key = [], mfa_shown = 0, notices = [], fido_abort = None, aborted = [], attempts = [],
      next_attempt = 0, completed = []\<rparr>"

section \<open>The write permission\<close>

lemma permits_update_iff:
  "permits_update name ps \<longleftrightarrow> ''canupdate:*'' \<in> perm_id ` set ps \<or> ''canupdate:'' @ name \<in> perm_id ` set ps"
  by (induction ps) auto

lemma routes_write_iff:
  "routes_write name rs \<longleftrightarrow>
     (\<exists>r. Some r \<in> set rs \<and> route_permission r \<in> {Some ''route:write'', Some ''w''} \<and> route_path r \<in> {Some ''*'', Some name})"
  by (induction name rs rule: routes_write.induct) auto

text \<open>
  C19: a session may write to a repository exactly when it is signed in and is a manager, or a permission or a route names the
  repository or all of them; without a session nothing may be written.
\<close>

theorem write_permission_exact:
  assumes "utf8_wf name" and "name \<noteq> []"
  shows "canUpdateRepo li mgr ps rs (encodeURIComponent name) \<longleftrightarrow>
    li \<and> (mgr \<or> ''canupdate:*'' \<in> perm_id ` set ps \<or> ''canupdate:'' @ name \<in> perm_id ` set ps \<or>
      (\<exists>r. Some r \<in> set rs \<and> route_permission r \<in> {Some ''route:write'', Some ''w''} \<and>
         route_path r \<in> {Some ''*'', Some name}))"
  using assms decode_encode_component [OF assms(1)]
  by (simp add: canUpdateRepo_def encoded_nonempty permits_update_iff routes_write_iff Let_def)

theorem write_permission_exact_witness:
  "canUpdateRepo True False [PObj (Some ''canupdate:my-repo'')] [] (encodeURIComponent ''my-repo'')"
proof -
  have "utf8_wf ''my-repo''" by code_simp
  from write_permission_exact [OF this, of True False "[PObj (Some ''canupdate:my-repo'')]" "[]"] show ?thesis
    by (simp add: perm_id_def)
qed

section \<open>The invariant of the session\<close>

definition caches_ok :: "auth \<Rightarrow> bool" where
  "caches_ok a \<longleftrightarrow> (\<not> logged_in (app a) \<longrightarrow> permissions a = [] \<and> routes a = []) \<and>
     login_btn a = (\<not> logged_in (app a)) \<and> user_info a = logged_in (app a) \<and> user_only a = logged_in (app a) \<and>
     manager_only a = manager (app a) \<and> manager (app a) = (logged_in (app a) \<and> isManagerFromSession (permissions a))"

definition identity_ok :: "auth \<Rightarrow> bool" where
  "identity_ok a \<longleftrightarrow> list_all (\<lambda>l. fst l \<le> nav_sequence a) (nav_loads a) \<and>
     (session_check a \<noteq> None \<and> username a = None \<longrightarrow> \<not> logged_in (app a)) \<and>
     (\<not> logged_in (app a) \<and> username a = None \<longrightarrow>
        nav_profile a = None \<and> nav_name a = [] \<and> nav_sequence a \<notin> fst ` set (nav_loads a))"

definition attempts_ok :: "auth \<Rightarrow> bool" where
  "attempts_ok a \<longleftrightarrow> distinct (map at_id (attempts a)) \<and> distinct (completed a) \<and>
     list_all (\<lambda>t. at_id t < next_attempt a \<and> at_id t \<notin> set (completed a) \<and>
       (at_id t \<notin> set (aborted a) \<longrightarrow> fido_abort a = Some (at_id t) \<and> at_popstates t = popstates (app a))) (attempts a) \<and>
     list_all (\<lambda>i. i < next_attempt a) (completed a) \<and> list_all (\<lambda>i. i < next_attempt a) (aborted a) \<and>
     (\<forall>i. fido_abort a = Some i \<longrightarrow> i < next_attempt a)"

definition auth_inv :: "auth \<Rightarrow> bool" where
  "auth_inv a \<longleftrightarrow> session_inv (app a) \<and> caches_ok a \<and> identity_ok a \<and> attempts_ok a"

lemma cancel_fields [simp]:
  "app (cancelFidoLogin a) = app a" "permissions (cancelFidoLogin a) = permissions a" "routes (cancelFidoLogin a) = routes a"
  "username (cancelFidoLogin a) = username a" "login_btn (cancelFidoLogin a) = login_btn a"
  "user_info (cancelFidoLogin a) = user_info a" "user_only (cancelFidoLogin a) = user_only a"
  "manager_only (cancelFidoLogin a) = manager_only a" "session_check (cancelFidoLogin a) = session_check a"
  "login_pending (cancelFidoLogin a) = login_pending a" "attempts (cancelFidoLogin a) = attempts a"
  "nav_sequence (cancelFidoLogin a) = nav_sequence a" "nav_loads (cancelFidoLogin a) = nav_loads a"
  "nav_profile (cancelFidoLogin a) = nav_profile a" "nav_name (cancelFidoLogin a) = nav_name a"
  "logout_pending (cancelFidoLogin a) = logout_pending a" "completed (cancelFidoLogin a) = completed a"
  "next_attempt (cancelFidoLogin a) = next_attempt a" "fido_abort (cancelFidoLogin a) = fido_abort a"
  "logout_requests (cancelFidoLogin a) = logout_requests a" "stored_tokens (cancelFidoLogin a) = stored_tokens a"
  "session_cookie (cancelFidoLogin a) = session_cookie a"
  by (simp_all add: cancelFidoLogin_def split: option.split)

lemma shell_fields [simp]:
  "app (on_shell f a) = f (app a)" "permissions (on_shell f a) = permissions a" "routes (on_shell f a) = routes a"
  "username (on_shell f a) = username a" "login_btn (on_shell f a) = login_btn a" "user_info (on_shell f a) = user_info a"
  "user_only (on_shell f a) = user_only a" "manager_only (on_shell f a) = manager_only a"
  "session_check (on_shell f a) = session_check a" "login_pending (on_shell f a) = login_pending a"
  "attempts (on_shell f a) = attempts a" "nav_sequence (on_shell f a) = nav_sequence a"
  "nav_loads (on_shell f a) = nav_loads a" "nav_profile (on_shell f a) = nav_profile a" "nav_name (on_shell f a) = nav_name a"
  "logout_pending (on_shell f a) = logout_pending a" "completed (on_shell f a) = completed a"
  "logout_requests (on_shell f a) = logout_requests a" "stored_tokens (on_shell f a) = stored_tokens a"
  "session_cookie (on_shell f a) = session_cookie a"
  by (simp_all add: on_shell_def Let_def)

lemma cancel_attempts: "attempts_ok a \<Longrightarrow> attempts_ok (cancelFidoLogin a)"
  by (auto simp: attempts_ok_def cancelFidoLogin_def list_all_iff split: option.split)

text \<open>After a cancellation every attempt is aborted, so the shell may count further popstate events.\<close>

lemma cancelled_all:
  assumes "attempts_ok a" "t \<in> set (attempts a)"
  shows "at_id t \<in> set (aborted (cancelFidoLogin a))"
  using assms by (cases "at_id t \<in> set (aborted a)") (auto simp: attempts_ok_def cancelFidoLogin_def list_all_iff split: option.split)

lemma attempts_app: "popstates s = popstates (app a) \<Longrightarrow> attempts_ok (a\<lparr>app := s\<rparr>) = attempts_ok a"
  by (simp add: attempts_ok_def)

lemma attempts_any_app:
  "attempts_ok c \<Longrightarrow> \<forall>t\<in>set (attempts c). at_id t \<in> set (aborted c) \<Longrightarrow> attempts_ok (c\<lparr>app := s\<rparr>)"
  by (simp add: attempts_ok_def list_all_iff)

lemma cancel_app: "cancelFidoLogin (a\<lparr>app := s\<rparr>) = (cancelFidoLogin a)\<lparr>app := s\<rparr>"
  by (simp add: cancelFidoLogin_def split: option.split)

lemma shell_attempts: "attempts_ok a \<Longrightarrow> attempts_ok (on_shell f a)"
proof (cases "popstates (f (app a)) = popstates (app a)")
  case True
  assume "attempts_ok a"
  with True show ?thesis by (simp add: on_shell_def Let_def attempts_app)
next
  case False
  assume a: "attempts_ok a"
  have "attempts_ok ((cancelFidoLogin a)\<lparr>app := f (app a)\<rparr>)"
    by (rule attempts_any_app [OF cancel_attempts [OF a]]) (simp add: cancelled_all [OF a])
  then show ?thesis by (simp add: on_shell_def Let_def False cancel_app)
qed

lemma attempts_cong:
  assumes "attempts b = attempts a" "completed b = completed a" "aborted b = aborted a" "fido_abort b = fido_abort a"
    "next_attempt b = next_attempt a" "popstates (app b) = popstates (app a)"
  shows "attempts_ok b = attempts_ok a"
  by (simp add: attempts_ok_def assms)

section \<open>Preservation by the operations\<close>

lemma session_changed_fields [simp]:
  "logged_in (session_changed u li mgr s) = li" "manager (session_changed u li mgr s) = mgr"
  by (simp_all add: session_changed_def Let_def)

text \<open>What \<open>updateAuthUI\<close> needs of the state before: everything that it does not set itself.\<close>

lemma update_attempts: "attempts_ok a \<Longrightarrow> attempts_ok (updateAuthUI u li name legacy ps rs a)"
proof -
  assume a: "attempts_ok a"
  show ?thesis unfolding updateAuthUI_def Let_def
    by (rule shell_attempts, subst attempts_cong [where a = a]) (simp_all add: a applySessionCaches_def refreshNavProfile_def)
qed

lemma update_app: "app (updateAuthUI u li name legacy ps rs a) = session_changed u li (manager_flag li ps legacy) (app a)"
  by (simp add: updateAuthUI_def Let_def applySessionCaches_def refreshNavProfile_def)

lemma update_caches:
  assumes "legacy \<longrightarrow> isManagerFromSession ps"
  shows "caches_ok (updateAuthUI u li name legacy ps rs a)"
  using assms by (auto simp: updateAuthUI_def Let_def caches_ok_def applySessionCaches_def refreshNavProfile_def manager_flag_def isManagerFromSession_def)

lemma update_session: "session_inv (app a) \<Longrightarrow> session_inv (app (updateAuthUI u li name legacy ps rs a))"
  unfolding update_app by (rule session_changed_inv) (simp_all add: manager_flag_def)

lemma update_fields [simp]:
  "username (updateAuthUI u li name legacy ps rs a) = username a"
  "session_check (updateAuthUI u li name legacy ps rs a) = session_check a"
  "login_pending (updateAuthUI u li name legacy ps rs a) = login_pending a"
  "attempts (updateAuthUI u li name legacy ps rs a) = attempts a"
  "logout_pending (updateAuthUI u li name legacy ps rs a) = logout_pending a"
  "completed (updateAuthUI u li name legacy ps rs a) = completed a"
  "stored_tokens (updateAuthUI u li name legacy ps rs a) = stored_tokens a"
  "session_cookie (updateAuthUI u li name legacy ps rs a) = session_cookie a"
  by (simp_all add: updateAuthUI_def Let_def applySessionCaches_def refreshNavProfile_def)

lemma update_in_identity:
  "identity_ok a \<Longrightarrow> session_check a = None \<or> username a \<noteq> None \<Longrightarrow> identity_ok (updateAuthUI u True name legacy ps rs a)"
  by (auto simp: updateAuthUI_def Let_def applySessionCaches_def refreshNavProfile_def identity_ok_def list_all_iff)

lemma update_out_identity:
  "list_all (\<lambda>l. fst l \<le> nav_sequence a) (nav_loads a) \<Longrightarrow>
   (username a = None \<Longrightarrow> nav_sequence a \<notin> fst ` set (nav_loads a)) \<Longrightarrow>
   identity_ok (updateAuthUI u False name legacy ps rs a)"
  by (auto simp: updateAuthUI_def Let_def applySessionCaches_def identity_ok_def)

lemma shell_identity: "identity_ok (on_shell f a) = identity_ok a" if "logged_in (f (app a)) = logged_in (app a)"
  using that by (simp add: identity_ok_def)

lemma shell_caches: "caches_ok (on_shell f a) = caches_ok a"
  if "logged_in (f (app a)) = logged_in (app a)" "manager (f (app a)) = manager (app a)"
  using that by (simp add: caches_ok_def)

lemma leave_login_fields [simp]: "logged_in (leave_login u s) = logged_in s" "manager (leave_login u s) = manager s"
  by (simp_all add: leave_login_def popstate_def)

lemma notices_inv [simp]:
  "auth_inv (a\<lparr>notices := n\<rparr>) = auth_inv a" "auth_inv (a\<lparr>mfa_shown := m\<rparr>) = auth_inv a"
  "auth_inv (a\<lparr>logout_pending := l\<rparr>) = auth_inv a" "auth_inv (a\<lparr>logout_requests := r\<rparr>) = auth_inv a"
  "auth_inv (a\<lparr>stored_tokens := st\<rparr>) = auth_inv a" "auth_inv (a\<lparr>session_cookie := c\<rparr>) = auth_inv a"
  "auth_inv (a\<lparr>login_error_key := k\<rparr>) = auth_inv a"
  by (simp_all add: auth_inv_def caches_ok_def identity_ok_def attempts_ok_def)

lemma error_app_inv: "auth_inv (a\<lparr>app := (app a)\<lparr>login_error := b\<rparr>\<rparr>) = auth_inv a"
  by (simp add: auth_inv_def caches_ok_def identity_ok_def attempts_ok_def session_inv_def protected_def pathname_def address_def)

lemma error_inv [simp]: "auth_inv (show_login_error key a) = auth_inv a" "auth_inv (hide_login_error a) = auth_inv a"
  using error_app_inv [where a = "a\<lparr>login_error_key := key\<rparr>" and b = True] error_app_inv [where a = a and b = False]
  by (simp_all add: show_login_error_def hide_login_error_def)

lemma pending_inv: "auth_inv a \<Longrightarrow> auth_inv (a\<lparr>login_pending := p\<rparr>)"
  by (simp add: auth_inv_def caches_ok_def identity_ok_def attempts_ok_def)

lemma complete_inv:
  assumes "auth_inv a"
  shows "auth_inv (completeLogin u d f a)"
proof -
  define b where "b = a\<lparr>stored_tokens := filter (\<lambda>k. k \<notin> {''token-name'', ''token-secret'', ''session-token''}) (stored_tokens a),
      username := Some (case d of Some d \<Rightarrow> or_else (sd_name d) f | None \<Rightarrow> f)\<rparr>"
  have b: "session_inv (app b)" "identity_ok b" "attempts_ok b" "session_check b = None \<or> username b \<noteq> None"
    using assms by (auto simp: auth_inv_def b_def identity_ok_def attempts_ok_def)
  define c where "c = updateAuthUI u True (case d of Some d \<Rightarrow> or_else (sd_name d) f | None \<Rightarrow> f)
      (isManagerFromSession (case d of Some d \<Rightarrow> sd_permissions d | None \<Rightarrow> [])) (case d of Some d \<Rightarrow> sd_permissions d | None \<Rightarrow> [])
      (case d of Some d \<Rightarrow> sd_routes d | None \<Rightarrow> []) b"
  have "auth_inv c"
    unfolding c_def auth_inv_def
    by (intro conjI update_session update_caches update_in_identity update_attempts b impI)
  then have n: "auth_inv (c\<lparr>notices := notices c @ [''login.welcomeBack'']\<rparr>)" by simp
  have "completeLogin u d f a = on_shell (leave_login u) (c\<lparr>notices := notices c @ [''login.welcomeBack'']\<rparr>)"
    unfolding completeLogin_def Let_def b_def c_def ..
  with n leave_login_inv shell_attempts show ?thesis by (simp add: auth_inv_def shell_identity shell_caches)
qed

lemma route_denied_fields [simp]: "logged_in (route_denied u n s) = logged_in s" "manager (route_denied u n s) = manager s"
  by (simp_all add: route_denied_def sign_in_def navigateHome_def popstate_def)

lemma on_shell_inv:
  assumes "auth_inv a" "session_inv (f (app a))" "logged_in (f (app a)) = logged_in (app a)" "manager (f (app a)) = manager (app a)"
  shows "auth_inv (on_shell f a)"
  using assms shell_attempts by (simp add: auth_inv_def shell_identity shell_caches)

lemma start_logout_inv: "auth_inv a \<Longrightarrow> auth_inv (start_logout u r a)"
proof -
  assume a: "auth_inv a"
  have "session_inv (route_denied u n (app a))" for n
    using a by (auto simp: auth_inv_def route_denied_def intro: sign_in_inv home_inv)
  then have "auth_inv (on_shell (route_denied u n) a)" for n using a by (intro on_shell_inv) simp_all
  then show ?thesis by (simp add: start_logout_def Let_def)
qed

lemma performLogout_inv:
  assumes "auth_inv a"
  shows "auth_inv (performLogout u failed a)"
proof (cases "logout_pending a")
  case None
  with assms show ?thesis by (simp add: performLogout_def)
next
  case (Some p)
  obtain reason was where p: "p = (reason, was)" by (cases p)
  define b where "b = a\<lparr>stored_tokens := filter (\<lambda>k. k \<notin> {''token-name'', ''token-secret'', ''session-token''}) (stored_tokens a),
      username := None, session_cookie := False, nav_sequence := Suc (nav_sequence a)\<rparr>"
  have b: "session_inv (app b)" "attempts_ok b"
    "list_all (\<lambda>l. fst l \<le> nav_sequence b) (nav_loads b)" "nav_sequence b \<notin> fst ` set (nav_loads b)"
    using assms by (auto simp: auth_inv_def caches_ok_def b_def identity_ok_def attempts_ok_def list_all_iff)
  define c where "c = updateAuthUI u False [] False [] [] b"
  have c: "auth_inv c"
    unfolding c_def auth_inv_def
    by (intro conjI update_session update_caches update_out_identity update_attempts b) simp
  have m: "manager (app c) \<longrightarrow> logged_in (app c)" using c by (simp add: auth_inv_def session_inv_def)
  define g where "g = (\<lambda>s. switchTab u ''overview'' (s\<lparr>dashboard_refresh := False, selectedTab := Some ''overview''\<rparr>))"
  have g: "session_inv (g (app c))" "logged_in (g (app c)) = logged_in (app c)" "manager (g (app c)) = manager (app c)"
    unfolding g_def using m by (auto intro!: switch_inv)
  have "auth_inv (on_shell g (c\<lparr>notices := n\<rparr>))" for n using c g by (intro on_shell_inv) simp_all
  moreover have "performLogout u failed a =
      (on_shell g (c\<lparr>notices := notices c @ logout_notice reason was failed\<rparr>))\<lparr>logout_pending := None\<rparr>"
    unfolding performLogout_def Some p option.case prod.case Let_def b_def c_def g_def ..
  ultimately show ?thesis by auto
qed

text \<open>Two states that differ in the Passkey attempts only.\<close>

definition sans_attempts :: "auth \<Rightarrow> auth" where
  "sans_attempts a = a\<lparr>attempts := [], fido_abort := None, aborted := [], next_attempt := 0, completed := []\<rparr>"

lemma attempts_inv:
  assumes "auth_inv a" "attempts_ok b" "sans_attempts b = sans_attempts a"
  shows "auth_inv b"
proof -
  have "session_inv (app (sans_attempts a)) \<and> caches_ok (sans_attempts a) \<and> identity_ok (sans_attempts a)"
    using assms(1) by (simp add: auth_inv_def sans_attempts_def caches_ok_def identity_ok_def)
  then have "session_inv (app (sans_attempts b)) \<and> caches_ok (sans_attempts b) \<and> identity_ok (sans_attempts b)"
    unfolding assms(3) .
  then show ?thesis
    using assms(2) by (simp add: auth_inv_def sans_attempts_def caches_ok_def identity_ok_def)
qed

lemma end_attempt_ok: "attempts_ok a \<Longrightarrow> attempts_ok (end_attempt i a)"
  by (auto simp: attempts_ok_def end_attempt_def list_all_iff distinct_map inj_on_def)

lemma end_attempt_inv: "auth_inv a \<Longrightarrow> auth_inv (end_attempt i a)"
  by (rule attempts_inv [of a]) (simp_all add: auth_inv_def end_attempt_ok, simp add: end_attempt_def sans_attempts_def)

lemma end_completed_ok:
  assumes "attempts_ok a" "i < next_attempt a" "i \<notin> set (completed a)"
  shows "attempts_ok ((end_attempt i a)\<lparr>completed := i # completed a\<rparr>)"
proof -
  have f: "completed (end_attempt i a) = completed a" "next_attempt (end_attempt i a) = next_attempt a"
    "\<forall>t\<in>set (attempts (end_attempt i a)). at_id t \<noteq> i"
    by (simp_all add: end_attempt_def)
  from end_attempt_ok [OF assms(1), of i] f assms(2,3) show ?thesis
    unfolding attempts_ok_def list_all_iff by (simp add: f(1,2))
qed

lemma end_completed_inv:
  "auth_inv a \<Longrightarrow> i < next_attempt a \<Longrightarrow> i \<notin> set (completed a) \<Longrightarrow>
   auth_inv ((end_attempt i a)\<lparr>completed := i # completed a\<rparr>)"
  by (rule attempts_inv [of a]) (simp_all add: auth_inv_def end_completed_ok, simp add: end_attempt_def sans_attempts_def)

lemma set_stage_inv: "auth_inv a \<Longrightarrow> auth_inv (set_stage i g a)"
proof -
  assume a: "auth_inv a"
  have "map at_id (attempts (set_stage i g a)) = map at_id (attempts a)" by (auto simp: set_stage_def)
  moreover have "distinct (map at_id (attempts a))" using a by (simp add: auth_inv_def attempts_ok_def)
  ultimately have "distinct (map at_id (attempts (set_stage i g a)))" by metis
  then have "attempts_ok (set_stage i g a)"
    using a unfolding auth_inv_def attempts_ok_def list_all_iff by (auto simp: set_stage_def)
  then show ?thesis by (rule attempts_inv [OF a]) (simp add: set_stage_def sans_attempts_def)
qed

lemma checked_cong [simp]:
  "session_check (end_attempt i a) = session_check a" "session_check (show_login_error k a) = session_check a"
  "session_check (hide_login_error a) = session_check a" "session_check (set_stage i g a) = session_check a"
  by (simp_all add: end_attempt_def show_login_error_def hide_login_error_def set_stage_def)

lemma fido_failed_inv: "auth_inv a \<Longrightarrow> auth_inv (fido_failed i k a)"
  by (simp add: fido_failed_def end_attempt_inv)

lemma complete_fields [simp]:
  "completed (completeLogin u d f a) = completed a" "session_check (completeLogin u d f a) = session_check a"
  "attempts (completeLogin u d f a) = attempts a"
  by (simp_all add: completeLogin_def Let_def)

lemma next_cancel: "next_attempt (on_shell f a) = next_attempt a"
  by (simp add: on_shell_def Let_def)

lemma complete_next [simp]: "next_attempt (completeLogin u d f a) = next_attempt a"
  by (simp add: completeLogin_def Let_def next_cancel updateAuthUI_def applySessionCaches_def refreshNavProfile_def)

lemma fido_continue_inv:
  assumes "auth_inv a" "t \<in> set (attempts a)" "fido_continue u t ans a = Some b"
  shows "auth_inv b"
proof -
  have t: "at_id t < next_attempt a" "at_id t \<notin> set (completed a)"
    using assms(1,2) by (auto simp: auth_inv_def attempts_ok_def list_all_iff)
  note rules = end_attempt_inv set_stage_inv fido_failed_inv end_completed_inv complete_inv assms(1) t
  have c: "auth_inv ((end_attempt (at_id t) (completeLogin u d f a))\<lparr>completed := at_id t # completed a\<rparr>)" for d f
    using end_completed_inv [OF complete_inv [OF assms(1), where u = u and d = d and f = f], of "at_id t"] t by simp
  show ?thesis
  proof (cases ans)
    case Granted
    with assms(3) rules show ?thesis by (cases "at_stage t") (auto simp: fido_continue_def Let_def split: if_splits)
  next
    case Refused
    with assms(3) rules show ?thesis by (cases "at_stage t") (auto simp: fido_continue_def Let_def split: if_splits)
  qed (use assms(3) rules c in \<open>auto simp: fido_continue_def Let_def split: if_splits\<close>)
qed

lemma cancel_inv: "auth_inv a \<Longrightarrow> auth_inv (cancelFidoLogin a)"
  using cancel_attempts [of a] by (simp add: auth_inv_def caches_ok_def identity_ok_def)

lemma start_fido_inv: "auth_inv a \<Longrightarrow> auth_inv (start_fido supp name a)"
proof -
  assume a: "auth_inv a"
  define c where "c = hide_login_error (cancelFidoLogin a)"
  have c: "auth_inv c" using cancel_inv [OF a] by (simp add: c_def)
  have ab: "at_id t \<in> set (aborted c)" if "t \<in> set (attempts c)" for t
    using that cancelled_all [of a t] a by (simp add: c_def hide_login_error_def auth_inv_def)
  define d where "d = c\<lparr>fido_abort := Some (next_attempt c), next_attempt := Suc (next_attempt c),
             attempts := attempts c @ [\<lparr>at_id = next_attempt c, at_name = js_trim name, at_stage = FConsent,
                                        at_popstates = popstates (app c)\<rparr>]\<rparr>"
  have "attempts_ok d"
    using c ab by (fastforce simp: d_def auth_inv_def attempts_ok_def list_all_iff less_Suc_eq)
  then have "auth_inv d" by (rule attempts_inv [OF c]) (simp add: d_def sans_attempts_def)
  then show ?thesis using c by (simp add: start_fido_def Let_def c_def d_def)
qed

lemma end_check_inv:
  assumes "auth_inv a" "session_check a = Some was"
  shows "auth_inv (end_check u ans was a)"
proof -
  define b where "b = a\<lparr>session_check := None\<rparr>"
  have b: "auth_inv b" "session_check b = None" "username b = None \<longrightarrow> \<not> logged_in (app b)"
    using assms by (auto simp: b_def auth_inv_def caches_ok_def identity_ok_def attempts_ok_def)
  have p: "session_inv (app b)" "identity_ok b" "attempts_ok b" using b(1) by (simp_all add: auth_inv_def)
  have u: "session_inv (app (b\<lparr>username := n\<rparr>))" "attempts_ok (b\<lparr>username := n\<rparr>)" "session_check (b\<lparr>username := n\<rparr>) = None" for n
    using p b(2) by (simp_all add: attempts_ok_def)
  have n: "identity_ok (b\<lparr>username := Some x\<rparr>)" for x using p(2) by (simp add: identity_ok_def)
  have o: "list_all (\<lambda>l. fst l \<le> nav_sequence b) (nav_loads b)" "username b = None \<Longrightarrow> nav_sequence b \<notin> fst ` set (nav_loads b)"
    using p(2) b(3) by (simp_all add: identity_ok_def)
  have out: "auth_inv (updateAuthUI u False nm False ps rs b)" for nm ps rs
    unfolding auth_inv_def by (intro conjI update_session update_caches update_out_identity update_attempts p b o) simp_all
  have inn: "auth_inv (updateAuthUI u True nm l ps rs b)" if "l \<longrightarrow> isManagerFromSession ps" for nm l ps rs
    unfolding auth_inv_def by (intro conjI update_session update_caches update_in_identity update_attempts p b that disjI1)
  have inn2: "auth_inv (updateAuthUI u True nm (isManagerFromSession ps) ps rs (b\<lparr>username := Some x\<rparr>))" for nm ps rs x
    unfolding auth_inv_def by (intro conjI update_session update_caches update_in_identity update_attempts n u disjI1) simp
  have "auth_inv (updateAuthUI u li nm False ps rs b)" for li nm ps rs using out inn by (cases li) auto
  with out inn inn2 start_logout_inv [OF b(1)] show ?thesis
    unfolding end_check_def Let_def b_def [symmetric] by (cases ans) auto
qed

lemma apply_inv: "auth_inv b \<Longrightarrow> logged_in (app b) \<or> username b \<noteq> None \<Longrightarrow> auth_inv (applyNavProfile un p b)"
  by (auto simp: applyNavProfile_def auth_inv_def caches_ok_def identity_ok_def attempts_ok_def)

lemma nav_loads_remove: "set (take k l @ drop (Suc k) l) \<subseteq> set l"
  using set_take_subset set_drop_subset by force

lemma nav_loaded_inv: "auth_inv a \<Longrightarrow> k < length (nav_loads a) \<Longrightarrow> auth_inv (nav_loaded un k r a)"
proof -
  assume a: "auth_inv a" and k: "k < length (nav_loads a)"
  define b where "b = a\<lparr>nav_loads := take k (nav_loads a) @ drop (Suc k) (nav_loads a)\<rparr>"
  have b: "auth_inv b"
    using a nav_loads_remove [of k "nav_loads a"]
    by (auto simp: b_def auth_inv_def caches_ok_def identity_ok_def attempts_ok_def list_all_iff)
  have "auth_inv (applyNavProfile un p b)" if "fst (nav_loads a ! k) = nav_sequence a" for p
  proof -
    have "nav_sequence a \<in> fst ` set (nav_loads a)" using that k by (metis image_eqI nth_mem)
    then have "logged_in (app a) \<or> username a \<noteq> None" using a by (auto simp: auth_inv_def identity_ok_def)
    then have "logged_in (app b) \<or> username b \<noteq> None" by (simp add: b_def)
    with b show ?thesis by (rule apply_inv)
  qed
  then have "fst (nav_loads a ! k) = nav_sequence b \<Longrightarrow> auth_inv (applyNavProfile un p b)" for p by (simp add: b_def)
  with b show ?thesis unfolding nav_loaded_def Let_def b_def [symmetric] by (simp split: option.split)
qed

lemma no_username: "username a = None \<Longrightarrow> current_username a = []"
  by (simp add: current_username_def to_lower_def)

lemma profile_changed_inv: "auth_inv a \<Longrightarrow> n \<noteq> [] \<Longrightarrow> auth_inv (profile_changed un n p a)"
proof -
  assume a: "auth_inv a" and n: "n \<noteq> []"
  show ?thesis
  proof (cases "n = current_username a")
    case True
    with n no_username [of a] have "username a \<noteq> None" by auto
    with a True show ?thesis
      by (auto simp: profile_changed_def applyNavProfile_def auth_inv_def caches_ok_def identity_ok_def attempts_ok_def list_all_iff)
  qed (use a in \<open>simp add: profile_changed_def\<close>)
qed

lemma invalidated_inv: "auth_inv a \<Longrightarrow> [] \<notin> set ns \<Longrightarrow> auth_inv (profiles_invalidated ns a)"
proof -
  assume a: "auth_inv a" and n: "[] \<notin> set ns"
  show ?thesis
  proof (cases "current_username a \<in> set ns")
    case True
    with n no_username [of a] have "username a \<noteq> None" by metis
    with a True show ?thesis
      by (auto simp: profiles_invalidated_def refreshNavProfile_def auth_inv_def caches_ok_def identity_ok_def attempts_ok_def list_all_iff)
  qed (use a in \<open>simp add: profiles_invalidated_def\<close>)
qed

lemma nav_language_inv: "auth_inv a \<Longrightarrow> auth_inv (nav_language un a)"
  by (auto simp: nav_language_def applyNavProfile_def auth_inv_def caches_ok_def identity_ok_def attempts_ok_def)

lemma nav_fields [simp]:
  "logged_in (popstate u s) = logged_in s" "manager (popstate u s) = manager s"
  "logged_in (navigateHome u r s) = logged_in s" "manager (navigateHome u r s) = manager s"
  "logged_in (sign_in u r s) = logged_in s" "manager (sign_in u r s) = manager s"
  "logged_in (open_tab u t s) = logged_in s" "manager (open_tab u t s) = manager s"
  by (simp_all add: popstate_def navigateHome_def sign_in_def open_tab_def Let_def)

lemma click_fields [simp]:
  "logged_in (tab_click u t s) = logged_in s" "manager (tab_click u t s) = manager s"
  "logged_in (menu_click u t s) = logged_in s" "manager (menu_click u t s) = manager s"
  "logged_in (home_link u c s) = logged_in s" "manager (home_link u c s) = manager s"
  by (simp_all add: tab_click_def menu_click_def home_link_def)

lemma startup_fields [simp]: "logged_in (startup u s) = logged_in s" "manager (startup u s) = manager s"
  by (simp_all add: startup_def Let_def)

lemma shell_event_inv:
  assumes "auth_inv a" "navigation e" "shell_step u e (app a) = Some s"
  shows "auth_inv (on_shell (\<lambda>_. s) a)"
proof -
  have i: "session_inv (app a)" using assms(1) by (simp add: auth_inv_def)
  have "logged_in s = logged_in (app a) \<and> manager s = manager (app a)"
    using assms(2,3) by (cases e) (auto simp: navigation_def)
  then show ?thesis using shell_step_inv [OF i assms(3)] by (intro on_shell_inv [OF assms(1)]) simp_all
qed

lemma auth_step_inv: "auth_inv a \<Longrightarrow> auth_step u un e a = Some b \<Longrightarrow> auth_inv b"
proof (cases e)
  case (CheckEnds ans)
  assume "auth_inv a" "auth_step u un e a = Some b"
  with CheckEnds end_check_inv show ?thesis by (auto split: option.splits)
next
  case (Shown x)
  assume "auth_inv a" "auth_step u un e a = Some b"
  with Shown shell_event_inv show ?thesis by (auto split: if_splits option.splits)
next
  case (FidoAnswered i ans)
  assume a: "auth_inv a" and s: "auth_step u un e a = Some b"
  then obtain t where t: "find (\<lambda>t. at_id t = i) (attempts a) = Some t" "fido_continue u t ans a = Some b"
    using FidoAnswered by (auto split: option.splits)
  then have m: "t \<in> set (attempts a)" by (auto simp: find_Some_iff)
  with fido_continue_inv [OF a m t(2)] show ?thesis by simp
next
  case (LoginConsent given)
  assume a: "auth_inv a" and s: "auth_step u un e a = Some b"
  with LoginConsent pending_inv [of "hide_login_error a"] pending_inv [of a] show ?thesis
    by (auto simp: login_request_def split: option.splits prod.splits login_stage.splits)
next
  case (LoginAnswered ans)
  assume a: "auth_inv a" and s: "auth_step u un e a = Some b"
  have "auth_inv (a\<lparr>login_pending := p\<rparr>)" for p using a by (rule pending_inv)
  with s LoginAnswered complete_inv [of "a\<lparr>login_pending := None\<rparr>"] show ?thesis
    by (auto simp: login_answered_def Let_def split: option.splits prod.splits login_stage.splits login_answer.splits)
next
  case (LoginErrorRead key)
  assume a: "auth_inv a" and s: "auth_step u un e a = Some b"
  have "auth_inv (a\<lparr>login_pending := p\<rparr>)" for p using a by (rule pending_inv)
  with s LoginErrorRead show ?thesis by (auto split: option.splits prod.splits login_stage.splits)
next
  case (LogoutAnswered failed)
  assume a: "auth_inv a" and s: "auth_step u un e a = Some b"
  then show ?thesis using LogoutAnswered performLogout_inv by (auto split: if_splits)
qed (auto simp: nav_loaded_inv profile_changed_inv invalidated_inv nav_language_inv pending_inv complete_inv start_logout_inv
      start_fido_inv cancel_inv split: if_splits)

interpretation au: machine "auth_step u un" auth_inv
  by unfold_locales (rule auth_step_inv)

lemma auth_start_inv: "auth_inv (auth_start url saved name)"
  using shell_start_inv [of url saved]
  by (simp add: auth_start_def initializeSession_def auth_inv_def caches_ok_def identity_ok_def attempts_ok_def shell_start_def)

text \<open>The name in the navigation is that of the profile shown.\<close>

definition shows_name :: "string \<Rightarrow> auth \<Rightarrow> bool" where
  "shows_name un a \<longleftrightarrow> (\<forall>p. nav_profile a = Some p \<longrightarrow> nav_name a = profileDisplayName un (Some p))"

definition nav_of :: "auth \<Rightarrow> profile option \<times> string" where
  "nav_of a = (nav_profile a, nav_name a)"

lemma shows_name_nav: "nav_of b = nav_of a \<Longrightarrow> shows_name un b = shows_name un a"
  by (simp add: nav_of_def shows_name_def)

lemma nav_of_frame [simp]:
  "nav_of (on_shell f a) = nav_of a" "nav_of (cancelFidoLogin a) = nav_of a" "nav_of (end_attempt i a) = nav_of a"
  "nav_of (set_stage i g a) = nav_of a" "nav_of (show_login_error k a) = nav_of a" "nav_of (hide_login_error a) = nav_of a"
  "nav_of (fido_failed i k a) = nav_of a" "nav_of (start_logout u r a) = nav_of a" "nav_of (start_fido supp name a) = nav_of a"
  "nav_of (a\<lparr>completed := cs\<rparr>) = nav_of a" "nav_of (a\<lparr>mfa_shown := m\<rparr>) = nav_of a" "nav_of (a\<lparr>login_pending := l\<rparr>) = nav_of a"
  by (simp_all add: nav_of_def end_attempt_def set_stage_def show_login_error_def hide_login_error_def fido_failed_def
      start_logout_def start_fido_def Let_def)

lemma nav_of_update: "nav_of (updateAuthUI u li nm l ps rs a) = (if li then nav_of a else (None, []))"
  by (simp add: nav_of_def updateAuthUI_def Let_def applySessionCaches_def refreshNavProfile_def)

lemma nav_of_complete: "nav_of (completeLogin u d f a) = nav_of a"
proof -
  have "nav_of (updateAuthUI u True nm l ps rs (a\<lparr>stored_tokens := st, username := n\<rparr>)) = nav_of a" for nm l ps rs st n
    unfolding nav_of_update by (simp add: nav_of_def)
  then show ?thesis by (simp add: completeLogin_def Let_def nav_of_def)
qed

lemma nav_of_fido: "fido_continue u t ans a = Some b \<Longrightarrow> nav_of b = nav_of a"
  by (cases ans; cases "at_stage t") (auto simp: fido_continue_def Let_def nav_of_complete split: if_splits)

lemma shows_name_apply [simp]: "shows_name un (applyNavProfile un p a)"
  by (simp add: shows_name_def applyNavProfile_def)

lemma nav_of_check: "nav_of (end_check u ans was a) \<in> {nav_of a, (None, [])}"
proof -
  have c: "nav_of (a\<lparr>session_check := x\<rparr>) = nav_of a" "nav_of (a\<lparr>session_check := x, username := y\<rparr>) = nav_of a" for x y
    by (simp_all add: nav_of_def)
  show ?thesis unfolding end_check_def Let_def by (cases ans) (auto simp: nav_of_update c)
qed

lemma name_step:
  assumes s: "shows_name un a" and e: "auth_step u un e a = Some b"
  shows "shows_name un b"
proof -
  have empty: "shows_name un b" if "nav_of b = (None, [])" using that by (simp add: nav_of_def shows_name_def)
  have same: "shows_name un b" if "nav_of b = nav_of a" using shows_name_nav [OF that] s by simp
  have removed: "shows_name un (a\<lparr>nav_loads := x\<rparr>)" "shows_name un (a\<lparr>nav_sequence := y, nav_loads := x\<rparr>)" for x y
    using s by (simp_all add: shows_name_def)
  show ?thesis
  proof (cases e)
    case (CheckEnds ans)
    then show ?thesis using e nav_of_check [of u ans _ a] same empty by (auto split: option.splits)
  next
    case (Shown x)
    then have "nav_of b = nav_of a" using e by (auto split: if_splits option.splits)
    then show ?thesis by (rule same)
  next
    case (NavLoaded k r)
    then show ?thesis using e removed(1) by (auto simp: nav_loaded_def Let_def split: if_splits option.splits)
  next
    case (ProfileChanged n p)
    then show ?thesis using e s by (auto simp: profile_changed_def split: if_splits)
  next
    case (ProfilesInvalidated ns)
    then show ?thesis using e s removed(2) by (auto simp: profiles_invalidated_def refreshNavProfile_def split: if_splits)
  next
    case NavLanguage
    then show ?thesis using e s by (auto simp: nav_language_def split: if_splits)
  next
    case (LoginConsent given)
    then have "nav_of b = nav_of a" using e by (auto simp: login_request_def split: option.splits prod.splits login_stage.splits)
    then show ?thesis by (rule same)
  next
    case (LoginAnswered ans)
    then have "nav_of b = nav_of a" using e
      by (cases ans) (auto simp: login_answered_def Let_def nav_of_complete split: option.splits prod.splits login_stage.splits)
    then show ?thesis by (rule same)
  next
    case (LoginErrorRead key)
    then have "nav_of b = nav_of a" using e by (auto split: option.splits prod.splits login_stage.splits)
    then show ?thesis by (rule same)
  next
    case (LogoutAnswered failed)
    then have "nav_of b = (None, []) \<or> nav_of b = nav_of a" using e
      by (auto simp: performLogout_def Let_def nav_of_update nav_of_def updateAuthUI_def applySessionCaches_def
          split: if_splits option.splits prod.splits)
    then show ?thesis using same empty by blast
  next
    case (FidoAnswered i ans)
    then have "nav_of b = nav_of a" using e nav_of_fido by (auto split: option.splits)
    then show ?thesis by (rule same)
  qed (use e same in \<open>auto simp: nav_of_complete split: if_splits\<close>)
qed

interpretation named: machine "auth_step u un" "shows_name un" for u un
  by unfold_locales (rule name_step)

section \<open>What holds in every session\<close>

text \<open>
  C18: the caches, the controls and the page agree with the session, for every order of checks, sign-ins, sign-outs, profile loads
  and navigation. A session has management rights exactly when it is signed in and its permissions name a manager; without a
  session there are no permissions and no routes; the controls of managers and users are shown exactly to them; no protected
  page is shown without a session. A profile shown in the navigation has its own name beside it, and when nobody is signed in or
  remembered, the navigation shows no identity, even if a profile arrives late.
\<close>

theorem session_state_consistent:
  assumes "run (auth_step u unnamed) es (auth_start url saved name) = Some a"
  shows "(manager (app a) \<longleftrightarrow> logged_in (app a) \<and>
      (\<exists>p\<in>set (permissions a). perm_id p \<in> {''manager'', ''m'', ''access-token:manager'', ''admin''})) \<and>
    (\<not> logged_in (app a) \<longrightarrow> permissions a = [] \<and> routes a = []) \<and>
    manager_only a = manager (app a) \<and> user_only a = logged_in (app a) \<and> login_btn a = (\<not> logged_in (app a)) \<and>
    (protected (app a) \<longrightarrow> logged_in (app a)) \<and>
    (\<forall>p. nav_profile a = Some p \<longrightarrow> nav_name a = or_else (js_trim (nickname p)) unnamed) \<and>
    (\<not> logged_in (app a) \<and> username a = None \<longrightarrow> nav_profile a = None \<and> nav_name a = [])"
proof -
  have inv: "auth_inv a" by (rule au.inv_run [OF assms auth_start_inv])
  have "shows_name unnamed (auth_start url saved name)" by (simp add: shows_name_def auth_start_def initializeSession_def)
  from named.inv_run [OF assms this]
  have "\<forall>p. nav_profile a = Some p \<longrightarrow> nav_name a = or_else (js_trim (nickname p)) unnamed"
    by (simp add: shows_name_def profileDisplayName_def)
  moreover have "isManagerFromSession (permissions a) \<longleftrightarrow>
      (\<exists>p\<in>set (permissions a). perm_id p \<in> {''manager'', ''m'', ''access-token:manager'', ''admin''})"
    unfolding isManagerFromSession_def list_ex_iff by (rule bex_cong) (auto simp: MANAGER_PERMISSION_IDS_def)
  moreover have "caches_ok a" "identity_ok a" "session_inv (app a)" using inv by (simp_all add: auth_inv_def)
  ultimately show ?thesis unfolding caches_ok_def identity_ok_def session_inv_def by (intro conjI; blast)
qed

theorem session_state_consistent_witness:
  "nav_name (updateAuthUI local_url False [] False [] [] ((auth_start ''/'' None None)\<lparr>session_check := None\<rparr>)) = []"
proof -
  define a where "a = updateAuthUI local_url False [] False [] [] ((auth_start ''/'' None None)\<lparr>session_check := None\<rparr>)"
  have n: "session_check (auth_start ''/'' None None) = Some False" by (simp add: auth_start_def initializeSession_def)
  have r: "run (auth_step local_url []) [CheckEnds CheckFailed] (auth_start ''/'' None None) = Some a"
    by (simp add: n end_check_def a_def Let_def)
  have "\<not> logged_in (app a)" "username a = None" by (simp_all add: a_def update_app auth_start_def initializeSession_def)
  with session_state_consistent [OF r] show ?thesis by (simp add: a_def)
qed

text \<open>
  signing out always ends the session in the browser. Whatever the server answers, afterwards nobody is signed in or
  remembered, the stored tokens and the visible cookie are gone, the navigation shows no identity and the page is not a
  protected one; and while one sign-out is running another one sends no second request.
\<close>

theorem logout_ends_session:
  assumes "run (auth_step u unnamed) es (auth_start url saved name) = Some a" and "logout_pending a \<noteq> None"
  shows "logout_requests (start_logout u reason a) = logout_requests a \<and>
    (\<exists>b. auth_step u unnamed (LogoutAnswered failed) a = Some b \<and> \<not> logged_in (app b) \<and> \<not> manager (app b) \<and>
       username b = None \<and> \<not> session_cookie b \<and> logout_pending b = None \<and>
       set (stored_tokens b) \<inter> {''token-name'', ''token-secret'', ''session-token''} = {} \<and>
       nav_profile b = None \<and> nav_name b = [] \<and> \<not> protected (app b))"
proof (rule conjI)
  show "logout_requests (start_logout u reason a) = logout_requests a"
    using assms(2) by (simp add: start_logout_def Let_def)
  define b where "b = performLogout u failed a"
  have s: "auth_step u unnamed (LogoutAnswered failed) a = Some b" using assms(2) by (simp add: b_def)
  then have inv: "auth_inv b" using auth_step_inv [OF au.inv_run [OF assms(1) auth_start_inv]] by blast
  have f: "\<not> logged_in (app b)" "username b = None" "\<not> session_cookie b" "logout_pending b = None"
    "set (stored_tokens b) \<inter> {''token-name'', ''token-secret'', ''session-token''} = {}"
    using assms(2) by (auto simp: b_def performLogout_def Let_def update_app split: option.split)
  with inv s show "\<exists>b. auth_step u unnamed (LogoutAnswered failed) a = Some b \<and> \<not> logged_in (app b) \<and> \<not> manager (app b) \<and>
       username b = None \<and> \<not> session_cookie b \<and> logout_pending b = None \<and>
       set (stored_tokens b) \<inter> {''token-name'', ''token-secret'', ''session-token''} = {} \<and>
       nav_profile b = None \<and> nav_name b = [] \<and> \<not> protected (app b)"
    by (intro exI [of _ b]) (auto simp: auth_inv_def identity_ok_def session_inv_def)
qed

theorem logout_ends_session_witness:
  "\<exists>b. auth_step local_url [] (LogoutAnswered False) (start_logout local_url ''kicked'' (auth_start ''/'' None (Some ''ann''))) = Some b \<and>
     username b = None"
proof -
  have r: "run (auth_step local_url []) [LogoutRequested ''kicked''] (auth_start ''/'' None (Some ''ann'')) =
      Some (start_logout local_url ''kicked'' (auth_start ''/'' None (Some ''ann'')))" by simp
  have "logout_pending (start_logout local_url ''kicked'' (auth_start ''/'' None (Some ''ann''))) \<noteq> None"
    by (simp add: start_logout_def Let_def auth_start_def initializeSession_def)
  from logout_ends_session [OF r this, where reason = "[]" and failed = False] show ?thesis by blast
qed

text \<open>
  the check of a remembered session forgets the user name only when the server answers 401: after any other answer or a network
  failure it is still remembered, and after a 401 the sign-out has been started.
\<close>

theorem remembered_session_kept:
  assumes "auth_step u unnamed (CheckEnds ans) a = Some b" and "username a = Some n" "n \<noteq> []"
  shows "username b \<noteq> None \<and> (ans \<noteq> CheckStatus 401 \<longrightarrow> logout_pending b = logout_pending a) \<and>
    (ans = CheckStatus 401 \<and> session_check a = Some True \<longrightarrow> logout_pending b \<noteq> None)"
proof -
  obtain was where w: "session_check a = Some was" "b = end_check u ans was a" using assms(1) by (auto split: option.splits)
  show ?thesis
  proof (cases ans)
    case (CheckOk d)
    with w(2) assms(2) show ?thesis by (cases d) (auto simp: end_check_def Let_def)
  next
    case (CheckStatus st)
    have "username (start_logout u r c) = username c" for r c by (simp add: start_logout_def Let_def)
    moreover have "logout_pending (start_logout u r c) \<noteq> None" for r c by (simp add: start_logout_def Let_def)
    ultimately show ?thesis using CheckStatus w assms(2) by (simp add: end_check_def Let_def)
  next
    case CheckFailed
    with w(2) assms(2) show ?thesis by (simp add: end_check_def Let_def)
  qed
qed

theorem remembered_session_kept_witness:
  "\<exists>b. auth_step local_url [] (CheckEnds (CheckStatus 403)) (auth_start ''/'' None (Some ''ann'')) = Some b \<and> username b \<noteq> None"
proof -
  define a where "a = auth_start ''/'' None (Some ''ann'')"
  have a: "session_check a = Some True" "username a = Some ''ann''" by (simp_all add: a_def auth_start_def initializeSession_def)
  have "auth_step local_url [] (CheckEnds (CheckStatus 403)) a = Some (end_check local_url (CheckStatus 403) True a)" by (simp add: a)
  with remembered_session_kept [OF this a(2)] show ?thesis by (auto simp: a_def [symmetric])
qed

lemma completed_same:
  "completed (end_attempt i a) = completed a" "completed (set_stage i g a) = completed a"
  "completed (show_login_error k a) = completed a" "completed (fido_failed i k a) = completed a"
  "completed (a\<lparr>mfa_shown := n\<rparr>) = completed a"
  by (simp_all add: end_attempt_def set_stage_def show_login_error_def fido_failed_def)

text \<open>
  C15: a Passkey sign-in completes only for the attempt started last, at most once, and only if no popstate event has been
  dispatched and no other cancellation happened since it started. A navigation that dispatches no such event does not cancel it:
  \<open>home_link_keeps_passkey_login\<close> below.
\<close>

theorem passkey_login_guarded:
  assumes "run (auth_step u unnamed) es (auth_start url saved name) = Some a"
    and "auth_step u unnamed (FidoAnswered i ans) a = Some b" and "completed b \<noteq> completed a"
  shows "completed b = i # completed a \<and> i \<notin> set (completed a) \<and> i \<notin> set (aborted a) \<and> fido_abort a = Some i \<and>
    (\<exists>t\<in>set (attempts a). at_id t = i \<and> at_popstates t = popstates (app a)) \<and> i \<notin> at_id ` set (attempts b)"
proof -
  have inv: "attempts_ok a" using au.inv_run [OF assms(1) auth_start_inv] by (simp add: auth_inv_def)
  obtain t where t: "find (\<lambda>t. at_id t = i) (attempts a) = Some t" "fido_continue u t ans a = Some b"
    using assms(2) by (auto split: option.splits)
  then have m: "t \<in> set (attempts a)" "at_id t = i" by (auto simp: find_Some_iff)
  obtain d where ans: "ans = Session d" "i \<notin> set (aborted a)"
    and b: "b = (end_attempt i (completeLogin u d (at_name t) a))\<lparr>completed := i # completed a\<rparr>"
    using t(2) assms(3) m(2)
    by (cases ans; cases "at_stage t") (auto simp: fido_continue_def Let_def completed_same split: if_splits)
  have "i \<notin> set (completed a)" "fido_abort a = Some i" "at_popstates t = popstates (app a)"
    using inv m ans(2) by (auto simp: attempts_ok_def list_all_iff)
  with m ans(2) b show ?thesis by (auto simp: end_attempt_def)
qed

definition passkey_answers :: "auth_event list" where
  "passkey_answers = FidoStarted True ''ann'' # map (FidoAnswered 0) [Granted, Granted, Granted, Granted, Granted, Granted]"

definition home_page :: auth where
  "home_page = updateAuthUI local_url False [] False [] [] ((auth_start ''/'' None None)\<lparr>session_check := None\<rparr>)"

text \<open>The attempt after its six answers.\<close>

definition waiting_page :: auth where
  "waiting_page = (hide_login_error home_page)\<lparr>fido_abort := Some 0, next_attempt := 1,
     attempts := [\<lparr>at_id = 0, at_name = js_trim ''ann'', at_stage = FDecode, at_popstates = popstates (app home_page)\<rparr>]\<rparr>"

lemma home_attempts:
  "attempts home_page = []" "aborted home_page = []" "next_attempt home_page = 0" "fido_abort home_page = None"
  "session_check home_page = None" "completed home_page = []" "logged_in (app home_page) = False"
  by (simp_all add: home_page_def updateAuthUI_def on_shell_def cancelFidoLogin_def Let_def applySessionCaches_def
      auth_start_def initializeSession_def split: option.split)

lemma waiting_run:
  "run (auth_step local_url []) (CheckEnds CheckFailed # passkey_answers) (auth_start ''/'' None None) = Some waiting_page"
proof -
  have n: "session_check (auth_start ''/'' None None) = Some False" by (simp add: auth_start_def initializeSession_def)
  have "auth_step local_url [] (CheckEnds CheckFailed) (auth_start ''/'' None None) = Some home_page"
    by (simp add: n end_check_def home_page_def Let_def)
  then show ?thesis
    by (simp add: passkey_answers_def start_fido_def cancelFidoLogin_def home_attempts hide_login_error_def fido_continue_def
        set_stage_def waiting_page_def Let_def)
qed

theorem passkey_login_guarded_witness:
  "0 \<notin> set (aborted waiting_page) \<and> fido_abort waiting_page = Some 0"
proof -
  have s: "auth_step local_url [] (FidoAnswered 0 (Session None)) waiting_page =
      Some ((end_attempt 0 (completeLogin local_url None (js_trim ''ann'') waiting_page))\<lparr>completed := [0]\<rparr>)"
    by (simp add: waiting_page_def fido_continue_def hide_login_error_def home_attempts Let_def)
  have "completed waiting_page = []" by (simp add: waiting_page_def hide_login_error_def home_attempts)
  then show ?thesis using passkey_login_guarded [OF waiting_run s] by simp
qed

text \<open>
  Leaving the sign-in page by a link of the shell pushes the new address without a popstate event: the Passkey sign-in is not
  cancelled and still completes on the other page.
\<close>

definition plain_click :: click where
  "plain_click = \<lparr>button = 0, metaKey = False, ctrlKey = False, shiftKey = False, altKey = False\<rparr>"

lemma home_link_eq:
  "home_link u plain_click s =
     activate u ''overview'' (if pathname s \<noteq> ''/'' \<or> search s \<noteq> [] then set_url (pushState ''/'') s else s)"
proof -
  define r where "r = (if pathname s \<noteq> ''/'' \<or> search s \<noteq> [] then set_url (pushState ''/'') s else s)"
  have "pathname r = ''/''" by (simp add: r_def pathname_home)
  then have "switchTab u ''overview'' r = activate u ''overview'' r" by (simp add: switch_eq decide_home)
  moreover have "home_link u plain_click s = switchTab u ''overview'' r"
    by (simp add: home_link_def plain_click_def navigateHome_def r_def)
  ultimately show ?thesis by (simp add: r_def)
qed

lemma home_link_dispatches_nothing: "popstates (home_link u plain_click s) = popstates s"
  by (simp add: home_link_eq activate_def Let_def set_url_def)

lemma find_key: "distinct (map f xs) \<Longrightarrow> t \<in> set xs \<Longrightarrow> find (\<lambda>x. f x = f t) xs = Some t"
  by (induction xs) auto

theorem home_link_keeps_passkey_login:
  assumes "attempts_ok a" and "t \<in> set (attempts a)" "at_stage t = FDecode" "at_id t \<notin> set (aborted a)"
  shows "\<exists>b c. auth_step u unnamed (Shown (HomeLink plain_click)) a = Some b \<and> pathname (app b) = ''/'' \<and>
    auth_step u unnamed (FidoAnswered (at_id t) (Session d)) b = Some c \<and> at_id t \<in> set (completed c)"
proof -
  define b where "b = on_shell (\<lambda>_. home_link u plain_click (app a)) a"
  have p: "pathname (app b) = ''/''"
    by (simp add: b_def home_link_eq pathname_home)
  have ab: "aborted b = aborted a" "attempts b = attempts a"
    using home_link_dispatches_nothing by (simp_all add: b_def on_shell_def Let_def)
  have "find (\<lambda>x. at_id x = at_id t) (attempts b) = Some t"
    using assms(1,2) ab by (simp add: attempts_ok_def find_key)
  then obtain c where "auth_step u unnamed (FidoAnswered (at_id t) (Session d)) b = Some c" "at_id t \<in> set (completed c)"
    using assms(3,4) ab by (simp add: fido_continue_def Let_def)
  with p show ?thesis by (intro exI [of _ b] exI [of _ c]) (simp add: b_def navigation_def)
qed

end
