(* ===== verification/Profile_Cache.thy ===== *)
theory Profile_Cache
  imports Session
begin

text \<open>
  The shared cache of public profiles (\<open>user-profiles.js\<close>): a bounded map with expiry, one running request per user,
  lookups collected into batches of 50 names, and a generation that keeps answers of an earlier account or an
  earlier profile out of the cache. A state machine over the calls and the answers of the server; a name is
  passed in as the caller gives it. The time is an argument of the events.
\<close>

section \<open>The state\<close>

definition PROFILE_CACHE_TTL_MS :: int where "PROFILE_CACHE_TTL_MS = 5 * 60 * 1000"
definition PROFILE_CACHE_MAX_ENTRIES :: nat where "PROFILE_CACHE_MAX_ENTRIES = 256"
definition BATCH_SIZE :: nat where "BATCH_SIZE = 50"

text \<open>\<open>entry_origin\<close> is the number of the request that brought the profile, nothing for a published update.\<close>

record cache_entry =
  entry_profile :: profile
  expiresAt :: int
  entry_origin :: "nat option"

text \<open>A running call: what it waits for is a queued lookup or a request of its own.\<close>

datatype waits_for = Lookup nat | Direct

record cache_request =
  rq_id :: nat
  rq_name :: string
  rq_generation :: nat
  rq_waits :: waits_for

text \<open>
  \<open>profileCache\<close> and the other maps keep their entries in order of insertion. \<open>flushes\<close> are the running flushes with the
  batches still to be answered; \<open>settled\<close> lists the lookups answered. \<open>cleared_at\<close> is the number of the first
  request made after the cache was cleared the last time.
\<close>

record profiles =
  profileCache :: "(string \<times> cache_entry) list"
  profileRequests :: "(string \<times> nat) list"
  profileBatchQueue :: "(string \<times> nat) list"
  profileBatchScheduled :: bool
  profileCacheGeneration :: nat
  cache_requests :: "cache_request list"
  flushes :: "(string \<times> nat) list list list"
  settled_lookups :: "nat list"
  next_request :: nat
  next_lookup :: nat
  cleared_at :: nat

definition profiles_start :: profiles where
  "profiles_start = \<lparr>profileCache = [], profileRequests = [], profileBatchQueue = [], profileBatchScheduled = False,
     profileCacheGeneration = 0, cache_requests = [], flushes = [], settled_lookups = [], next_request = 0, next_lookup = 0,
     cleared_at = 0\<rparr>"

definition delete_key :: "string \<Rightarrow> (string \<times> 'a) list \<Rightarrow> (string \<times> 'a) list" where
  "delete_key k m = filter (\<lambda>e. fst e \<noteq> k) m"

text \<open>\<open>Map.set\<close>: an existing key keeps its place.\<close>

definition set_key :: "string \<Rightarrow> 'a \<Rightarrow> (string \<times> 'a) list \<Rightarrow> (string \<times> 'a) list" where
  "set_key k v m = (if k \<in> fst ` set m then map (\<lambda>e. if fst e = k then (k, v) else e) m else m @ [(k, v)])"

definition normal_name :: "string \<Rightarrow> string" where "normal_name name = to_lower (js_trim name)"

section \<open>The cache\<close>

definition cacheUserProfile :: "int \<Rightarrow> nat option \<Rightarrow> string \<Rightarrow> profile \<Rightarrow> profiles \<Rightarrow> profiles" where
  "cacheUserProfile clock from_request name p s =
     (let m = filter (\<lambda>e. expiresAt (snd e) > clock) (delete_key name (profileCache s));
          m = (if length m \<ge> PROFILE_CACHE_MAX_ENTRIES then tl m else m)
      in s\<lparr>profileCache := set_key name \<lparr>entry_profile = p, expiresAt = clock + PROFILE_CACHE_TTL_MS, entry_origin = from_request\<rparr> m\<rparr>)"

text \<open>The lookup a name is queued under, new or already queued.\<close>

definition queueUserProfile :: "string \<Rightarrow> profiles \<Rightarrow> nat \<times> profiles" where
  "queueUserProfile name s =
     (case map_of (profileBatchQueue s) name of
        Some l \<Rightarrow> (l, s)
      | None \<Rightarrow> (next_lookup s, s\<lparr>profileBatchQueue := profileBatchQueue s @ [(name, next_lookup s)],
                                  next_lookup := Suc (next_lookup s), profileBatchScheduled := True\<rparr>))"

datatype got = NoName | Cached profile | Waiting nat

definition start_request :: "string \<Rightarrow> bool \<Rightarrow> profiles \<Rightarrow> got \<times> profiles" where
  "start_request n refresh s =
     (case (if refresh then None else map_of (profileRequests s) n) of
        Some i \<Rightarrow> (Waiting i, s)
      | None \<Rightarrow>
          (case (if refresh then (Direct, s) else map_prod Lookup id (queueUserProfile n s)) of
             (w, s) \<Rightarrow>
               (Waiting (next_request s),
                s\<lparr>cache_requests := cache_requests s @
                    [\<lparr>rq_id = next_request s, rq_name = n, rq_generation = profileCacheGeneration s, rq_waits = w\<rparr>],
                  profileRequests := set_key n (next_request s) (profileRequests s),
                  next_request := Suc (next_request s)\<rparr>)))"

definition getUserProfile :: "int \<Rightarrow> string \<Rightarrow> bool \<Rightarrow> profiles \<Rightarrow> got \<times> profiles" where
  "getUserProfile clock name refresh s =
     (let n = normal_name name; cached = map_of (profileCache s) n in
      if n = [] then (NoName, s)
      else if \<not> refresh \<and> (case cached of Some e \<Rightarrow> expiresAt e > clock | None \<Rightarrow> False)
      then (Cached (entry_profile (the cached)), s)
      else start_request n refresh (s\<lparr>profileCache := delete_key n (profileCache s)\<rparr>))"

text \<open>A call gets the profile it waits for, or fails; its entry in the request map is removed if it is still its own.\<close>

definition finish_request :: "int \<Rightarrow> profile option \<Rightarrow> cache_request \<Rightarrow> profiles \<Rightarrow> profiles" where
  "finish_request clock result r s =
     (let s = (case result of
                 Some p \<Rightarrow> if rq_generation r = profileCacheGeneration s
                           then cacheUserProfile clock (Some (rq_id r)) (rq_name r) p s else s
               | None \<Rightarrow> s);
          s = s\<lparr>cache_requests := filter (\<lambda>q. rq_id q \<noteq> rq_id r) (cache_requests s)\<rparr>
      in if map_of (profileRequests s) (rq_name r) = Some (rq_id r)
         then s\<lparr>profileRequests := delete_key (rq_name r) (profileRequests s)\<rparr> else s)"

section \<open>Batches\<close>

function batches :: "'a list \<Rightarrow> 'a list list" where
  "batches xs = (if xs = [] then [] else take BATCH_SIZE xs # batches (drop BATCH_SIZE xs))"
  by auto
termination by (relation "measure length") (auto simp: BATCH_SIZE_def)

declare batches.simps [simp del]

definition flushUserProfileBatch :: "profiles \<Rightarrow> profiles" where
  "flushUserProfileBatch s =
     s\<lparr>profileBatchScheduled := False, profileBatchQueue := [], flushes := flushes s @ [batches (profileBatchQueue s)]\<rparr>"

text \<open>The answer of the server to the first batch of a flush: the profiles, or a failure.\<close>

definition lookup_result :: "profile list option \<Rightarrow> string \<Rightarrow> profile option" where
  "lookup_result ans name =
     (case ans of None \<Rightarrow> None | Some ps \<Rightarrow> map_of (rev (map (\<lambda>p. (profile_username p, p)) ps)) name)"

definition waiting_for :: "nat list \<Rightarrow> cache_request list \<Rightarrow> cache_request list" where
  "waiting_for ls rs = filter (\<lambda>r. case rq_waits r of Lookup l \<Rightarrow> l \<in> set ls | Direct \<Rightarrow> False) rs"

definition lookup_of :: "cache_request \<Rightarrow> nat" where
  "lookup_of r = (case rq_waits r of Lookup l \<Rightarrow> l | Direct \<Rightarrow> 0)"

definition name_of :: "(string \<times> nat) list \<Rightarrow> nat \<Rightarrow> string" where
  "name_of batch l = (case find (\<lambda>e. snd e = l) batch of Some e \<Rightarrow> fst e | None \<Rightarrow> [])"

definition batch_answered :: "int \<Rightarrow> nat \<Rightarrow> profile list option \<Rightarrow> profiles \<Rightarrow> profiles" where
  "batch_answered clock k ans s =
     (let batch = hd (flushes s ! k); rest = tl (flushes s ! k);
          s = s\<lparr>flushes := (if rest = [] then take k (flushes s) @ drop (Suc k) (flushes s) else (flushes s)[k := rest]),
                settled_lookups := settled_lookups s @ map snd batch\<rparr>
      in fold (\<lambda>r. finish_request clock (lookup_result ans (name_of batch (lookup_of r))) r)
           (waiting_for (map snd batch) (cache_requests s)) s)"

section \<open>Invalidation\<close>

definition clearUserProfileCache :: "profiles \<Rightarrow> profiles" where
  "clearUserProfileCache s =
     s\<lparr>profileCacheGeneration := Suc (profileCacheGeneration s), profileCache := [], profileRequests := [],
       cleared_at := next_request s\<rparr>"

definition invalidateUserProfiles :: "string list \<Rightarrow> profiles \<Rightarrow> profiles" where
  "invalidateUserProfiles usernames s =
     (let invalidated = filter (\<lambda>n. n \<noteq> []) (map normal_name usernames) in
      if invalidated = [] then s
      else s\<lparr>profileCache := filter (\<lambda>e. fst e \<notin> set invalidated) (profileCache s),
             profileRequests := filter (\<lambda>e. fst e \<notin> set invalidated) (profileRequests s),
             profileCacheGeneration := Suc (profileCacheGeneration s)\<rparr>)"

definition syncUserProfile :: "int \<Rightarrow> profile \<Rightarrow> string \<Rightarrow> profiles \<Rightarrow> profiles" where
  "syncUserProfile clock p oldUsername s =
     (let name = normal_name (profile_username p); previous = normal_name oldUsername in
      if name = [] then s
      else (let s = s\<lparr>profileCacheGeneration := Suc (profileCacheGeneration s),
                      profileRequests := delete_key name (profileRequests s)\<rparr>;
                s = (if previous \<noteq> [] \<and> previous \<noteq> name then s\<lparr>profileCache := delete_key previous (profileCache s)\<rparr> else s)
            in cacheUserProfile clock None name p s))"

section \<open>Events\<close>

datatype profiles_event =
    Asked int string bool | Flushed | BatchAnswered int nat "profile list option" | DirectAnswered int nat "profile option"
  | ClearedProfiles | Invalidated "string list" | Synced int profile string

fun profiles_step :: "profiles_event \<Rightarrow> profiles \<Rightarrow> profiles option" where
  "profiles_step (Asked clock name refresh) s = Some (snd (getUserProfile clock name refresh s))"
| "profiles_step Flushed s = (if profileBatchScheduled s then Some (flushUserProfileBatch s) else None)"
| "profiles_step (BatchAnswered clock k ans) s = (if k < length (flushes s) then Some (batch_answered clock k ans s) else None)"
| "profiles_step (DirectAnswered clock i result) s =
     (case find (\<lambda>r. rq_id r = i) (cache_requests s) of
        Some r \<Rightarrow> if rq_waits r = Direct then Some (finish_request clock result r s) else None
      | None \<Rightarrow> None)"
| "profiles_step ClearedProfiles s = Some (clearUserProfileCache s)"
| "profiles_step (Invalidated names) s = Some (invalidateUserProfiles names s)"
| "profiles_step (Synced clock p old) s = Some (syncUserProfile clock p old s)"

section \<open>The invariants\<close>

text \<open>A request of the current epoch, made since the cache was cleared.\<close>

definition since :: "nat \<Rightarrow> nat \<Rightarrow> nat option \<Rightarrow> bool" where
  "since first next_id org = (case org of None \<Rightarrow> True | Some i \<Rightarrow> first \<le> i \<and> i < next_id)"

definition cache_ok :: "profiles \<Rightarrow> bool" where
  "cache_ok s \<longleftrightarrow> distinct (map fst (profileCache s)) \<and> length (profileCache s) \<le> PROFILE_CACHE_MAX_ENTRIES \<and>
     list_all (\<lambda>e. since (cleared_at s) (next_request s) (entry_origin (snd e))) (profileCache s)"

definition requests_ok :: "profiles \<Rightarrow> bool" where
  "requests_ok s \<longleftrightarrow> cleared_at s \<le> next_request s \<and> distinct (map rq_id (cache_requests s)) \<and>
     list_all (\<lambda>r. rq_id r < next_request s \<and> rq_generation r \<le> profileCacheGeneration s \<and>
       (rq_generation r = profileCacheGeneration s \<longrightarrow> cleared_at s \<le> rq_id r)) (cache_requests s)"

definition waits_in :: "nat set \<Rightarrow> waits_for \<Rightarrow> bool" where
  "waits_in A w = (case w of Lookup l \<Rightarrow> l \<in> A | Direct \<Rightarrow> True)"

text \<open>The lookups not answered yet: queued, or in a batch of a running flush.\<close>

definition pending_lookups :: "profiles \<Rightarrow> nat list" where
  "pending_lookups s = map snd (profileBatchQueue s) @ map snd (concat (concat (flushes s)))"

definition lookups_ok :: "profiles \<Rightarrow> bool" where
  "lookups_ok s \<longleftrightarrow> distinct (pending_lookups s @ settled_lookups s) \<and>
     set (pending_lookups s @ settled_lookups s) = {..<next_lookup s} \<and>
     list_all (\<lambda>f. f \<noteq> [] \<and> list_all (\<lambda>b. b \<noteq> [] \<and> length b \<le> BATCH_SIZE) f) (flushes s) \<and>
     (profileBatchScheduled s \<longleftrightarrow> profileBatchQueue s \<noteq> []) \<and>
     list_all (\<lambda>r. waits_in (set (pending_lookups s)) (rq_waits r)) (cache_requests s)"

definition profiles_inv :: "profiles \<Rightarrow> bool" where
  "profiles_inv s \<longleftrightarrow> cache_ok s \<and> requests_ok s \<and> lookups_ok s"

lemma set_key_keys: "distinct (map fst m) \<Longrightarrow> distinct (map fst (set_key k v m))"
proof -
  assume d: "distinct (map fst m)"
  have "map fst (map (\<lambda>e. if fst e = k then (k, v) else e) m) = map fst m" by auto
  with d show ?thesis by (auto simp: set_key_def simp del: map_map)
qed

lemma delete_key_keys: "distinct (map fst m) \<Longrightarrow> distinct (map fst (delete_key k m))"
  by (simp add: delete_key_def distinct_map_filter)

lemma cacheUserProfile_ok:
  assumes "cache_ok s" and "since (cleared_at s) (next_request s) org"
  shows "cache_ok (cacheUserProfile clock org name p s)"
proof -
  let ?e = "\<lparr>entry_profile = p, expiresAt = clock + PROFILE_CACHE_TTL_MS, entry_origin = org\<rparr>"
  define m where "m = filter (\<lambda>e. expiresAt (snd e) > clock) (delete_key name (profileCache s))"
  define m' where "m' = (if length m \<ge> PROFILE_CACHE_MAX_ENTRIES then tl m else m)"
  have d: "distinct (map fst m')"
    using assms(1) delete_key_keys [of "profileCache s" name]
    by (auto simp: cache_ok_def m'_def m_def distinct_map_filter map_tl distinct_tl)
  have "set m' \<subseteq> set m" by (cases m) (auto simp: m'_def)
  also have "\<dots> \<subseteq> set (profileCache s)" by (auto simp: m_def delete_key_def)
  finally have sub: "set m' \<subseteq> set (profileCache s)" .
  have "length m \<le> PROFILE_CACHE_MAX_ENTRIES"
    using assms(1) length_filter_le [of _ "profileCache s"] le_trans
    unfolding cache_ok_def m_def delete_key_def by (metis (no_types, lifting) filter_filter)
  then have len: "length m' < PROFILE_CACHE_MAX_ENTRIES" by (auto simp: m'_def PROFILE_CACHE_MAX_ENTRIES_def)
  have k: "length (set_key name ?e m') \<le> Suc (length m')" by (simp add: set_key_def)
  have "set (set_key name ?e m') \<subseteq> insert (name, ?e) (set m')" by (auto simp: set_key_def)
  then have "list_all (\<lambda>e. since (cleared_at s) (next_request s) (entry_origin (snd e))) (set_key name ?e m')"
    using assms sub unfolding cache_ok_def list_all_iff by fastforce
  moreover have "cacheUserProfile clock org name p s = s\<lparr>profileCache := set_key name ?e m'\<rparr>"
    by (simp add: cacheUserProfile_def m_def m'_def Let_def)
  ultimately show ?thesis using set_key_keys [OF d, of name ?e] len k by (simp add: cache_ok_def)
qed

lemma cacheUserProfile_fields [simp]:
  "cache_requests (cacheUserProfile clock org name p s) = cache_requests s" "flushes (cacheUserProfile clock org name p s) = flushes s"
  "profileBatchQueue (cacheUserProfile clock org name p s) = profileBatchQueue s"
  "profileBatchScheduled (cacheUserProfile clock org name p s) = profileBatchScheduled s"
  "settled_lookups (cacheUserProfile clock org name p s) = settled_lookups s"
  "next_lookup (cacheUserProfile clock org name p s) = next_lookup s" "next_request (cacheUserProfile clock org name p s) = next_request s"
  "cleared_at (cacheUserProfile clock org name p s) = cleared_at s"
  "profileCacheGeneration (cacheUserProfile clock org name p s) = profileCacheGeneration s"
  "profileRequests (cacheUserProfile clock org name p s) = profileRequests s"
  by (simp_all add: cacheUserProfile_def Let_def)

section \<open>Requests\<close>

lemma delete_key_set: "set (delete_key k m) \<subseteq> set m" by (auto simp: delete_key_def)

lemma cache_ok_delete:
  assumes "cache_ok s" and "profileCache t = filter P (profileCache s)" and "cleared_at t = cleared_at s"
    and "next_request s \<le> next_request t"
  shows "cache_ok t"
proof -
  have "since c n org \<Longrightarrow> n \<le> m \<Longrightarrow> since c m org" for c n m org by (auto simp: since_def split: option.splits)
  with assms le_trans [OF length_filter_le] show ?thesis
    by (auto simp: cache_ok_def distinct_map_filter list_all_iff)
qed

lemma cache_ok_grow:
  assumes "cache_ok s" and "profileCache t = profileCache s" and "cleared_at t = cleared_at s"
    and "next_request s \<le> next_request t"
  shows "cache_ok t"
  using cache_ok_delete [of s t "\<lambda>_. True"] assms by simp

lemma start_request_fields:
  "profileCache (snd (start_request n refresh s)) = profileCache s"
  "cleared_at (snd (start_request n refresh s)) = cleared_at s"
  "flushes (snd (start_request n refresh s)) = flushes s"
  "settled_lookups (snd (start_request n refresh s)) = settled_lookups s"
  "profileCacheGeneration (snd (start_request n refresh s)) = profileCacheGeneration s"
  "next_request s \<le> next_request (snd (start_request n refresh s))"
  by (auto simp: start_request_def queueUserProfile_def split: option.splits)

lemma start_request_requests:
  assumes "requests_ok s"
  shows "requests_ok (snd (start_request n refresh s))"
  using assms by (fastforce simp: requests_ok_def start_request_def queueUserProfile_def list_all_iff split: option.splits)

lemma queueUserProfile_lookups:
  assumes ok: "lookups_ok s" and q: "queueUserProfile n s = (l, t)"
  shows "lookups_ok t \<and> l \<in> set (pending_lookups t) \<and> cache_requests t = cache_requests s"
proof (cases "map_of (profileBatchQueue s) n")
  case (Some l')
  then have "l' \<in> snd ` set (profileBatchQueue s)" by (force dest: map_of_SomeD)
  with Some q ok show ?thesis by (auto simp: queueUserProfile_def pending_lookups_def)
next
  case None
  define P where "P = set (pending_lookups s)"
  have t: "t = s\<lparr>profileBatchQueue := profileBatchQueue s @ [(n, next_lookup s)],
      next_lookup := Suc (next_lookup s), profileBatchScheduled := True\<rparr>" and l: "l = next_lookup s"
    using None q by (auto simp: queueUserProfile_def)
  have new: "next_lookup s \<notin> set (pending_lookups s @ settled_lookups s)" using ok by (auto simp: lookups_ok_def)
  have pt: "set (pending_lookups t) = insert (next_lookup s) P" by (auto simp: t P_def pending_lookups_def)
  have "distinct (pending_lookups t @ settled_lookups t)"
  proof -
    define A where "A = map snd (profileBatchQueue s)"
    define B where "B = map snd (concat (concat (flushes s)))"
    have "pending_lookups s = A @ B" "pending_lookups t = A @ next_lookup s # B" "settled_lookups t = settled_lookups s"
      by (simp_all add: t A_def B_def pending_lookups_def)
    moreover have "distinct (A @ B @ settled_lookups s)" "next_lookup s \<notin> set (A @ B @ settled_lookups s)"
      using ok new calculation by (simp_all add: lookups_ok_def)
    ultimately show ?thesis by auto
  qed
  moreover have "set (pending_lookups t @ settled_lookups t) = {..<next_lookup t}"
  proof -
    have "settled_lookups t = settled_lookups s" by (simp add: t)
    then have "set (pending_lookups t @ settled_lookups t) = insert (next_lookup s) (set (pending_lookups s @ settled_lookups s))"
      by (simp add: pt P_def)
    also have "set (pending_lookups s @ settled_lookups s) = {..<next_lookup s}" using ok unfolding lookups_ok_def by blast
    finally show ?thesis by (simp add: t lessThan_Suc)
  qed
  moreover have "list_all (\<lambda>r. waits_in (set (pending_lookups t)) (rq_waits r)) (cache_requests t)"
    using ok unfolding lookups_ok_def pt by (auto simp: t P_def waits_in_def list_all_iff split: waits_for.splits)
  ultimately show ?thesis using ok pt by (simp add: lookups_ok_def t l)
qed

lemma lookups_ok_add:
  assumes "lookups_ok s" and "waits_in (set (pending_lookups s)) (rq_waits r)"
  shows "lookups_ok (s\<lparr>cache_requests := cache_requests s @ [r], profileRequests := m, next_request := n\<rparr>)"
  using assms by (simp add: lookups_ok_def pending_lookups_def)

lemma start_request_lookups:
  assumes ok: "lookups_ok s"
  shows "lookups_ok (snd (start_request n refresh s))"
proof (cases "if refresh then None else map_of (profileRequests s) n")
  case None
  show ?thesis
  proof (cases refresh)
    case True
    then show ?thesis by (auto simp: start_request_def waits_in_def intro!: lookups_ok_add ok)
  next
    case False
    obtain l t where q: "queueUserProfile n s = (l, t)" by fastforce
    with None False have "snd (start_request n refresh s) = t\<lparr>cache_requests := cache_requests t @
        [\<lparr>rq_id = next_request t, rq_name = n, rq_generation = profileCacheGeneration t, rq_waits = Lookup l\<rparr>],
      profileRequests := set_key n (next_request t) (profileRequests t), next_request := Suc (next_request t)\<rparr>"
      by (simp add: start_request_def)
    moreover have "lookups_ok t" "l \<in> set (pending_lookups t)" using queueUserProfile_lookups [OF ok q] by simp_all
    ultimately show ?thesis by (simp add: waits_in_def lookups_ok_add)
  qed
qed (use ok in \<open>simp add: start_request_def\<close>)

lemma getUserProfile_inv:
  assumes "profiles_inv s"
  shows "profiles_inv (snd (getUserProfile clock name refresh s))"
proof -
  define t where "t = s\<lparr>profileCache := delete_key (normal_name name) (profileCache s)\<rparr>"
  have "cache_ok t" using assms by (auto simp: profiles_inv_def t_def delete_key_def intro: cache_ok_delete)
  moreover have "requests_ok t" "lookups_ok t"
    using assms by (simp_all add: profiles_inv_def t_def requests_ok_def lookups_ok_def pending_lookups_def)
  ultimately have "profiles_inv (snd (start_request (normal_name name) refresh t))"
    using cache_ok_grow [of t] start_request_requests start_request_lookups
    by (simp add: profiles_inv_def start_request_fields)
  with assms show ?thesis by (simp add: getUserProfile_def Let_def t_def)
qed

lemma finish_request_fields:
  "flushes (finish_request clock res r s) = flushes s"
  "profileBatchQueue (finish_request clock res r s) = profileBatchQueue s"
  "profileBatchScheduled (finish_request clock res r s) = profileBatchScheduled s"
  "settled_lookups (finish_request clock res r s) = settled_lookups s"
  "next_lookup (finish_request clock res r s) = next_lookup s"
  "next_request (finish_request clock res r s) = next_request s"
  "cleared_at (finish_request clock res r s) = cleared_at s"
  "profileCacheGeneration (finish_request clock res r s) = profileCacheGeneration s"
  "cache_requests (finish_request clock res r s) = filter (\<lambda>q. rq_id q \<noteq> rq_id r) (cache_requests s)"
  by (simp_all add: finish_request_def Let_def split: option.splits)

lemma finish_request_inv:
  assumes c: "cache_ok s" and r: "requests_ok s" and m: "r \<in> set (cache_requests s)"
  shows "cache_ok (finish_request clock res r s)" and "requests_ok (finish_request clock res r s)"
proof -
  have r': "rq_id r < next_request s" "rq_generation r = profileCacheGeneration s \<Longrightarrow> cleared_at s \<le> rq_id r"
    using r m by (auto simp: requests_ok_def list_all_iff)
  define u where "u = (case res of
      Some p \<Rightarrow> if rq_generation r = profileCacheGeneration s then cacheUserProfile clock (Some (rq_id r)) (rq_name r) p s else s
    | None \<Rightarrow> s)"
  have "cache_ok u" using c r' by (auto simp: u_def since_def intro!: cacheUserProfile_ok split: option.splits)
  moreover have "profileCache (finish_request clock res r s) = profileCache u"
    "cleared_at u = cleared_at s" "next_request u = next_request s"
    by (simp_all add: finish_request_def u_def Let_def split: option.splits)
  ultimately show "cache_ok (finish_request clock res r s)"
    by - (rule cache_ok_grow [of u], simp_all add: finish_request_fields)
  show "requests_ok (finish_request clock res r s)"
    using r by (simp add: requests_ok_def finish_request_fields list_all_iff distinct_map_filter)
qed

section \<open>Batches\<close>

lemma batches_concat: "concat (batches xs) = xs"
  by (induction xs rule: batches.induct) (subst batches.simps, auto)

lemma batches_size: "list_all (\<lambda>b. b \<noteq> [] \<and> length b \<le> BATCH_SIZE) (batches xs)"
  by (induction xs rule: batches.induct) (subst batches.simps, auto simp: BATCH_SIZE_def)

lemma batches_empty: "batches xs = [] \<longleftrightarrow> xs = []"
  by (subst batches.simps) simp

lemma distinct_swap: "distinct (xs @ ys @ zs) = distinct (ys @ xs @ zs)" by auto

lemma flush_inv:
  assumes "profiles_inv s" and "profileBatchScheduled s"
  shows "profiles_inv (flushUserProfileBatch s)"
proof -
  have q: "profileBatchQueue s \<noteq> []" using assms by (simp add: profiles_inv_def lookups_ok_def)
  define P where "P = pending_lookups (flushUserProfileBatch s)"
  have P: "P = map snd (concat (concat (flushes s))) @ map snd (profileBatchQueue s)"
    by (simp add: P_def pending_lookups_def flushUserProfileBatch_def batches_concat)
  then have "set P = set (pending_lookups s)" by (auto simp: pending_lookups_def)
  moreover have "distinct (P @ settled_lookups s) = distinct (pending_lookups s @ settled_lookups s)"
    unfolding P pending_lookups_def append_assoc by (rule distinct_swap)
  ultimately show ?thesis
    using assms(1) q batches_size [of "profileBatchQueue s"]
    unfolding profiles_inv_def cache_ok_def requests_ok_def lookups_ok_def P_def [symmetric]
    by (simp add: flushUserProfileBatch_def batches_empty)
qed

lemma finish_all:
  assumes "cache_ok s" and "requests_ok s" and "distinct (map rq_id rs)" and "set rs \<subseteq> set (cache_requests s)"
  shows "cache_ok (fold (\<lambda>r. finish_request clock (f r) r) rs s) \<and> requests_ok (fold (\<lambda>r. finish_request clock (f r) r) rs s)"
  using assms
proof (induction rs arbitrary: s)
  case (Cons r rs)
  then have "cache_ok (finish_request clock (f r) r s)" "requests_ok (finish_request clock (f r) r s)"
    using finish_request_inv [of s r] by simp_all
  moreover have "set rs \<subseteq> set (cache_requests (finish_request clock (f r) r s))"
    using Cons.prems by (auto simp: finish_request_fields image_iff)
  ultimately show ?case using Cons by simp
qed simp

lemma finish_all_fields:
  "flushes (fold (\<lambda>r. finish_request clock (f r) r) rs s) = flushes s"
  "profileBatchQueue (fold (\<lambda>r. finish_request clock (f r) r) rs s) = profileBatchQueue s"
  "profileBatchScheduled (fold (\<lambda>r. finish_request clock (f r) r) rs s) = profileBatchScheduled s"
  "settled_lookups (fold (\<lambda>r. finish_request clock (f r) r) rs s) = settled_lookups s"
  "next_lookup (fold (\<lambda>r. finish_request clock (f r) r) rs s) = next_lookup s"
  "cache_requests (fold (\<lambda>r. finish_request clock (f r) r) rs s) = filter (\<lambda>q. rq_id q \<notin> rq_id ` set rs) (cache_requests s)"
  by (induction rs arbitrary: s) (auto simp: finish_request_fields intro: filter_cong)

lemma batch_answered_inv:
  assumes inv: "profiles_inv s" and k: "k < length (flushes s)"
  shows "profiles_inv (batch_answered clock k ans s)"
proof -
  define f where "f = flushes s ! k"
  define u where "u = s\<lparr>flushes := (if tl f = [] then take k (flushes s) @ drop (Suc k) (flushes s) else (flushes s)[k := tl f]),
      settled_lookups := settled_lookups s @ map snd (hd f)\<rparr>"
  define rs where "rs = waiting_for (map snd (hd f)) (cache_requests s)"
  define t where "t = batch_answered clock k ans s"
  let ?g = "\<lambda>r. lookup_result ans (name_of (hd f) (lookup_of r))"
  have t: "t = fold (\<lambda>r. finish_request clock (?g r) r) rs u"
    by (simp add: t_def batch_answered_def u_def rs_def f_def Let_def)
  have fl: "flushes s = take k (flushes s) @ f # drop (Suc k) (flushes s)" using k by (simp add: f_def id_take_nth_drop)
  have f: "f \<noteq> []" "list_all (\<lambda>b. b \<noteq> [] \<and> length b \<le> BATCH_SIZE) f"
    using inv k by (auto simp: profiles_inv_def lookups_ok_def list_all_iff f_def)
  then have hd_tl: "f = hd f # tl f" by simp
  define A where "A = map snd (profileBatchQueue s) @ map snd (concat (concat (take k (flushes s))))"
  define H where "H = map snd (hd f)"
  define B where "B = map snd (concat (tl f)) @ map snd (concat (concat (drop (Suc k) (flushes s))))"
  have ps: "pending_lookups s = A @ H @ B"
    unfolding pending_lookups_def A_def H_def B_def by (subst fl, subst hd_tl) simp
  have fu: "flushes u = take k (flushes s) @ (if tl f = [] then [] else [tl f]) @ drop (Suc k) (flushes s)"
    using k by (simp add: u_def upd_conv_take_nth_drop)
  have pu: "pending_lookups u = A @ B" unfolding pending_lookups_def fu by (simp add: A_def B_def u_def)
  have pt: "pending_lookups t = A @ B" unfolding pu [symmetric] t pending_lookups_def by (simp add: finish_all_fields)
  have st: "settled_lookups t = settled_lookups s @ H" by (simp add: t finish_all_fields u_def H_def)
  have ok: "cache_ok u" "requests_ok u"
    using inv by (auto simp: profiles_inv_def u_def cache_ok_def requests_ok_def)
  have rs: "distinct (map rq_id rs)" "set rs \<subseteq> set (cache_requests u)"
    using inv by (auto simp: profiles_inv_def requests_ok_def rs_def waiting_for_def u_def distinct_map_filter)
  have c: "cache_ok t" "requests_ok t" using finish_all [OF ok rs] t by simp_all
  have dist: "distinct (pending_lookups s @ settled_lookups s)" using inv by (simp add: profiles_inv_def lookups_ok_def)
  have "distinct (pending_lookups t @ settled_lookups t)" using dist unfolding ps pt st by auto
  moreover have "set (pending_lookups t @ settled_lookups t) = set (pending_lookups s @ settled_lookups s)"
    unfolding ps pt st by auto
  moreover have "list_all (\<lambda>f. f \<noteq> [] \<and> list_all (\<lambda>b. b \<noteq> [] \<and> length b \<le> BATCH_SIZE) f) (flushes u)"
  proof -
    have "list_all (\<lambda>f. f \<noteq> [] \<and> list_all (\<lambda>b. b \<noteq> [] \<and> length b \<le> BATCH_SIZE) f) (flushes s)"
      using inv by (simp add: profiles_inv_def lookups_ok_def)
    then show ?thesis using f(2) unfolding fu by (subst (asm) fl, cases f) auto
  qed
  moreover have "list_all (\<lambda>r. waits_in (set (pending_lookups t)) (rq_waits r)) (cache_requests t)"
  proof -
    have "waits_in (set (A @ B)) (rq_waits r)" if "r \<in> set (cache_requests s)" "rq_id r \<notin> rq_id ` set rs" for r
    proof -
      from that have "waits_in (set (A @ H @ B)) (rq_waits r)" "r \<notin> set rs"
        using inv by (auto simp: profiles_inv_def lookups_ok_def list_all_iff ps)
      with that(1) show ?thesis by (auto simp: waits_in_def rs_def waiting_for_def H_def split: waits_for.splits)
    qed
    then show ?thesis unfolding pt by (auto simp: t finish_all_fields u_def list_all_iff)
  qed
  ultimately have "lookups_ok t"
    using inv by (simp add: profiles_inv_def lookups_ok_def t finish_all_fields u_def)
  with c show ?thesis by (simp add: profiles_inv_def t_def)
qed

section \<open>Runs\<close>

lemma direct_inv:
  assumes "profiles_inv s" and r: "r \<in> set (cache_requests s)"
  shows "profiles_inv (finish_request clock res r s)"
  using assms finish_request_inv [of s r]
  by (auto simp: profiles_inv_def lookups_ok_def pending_lookups_def finish_request_fields list_all_iff)

lemma invalidation_inv:
  assumes inv: "profiles_inv s"
  shows "profiles_inv (clearUserProfileCache s)" and "profiles_inv (invalidateUserProfiles names s)"
proof -
  show "profiles_inv (clearUserProfileCache s)"
    using inv by (auto simp: profiles_inv_def cache_ok_def requests_ok_def lookups_ok_def pending_lookups_def
        clearUserProfileCache_def list_all_iff)
  define t where "t = invalidateUserProfiles names s"
  have t: "t = s \<or> (\<exists>P m. t = s\<lparr>profileCache := filter P (profileCache s), profileRequests := m,
      profileCacheGeneration := Suc (profileCacheGeneration s)\<rparr>)"
    by (auto simp: t_def invalidateUserProfiles_def Let_def)
  then have "cache_ok t" using inv by (auto simp: profiles_inv_def intro: cache_ok_delete)
  moreover have "requests_ok t"
    using t inv unfolding profiles_inv_def requests_ok_def by (elim disjE exE) (auto simp: list_all_iff)
  moreover have "lookups_ok t"
    using t inv unfolding profiles_inv_def lookups_ok_def pending_lookups_def by (elim disjE exE) simp_all
  ultimately show "profiles_inv (invalidateUserProfiles names s)" by (simp add: profiles_inv_def t_def)
qed

lemma syncUserProfile_inv:
  assumes inv: "profiles_inv s"
  shows "profiles_inv (syncUserProfile clock p old s)"
proof (cases "normal_name (profile_username p) = []")
  case False
  define n where "n = normal_name (profile_username p)"
  define u where "u = (let s = s\<lparr>profileCacheGeneration := Suc (profileCacheGeneration s),
      profileRequests := delete_key n (profileRequests s)\<rparr>
    in if normal_name old \<noteq> [] \<and> normal_name old \<noteq> n then s\<lparr>profileCache := delete_key (normal_name old) (profileCache s)\<rparr> else s)"
  have u: "u = s\<lparr>profileCacheGeneration := Suc (profileCacheGeneration s), profileRequests := delete_key n (profileRequests s),
      profileCache := filter (\<lambda>e. normal_name old \<noteq> [] \<and> normal_name old \<noteq> n \<longrightarrow> fst e \<noteq> normal_name old) (profileCache s)\<rparr>"
    by (cases "normal_name old \<noteq> [] \<and> normal_name old \<noteq> n") (auto simp: u_def delete_key_def Let_def)
  have "cache_ok u" using inv u by (auto simp: profiles_inv_def intro: cache_ok_delete)
  then have "cache_ok (cacheUserProfile clock None n p u)" by (rule cacheUserProfile_ok) (simp add: since_def)
  moreover have "requests_ok (cacheUserProfile clock None n p u)"
    using inv by (auto simp: profiles_inv_def requests_ok_def list_all_iff u)
  moreover have "lookups_ok (cacheUserProfile clock None n p u)"
    using inv unfolding profiles_inv_def lookups_ok_def pending_lookups_def by (simp add: u)
  moreover have "syncUserProfile clock p old s = cacheUserProfile clock None n p u"
    using False by (simp add: syncUserProfile_def u_def n_def Let_def)
  ultimately show ?thesis by (simp add: profiles_inv_def)
qed (use inv in \<open>simp add: syncUserProfile_def\<close>)

lemma profiles_step_inv: "profiles_inv s \<Longrightarrow> profiles_step e s = Some t \<Longrightarrow> profiles_inv t"
  by (cases e) (auto simp: getUserProfile_inv flush_inv batch_answered_inv invalidation_inv syncUserProfile_inv
      find_Some_iff intro!: direct_inv split: if_splits option.splits)

inductive profiles_reachable :: "profiles \<Rightarrow> bool" where
  Start: "profiles_reachable profiles_start"
| Step: "profiles_reachable s \<Longrightarrow> profiles_step e s = Some t \<Longrightarrow> profiles_reachable t"

lemma profiles_reachable_inv: "profiles_reachable s \<Longrightarrow> profiles_inv s"
proof (induction rule: profiles_reachable.induct)
  case Start
  show ?case by (simp add: profiles_inv_def cache_ok_def requests_ok_def lookups_ok_def profiles_start_def pending_lookups_def
        PROFILE_CACHE_MAX_ENTRIES_def)
qed (rule profiles_step_inv)

section \<open>Properties\<close>

text \<open>
  C20: The cache never holds more than 256 profiles, at most one per name, and after the account changed
  only profiles that were published since or asked for by a call made since: an answer to a call of the previous account
  is delivered to its caller and not stored.
\<close>

theorem profile_cache_bounded:
  assumes "profiles_reachable s"
  shows "length (profileCache s) \<le> 256 \<and> distinct (map fst (profileCache s)) \<and>
    (\<forall>e \<in> set (profileCache s). \<forall>i. entry_origin (snd e) = Some i \<longrightarrow> cleared_at s \<le> i)"
  using profiles_reachable_inv [OF assms]
  by (auto simp: profiles_inv_def cache_ok_def PROFILE_CACHE_MAX_ENTRIES_def list_all_iff since_def)

definition ann :: profile where "ann = \<lparr>profile_username = ''ann'', nickname = ''Ann''\<rparr>"
definition ann_new :: profile where "ann_new = \<lparr>profile_username = ''ann'', nickname = ''Anna''\<rparr>"

definition two_lookups :: "profiles_event list" where
  "two_lookups = [Asked 0 ''Ann '' False, Flushed, ClearedProfiles, Asked 5 ''ann'' False, Flushed,
     BatchAnswered 6 0 (Some [ann]), BatchAnswered 7 0 (Some [ann_new])]"

fun profiles_run :: "profiles_event list \<Rightarrow> profiles \<Rightarrow> profiles option" where
  "profiles_run [] s = Some s"
| "profiles_run (e # es) s = (case profiles_step e s of Some t \<Rightarrow> profiles_run es t | None \<Rightarrow> None)"

lemma profiles_run_reachable: "profiles_reachable s \<Longrightarrow> profiles_run es s = Some t \<Longrightarrow> profiles_reachable t"
  by (induction es arbitrary: s) (auto split: option.splits intro: profiles_reachable.Step)

lemma two_lookups_run:
  "case profiles_run two_lookups profiles_start of None \<Rightarrow> False | Some s \<Rightarrow>
    map (\<lambda>e. (fst e, nickname (entry_profile (snd e)), entry_origin (snd e))) (profileCache s) = [(''ann'', ''Anna'', Some 1)] \<and>
    cleared_at s = 1 \<and> next_lookup s = 2 \<and> settled_lookups s = [0, 1]"
  unfolding two_lookups_def by code_simp

theorem profile_cache_bounded_witness:
  "\<exists>s. profiles_run two_lookups profiles_start = Some s \<and> length (profileCache s) \<le> 256 \<and> profileCache s \<noteq> [] \<and> cleared_at s = 1"
proof -
  obtain s where run: "profiles_run two_lookups profiles_start = Some s" and one: "profileCache s \<noteq> []" "cleared_at s = 1"
    using two_lookups_run by (auto split: option.splits)
  from profile_cache_bounded [OF profiles_run_reachable [OF profiles_reachable.Start run]] run one show ?thesis by blast
qed

text \<open>
  C21: No profile lookup is lost: every lookup ever queued has either been answered, once, or is in the
  queue or in exactly one batch of a running flush, the batches have between 1 and 50 names, a call still running waits for a
  lookup not answered yet, and as long as there is one the next flush or the next answer of the server can happen.
\<close>

theorem lookups_answered_once:
  assumes "profiles_reachable s"
  shows "set (pending_lookups s) \<inter> set (settled_lookups s) = {} \<and> distinct (settled_lookups s) \<and> distinct (pending_lookups s) \<and>
    (\<forall>l < next_lookup s. l \<in> set (pending_lookups s) \<or> l \<in> set (settled_lookups s)) \<and>
    (\<forall>f \<in> set (flushes s). \<forall>b \<in> set f. 0 < length b \<and> length b \<le> 50) \<and>
    (\<forall>r \<in> set (cache_requests s). \<forall>l. rq_waits r = Lookup l \<longrightarrow> l \<in> set (pending_lookups s)) \<and>
    (pending_lookups s \<noteq> [] \<longrightarrow> (\<exists>e t. e \<in> {Flushed, BatchAnswered 0 0 None} \<and> profiles_step e s = Some t))"
proof -
  have ok: "lookups_ok s" using profiles_reachable_inv [OF assms] by (simp add: profiles_inv_def)
  have all: "set (pending_lookups s @ settled_lookups s) = {..<next_lookup s}" using ok unfolding lookups_ok_def by blast
  have "\<exists>e t. e \<in> {Flushed, BatchAnswered 0 0 None} \<and> profiles_step e s = Some t" if "pending_lookups s \<noteq> []"
  proof (cases "profileBatchQueue s = []")
    case True
    with that have "flushes s \<noteq> []" by (auto simp: pending_lookups_def)
    then show ?thesis by auto
  next
    case False
    with ok have "profileBatchScheduled s" by (simp add: lookups_ok_def)
    then show ?thesis by auto
  qed
  moreover have "l \<in> set (pending_lookups s) \<or> l \<in> set (settled_lookups s)" if "l < next_lookup s" for l
    using that all by auto
  moreover have "l \<in> set (pending_lookups s)" if "r \<in> set (cache_requests s)" "rq_waits r = Lookup l" for r l
    using ok that by (auto simp: lookups_ok_def list_all_iff waits_in_def split: waits_for.splits)
  moreover have "0 < length b \<and> length b \<le> 50" if "f \<in> set (flushes s)" "b \<in> set f" for f b
    using ok that by (auto simp: lookups_ok_def list_all_iff BATCH_SIZE_def)
  moreover have "distinct (pending_lookups s @ settled_lookups s)" using ok by (simp add: lookups_ok_def)
  ultimately show ?thesis by simp
qed

theorem lookups_answered_once_witness:
  "\<exists>s. profiles_run two_lookups profiles_start = Some s \<and> settled_lookups s = [0, 1] \<and> distinct (settled_lookups s)"
proof -
  obtain s where run: "profiles_run two_lookups profiles_start = Some s" and two: "settled_lookups s = [0, 1]"
    using two_lookups_run by (auto split: option.splits)
  from lookups_answered_once [OF profiles_run_reachable [OF profiles_reachable.Start run]] run two show ?thesis by blast
qed

text \<open>
  A cached profile is given out only before it expires, and a name with a cached profile that has expired is asked for again.
\<close>

theorem expired_profiles_asked_again:
  assumes "map_of (profileCache s) (normal_name name) = Some e" and "normal_name name \<noteq> []"
  shows "(fst (getUserProfile clock name False s) = Cached (entry_profile e) \<longleftrightarrow> clock < expiresAt e) \<and>
    (\<not> clock < expiresAt e \<longrightarrow> (\<exists>i. fst (getUserProfile clock name False s) = Waiting i))"
  using assms by (auto simp: getUserProfile_def start_request_def Let_def split: option.splits prod.splits)

text \<open>
  The generation tells accounts and published profiles apart, not the order of two requests: when a profile is fetched twice,
  the answer that arrives last is kept, also when it is the older one.
\<close>

definition crossed_answers :: "profiles_event list" where
  "crossed_answers = [Asked 0 ''ann'' False, Flushed, Asked 1 ''ann'' True, DirectAnswered 2 1 (Some ann_new),
     BatchAnswered 3 0 (Some [ann])]"

theorem older_answer_replaces_newer:
  "map_option (\<lambda>s. map (\<lambda>e. nickname (entry_profile (snd e))) (profileCache s)) (profiles_run (take 4 crossed_answers) profiles_start)
     = Some [''Anna''] \<and>
   map_option (\<lambda>s. map (\<lambda>e. nickname (entry_profile (snd e))) (profileCache s)) (profiles_run crossed_answers profiles_start)
     = Some [''Ann'']"
  unfolding crossed_answers_def by code_simp

end
