(* ===== verification/File_List.thy ===== *)
theory File_List
  imports Machine "HOL-Library.Multiset"
begin

text \<open>
  The list of files of the repository browser (\<open>browser.js\<close>): building it anew, and bringing it up to date in place
  with items that fade in and out (\<open>renderFileListReconciled\<close>, \<open>insertAtVisibleIndex\<close>). A list item is an element with an
  identity of its own, the file it was made for, the signature mark and the class of an item fading out; the animations
  themselves are left out. The names of files are not empty.
\<close>

section \<open>Elements\<close>

datatype entry_type = FILE | DIRECTORY

record file_entry =
  file_name :: string
  entry_kind :: entry_type
  content_length :: "nat option"
  signed_file :: bool

text \<open>\<open>item_node\<close> tells the elements apart; \<open>item_entry\<close> is what the item was built from.\<close>

record list_item =
  item_node :: nat
  item_entry :: file_entry
  item_signed :: bool
  is_removing :: bool
  item_index :: nat

abbreviation item_name :: "list_item \<Rightarrow> string" where "item_name li \<equiv> file_name (item_entry li)"

definition visible_items :: "list_item list \<Rightarrow> list_item list" where
  "visible_items list = filter (\<lambda>c. \<not> is_removing c) list"

text \<open>The node is fresh, the item fades in.\<close>

definition createFileItemElement :: "nat \<Rightarrow> file_entry \<Rightarrow> nat \<Rightarrow> list_item" where
  "createFileItemElement node f index =
     \<lparr>item_node = node, item_entry = f, item_signed = signed_file f, is_removing = False, item_index = index\<rparr>"

text \<open>\<open>insertBefore\<close> an element of the list: a node that is in the list already moves.\<close>

definition insert_before :: "list_item \<Rightarrow> nat \<Rightarrow> list_item list \<Rightarrow> list_item list" where
  "insert_before x ref list = takeWhile (\<lambda>c. item_node c \<noteq> ref) list @ x # dropWhile (\<lambda>c. item_node c \<noteq> ref) list"

definition without_node :: "nat \<Rightarrow> list_item list \<Rightarrow> list_item list" where
  "without_node n list = filter (\<lambda>c. item_node c \<noteq> n) list"

definition insertAtVisibleIndex :: "list_item list \<Rightarrow> list_item \<Rightarrow> nat \<Rightarrow> list_item list" where
  "insertAtVisibleIndex list x visibleIndex =
     (let others = without_node (item_node x) list; visible = visible_items others in
      if visibleIndex < length visible then insert_before x (item_node (visible ! visibleIndex)) others
      else case find is_removing others of
        Some firstRemoving \<Rightarrow> insert_before x (item_node firstRemoving) others
      | None \<Rightarrow> others @ [x])"

section \<open>Bringing the list up to date\<close>

text \<open>The element a name stands for: the last one with the name.\<close>

definition existing_item :: "list_item list \<Rightarrow> string \<Rightarrow> list_item option" where
  "existing_item list name = find (\<lambda>li. item_name li = name) (rev list)"

text \<open>The items whose names are not in the new listing start to fade out.\<close>

definition mark_removed :: "file_entry list \<Rightarrow> list_item list \<Rightarrow> list_item list" where
  "mark_removed files list =
     map (\<lambda>li. if item_name li \<notin> file_name ` set files \<and>
                  (case existing_item list (item_name li) of Some e \<Rightarrow> item_node e = item_node li | None \<Rightarrow> False)
               then li\<lparr>is_removing := True\<rparr> else li) list"

definition place_file :: "(string \<Rightarrow> list_item option) \<Rightarrow> file_entry \<Rightarrow> nat \<Rightarrow> nat \<times> list_item list \<Rightarrow> nat \<times> list_item list" where
  "place_file existing f index s =
     (case s of (next_id, list) \<Rightarrow>
        (case existing (file_name f) of
           Some li \<Rightarrow>
             if is_removing li
             then (Suc next_id, insertAtVisibleIndex list (createFileItemElement next_id f index) index)
             else (next_id, insertAtVisibleIndex list (li\<lparr>item_index := index, item_signed := signed_file f\<rparr>) index)
         | None \<Rightarrow> (Suc next_id, insertAtVisibleIndex list (createFileItemElement next_id f index) index)))"

fun place_files :: "(string \<Rightarrow> list_item option) \<Rightarrow> file_entry list \<Rightarrow> nat \<Rightarrow> nat \<times> list_item list \<Rightarrow> nat \<times> list_item list" where
  "place_files existing [] index s = s"
| "place_files existing (f # fs) index s = place_files existing fs (Suc index) (place_file existing f index s)"

definition renderFileListReconciled :: "file_entry list \<Rightarrow> nat \<times> list_item list \<Rightarrow> nat \<times> list_item list" where
  "renderFileListReconciled files s =
     place_files (existing_item (snd s)) files 0 (fst s, mark_removed files (snd s))"

text \<open>The list built anew, in the order of the listing.\<close>

definition fill_list :: "file_entry list \<Rightarrow> nat \<Rightarrow> nat \<times> list_item list" where
  "fill_list files next_id =
     (next_id + length files, map (\<lambda>(i, f). createFileItemElement (next_id + i) f i) (List.enumerate 0 files))"

text \<open>The end of the animation, or its timer: the element is taken out.\<close>

definition item_removed :: "nat \<Rightarrow> nat \<times> list_item list \<Rightarrow> nat \<times> list_item list" where
  "item_removed node s =
     (fst s, filter (\<lambda>li. \<not> (item_node li = node \<and> is_removing li)) (snd s))"

text \<open>A deleted file: its item fades out; the list is empty when no other item is left.\<close>

definition removeFileItemAnimated :: "nat \<Rightarrow> nat \<times> list_item list \<Rightarrow> nat \<times> list_item list" where
  "removeFileItemAnimated node s = (fst s, map (\<lambda>li. if item_node li = node then li\<lparr>is_removing := True\<rparr> else li) (snd s))"

section \<open>Positions\<close>

definition names :: "list_item list \<Rightarrow> string list" where "names list = map item_name (visible_items list)"

definition nodes_ok :: "nat \<times> list_item list \<Rightarrow> bool" where
  "nodes_ok s \<longleftrightarrow> distinct (map item_node (snd s)) \<and> (\<forall>li \<in> set (snd s). item_node li < fst s)"

text \<open>The items fading out come after the others.\<close>

definition trailing :: "list_item list \<Rightarrow> bool" where
  "trailing list \<longleftrightarrow> (\<exists>vs rs. list = vs @ rs \<and> (\<forall>v \<in> set vs. \<not> is_removing v) \<and> (\<forall>r \<in> set rs. is_removing r))"

lemma split_at_node:
  assumes "distinct (map item_node list)" and "list = a @ y # b"
  shows "takeWhile (\<lambda>c. item_node c \<noteq> item_node y) list = a \<and> dropWhile (\<lambda>c. item_node c \<noteq> item_node y) list = y # b"
proof -
  have "item_node y \<notin> item_node ` set a" using assms by auto
  then have "\<forall>c \<in> set a. item_node c \<noteq> item_node y" by (metis imageI)
  then show ?thesis using assms(2) by (simp add: takeWhile_append2 dropWhile_append2)
qed

lemma insert_before_set:
  "set (insert_before x ref list) = insert x (set list)"
proof -
  have "set list = set (takeWhile (\<lambda>c. item_node c \<noteq> ref) list) \<union> set (dropWhile (\<lambda>c. item_node c \<noteq> ref) list)"
    by (metis set_append takeWhile_dropWhile_id)
  then show ?thesis by (auto simp: insert_before_def)
qed

lemma insert_before_nodes:
  "distinct (map item_node list) \<Longrightarrow> item_node x \<notin> item_node ` set list \<Longrightarrow> distinct (map item_node (insert_before x ref list))"
proof -
  assume d: "distinct (map item_node list)" and x: "item_node x \<notin> item_node ` set list"
  define a where "a = takeWhile (\<lambda>c. item_node c \<noteq> ref) list"
  define b where "b = dropWhile (\<lambda>c. item_node c \<noteq> ref) list"
  have "list = a @ b" by (simp add: a_def b_def)
  with d x have "distinct (map item_node (a @ x # b))" by auto
  then show "distinct (map item_node (insert_before x ref list))" by (simp add: insert_before_def a_def b_def)
qed

lemma without_node_facts:
  "set (without_node n list) = {c \<in> set list. item_node c \<noteq> n}"
  "distinct (map item_node list) \<Longrightarrow> distinct (map item_node (without_node n list))"
  "trailing list \<Longrightarrow> trailing (without_node n list)"
proof -
  show "trailing list \<Longrightarrow> trailing (without_node n list)"
    by (fastforce simp: trailing_def without_node_def)
qed (auto simp: without_node_def distinct_map_filter)

lemma insertAtVisibleIndex_set:
  "set (insertAtVisibleIndex list x i) = insert x {c \<in> set list. item_node c \<noteq> item_node x}"
  by (auto simp: insertAtVisibleIndex_def Let_def insert_before_set without_node_facts split: option.splits)

lemma insertAtVisibleIndex_nodes:
  "distinct (map item_node list) \<Longrightarrow> distinct (map item_node (insertAtVisibleIndex list x i))"
  unfolding insertAtVisibleIndex_def Let_def
  by (auto simp: without_node_facts intro!: insert_before_nodes split: option.splits)

lemma visible_append [simp]: "visible_items (xs @ ys) = visible_items xs @ visible_items ys"
  and visible_Cons [simp]: "visible_items (x # xs) = (if is_removing x then visible_items xs else x # visible_items xs)"
  and visible_Nil [simp]: "visible_items [] = []"
  by (simp_all add: visible_items_def)

lemma find_skip: "\<forall>v \<in> set vs. \<not> P v \<Longrightarrow> find P (vs @ xs) = find P xs"
  by (induction vs) auto

lemma insert_trailing:
  assumes d: "distinct (map item_node list)" and t: "trailing list" and x: "\<not> is_removing x"
  defines "V \<equiv> visible_items (without_node (item_node x) list)"
  assumes i: "i \<le> length V"
  shows "visible_items (insertAtVisibleIndex list x i) = take i V @ x # drop i V \<and> trailing (insertAtVisibleIndex list x i)"
proof -
  let ?o = "without_node (item_node x) list"
  obtain vs rs where o: "?o = vs @ rs" and vs: "\<forall>v \<in> set vs. \<not> is_removing v" and rs: "\<forall>r \<in> set rs. is_removing r"
    using without_node_facts(3) [OF t, of "item_node x"] unfolding trailing_def by blast
  have V: "V = vs" and vo: "visible_items ?o = vs" and vv: "visible_items vs = vs"
    using o vs rs by (auto simp: V_def visible_items_def)
  have do: "distinct (map item_node ?o)" by (rule without_node_facts(2) [OF d])
  have "\<exists>a b. insertAtVisibleIndex list x i = a @ x # b @ rs \<and> a = take i vs \<and> b = drop i vs"
  proof (cases "i < length vs")
    case True
    then have "?o = take i vs @ vs ! i # (drop (Suc i) vs @ rs)" using o by (simp add: id_take_nth_drop [symmetric])
    from split_at_node [OF do this] True show ?thesis
      by (simp add: insertAtVisibleIndex_def Let_def V_def [symmetric] V insert_before_def Cons_nth_drop_Suc)
  next
    case False
    then have i: "i = length vs" using i V by simp
    show ?thesis
    proof (cases rs)
      case Nil
      then have "find is_removing ?o = None" using o vs by (auto simp: find_None_iff)
      with Nil i o show ?thesis by (simp add: insertAtVisibleIndex_def Let_def vv)
    next
      case (Cons r rs')
      have "find is_removing ?o = Some r" using o vs rs Cons by (simp add: find_skip)
      moreover have "?o = vs @ r # rs'" using o Cons by simp
      note split_at_node [OF do this]
      ultimately show ?thesis using i Cons by (simp add: insertAtVisibleIndex_def Let_def V_def [symmetric] V insert_before_def)
    qed
  qed
  then have e: "insertAtVisibleIndex list x i = (take i vs @ x # drop i vs) @ rs" by auto
  have all: "visible_items zs = zs" if "set zs \<subseteq> insert x (set vs)" for zs
    unfolding visible_items_def by (rule filter_True) (use that vs x in auto)
  have "set (take i vs @ x # drop i vs) \<subseteq> insert x (set vs)" by (auto dest: in_set_takeD in_set_dropD)
  then have W: "visible_items (take i vs @ x # drop i vs) = take i vs @ x # drop i vs" by (rule all)
  moreover have "visible_items rs = []" using rs by (auto simp: visible_items_def)
  moreover have "trailing (insertAtVisibleIndex list x i)"
    unfolding e trailing_def using vs rs x
    by (intro exI [of _ "take i vs @ x # drop i vs"] exI [of _ rs] conjI) (auto dest: in_set_takeD in_set_dropD)
  ultimately show ?thesis unfolding e V visible_append [of _ rs] W by simp
qed

section \<open>The list shows the listing\<close>

text \<open>A visible item is the element its name stands for.\<close>

definition list_ok :: "nat \<times> list_item list \<Rightarrow> bool" where
  "list_ok s \<longleftrightarrow> nodes_ok s \<and> (\<forall>li \<in> set (snd s). \<not> is_removing li \<longrightarrow> existing_item (snd s) (item_name li) = Some li)"

definition alive :: "(string \<Rightarrow> list_item option) \<Rightarrow> string \<Rightarrow> list_item option" where
  "alive E n = (case E n of Some li \<Rightarrow> if is_removing li then None else Some li | None \<Rightarrow> None)"

definition placed_as :: "list_item \<Rightarrow> string \<times> bool \<times> nat" where
  "placed_as li = (item_name li, item_signed li, item_index li)"

lemma place_file_alive:
  "place_file E f i (n, L) =
     (case alive E (file_name f) of
        Some li \<Rightarrow> (n, insertAtVisibleIndex L (li\<lparr>item_index := i, item_signed := signed_file f\<rparr>) i)
      | None \<Rightarrow> (Suc n, insertAtVisibleIndex L (createFileItemElement n f i) i))"
  by (simp add: place_file_def alive_def split: option.splits)

text \<open>What holds of the items not placed yet: they are the elements of the names to come.\<close>

definition waiting_ok :: "(string \<Rightarrow> list_item option) \<Rightarrow> file_entry list \<Rightarrow> list_item list \<Rightarrow> bool" where
  "waiting_ok E rest Q \<longleftrightarrow>
     (\<forall>q \<in> set Q. item_name q \<in> file_name ` set rest \<and> (\<exists>e. alive E (item_name q) = Some e \<and> item_node e = item_node q)) \<and>
     (\<forall>f \<in> set rest. \<forall>e. alive E (file_name f) = Some e \<longrightarrow> item_node e \<in> item_node ` set Q \<and> item_name e = file_name f)"

definition elements_apart :: "(string \<Rightarrow> list_item option) \<Rightarrow> bool" where
  "elements_apart E \<longleftrightarrow>
     (\<forall>g h e e'. alive E g = Some e \<longrightarrow> alive E h = Some e' \<longrightarrow> item_node e = item_node e' \<longrightarrow> g = h)"

lemma waiting_ok_old:
  assumes "waiting_ok E (f # rest) Q" and "alive E (file_name f) = Some li" and "distinct (map file_name (f # rest))"
    and "\<forall>g \<in> set rest. \<forall>e. alive E (file_name g) = Some e \<longrightarrow> item_node e \<noteq> item_node li"
  shows "waiting_ok E rest (without_node (item_node li) Q)"
proof -
  have "item_name q \<in> file_name ` set rest \<and> (\<exists>e. alive E (item_name q) = Some e \<and> item_node e = item_node q)"
    if "q \<in> set Q" "item_node q \<noteq> item_node li" for q
  proof -
    have q: "item_name q \<in> file_name ` set (f # rest)" "\<exists>e. alive E (item_name q) = Some e \<and> item_node e = item_node q"
      using assms(1) that(1) by (auto simp: waiting_ok_def)
    with that(2) assms(2) have "item_name q \<noteq> file_name f" by auto
    with q show ?thesis by auto
  qed
  moreover have "item_node e \<in> item_node ` {c \<in> set Q. item_node c \<noteq> item_node li} \<and> item_name e = file_name g"
    if "g \<in> set rest" "alive E (file_name g) = Some e" for g e
  proof -
    have "item_node e \<in> item_node ` set Q" "item_name e = file_name g" using assms(1) that by (auto simp: waiting_ok_def)
    moreover have "item_node e \<noteq> item_node li" using assms(4) that by blast
    ultimately show ?thesis by auto
  qed
  ultimately show ?thesis by (simp add: waiting_ok_def without_node_facts(1))
qed

lemma waiting_ok_new:
  assumes "waiting_ok E (f # rest) Q" and "alive E (file_name f) = None"
  shows "waiting_ok E rest Q"
  using assms unfolding waiting_ok_def by fastforce

lemma without_node_absent: "n \<notin> item_node ` set Q \<Longrightarrow> without_node n Q = Q"
  by (auto simp: without_node_def filter_id_conv)

lemma without_node_append [simp]: "without_node n (P @ Q) = without_node n P @ without_node n Q"
  by (simp add: without_node_def)

lemma visible_without: "visible_items (without_node n L) = without_node n (visible_items L)"
  by (simp add: visible_items_def without_node_def conj_commute)

text \<open>One file placed: the item used for it, and what is left to be placed.\<close>

lemma place_choice:
  assumes ok: "nodes_ok (n, L)" and sub: "set (P @ Q) \<subseteq> set L" and dPQ: "distinct (map item_node (P @ Q))"
    and w: "waiting_ok E (f # rest) Q" and d: "distinct (map file_name (f # rest))" and sep: "elements_apart E"
  shows "\<exists>n' x. place_file E f i (n, L) = (n', insertAtVisibleIndex L x i) \<and> nodes_ok (n', insertAtVisibleIndex L x i) \<and>
    \<not> is_removing x \<and> placed_as x = (file_name f, signed_file f, i) \<and> item_node x \<notin> item_node ` set P \<and>
    waiting_ok E rest (without_node (item_node x) Q)"
proof -
  have dn: "distinct (map item_node L)" and lt: "\<And>c. c \<in> set L \<Longrightarrow> item_node c < n" using ok by (auto simp: nodes_ok_def)
  show ?thesis
  proof (cases "alive E (file_name f)")
    case (Some li)
    let ?x = "li\<lparr>item_index := i, item_signed := signed_file f\<rparr>"
    have nq: "item_node li \<in> item_node ` set Q" "item_name li = file_name f" and r: "\<not> is_removing ?x"
      using w Some by (auto simp: waiting_ok_def alive_def split: option.splits if_splits)
    with dPQ have np: "item_node ?x \<notin> item_node ` set P" by auto
    have wq: "waiting_ok E rest (without_node (item_node ?x) Q)"
    proof (simp, rule waiting_ok_old [OF w Some d], intro ballI allI impI)
      fix g e
      assume "g \<in> set rest" and "alive E (file_name g) = Some e"
      then show "item_node e \<noteq> item_node li"
        using sep Some d unfolding elements_apart_def by (metis distinct.simps(2) image_eqI list.map(2) list.set_map)
    qed
    have "nodes_ok (n, insertAtVisibleIndex L ?x i)"
      using insertAtVisibleIndex_nodes [OF dn] lt nq(1) sub by (auto simp: nodes_ok_def insertAtVisibleIndex_set)
    then show ?thesis using Some wq nq(2) r np
      by (intro exI [of _ n] exI [of _ ?x]) (simp add: place_file_alive placed_as_def)
  next
    case None
    let ?x = "createFileItemElement n f i"
    have x: "item_node ?x \<notin> item_node ` set L" using lt by (fastforce simp: createFileItemElement_def)
    with sub have "item_node ?x \<notin> item_node ` set P" "item_node ?x \<notin> item_node ` set Q" by auto
    moreover have "nodes_ok (Suc n, insertAtVisibleIndex L ?x i)"
      using insertAtVisibleIndex_nodes [OF dn] lt by (fastforce simp: nodes_ok_def insertAtVisibleIndex_set createFileItemElement_def)
    ultimately show ?thesis using None waiting_ok_new [OF w None]
      by (intro exI [of _ "Suc n"] exI [of _ ?x])
        (simp add: place_file_alive placed_as_def without_node_absent, simp add: createFileItemElement_def)
  qed
qed

lemma place_step:
  assumes ok: "nodes_ok (n, L)" and t: "trailing L" and V: "visible_items L = P @ Q" and P: "length P = i"
    and w: "waiting_ok E (f # rest) Q" and d: "distinct (map file_name (f # rest))" and sep: "elements_apart E"
  shows "\<exists>n' L' x Q'. place_file E f i (n, L) = (n', L') \<and> nodes_ok (n', L') \<and> trailing L' \<and>
    visible_items L' = (P @ [x]) @ Q' \<and> placed_as x = (file_name f, signed_file f, i) \<and> waiting_ok E rest Q'"
proof -
  have dn: "distinct (map item_node L)" using ok by (simp add: nodes_ok_def)
  have sub: "set (P @ Q) \<subseteq> set L" using V by (metis filter_is_subset visible_items_def)
  have dPQ: "distinct (map item_node (P @ Q))" using dn V by (metis distinct_map_filter visible_items_def)
  obtain n' x where x: "place_file E f i (n, L) = (n', insertAtVisibleIndex L x i)" "nodes_ok (n', insertAtVisibleIndex L x i)"
    "\<not> is_removing x" "placed_as x = (file_name f, signed_file f, i)" "item_node x \<notin> item_node ` set P"
    "waiting_ok E rest (without_node (item_node x) Q)"
    using place_choice [OF ok sub dPQ w d sep] by blast
  have "visible_items (without_node (item_node x) L) = P @ without_node (item_node x) Q"
    using V x(5) by (simp add: visible_without without_node_absent)
  with insert_trailing [OF dn t x(3), of i] P
  have "visible_items (insertAtVisibleIndex L x i) = (P @ [x]) @ without_node (item_node x) Q \<and> trailing (insertAtVisibleIndex L x i)"
    by simp
  with x show ?thesis by blast
qed

lemma place_step_set:
  assumes ok: "nodes_ok (n, L)" and V: "set (visible_items L) = set (P @ Q)" and dPQ: "distinct (map item_node (P @ Q))"
    and w: "waiting_ok E (f # rest) Q" and d: "distinct (map file_name (f # rest))" and sep: "elements_apart E"
  shows "\<exists>n' L' x Q'. place_file E f i (n, L) = (n', L') \<and> nodes_ok (n', L') \<and>
    set (visible_items L') = set ((P @ [x]) @ Q') \<and> distinct (map item_node ((P @ [x]) @ Q')) \<and>
    placed_as x = (file_name f, signed_file f, i) \<and> waiting_ok E rest Q'"
proof -
  have sub: "set (P @ Q) \<subseteq> set L" using V by (auto simp: visible_items_def)
  obtain n' x where x: "place_file E f i (n, L) = (n', insertAtVisibleIndex L x i)" "nodes_ok (n', insertAtVisibleIndex L x i)"
    "\<not> is_removing x" "placed_as x = (file_name f, signed_file f, i)" "item_node x \<notin> item_node ` set P"
    "waiting_ok E rest (without_node (item_node x) Q)"
    using place_choice [OF ok sub dPQ w d sep] by blast
  let ?Q = "without_node (item_node x) Q"
  have "set (visible_items (insertAtVisibleIndex L x i)) = insert x {c \<in> set (visible_items L). item_node c \<noteq> item_node x}"
    using x(3) by (auto simp: visible_items_def insertAtVisibleIndex_set)
  also have "\<dots> = set ((P @ [x]) @ ?Q)" using x(5) unfolding V by (auto simp: without_node_facts(1) image_iff)
  finally have "set (visible_items (insertAtVisibleIndex L x i)) = set ((P @ [x]) @ ?Q)" .
  moreover have "distinct (map item_node ((P @ [x]) @ ?Q))"
    using dPQ x(5) without_node_facts(2) [of Q] by (auto simp: without_node_facts(1))
  ultimately show ?thesis using x by blast
qed

lemma place_all:
  assumes "nodes_ok (n, L)" and "trailing L" and "visible_items L = P @ Q" and "length P = i"
    and "waiting_ok E fs Q" and "distinct (map file_name fs)"
    and sep: "elements_apart E"
  shows "map placed_as (visible_items (snd (place_files E fs i (n, L)))) =
    map placed_as P @ map (\<lambda>(j, f). (file_name f, signed_file f, j)) (List.enumerate i fs)"
  using assms(1-6)
proof (induction fs arbitrary: n L P Q i)
  case Nil
  then have "Q = []" by (cases Q) (auto simp: waiting_ok_def)
  with Nil show ?case by simp
next
  case (Cons f fs)
  obtain n' L' x Q' where step: "place_file E f i (n, L) = (n', L')" "nodes_ok (n', L')" "trailing L'"
    "visible_items L' = (P @ [x]) @ Q'" "placed_as x = (file_name f, signed_file f, i)" "waiting_ok E fs Q'"
    using place_step [OF Cons.prems sep] by blast
  have "map placed_as (visible_items (snd (place_files E fs (Suc i) (n', L')))) =
      map placed_as (P @ [x]) @ map (\<lambda>(j, f). (file_name f, signed_file f, j)) (List.enumerate (Suc i) fs)"
    using Cons.prems(4,6) by (intro Cons.IH [where Q = Q'] step(2-4,6)) simp_all
  with step(1,5) show ?case by simp
qed

lemma existing_item_facts:
  assumes "existing_item list n = Some e"
  shows "e \<in> set list" and "item_name e = n"
proof -
  have "e \<in> set (rev list) \<and> item_name e = n" using assms unfolding existing_item_def find_Some_iff by (metis nth_mem)
  then show "e \<in> set list" "item_name e = n" by simp_all
qed

lemma existing_item_None: "existing_item list n = None \<longleftrightarrow> (\<forall>li \<in> set list. item_name li \<noteq> n)"
  by (auto simp: existing_item_def find_None_iff)

lemma mark_removed_facts:
  assumes "list_ok (n, list)"
  shows "nodes_ok (n, mark_removed files list)"
    and "visible_items (mark_removed files list) = filter (\<lambda>li. item_name li \<in> file_name ` set files) (visible_items list)"
proof -
  have "map item_node (mark_removed files list) = map item_node list" by (simp add: mark_removed_def)
  moreover have "item_node ` set (mark_removed files list) = item_node ` set list"
    using calculation by (metis list.set_map)
  ultimately show "nodes_ok (n, mark_removed files list)"
    using assms unfolding list_ok_def nodes_ok_def by (metis fst_conv snd_conv imageE imageI)
  have one: "(if item_name li \<notin> file_name ` set files \<and>
        (case existing_item list (item_name li) of Some e \<Rightarrow> item_node e = item_node li | None \<Rightarrow> False)
      then li\<lparr>is_removing := True\<rparr> else li) = (if item_name li \<in> file_name ` set files then li else li\<lparr>is_removing := True\<rparr>)"
    if "li \<in> set list" for li
    using assms that by (cases "is_removing li") (auto simp: list_ok_def)
  have "mark_removed files list =
      map (\<lambda>li. if item_name li \<in> file_name ` set files then li else li\<lparr>is_removing := True\<rparr>) list"
    unfolding mark_removed_def by (rule map_cong [OF refl one])
  moreover have marked: "filter (\<lambda>c. \<not> is_removing c) (map (\<lambda>li. if item_name li \<in> A then li else li\<lparr>is_removing := True\<rparr>) xs) =
      filter (\<lambda>li. item_name li \<in> A \<and> \<not> is_removing li) xs" for A xs
    by (induction xs) auto
  ultimately show "visible_items (mark_removed files list) = filter (\<lambda>li. item_name li \<in> file_name ` set files) (visible_items list)"
    using marked by (simp add: visible_items_def conj_commute)
qed

lemma elements_apart_existing:
  assumes "distinct (map item_node list)"
  shows "elements_apart (existing_item list)"
  unfolding elements_apart_def
proof (intro allI impI)
  fix g h e e'
  assume "alive (existing_item list) g = Some e" "alive (existing_item list) h = Some e'" "item_node e = item_node e'"
  then have "e \<in> set list" "item_name e = g" "e' \<in> set list" "item_name e' = h"
    using existing_item_facts by (auto simp: alive_def split: option.splits if_splits)
  moreover have "e = e'" using calculation \<open>item_node e = item_node e'\<close> assms by (auto simp: distinct_map dest: inj_onD)
  ultimately show "g = h" by simp
qed

lemma waiting_ok_start:
  assumes "list_ok (n, list)"
  shows "waiting_ok (existing_item list) files (visible_items (mark_removed files list))"
  unfolding waiting_ok_def mark_removed_facts(2) [OF assms]
proof (intro conjI ballI allI impI)
  fix q
  assume "q \<in> set (filter (\<lambda>li. item_name li \<in> file_name ` set files) (visible_items list))"
  then show "item_name q \<in> file_name ` set files" "\<exists>e. alive (existing_item list) (item_name q) = Some e \<and> item_node e = item_node q"
    using assms by (auto simp: list_ok_def alive_def visible_items_def)
next
  fix f e
  assume "f \<in> set files" and "alive (existing_item list) (file_name f) = Some e"
  then show "item_node e \<in> item_node ` set (filter (\<lambda>li. item_name li \<in> file_name ` set files) (visible_items list))"
    "item_name e = file_name f"
    using existing_item_facts [of list "file_name f" e] by (auto simp: alive_def visible_items_def split: option.splits if_splits)
qed

lemma place_all_set:
  assumes "nodes_ok (n, L)" and "set (visible_items L) = set (P @ Q)" and "distinct (map item_node (P @ Q))"
    and "waiting_ok E fs Q" and "distinct (map file_name fs)" and sep: "elements_apart E"
  shows "\<exists>R. set (visible_items (snd (place_files E fs i (n, L)))) = set R \<and> distinct R \<and>
    distinct (visible_items (snd (place_files E fs i (n, L)))) \<and>
    map placed_as R = map placed_as P @ map (\<lambda>(j, f). (file_name f, signed_file f, j)) (List.enumerate i fs)"
  using assms(1-5)
proof (induction fs arbitrary: n L P Q i)
  case Nil
  then have "Q = []" by (cases Q) (auto simp: waiting_ok_def)
  moreover have "distinct L" using Nil by (simp add: nodes_ok_def distinct_map)
  moreover have "distinct P" using Nil by (auto simp: distinct_map)
  ultimately show ?case using Nil by (intro exI [of _ P]) (simp add: visible_items_def)
next
  case (Cons f fs)
  obtain n' L' x Q' where step: "place_file E f i (n, L) = (n', L')" "nodes_ok (n', L')"
    "set (visible_items L') = set ((P @ [x]) @ Q')" "distinct (map item_node ((P @ [x]) @ Q'))"
    "placed_as x = (file_name f, signed_file f, i)" "waiting_ok E fs Q'"
    using place_step_set [OF Cons.prems sep] by blast
  from Cons.IH [OF step(2-4,6), of "Suc i"] Cons.prems(5) step(1,5) show ?case by simp
qed

text \<open>
  No file is missing and none is shown twice after the list is brought up to date, whatever fades out: the items shown are
  the files of the new listing, up to their order.
\<close>

lemma reconciled_list_complete:
  assumes "list_ok s" and "distinct (map file_name files)"
  shows "mset (map placed_as (visible_items (snd (renderFileListReconciled files s)))) =
    mset (map (\<lambda>(i, f). (file_name f, signed_file f, i)) (List.enumerate 0 files))"
proof -
  obtain n list where s: "s = (n, list)" by (cases s)
  let ?V = "visible_items (mark_removed files list)"
  have ok: "nodes_ok (n, mark_removed files list)" and w: "waiting_ok (existing_item list) files ?V"
    using mark_removed_facts(1) waiting_ok_start assms(1) s by auto
  have dV: "distinct (map item_node ?V)" using ok by (simp add: nodes_ok_def visible_items_def distinct_map_filter)
  have a: "elements_apart (existing_item list)"
    using assms(1) s by (auto simp: list_ok_def nodes_ok_def intro: elements_apart_existing)
  have e: "renderFileListReconciled files s = place_files (existing_item list) files 0 (n, mark_removed files list)"
    by (simp add: s renderFileListReconciled_def)
  have "\<exists>R. set (visible_items (snd (renderFileListReconciled files s))) = set R \<and> distinct R \<and>
      distinct (visible_items (snd (renderFileListReconciled files s))) \<and>
      map placed_as R = map (\<lambda>(i, f). (file_name f, signed_file f, i)) (List.enumerate 0 files)"
    unfolding e by (rule place_all_set [OF ok, of "[]" ?V, unfolded append_Nil list.map(1), OF refl dV w assms(2) a])
  then obtain R where same: "set (visible_items (snd (renderFileListReconciled files s))) = set R" "distinct R"
      "distinct (visible_items (snd (renderFileListReconciled files s)))"
    and R: "map placed_as R = map (\<lambda>(i, f). (file_name f, signed_file f, i)) (List.enumerate 0 files)" by blast
  from same have "mset (visible_items (snd (renderFileListReconciled files s))) = mset R"
    using set_eq_iff_mset_eq_distinct by blast
  then have "mset (map placed_as (visible_items (snd (renderFileListReconciled files s)))) = mset (map placed_as R)"
    unfolding mset_map by (rule arg_cong)
  then show ?thesis unfolding R .
qed

lemma reconciled_list_ordered:
  assumes "list_ok s" and "distinct (map file_name files)" and "trailing (mark_removed files (snd s))"
  shows "map placed_as (visible_items (snd (renderFileListReconciled files s))) =
    map (\<lambda>(i, f). (file_name f, signed_file f, i)) (List.enumerate 0 files)"
proof -
  obtain n list where s: "s = (n, list)" by (cases s)
  have "elements_apart (existing_item list)" using assms(1) s by (auto simp: list_ok_def nodes_ok_def intro: elements_apart_existing)
  from place_all [OF mark_removed_facts(1) assms(3) [unfolded s snd_conv] _ _ waiting_ok_start assms(2) this, of n "[]" 0] assms(1) s
  show ?thesis by (simp add: renderFileListReconciled_def)
qed

text \<open>
  C22: Bringing the list up to date shows the new listing, provided that before it every item shown is the last element with its
  name (so no item of the same name still fades out behind it; \<open>quick_refreshes_duplicate_item\<close> below shows that this is needed):
  then the items shown afterwards are exactly the files of the listing, each once, with the signature mark and the index of its
  file; and they are in the order of the listing as long as the items that fade out come after all others, in particular when
  none fades out.
\<close>

theorem reconciled_list_in_order:
  assumes "distinct (map item_node (snd s))" and "\<forall>li \<in> set (snd s). item_node li < fst s"
    and "\<forall>li \<in> set (snd s). \<not> is_removing li \<longrightarrow> find (\<lambda>x. item_name x = item_name li) (rev (snd s)) = Some li"
    and "distinct (map file_name files)"
  defines "shown \<equiv> map placed_as (visible_items (snd (renderFileListReconciled files s)))"
  defines "listing \<equiv> map (\<lambda>(i, f). (file_name f, signed_file f, i)) (List.enumerate 0 files)"
  shows "mset shown = mset listing \<and> (trailing (mark_removed files (snd s)) \<longrightarrow> shown = listing)"
proof -
  have "list_ok s" using assms(1-3) by (simp add: list_ok_def nodes_ok_def existing_item_def)
  then show ?thesis
    unfolding shown_def listing_def using reconciled_list_complete reconciled_list_ordered assms(4) by blast
qed

definition jar :: file_entry where
  "jar = \<lparr>file_name = ''a.jar'', entry_kind = FILE, content_length = Some 9, signed_file = False\<rparr>"
definition md5 :: file_entry where
  "md5 = \<lparr>file_name = ''a.jar.md5'', entry_kind = FILE, content_length = Some 32, signed_file = False\<rparr>"
definition pom :: file_entry where
  "pom = \<lparr>file_name = ''a.pom'', entry_kind = FILE, content_length = Some 5, signed_file = True\<rparr>"

theorem reconciled_list_in_order_witness:
  "map placed_as (visible_items (snd (renderFileListReconciled [md5, jar, pom] (fill_list [jar, md5] 0)))) =
     [(''a.jar.md5'', False, 0), (''a.jar'', False, 1), (''a.pom'', True, 2)]"
proof -
  define s where "s = fill_list [jar, md5] 0"
  have s: "s = (2, [createFileItemElement 0 jar 0, createFileItemElement 1 md5 1])" by (simp add: s_def fill_list_def)
  have "distinct (map item_node (snd s))" "\<forall>li \<in> set (snd s). item_node li < fst s"
    "\<forall>li \<in> set (snd s). \<not> is_removing li \<longrightarrow> find (\<lambda>x. item_name x = item_name li) (rev (snd s)) = Some li"
    by (simp_all add: s createFileItemElement_def jar_def md5_def)
  moreover have "distinct (map file_name [md5, jar, pom])" by (simp add: jar_def md5_def pom_def)
  moreover have "trailing (mark_removed [md5, jar, pom] (snd s))"
    unfolding trailing_def
    by (rule exI [of _ "snd s"], rule exI [of _ "[]"])
      (simp add: s mark_removed_def createFileItemElement_def jar_def md5_def pom_def)
  ultimately show ?thesis using reconciled_list_in_order [of s "[md5, jar, pom]"]
    by (simp add: s_def jar_def md5_def pom_def)
qed


text \<open>
  The order is lost when an item above another one fades out, and the element of a name is not the item shown when an
  item of the name still fades out behind it: then the next refresh shows the file twice. An item keeps the size it was built with.
\<close>

theorem removal_reorders_list:
  "names (snd (fill_list [jar, md5, pom] 0)) = [''a.jar'', ''a.jar.md5'', ''a.pom''] \<and>
   names (snd (renderFileListReconciled [jar, pom] (fill_list [jar, md5, pom] 0))) = [''a.pom'', ''a.jar'']"
  by code_simp

theorem quick_refreshes_duplicate_item:
  "names (snd ((renderFileListReconciled [jar, md5] ^^ 2) (renderFileListReconciled [jar] (fill_list [jar, md5] 0)))) =
     [''a.jar'', ''a.jar.md5'', ''a.jar.md5'']"
  by code_simp

theorem refresh_keeps_old_size:
  "map (\<lambda>li. content_length (item_entry li))
     (snd (renderFileListReconciled [jar\<lparr>content_length := Some 12\<rparr>] (fill_list [jar] 0))) = [Some 9]"
  by code_simp

end
