(* ===== verification/Upload_Queue.thy ===== *)
theory Upload_Queue
  imports Chunked_Upload Repository_Formats Machine "HOL-Library.Multiset"
begin

text \<open>
  The upload panel of the repository browser (\<open>browser/upload.js\<close>): the files waiting to be sent and their entries on
  the page, removing and clearing with their animations, the checks before an upload, the upload of a batch one file after
  the other, and which repository the panel belongs to. A \<open>File\<close> object is known by a number of its own. The transfer of one file
  (\<open>Chunked_Upload\<close>) and the answers of the server are events; heights, classes of animations and texts are left out.
\<close>

section \<open>Names and sizes\<close>

definition fileExt :: "string \<Rightarrow> string" where
  "fileExt name = (case last_index_of CHR ''.'' name of
     Some idx \<Rightarrow> if idx > 0 then to_lower (drop (idx + 1) name) else [] | None \<Rightarrow> [])"

definition isGPGProtectedFile :: "string \<Rightarrow> bool" where
  "isGPGProtectedFile name =
     (let lower = to_lower name in ends_with ''.jar'' lower \<or> ends_with ''.pom'' lower \<or> ends_with ''.module'' lower)"

definition isGPGDetachedSignature :: "string \<Rightarrow> bool" where
  "isGPGDetachedSignature name = (ends_with ''.asc'' name \<and> isGPGProtectedFile (take (length name - 4) name))"

record queued =
  qf_id :: nat
  qf_name :: string
  qf_size :: nat

definition calculatePendingRequiredSpace :: "queued list \<Rightarrow> nat" where
  "calculatePendingRequiredSpace files =
     sum_list (map (\<lambda>f. qf_size f * (if ends_with ''-javadoc.jar'' (to_lower (qf_name f)) then 4 else 2) + 1024 * 1024) files)"

text \<open>The answer of \<open>/api/status/instance\<close>: the bytes used and in total, or nothing usable.\<close>

definition insufficient_space :: "(int \<times> int) option \<Rightarrow> queued list \<Rightarrow> bool" where
  "insufficient_space disk files =
     (case disk of None \<Rightarrow> False
      | Some (disk_used, disk_total) \<Rightarrow>
          (let freeSpace = max 0 (disk_total - disk_used) in
           freeSpace < int (calculatePendingRequiredSpace files) \<or> freeSpace \<le> 0))"

definition signed_names :: "queued list \<Rightarrow> string list" where
  "signed_names files = map (\<lambda>n. take (length n - 4) n) (filter isGPGDetachedSignature (map qf_name files))"

definition missing_signatures :: "queued list \<Rightarrow> queued list" where
  "missing_signatures files =
     filter (\<lambda>f. isGPGProtectedFile (qf_name f) \<and> qf_name f \<notin> set (signed_names files)) files"

text \<open>The stable sort by \<open>Number(isGPGDetachedSignature(...))\<close>.\<close>

definition upload_order :: "(queued \<times> nat) list \<Rightarrow> (queued \<times> nat) list" where
  "upload_order q = sort_key (\<lambda>e. if isGPGDetachedSignature (qf_name (fst e)) then 1 else (0::nat)) q"

definition relative_dest :: "string \<Rightarrow> string \<Rightarrow> string" where
  "relative_dest dest name =
     (let cleanDest = (if starts_with ''/'' dest then drop 1 dest else dest);
          cleanDest = (if ends_with ''/'' cleanDest then cleanDest else cleanDest @ ''/'')
      in cleanDest @ name)"

definition target_path :: "string \<Rightarrow> string \<Rightarrow> string" where
  "target_path dest name = ''/'' @ encodeRelativePath (relative_dest dest name)"

text \<open>
  A large file is sent in parts to \<open>relativeDest.replace(/\/+/g, '/').replace(/^\//, '')\<close>, a small one with a single PUT
  to its target path.
\<close>

fun squeeze_slashes :: "string \<Rightarrow> string" where
  "squeeze_slashes (a # b # s) =
     (if a = CHR ''/'' \<and> b = CHR ''/'' then squeeze_slashes (b # s) else a # squeeze_slashes (b # s))"
| "squeeze_slashes s = s"

definition storage_path :: "string \<Rightarrow> string" where
  "storage_path relativeDest =
     (let p = squeeze_slashes relativeDest in if starts_with ''/'' p then drop 1 p else p)"

text \<open>The threshold is compared as an integer when it is evaluated.\<close>

lemma shouldUseChunkedUpload_code [code]:
  "shouldUseChunkedUpload None = False" "shouldUseChunkedUpload (Some sz) = (8388608 \<le> int sz)"
  by (simp_all add: CHUNK_THRESHOLD_def)

datatype send_target = In_Parts string | Single_Put string

definition file_target :: "string \<Rightarrow> queued \<Rightarrow> send_target" where
  "file_target dest f =
     (if shouldUseChunkedUpload (Some (qf_size f)) then In_Parts (storage_path (relative_dest dest (qf_name f)))
      else Single_Put (target_path dest (qf_name f)))"

text \<open>\<open>Math.round((loaded / total) * 100)\<close> and the progress of the whole batch.\<close>

definition percent :: "nat \<Rightarrow> nat \<Rightarrow> nat" where
  "percent loaded whole = (2 * 100 * loaded + whole) div (2 * whole)"

definition overall_percent :: "nat \<Rightarrow> nat \<Rightarrow> nat \<Rightarrow> nat" where
  "overall_percent before loaded whole = min 100 (percent (before + loaded) whole)"

section \<open>The state\<close>

datatype upload_status = Waiting_File | Uploading_File | Done_File | Error_File

text \<open>An element of the list: the file it stands for, the number in its \<open>id\<close>, and whether it collapses.\<close>

record entry =
  en_node :: nat
  en_file :: nat
  en_number :: nat
  en_leaving :: bool

text \<open>
  A click on the upload button. It first waits for the space check; then it has a destination and a queue; at the end it may wait
  for the POM. \<open>job_queue\<close> is what is left of \<open>uploadQueue\<close>, the file being sent first; \<open>job_total\<close> counts the files, \<open>completedFiles\<close> and \<open>bytesUploadedBefore\<close> what was processed.
\<close>

datatype job_stage = Checking_Space | Sending | Making_Pom

record upload_job =
  job_id :: nat
  job_stage :: job_stage
  signedArtifactNames :: "string list"
  job_dest :: string
  job_path :: string
  uploadQueue :: "(queued \<times> nat) list"
  job_queue :: "(queued \<times> nat) list"
  job_total :: nat
  job_bytes :: nat
  completedFiles :: nat
  bytesUploadedBefore :: nat

record sent_file =
  sent_job :: nat
  sent_id :: nat
  sent_to :: send_target
  signatureExpected :: bool

record uploads =
  pendingFiles :: "queued list"
  uploading :: bool
  repositoryRequiresGPG :: bool
  entries :: "entry list"
  removals :: "(nat \<times> nat) list"
  clear_timers :: nat
  upload_jobs :: "upload_job list"
  file_status :: "nat \<Rightarrow> upload_status"
  sent_files :: "sent_file list"
  finished_jobs :: "upload_job list"
  upload_notices :: "string list"
  uploadDestination :: string
  location_path :: string
  pom_fields :: "(string \<times> string \<times> string) option"
  pom_requests :: "string list"
  panel_open :: bool
  repositoryPolicySeq :: nat
  policy_requests :: "(nat \<times> string) list"
  next_node :: nat
  next_file :: nat
  next_job :: nat

definition uploads_start :: uploads where
  "uploads_start = \<lparr>pendingFiles = [], uploading = False, repositoryRequiresGPG = False, entries = [], removals = [],
     clear_timers = 0, upload_jobs = [], file_status = (\<lambda>_. Waiting_File), sent_files = [], finished_jobs = [],
     upload_notices = [], uploadDestination = [], location_path = ''/'', pom_fields = None, pom_requests = [], panel_open = False,
     repositoryPolicySeq = 0, policy_requests = [], next_node = 0, next_file = 0, next_job = 0\<rparr>"

definition notify :: "string \<Rightarrow> uploads \<Rightarrow> uploads" where
  "notify key s = s\<lparr>upload_notices := upload_notices s @ [key]\<rparr>"

section \<open>The list of entries\<close>

definition active_entries :: "entry list \<Rightarrow> entry list" where
  "active_entries es = filter (\<lambda>e. \<not> en_leaving e) es"

text \<open>\<open>insertBefore(entry, target || null)\<close>.\<close>

definition entry_before :: "entry \<Rightarrow> nat option \<Rightarrow> entry list \<Rightarrow> entry list" where
  "entry_before x target es =
     (let others = filter (\<lambda>e. en_node e \<noteq> en_node x) es in
      case target of
        None \<Rightarrow> others @ [x]
      | Some n \<Rightarrow> takeWhile (\<lambda>e. en_node e \<noteq> n) others @ x # dropWhile (\<lambda>e. en_node e \<noteq> n) others)"

definition getActiveChild :: "nat \<Rightarrow> entry list \<Rightarrow> nat option" where
  "getActiveChild n es = (let a = active_entries es in if n < length a then Some (en_node (a ! n)) else None)"

definition last_entry :: "entry list \<Rightarrow> nat \<Rightarrow> entry option" where
  "last_entry es f = find (\<lambda>e. en_file e = f) (rev es)"

text \<open>One pending file: its entry is moved or made. \<open>currentMap\<close> is read before the loop.\<close>

definition place_entry :: "(nat \<Rightarrow> entry option) \<Rightarrow> queued \<Rightarrow> nat \<Rightarrow> nat \<times> entry list \<Rightarrow> nat \<times> entry list" where
  "place_entry currentMap f index s =
     (case s of (node, es) \<Rightarrow>
        let target = getActiveChild index es in
        (case currentMap (qf_id f) of
           Some e \<Rightarrow>
             if en_leaving e
             then (Suc node, entry_before \<lparr>en_node = node, en_file = qf_id f, en_number = index, en_leaving = False\<rparr> target es)
             else (let es = map (\<lambda>x. if en_node x = en_node e then x\<lparr>en_number := index\<rparr> else x) es in
                   (node, if target = Some (en_node e) then es else entry_before (e\<lparr>en_number := index\<rparr>) target es))
         | None \<Rightarrow> (Suc node, entry_before \<lparr>en_node = node, en_file = qf_id f, en_number = index, en_leaving = False\<rparr> target es)))"

fun place_entries :: "(nat \<Rightarrow> entry option) \<Rightarrow> queued list \<Rightarrow> nat \<Rightarrow> nat \<times> entry list \<Rightarrow> nat \<times> entry list" where
  "place_entries currentMap [] index s = s"
| "place_entries currentMap (f # fs) index s = place_entries currentMap fs (Suc index) (place_entry currentMap f index s)"

definition drop_entries :: "queued list \<Rightarrow> entry list \<Rightarrow> entry list" where
  "drop_entries files es =
     filter (\<lambda>e. en_file e \<in> qf_id ` set files \<or> map_option en_node (last_entry es (en_file e)) \<noteq> Some (en_node e)) es"

definition renderPendingFiles :: "uploads \<Rightarrow> uploads" where
  "renderPendingFiles s =
     (if pendingFiles s = [] then s
      else (let (node, es) = place_entries (last_entry (entries s)) (pendingFiles s) 0
                               (next_node s, drop_entries (pendingFiles s) (entries s))
            in s\<lparr>next_node := node, entries := es\<rparr>))"

text \<open>The controls have collapsed: their content is cleared when nothing is pending.\<close>

definition controls_collapsed :: "uploads \<Rightarrow> uploads" where
  "controls_collapsed s = (if pendingFiles s = [] then s\<lparr>entries := []\<rparr> else s)"

section \<open>Adding and removing\<close>

fun number_files :: "nat \<Rightarrow> (string \<times> nat) list \<Rightarrow> queued list" where
  "number_files i [] = []"
| "number_files i ((n, sz) # fs) = \<lparr>qf_id = i, qf_name = n, qf_size = sz\<rparr> # number_files (Suc i) fs"

definition addPendingFiles :: "(string \<times> nat) list \<Rightarrow> uploads \<Rightarrow> uploads" where
  "addPendingFiles files s =
     renderPendingFiles (s\<lparr>pendingFiles := pendingFiles s @ number_files (next_file s) files,
                           next_file := next_file s + length files\<rparr>)"

text \<open>\<open>splice(i, 1)\<close>.\<close>

definition splice_one :: "nat \<Rightarrow> 'a list \<Rightarrow> 'a list" where
  "splice_one i xs = take i xs @ drop (Suc i) xs"

definition index_of_file :: "nat \<Rightarrow> queued list \<Rightarrow> nat option" where
  "index_of_file f files = (case filter (\<lambda>i. qf_id (files ! i) = f) [0..<length files] of [] \<Rightarrow> None | i # _ \<Rightarrow> Some i)"

definition onRemove :: "nat \<Rightarrow> uploads \<Rightarrow> uploads" where
  "onRemove f s =
     (if uploading s then s
      else case index_of_file f (pendingFiles s) of
        None \<Rightarrow> s
      | Some currIdx \<Rightarrow>
          (case find (\<lambda>e. en_number e = currIdx) (entries s) of
             Some e \<Rightarrow> s\<lparr>entries := map (\<lambda>x. if en_node x = en_node e then x\<lparr>en_leaving := True\<rparr> else x) (entries s),
                         removals := removals s @ [(en_node e, currIdx)]\<rparr>
           | None \<Rightarrow> renderPendingFiles (s\<lparr>pendingFiles := splice_one currIdx (pendingFiles s)\<rparr>)))"

text \<open>The end of the transition, or its timer: only the first of the two counts.\<close>

definition removal_done :: "nat \<Rightarrow> uploads \<Rightarrow> uploads" where
  "removal_done k s =
     (let (node, currIdx) = removals s ! k in
      renderPendingFiles (s\<lparr>removals := splice_one k (removals s),
        entries := filter (\<lambda>e. en_node e \<noteq> node) (entries s),
        pendingFiles := splice_one currIdx (pendingFiles s)\<rparr>))"

definition clear_clicked :: "uploads \<Rightarrow> uploads" where
  "clear_clicked s =
     (if uploading s then s
      else if active_entries (entries s) \<noteq> []
      then s\<lparr>entries := map (\<lambda>e. e\<lparr>en_leaving := True\<rparr>) (entries s), clear_timers := Suc (clear_timers s)\<rparr>
      else renderPendingFiles (s\<lparr>pendingFiles := []\<rparr>))"

definition clear_done :: "uploads \<Rightarrow> uploads" where
  "clear_done s = renderPendingFiles (s\<lparr>clear_timers := clear_timers s - 1, pendingFiles := []\<rparr>)"

section \<open>Uploading a batch\<close>

definition job_of :: "nat \<Rightarrow> uploads \<Rightarrow> upload_job option" where
  "job_of i s = find (\<lambda>j. job_id j = i) (upload_jobs s)"

definition set_job :: "upload_job \<Rightarrow> uploads \<Rightarrow> uploads" where
  "set_job j s = s\<lparr>upload_jobs := map (\<lambda>x. if job_id x = job_id j then j else x) (upload_jobs s)\<rparr>"

definition end_job :: "nat \<Rightarrow> uploads \<Rightarrow> uploads" where
  "end_job i s = s\<lparr>upload_jobs := filter (\<lambda>j. job_id j \<noteq> i) (upload_jobs s)\<rparr>"

text \<open>The click up to the space check.\<close>

definition upload_clicked :: "uploads \<Rightarrow> uploads" where
  "upload_clicked s =
     (if pendingFiles s = [] \<or> uploading s then s
      else if repositoryRequiresGPG s \<and> missing_signatures (pendingFiles s) \<noteq> []
      then notify ''browser.gpgSignatureRequired'' s
      else s\<lparr>upload_jobs := upload_jobs s @
               [\<lparr>job_id = next_job s, job_stage = Checking_Space, signedArtifactNames = signed_names (pendingFiles s), job_dest = [],
                 job_path = [], uploadQueue = [], job_queue = [], job_total = 0, job_bytes = 0, completedFiles = 0, bytesUploadedBefore = 0\<rparr>],
             next_job := Suc (next_job s)\<rparr>)"

text \<open>The next file of the queue is sent.\<close>

definition send_next :: "upload_job \<Rightarrow> uploads \<Rightarrow> uploads" where
  "send_next j s =
     (case job_queue j of
        [] \<Rightarrow> s
      | (f, i) # _ \<Rightarrow>
          s\<lparr>file_status := (file_status s)(qf_id f := Uploading_File),
            sent_files := sent_files s @ [\<lparr>sent_job = job_id j, sent_id = qf_id f, sent_to = file_target (job_dest j) f,
              signatureExpected = isGPGProtectedFile (qf_name f) \<and> qf_name f \<in> set (signedArtifactNames j)\<rparr>]\<rparr>)"

definition finish_job :: "upload_job \<Rightarrow> uploads \<Rightarrow> uploads" where
  "finish_job j s =
     renderPendingFiles ((end_job (job_id j) s)\<lparr>pendingFiles := [], uploading := False,
       finished_jobs := finished_jobs s @ [j]\<rparr>)"

text \<open>After the last file: the POM, if the box is ticked (\<open>pom_fields\<close> holds the fields then).\<close>

definition repo_segment :: "string \<Rightarrow> string option" where
  "repo_segment path = (case filter (\<lambda>p. p \<noteq> []) (split_on CHR ''/'' path) of [] \<Rightarrow> None | x # _ \<Rightarrow> Some x)"

definition pom_target :: "string \<Rightarrow> string \<Rightarrow> string" where
  "pom_target repoName dest =
     ''/api/maven/generate/pom/'' @ encodePathSegment repoName @ ''/'' @ encodeRelativePath (drop (length repoName + 1) dest)"

definition after_files :: "upload_job \<Rightarrow> uploads \<Rightarrow> uploads" where
  "after_files j s =
     (case pom_fields s of
        None \<Rightarrow> finish_job j s
      | Some (g, a, v) \<Rightarrow>
          if g \<noteq> [] \<and> a \<noteq> [] \<and> v \<noteq> []
          then set_job (j\<lparr>job_stage := Making_Pom\<rparr>)
                 (s\<lparr>pom_requests := pom_requests s @
                      [pom_target (case repo_segment (job_path j) of Some r \<Rightarrow> decodePathSegment r | None \<Rightarrow> []) (job_dest j)]\<rparr>)
          else finish_job j (notify ''browser.fillPomFields'' s))"

definition space_answered :: "nat \<Rightarrow> (int \<times> int) option \<Rightarrow> uploads \<Rightarrow> uploads" where
  "space_answered i disk s =
     (case job_of i s of
        None \<Rightarrow> s
      | Some j \<Rightarrow>
          if insufficient_space disk (pendingFiles s) then notify ''browser.insufficientDiskSpace'' (end_job i s)
          else if repo_segment (location_path s) = None then end_job i s
          else (let q = upload_order (zip (pendingFiles s) [0..<length (pendingFiles s)]);
                    j = j\<lparr>job_stage := Sending, job_dest := uploadDestination s, job_path := location_path s,
                          uploadQueue := q, job_queue := q,
                          job_total := length (pendingFiles s), job_bytes := sum_list (map qf_size (pendingFiles s))\<rparr>;
                    s = set_job j (s\<lparr>uploading := True\<rparr>)
                in if job_queue j = [] then after_files j s else send_next j s))"

datatype file_result = Stored bool | Rejected

definition file_answered :: "nat \<Rightarrow> file_result \<Rightarrow> uploads \<Rightarrow> uploads" where
  "file_answered i r s =
     (case job_of i s of
        None \<Rightarrow> s
      | Some j \<Rightarrow>
          (case job_queue j of
             [] \<Rightarrow> s
           | (f, k) # q \<Rightarrow>
               (let s = (case r of
                      Stored review \<Rightarrow>
                        notify (if review then ''browser.uploadQueuedReview'' else ''browser.uploadedSuccess'')
                          (s\<lparr>file_status := (file_status s)(qf_id f := Done_File)\<rparr>)
                    | Rejected \<Rightarrow> notify ''browser.failedUpload'' (s\<lparr>file_status := (file_status s)(qf_id f := Error_File)\<rparr>));
                    j = j\<lparr>job_queue := q, completedFiles := Suc (completedFiles j),
                          bytesUploadedBefore := bytesUploadedBefore j + qf_size f\<rparr>;
                    s = set_job j s
                in if q = [] then after_files j s else send_next j s)))"

definition pom_answered :: "nat \<Rightarrow> bool \<Rightarrow> uploads \<Rightarrow> uploads" where
  "pom_answered i ok s =
     (case job_of i s of
        None \<Rightarrow> s
      | Some j \<Rightarrow> finish_job j (if ok then s else notify ''browser.failedGenPom'' s))"

section \<open>The repository of the panel\<close>

definition applyRepositoryGPGPolicy :: "bool \<Rightarrow> bool \<Rightarrow> uploads \<Rightarrow> uploads" where
  "applyRepositoryGPGPolicy required supportsHelpers s =
     s\<lparr>repositoryRequiresGPG := required,
       pom_fields := (if \<not> supportsHelpers \<or> required then None else pom_fields s)\<rparr>"

definition setUploadPanelOpen :: "bool \<Rightarrow> uploads \<Rightarrow> uploads" where
  "setUploadPanelOpen opened s =
     (if opened then s\<lparr>panel_open := True\<rparr>
      else s\<lparr>pendingFiles := [], panel_open := False, entries := (if panel_open s then entries s else [])\<rparr>)"

definition updateUploadZone :: "string \<Rightarrow> uploads \<Rightarrow> uploads" where
  "updateUploadZone path s =
     s\<lparr>repositoryPolicySeq := Suc (repositoryPolicySeq s),
       policy_requests := policy_requests s @ [(Suc (repositoryPolicySeq s), path)]\<rparr>"

text \<open>The details of the repository: its format and whether it requires signatures.\<close>

definition should_show :: "(string \<Rightarrow> bool) \<Rightarrow> string list \<Rightarrow> (string \<times> bool) option \<Rightarrow> bool" where
  "should_show canUpdate parts details =
     (case details of None \<Rightarrow> False
      | Some (format, gpg) \<Rightarrow> parts \<noteq> [] \<and>
          (case getRepositoryFormat format of Some e \<Rightarrow> supportsBrowserUpload e | None \<Rightarrow> False) \<and> canUpdate (hd parts))"

definition upload_parts :: "string \<Rightarrow> string list" where
  "upload_parts path = map decodePathSegment (filter (\<lambda>p. p \<noteq> []) (split_on CHR ''/'' path))"

definition policy_answered :: "(string \<Rightarrow> bool) \<Rightarrow> nat \<Rightarrow> (string \<times> bool) option \<Rightarrow> uploads \<Rightarrow> uploads" where
  "policy_answered canUpdate k details s =
     (let (policySeq, path) = policy_requests s ! k;
          s = s\<lparr>policy_requests := splice_one k (policy_requests s)\<rparr>;
          parts = upload_parts path
      in if policySeq \<noteq> repositoryPolicySeq s then s
         else if should_show canUpdate parts details
         then (case details of
                 Some (format, gpg) \<Rightarrow>
                   setUploadPanelOpen True
                     ((applyRepositoryGPGPolicy gpg
                         (case getRepositoryFormat format of Some e \<Rightarrow> supportsUploadHelpers e \<noteq> Some False | None \<Rightarrow> True) s)
                        \<lparr>uploadDestination := join ''/'' parts\<rparr>)
               | None \<Rightarrow> s)
         else setUploadPanelOpen False (applyRepositoryGPGPolicy False True s))"

text \<open>The panel has collapsed (\<open>resetUploadControlsState\<close>).\<close>

definition panel_collapsed :: "uploads \<Rightarrow> uploads" where
  "panel_collapsed s = (if panel_open s then s else s\<lparr>entries := []\<rparr>)"

section \<open>Events\<close>

datatype upload_event =
    FilesAdded "(string \<times> nat) list" | RemoveClicked nat | RemovalDone nat | ClearClicked | ClearDone | ControlsCollapsed
  | UploadClicked | SpaceAnswered nat "(int \<times> int) option" | FileAnswered nat file_result | PomAnswered nat bool
  | PolicyAsked string | PolicyAnswered nat "(string \<times> bool) option" | PanelCollapsed
  | DestinationTyped string | PomTyped "(string \<times> string \<times> string) option" | Moved string

definition in_stage :: "nat \<Rightarrow> job_stage \<Rightarrow> uploads \<Rightarrow> bool" where
  "in_stage i st s = (case job_of i s of Some j \<Rightarrow> job_stage j = st | None \<Rightarrow> False)"

fun upload_step :: "(string \<Rightarrow> bool) \<Rightarrow> upload_event \<Rightarrow> uploads \<Rightarrow> uploads option" where
  "upload_step can (FilesAdded files) s = Some (addPendingFiles files s)"
| "upload_step can (RemoveClicked f) s = Some (onRemove f s)"
| "upload_step can (RemovalDone k) s = (if k < length (removals s) then Some (removal_done k s) else None)"
| "upload_step can ClearClicked s = Some (clear_clicked s)"
| "upload_step can ClearDone s = (if clear_timers s > 0 then Some (clear_done s) else None)"
| "upload_step can ControlsCollapsed s = Some (controls_collapsed s)"
| "upload_step can UploadClicked s = Some (upload_clicked s)"
| "upload_step can (SpaceAnswered i disk) s = (if in_stage i Checking_Space s then Some (space_answered i disk s) else None)"
| "upload_step can (FileAnswered i r) s = (if in_stage i Sending s then Some (file_answered i r s) else None)"
| "upload_step can (PomAnswered i ok) s = (if in_stage i Making_Pom s then Some (pom_answered i ok s) else None)"
| "upload_step can (PolicyAsked path) s = Some (updateUploadZone path s)"
| "upload_step can (PolicyAnswered k details) s =
     (if k < length (policy_requests s) then Some (policy_answered can k details s) else None)"
| "upload_step can PanelCollapsed s = Some (panel_collapsed s)"
| "upload_step can (DestinationTyped d) s = Some (s\<lparr>uploadDestination := d\<rparr>)"
| "upload_step can (PomTyped p) s = Some (s\<lparr>pom_fields := p\<rparr>)"
| "upload_step can (Moved path) s = Some (s\<lparr>location_path := path\<rparr>)"

section \<open>The order of a batch\<close>

abbreviation is_signature :: "queued \<times> nat \<Rightarrow> bool" where
  "is_signature e \<equiv> isGPGDetachedSignature (qf_name (fst e))"

lemma insort_skip: "\<forall>a \<in> set as. k a < k x \<Longrightarrow> insort_key k x (as @ bs) = as @ insort_key k x bs"
  by (induction as) auto

lemma upload_order_split: "upload_order q = filter (\<lambda>e. \<not> is_signature e) q @ filter is_signature q"
  unfolding upload_order_def
proof (induction q)
  case (Cons x q)
  let ?k = "\<lambda>e. if is_signature e then 1 else (0::nat)"
  show ?case
  proof (cases "is_signature x")
    case True
    have "insort_key ?k x (filter (\<lambda>e. \<not> is_signature e) q @ filter is_signature q) =
        filter (\<lambda>e. \<not> is_signature e) q @ insort_key ?k x (filter is_signature q)"
      by (rule insort_skip) (simp add: True)
    also have "insort_key ?k x (filter is_signature q) = x # filter is_signature q"
      by (rule insort_is_Cons) (simp add: True)
    finally show ?thesis using Cons True by simp
  next
    case False
    then show ?thesis using Cons by (simp add: insort_is_Cons)
  qed
qed simp

section \<open>What a batch sends\<close>

definition sent_by :: "nat \<Rightarrow> uploads \<Rightarrow> (nat \<times> send_target) list" where
  "sent_by i s = map (\<lambda>e. (sent_id e, sent_to e)) (filter (\<lambda>e. sent_job e = i) (sent_files s))"

definition to_send :: "upload_job \<Rightarrow> (nat \<times> send_target) list" where
  "to_send j = map (\<lambda>(f, i). (qf_id f, file_target (job_dest j) f)) (uploadQueue j)"

text \<open>A batch holds the files in the order of the upload and has counted what was processed.\<close>

definition job_ok :: "upload_job \<Rightarrow> bool" where
  "job_ok j \<longleftrightarrow> job_queue j = drop (completedFiles j) (uploadQueue j) \<and> completedFiles j \<le> length (uploadQueue j) \<and>
     bytesUploadedBefore j = sum_list (map (qf_size \<circ> fst) (take (completedFiles j) (uploadQueue j))) \<and>
     job_total j = length (uploadQueue j) \<and> job_bytes j = sum_list (map (qf_size \<circ> fst) (uploadQueue j)) \<and>
     (\<exists>as bs. uploadQueue j = as @ bs \<and> list_all (\<lambda>e. \<not> is_signature e) as \<and> list_all is_signature bs)"

text \<open>How much of a batch has been sent in each stage.\<close>

definition sent_ok :: "upload_job \<Rightarrow> uploads \<Rightarrow> bool" where
  "sent_ok j s \<longleftrightarrow>
     (case job_stage j of
        Checking_Space \<Rightarrow> sent_by (job_id j) s = [] \<and> uploadQueue j = []
      | Sending \<Rightarrow> job_queue j \<noteq> [] \<and> sent_by (job_id j) s = take (Suc (completedFiles j)) (to_send j)
      | Making_Pom \<Rightarrow> job_queue j = [] \<and> sent_by (job_id j) s = to_send j)"

definition batches_ok :: "uploads \<Rightarrow> bool" where
  "batches_ok s \<longleftrightarrow> distinct (map job_id (upload_jobs s)) \<and>
     list_all (\<lambda>j. job_id j < next_job s \<and> job_ok j \<and> sent_ok j s) (upload_jobs s) \<and>
     list_all (\<lambda>e. sent_job e < next_job s) (sent_files s) \<and>
     list_all (\<lambda>j. job_id j < next_job s \<and> job_id j \<notin> job_id ` set (upload_jobs s) \<and> job_ok j \<and>
       job_queue j = [] \<and> sent_by (job_id j) s = to_send j) (finished_jobs s)"

text \<open>Rendering and the list of pending files do not matter for it.\<close>

definition batch_part :: "uploads \<Rightarrow> upload_job list \<times> nat \<times> sent_file list \<times> upload_job list" where
  "batch_part s = (upload_jobs s, next_job s, sent_files s, finished_jobs s)"

lemma batches_cong: "batch_part s = batch_part t \<Longrightarrow> batches_ok s = batches_ok t"
  unfolding batches_ok_def sent_ok_def sent_by_def batch_part_def by (simp cong: list.pred_cong job_stage.case_cong)

lemma batch_part_render [simp]: "batch_part (renderPendingFiles s) = batch_part s"
  by (simp add: batch_part_def renderPendingFiles_def split: prod.splits)

lemma batch_part_notify [simp]: "batch_part (notify k s) = batch_part s"
  by (simp add: batch_part_def notify_def)

lemma batch_part_panel:
  "batch_part (addPendingFiles fs s) = batch_part s" "batch_part (onRemove f s) = batch_part s"
  "batch_part (removal_done k s) = batch_part s" "batch_part (clear_clicked s) = batch_part s"
  "batch_part (clear_done s) = batch_part s" "batch_part (controls_collapsed s) = batch_part s"
  "batch_part (updateUploadZone p s) = batch_part s" "batch_part (panel_collapsed s) = batch_part s"
  "batch_part (policy_answered can k d s) = batch_part s"
  subgoal by (simp add: addPendingFiles_def) (simp add: batch_part_def)
  subgoal by (simp add: onRemove_def split: option.splits) (simp add: batch_part_def)
  subgoal by (simp add: removal_done_def split: prod.splits) (simp add: batch_part_def)
  subgoal by (simp add: clear_clicked_def) (simp add: batch_part_def)
  subgoal by (simp add: clear_done_def) (simp add: batch_part_def)
  subgoal by (simp add: controls_collapsed_def batch_part_def)
  subgoal by (simp add: updateUploadZone_def batch_part_def)
  subgoal by (simp add: panel_collapsed_def batch_part_def)
  subgoal by (simp add: policy_answered_def setUploadPanelOpen_def applyRepositoryGPGPolicy_def batch_part_def Let_def
        split: prod.splits option.splits)
  done

definition replace_job :: "upload_job \<Rightarrow> upload_job list \<Rightarrow> upload_job list" where
  "replace_job j js = map (\<lambda>x. if job_id x = job_id j then j else x) js"

lemma replace_job_facts:
  "map job_id (replace_job j js) = map job_id js"
  "set (replace_job j js) \<subseteq> insert j (set js)"
  "\<lbrakk>x \<in> set (replace_job j js); x \<noteq> j\<rbrakk> \<Longrightarrow> job_id x \<noteq> job_id j"
  "job_id k = job_id j \<Longrightarrow> replace_job k (replace_job j js) = replace_job k js"
  "filter (\<lambda>x. job_id x \<noteq> job_id j) (replace_job j js) = filter (\<lambda>x. job_id x \<noteq> job_id j) js"
  by (auto simp: replace_job_def filter_map o_def split: if_splits) (induction js, auto)

lemma sent_by_append:
  assumes "sent_files t = sent_files s @ xs" and "list_all (\<lambda>e. sent_job e = i) xs"
  shows "sent_by i t = sent_by i s @ map (\<lambda>e. (sent_id e, sent_to e)) xs"
    and "k \<noteq> i \<Longrightarrow> sent_by k t = sent_by k s"
proof -
  have "filter (\<lambda>e. sent_job e = i) xs = xs" "k \<noteq> i \<Longrightarrow> filter (\<lambda>e. sent_job e = k) xs = []"
    using assms(2) by (induction xs) auto
  then show "sent_by i t = sent_by i s @ map (\<lambda>e. (sent_id e, sent_to e)) xs" "k \<noteq> i \<Longrightarrow> sent_by k t = sent_by k s"
    by (simp_all add: sent_by_def assms(1))
qed

lemma sent_ok_cong: "sent_by (job_id j) t = sent_by (job_id j) s \<Longrightarrow> sent_ok j t = sent_ok j s"
  by (simp add: sent_ok_def cong: job_stage.case_cong)

text \<open>A batch moves on: its job is replaced and its next file, if any, is sent.\<close>

lemma job_moves:
  assumes ok: "batches_ok s" and j: "j \<in> set (upload_jobs s)" and id: "job_id j' = job_id j" and j': "job_ok j'" "sent_ok j' t"
    and t: "batch_part t = (replace_job j' (upload_jobs s), next_job s, sent_files s @ xs, finished_jobs s)"
    and xs: "list_all (\<lambda>e. sent_job e = job_id j) xs"
  shows "batches_ok t"
proof -
  have f: "upload_jobs t = replace_job j' (upload_jobs s)" "next_job t = next_job s" "sent_files t = sent_files s @ xs"
    "finished_jobs t = finished_jobs s" using t by (simp_all add: batch_part_def)
  note other = sent_by_append(2) [OF f(3) xs]
  have ids: "job_id ` set (upload_jobs t) = job_id ` set (upload_jobs s)"
    using arg_cong [OF replace_job_facts(1) [of j' "upload_jobs s"], of set] by (simp add: f(1))
  have jobs: "job_id x < next_job t \<and> job_ok x \<and> sent_ok x t" if x: "x \<in> set (upload_jobs t)" for x
  proof (cases "x = j'")
    case True
    then show ?thesis using ok j id j' by (auto simp: batches_ok_def list_all_iff f(2))
  next
    case False
    then have "job_id x \<noteq> job_id j" "x \<in> set (upload_jobs s)"
      using x replace_job_facts(2) [of j' "upload_jobs s"] replace_job_facts(3) [of x j' "upload_jobs s"] id
      unfolding f(1) by auto
    then show ?thesis using ok other sent_ok_cong [of x t s] by (simp add: batches_ok_def list_all_iff f(2))
  qed
  have fin: "job_id x < next_job t \<and> job_id x \<notin> job_id ` set (upload_jobs t) \<and> job_ok x \<and> job_queue x = [] \<and>
      sent_by (job_id x) t = to_send x" if "x \<in> set (finished_jobs t)" for x
  proof -
    have "job_id x \<notin> job_id ` set (upload_jobs s)" using that ok by (simp add: batches_ok_def list_all_iff f(4))
    then have "job_id x \<noteq> job_id j" using j by auto
    then show ?thesis using that ok other unfolding ids by (simp add: batches_ok_def list_all_iff f(2,4))
  qed
  have "job_id j < next_job s" using ok j by (simp add: batches_ok_def list_all_iff)
  then have "list_all (\<lambda>e. sent_job e < next_job t) (sent_files t)"
    using ok xs by (auto simp: batches_ok_def list_all_iff f(2,3))
  moreover have "distinct (map job_id (upload_jobs t))" using ok by (simp add: f(1) replace_job_facts(1) batches_ok_def)
  ultimately show ?thesis using jobs fin by (simp add: batches_ok_def list_all_iff)
qed

lemma job_finishes:
  assumes ok: "batches_ok s" and j: "j \<in> set (upload_jobs s)" and id: "job_id j' = job_id j"
    and j': "job_ok j'" "job_queue j' = []" "sent_by (job_id j) s = to_send j'"
    and t: "batch_part t = (filter (\<lambda>x. job_id x \<noteq> job_id j) (upload_jobs s), next_job s, sent_files s, finished_jobs s @ [j'])"
  shows "batches_ok t"
proof -
  have f: "upload_jobs t = filter (\<lambda>x. job_id x \<noteq> job_id j) (upload_jobs s)" "next_job t = next_job s"
    "sent_files t = sent_files s" "finished_jobs t = finished_jobs s @ [j']" using t by (simp_all add: batch_part_def)
  have same: "sent_by i t = sent_by i s" for i by (simp add: sent_by_def f(3))
  have lt: "job_id j < next_job s" using ok j by (simp add: batches_ok_def list_all_iff)
  have "sent_ok x t = sent_ok x s" for x by (rule sent_ok_cong) (rule same)
  then show ?thesis using ok lt id j' unfolding batches_ok_def
    by (auto simp: f same list_all_iff distinct_map_filter)
qed

lemma job_of_facts:
  assumes "job_of i s = Some j"
  shows "j \<in> set (upload_jobs s)" and "job_id j = i"
proof -
  have "j \<in> set (upload_jobs s) \<and> job_id j = i" using assms unfolding job_of_def find_Some_iff by (metis nth_mem)
  then show "j \<in> set (upload_jobs s)" "job_id j = i" by simp_all
qed

lemma batch_part_set_job: "batch_part (set_job j s) = (replace_job j (upload_jobs s), next_job s, sent_files s, finished_jobs s)"
  by (simp add: set_job_def batch_part_def replace_job_def)

lemma batch_part_finish:
  "batch_part (finish_job j s) =
     (filter (\<lambda>x. job_id x \<noteq> job_id j) (upload_jobs s), next_job s, sent_files s, finished_jobs s @ [j])"
  by (simp add: finish_job_def) (simp add: batch_part_def end_job_def)

text \<open>All files are sent: \<open>s\<close> is the state before, \<open>r\<close> the one that already holds the job \<open>j'\<close> or still the old one.\<close>

lemma after_files_ok:
  assumes ok: "batches_ok s" and j: "j \<in> set (upload_jobs s)" and id: "job_id j' = job_id j"
    and j': "job_ok j'" "job_queue j' = []" "sent_by (job_id j) s = to_send j'"
    and r: "batch_part r = (replace_job j' (upload_jobs s), next_job s, sent_files s, finished_jobs s)"
  shows "batches_ok (after_files j' r)"
proof -
  have f: "upload_jobs r = replace_job j' (upload_jobs s)" "next_job r = next_job s" "sent_files r = sent_files s"
    "finished_jobs r = finished_jobs s" using r by (simp_all add: batch_part_def)
  let ?k = "j'\<lparr>job_stage := Making_Pom\<rparr>"
  have k: "job_ok ?k" using j'(1) by (simp add: job_ok_def)
  have pom: "batches_ok (set_job ?k (r\<lparr>pom_requests := xs\<rparr>))" for xs
  proof (rule job_moves [OF ok j _ k, where xs = "[]"])
    show "job_id ?k = job_id j" using id by simp
    show "batch_part (set_job ?k (r\<lparr>pom_requests := xs\<rparr>)) =
        (replace_job ?k (upload_jobs s), next_job s, sent_files s @ [], finished_jobs s)"
      by (simp add: batch_part_set_job f replace_job_facts(4))
    then have "sent_files (set_job ?k (r\<lparr>pom_requests := xs\<rparr>)) = sent_files s" by (simp add: batch_part_def)
    then show "sent_ok ?k (set_job ?k (r\<lparr>pom_requests := xs\<rparr>))"
      using j' id by (simp add: sent_ok_def sent_by_def to_send_def)
  qed simp
  have fin: "batches_ok t" if "batch_part t = batch_part (finish_job j' r)" for t
  proof (rule job_finishes [OF ok j id j'])
    show "batch_part t = (filter (\<lambda>x. job_id x \<noteq> job_id j) (upload_jobs s), next_job s, sent_files s, finished_jobs s @ [j'])"
      using that id replace_job_facts(5) [of j' "upload_jobs s"] by (simp add: batch_part_finish f)
  qed
  have "batch_part (finish_job j' (notify m r)) = batch_part (finish_job j' r)" for m
    by (simp add: batch_part_finish notify_def)
  with fin pom show ?thesis by (auto simp: after_files_def split: option.splits prod.splits)
qed

lemma upload_clicked_ok:
  assumes ok: "batches_ok s"
  shows "batches_ok (upload_clicked s)"
proof -
  have none: "sent_by (next_job s) s = []"
    using ok by (auto simp: batches_ok_def list_all_iff sent_by_def filter_empty_conv)
  define j where "j = \<lparr>job_id = next_job s, job_stage = Checking_Space, signedArtifactNames = signed_names (pendingFiles s),
    job_dest = [], job_path = [], uploadQueue = [], job_queue = [], job_total = 0, job_bytes = 0, completedFiles = 0,
    bytesUploadedBefore = 0\<rparr>"
  define t where "t = s\<lparr>upload_jobs := upload_jobs s @ [j], next_job := Suc (next_job s)\<rparr>"
  have same: "sent_by i t = sent_by i s" for i by (simp add: sent_by_def t_def)
  have "sent_ok x t = sent_ok x s" for x by (rule sent_ok_cong) (rule same)
  moreover have "sent_ok j s" using none by (simp add: sent_ok_def j_def)
  moreover have "job_ok j" by (simp add: job_ok_def j_def)
  moreover have "job_id j = next_job s" by (simp add: j_def)
  ultimately have "batches_ok t"
    using ok unfolding batches_ok_def same by (auto simp: t_def list_all_iff less_Suc_eq)
  moreover have "batches_ok (notify k s)" for k using ok batches_cong [of "notify k s" s] by simp
  ultimately show ?thesis using ok by (simp add: upload_clicked_def t_def j_def)
qed

lemma send_next_part:
  assumes "job_queue j = (f, i) # q"
  shows "batch_part (send_next j s) = (upload_jobs s, next_job s, sent_files s @
    [\<lparr>sent_job = job_id j, sent_id = qf_id f, sent_to = file_target (job_dest j) f,
      signatureExpected = isGPGProtectedFile (qf_name f) \<and> qf_name f \<in> set (signedArtifactNames j)\<rparr>], finished_jobs s)"
  using assms by (simp add: send_next_def batch_part_def)

lemma sent_by_send_next:
  assumes "job_queue j = (f, i) # q"
  shows "sent_by (job_id j) (send_next j s) = sent_by (job_id j) s @ [(qf_id f, file_target (job_dest j) f)]"
  using assms by (simp add: send_next_def sent_by_def)

text \<open>The next file of a replaced job is sent.\<close>

lemma send_next_ok:
  assumes ok: "batches_ok s" and j: "j \<in> set (upload_jobs s)" and id: "job_id j' = job_id j"
    and j': "job_ok j'" "job_queue j' \<noteq> []" "job_stage j' = Sending"
    and sent: "sent_by (job_id j) s = take (completedFiles j') (to_send j')"
    and r: "batch_part r = (replace_job j' (upload_jobs s), next_job s, sent_files s, finished_jobs s)"
  shows "batches_ok (send_next j' r)"
proof -
  obtain f i q where q: "job_queue j' = (f, i) # q" using j'(2) by (cases "job_queue j'") auto
  note part = send_next_part [OF q, of r]
  have r': "upload_jobs r = replace_job j' (upload_jobs s)" "next_job r = next_job s" "sent_files r = sent_files s"
    "finished_jobs r = finished_jobs s" using r by (simp_all add: batch_part_def)
  have d: "(f, i) # q = drop (completedFiles j') (uploadQueue j')" using j'(1) q by (simp add: job_ok_def)
  then have lt: "completedFiles j' < length (uploadQueue j')" by (metis drop_all leI list.distinct(1))
  with d have "uploadQueue j' ! completedFiles j' = (f, i)" by (metis Cons_nth_drop_Suc list.inject)
  with lt have "take (Suc (completedFiles j')) (to_send j') =
      take (completedFiles j') (to_send j') @ [(qf_id f, file_target (job_dest j') f)]"
    by (simp add: to_send_def take_Suc_conv_app_nth)
  moreover have "sent_by (job_id j') (send_next j' r) = sent_by (job_id j') s @ [(qf_id f, file_target (job_dest j') f)]"
    using sent_by_send_next [OF q, of r] by (simp add: sent_by_def r'(3))
  ultimately have "sent_ok j' (send_next j' r)" using sent j' id by (simp add: sent_ok_def)
  from job_moves [OF ok j id j'(1) this part [unfolded r']] show ?thesis by (simp add: id)
qed

lemma map_fst_zip_indices: "map fst (zip xs [0..<length xs]) = xs" by simp

lemma space_answered_ok:
  assumes ok: "batches_ok s" and i: "in_stage i Checking_Space s"
  shows "batches_ok (space_answered i disk s)"
proof -
  obtain j where j: "job_of i s = Some j" "job_stage j = Checking_Space" using i by (auto simp: in_stage_def split: option.splits)
  note jf = job_of_facts [OF j(1)]
  have js: "job_id j < next_job s" "job_ok j" "sent_by i s = []"
    using ok jf j(2) by (auto simp: batches_ok_def list_all_iff sent_ok_def)
  have ended: "batches_ok t" if "batch_part t = batch_part (end_job i s)" for t
  proof -
    have f: "upload_jobs t = filter (\<lambda>x. job_id x \<noteq> i) (upload_jobs s)" "next_job t = next_job s" "sent_files t = sent_files s"
      "finished_jobs t = finished_jobs s" using that by (simp_all add: batch_part_def end_job_def)
    have same: "sent_by k t = sent_by k s" for k by (simp add: sent_by_def f(3))
    have "sent_ok x t = sent_ok x s" for x by (rule sent_ok_cong) (rule same)
    then show ?thesis using ok unfolding batches_ok_def by (auto simp: f same list_all_iff distinct_map_filter)
  qed
  define q where "q = upload_order (zip (pendingFiles s) [0..<length (pendingFiles s)])"
  define j' where "j' = j\<lparr>job_stage := Sending, job_dest := uploadDestination s, job_path := location_path s, uploadQueue := q,
    job_queue := q, job_total := length (pendingFiles s), job_bytes := sum_list (map qf_size (pendingFiles s))\<rparr>"
  have zero: "completedFiles j = 0" "bytesUploadedBefore j = 0"
    using ok jf j(2) by (auto simp: batches_ok_def list_all_iff sent_ok_def job_ok_def)
  have m: "mset q = mset (zip (pendingFiles s) [0..<length (pendingFiles s)])" unfolding q_def upload_order_def by (rule mset_sort)
  then have "length q = length (pendingFiles s)" by (metis length_zip length_upt min.idem minus_nat.diff_0 size_mset)
  moreover have "sum_list (map (qf_size \<circ> fst) q) = sum_list (map qf_size (pendingFiles s))"
  proof -
    have "sum_list (map (qf_size \<circ> fst) q) = sum_mset (image_mset (qf_size \<circ> fst) (mset q))"
      by (metis mset_map sum_mset_sum_list)
    also have "\<dots> = sum_list (map qf_size (map fst (zip (pendingFiles s) [0..<length (pendingFiles s)])))"
      by (simp only: m mset_map [symmetric] sum_mset_sum_list map_map)
    finally show ?thesis by (simp only: map_fst_zip_indices)
  qed
  moreover have "\<exists>as bs. q = as @ bs \<and> list_all (\<lambda>e. \<not> is_signature e) as \<and> list_all is_signature bs"
    unfolding q_def upload_order_split by (intro exI conjI) (auto simp: list_all_iff)
  ultimately have ok': "job_ok j'" using zero by (simp add: job_ok_def j'_def)
  let ?r = "set_job j' (s\<lparr>uploading := True\<rparr>)"
  have part: "batch_part ?r = (replace_job j' (upload_jobs s), next_job s, sent_files s, finished_jobs s)"
    by (simp add: batch_part_set_job)
  have id: "job_id j' = job_id j" by (simp add: j'_def)
  have "batches_ok (if q = [] then after_files j' ?r else send_next j' ?r)"
  proof (cases "q = []")
    case True
    have "batches_ok (after_files j' ?r)"
      by (rule after_files_ok [OF ok jf(1) id ok' _ _ part]) (use True js jf in \<open>simp_all add: j'_def to_send_def\<close>)
    then show ?thesis by (simp add: True)
  next
    case False
    have "batches_ok (send_next j' ?r)"
      by (rule send_next_ok [OF ok jf(1) id ok' _ _ _ part]) (use False js jf zero in \<open>simp_all add: j'_def to_send_def\<close>)
    then show ?thesis by (simp add: False)
  qed
  moreover have "batch_part (notify k (end_job i s)) = batch_part (end_job i s)" for k by simp
  ultimately show ?thesis
    using j(1) ended by (auto simp: space_answered_def Let_def q_def [symmetric] j'_def [symmetric]) (auto simp: j'_def)
qed

lemma file_answered_ok:
  assumes ok: "batches_ok s" and i: "in_stage i Sending s"
  shows "batches_ok (file_answered i r s)"
proof -
  obtain j where j: "job_of i s = Some j" "job_stage j = Sending" using i by (auto simp: in_stage_def split: option.splits)
  note jf = job_of_facts [OF j(1)]
  have jo: "job_ok j" and jq: "job_queue j \<noteq> []" and js: "sent_by i s = take (Suc (completedFiles j)) (to_send j)"
    using ok jf j(2) by (auto simp: batches_ok_def list_all_iff sent_ok_def)
  obtain f k q where q: "job_queue j = (f, k) # q" using jq by (cases "job_queue j") auto
  define j' where "j' = j\<lparr>job_queue := q, completedFiles := Suc (completedFiles j),
    bytesUploadedBefore := bytesUploadedBefore j + qf_size f\<rparr>"
  have d: "(f, k) # q = drop (completedFiles j) (uploadQueue j)" using jo q by (simp add: job_ok_def)
  then have lt: "completedFiles j < length (uploadQueue j)" by (metis drop_all leI list.distinct(1))
  with d have nth: "uploadQueue j ! completedFiles j = (f, k)" and dq: "q = drop (Suc (completedFiles j)) (uploadQueue j)"
    by (metis Cons_nth_drop_Suc list.inject)+
  have ok': "job_ok j'" using jo lt nth dq by (simp add: job_ok_def j'_def take_Suc_conv_app_nth)
  have id: "job_id j' = job_id j" by (simp add: j'_def)
  define u where "u = (case r of
      Stored review \<Rightarrow> notify (if review then ''browser.uploadQueuedReview'' else ''browser.uploadedSuccess'')
        (s\<lparr>file_status := (file_status s)(qf_id f := Done_File)\<rparr>)
    | Rejected \<Rightarrow> notify ''browser.failedUpload'' (s\<lparr>file_status := (file_status s)(qf_id f := Error_File)\<rparr>))"
  have "batch_part u = batch_part s" by (cases r) (simp_all add: u_def, simp_all add: batch_part_def)
  then have part: "batch_part (set_job j' u) = (replace_job j' (upload_jobs s), next_job s, sent_files s, finished_jobs s)"
    unfolding batch_part_set_job by (simp add: batch_part_def)
  have e: "file_answered i r s = (if q = [] then after_files j' (set_job j' u) else send_next j' (set_job j' u))"
    using j(1) q by (simp add: file_answered_def Let_def j'_def u_def)
  show ?thesis
  proof (cases "q = []")
    case True
    then have "length (uploadQueue j) \<le> Suc (completedFiles j)" using dq by simp
    then have "sent_by (job_id j) s = to_send j'" using js jf by (simp add: j'_def to_send_def)
    from after_files_ok [OF ok jf(1) id ok' _ this part] show ?thesis by (simp add: e True) (simp add: j'_def True)
  next
    case False
    have "batches_ok (send_next j' (set_job j' u))"
      by (rule send_next_ok [OF ok jf(1) id ok' _ _ _ part]) (use False js jf j(2) in \<open>simp_all add: j'_def to_send_def\<close>)
    then show ?thesis by (simp add: e False)
  qed
qed

lemma pom_answered_ok:
  assumes ok: "batches_ok s" and i: "in_stage i Making_Pom s"
  shows "batches_ok (pom_answered i b s)"
proof -
  obtain j where j: "job_of i s = Some j" "job_stage j = Making_Pom" using i by (auto simp: in_stage_def split: option.splits)
  note jf = job_of_facts [OF j(1)]
  have jo: "job_ok j" "job_queue j = []" "sent_by (job_id j) s = to_send j"
    using ok jf j(2) by (auto simp: batches_ok_def list_all_iff sent_ok_def)
  show ?thesis
    using j(1) by (auto simp: pom_answered_def intro!: job_finishes [OF ok jf(1) refl jo])
      (simp_all add: batch_part_finish notify_def)
qed

lemma upload_step_batches: "batches_ok s \<Longrightarrow> upload_step can e s = Some t \<Longrightarrow> batches_ok t"
proof (cases e)
  case (DestinationTyped d)
  assume "batches_ok s" "upload_step can e s = Some t"
  with DestinationTyped batches_cong [of t s] show ?thesis by (auto simp: batch_part_def)
next
  case (PomTyped p)
  assume "batches_ok s" "upload_step can e s = Some t"
  with PomTyped batches_cong [of t s] show ?thesis by (auto simp: batch_part_def)
next
  case (Moved p)
  assume "batches_ok s" "upload_step can e s = Some t"
  with Moved batches_cong [of t s] show ?thesis by (auto simp: batch_part_def)
qed (auto simp: upload_clicked_ok space_answered_ok file_answered_ok pom_answered_ok batches_cong [OF batch_part_panel(1)]
      batches_cong [OF batch_part_panel(2)] batches_cong [OF batch_part_panel(3)] batches_cong [OF batch_part_panel(4)]
      batches_cong [OF batch_part_panel(5)] batches_cong [OF batch_part_panel(6)] batches_cong [OF batch_part_panel(7)]
      batches_cong [OF batch_part_panel(8)] batches_cong [OF batch_part_panel(9)] split: if_splits)

interpretation uq: machine "upload_step can" batches_ok for can
  by unfold_locales (rule upload_step_batches)

lemma uploads_start_ok: "batches_ok uploads_start"
  by (simp add: batches_ok_def uploads_start_def)

section \<open>No file twice\<close>

text \<open>The button is not clicked again while the space is being checked.\<close>

definition patient_step :: "(string \<Rightarrow> bool) \<Rightarrow> upload_event \<Rightarrow> uploads \<Rightarrow> uploads option" where
  "patient_step can e s =
     (if e = UploadClicked \<and> list_ex (\<lambda>j. job_stage j = Checking_Space) (upload_jobs s) then None else upload_step can e s)"

definition ids :: "queued list \<Rightarrow> nat set" where "ids fs = qf_id ` set fs"

definition once_ok :: "uploads \<Rightarrow> bool" where
  "once_ok s \<longleftrightarrow> length (upload_jobs s) \<le> 1 \<and> (uploading s \<longleftrightarrow> list_ex (\<lambda>j. job_stage j \<noteq> Checking_Space) (upload_jobs s)) \<and>
     distinct (map qf_id (pendingFiles s)) \<and> distinct (map sent_id (sent_files s)) \<and>
     (\<forall>i \<in> ids (pendingFiles s) \<union> sent_id ` set (sent_files s). i < next_file s) \<and>
     (\<not> uploading s \<longrightarrow> ids (pendingFiles s) \<inter> sent_id ` set (sent_files s) = {}) \<and>
     list_all (\<lambda>j. job_stage j = Sending \<longrightarrow> job_queue j \<noteq> [] \<and>
       distinct (map qf_id (map fst (tl (job_queue j)))) \<and>
       (\<forall>i \<in> ids (map fst (tl (job_queue j))). i \<notin> sent_id ` set (sent_files s) \<and> i < next_file s)) (upload_jobs s)"

lemma once_fresh:
  assumes "once_ok s" and "next_file s \<le> i"
  shows "i \<notin> ids (pendingFiles s)" and "i \<notin> sent_id ` set (sent_files s)"
proof -
  have "\<forall>i \<in> ids (pendingFiles s) \<union> sent_id ` set (sent_files s). i < next_file s" using assms(1) unfolding once_ok_def by blast
  then show "i \<notin> ids (pendingFiles s)" "i \<notin> sent_id ` set (sent_files s)" using assms(2) by (meson UnI1 UnI2 leD)+
qed

lemma ids_simps [simp]: "ids [] = {}" "ids (f # fs) = insert (qf_id f) (ids fs)" "ids (as @ bs) = ids as \<union> ids bs"
  by (auto simp: ids_def)

lemma number_files_ids:
  "distinct (map qf_id (number_files i fs)) \<and> ids (number_files i fs) = {i..<i + length fs}"
proof (induction i fs rule: number_files.induct)
  case (2 i n sz fs)
  then show ?case by (auto simp: ids_def)
qed simp

lemma splice_ids: "distinct (map qf_id fs) \<Longrightarrow> distinct (map qf_id (splice_one k fs))" "ids (splice_one k fs) \<subseteq> ids fs"
proof -
  show "ids (splice_one k fs) \<subseteq> ids fs" by (auto simp: ids_def splice_one_def dest: in_set_takeD in_set_dropD)
  assume d: "distinct (map qf_id fs)"
  have "distinct (take k xs @ drop (Suc k) xs)" if "distinct xs" for xs :: "nat list"
    using that by (metis distinct_append distinct_drop distinct_take disjoint_iff set_drop_subset_set_drop set_take_disj_set_drop_if_distinct
        Suc_n_not_le_n nat_le_linear subset_iff)
  from this [OF d] show "distinct (map qf_id (splice_one k fs))" by (simp add: splice_one_def take_map drop_map)
qed

text \<open>Whatever happens to the pending files, unless a file comes back.\<close>

lemma once_panel:
  assumes ok: "once_ok s" and b: "batch_part t = batch_part s" and u: "uploading t = uploading s"
    and p: "distinct (map qf_id (pendingFiles t))" "ids (pendingFiles t) \<subseteq> ids (pendingFiles s) \<union> {next_file s..<next_file t}"
    and n: "next_file s \<le> next_file t"
  shows "once_ok t"
proof -
  have f: "upload_jobs t = upload_jobs s" "sent_files t = sent_files s" using b by (simp_all add: batch_part_def)
  have lt: "i < next_file t" if "i \<in> ids (pendingFiles t) \<union> sent_id ` set (sent_files t)" for i
  proof -
    have "\<forall>i \<in> ids (pendingFiles s) \<union> sent_id ` set (sent_files s). i < next_file s" using ok by (simp add: once_ok_def)
    then have "i < next_file s \<or> i < next_file t"
      using that p(2) unfolding f(2) by (meson UnE UnI1 UnI2 atLeastLessThan_iff subsetD)
    with n show ?thesis by auto
  qed
  have "ids (pendingFiles t) \<inter> sent_id ` set (sent_files t) = {}" if "\<not> uploading t"
  proof -
    have "i \<notin> sent_id ` set (sent_files s)" if "i \<in> {next_file s..<next_file t}" for i
      using that once_fresh(2) [OF ok] by simp
    moreover have "ids (pendingFiles s) \<inter> sent_id ` set (sent_files s) = {}" using ok that u by (simp add: once_ok_def)
    ultimately show ?thesis using p(2) unfolding f(2) by blast
  qed
  moreover have "list_all (\<lambda>j. job_stage j = Sending \<longrightarrow> job_queue j \<noteq> [] \<and> distinct (map qf_id (map fst (tl (job_queue j)))) \<and>
       (\<forall>i \<in> ids (map fst (tl (job_queue j))). i \<notin> sent_id ` set (sent_files t) \<and> i < next_file t)) (upload_jobs t)"
    using ok n unfolding f once_ok_def list_all_iff by (meson order_less_le_trans)
  ultimately show ?thesis using ok p(1) u lt by (simp add: once_ok_def f)
qed

lemma render_fields [simp]:
  "pendingFiles (renderPendingFiles s) = pendingFiles s" "uploading (renderPendingFiles s) = uploading s"
  "next_file (renderPendingFiles s) = next_file s" "upload_jobs (renderPendingFiles s) = upload_jobs s"
  "sent_files (renderPendingFiles s) = sent_files s"
  by (simp_all add: renderPendingFiles_def split: prod.splits)

lemma notify_fields [simp]:
  "pendingFiles (notify k s) = pendingFiles s" "uploading (notify k s) = uploading s" "next_file (notify k s) = next_file s"
  "upload_jobs (notify k s) = upload_jobs s" "sent_files (notify k s) = sent_files s"
  by (simp_all add: notify_def)

lemma once_add:
  assumes ok: "once_ok s"
  shows "once_ok (addPendingFiles fs s)"
proof (rule once_panel [OF ok batch_part_panel(1)])
  have new: "distinct (map qf_id (number_files (next_file s) fs))" "ids (number_files (next_file s) fs) = {next_file s..<next_file s + length fs}"
    using number_files_ids by auto
  have "ids (pendingFiles s) \<inter> {next_file s..<next_file s + length fs} = {}"
    using once_fresh(1) [OF ok] by auto
  then show "distinct (map qf_id (pendingFiles (addPendingFiles fs s)))"
    using ok new by (auto simp: addPendingFiles_def once_ok_def ids_def)
  show "ids (pendingFiles (addPendingFiles fs s)) \<subseteq> ids (pendingFiles s) \<union> {next_file s..<next_file (addPendingFiles fs s)}"
    using new by (simp add: addPendingFiles_def)
qed (simp_all add: addPendingFiles_def)

lemma once_splice:
  assumes "once_ok s" and "batch_part t = batch_part s" "uploading t = uploading s" "next_file t = next_file s"
    and "pendingFiles t = splice_one k (pendingFiles s) \<or> pendingFiles t = [] \<or> pendingFiles t = pendingFiles s"
  shows "once_ok t"
  using assms splice_ids [where fs = "pendingFiles s" and k = k] by (intro once_panel [where s = s and t = t]) (auto simp: once_ok_def)

lemma single_job:
  assumes "once_ok s" and "job_of i s = Some j"
  shows "upload_jobs s = [j]" and "job_id j = i"
proof -
  have "length (upload_jobs s) \<le> 1" using assms(1) by (simp add: once_ok_def)
  moreover note jf = job_of_facts [OF assms(2)]
  ultimately show "upload_jobs s = [j]" by (cases "upload_jobs s") auto
  show "job_id j = i" by (rule jf)
qed

lemma once_clicked:
  assumes ok: "once_ok s" and no: "\<not> list_ex (\<lambda>j. job_stage j = Checking_Space) (upload_jobs s)"
  shows "once_ok (upload_clicked s)"
proof (cases "pendingFiles s = [] \<or> uploading s \<or> (repositoryRequiresGPG s \<and> missing_signatures (pendingFiles s) \<noteq> [])")
  case True
  have "once_ok (notify k s)" for k by (rule once_panel [OF ok]) (use ok in \<open>simp_all add: once_ok_def\<close>)
  with True ok show ?thesis by (auto simp: upload_clicked_def)
next
  case False
  then have "\<not> uploading s" by simp
  with ok have "list_all (\<lambda>j. job_stage j = Checking_Space) (upload_jobs s)" by (simp add: once_ok_def list_ex_iff list_all_iff)
  with no have "upload_jobs s = []" by (cases "upload_jobs s") auto
  with False ok show ?thesis by (auto simp: upload_clicked_def once_ok_def)
qed

text \<open>A batch ends, or waits for its POM.\<close>

lemma once_finish:
  assumes "distinct (map sent_id (sent_files s))" and "\<forall>i \<in> sent_id ` set (sent_files s). i < next_file s"
    and "upload_jobs s = [k]" "job_id k = job_id j"
  shows "once_ok (finish_job j s)"
  using assms by (simp add: finish_job_def once_ok_def end_job_def)

lemma once_after_files:
  assumes sent: "distinct (map sent_id (sent_files s))" "\<forall>i \<in> sent_id ` set (sent_files s). i < next_file s"
    and p: "distinct (map qf_id (pendingFiles s))" "\<forall>i \<in> ids (pendingFiles s). i < next_file s"
    and j: "upload_jobs s = [k]" "job_id k = job_id j" and u: "uploading s"
  shows "once_ok (after_files j s)"
proof -
  have "once_ok (finish_job j s)" "once_ok (finish_job j (notify m s))" for m
    by (rule once_finish [where k = k]; use sent j in simp)+
  moreover have "once_ok (set_job (j\<lparr>job_stage := Making_Pom\<rparr>) (s\<lparr>pom_requests := xs\<rparr>))" for xs
    using sent p j u by (auto simp: once_ok_def set_job_def)
  ultimately show ?thesis by (simp add: after_files_def split: option.splits prod.splits)
qed

lemma once_send_next:
  assumes sent: "distinct (map sent_id (sent_files s))" "\<forall>i \<in> sent_id ` set (sent_files s). i < next_file s"
    and p: "distinct (map qf_id (pendingFiles s))" "\<forall>i \<in> ids (pendingFiles s). i < next_file s"
    and j: "upload_jobs s = [j]" "job_stage j = Sending" and u: "uploading s"
    and q: "job_queue j \<noteq> []" "distinct (map qf_id (map fst (job_queue j)))"
      "\<forall>i \<in> ids (map fst (job_queue j)). i \<notin> sent_id ` set (sent_files s) \<and> i < next_file s"
  shows "once_ok (send_next j s)"
proof -
  obtain f k r where e: "job_queue j = (f, k) # r" using q(1) by (cases "job_queue j") auto
  have "qf_id f \<notin> sent_id ` set (sent_files s)" "qf_id f < next_file s" "qf_id f \<notin> ids (map fst r)"
    using q(2,3) by (auto simp: e ids_def)
  then show ?thesis using sent p j u q(2,3) by (auto simp: once_ok_def send_next_def e)
qed

lemma once_space:
  assumes ok: "once_ok s" and i: "in_stage i Checking_Space s"
  shows "once_ok (space_answered i disk s)"
proof -
  obtain j where j: "job_of i s = Some j" "job_stage j = Checking_Space" using i by (auto simp: in_stage_def split: option.splits)
  note jf = single_job [OF ok j(1)]
  have nu: "\<not> uploading s" using ok jf j(2) by (simp add: once_ok_def)
  have base: "distinct (map sent_id (sent_files s))" "\<forall>i \<in> sent_id ` set (sent_files s). i < next_file s"
    "distinct (map qf_id (pendingFiles s))" "\<forall>i \<in> ids (pendingFiles s). i < next_file s"
    "ids (pendingFiles s) \<inter> sent_id ` set (sent_files s) = {}"
    using ok nu unfolding once_ok_def by blast+
  have ended: "once_ok (end_job i s)" "once_ok (notify k (end_job i s))" for k
    using base nu by (auto simp: once_ok_def end_job_def jf)
  define q where "q = upload_order (zip (pendingFiles s) [0..<length (pendingFiles s)])"
  define j' where "j' = j\<lparr>job_stage := Sending, job_dest := uploadDestination s, job_path := location_path s, uploadQueue := q,
    job_queue := q, job_total := length (pendingFiles s), job_bytes := sum_list (map qf_size (pendingFiles s))\<rparr>"
  have m: "mset q = mset (zip (pendingFiles s) [0..<length (pendingFiles s)])"
    unfolding q_def upload_order_def by (rule mset_sort)
  have "mset (map qf_id (map fst q)) = mset (map qf_id (map fst (zip (pendingFiles s) [0..<length (pendingFiles s)])))"
    by (simp only: mset_map m)
  then have perm: "mset (map qf_id (map fst q)) = mset (map qf_id (pendingFiles s))" by (simp only: map_fst_zip_indices)
  have dq: "distinct (map qf_id (map fst q))" using base(3) mset_eq_imp_distinct_iff [OF perm] by simp
  have iq: "ids (map fst q) = ids (pendingFiles s)" using mset_eq_setD [OF perm] by (simp add: ids_def image_comp o_def)
  let ?r = "set_job j' (s\<lparr>uploading := True\<rparr>)"
  have r: "upload_jobs ?r = [j']" "uploading ?r" "sent_files ?r = sent_files s" "pendingFiles ?r = pendingFiles s"
    "next_file ?r = next_file s" using jf by (simp_all add: set_job_def j'_def)
  have "once_ok (if q = [] then after_files j' ?r else send_next j' ?r)"
  proof (cases "q = []")
    case True
    have "once_ok (after_files j' ?r)" by (rule once_after_files) (use base r in simp_all)
    with True show ?thesis by simp
  next
    case False
    have "once_ok (send_next j' ?r)"
      by (rule once_send_next) (use base r False dq iq in \<open>auto simp: j'_def\<close>)
    with False show ?thesis by simp
  qed
  then show ?thesis
    using j(1) ended by (auto simp: space_answered_def Let_def q_def [symmetric] j'_def [symmetric]) (auto simp: j'_def)
qed

lemma once_running:
  assumes ok: "once_ok s" and j: "job_of i s = Some j" "job_stage j \<noteq> Checking_Space"
  shows "uploading s"
  using ok single_job [OF ok j(1)] j(2) by (simp add: once_ok_def)

lemma once_file:
  assumes ok: "once_ok s" and i: "in_stage i Sending s"
  shows "once_ok (file_answered i r s)"
proof -
  obtain j where j: "job_of i s = Some j" "job_stage j = Sending" using i by (auto simp: in_stage_def split: option.splits)
  note jf = single_job [OF ok j(1)]
  have up: "uploading s" using once_running [OF ok j(1)] j(2) by simp
  obtain f k q where q: "job_queue j = (f, k) # q"
    and qd: "distinct (map qf_id (map fst q))" "\<forall>i \<in> ids (map fst q). i \<notin> sent_id ` set (sent_files s) \<and> i < next_file s"
    using ok j(2) jf by (cases "job_queue j") (auto simp: once_ok_def)
  have base: "distinct (map sent_id (sent_files s))" "\<forall>i \<in> sent_id ` set (sent_files s). i < next_file s"
    "distinct (map qf_id (pendingFiles s))" "\<forall>i \<in> ids (pendingFiles s). i < next_file s"
    using ok unfolding once_ok_def by blast+
  define j' where "j' = j\<lparr>job_queue := q, completedFiles := Suc (completedFiles j),
    bytesUploadedBefore := bytesUploadedBefore j + qf_size f\<rparr>"
  define u where "u = set_job j' (case r of
      Stored review \<Rightarrow> notify (if review then ''browser.uploadQueuedReview'' else ''browser.uploadedSuccess'')
        (s\<lparr>file_status := (file_status s)(qf_id f := Done_File)\<rparr>)
    | Rejected \<Rightarrow> notify ''browser.failedUpload'' (s\<lparr>file_status := (file_status s)(qf_id f := Error_File)\<rparr>))"
  have u: "upload_jobs u = [j']" "uploading u" "sent_files u = sent_files s" "pendingFiles u = pendingFiles s" "next_file u = next_file s"
    using jf up by (cases r; simp add: u_def set_job_def j'_def)+
  have e: "file_answered i r s = (if q = [] then after_files j' u else send_next j' u)"
    using j(1) q by (simp add: file_answered_def Let_def j'_def u_def)
  show ?thesis
  proof (cases "q = []")
    case True
    have "once_ok (after_files j' u)" by (rule once_after_files) (use base u in simp_all)
    with True e show ?thesis by simp
  next
    case False
    have "once_ok (send_next j' u)"
      by (rule once_send_next) (use base u False qd j(2) in \<open>simp_all add: j'_def\<close>)
    with False e show ?thesis by simp
  qed
qed

lemma once_pom:
  assumes ok: "once_ok s" and i: "in_stage i Making_Pom s"
  shows "once_ok (pom_answered i b s)"
proof -
  obtain j where j: "job_of i s = Some j" using i by (auto simp: in_stage_def split: option.splits)
  note jf = single_job [OF ok j]
  have base: "distinct (map sent_id (sent_files s))" "\<forall>i \<in> sent_id ` set (sent_files s). i < next_file s"
    using ok unfolding once_ok_def by blast+
  have "once_ok (finish_job j s)" "once_ok (finish_job j (notify m s))" for m
    by (rule once_finish [where k = j]; use base jf in simp)+
  then show ?thesis using j by (simp add: pom_answered_def)
qed

lemma once_irrelevant [simp]:
  "once_ok (s\<lparr>entries := x\<rparr>) = once_ok s"
  "once_ok (s\<lparr>repositoryPolicySeq := n, policy_requests := r\<rparr>) = once_ok s"
  "once_ok (s\<lparr>uploadDestination := d\<rparr>) = once_ok s" "once_ok (s\<lparr>pom_fields := f\<rparr>) = once_ok s"
  "once_ok (s\<lparr>location_path := d\<rparr>) = once_ok s"
  by (simp_all add: once_ok_def)

lemma patient_step_once:
  assumes "once_ok s" and "patient_step can e s = Some t"
  shows "once_ok t"
proof -
  have st: "upload_step can e s = Some t"
    and no: "e = UploadClicked \<Longrightarrow> \<not> list_ex (\<lambda>j. job_stage j = Checking_Space) (upload_jobs s)"
    using assms(2) by (auto simp: patient_step_def split: if_splits)
  note panel = once_splice [OF assms(1), of t]
  show ?thesis
  proof (cases e)
    case (RemoveClicked f)
    then have t: "t = onRemove f s" using st by simp
    show ?thesis
      by (rule panel [where k = "the (index_of_file f (pendingFiles s))"])
        (simp_all add: t batch_part_panel, auto simp: onRemove_def split: option.splits)
  next
    case (RemovalDone k)
    then have t: "t = removal_done k s" using st by (simp split: if_splits)
    show ?thesis
      by (rule panel [where k = "snd (removals s ! k)"])
        (simp_all add: t batch_part_panel, auto simp: removal_done_def split: prod.splits)
  next
    case ClearClicked
    then have t: "t = clear_clicked s" using st by simp
    show ?thesis by (rule panel) (simp_all add: t batch_part_panel, auto simp: clear_clicked_def)
  next
    case ClearDone
    then have t: "t = clear_done s" using st by (simp split: if_splits)
    show ?thesis by (rule panel) (simp_all add: t batch_part_panel, auto simp: clear_done_def)
  next
    case (PolicyAnswered k d)
    then have t: "t = policy_answered can k d s" using st by (simp split: if_splits)
    show ?thesis
      by (rule panel) (simp_all add: t batch_part_panel, auto simp: policy_answered_def setUploadPanelOpen_def
          applyRepositoryGPGPolicy_def Let_def split: prod.splits option.splits)
  qed (use assms(1) st no in \<open>auto simp: once_add once_clicked once_space once_file once_pom controls_collapsed_def
      updateUploadZone_def panel_collapsed_def batch_part_def split: if_splits intro!: panel\<close>)
qed

interpretation up: machine "patient_step can" once_ok for can
  by unfold_locales (rule patient_step_once)

lemma uploads_start_once: "once_ok uploads_start"
  by (simp add: once_ok_def uploads_start_def)

section \<open>Properties\<close>

text \<open>Both ways of sending name the same place: the target path is the encoded path of the parts.\<close>

lemma squeeze_filter:
  "filter (\<lambda>p. p \<noteq> []) (split_on CHR ''/'' (squeeze_slashes s)) = filter (\<lambda>p. p \<noteq> []) (split_on CHR ''/'' s)"
proof (induction s rule: squeeze_slashes.induct)
  case (1 a b s)
  show ?case
  proof (cases "a = CHR ''/'' \<and> b = CHR ''/''")
    case True
    then show ?thesis using 1(1) by simp
  next
    case False
    have first: "\<exists>r. squeeze_slashes (c # t) = c # r" for c t by (induction t arbitrary: c) auto
    show ?thesis
    proof (cases "a = CHR ''/''")
      case True
      then show ?thesis using False 1(2) by simp
    next
      case a: False
      obtain p ps q qs where pq: "split_on CHR ''/'' (squeeze_slashes (b # s)) = p # ps" "split_on CHR ''/'' (b # s) = q # qs"
        by (metis split_on_nonempty neq_Nil_conv)
      have "filter (\<lambda>p. p \<noteq> []) (p # ps) = filter (\<lambda>p. p \<noteq> []) (q # qs)" using 1(2) a pq by simp
      moreover have "p = [] \<longleftrightarrow> b = CHR ''/''" "q = [] \<longleftrightarrow> b = CHR ''/''"
        using first [of b s] pq by (auto split: if_splits list.splits)
      ultimately have "p = q" "filter (\<lambda>p. p \<noteq> []) ps = filter (\<lambda>p. p \<noteq> []) qs" by (auto split: if_splits)
      then show ?thesis using a pq by simp
    qed
  qed
qed simp_all

lemma same_place: "''/'' @ encodeRelativePath (storage_path (relative_dest dest name)) = target_path dest name"
proof -
  have "filter (\<lambda>p. p \<noteq> []) (split_on CHR ''/'' (drop 1 q)) = filter (\<lambda>p. p \<noteq> []) (split_on CHR ''/'' q)" if "starts_with ''/'' q" for q
    using that by (cases q) auto
  then show ?thesis using squeeze_filter [of "relative_dest dest name"] by (simp add: target_path_def storage_path_def encodeRelativePath_def Let_def)
qed

text \<open>
  C11: A finished batch has sent each of its files exactly once, one after the other, to its name below the destination of the
  batch (a large file in parts, a small one with a single PUT), all artifacts before all detached signatures, and the progress of the batch has counted all its files and bytes; this
  holds for every interleaving of clicks, removals, navigation and answers.
\<close>

theorem upload_batch_exact:
  assumes "run (upload_step can) es uploads_start = Some s" and "j \<in> set (finished_jobs s)"
  shows "sent_by (job_id j) s = map (\<lambda>(f, i). (qf_id f, file_target (job_dest j) f)) (uploadQueue j) \<and>
    completedFiles j = job_total j \<and> job_total j = length (uploadQueue j) \<and> bytesUploadedBefore j = job_bytes j \<and>
    (\<exists>as bs. uploadQueue j = as @ bs \<and> list_all (\<lambda>e. \<not> isGPGDetachedSignature (qf_name (fst e))) as \<and>
       list_all (\<lambda>e. isGPGDetachedSignature (qf_name (fst e))) bs)"
proof -
  have "job_ok j" "job_queue j = []" "sent_by (job_id j) s = to_send j"
    using uq.inv_run [OF assms(1) uploads_start_ok] assms(2) by (auto simp: batches_ok_def list_all_iff)
  then show ?thesis by (auto simp: job_ok_def to_send_def)
qed

definition signed_upload :: "upload_event list" where
  "signed_upload = [Moved ''/r/lib'', DestinationTyped ''r/lib'', FilesAdded [(''a.jar.asc'', 9), (''a.jar'', 50)], UploadClicked,
     SpaceAnswered 0 None, FileAnswered 0 (Stored False), FileAnswered 0 (Stored False)]"

definition outcome :: "upload_event list \<Rightarrow> (nat list \<times> string list \<times> string list) option" where
  "outcome es = map_option (\<lambda>s. (map sent_id (sent_files s), map qf_name (pendingFiles s), upload_notices s))
     (run (upload_step (\<lambda>_. True)) es uploads_start)"

lemma signed_upload_run:
  "case run (upload_step (\<lambda>_. True)) signed_upload uploads_start of None \<Rightarrow> False | Some s \<Rightarrow>
     map sent_id (sent_files s) = [1, 0] \<and> length (finished_jobs s) = 1 \<and> pendingFiles s = [] \<and> \<not> uploading s"
  unfolding signed_upload_def by code_simp

theorem upload_batch_exact_witness:
  "\<exists>s. run (upload_step (\<lambda>_. True)) signed_upload uploads_start = Some s \<and> finished_jobs s \<noteq> [] \<and>
     completedFiles (hd (finished_jobs s)) = job_total (hd (finished_jobs s))"
proof -
  obtain s where run: "run (upload_step (\<lambda>_. True)) signed_upload uploads_start = Some s" and one: "length (finished_jobs s) = 1"
    using signed_upload_run by (auto split: option.splits)
  then have "hd (finished_jobs s) \<in> set (finished_jobs s)" "finished_jobs s \<noteq> []" by (cases "finished_jobs s"; simp)+
  with upload_batch_exact [OF run] run show ?thesis by blast
qed

text \<open>
  C12: As long as the button is not clicked again during the space check, at most one batch runs, no file is ever uploaded twice,
  and a file waiting while nothing runs has not been uploaded.
\<close>

theorem no_file_uploaded_twice:
  assumes "run (patient_step can) es uploads_start = Some s"
  shows "length (upload_jobs s) \<le> 1 \<and> distinct (map sent_id (sent_files s)) \<and>
    (\<not> uploading s \<longrightarrow> (\<forall>f \<in> set (pendingFiles s). qf_id f \<notin> set (map sent_id (sent_files s))))"
  using up.inv_run [OF assms uploads_start_once] by (auto simp: once_ok_def ids_def)

theorem no_file_uploaded_twice_witness:
  "\<exists>s. run (patient_step (\<lambda>_. True)) signed_upload uploads_start = Some s \<and> length (sent_files s) = 2 \<and>
     distinct (map sent_id (sent_files s))"
proof -
  have "case run (patient_step (\<lambda>_. True)) signed_upload uploads_start of None \<Rightarrow> False | Some s \<Rightarrow> length (sent_files s) = 2"
    unfolding signed_upload_def by code_simp
  then obtain s where "run (patient_step (\<lambda>_. True)) signed_upload uploads_start = Some s" "length (sent_files s) = 2"
    by (auto split: option.splits)
  with no_file_uploaded_twice show ?thesis by blast
qed

text \<open>
  Removing a file while no other removal is running removes exactly this file from the pending ones.
\<close>

lemma index_of_file_Some:
  assumes "index_of_file f fs = Some i"
  shows "i < length fs \<and> qf_id (fs ! i) = f"
proof -
  have "i \<in> set (filter (\<lambda>i. qf_id (fs ! i) = f) [0..<length fs])"
    using assms unfolding index_of_file_def by (metis (no_types, lifting) list.case_eq_if list.exhaust_sel list.set_intros(1) option.distinct(1) option.inject)
  then show ?thesis by auto
qed

theorem lone_removal_exact:
  assumes "distinct (map qf_id (pendingFiles s))" and "\<not> uploading s" and "removals s = []"
    and "\<exists>e \<in> set (entries s). Some (en_number e) = index_of_file f (pendingFiles s)" and "f \<in> qf_id ` set (pendingFiles s)"
  shows "pendingFiles (removal_done 0 (onRemove f s)) = filter (\<lambda>g. qf_id g \<noteq> f) (pendingFiles s)"
proof -
  have "index_of_file f (pendingFiles s) \<noteq> None"
    using assms(5) by (fastforce simp: index_of_file_def filter_empty_conv in_set_conv_nth split: list.splits)
  then obtain i where i: "index_of_file f (pendingFiles s) = Some i" by blast
  note at = index_of_file_Some [OF i]
  obtain e where e: "find (\<lambda>e. en_number e = i) (entries s) = Some e"
    using assms(4) i by (cases "find (\<lambda>e. en_number e = i) (entries s)") (auto simp: find_None_iff)
  let ?p = "pendingFiles s"
  have sp: "?p = take i ?p @ ?p ! i # drop (Suc i) ?p" using at by (simp add: id_take_nth_drop)
  have "distinct (map qf_id (take i ?p @ ?p ! i # drop (Suc i) ?p))" using assms(1) sp by simp
  then have d: "f \<notin> qf_id ` set (take i ?p)" "f \<notin> qf_id ` set (drop (Suc i) ?p)" using at by auto
  have keep: "filter (\<lambda>g. qf_id g \<noteq> f) xs = xs" if "f \<notin> qf_id ` set xs" for xs
    using that by (auto simp: filter_id_conv)
  have "filter (\<lambda>g. qf_id g \<noteq> f) ?p = splice_one i ?p"
    using arg_cong [OF sp, of "filter (\<lambda>g. qf_id g \<noteq> f)"] at keep [OF d(1)] keep [OF d(2)] by (simp add: splice_one_def)
  then show ?thesis using assms(2,3) i e by (simp add: onRemove_def removal_done_def)
qed

text \<open>
  What can go wrong: a removal remembers the position the file had when it was clicked, so the second of two quick
  removals takes away another file; a second click during the space check uploads everything twice; a file added during the check
  is uploaded without the signature the repository requires; files added during an upload are dropped at its end.
\<close>

theorem quick_removals_remove_wrong_file:
  "outcome [FilesAdded [(''a'', 1), (''b'', 1), (''c'', 1)], RemoveClicked 0, RemoveClicked 1, RemovalDone 0, RemovalDone 0] =
     Some ([], [''b''], [])"
  by code_simp

theorem double_click_uploads_twice:
  "map_option fst (outcome [Moved ''/r'', DestinationTyped ''r'', FilesAdded [(''a'', 1)], UploadClicked, UploadClicked,
     SpaceAnswered 0 None, SpaceAnswered 1 None]) = Some [0, 0]"
  by code_simp

theorem late_file_evades_signature_check:
  "map_option fst (outcome [PolicyAsked ''/r'', PolicyAnswered 0 (Some (''maven-classic'', True)), Moved ''/r'', FilesAdded [(''a.txt'', 1)],
     UploadClicked, FilesAdded [(''a.jar'', 1)], SpaceAnswered 0 None, FileAnswered 0 (Stored False)]) = Some [0, 1]"
  by code_simp

theorem files_added_during_upload_dropped:
  "outcome [Moved ''/r'', DestinationTyped ''r'', FilesAdded [(''a'', 1)], UploadClicked, SpaceAnswered 0 None, FilesAdded [(''b'', 1)],
     FileAnswered 0 (Stored False)] = Some ([0], [], [''browser.uploadedSuccess''])"
  by code_simp

end
