(* ===== verification/Breadcrumbs.thy ===== *)
theory Breadcrumbs
  imports Uri Machine
begin

text \<open>
  The trail above the repository browser and the button to the directory above (\<open>renderBreadcrumb\<close> in \<open>browser.js\<close>). The
  trail is brought up to date in place: elements that match are kept, the rest is removed and built anew. The path is the
  path of the address, with its segments escaped.
\<close>

section \<open>The trail\<close>

record seg =
  seg_href :: string
  seg_text :: string
  seg_current :: bool
  seg_key :: "string option"

datatype crumb = Sep | Seg seg

definition packages_key :: "string \<Rightarrow> string" where
  "packages_key fmt = (if fmt = ''npm'' then ''npm.packages'' else ''cargo.packagesTitle'')"

definition root_crumb :: "(string \<Rightarrow> string) \<Rightarrow> bool \<Rightarrow> crumb" where
  "root_crumb t current = Seg \<lparr>seg_href = ''/'', seg_text = t ''browser.root'', seg_current = current, seg_key = Some ''browser.root''\<rparr>"

fun part_crumbs :: "(string \<Rightarrow> string) \<Rightarrow> string \<Rightarrow> string \<Rightarrow> nat \<Rightarrow> string list \<Rightarrow> crumb list" where
  "part_crumbs t fmt currentPath i [] = []"
| "part_crumbs t fmt currentPath i (p # ps) =
     (let currentPath = currentPath @ ''/'' @ p; decoded = decodePathSegment p;
          packagesRoute = (fmt = ''cargo'' \<or> fmt = ''npm'') \<and> i = 1 \<and> decoded = ''packages''
      in Sep # Seg \<lparr>seg_href = currentPath, seg_text = (if packagesRoute then t (packages_key fmt) else decoded),
                   seg_current = (ps = []), seg_key = (if packagesRoute then Some (packages_key fmt) else None)\<rparr>
           # part_crumbs t fmt currentPath (Suc i) ps)"

definition desired_crumbs :: "(string \<Rightarrow> string) \<Rightarrow> string \<Rightarrow> string \<Rightarrow> crumb list" where
  "desired_crumbs t fmt path =
     (let parts = breadcrumbPathParts path fmt in root_crumb t (parts = []) # part_crumbs t fmt [] 0 parts)"

text \<open>An element kept: its text changes only for a translated crumb.\<close>

definition keep_seg :: "seg \<Rightarrow> seg \<Rightarrow> seg" where
  "keep_seg old new =
     old\<lparr>seg_current := seg_current new, seg_key := seg_key new,
         seg_text := (if seg_key new \<noteq> None then seg_text new else seg_text old)\<rparr>"

fun update_crumbs :: "crumb list \<Rightarrow> crumb list \<Rightarrow> crumb list" where
  "update_crumbs (Sep # es) (Sep # ds) = Sep # update_crumbs es ds"
| "update_crumbs (Seg e # es) (Seg d # ds) =
     (if seg_href e = seg_href d then Seg (keep_seg e d) # update_crumbs es ds else Seg d # ds)"
| "update_crumbs es ds = ds"

definition renderBreadcrumb :: "(string \<Rightarrow> string) \<Rightarrow> string \<Rightarrow> string \<Rightarrow> crumb list \<Rightarrow> crumb list" where
  "renderBreadcrumb t fmt path es = update_crumbs es (desired_crumbs t fmt path)"

section \<open>The button to the directory above\<close>

text \<open>
  \<open>hide_timers\<close> counts the timers (and animation ends) that will hide the button. The frame after which the button
  gets its visible class is not told apart from the render.
\<close>

record up_button =
  up_href :: string
  up_hidden :: bool
  up_visible :: bool
  up_hiding :: bool
  hide_timers :: nat

definition up_target :: "string \<Rightarrow> string \<Rightarrow> string" where
  "up_target fmt path =
     (let parts = breadcrumbPathParts path fmt in
      if length parts \<le> 1 then ''/'' else ''/'' @ join ''/'' (butlast parts))"

definition hide_now :: "up_button \<Rightarrow> up_button" where
  "hide_now b = b\<lparr>up_hidden := True, up_visible := False, up_hiding := False\<rparr>"

definition render_up :: "string \<Rightarrow> string \<Rightarrow> up_button \<Rightarrow> up_button" where
  "render_up fmt path b =
     (if path = [] \<or> path = ''/''
      then (if up_visible b \<and> \<not> up_hiding b
            then b\<lparr>up_visible := False, up_hiding := True, hide_timers := Suc (hide_timers b)\<rparr>
            else if \<not> up_hiding b then hide_now b else b)
      else b\<lparr>up_hiding := False, up_hidden := False, up_visible := True, up_href := up_target fmt path\<rparr>)"

datatype up_event = Rendered string string | HideTimer

fun up_step :: "up_event \<Rightarrow> up_button \<Rightarrow> up_button option" where
  "up_step (Rendered fmt path) b = Some (render_up fmt path b)"
| "up_step HideTimer b =
     (if hide_timers b > 0 then Some (hide_now (b\<lparr>hide_timers := hide_timers b - 1\<rparr>)) else None)"

definition up_start :: up_button where
  "up_start = \<lparr>up_href = [], up_hidden = True, up_visible = False, up_hiding = False, hide_timers = 0\<rparr>"

section \<open>Places\<close>

fun hrefs :: "crumb list \<Rightarrow> string list" where
  "hrefs [] = []" | "hrefs (Sep # cs) = hrefs cs" | "hrefs (Seg s # cs) = seg_href s # hrefs cs"

fun currents :: "crumb list \<Rightarrow> bool list" where
  "currents [] = []" | "currents (Sep # cs) = currents cs" | "currents (Seg s # cs) = seg_current s # currents cs"

fun crumb_keys :: "crumb list \<Rightarrow> string option list" where
  "crumb_keys [] = []" | "crumb_keys (Sep # cs) = crumb_keys cs" | "crumb_keys (Seg s # cs) = seg_key s # crumb_keys cs"

lemma update_places:
  "hrefs (update_crumbs es ds) = hrefs ds" "currents (update_crumbs es ds) = currents ds"
  "crumb_keys (update_crumbs es ds) = crumb_keys ds"
  by (induction es ds rule: update_crumbs.induct) (simp_all add: keep_seg_def)

lemma replicate_pred: "xs \<noteq> [] \<Longrightarrow> x # replicate (length xs - Suc 0) x = replicate (length xs) x"
  by (cases xs) simp_all

text \<open>The path down to a part.\<close>

definition down_to :: "string list \<Rightarrow> nat \<Rightarrow> string" where
  "down_to parts n = concat (map (\<lambda>p. ''/'' @ p) (take n parts))"

lemma part_places:
  "hrefs (part_crumbs t fmt base i parts) = map (\<lambda>n. base @ down_to parts (Suc n)) [0..<length parts]"
  "currents (part_crumbs t fmt base i parts) = (if parts = [] then [] else replicate (length parts - 1) False @ [True])"
proof (induction parts arbitrary: base i)
  case (Cons p ps)
  {
    case 1
    have "map (\<lambda>n. base @ down_to (p # ps) (Suc n)) [0..<length (p # ps)] =
        (base @ ''/'' @ p) # map (\<lambda>n. (base @ ''/'' @ p) @ down_to ps (Suc n)) [0..<length ps]"
      by (simp only: length_Cons upt_conv_Cons [OF zero_less_Suc] map_Suc_upt [symmetric] list.map map_map)
        (simp add: down_to_def)
    then show ?case using Cons(1) by (simp add: Let_def)
  next
    case 2
    show ?case using Cons(2) [of "base @ ''/'' @ p" "Suc i"] by (cases ps) (simp_all add: Let_def)
  }
qed simp_all

lemma down_to_join: "n \<noteq> 0 \<Longrightarrow> n \<le> length parts \<Longrightarrow> down_to parts n = ''/'' @ join ''/'' (take n parts)"
proof (induction parts arbitrary: n)
  case (Cons p ps)
  then obtain m where m: "n = Suc m" by (cases n) auto
  show ?case
  proof (cases m)
    case 0
    then show ?thesis by (simp add: m down_to_def)
  next
    case (Suc k)
    then have "down_to ps m = ''/'' @ join ''/'' (take m ps)" "take m ps \<noteq> []" using Cons m by auto
    then show ?thesis by (simp add: m down_to_def join_Cons_nonempty)
  qed
qed simp

text \<open>
  C35: The trail follows the path: after a render, whatever was shown before, there is one crumb for the root and one per
  part of the path, each leading to the path down to its part; exactly the last one is marked as the current page; and the
  target computed for the button to the directory above is that of the crumb before the last one.
\<close>

theorem trail_follows_path:
  fixes path fmt :: string
  defines "parts \<equiv> breadcrumbPathParts path fmt"
  shows "hrefs (renderBreadcrumb t fmt path es) = ''/'' # map (\<lambda>n. ''/'' @ join ''/'' (take (Suc n) parts)) [0..<length parts] \<and>
    currents (renderBreadcrumb t fmt path es) = replicate (length parts) False @ [True] \<and>
    (parts \<noteq> [] \<longrightarrow> up_target fmt path = hrefs (renderBreadcrumb t fmt path es) ! (length parts - 1))"
proof -
  have "map (down_to parts \<circ> Suc) [0..<length parts] = map (\<lambda>n. ''/'' @ join ''/'' (take (Suc n) parts)) [0..<length parts]"
    by (rule map_cong) (auto simp: down_to_join)
  then have h: "hrefs (renderBreadcrumb t fmt path es) = ''/'' # map (\<lambda>n. ''/'' @ join ''/'' (take (Suc n) parts)) [0..<length parts]"
    by (simp add: renderBreadcrumb_def update_places desired_crumbs_def Let_def root_crumb_def part_places parts_def o_def)
  moreover have "currents (renderBreadcrumb t fmt path es) = replicate (length parts) False @ [True]"
    by (cases parts) (simp_all add: replicate_pred renderBreadcrumb_def update_places desired_crumbs_def Let_def root_crumb_def part_places parts_def)
  moreover have "up_target fmt path = hrefs (renderBreadcrumb t fmt path es) ! (length parts - 1)" if "parts \<noteq> []"
  proof (cases "length parts \<le> 1")
    case True
    then show ?thesis using that h by (simp add: up_target_def Let_def parts_def [symmetric])
  next
    case False
    then obtain m where m: "length parts = Suc (Suc m)" by (metis One_nat_def Suc_leI Suc_le_D leI less_le_not_le not_less_eq_eq)
    then show ?thesis using h
      by (simp add: up_target_def Let_def parts_def [symmetric] butlast_conv_take nth_append)
  qed
  ultimately show ?thesis by blast
qed

theorem trail_follows_path_witness:
  "hrefs (renderBreadcrumb id ''maven'' ''/r/a/b'' []) = [''/'', ''/r'', ''/r/a'', ''/r/a/b''] \<and> up_target ''maven'' ''/r/a/b'' = ''/r/a''"
proof -
  have parts: "breadcrumbPathParts ''/r/a/b'' ''maven'' = [''r'', ''a'', ''b'']" by code_simp
  then show ?thesis using trail_follows_path [of id "''maven''" "''/r/a/b''" "[]"] by (simp add: upt_rec)
qed

text \<open>
  A trail in which no crumb stands for the list of packages is replaced exactly by the trail of the new path, texts included.
\<close>

lemma part_update_exact:
  "list_all (\<lambda>k. k = None) (crumb_keys (part_crumbs t' fmt' base i ps')) \<Longrightarrow>
   update_crumbs (part_crumbs t' fmt' base i ps') (part_crumbs t fmt base i ps) = part_crumbs t fmt base i ps"
  by (induction ps' arbitrary: base i ps; case_tac ps) (auto simp: Let_def keep_seg_def split: if_splits)

theorem trail_replaced_exactly:
  assumes "list_all (\<lambda>k. k = None) (tl (crumb_keys (desired_crumbs t' fmt' path')))"
  shows "renderBreadcrumb t fmt path (desired_crumbs t' fmt' path') = desired_crumbs t fmt path"
  using assms
  by (simp add: renderBreadcrumb_def desired_crumbs_def Let_def root_crumb_def keep_seg_def part_update_exact)

text \<open>
  Otherwise the title of the list of packages can stay on the crumb of an ordinary directory: the first render after a click
  still uses the format of the repository left. The timer that hides the button is not cancelled by a render that shows it again.
\<close>

theorem packages_title_stays:
  "(let left = renderBreadcrumb id ''cargo'' ''/files/packages'' []; arrived = renderBreadcrumb id ''files'' ''/files/packages'' left
    in map seg_text [s. Seg s \<leftarrow> arrived] = [''browser.root'', ''files'', ''cargo.packagesTitle''])"
  by code_simp

theorem hide_timer_hides_button:
  "map_option up_hidden (run up_step [Rendered ''maven'' ''/r'', Rendered ''maven'' ''/'', Rendered ''maven'' ''/r'', HideTimer] up_start)
     = Some True"
  by code_simp

end
