(* ===== verification/Version_Order.thy ===== *)
theory Version_Order
  imports File_List "HOL-Library.List_Lexorder"
begin

text \<open>
  The order of a directory listing (\<open>compareSemver\<close>, \<open>applyAdjustments\<close> in \<open>browser/utils.js\<close>): directories first, by version,
  then by name; the other files by name. \<open>lc\<close> stands for \<open>localeCompare\<close> with \<open>numeric: true, sensitivity: 'base'\<close>, the
  collation of the browser; \<open>Number\<close> is modelled for the strings that have no dot and no minus, which are all it gets.
\<close>

section \<open>Numbers\<close>

datatype js_num = NaN | Fin nat | Infinity

text \<open>The double next to a natural number, ties to even.\<close>

fun bits :: "nat \<Rightarrow> nat" where
  "bits n = (if n = 0 then 0 else Suc (bits (n div 2)))"

declare bits.simps [simp del]

definition double_of :: "nat \<Rightarrow> js_num" where
  "double_of n =
     (if n < 2 ^ 53 then Fin n
      else let u = bits n - 53; q = n div 2 ^ u; r = n mod 2 ^ u; half = 2 ^ (u - 1);
               d = (if r > half \<or> r = half \<and> odd q then Suc q else q) * 2 ^ u
           in if d < 2 ^ 1024 then Fin d else Infinity)"

definition radix_digit :: "nat \<Rightarrow> char \<Rightarrow> nat option" where
  "radix_digit b c =
     (let n = of_char (lower_char c);
          d = (if 48 \<le> n \<and> n \<le> 57 then n - 48 else if 97 \<le> n \<and> n \<le> 122 then n - 87 else b)
      in if d < b then Some d else None)"

fun radix_value :: "nat \<Rightarrow> nat \<Rightarrow> string \<Rightarrow> nat option" where
  "radix_value b acc [] = Some acc"
| "radix_value b acc (c # cs) = (case radix_digit b c of Some d \<Rightarrow> radix_value b (acc * b + d) cs | None \<Rightarrow> None)"

definition radix_number :: "nat \<Rightarrow> string \<Rightarrow> js_num" where
  "radix_number b s = (if s = [] then NaN else case radix_value b 0 s of Some n \<Rightarrow> double_of n | None \<Rightarrow> NaN)"

definition strip_plus :: "string \<Rightarrow> string" where
  "strip_plus s = (case s of c # cs \<Rightarrow> if c = CHR ''+'' then cs else s | [] \<Rightarrow> [])"

text \<open>A mantissa with an exponent; from \<open>309\<close> on the result is infinite unless the mantissa is zero.\<close>

definition decimal_number :: "string \<Rightarrow> js_num" where
  "decimal_number s =
     (if s = ''Infinity'' then Infinity
      else let exponent = dropWhile (\<lambda>c. lower_char c \<noteq> CHR ''e'') s in
        case read_nat (takeWhile (\<lambda>c. lower_char c \<noteq> CHR ''e'') s) of
          None \<Rightarrow> NaN
        | Some m \<Rightarrow>
            if exponent = [] then double_of m
            else case read_nat (strip_plus (tl exponent)) of
                   None \<Rightarrow> NaN
                 | Some k \<Rightarrow> if m = 0 then Fin 0 else if k \<ge> 309 then Infinity else double_of (m * 10 ^ k))"

definition js_number :: "string \<Rightarrow> js_num" where
  "js_number raw =
     (let s = js_trim raw; prefix = to_lower (take 2 s) in
      if s = [] then Fin 0
      else case read_nat s of
        Some n \<Rightarrow> double_of n
      | None \<Rightarrow>
          if prefix = ''0x'' then radix_number 16 (drop 2 s)
          else if prefix = ''0o'' then radix_number 8 (drop 2 s)
          else if prefix = ''0b'' then radix_number 2 (drop 2 s)
          else decimal_number (strip_plus s))"

fun num_less :: "js_num \<Rightarrow> js_num \<Rightarrow> bool" where
  "num_less (Fin a) (Fin b) = (a < b)"
| "num_less (Fin a) Infinity = True"
| "num_less _ _ = False"

section \<open>Versions\<close>

definition compare_segment :: "(string \<Rightarrow> string \<Rightarrow> int) \<Rightarrow> string \<Rightarrow> string \<Rightarrow> int" where
  "compare_segment lc pStrA pStrB =
     (let na = js_number pStrA; nb = js_number pStrB in
      if na \<noteq> NaN \<and> nb \<noteq> NaN then (if num_less nb na then 1 else if num_less na nb then -1 else 0)
      else lc pStrA pStrB)"

fun compare_segments :: "(string \<Rightarrow> string \<Rightarrow> int) \<Rightarrow> string list \<Rightarrow> string list \<Rightarrow> int" where
  "compare_segments lc [] [] = 0"
| "compare_segments lc [] (y # ys) = -1"
| "compare_segments lc (x # xs) [] = 1"
| "compare_segments lc (x # xs) (y # ys) =
     (if compare_segment lc x y \<noteq> 0 then compare_segment lc x y else compare_segments lc xs ys)"

definition second :: "string list \<Rightarrow> string" where
  "second xs = (case xs of _ # x # _ \<Rightarrow> x | _ \<Rightarrow> [])"

definition compareSemver :: "(string \<Rightarrow> string \<Rightarrow> int) \<Rightarrow> string \<Rightarrow> string \<Rightarrow> int" where
  "compareSemver lc rawA rawB =
     (let a = split_on (CHR ''-'') rawA; b = split_on (CHR ''-'') rawB;
          c = compare_segments lc (split_on (CHR ''.'') (hd a)) (split_on (CHR ''.'') (hd b)) in
      if c \<noteq> 0 then c
      else if second a \<noteq> [] \<and> second b \<noteq> [] then lc (join ''-'' (tl a)) (join ''-'' (tl b))
      else if second a = [] \<and> second b \<noteq> [] then 1
      else if second a \<noteq> [] \<and> second b = [] then -1 else 0)"

section \<open>The listing\<close>

definition hash_extensions :: "string list" where
  "hash_extensions = [''.asc'', ''.md5'', ''.sha1'', ''.sha256'', ''.sha512'']"

definition is_hash_file :: "file_entry \<Rightarrow> bool" where
  "is_hash_file f \<longleftrightarrow> list_ex (\<lambda>ext. ends_with ext (file_name f)) hash_extensions"

definition compare_files :: "(string \<Rightarrow> string \<Rightarrow> int) \<Rightarrow> bool \<Rightarrow> file_entry \<Rightarrow> file_entry \<Rightarrow> int" where
  "compare_files lc reversed a b =
     (if entry_kind a = DIRECTORY \<and> entry_kind b \<noteq> DIRECTORY then -1
      else if entry_kind a \<noteq> DIRECTORY \<and> entry_kind b = DIRECTORY then 1
      else let c0 = (if entry_kind a = DIRECTORY \<and> entry_kind b = DIRECTORY then compareSemver lc (file_name a) (file_name b) else 0);
               c = (if c0 = 0 then lc (file_name a) (file_name b) else c0)
           in if reversed then - c else c)"

text \<open>\<open>Array.sort\<close> is stable; for a comparator that is an order its result is that of the insertion sort.\<close>

fun insert_by :: "('a \<Rightarrow> 'a \<Rightarrow> int) \<Rightarrow> 'a \<Rightarrow> 'a list \<Rightarrow> 'a list" where
  "insert_by cmp x [] = [x]"
| "insert_by cmp x (y # ys) = (if cmp x y \<le> 0 then x # y # ys else y # insert_by cmp x ys)"

definition sort_by :: "('a \<Rightarrow> 'a \<Rightarrow> int) \<Rightarrow> 'a list \<Rightarrow> 'a list" where
  "sort_by cmp xs = foldr (insert_by cmp) xs []"

definition applyAdjustments :: "(string \<Rightarrow> string \<Rightarrow> int) \<Rightarrow> bool \<Rightarrow> bool \<Rightarrow> file_entry list \<Rightarrow> file_entry list" where
  "applyAdjustments lc reversed displayHashFiles files =
     sort_by (compare_files lc reversed) (if displayHashFiles then files else filter (\<lambda>f. \<not> is_hash_file f) files)"

section \<open>Comparators\<close>

text \<open>The contract of a comparator on the values it is used for, and what sorting with it gives.\<close>

locale comparator_on =
  fixes cmp :: "'a \<Rightarrow> 'a \<Rightarrow> int" and A :: "'a set"
  assumes anti: "a \<in> A \<Longrightarrow> b \<in> A \<Longrightarrow> sgn (cmp b a) = - sgn (cmp a b)"
    and trans: "a \<in> A \<Longrightarrow> b \<in> A \<Longrightarrow> c \<in> A \<Longrightarrow> cmp a b \<le> 0 \<Longrightarrow> cmp b c \<le> 0 \<Longrightarrow> cmp a c \<le> 0"
begin

lemma flip: "a \<in> A \<Longrightarrow> b \<in> A \<Longrightarrow> cmp a b \<le> 0 \<longleftrightarrow> 0 \<le> cmp b a"
  using anti [of a b] by (auto simp: sgn_if split: if_splits)

lemma insert_set [simp]: "set (insert_by cmp x ys) = insert x (set ys)"
  by (induction ys) auto

lemma insert_sorted:
  "x \<in> A \<Longrightarrow> set ys \<subseteq> A \<Longrightarrow> sorted_wrt (\<lambda>a b. cmp a b \<le> 0) ys \<Longrightarrow> sorted_wrt (\<lambda>a b. cmp a b \<le> 0) (insert_by cmp x ys)"
proof (induction ys)
  case (Cons y ys)
  show ?case
  proof (cases "cmp x y \<le> 0")
    case True
    then show ?thesis using Cons.prems trans [of x y] by auto
  next
    case False
    then have "cmp y x \<le> 0" using flip [of y x] Cons.prems by auto
    then show ?thesis using False Cons by auto
  qed
qed simp

lemma sort_set [simp]: "set (sort_by cmp xs) = set xs"
  by (induction xs) (auto simp: sort_by_def)

lemma sort_sorted: "set xs \<subseteq> A \<Longrightarrow> sorted_wrt (\<lambda>a b. cmp a b \<le> 0) (sort_by cmp xs)"
proof (induction xs)
  case (Cons x xs)
  then show ?case using insert_sorted [of x "sort_by cmp xs"] sort_set [of xs] by (simp add: sort_by_def)
qed (simp add: sort_by_def)

end

lemma insert_by_mset [simp]: "mset (insert_by cmp x ys) = add_mset x (mset ys)"
  by (induction ys) auto

lemma sort_by_mset [simp]: "mset (sort_by cmp xs) = mset xs"
  by (induction xs) (auto simp: sort_by_def)

section \<open>Release versions\<close>

definition version :: "nat list \<Rightarrow> string" where
  "version ns = join ''.'' (map show_nat ns)"

definition releases :: "string set" where
  "releases = {version ns |ns. ns \<noteq> [] \<and> (\<forall>n \<in> set ns. n < 2 ^ 53)}"

lemma js_number_show: "n < 2 ^ 53 \<Longrightarrow> js_number (show_nat n) = Fin n"
proof -
  have "trimmed (show_nat n)"
    using show_nat_set [of _ n] by (auto simp: trimmed_def digit_not_ws dest: hd_in_set last_in_set)
  then show "n < 2 ^ 53 \<Longrightarrow> ?thesis" by (simp add: js_number_def Let_def double_of_def)
qed

lemma show_nat_free: "\<not> is_digit c \<Longrightarrow> c \<notin> set (show_nat n)"
  using show_nat_set by blast

lemma set_join: "set (join sep xs) \<subseteq> set sep \<union> \<Union> (set ` set xs)"
  by (induction sep xs rule: join.induct) auto

lemma version_split:
  assumes "ns \<noteq> []"
  shows "split_on (CHR ''-'') (version ns) = [version ns]" and "split_on (CHR ''.'') (version ns) = map show_nat ns"
proof -
  have "CHR ''-'' \<notin> set (version ns)"
    using set_join [of "''.''" "map show_nat ns"] show_nat_free [of "CHR ''-''"] by (fastforce simp: version_def is_digit_def)
  then show "split_on (CHR ''-'') (version ns) = [version ns]" by (rule split_on_single)
  show "split_on (CHR ''.'') (version ns) = map show_nat ns"
    using assms show_nat_free [of "CHR ''.''"] unfolding version_def by (intro split_join) (auto simp: is_digit_def)
qed

lemma compare_releases:
  "\<forall>n \<in> set ns. n < 2 ^ 53 \<Longrightarrow> \<forall>n \<in> set ms. n < 2 ^ 53 \<Longrightarrow>
   compare_segments lc (map show_nat ns) (map show_nat ms) = (if ns < ms then -1 else if ms < ns then 1 else 0)"
proof (induction ns arbitrary: ms)
  case Nil
  then show ?case by (cases ms) auto
next
  case (Cons n ns)
  then show ?case by (cases ms) (auto simp: compare_segment_def js_number_show)
qed

lemma compareSemver_version:
  "ns \<noteq> [] \<Longrightarrow> ms \<noteq> [] \<Longrightarrow> \<forall>n \<in> set ns. n < 2 ^ 53 \<Longrightarrow> \<forall>n \<in> set ms. n < 2 ^ 53 \<Longrightarrow>
   compareSemver lc (version ns) (version ms) = (if ns < ms then -1 else if ms < ns then 1 else 0)"
  by (simp add: compareSemver_def Let_def version_split compare_releases second_def)

interpretation release_order: comparator_on "compareSemver lc" releases for lc
proof
  fix a b assume "a \<in> releases" "b \<in> releases"
  then obtain ns ms where v: "a = version ns" "b = version ms" "ns \<noteq> []" "ms \<noteq> []"
      "\<forall>n \<in> set ns. n < 2 ^ 53" "\<forall>n \<in> set ms. n < 2 ^ 53"
    by (auto simp: releases_def)
  then show "sgn (compareSemver lc b a) = - sgn (compareSemver lc a b)"
    using compareSemver_version [OF v(3-6), of lc] compareSemver_version [OF v(4,3,6,5), of lc] by auto
next
  fix a b c assume "a \<in> releases" "b \<in> releases" "c \<in> releases" and le: "compareSemver lc a b \<le> 0" "compareSemver lc b c \<le> 0"
  then obtain ns ms ks where v: "a = version ns" "b = version ms" "c = version ks" "ns \<noteq> []" "ms \<noteq> []" "ks \<noteq> []"
      "\<forall>n \<in> set ns. n < 2 ^ 53" "\<forall>n \<in> set ms. n < 2 ^ 53" "\<forall>n \<in> set ks. n < 2 ^ 53"
    by (auto simp: releases_def)
  then have "\<not> ms < ns" "\<not> ks < ms" using le by (auto simp: compareSemver_version split: if_splits)
  then have "\<not> ks < ns" by auto
  then show "compareSemver lc a c \<le> 0" using v by (simp add: compareSemver_version)
qed

section \<open>Combining comparators\<close>

lemma comparator_uminus: "comparator_on cmp A \<Longrightarrow> comparator_on (\<lambda>a b. - cmp a b) A"
proof
  assume c: "comparator_on cmp A"
  fix a b assume ab: "a \<in> A" "b \<in> A"
  then show "sgn (- cmp b a) = - sgn (- cmp a b)" using comparator_on.anti [OF c ab] by (simp add: sgn_minus)
  fix d assume "d \<in> A" "- cmp a b \<le> 0" "- cmp b d \<le> 0"
  then show "- cmp a d \<le> 0" using ab comparator_on.flip [OF c] comparator_on.trans [OF c, of d b a] by simp
qed

lemma comparator_key: "comparator_on cmp (f ` A) \<Longrightarrow> comparator_on (\<lambda>a b. cmp (f a) (f b)) A"
  unfolding comparator_on_def by blast

text \<open>First by \<open>c1\<close>, then by \<open>c2\<close>, which has to be a comparator among values that \<open>c1\<close> does not tell apart.\<close>

lemma comparator_then:
  assumes c1: "comparator_on c1 A" and c2: "\<And>x. x \<in> A \<Longrightarrow> comparator_on c2 {y \<in> A. c1 x y = 0}"
  shows "comparator_on (\<lambda>a b. if c1 a b = 0 then c2 a b else c1 a b) A"
proof
  have zero: "c1 b a = 0 \<longleftrightarrow> c1 a b = 0" if "a \<in> A" "b \<in> A" for a b
    using comparator_on.anti [OF c1 that] by (auto simp: sgn_if split: if_splits)
  have refl: "c1 a a = 0" if "a \<in> A" for a
    using comparator_on.anti [OF c1 that that] by (auto simp: sgn_if split: if_splits)
  note le = comparator_on.trans [OF c1] and flip = comparator_on.flip [OF c1]
  fix a b assume ab: "a \<in> A" "b \<in> A"
  show "sgn (if c1 b a = 0 then c2 b a else c1 b a) = - sgn (if c1 a b = 0 then c2 a b else c1 a b)"
    using comparator_on.anti [OF c1 ab] comparator_on.anti [OF c2 [OF ab(1)], of a b] zero [OF ab] refl [OF ab(1)] ab by auto
  fix d assume d: "d \<in> A" and h: "(if c1 a b = 0 then c2 a b else c1 a b) \<le> 0" "(if c1 b d = 0 then c2 b d else c1 b d) \<le> 0"
  then have l: "c1 a b \<le> 0" "c1 b d \<le> 0" by (auto split: if_splits)
  then have ad: "c1 a d \<le> 0" using le ab d by blast
  show "(if c1 a d = 0 then c2 a d else c1 a d) \<le> 0"
  proof (cases "c1 a d = 0")
    case True
    then have "c1 d a \<le> 0" using zero [OF ab(1) d] by simp
    then have "c1 b a \<le> 0" "c1 d b \<le> 0" using le [of b d a] le [of d a b] l ab d by auto
    then have "c1 a b = 0" "c1 b d = 0" using l flip [of b a] flip [of d b] ab d by auto
    then show ?thesis using h True comparator_on.trans [OF c2 [OF ab(1)], of a b d] refl [OF ab(1)] ab d by auto
  qed (use ad in simp)
qed

definition directories_first :: "file_entry \<Rightarrow> file_entry \<Rightarrow> int" where
  "directories_first a b =
     (if entry_kind a = DIRECTORY \<and> entry_kind b \<noteq> DIRECTORY then -1
      else if entry_kind a \<noteq> DIRECTORY \<and> entry_kind b = DIRECTORY then 1 else 0)"

definition within_kind :: "(string \<Rightarrow> string \<Rightarrow> int) \<Rightarrow> file_entry \<Rightarrow> file_entry \<Rightarrow> int" where
  "within_kind lc a b =
     (let c0 = (if entry_kind a = DIRECTORY \<and> entry_kind b = DIRECTORY then compareSemver lc (file_name a) (file_name b) else 0)
      in if c0 = 0 then lc (file_name a) (file_name b) else c0)"

lemma compare_files_parts:
  "compare_files lc reversed =
     (\<lambda>a b. if directories_first a b = 0 then (if reversed then - within_kind lc a b else within_kind lc a b) else directories_first a b)"
  by (intro ext) (simp add: compare_files_def directories_first_def within_kind_def Let_def)

lemma comparator_subset: "comparator_on cmp B \<Longrightarrow> A \<subseteq> B \<Longrightarrow> comparator_on cmp A"
  unfolding comparator_on_def by blast

lemma comparator_cong:
  assumes eq: "\<And>a b. a \<in> A \<Longrightarrow> b \<in> A \<Longrightarrow> cmp a b = cmp' a b" and c: "comparator_on cmp' A"
  shows "comparator_on cmp A"
proof
  fix a b assume ab: "a \<in> A" "b \<in> A"
  show "sgn (cmp b a) = - sgn (cmp a b)" unfolding eq [OF ab] eq [OF ab(2,1)] by (rule comparator_on.anti [OF c ab])
  fix d assume d: "d \<in> A" "cmp a b \<le> 0" "cmp b d \<le> 0"
  then show "cmp a d \<le> 0"
    using comparator_on.trans [OF c ab d(1)] unfolding eq [OF ab] eq [OF ab(2) d(1)] eq [OF ab(1) d(1)] by blast
qed

section \<open>Names with numbers\<close>

text \<open>
  What is documented of a collation with \<open>numeric: true\<close>: it is an order, and it puts decimal numbers in the order of
  their values. Names are \<open>plain\<close> when each segment of their version is a decimal number below \<open>2^53\<close> without leading
  zeros, or a word that \<open>Number\<close> cannot read: \<open>1.10\<close>, \<open>2.0.0-beta.1\<close>, \<open>1.0-SNAPSHOT\<close>, \<open>com\<close>, but not \<open>1e1\<close> or \<open>1..2\<close>.
\<close>

definition numeric_collation :: "(string \<Rightarrow> string \<Rightarrow> int) \<Rightarrow> bool" where
  "numeric_collation lc \<longleftrightarrow> comparator_on lc UNIV \<and> (\<forall>m n. sgn (lc (show_nat m) (show_nat n)) = sgn (int m - int n))"

definition version_part :: "string \<Rightarrow> string" where
  "version_part name = takeWhile (\<lambda>c. c \<noteq> CHR ''-'') name"

definition segments_of :: "string \<Rightarrow> string list" where
  "segments_of name = split_on (CHR ''.'') (version_part name)"

definition qualifier :: "string \<Rightarrow> string" where
  "qualifier name = (let q = tl (dropWhile (\<lambda>c. c \<noteq> CHR ''-'') name) in if q \<noteq> [] \<and> hd q = CHR ''-'' then [] else q)"

definition plain_segment :: "string \<Rightarrow> bool" where
  "plain_segment s \<longleftrightarrow> js_number s = NaN \<or> (\<exists>n < 2 ^ 53. s = show_nat n)"

definition plain_entry :: "file_entry \<Rightarrow> bool" where
  "plain_entry f \<longleftrightarrow> (entry_kind f = DIRECTORY \<longrightarrow> (\<forall>s \<in> set (segments_of (file_name f)). plain_segment s))"

text \<open>
  The order promised, without reference to how it is computed: the first segment that differs decides, a version comes
  before its extensions; of equal versions the qualified one comes first, then the qualifiers and at last the names decide.
\<close>

definition segments_before :: "(string \<Rightarrow> string \<Rightarrow> int) \<Rightarrow> string list \<Rightarrow> string list \<Rightarrow> bool" where
  "segments_before lc xs ys \<longleftrightarrow>
     (\<exists>i < length ys. i \<le> length xs \<and> (\<forall>j < i. lc (xs ! j) (ys ! j) = 0) \<and> (i < length xs \<longrightarrow> lc (xs ! i) (ys ! i) < 0))"

definition same_segments :: "(string \<Rightarrow> string \<Rightarrow> int) \<Rightarrow> string list \<Rightarrow> string list \<Rightarrow> bool" where
  "same_segments lc = list_all2 (\<lambda>x y. lc x y = 0)"

definition directory_before :: "(string \<Rightarrow> string \<Rightarrow> int) \<Rightarrow> string \<Rightarrow> string \<Rightarrow> bool" where
  "directory_before lc a b \<longleftrightarrow>
     segments_before lc (segments_of a) (segments_of b) \<or>
     same_segments lc (segments_of a) (segments_of b) \<and>
       (qualifier a \<noteq> [] \<and> qualifier b = [] \<or>
        qualifier a \<noteq> [] \<and> qualifier b \<noteq> [] \<and> lc (qualifier a) (qualifier b) < 0 \<or>
        (qualifier a = [] \<and> qualifier b = [] \<or> qualifier a \<noteq> [] \<and> qualifier b \<noteq> [] \<and> lc (qualifier a) (qualifier b) = 0) \<and>
          lc a b \<le> 0)"

definition listed_before :: "(string \<Rightarrow> string \<Rightarrow> int) \<Rightarrow> file_entry \<Rightarrow> file_entry \<Rightarrow> bool" where
  "listed_before lc a b \<longleftrightarrow>
     (if entry_kind a = DIRECTORY \<and> entry_kind b = DIRECTORY then directory_before lc (file_name a) (file_name b)
      else lc (file_name a) (file_name b) \<le> 0)"

lemma split_on_first: "hd (split_on c s) = takeWhile (\<lambda>x. x \<noteq> c) s"
  by (induction s) (auto split: list.splits)

lemma split_on_rest: "join [c] (tl (split_on c s)) = tl (dropWhile (\<lambda>x. x \<noteq> c) s)"
  by (induction s) (auto split: list.splits)

lemma second_free: "second (split_on c s) = takeWhile (\<lambda>x. x \<noteq> c) (tl (dropWhile (\<lambda>x. x \<noteq> c) s))"
proof (induction s)
  case (Cons x s)
  show ?case
  proof (cases "x = c")
    case True
    then show ?thesis
      using split_on_first [of c s] by (cases "split_on c s") (auto simp: second_def)
  next
    case False
    then show ?thesis using Cons by (cases "split_on c s") (auto simp: second_def split: list.splits)
  qed
qed (simp add: second_def)

text \<open>The three steps of the comparison of two directory names.\<close>

definition compare_qualifiers :: "(string \<Rightarrow> string \<Rightarrow> int) \<Rightarrow> string \<Rightarrow> string \<Rightarrow> int" where
  "compare_qualifiers lc a b =
     (if qualifier a \<noteq> [] \<and> qualifier b \<noteq> [] then lc (qualifier a) (qualifier b)
      else if qualifier a = [] \<and> qualifier b \<noteq> [] then 1 else if qualifier a \<noteq> [] \<and> qualifier b = [] then -1 else 0)"

lemma compareSemver_steps:
  "compareSemver lc a b =
     (if compare_segments lc (segments_of a) (segments_of b) = 0 then compare_qualifiers lc a b
      else compare_segments lc (segments_of a) (segments_of b))"
proof -
  have q: "second (split_on CHR ''-'' n) \<noteq> [] \<longleftrightarrow> qualifier n \<noteq> []" for n
    unfolding second_free qualifier_def Let_def by (cases "tl (dropWhile (\<lambda>x. x \<noteq> CHR ''-'') n)") auto
  have r: "qualifier n \<noteq> [] \<Longrightarrow> join ''-'' (tl (split_on CHR ''-'' n)) = qualifier n" for n
    unfolding split_on_rest by (auto simp: qualifier_def Let_def split: if_splits)
  show ?thesis
    using q [of a] q [of b] r [of a] r [of b]
    unfolding compareSemver_def compare_qualifiers_def Let_def split_on_first segments_of_def version_part_def by auto
qed

lemma compare_segment_sgn:
  assumes "numeric_collation lc" and "plain_segment s" and "plain_segment t"
  shows "sgn (compare_segment lc s t) = sgn (lc s t)"
proof (cases "js_number s \<noteq> NaN \<and> js_number t \<noteq> NaN")
  case True
  then obtain m n where "s = show_nat m" "t = show_nat n" "m < 2 ^ 53" "n < 2 ^ 53"
    using assms(2,3) by (auto simp: plain_segment_def)
  then show ?thesis using assms(1) by (auto simp: compare_segment_def js_number_show numeric_collation_def)
qed (auto simp: compare_segment_def Let_def)

lemma segments_before_rec [simp]:
  "segments_before lc [] ys \<longleftrightarrow> ys \<noteq> []"
  "\<not> segments_before lc xs []"
  "segments_before lc (x # xs) (y # ys) \<longleftrightarrow> lc x y < 0 \<or> lc x y = 0 \<and> segments_before lc xs ys"
proof -
  show "segments_before lc [] ys \<longleftrightarrow> ys \<noteq> []" "\<not> segments_before lc xs []" by (auto simp: segments_before_def)
  show "segments_before lc (x # xs) (y # ys) \<longleftrightarrow> lc x y < 0 \<or> lc x y = 0 \<and> segments_before lc xs ys" (is "?l \<longleftrightarrow> ?r")
  proof
    assume ?l
    then obtain i where i: "i < length (y # ys)" "i \<le> length (x # xs)" "\<forall>j < i. lc ((x # xs) ! j) ((y # ys) ! j) = 0"
        "i < length (x # xs) \<longrightarrow> lc ((x # xs) ! i) ((y # ys) ! i) < 0"
      unfolding segments_before_def by blast
    show ?r
    proof (cases i)
      case (Suc k)
      then have "lc x y = 0" "\<forall>j < k. lc (xs ! j) (ys ! j) = 0" using i(3) by fastforce+
      then show ?thesis using i Suc by (auto simp: segments_before_def)
    qed (use i in auto)
  next
    assume ?r
    then show ?l
    proof
      assume "lc x y < 0"
      then show ?l unfolding segments_before_def by (intro exI [of _ 0]) auto
    next
      assume h: "lc x y = 0 \<and> segments_before lc xs ys"
      then obtain i where "i < length ys" "i \<le> length xs" "\<forall>j < i. lc (xs ! j) (ys ! j) = 0" "i < length xs \<longrightarrow> lc (xs ! i) (ys ! i) < 0"
        unfolding segments_before_def by blast
      then show ?l using h unfolding segments_before_def by (intro exI [of _ "Suc i"]) (auto simp: nth_Cons split: nat.splits)
    qed
  qed
qed

lemma compare_segments_step:
  assumes "numeric_collation lc" and "plain_segment x" and "plain_segment y"
  shows "sgn (compare_segments lc (x # xs) (y # ys)) = (if lc x y = 0 then sgn (compare_segments lc xs ys) else sgn (lc x y))"
  using compare_segment_sgn [OF assms] by (auto simp: sgn_if split: if_splits)

lemma sgn_signs: "(i :: int) < 0 \<longleftrightarrow> sgn i = -1" "i = 0 \<longleftrightarrow> sgn i = 0" "i \<le> 0 \<longleftrightarrow> sgn i \<le> 0"
  by (auto simp: sgn_if)

lemma compare_segments_signs:
  assumes lc: "numeric_collation lc"
  shows "\<forall>s \<in> set xs. plain_segment s \<Longrightarrow> \<forall>s \<in> set ys. plain_segment s \<Longrightarrow>
    (compare_segments lc xs ys < 0 \<longleftrightarrow> segments_before lc xs ys) \<and> (compare_segments lc xs ys = 0 \<longleftrightarrow> same_segments lc xs ys)"
proof (induction xs arbitrary: ys)
  case Nil
  then show ?case by (cases ys) (auto simp: same_segments_def)
next
  case (Cons x xs)
  show ?case
  proof (cases ys)
    case (Cons y zs)
    then have ih: "(compare_segments lc xs zs < 0 \<longleftrightarrow> segments_before lc xs zs) \<and> (compare_segments lc xs zs = 0 \<longleftrightarrow> same_segments lc xs zs)"
      and step: "sgn (compare_segments lc (x # xs) (y # zs)) = (if lc x y = 0 then sgn (compare_segments lc xs zs) else sgn (lc x y))"
      using Cons.IH [of zs] Cons.prems compare_segments_step [OF lc, of x y xs zs] by auto
    have "compare_segments lc (x # xs) (y # zs) < 0 \<longleftrightarrow> (if lc x y = 0 then compare_segments lc xs zs < 0 else lc x y < 0)"
      "compare_segments lc (x # xs) (y # zs) = 0 \<longleftrightarrow> lc x y = 0 \<and> compare_segments lc xs zs = 0"
      using step by (auto simp: sgn_if split: if_splits)
    then show ?thesis unfolding Cons using ih by (simp add: same_segments_def)
  qed (auto simp: same_segments_def)
qed

text \<open>On plain names each step is a comparator, so the whole comparison is.\<close>

lemma segments_comparator:
  assumes num: "numeric_collation lc"
  shows "comparator_on (compare_segments lc) {xs. \<forall>s \<in> set xs. plain_segment s}"
proof -
  have lc: "comparator_on lc UNIV" using num by (simp add: numeric_collation_def)
  have anti: "sgn (compare_segments lc ys xs) = - sgn (compare_segments lc xs ys)"
    if "\<forall>s \<in> set xs. plain_segment s" "\<forall>s \<in> set ys. plain_segment s" for xs ys
    using that
  proof (induction xs arbitrary: ys)
    case Nil
    then show ?case by (cases ys) auto
  next
    case (Cons x xs)
    show ?case
    proof (cases ys)
      case (Cons y zs)
      then show ?thesis
        using Cons.IH [of zs] Cons.prems compare_segments_step [OF num, of x y xs zs] compare_segments_step [OF num, of y x zs xs]
          comparator_on.anti [OF lc, of x y] by (auto simp: sgn_if split: if_splits)
    qed simp
  qed
  have trans: "compare_segments lc xs zs \<le> 0"
    if "\<forall>s \<in> set xs. plain_segment s" "\<forall>s \<in> set ys. plain_segment s" "\<forall>s \<in> set zs. plain_segment s"
      "compare_segments lc xs ys \<le> 0" "compare_segments lc ys zs \<le> 0" for xs ys zs
    using that
  proof (induction xs arbitrary: ys zs)
    case Nil
    then show ?case by (cases zs) auto
  next
    case (Cons x xs)
    obtain y ys' z zs' where l: "ys = y # ys'" "zs = z # zs'" using Cons.prems(4,5) by (cases ys; cases zs) auto
    have le: "compare_segments lc (a # as') (b # bs) \<le> 0 \<longleftrightarrow> (if lc a b = 0 then compare_segments lc as' bs \<le> 0 else lc a b \<le> 0)"
      if "plain_segment a" "plain_segment b" for a b as' bs
      using compare_segments_step [OF num that, of as' bs] by (auto simp: sgn_if split: if_splits)
    have p: "plain_segment x" "plain_segment y" "plain_segment z" using Cons.prems(1-3) l by auto
    have h: "if lc x y = 0 then compare_segments lc xs ys' \<le> 0 else lc x y \<le> 0" "if lc y z = 0 then compare_segments lc ys' zs' \<le> 0 else lc y z \<le> 0"
      using Cons.prems(4,5) unfolding l le [OF p(1,2)] le [OF p(2,3)] by blast+
    have ih: "compare_segments lc xs ys' \<le> 0 \<Longrightarrow> compare_segments lc ys' zs' \<le> 0 \<Longrightarrow> compare_segments lc xs zs' \<le> 0"
      using Cons.IH [of ys' zs'] Cons.prems(1-3) l by simp
    have xyz: "lc x y \<le> 0" "lc y z \<le> 0" using h by (auto split: if_splits)
    then have xz: "lc x z \<le> 0" using comparator_on.trans [OF lc, of x y z] by simp
    have "lc x y = 0 \<and> lc y z = 0" if "lc x z = 0"
    proof -
      have "lc z x = 0" using comparator_on.anti [OF lc, of x z] that by (auto simp: sgn_if split: if_splits)
      then have "lc y x \<le> 0" "lc z y \<le> 0"
        using comparator_on.trans [OF lc, of y z x] comparator_on.trans [OF lc, of z x y] xyz by auto
      then show ?thesis using comparator_on.flip [OF lc, of y x] comparator_on.flip [OF lc, of z y] xyz by auto
    qed
    then show ?case unfolding l le [OF p(1,3)] using h ih xz by auto
  qed
  show ?thesis by standard (use anti trans in blast)+
qed

lemma qualifiers_comparator:
  assumes "comparator_on lc UNIV"
  shows "comparator_on (compare_qualifiers lc) UNIV"
proof
  fix a b
  show "sgn (compare_qualifiers lc b a) = - sgn (compare_qualifiers lc a b)"
    using comparator_on.anti [OF assms, of "qualifier a" "qualifier b"] by (auto simp: compare_qualifiers_def)
  fix c assume "compare_qualifiers lc a b \<le> 0" "compare_qualifiers lc b c \<le> 0"
  then show "compare_qualifiers lc a c \<le> 0"
    using comparator_on.trans [OF assms, of "qualifier a" "qualifier b" "qualifier c"]
    by (auto simp: compare_qualifiers_def split: if_splits)
qed

definition plain_names :: "string set" where
  "plain_names = {n. \<forall>s \<in> set (segments_of n). plain_segment s}"

lemma compareSemver_comparator:
  assumes "numeric_collation lc"
  shows "comparator_on (compareSemver lc) plain_names"
proof -
  have lc: "comparator_on lc UNIV" using assms by (simp add: numeric_collation_def)
  have "comparator_on (\<lambda>a b. compare_segments lc (segments_of a) (segments_of b)) plain_names"
    by (rule comparator_key, rule comparator_subset [OF segments_comparator [OF assms]]) (auto simp: plain_names_def)
  then have "comparator_on (\<lambda>a b. if compare_segments lc (segments_of a) (segments_of b) = 0 then compare_qualifiers lc a b
      else compare_segments lc (segments_of a) (segments_of b)) plain_names"
    by (rule comparator_then) (rule comparator_subset [OF qualifiers_comparator [OF lc] subset_UNIV])
  then show ?thesis by (rule comparator_cong [rotated]) (rule compareSemver_steps)
qed

lemma within_kind_comparator:
  assumes num: "numeric_collation lc" and x: "plain_entry x"
  shows "comparator_on (within_kind lc) {y. plain_entry y \<and> directories_first x y = 0}"
proof -
  have lc: "comparator_on lc UNIV" using num by (simp add: numeric_collation_def)
  have name: "comparator_on (\<lambda>a b. lc (file_name a) (file_name b)) B" for B :: "file_entry set"
    by (rule comparator_key, rule comparator_subset [OF lc]) simp
  show ?thesis
  proof (cases "entry_kind x = DIRECTORY")
    case True
    then have dirs: "file_name f \<in> plain_names" "entry_kind f = DIRECTORY"
      if "f \<in> {y. plain_entry y \<and> directories_first x y = 0}" for f
      using that by (auto simp: plain_entry_def plain_names_def directories_first_def split: if_splits)
    have "comparator_on (\<lambda>a b. compareSemver lc (file_name a) (file_name b)) {y. plain_entry y \<and> directories_first x y = 0}"
      by (rule comparator_key, rule comparator_subset [OF compareSemver_comparator [OF num]]) (use dirs in auto)
    then have "comparator_on (\<lambda>a b. if compareSemver lc (file_name a) (file_name b) = 0 then lc (file_name a) (file_name b)
        else compareSemver lc (file_name a) (file_name b)) {y. plain_entry y \<and> directories_first x y = 0}"
      by (rule comparator_then) (rule name)
    then show ?thesis by (rule comparator_cong [rotated]) (use dirs in \<open>simp add: within_kind_def Let_def\<close>)
  next
    case False
    then have "entry_kind f \<noteq> DIRECTORY" if "f \<in> {y. plain_entry y \<and> directories_first x y = 0}" for f
      using that by (auto simp: directories_first_def split: if_splits)
    then show ?thesis by (intro comparator_cong [OF _ name]) (simp add: within_kind_def Let_def)
  qed
qed

lemma compare_files_comparator:
  assumes "numeric_collation lc"
  shows "comparator_on (compare_files lc reversed) (Collect plain_entry)"
  unfolding compare_files_parts
proof (rule comparator_then)
  show "comparator_on directories_first (Collect plain_entry)"
    by standard (auto simp: directories_first_def split: if_splits)
  fix x assume x: "x \<in> Collect plain_entry"
  show "comparator_on (\<lambda>a b. if reversed then - within_kind lc a b else within_kind lc a b)
      {y \<in> Collect plain_entry. directories_first x y = 0}"
    using within_kind_comparator [OF assms, of x] comparator_uminus [OF within_kind_comparator [OF assms, of x]] x
    by (cases reversed) simp_all
qed

text \<open>And its sign says which name comes first.\<close>

lemma within_kind_before:
  assumes num: "numeric_collation lc" and a: "plain_entry a" and b: "plain_entry b"
  shows "within_kind lc a b \<le> 0 \<longleftrightarrow> listed_before lc a b"
proof (cases "entry_kind a = DIRECTORY \<and> entry_kind b = DIRECTORY")
  case True
  define na nb where "na = file_name a" and "nb = file_name b"
  define c where "c = compare_segments lc (segments_of na) (segments_of nb)"
  have s: "c < 0 \<longleftrightarrow> segments_before lc (segments_of na) (segments_of nb)" "c = 0 \<longleftrightarrow> same_segments lc (segments_of na) (segments_of nb)"
    using compare_segments_signs [OF num, of "segments_of na" "segments_of nb"] a b True
    by (auto simp: plain_entry_def na_def nb_def c_def)
  have w: "within_kind lc a b =
      (if c = 0 then if compare_qualifiers lc na nb = 0 then lc na nb else compare_qualifiers lc na nb else c)"
    using True by (simp add: within_kind_def compareSemver_steps na_def nb_def c_def)
  have l: "listed_before lc a b \<longleftrightarrow> directory_before lc na nb" using True by (simp add: listed_before_def na_def nb_def)
  show ?thesis
    unfolding w l directory_before_def s [symmetric] compare_qualifiers_def by auto
next
  case False
  then show ?thesis by (auto simp: within_kind_def listed_before_def)
qed

lemma releases_sorted: "set xs \<subseteq> releases \<Longrightarrow> sorted_wrt (\<lambda>a b. compareSemver lc a b \<le> 0) (sort_by (compareSemver lc) xs)"
  by (rule release_order.sort_sorted)

section \<open>Properties\<close>

text \<open>
  C37: For every two release versions, whatever the collation of the browser, \<open>compareSemver\<close> is the lexicographic order
  of their numbers: a version comes before its extensions, and \<open>1.10\<close> after \<open>1.9\<close>.
\<close>

theorem version_order_lexicographic:
  assumes "ns \<noteq> []" and "ms \<noteq> []" and "\<forall>n \<in> set ns. n < 2 ^ 53" and "\<forall>n \<in> set ms. n < 2 ^ 53"
  shows "compareSemver lc (version ns) (version ms) = (if ns < ms then -1 else if ms < ns then 1 else 0)"
  using assms by (rule compareSemver_version)

theorem version_order_lexicographic_witness:
  "version [1, 10] = ''1.10'' \<and> version [1, 9, 3] = ''1.9.3'' \<and> compareSemver (\<lambda>a b. 0) (version [1, 10]) (version [1, 9, 3]) = 1"
proof -
  have "version [1, 10] = ''1.10''" "version [1, 9, 3] = ''1.9.3''" by code_simp+
  then show ?thesis using version_order_lexicographic [of "[1, 10]" "[1, 9, 3]" "\<lambda>a b. 0"] by simp
qed

text \<open>
  C36: Let the collation be an order that compares decimal numbers by value, and let the segments of the versions of the
  directories be decimal numbers or words (as in \<open>com\<close>, \<open>1.10\<close>, \<open>1.0-SNAPSHOT\<close>). The listing shown has the entries of the
  listing received, without the hash files when these are hidden, and of two entries the earlier one is not a file while
  the later is a directory; directories are in the order of \<open>directory_before\<close>, files in the order of their names, or both
  reversed. Other names have no order of their own: \<open>version_order_has_cycle\<close>.
\<close>

theorem listing_sorted:
  fixes reversed displayHashFiles :: bool
  assumes "numeric_collation lc" and "\<forall>f \<in> set files. plain_entry f"
  defines "shown \<equiv> applyAdjustments lc reversed displayHashFiles files"
  shows "mset shown = filter_mset (\<lambda>f. displayHashFiles \<or> \<not> (\<exists>e \<in> {''.asc'', ''.md5'', ''.sha1'', ''.sha256'', ''.sha512''}. ends_with e (file_name f)))
      (mset files) \<and>
    sorted_wrt (\<lambda>a b. (entry_kind b = DIRECTORY \<longrightarrow> entry_kind a = DIRECTORY) \<and>
      ((entry_kind a = DIRECTORY \<longleftrightarrow> entry_kind b = DIRECTORY) \<longrightarrow>
         (if reversed then listed_before lc b a else listed_before lc a b))) shown"
proof
  define kept where "kept = (if displayHashFiles then files else filter (\<lambda>f. \<not> is_hash_file f) files)"
  have shown: "shown = sort_by (compare_files lc reversed) kept" by (simp add: shown_def applyAdjustments_def kept_def)
  show "mset shown = filter_mset (\<lambda>f. displayHashFiles \<or> \<not> (\<exists>e \<in> {''.asc'', ''.md5'', ''.sha1'', ''.sha256'', ''.sha512''}. ends_with e (file_name f)))
      (mset files)"
    by (simp add: shown kept_def is_hash_file_def hash_extensions_def mset_filter [symmetric] del: mset_filter)
  have plain: "set kept \<subseteq> Collect plain_entry" using assms(2) by (auto simp: kept_def)
  then have sorted: "sorted_wrt (\<lambda>a b. compare_files lc reversed a b \<le> 0) shown"
    unfolding shown by (rule comparator_on.sort_sorted [OF compare_files_comparator [OF assms(1)]])
  have "set shown \<subseteq> Collect plain_entry"
    using plain mset_eq_setD [of shown kept] by (simp add: shown)
  moreover have "0 \<le> within_kind lc a b \<longleftrightarrow> listed_before lc b a"
    if "plain_entry a" "plain_entry b" "directories_first a b = 0" for a b
    using comparator_on.flip [OF within_kind_comparator [OF assms(1) that(1)], of b a] that
      within_kind_before [OF assms(1) that(2,1)] by (auto simp: directories_first_def)
  ultimately show "sorted_wrt (\<lambda>a b. (entry_kind b = DIRECTORY \<longrightarrow> entry_kind a = DIRECTORY) \<and>
      ((entry_kind a = DIRECTORY \<longleftrightarrow> entry_kind b = DIRECTORY) \<longrightarrow>
         (if reversed then listed_before lc b a else listed_before lc a b))) shown"
    by (intro sorted_wrt_mono_rel [OF _ sorted])
      (auto simp: compare_files_parts directories_first_def within_kind_before [OF assms(1)] subset_iff split: if_splits)
qed

definition dir :: "string \<Rightarrow> file_entry" where
  "dir n = \<lparr>file_name = n, entry_kind = DIRECTORY, content_length = None, signed_file = False\<rparr>"

text \<open>A collation to try it with: numbers by value, before the words.\<close>

definition digits_first :: "string \<Rightarrow> nat list" where
  "digits_first s = (case read_nat s of Some n \<Rightarrow> [0, n] | None \<Rightarrow> 1 # map of_char s)"

definition sample_collation :: "string \<Rightarrow> string \<Rightarrow> int" where
  "sample_collation a b = (if digits_first a < digits_first b then -1 else if digits_first b < digits_first a then 1 else 0)"

lemma sample_numeric: "numeric_collation sample_collation"
proof -
  have "comparator_on sample_collation UNIV"
    by standard (auto simp: sample_collation_def split: if_splits)
  then show ?thesis by (auto simp: numeric_collation_def sample_collation_def digits_first_def)
qed

lemma js_number_com: "js_number ''com'' = NaN"
proof -
  have t: "js_trim ''com'' = ''com''" by code_simp
  have r: "read_nat ''com'' = None" by code_simp
  have p: "to_lower (take 2 ''com'') = ''co''" by code_simp
  have e: "takeWhile (\<lambda>c. lower_char c \<noteq> CHR ''e'') ''com'' = ''com''" "strip_plus ''com'' = ''com''" by code_simp+
  show ?thesis unfolding js_number_def Let_def t r p decimal_number_def e using r by simp
qed

lemma sample_plain: "\<forall>f \<in> set [jar, dir ''1.9-rc.1'', dir ''com'', md5, dir ''1.10'', dir ''1.9'']. plain_entry f"
proof -
  have "segments_of ''1.9-rc.1'' = map show_nat [1, 9]" "segments_of ''1.9'' = map show_nat [1, 9]"
    "segments_of ''1.10'' = map show_nat [1, 10]" "segments_of ''com'' = [''com'']" by code_simp+
  then show ?thesis using js_number_com by (fastforce simp: plain_entry_def plain_segment_def dir_def jar_def md5_def)
qed

theorem listing_sorted_witness:
  "listed_before sample_collation (dir ''1.9-rc.1'') (dir ''1.9'') \<and> \<not> listed_before sample_collation (dir ''1.9'') (dir ''1.9-rc.1'') \<and>
   (let shown = applyAdjustments sample_collation True False [jar, dir ''1.9-rc.1'', dir ''com'', md5, dir ''1.10'', dir ''1.9''] in
      mset shown = mset [jar, dir ''1.9-rc.1'', dir ''com'', dir ''1.10'', dir ''1.9''] \<and>
      sorted_wrt (\<lambda>a b. entry_kind a = DIRECTORY \<longrightarrow> entry_kind b = DIRECTORY \<longrightarrow> listed_before sample_collation b a) shown)"
proof -
  have k: "listed_before sample_collation a b \<longleftrightarrow> directory_before sample_collation (file_name a) (file_name b)"
    if "entry_kind a = DIRECTORY" "entry_kind b = DIRECTORY" for a b
    using that by (simp add: listed_before_def)
  have q: "qualifier ''1.9-rc.1'' = ''rc.1''" "qualifier ''1.9'' = ''''" "segments_of ''1.9-rc.1'' = [''1'', ''9'']" "segments_of ''1.9'' = [''1'', ''9'']"
    by code_simp+
  have e: "ends_with ''.md5'' (file_name md5)"
    "\<forall>e \<in> {''.asc'', ''.md5'', ''.sha1'', ''.sha256'', ''.sha512''}. \<forall>f \<in> {jar, dir ''1.9-rc.1'', dir ''com'', dir ''1.10'', dir ''1.9''}. \<not> ends_with e (file_name f)"
    by code_simp+
  then have m: "filter_mset (\<lambda>f. False \<or> \<not> (\<exists>e \<in> {''.asc'', ''.md5'', ''.sha1'', ''.sha256'', ''.sha512''}. ends_with e (file_name f)))
      (mset [jar, dir ''1.9-rc.1'', dir ''com'', md5, dir ''1.10'', dir ''1.9'']) = mset [jar, dir ''1.9-rc.1'', dir ''com'', dir ''1.10'', dir ''1.9'']"
    by simp
  have b: "listed_before sample_collation (dir ''1.9-rc.1'') (dir ''1.9'')" "\<not> listed_before sample_collation (dir ''1.9'') (dir ''1.9-rc.1'')"
    by (simp_all add: k dir_def directory_before_def q same_segments_def sample_collation_def)
  show ?thesis
    using b listing_sorted [OF sample_numeric sample_plain, of True False] unfolding m Let_def
    by (auto elim!: sorted_wrt_mono_rel [rotated])
qed

text \<open>
  Names that \<open>Number\<close> reads although they are not plain numbers break the order: with a collation that compares digits by
  value there is a cycle, so the order shown depends on the order received.
\<close>

lemma js_numbers: "js_number ''1e1'' = Fin 10" "js_number ''5'' = Fin 5" "js_number ''3z'' = NaN"
proof -
  have t: "js_trim ''1e1'' = ''1e1''" "js_trim ''5'' = ''5''" "js_trim ''3z'' = ''3z''" by code_simp+
  have r: "read_nat ''1e1'' = None" "read_nat ''5'' = Some 5" "read_nat ''3z'' = None" "read_nat ''1'' = Some 1" by code_simp+
  have p: "to_lower (take 2 ''1e1'') = ''1e''" "to_lower (take 2 ''3z'') = ''3z''" by code_simp+
  have e: "takeWhile (\<lambda>c. lower_char c \<noteq> CHR ''e'') ''1e1'' = ''1''" "dropWhile (\<lambda>c. lower_char c \<noteq> CHR ''e'') ''1e1'' = ''e1''"
    "takeWhile (\<lambda>c. lower_char c \<noteq> CHR ''e'') ''3z'' = ''3z''" by code_simp+
  show "js_number ''5'' = Fin 5" unfolding js_number_def Let_def t r by (simp add: double_of_def)
  have s: "strip_plus ''1e1'' = ''1e1''" "strip_plus ''3z'' = ''3z''" "strip_plus (tl ''e1'') = ''1''" by code_simp+
  show "js_number ''1e1'' = Fin 10"
    unfolding js_number_def Let_def t r p decimal_number_def s e by (simp add: double_of_def)
  show "js_number ''3z'' = NaN" unfolding js_number_def Let_def t r p decimal_number_def s e by simp
qed

theorem version_order_has_cycle:
  "lc ''5'' ''3z'' = 1 \<Longrightarrow> lc ''3z'' ''1e1'' = 1 \<Longrightarrow>
   compareSemver lc ''1e1'' ''5'' = 1 \<and> compareSemver lc ''5'' ''3z'' = 1 \<and> compareSemver lc ''3z'' ''1e1'' = 1"
  by (simp add: compareSemver_def Let_def compare_segment_def js_numbers)

end
