(* ===== verification/Browser.thy ===== *)
theory Browser
  imports Version_Order Repository_Formats Uri Machine
begin

text \<open>
  Loading a directory of the repository browser (\<open>loadDirectory\<close> in \<open>browser.js\<close>, \<open>browser/engines.js\<close>). A load asks for the
  listing and for the details of the repository, lets the old list fade out and then shows the view of the repository's
  format or the list of files; a load that was overtaken by a later one shows nothing. The state holds what the code keeps
  between the events: the variables of the module, the requests under way, and which part of the page is visible. The
  listing of an item is remembered by \<open>item_path\<close>, since its link and its buttons keep the path they were made for.
  Heights and animations are left out except for the fade that a load waits for.
\<close>

section \<open>Paths and views\<close>

definition path_parts :: "string \<Rightarrow> string list" where
  "path_parts path = filter (\<lambda>p. p \<noteq> []) (split_on (CHR ''/'') path)"

definition repository_of :: "string \<Rightarrow> string" where
  "repository_of path = (case path_parts path of [] \<Rightarrow> [] | p # _ \<Rightarrow> p)"

text \<open>Whether a path is below a repository, so that its details are wanted.\<close>

definition wants_details :: "string \<Rightarrow> bool" where
  "wants_details path \<longleftrightarrow> path_parts path \<noteq> [] \<and> hd (path_parts path) \<noteq> ''index.html''"

datatype view = MavenView | CargoView | DockerView | NpmView | GitView | NativeView

definition native_formats :: "string list" where
  "native_formats = [''conan'', ''conda'', ''conda-native'', ''apk'', ''apt'', ''rpm'', ''yum'']"

definition views :: "string \<Rightarrow> view option" where
  "views format =
     (if format = ''maven'' then Some MavenView else if format = ''cargo'' then Some CargoView
      else if format = ''docker'' then Some DockerView else if format = ''npm'' then Some NpmView
      else if format = ''github'' \<or> format = ''gitlab'' then Some GitView
      else if format \<in> set native_formats then Some NativeView else None)"

definition getRepositoryBrowserEngine :: "string \<Rightarrow> string option \<Rightarrow> view option" where
  "getRepositoryBrowserEngine format path =
     (case (views format, path) of
        (Some NativeView, Some p) \<Rightarrow>
          let parts = path_parts p in if length parts > 1 \<and> parts ! 1 \<noteq> ''~'' then None else Some NativeView
      | (v, _) \<Rightarrow> v)"

datatype direction = Fade | Forward | Backward

definition load_direction :: "string \<Rightarrow> string \<Rightarrow> direction" where
  "load_direction lastPath path =
     (let norm = (\<lambda>p. if ends_with ''/'' p then p else p @ ''/'') in
      if lastPath = [] \<or> lastPath = path then Fade
      else if starts_with (norm lastPath) (norm path) then Forward
      else if starts_with (norm path) (norm lastPath) then Backward else Fade)"

section \<open>The state\<close>

text \<open>The details of a repository, as far as the browser looks at them.\<close>

record repo_info =
  info_name :: string
  info_format :: string

text \<open>The identifier of the format of some details; no details mean Maven.\<close>

definition format_id :: "repo_info option \<Rightarrow> string" where
  "format_id d =
     (case getRepositoryFormat (case d of Some i \<Rightarrow> info_format i | None \<Rightarrow> []) of Some e \<Rightarrow> engine_id e | None \<Rightarrow> [])"

text \<open>
  A load waits for its answers and for the fade, reads the text of a refusal, or renders a view; it ends with something
  shown, with an error, or overtaken. \<open>Some None\<close> is an answer that has no listing or no details.
\<close>

datatype stage = Requested | Rejected | Reading | Rendering | Shown | Failed | Overtaken

record load =
  load_id :: nat
  load_path :: string
  load_reuse :: bool
  load_same :: bool
  load_dir :: "file_entry list option option"
  load_details :: "repo_info option option"
  exit_over :: bool
  load_stage :: stage

datatype list_mode = NoMode | Loading | Ready | EmptyMode | ErrorMode

record browser =
  currentLoadSeq :: nat
  lastDirectoryPath :: string
  currentRepositoryFormat :: string
  currentRepoDetails :: "repo_info option"
  currentRepositoryName :: string
  reversedFileOrder :: bool
  displayHashFiles :: bool
  loads :: "load list"
  list_class :: list_mode
  container_hidden :: bool
  empty_hidden :: bool
  error_hidden :: bool
  list_hidden :: bool
  items :: "nat \<times> list_item list"
  item_path :: "nat \<Rightarrow> string"
  deletes :: "nat list"
  engine_shown :: "(view \<times> string) option"
  search_repository :: string
  trail_shown :: "string \<times> string"
  side_path :: string

definition browser_start :: browser where
  "browser_start = \<lparr>currentLoadSeq = 0, lastDirectoryPath = [], currentRepositoryFormat = ''maven'', currentRepoDetails = None,
     currentRepositoryName = [], reversedFileOrder = False, displayHashFiles = True, loads = [], list_class = NoMode,
     container_hidden = False, empty_hidden = True, error_hidden = True, list_hidden = False, items = (0, []),
     item_path = (\<lambda>_. []), deletes = [], engine_shown = None, search_repository = [], trail_shown = ([], []), side_path = []\<rparr>"

section \<open>Parts of the page\<close>

definition setStateVisibility :: "bool \<Rightarrow> bool \<Rightarrow> browser \<Rightarrow> browser" where
  "setStateVisibility showEmpty showError s =
     s\<lparr>empty_hidden := \<not> showEmpty, error_hidden := \<not> showError, list_hidden := showEmpty \<or> showError\<rparr>"

definition hideOtherRepositoryEngines :: "string \<Rightarrow> browser \<Rightarrow> browser" where
  "hideOtherRepositoryEngines format s =
     s\<lparr>engine_shown := (case engine_shown s of Some (v, p) \<Rightarrow> if views format = Some v then Some (v, p) else None | None \<Rightarrow> None)\<rparr>"

definition setRepositoryContentMode :: "string \<Rightarrow> browser \<Rightarrow> browser" where
  "setRepositoryContentMode format s =
     (let customMode = getRepositoryBrowserEngine format None \<noteq> None in
      hideOtherRepositoryEngines format
        (s\<lparr>container_hidden := customMode, list_class := (if customMode then NoMode else list_class s)\<rparr>))"

text \<open>The list fades out, unless it moves back or shows nothing yet; the result tells whether there is nothing to wait for.\<close>

definition beginListTransition :: "direction \<Rightarrow> browser \<Rightarrow> bool \<times> browser" where
  "beginListTransition d s =
     (d = Backward \<or> list_class s \<notin> {Ready, EmptyMode, ErrorMode}, s\<lparr>list_class := Loading\<rparr>)"

definition put_items :: "string \<Rightarrow> nat \<times> list_item list \<Rightarrow> browser \<Rightarrow> browser" where
  "put_items path new s = s\<lparr>items := new, item_path := (\<lambda>n. if fst (items s) \<le> n then path else item_path s n)\<rparr>"

definition show_empty :: "browser \<Rightarrow> browser" where
  "show_empty s = (setStateVisibility True False (s\<lparr>items := (fst (items s), [])\<rparr>))\<lparr>list_class := EmptyMode\<rparr>"

definition showEmptyIfNoFiles :: "browser \<Rightarrow> browser" where
  "showEmptyIfNoFiles s = (if visible_items (snd (items s)) = [] then show_empty s else s)"

section \<open>Loading\<close>

definition set_load :: "load \<Rightarrow> browser \<Rightarrow> browser" where
  "set_load l s = s\<lparr>loads := map (\<lambda>x. if load_id x = load_id l then l else x) (loads s)\<rparr>"

abbreviation to_stage :: "stage \<Rightarrow> load \<Rightarrow> browser \<Rightarrow> browser" where
  "to_stage st l s \<equiv> set_load (l\<lparr>load_stage := st\<rparr>) s"

definition can_reuse :: "string \<Rightarrow> browser \<Rightarrow> bool" where
  "can_reuse path s \<longleftrightarrow> getRepositoryBrowserEngine (currentRepositoryFormat s) (Some path) \<noteq> None \<and>
     repository_of path \<noteq> [] \<and> repository_of path = currentRepositoryName s \<and> currentRepoDetails s \<noteq> None"

definition loadDirectory :: "string \<Rightarrow> browser \<Rightarrow> browser" where
  "loadDirectory path s =
     (let seq = Suc (currentLoadSeq s); reuse = can_reuse path s; same = (lastDirectoryPath s = path);
          (over, s1) = (if same \<or> reuse then (True, s) else beginListTransition (load_direction (lastDirectoryPath s) path) s);
          l = \<lparr>load_id = seq, load_path = path, load_reuse = reuse, load_same = same,
               load_dir = (if reuse then Some None else None),
               load_details = (if \<not> wants_details path then Some None else if reuse then Some (currentRepoDetails s) else None),
               exit_over = over, load_stage = Requested\<rparr>
      in s1\<lparr>currentLoadSeq := seq, lastDirectoryPath := path, trail_shown := (path, currentRepositoryFormat s),
            currentRepoDetails := (if wants_details path then currentRepoDetails s else None),
            currentRepositoryName := (if wants_details path then currentRepositoryName s else []),
            side_path := (if reuse then side_path s else path), loads := loads s @ [l]\<rparr>)"

definition show_listing :: "(string \<Rightarrow> string \<Rightarrow> int) \<Rightarrow> load \<Rightarrow> file_entry list \<Rightarrow> browser \<Rightarrow> browser" where
  "show_listing lc l received s =
     (let s1 = setStateVisibility False False s;
          filesToDisplay = applyAdjustments lc (reversedFileOrder s) (displayHashFiles s) received in
      to_stage Shown l
        (if filesToDisplay = [] then show_empty s1
         else if load_same l \<and> snd (items s) \<noteq> []
         then (put_items (load_path l) (renderFileListReconciled filesToDisplay (items s)) s1)\<lparr>list_class := Ready\<rparr>
         else (put_items (load_path l) (fill_list filesToDisplay (fst (items s))) s1)\<lparr>list_class := Ready\<rparr>))"

text \<open>The view of a path for the details of its repository.\<close>

definition view_for :: "string \<Rightarrow> repo_info option \<Rightarrow> view option" where
  "view_for path d =
     (if d \<noteq> None \<and> path_parts path \<noteq> [] then getRepositoryBrowserEngine (format_id d) (Some path) else None)"

definition note_details :: "string \<Rightarrow> repo_info option \<Rightarrow> browser \<Rightarrow> browser" where
  "note_details path repoDetails s =
     s\<lparr>currentRepositoryFormat := format_id repoDetails, currentRepoDetails := repoDetails,
       currentRepositoryName := (if repoDetails \<noteq> None then repository_of path else [])\<rparr>"

definition arrange_page :: "string \<Rightarrow> repo_info option \<Rightarrow> browser \<Rightarrow> browser" where
  "arrange_page path repoDetails s =
     (setRepositoryContentMode (if view_for path repoDetails \<noteq> None then currentRepositoryFormat s else []) s)
       \<lparr>search_repository := (if repoDetails \<noteq> None then repository_of path else []),
        trail_shown := (path, currentRepositoryFormat s)\<rparr>"

text \<open>Both answers are there and the fade is over.\<close>

definition after_answers :: "(string \<Rightarrow> string \<Rightarrow> int) \<Rightarrow> load \<Rightarrow> repo_info option \<Rightarrow> file_entry list option \<Rightarrow> browser \<Rightarrow> browser" where
  "after_answers lc l repoDetails listing s =
     (if load_id l \<noteq> currentLoadSeq s then to_stage Overtaken l s
      else let path = load_path l; s2 = arrange_page path repoDetails (note_details path repoDetails s)
           in case view_for path repoDetails of
                Some v \<Rightarrow> to_stage Rendering l ((setStateVisibility False False s2)\<lparr>engine_shown := Some (v, path)\<rparr>)
              | None \<Rightarrow> (case listing of
                    None \<Rightarrow> to_stage Reading l s2
                  | Some received \<Rightarrow> show_listing lc l received s2))"

text \<open>The handler of errors, after the fade.\<close>

definition load_failed :: "load \<Rightarrow> browser \<Rightarrow> browser" where
  "load_failed l s =
     (if load_id l \<noteq> currentLoadSeq s then to_stage Overtaken l s
      else let s1 = (setRepositoryContentMode [] s)\<lparr>search_repository := [], items := (fst (items s), [])\<rparr>
           in to_stage Failed l ((setStateVisibility False True s1)\<lparr>list_class := ErrorMode\<rparr>))"

definition handleRepositorySettingsChanged :: "string \<Rightarrow> browser \<Rightarrow> browser" where
  "handleRepositorySettingsChanged repository s =
     (if repository \<noteq> currentRepositoryName s then s
      else s\<lparr>currentRepoDetails := None, currentRepositoryName := []\<rparr>)"

datatype event =
    Load string | PrefsChanged bool bool string | SettingsChanged string
  | DirAnswered nat "file_entry list option" | DirFailed nat | DetailsAnswered nat "string option" | DetailsFailed nat
  | ExitOver nat | Proceed nat | ErrorRead nat | Caught nat | ViewEnded nat bool
  | DeleteOk nat | DeleteDone nat | ItemGone nat

definition load_of :: "nat \<Rightarrow> browser \<Rightarrow> load option" where
  "load_of i s = find (\<lambda>l. load_id l = i) (loads s)"

text \<open>The load with the number, in the stage.\<close>

definition load_in :: "nat \<Rightarrow> stage \<Rightarrow> browser \<Rightarrow> load option" where
  "load_in i st s = (case load_of i s of Some l \<Rightarrow> if load_stage l = st then Some l else None | None \<Rightarrow> None)"

definition answered_dir :: "file_entry list option \<Rightarrow> browser \<Rightarrow> load \<Rightarrow> browser option" where
  "answered_dir a s l = (if load_dir l = None then Some (set_load (l\<lparr>load_dir := Some a\<rparr>) s) else None)"

definition answered_details :: "string option \<Rightarrow> browser \<Rightarrow> load \<Rightarrow> browser option" where
  "answered_details a s l =
     (if load_details l = None
      then Some (set_load (l\<lparr>load_details :=
             Some (map_option (\<lambda>f. \<lparr>info_name = repository_of (load_path l), info_format = f\<rparr>) a)\<rparr>) s)
      else None)"

definition proceed :: "(string \<Rightarrow> string \<Rightarrow> int) \<Rightarrow> browser \<Rightarrow> load \<Rightarrow> browser option" where
  "proceed lc s l =
     (case (load_dir l, load_details l) of
        (Some listing, Some d) \<Rightarrow> if exit_over l then Some (after_answers lc l d listing s) else None
      | _ \<Rightarrow> None)"

definition delete_done :: "nat \<Rightarrow> browser \<Rightarrow> browser" where
  "delete_done n s = showEmptyIfNoFiles (s\<lparr>items := item_removed n (items s), deletes := remove1 n (deletes s)\<rparr>)"

fun browser_step :: "(string \<Rightarrow> string \<Rightarrow> int) \<Rightarrow> event \<Rightarrow> browser \<Rightarrow> browser option" where
  "browser_step lc (Load path) s = Some (loadDirectory path s)"
| "browser_step lc (PrefsChanged r d path) s = Some (loadDirectory path (s\<lparr>reversedFileOrder := r, displayHashFiles := d\<rparr>))"
| "browser_step lc (SettingsChanged name) s = Some (handleRepositorySettingsChanged name s)"
| "browser_step lc (DirAnswered i a) s = Option.bind (load_in i Requested s) (answered_dir a s)"
| "browser_step lc (DirFailed i) s =
     Option.bind (load_in i Requested s) (\<lambda>l. if load_dir l = None then Some (to_stage Rejected l s) else None)"
| "browser_step lc (DetailsAnswered i a) s = Option.bind (load_in i Requested s) (answered_details a s)"
| "browser_step lc (DetailsFailed i) s =
     Option.bind (load_in i Requested s) (\<lambda>l. if load_details l = None then Some (to_stage Rejected l s) else None)"
| "browser_step lc (ExitOver i) s =
     Option.bind (load_of i s) (\<lambda>l. if exit_over l then None else Some (set_load (l\<lparr>exit_over := True\<rparr>) s))"
| "browser_step lc (Proceed i) s = Option.bind (load_in i Requested s) (proceed lc s)"
| "browser_step lc (ErrorRead i) s = map_option (\<lambda>l. load_failed l s) (load_in i Reading s)"
| "browser_step lc (Caught i) s =
     Option.bind (load_in i Rejected s) (\<lambda>l. if exit_over l then Some (load_failed l s) else None)"
| "browser_step lc (ViewEnded i fine) s =
     map_option (\<lambda>l. if fine then to_stage Shown l s else load_failed l s) (load_in i Rendering s)"
| "browser_step lc (DeleteOk n) s =
     (if n < fst (items s) then Some (s\<lparr>items := removeFileItemAnimated n (items s), deletes := n # deletes s\<rparr>) else None)"
| "browser_step lc (DeleteDone n) s = (if n \<in> set (deletes s) then Some (delete_done n s) else None)"
| "browser_step lc (ItemGone n) s = Some (s\<lparr>items := item_removed n (items s)\<rparr>)"

section \<open>What is visible\<close>

datatype panel = ViewPanel view string | ListPanel | EmptyPanel | ErrorPanel | NoPanel

definition shown_panel :: "browser \<Rightarrow> panel" where
  "shown_panel s =
     (if container_hidden s then (case engine_shown s of Some (v, p) \<Rightarrow> ViewPanel v p | None \<Rightarrow> NoPanel)
      else if \<not> empty_hidden s then EmptyPanel else if \<not> error_hidden s then ErrorPanel else ListPanel)"

definition view_of :: "load \<Rightarrow> view option" where
  "view_of l = Option.bind (load_details l) (view_for (load_path l))"

text \<open>What a finished load has to show: the view of the format, the error, or the listing in the order chosen.\<close>

definition expected_panel :: "(string \<Rightarrow> string \<Rightarrow> int) \<Rightarrow> browser \<Rightarrow> load \<Rightarrow> panel" where
  "expected_panel lc s l =
     (if load_stage l = Failed then ErrorPanel
      else case view_of l of
        Some v \<Rightarrow> ViewPanel v (load_path l)
      | None \<Rightarrow> (case load_dir l of
          Some (Some fs) \<Rightarrow>
            if applyAdjustments lc (reversedFileOrder s) (displayHashFiles s) fs = [] then EmptyPanel else ListPanel
        | _ \<Rightarrow> ErrorPanel))"

definition on_page :: "(string \<Rightarrow> string \<Rightarrow> int) \<Rightarrow> browser \<Rightarrow> load \<Rightarrow> bool" where
  "on_page lc s l \<longleftrightarrow>
     (load_stage l \<in> {Rendering, Shown, Failed} \<longrightarrow> shown_panel s = expected_panel lc s l) \<and>
     (load_stage l = Rendering \<longrightarrow> view_of l \<noteq> None) \<and>
     (load_stage l = Reading \<longrightarrow> view_of l = None) \<and>
     (load_stage l \<in> {Reading, Shown, Rendering} \<longrightarrow> load_dir l \<noteq> None \<and> load_details l \<noteq> None)"

definition load_ok :: "browser \<Rightarrow> load \<Rightarrow> bool" where
  "load_ok s l \<longleftrightarrow> load_id l \<le> currentLoadSeq s \<and> (load_details l = None \<longrightarrow> wants_details (load_path l)) \<and>
     (\<forall>d. load_details l = Some (Some d) \<longrightarrow> wants_details (load_path l) \<and> info_name d = repository_of (load_path l)) \<and>
     (load_reuse l \<longrightarrow> view_of l \<noteq> None)"

definition known_ok :: "browser \<Rightarrow> bool" where
  "known_ok s \<longleftrightarrow>
     (\<forall>d. currentRepoDetails s = Some d \<longrightarrow>
        format_id (Some d) = currentRepositoryFormat s \<and> info_name d = currentRepositoryName s \<and> currentRepositoryName s \<noteq> ''index.html'')"

definition flags_ok :: "browser \<Rightarrow> bool" where
  "flags_ok s \<longleftrightarrow> list_hidden s = (\<not> empty_hidden s \<or> \<not> error_hidden s) \<and> (empty_hidden s \<or> error_hidden s) \<and>
     (container_hidden s \<longrightarrow> engine_shown s \<noteq> None)"

definition browser_inv :: "(string \<Rightarrow> string \<Rightarrow> int) \<Rightarrow> browser \<Rightarrow> bool" where
  "browser_inv lc s \<longleftrightarrow> distinct (map load_id (loads s)) \<and> known_ok s \<and> flags_ok s \<and>
     (\<forall>l \<in> set (loads s). load_ok s l \<and> (load_id l = currentLoadSeq s \<longrightarrow> on_page lc s l))"

text \<open>The part that a new load needs.\<close>

definition base_ok :: "browser \<Rightarrow> bool" where
  "base_ok s \<longleftrightarrow> distinct (map load_id (loads s)) \<and> known_ok s \<and> flags_ok s \<and> (\<forall>l \<in> set (loads s). load_ok s l)"

section \<open>The invariant\<close>

lemma set_load_fields [simp]:
  "currentLoadSeq (set_load l s) = currentLoadSeq s" "lastDirectoryPath (set_load l s) = lastDirectoryPath s"
  "currentRepositoryFormat (set_load l s) = currentRepositoryFormat s" "currentRepoDetails (set_load l s) = currentRepoDetails s"
  "currentRepositoryName (set_load l s) = currentRepositoryName s" "container_hidden (set_load l s) = container_hidden s"
  "empty_hidden (set_load l s) = empty_hidden s" "error_hidden (set_load l s) = error_hidden s"
  "list_hidden (set_load l s) = list_hidden s" "engine_shown (set_load l s) = engine_shown s" "items (set_load l s) = items s"
  "item_path (set_load l s) = item_path s" "side_path (set_load l s) = side_path s" "deletes (set_load l s) = deletes s"
  "reversedFileOrder (set_load l s) = reversedFileOrder s" "displayHashFiles (set_load l s) = displayHashFiles s"
  "map load_id (loads (set_load l s)) = map load_id (loads s)"
  by (auto simp: set_load_def)

lemma set_loads: "set (loads (set_load l s)) = (\<lambda>x. if load_id x = load_id l then l else x) ` set (loads s)"
  by (simp add: set_load_def)

lemma shown_set_load [simp]:
  "shown_panel (set_load l s) = shown_panel s" "expected_panel lc (set_load l s) x = expected_panel lc s x"
  "load_ok (set_load l s) x = load_ok s x" "known_ok (set_load l s) = known_ok s" "flags_ok (set_load l s) = flags_ok s"
  by (simp_all add: shown_panel_def expected_panel_def load_ok_def known_ok_def flags_ok_def cong: option.case_cong)

lemma on_page_set_load [simp]: "on_page lc (set_load l s) x = on_page lc s x"
  by (simp add: on_page_def)

lemma load_of_Some: "load_of i s = Some l \<Longrightarrow> l \<in> set (loads s) \<and> load_id l = i"
  by (auto simp: load_of_def find_Some_iff)

lemma load_in_Some: "load_in i st s = Some l \<longleftrightarrow> load_of i s = Some l \<and> load_stage l = st"
  by (auto simp: load_in_def split: option.splits)

lemma inv_load: "browser_inv lc s \<Longrightarrow> l \<in> set (loads s) \<Longrightarrow> load_ok s l \<and> (load_id l = currentLoadSeq s \<longrightarrow> on_page lc s l)"
  by (simp add: browser_inv_def)

text \<open>A load and the page change together.\<close>

lemma inv_page:
  assumes inv: "browser_inv lc s" and l: "l \<in> set (loads s)" and id: "load_id l' = load_id l"
    and s': "loads s' = loads s" "currentLoadSeq s' = currentLoadSeq s" "known_ok s'" "flags_ok s'"
    and ok: "load_ok s l'" and page: "load_id l = currentLoadSeq s \<Longrightarrow> on_page lc s' l'"
    and others: "load_id l \<noteq> currentLoadSeq s \<Longrightarrow> s' = s"
  shows "browser_inv lc (set_load l' s')"
proof -
  have ok': "load_ok s' x = load_ok s x" for x by (simp add: load_ok_def s')
  have "load_ok s' x \<and> (load_id x = currentLoadSeq s \<longrightarrow> on_page lc s' x)"
    if "x \<in> set (loads (set_load l' s'))" for x
  proof (cases "x = l'")
    case True
    then show ?thesis using ok page id ok' by auto
  next
    case False
    then have x: "x \<in> set (loads s)" "load_id x \<noteq> load_id l" using that id by (auto simp: s' set_loads)
    then show ?thesis using inv_load [OF inv x(1)] others ok' by (cases "load_id l = currentLoadSeq s") auto
  qed
  moreover have "distinct (map load_id (loads (set_load l' s')))" using inv by (simp only: set_load_fields s' browser_inv_def)
  ultimately show ?thesis unfolding browser_inv_def by (simp add: s')
qed

lemma inv_note:
  assumes "browser_inv lc s" and "l \<in> set (loads s)" and "load_id l' = load_id l" and "load_ok s l'"
    and "load_id l = currentLoadSeq s \<Longrightarrow> on_page lc s l'"
  shows "browser_inv lc (set_load l' s)"
  using assms by (intro inv_page [OF assms(1,2,3)]) (auto simp: browser_inv_def)

lemma view_of_stage [simp]: "view_of (l\<lparr>load_stage := st\<rparr>) = view_of l"
  by (simp add: view_of_def)

lemma exit_over_fields [simp]:
  "view_of (l\<lparr>exit_over := b\<rparr>) = view_of l" "expected_panel lc s (l\<lparr>exit_over := b\<rparr>) = expected_panel lc s l"
  "load_ok s (l\<lparr>exit_over := b\<rparr>) = load_ok s l" "on_page lc s (l\<lparr>exit_over := b\<rparr>) = on_page lc s l"
proof -
  show v: "view_of (l\<lparr>exit_over := b\<rparr>) = view_of l" by (simp add: view_of_def)
  show "expected_panel lc s (l\<lparr>exit_over := b\<rparr>) = expected_panel lc s l"
    unfolding expected_panel_def v by (simp split: option.split)
  then show "load_ok s (l\<lparr>exit_over := b\<rparr>) = load_ok s l" "on_page lc s (l\<lparr>exit_over := b\<rparr>) = on_page lc s l"
    by (simp_all add: load_ok_def on_page_def v)
qed

lemma load_ok_stage [simp]: "load_ok s (l\<lparr>load_stage := st\<rparr>) = load_ok s l"
  by (simp add: load_ok_def)

lemma native_id: "engine_id e \<noteq> []" if "e \<in> set engines"
  using that by (auto simp: engines_def mavenEngine_def maven_classicEngine_def filesEngine_def cargoEngine_def dockerEngine_def
    npmEngine_def conanEngine_def condaEngine_def conda_nativeEngine_def apkEngine_def aptEngine_def rpmEngine_def
    githubEngine_def gitlabEngine_def)

lemma engine_views: "getRepositoryBrowserEngine format (Some p) = Some v \<Longrightarrow> views format = Some v"
  by (auto simp: getRepositoryBrowserEngine_def Let_def split: option.splits view.splits if_splits)

lemma engine_plain: "getRepositoryBrowserEngine format None = views format"
  by (auto simp: getRepositoryBrowserEngine_def split: option.splits view.splits)

lemma views_Nil [simp]: "views [] = None"
  by (simp add: views_def native_formats_def)

lemma content_mode:
  "views format = Some v \<Longrightarrow> container_hidden (setRepositoryContentMode format s)"
  "\<not> container_hidden (setRepositoryContentMode [] s)" "engine_shown (setRepositoryContentMode [] s) = None"
  by (auto simp: setRepositoryContentMode_def hideOtherRepositoryEngines_def Let_def engine_plain split: option.splits)

lemma content_mode_fields [simp]:
  "loads (setRepositoryContentMode format s) = loads s" "currentLoadSeq (setRepositoryContentMode format s) = currentLoadSeq s"
  "currentRepositoryFormat (setRepositoryContentMode format s) = currentRepositoryFormat s"
  "currentRepoDetails (setRepositoryContentMode format s) = currentRepoDetails s"
  "currentRepositoryName (setRepositoryContentMode format s) = currentRepositoryName s"
  "empty_hidden (setRepositoryContentMode format s) = empty_hidden s" "error_hidden (setRepositoryContentMode format s) = error_hidden s"
  "list_hidden (setRepositoryContentMode format s) = list_hidden s" "items (setRepositoryContentMode format s) = items s"
  "item_path (setRepositoryContentMode format s) = item_path s" "side_path (setRepositoryContentMode format s) = side_path s"
  "lastDirectoryPath (setRepositoryContentMode format s) = lastDirectoryPath s"
  "reversedFileOrder (setRepositoryContentMode format s) = reversedFileOrder s"
  "displayHashFiles (setRepositoryContentMode format s) = displayHashFiles s"
  by (simp_all add: setRepositoryContentMode_def hideOtherRepositoryEngines_def Let_def)

lemma load_failed_inv:
  assumes inv: "browser_inv lc s" and l: "l \<in> set (loads s)"
  shows "browser_inv lc (load_failed l s)"
proof (cases "load_id l = currentLoadSeq s")
  case True
  have ok: "load_ok s l" using inv_load [OF inv l] by simp
  have known: "known_ok s" using inv by (simp add: browser_inv_def)
  define s' where "s' = (setStateVisibility False True
    ((setRepositoryContentMode [] s)\<lparr>search_repository := [], items := (fst (items s), [])\<rparr>))\<lparr>list_class := ErrorMode\<rparr>"
  have "load_failed l s = to_stage Failed l s'" using True by (simp add: load_failed_def Let_def s'_def)
  moreover have "browser_inv lc (to_stage Failed l s')"
  proof (rule inv_page [OF inv l])
    show "known_ok s'" using known by (simp add: known_ok_def s'_def setStateVisibility_def)
    show "flags_ok s'" by (simp add: flags_ok_def s'_def setStateVisibility_def content_mode)
    show "on_page lc s' (l\<lparr>load_stage := Failed\<rparr>)"
      by (simp add: on_page_def shown_panel_def expected_panel_def s'_def setStateVisibility_def content_mode)
  qed (use True ok in \<open>simp_all add: s'_def setStateVisibility_def\<close>)
  ultimately show ?thesis by simp
next
  case False
  then show ?thesis using inv_load [OF inv l] by (auto simp: load_failed_def intro!: inv_note [OF inv l])
qed

lemma format_of_known: "known_ok s \<Longrightarrow> currentRepoDetails s = Some d \<Longrightarrow> format_id (Some d) = currentRepositoryFormat s"
  by (simp add: known_ok_def)

lemma wants_facts: "wants_details path \<Longrightarrow> path_parts path \<noteq> [] \<and> repository_of path \<noteq> ''index.html''"
  by (auto simp: wants_details_def repository_of_def split: list.splits)

lemma loadDirectory_inv:
  assumes inv: "base_ok s"
  shows "browser_inv lc (loadDirectory path s)"
proof -
  define t where "t = loadDirectory path s"
  have seq: "currentLoadSeq t = Suc (currentLoadSeq s)" and known: "known_ok t" and flags: "flags_ok t"
    using inv by (simp_all add: t_def loadDirectory_def Let_def split_def beginListTransition_def known_ok_def flags_ok_def base_ok_def)
  obtain l where l: "loads t = loads s @ [l]" "load_id l = Suc (currentLoadSeq s)" "load_stage l = Requested"
    "load_path l = path" "load_reuse l = can_reuse path s"
    "load_details l = (if \<not> wants_details path then Some None else if can_reuse path s then Some (currentRepoDetails s) else None)"
    by (simp add: t_def loadDirectory_def Let_def split_def)
  have old: "load_id x \<le> currentLoadSeq s" if "x \<in> set (loads s)" for x using inv that by (simp add: base_ok_def load_ok_def)
  have "load_ok t l"
  proof (cases "can_reuse path s")
    case True
    then obtain d where d: "currentRepoDetails s = Some d" "repository_of path = currentRepositoryName s" "repository_of path \<noteq> []"
        "getRepositoryBrowserEngine (currentRepositoryFormat s) (Some path) \<noteq> None"
      by (auto simp: can_reuse_def)
    have k: "known_ok s" using inv by (simp add: base_ok_def)
    then have w: "wants_details path" using d by (auto simp: known_ok_def wants_details_def repository_of_def split: list.splits)
    then show ?thesis using True d k l seq wants_facts [OF w]
      by (auto simp: load_ok_def view_of_def view_for_def known_ok_def)
  qed (use l seq in \<open>simp add: load_ok_def\<close>)
  moreover have "on_page lc t l" using l by (simp add: on_page_def)
  moreover have "load_ok t x \<and> load_id x \<noteq> currentLoadSeq t" if "x \<in> set (loads s)" for x
    using inv that seq by (auto simp: load_ok_def base_ok_def)
  moreover have "distinct (map load_id (loads t))" using inv l old by (fastforce simp: base_ok_def)
  ultimately show ?thesis using known flags l unfolding browser_inv_def t_def [symmetric] by auto
qed

lemma show_listing_fields [simp]:
  "currentLoadSeq (put_items p new s) = currentLoadSeq s" "loads (put_items p new s) = loads s"
  "currentLoadSeq (show_empty s) = currentLoadSeq s" "loads (show_empty s) = loads s"
  "known_ok (put_items p new s) = known_ok s" "known_ok (show_empty s) = known_ok s"
  "known_ok (setStateVisibility e er s) = known_ok s" "loads (setStateVisibility e er s) = loads s"
  "currentLoadSeq (setStateVisibility e er s) = currentLoadSeq s"
  by (simp_all add: put_items_def show_empty_def setStateVisibility_def known_ok_def)

lemma show_listing_inv:
  assumes inv: "browser_inv lc s" and l: "l \<in> set (loads s)" and cur: "load_id l = currentLoadSeq s"
    and s2: "loads s2 = loads s" "currentLoadSeq s2 = currentLoadSeq s" "known_ok s2" "\<not> container_hidden s2"
      "reversedFileOrder s2 = reversedFileOrder s" "displayHashFiles s2 = displayHashFiles s"
    and dir: "load_dir l = Some (Some received)" "load_details l \<noteq> None" "view_of l = None"
  shows "browser_inv lc (show_listing lc l received s2)"
proof -
  have ok: "load_ok s (l\<lparr>load_stage := Shown\<rparr>)" using inv_load [OF inv l] by simp
  have page: "browser_inv lc (to_stage Shown l s')"
    if "loads s' = loads s" "currentLoadSeq s' = currentLoadSeq s" "known_ok s'" "flags_ok s'" "shown_panel s' = expected_panel lc s (l\<lparr>load_stage := Shown\<rparr>)"
      "reversedFileOrder s' = reversedFileOrder s" "displayHashFiles s' = displayHashFiles s" for s'
  proof (rule inv_page [OF inv l _ that(1-4) ok])
    show "on_page lc s' (l\<lparr>load_stage := Shown\<rparr>)"
      using that dir by (simp add: on_page_def expected_panel_def)
  qed (use cur in simp_all)
  have listing: "flags_ok (s'\<lparr>list_class := m\<rparr>)" "shown_panel (s'\<lparr>list_class := m\<rparr>) = ListPanel"
    if "s' = put_items p new (setStateVisibility False False s2)" for s' p new m
    using s2 that by (simp_all add: flags_ok_def shown_panel_def put_items_def setStateVisibility_def)
  have known: "known_ok (s'\<lparr>list_class := m\<rparr>) = known_ok s'" for s' m by (simp add: known_ok_def)
  have prefs: "reversedFileOrder (put_items p new s') = reversedFileOrder s'" "displayHashFiles (put_items p new s') = displayHashFiles s'"
    "reversedFileOrder (setStateVisibility e er s') = reversedFileOrder s'" "displayHashFiles (setStateVisibility e er s') = displayHashFiles s'"
    "reversedFileOrder (show_empty s') = reversedFileOrder s'" "displayHashFiles (show_empty s') = displayHashFiles s'" for p new e er s'
    by (simp_all add: put_items_def setStateVisibility_def show_empty_def)
  show ?thesis
  proof (cases "applyAdjustments lc (reversedFileOrder s2) (displayHashFiles s2) received = []")
    case True
    then have "show_listing lc l received s2 = to_stage Shown l (show_empty (setStateVisibility False False s2))"
      by (simp add: show_listing_def Let_def)
    moreover have "shown_panel (show_empty (setStateVisibility False False s2)) = EmptyPanel"
      "flags_ok (show_empty (setStateVisibility False False s2))"
      using s2 by (simp_all add: shown_panel_def flags_ok_def show_empty_def setStateVisibility_def)
    ultimately show ?thesis using True s2 dir by (auto intro!: page simp: prefs expected_panel_def)
  next
    case False
    let ?files = "applyAdjustments lc (reversedFileOrder s2) (displayHashFiles s2) received"
    define new where "new = (if load_same l \<and> snd (items s2) \<noteq> [] then renderFileListReconciled ?files (items s2)
      else fill_list ?files (fst (items s2)))"
    have "show_listing lc l received s2 =
        to_stage Shown l ((put_items (load_path l) new (setStateVisibility False False s2))\<lparr>list_class := Ready\<rparr>)"
      using False by (simp add: show_listing_def Let_def new_def)
    then show ?thesis using False s2 dir by (auto intro!: page simp: prefs expected_panel_def listing known)
  qed
qed

lemma arranged:
  fixes s :: browser and path :: string and d :: "repo_info option"
  defines "s2 \<equiv> arrange_page path d (note_details path d s)"
  shows "loads s2 = loads s" "currentLoadSeq s2 = currentLoadSeq s" "reversedFileOrder s2 = reversedFileOrder s"
    "displayHashFiles s2 = displayHashFiles s" "empty_hidden s2 = empty_hidden s" "error_hidden s2 = error_hidden s"
    "list_hidden s2 = list_hidden s" "currentRepoDetails s2 = d" "currentRepositoryFormat s2 = format_id d"
    "currentRepositoryName s2 = (if d \<noteq> None then repository_of path else [])"
    "items s2 = items s" "item_path s2 = item_path s" "side_path s2 = side_path s" "lastDirectoryPath s2 = lastDirectoryPath s"
  by (simp_all add: s2_def arrange_page_def) (simp_all add: note_details_def)

lemma arranged_known:
  "(\<And>i. d = Some i \<Longrightarrow> wants_details path \<and> info_name i = repository_of path) \<Longrightarrow>
   known_ok (arrange_page path d (note_details path d s))"
  using wants_facts by (auto simp: known_ok_def arranged)

lemma arranged_container:
  "container_hidden (arrange_page path d (note_details path d s)) \<longleftrightarrow> view_for path d \<noteq> None"
proof (cases "view_for path d")
  case None
  then show ?thesis by (simp add: arrange_page_def content_mode)
next
  case (Some w)
  then have "views (format_id d) = Some w"
    by (auto simp: view_for_def split: if_splits intro: engine_views)
  then show ?thesis using Some by (simp add: arrange_page_def note_details_def content_mode(1) [of _ w])
qed

lemma after_answers_inv:
  assumes inv: "browser_inv lc s" and l: "l \<in> set (loads s)" "load_dir l = Some listing" "load_details l = Some d"
  shows "browser_inv lc (after_answers lc l d listing s)"
proof (cases "load_id l = currentLoadSeq s")
  case False
  then show ?thesis using inv_load [OF inv l(1)] by (auto simp: after_answers_def intro!: inv_note [OF inv l(1)])
next
  case True
  define s2 where "s2 = arrange_page (load_path l) d (note_details (load_path l) d s)"
  have ok: "load_ok s l" using inv_load [OF inv l(1)] by simp
  have known: "known_ok s2" using ok l unfolding s2_def by (intro arranged_known) (simp add: load_ok_def)
  have flags: "flags_ok s" using inv by (simp add: browser_inv_def)
  have v: "view_of l = view_for (load_path l) d" by (simp add: view_of_def l)
  note s2 = arranged [of "load_path l" d s, folded s2_def] arranged_container [of "load_path l" d s, folded s2_def]
  show ?thesis
  proof (cases "view_for (load_path l) d")
    case (Some w)
    define s' where "s' = (setStateVisibility False False s2)\<lparr>engine_shown := Some (w, load_path l)\<rparr>"
    have eq: "after_answers lc l d listing s = to_stage Rendering l s'"
      using True Some by (simp add: after_answers_def Let_def s'_def s2_def)
    have "flags_ok s'" "shown_panel s' = ViewPanel w (load_path l)" "known_ok s'" "loads s' = loads s"
        "currentLoadSeq s' = currentLoadSeq s"
      using known s2 Some by (simp_all add: flags_ok_def shown_panel_def known_ok_def s'_def setStateVisibility_def)
    then show ?thesis unfolding eq using True ok v Some l
      by (intro inv_page [OF inv l(1)]) (simp_all add: on_page_def expected_panel_def)
  next
    case None
    show ?thesis
    proof (cases listing)
      case (Some received)
      have "after_answers lc l d listing s = show_listing lc l received s2"
        using True None Some by (simp add: after_answers_def Let_def s2_def)
      then show ?thesis using None v l Some s2 known True by (auto intro!: show_listing_inv [OF inv l(1)])
    next
      case no: None
      have eq: "after_answers lc l d listing s = to_stage Reading l s2"
        using True None no by (simp add: after_answers_def Let_def s2_def)
      have "flags_ok s2" using s2 flags None by (simp add: flags_ok_def)
      then show ?thesis unfolding eq using None v l ok s2 known True
        by (intro inv_page [OF inv l(1)]) (simp_all add: on_page_def)
    qed
  qed
qed

section \<open>Every step\<close>

lemma proceed_Some:
  "proceed lc s l = Some t \<longleftrightarrow>
     (\<exists>listing d. load_dir l = Some listing \<and> load_details l = Some d \<and> exit_over l \<and> after_answers lc l d listing s = t)"
  by (cases "load_dir l"; cases "load_details l") (auto simp: proceed_def)

text \<open>
  A deletion that ends shows the note of an empty directory when no item is left, whatever the page shows. The executions in
  which this does not happen:
\<close>

fun empties_list :: "event \<Rightarrow> browser \<Rightarrow> bool" where
  "empties_list (DeleteDone n) s = (visible_items (snd (item_removed n (items s))) = [])"
| "empties_list _ s = False"

definition undisturbed :: "(string \<Rightarrow> string \<Rightarrow> int) \<Rightarrow> event \<Rightarrow> browser \<Rightarrow> browser option" where
  "undisturbed lc e s = (if empties_list e s then None else browser_step lc e s)"

lemma inv_aside:
  assumes "browser_inv lc s" and "loads s' = loads s" "currentLoadSeq s' = currentLoadSeq s" "known_ok s'"
    and "flags_ok s' = flags_ok s" "shown_panel s' = shown_panel s" "reversedFileOrder s' = reversedFileOrder s"
      "displayHashFiles s' = displayHashFiles s"
  shows "browser_inv lc s'"
proof -
  have "load_ok s' x = load_ok s x" "on_page lc s' x = on_page lc s x" for x
    unfolding load_ok_def on_page_def expected_panel_def assms by (rule refl)+
  then show ?thesis using assms(1) by (simp add: browser_inv_def assms)
qed

lemma browser_pending_inv:
  assumes inv: "browser_inv lc s" and l: "load_in i Requested s = Some l"
    and l': "load_id l' = load_id l" "load_ok s l'" "load_stage l' \<in> {Requested, Rejected}"
  shows "browser_inv lc (set_load l' s)"
  using l l' by (intro inv_note [OF inv, of l]) (auto simp: load_in_Some on_page_def dest: load_of_Some)

lemma browser_step_inv:
  assumes inv: "browser_inv lc s" and e: "undisturbed lc e s = Some t"
  shows "browser_inv lc t"
proof -
  have known: "known_ok s" using inv by (simp add: browser_inv_def)
  have ok: "load_ok s l" if "load_in i st s = Some l" for i st l
    using inv_load [OF inv, of l] that load_of_Some [of i s l] by (simp add: load_in_Some)
  have known_frame: "known_ok (s\<lparr>items := x\<rparr>) = known_ok s" "known_ok (s\<lparr>items := x, deletes := y\<rparr>) = known_ok s" for x y
    by (simp_all add: known_ok_def)
  have frame: "flags_ok (s\<lparr>items := x\<rparr>) = flags_ok s" "flags_ok (s\<lparr>items := x, deletes := y\<rparr>) = flags_ok s"
    "shown_panel (s\<lparr>items := x\<rparr>) = shown_panel s" "shown_panel (s\<lparr>items := x, deletes := y\<rparr>) = shown_panel s" for x y
    by (simp_all add: flags_ok_def shown_panel_def)
  show ?thesis
  proof (cases e)
    case (Load path)
    then show ?thesis using e inv loadDirectory_inv [of s lc path] by (simp add: undisturbed_def base_ok_def browser_inv_def)
  next
    case (PrefsChanged r d path)
    have "base_ok (s\<lparr>reversedFileOrder := r, displayHashFiles := d\<rparr>)"
      using inv by (simp add: base_ok_def browser_inv_def known_ok_def flags_ok_def load_ok_def)
    then show ?thesis using PrefsChanged e by (auto simp: undisturbed_def intro: loadDirectory_inv)
  next
    case (SettingsChanged name)
    then have t: "t = handleRepositorySettingsChanged name s" using e by (simp add: undisturbed_def)
    have "known_ok t" using known by (simp add: t handleRepositorySettingsChanged_def known_ok_def)
    then show ?thesis
      by (intro inv_aside [OF inv]) (simp_all add: t handleRepositorySettingsChanged_def flags_ok_def shown_panel_def)
  next
    case (DirAnswered i a)
    then obtain l where l: "load_in i Requested s = Some l" "t = set_load (l\<lparr>load_dir := Some a\<rparr>) s"
      using e by (auto simp: undisturbed_def bind_eq_Some_conv answered_dir_def split: if_splits)
    then show ?thesis using ok [OF l(1)]
      by (auto intro!: browser_pending_inv [OF inv l(1)] simp: load_ok_def view_of_def load_in_Some)
  next
    case (DirFailed i)
    then show ?thesis using e ok by (auto simp: undisturbed_def bind_eq_Some_conv split: if_splits intro!: browser_pending_inv [OF inv])
  next
    case (DetailsAnswered i a)
    then obtain l where l: "load_in i Requested s = Some l" "load_details l = None"
        "t = set_load (l\<lparr>load_details := Some (map_option (\<lambda>f. \<lparr>info_name = repository_of (load_path l), info_format = f\<rparr>) a)\<rparr>) s"
      using e by (auto simp: undisturbed_def bind_eq_Some_conv answered_details_def split: if_splits)
    have w: "wants_details (load_path l)" "\<not> load_reuse l" using ok [OF l(1)] l(2) by (auto simp: load_ok_def view_of_def)
    then show ?thesis using ok [OF l(1)] l
      by (auto intro!: browser_pending_inv [OF inv l(1)] simp: load_ok_def load_in_Some)
  next
    case (DetailsFailed i)
    then show ?thesis using e ok by (auto simp: undisturbed_def bind_eq_Some_conv split: if_splits intro!: browser_pending_inv [OF inv])
  next
    case (ExitOver i)
    then obtain l where l: "load_of i s = Some l" "t = set_load (l\<lparr>exit_over := True\<rparr>) s"
      using e by (auto simp: undisturbed_def bind_eq_Some_conv split: if_splits)
    then show ?thesis using inv_load [OF inv, of l]
      by (auto intro!: inv_note [OF inv, of l] dest: load_of_Some)
  next
    case (Proceed i)
    then obtain l d listing where "load_in i Requested s = Some l" "load_dir l = Some listing" "load_details l = Some d"
        "t = after_answers lc l d listing s"
      using e by (auto simp: undisturbed_def bind_eq_Some_conv proceed_Some)
    then show ?thesis using after_answers_inv [OF inv] by (auto simp: load_in_Some dest: load_of_Some)
  next
    case (ErrorRead i)
    then show ?thesis using e load_failed_inv [OF inv] by (auto simp: undisturbed_def load_in_Some dest: load_of_Some)
  next
    case (Caught i)
    then show ?thesis using e load_failed_inv [OF inv]
      by (auto simp: undisturbed_def load_in_Some bind_eq_Some_conv dest: load_of_Some split: if_splits)
  next
    case (ViewEnded i fine)
    then obtain l where l: "load_in i Rendering s = Some l" "t = (if fine then to_stage Shown l s else load_failed l s)"
      using e by (auto simp: undisturbed_def)
    then have m: "l \<in> set (loads s)" "load_stage l = Rendering" by (auto simp: load_in_Some dest: load_of_Some)
    have "browser_inv lc (to_stage Shown l s)" using inv_load [OF inv m(1)] m
      by (intro inv_note [OF inv m(1)]) (auto simp: on_page_def expected_panel_def)
    then show ?thesis using l load_failed_inv [OF inv m(1)] by simp
  next
    case (DeleteOk n)
    then show ?thesis using e by (auto simp: undisturbed_def known known_frame frame split: if_splits intro!: inv_aside [OF inv])
  next
    case (DeleteDone n)
    then have "t = s\<lparr>items := item_removed n (items s), deletes := remove1 n (deletes s)\<rparr>"
      using e by (auto simp: undisturbed_def delete_done_def showEmptyIfNoFiles_def split: if_splits)
    then show ?thesis by (intro inv_aside [OF inv]) (simp_all add: known known_frame frame)
  next
    case (ItemGone n)
    then show ?thesis using e by (auto simp: undisturbed_def known known_frame frame intro!: inv_aside [OF inv])
  qed
qed

lemma browser_start_inv: "browser_inv lc browser_start"
  by (simp add: browser_inv_def browser_start_def known_ok_def flags_ok_def)

interpretation browser_machine: machine "undisturbed lc" "browser_inv lc" for lc
  by standard (rule browser_step_inv)

section \<open>Quiet executions\<close>

text \<open>
  The executions in which a load starts only when the one before is settled, no request breaks down, and a directory is
  loaded again only while its list (or its error) is on the page.
\<close>

fun unsettled :: "load \<Rightarrow> bool" where
  "unsettled l = (load_stage l \<in> {Requested, Rejected, Reading})"

fun breaks_down :: "event \<Rightarrow> bool" where
  "breaks_down (DirFailed i) = True" | "breaks_down (DetailsFailed i) = True" | "breaks_down _ = False"

fun loads_path :: "event \<Rightarrow> string option" where
  "loads_path (Load p) = Some p" | "loads_path (PrefsChanged r d p) = Some p" | "loads_path _ = None"

definition quiet :: "event \<Rightarrow> browser \<Rightarrow> bool" where
  "quiet e s \<longleftrightarrow> \<not> breaks_down e \<and>
     (case loads_path e of
        Some p \<Rightarrow> list_all (\<lambda>l. \<not> unsettled l) (loads s) \<and> (p = lastDirectoryPath s \<longrightarrow> \<not> container_hidden s)
      | None \<Rightarrow> True)"

definition quiet_step :: "(string \<Rightarrow> string \<Rightarrow> int) \<Rightarrow> event \<Rightarrow> browser \<Rightarrow> browser option" where
  "quiet_step lc e s = (if quiet e s then browser_step lc e s else None)"

definition items_of :: "string \<Rightarrow> browser \<Rightarrow> bool" where
  "items_of path s \<longleftrightarrow> (\<forall>li \<in> set (snd (items s)). item_path s (item_node li) = path)"

definition name_ok :: "browser \<Rightarrow> bool" where
  "name_ok s \<longleftrightarrow> currentRepositoryName s = [] \<or> currentRepositoryName s = repository_of (lastDirectoryPath s)"

definition page_ok :: "browser \<Rightarrow> bool" where
  "page_ok s \<longleftrightarrow> name_ok s \<and> (\<not> container_hidden s \<longrightarrow> items_of (lastDirectoryPath s) s)"

text \<open>What holds of the load begun last.\<close>

definition last_ok :: "browser \<Rightarrow> load \<Rightarrow> bool" where
  "last_ok s l \<longleftrightarrow> load_path l = lastDirectoryPath s \<and>
     (if unsettled l then (load_same l \<longrightarrow> items_of (lastDirectoryPath s) s) \<and> (load_stage l = Reading \<longrightarrow> name_ok s)
      else page_ok s)"

definition quiet_inv :: "browser \<Rightarrow> bool" where
  "quiet_inv s \<longleftrightarrow> distinct (map load_id (loads s)) \<and>
     repository_of (side_path s) = repository_of (lastDirectoryPath s) \<and> (loads s = [] \<longrightarrow> page_ok s) \<and>
     (loads s \<noteq> [] \<longrightarrow> (\<exists>l \<in> set (loads s). load_id l = currentLoadSeq s)) \<and>
     (\<forall>l \<in> set (loads s). load_id l \<le> currentLoadSeq s \<and> load_stage l \<noteq> Rejected \<and>
        (unsettled l \<longrightarrow> load_id l = currentLoadSeq s) \<and> (load_id l = currentLoadSeq s \<longrightarrow> last_ok s l))"

lemma insert_nodes: "item_node ` set (insertAtVisibleIndex L x i) \<subseteq> insert (item_node x) (item_node ` set L)"
  by (auto simp: insertAtVisibleIndex_set without_node_def)

lemma place_file_nodes:
  "place_file E f i (n, L) = (n', L') \<Longrightarrow> (\<And>x. E (file_name f) = Some x \<Longrightarrow> item_node x \<in> N) \<Longrightarrow> item_node ` set L \<subseteq> N \<union> {m..} \<Longrightarrow>
   m \<le> n \<Longrightarrow> item_node ` set L' \<subseteq> N \<union> {m..} \<and> m \<le> n'"
  using insert_nodes unfolding place_file_def createFileItemElement_def
  by (fastforce split: option.splits if_splits)

lemma place_files_nodes:
  "place_files E fs i (n, L) = (n', L') \<Longrightarrow> (\<And>f x. E f = Some x \<Longrightarrow> item_node x \<in> N) \<Longrightarrow> item_node ` set L \<subseteq> N \<union> {m..} \<Longrightarrow>
   m \<le> n \<Longrightarrow> item_node ` set L' \<subseteq> N \<union> {m..}"
proof (induction fs arbitrary: i n L)
  case (Cons f fs)
  obtain n1 L1 where p: "place_file E f i (n, L) = (n1, L1)" by fastforce
  then show ?case using place_file_nodes [OF p, of N m] Cons by auto
qed simp

lemma reconciled_nodes: "item_node ` set (snd (renderFileListReconciled fs s)) \<subseteq> item_node ` set (snd s) \<union> {fst s..}"
proof -
  obtain n' L' where r: "place_files (existing_item (snd s)) fs 0 (fst s, mark_removed fs (snd s)) = (n', L')" by fastforce
  have "item_node x \<in> item_node ` set (snd s)" if "existing_item (snd s) f = Some x" for f x
  proof -
    have "x \<in> set (rev (snd s))" using that unfolding existing_item_def find_Some_iff by (metis nth_mem)
    then show ?thesis by simp
  qed
  moreover have "item_node ` set (mark_removed fs (snd s)) \<subseteq> item_node ` set (snd s)" by (auto simp: mark_removed_def)
  ultimately have "item_node ` set L' \<subseteq> item_node ` set (snd s) \<union> {fst s..}"
    by (intro place_files_nodes [OF r]) auto
  then show ?thesis by (simp add: renderFileListReconciled_def r)
qed

lemma filled_nodes: "item_node ` set (snd (fill_list fs n)) \<subseteq> {n..}"
  by (auto simp: fill_list_def createFileItemElement_def)

lemma items_of_put:
  assumes "item_node ` set (snd new) \<subseteq> item_node ` set (snd (items s)) \<union> {fst (items s)..}" and "items_of path s"
  shows "items_of path (put_items path new s)"
  using assms by (force simp: items_of_def put_items_def)

lemma items_of_fill: "items_of path (put_items path (fill_list fs (fst (items s))) s)"
  using filled_nodes [of fs "fst (items s)"] by (force simp: items_of_def put_items_def)

lemma items_of_sub:
  "item_node ` set (snd x) \<subseteq> item_node ` set (snd (items s)) \<Longrightarrow> items_of path s \<Longrightarrow> items_of path (s\<lparr>items := x\<rparr>)"
  by (force simp: items_of_def)

lemma removed_nodes:
  "item_node ` set (snd (item_removed n x)) \<subseteq> item_node ` set (snd x)"
  "item_node ` set (snd (removeFileItemAnimated n x)) \<subseteq> item_node ` set (snd x)"
  by (auto simp: item_removed_def removeFileItemAnimated_def)

lemma quiet_load:
  "quiet_inv s \<Longrightarrow> l \<in> set (loads s) \<Longrightarrow> load_id l \<le> currentLoadSeq s \<and> load_stage l \<noteq> Rejected \<and>
     (unsettled l \<longrightarrow> load_id l = currentLoadSeq s) \<and> (load_id l = currentLoadSeq s \<longrightarrow> last_ok s l)"
  unfolding quiet_inv_def by blast

lemma quiet_settled:
  assumes inv: "quiet_inv s" and settled: "\<forall>l \<in> set (loads s). \<not> unsettled l"
  shows "page_ok s"
proof (cases "loads s = []")
  case False
  then obtain l where "l \<in> set (loads s)" "load_id l = currentLoadSeq s" using inv by (auto simp: quiet_inv_def)
  then show ?thesis using quiet_load [OF inv, of l] settled by (auto simp: last_ok_def)
qed (use inv in \<open>simp add: quiet_inv_def\<close>)

lemma last_set_load [simp]:
  "items_of p (set_load l s) = items_of p s" "name_ok (set_load l s) = name_ok s" "page_ok (set_load l s) = page_ok s"
  "last_ok (set_load l s) x = last_ok s x"
  by (simp_all add: items_of_def name_ok_def page_ok_def last_ok_def)

lemma quiet_page:
  assumes inv: "quiet_inv s" and l: "l \<in> set (loads s)" and id: "load_id l' = load_id l" "load_stage l' \<noteq> Rejected"
    and un: "unsettled l' \<Longrightarrow> unsettled l"
    and s': "loads s' = loads s" "currentLoadSeq s' = currentLoadSeq s" "side_path s' = side_path s" "lastDirectoryPath s' = lastDirectoryPath s"
    and page: "load_id l = currentLoadSeq s \<Longrightarrow> last_ok s' l'"
    and others: "load_id l \<noteq> currentLoadSeq s \<Longrightarrow> s' = s"
  shows "quiet_inv (set_load l' s')"
proof -
  have "load_id x \<le> currentLoadSeq s \<and> load_stage x \<noteq> Rejected \<and> (unsettled x \<longrightarrow> load_id x = currentLoadSeq s) \<and>
      (load_id x = currentLoadSeq s \<longrightarrow> last_ok s' x)"
    if "x \<in> set (loads (set_load l' s'))" for x
  proof (cases "x = l'")
    case True
    then show ?thesis using quiet_load [OF inv l] page id un by auto
  next
    case False
    then have x: "x \<in> set (loads s)" "load_id x \<noteq> load_id l" using that id by (auto simp: s' set_loads)
    then show ?thesis using quiet_load [OF inv x(1)] others by (cases "load_id l = currentLoadSeq s") auto
  qed
  moreover have "distinct (map load_id (loads (set_load l' s')))" using inv by (simp only: set_load_fields s' quiet_inv_def)
  moreover have now: "\<exists>x \<in> set (loads (set_load l' s')). load_id x = currentLoadSeq s"
  proof -
    obtain x where x: "x \<in> set (loads s)" "load_id x = currentLoadSeq s"
      using inv l by (auto simp: quiet_inv_def)
    then have "(if load_id x = load_id l' then l' else x) \<in> set (loads (set_load l' s'))" by (auto simp: set_loads s')
    then show ?thesis using x by (rule_tac bexI) auto
  qed
  moreover have "loads (set_load l' s') \<noteq> []"
  proof
    assume "loads (set_load l' s') = []"
    then show False using now by simp
  qed
  ultimately show ?thesis using inv unfolding quiet_inv_def by (simp add: s')
qed

lemma quiet_note:
  assumes "quiet_inv s" and "l \<in> set (loads s)" and "load_id l' = load_id l" "load_path l' = load_path l" "load_same l' = load_same l"
    and "load_stage l' = load_stage l"
  shows "quiet_inv (set_load l' s)"
  using assms quiet_load [OF assms(1,2)]
  by (intro quiet_page [OF assms(1,2)]) (auto simp: last_ok_def)

lemma quiet_failed:
  assumes inv: "quiet_inv s" and l: "l \<in> set (loads s)" and name: "load_id l = currentLoadSeq s \<Longrightarrow> name_ok s"
  shows "quiet_inv (load_failed l s)"
proof (cases "load_id l = currentLoadSeq s")
  case True
  have p: "load_path l = lastDirectoryPath s" using quiet_load [OF inv l] True by (simp add: last_ok_def)
  define s' where "s' = (setStateVisibility False True
    ((setRepositoryContentMode [] s)\<lparr>search_repository := [], items := (fst (items s), [])\<rparr>))\<lparr>list_class := ErrorMode\<rparr>"
  have "load_failed l s = to_stage Failed l s'" using True by (simp add: load_failed_def Let_def s'_def)
  moreover have "quiet_inv (to_stage Failed l s')" using True p name [OF True]
    by (intro quiet_page [OF inv l])
      (simp_all add: last_ok_def page_ok_def name_ok_def items_of_def s'_def setStateVisibility_def)
  ultimately show ?thesis by simp
next
  case False
  then show ?thesis using quiet_load [OF inv l] by (auto simp: load_failed_def intro!: quiet_page [OF inv l])
qed

lemma quiet_listing:
  assumes inv: "quiet_inv s" and l: "l \<in> set (loads s)" "load_id l = currentLoadSeq s" "unsettled l"
    and s2: "loads s2 = loads s" "currentLoadSeq s2 = currentLoadSeq s" "side_path s2 = side_path s" "lastDirectoryPath s2 = lastDirectoryPath s"
      "items s2 = items s" "item_path s2 = item_path s" "name_ok s2"
  shows "quiet_inv (show_listing lc l received s2)"
proof -
  have p: "load_path l = lastDirectoryPath s" and same: "load_same l \<Longrightarrow> items_of (lastDirectoryPath s) s"
    using quiet_load [OF inv l(1)] l by (auto simp: last_ok_def)
  have page: "quiet_inv (to_stage Shown l s')"
    if "loads s' = loads s" "currentLoadSeq s' = currentLoadSeq s" "side_path s' = side_path s" "lastDirectoryPath s' = lastDirectoryPath s"
      "name_ok s'" "items_of (lastDirectoryPath s) s'" for s'
    using l p that by (intro quiet_page [OF inv l(1)]) (simp_all add: last_ok_def page_ok_def)
  have n: "name_ok (setStateVisibility e er x) = name_ok x" "name_ok (put_items q new x) = name_ok x" "name_ok (x\<lparr>list_class := m\<rparr>) = name_ok x"
    "name_ok (show_empty x) = name_ok x" for e er x q new m
    by (simp_all add: name_ok_def setStateVisibility_def put_items_def show_empty_def)
  have f: "side_path (setStateVisibility e er x) = side_path x" "side_path (put_items q new x) = side_path x" "side_path (show_empty x) = side_path x"
    "lastDirectoryPath (setStateVisibility e er x) = lastDirectoryPath x" "lastDirectoryPath (put_items q new x) = lastDirectoryPath x"
    "lastDirectoryPath (show_empty x) = lastDirectoryPath x" for e er x q new
    by (simp_all add: setStateVisibility_def put_items_def show_empty_def)
  have i: "items_of q (x\<lparr>list_class := m\<rparr>) = items_of q x" "items_of q (show_empty x)" for q x m
    by (simp_all add: items_of_def show_empty_def setStateVisibility_def)
  define s1 where "s1 = setStateVisibility False False s2"
  have s1: "items s1 = items s" "items_of q s1 = items_of q s" for q
    using s2 by (simp_all add: s1_def setStateVisibility_def items_of_def)
  have rec: "items_of (lastDirectoryPath s) (put_items (lastDirectoryPath s) (renderFileListReconciled fs (items s)) s1)" if "load_same l" for fs
    using same [OF that] reconciled_nodes [of fs "items s"] by (intro items_of_put) (simp_all add: s1)
  have fill: "items_of (lastDirectoryPath s) (put_items (lastDirectoryPath s) (fill_list fs (fst (items s))) s1)" for fs
    using items_of_fill [of "lastDirectoryPath s" fs s1] by (simp add: s1)
  show ?thesis unfolding show_listing_def Let_def s1_def [symmetric] s2(5)
    by (auto intro!: page simp: p n f i rec fill) (simp_all add: s1_def s2 f n)
qed

lemma quiet_answers:
  assumes inv: "quiet_inv s" and l: "l \<in> set (loads s)" "load_id l = currentLoadSeq s" "unsettled l"
  shows "quiet_inv (after_answers lc l d listing s)"
proof -
  have p: "load_path l = lastDirectoryPath s" and same: "load_same l \<Longrightarrow> items_of (lastDirectoryPath s) s"
    using quiet_load [OF inv l(1)] l by (auto simp: last_ok_def)
  define s2 where "s2 = arrange_page (load_path l) d (note_details (load_path l) d s)"
  note s2 = arranged [of "load_path l" d s, folded s2_def] arranged_container [of "load_path l" d s, folded s2_def]
  have name: "name_ok s2" using s2 p by (simp add: name_ok_def)
  show ?thesis
  proof (cases "view_for (load_path l) d")
    case (Some w)
    define s' where "s' = (setStateVisibility False False s2)\<lparr>engine_shown := Some (w, load_path l)\<rparr>"
    have eq: "after_answers lc l d listing s = to_stage Rendering l s'"
      using l Some by (simp add: after_answers_def Let_def s'_def s2_def)
    have "name_ok s'" "container_hidden s'" using name s2 Some by (simp_all add: s'_def name_ok_def setStateVisibility_def)
    then show ?thesis unfolding eq using l p s2
      by (intro quiet_page [OF inv l(1)]) (auto simp: last_ok_def page_ok_def s'_def setStateVisibility_def)
  next
    case None
    show ?thesis
    proof (cases listing)
      case (Some received)
      have "after_answers lc l d listing s = show_listing lc l received s2"
        using l None Some by (simp add: after_answers_def Let_def s2_def)
      then show ?thesis using quiet_listing [OF inv l] s2 name by simp
    next
      case no: None
      have eq: "after_answers lc l d listing s = to_stage Reading l s2"
        using l None no by (simp add: after_answers_def Let_def s2_def)
      have "items_of q s2 = items_of q s" for q using s2 by (simp add: items_of_def)
      then show ?thesis unfolding eq using l p s2 name same
        by (intro quiet_page [OF inv l(1)]) (auto simp: last_ok_def)
    qed
  qed
qed

lemma quiet_loadDirectory:
  assumes inv: "quiet_inv s" and settled: "\<forall>l \<in> set (loads s). \<not> unsettled l"
    and again: "path = lastDirectoryPath s \<Longrightarrow> \<not> container_hidden s"
  shows "quiet_inv (loadDirectory path s)"
proof -
  define t where "t = loadDirectory path s"
  have page: "page_ok s" by (rule quiet_settled [OF inv settled])
  obtain l where l: "loads t = loads s @ [l]" "load_id l = Suc (currentLoadSeq s)" "load_stage l = Requested" "load_path l = path"
    "load_same l = (lastDirectoryPath s = path)"
    and t: "currentLoadSeq t = Suc (currentLoadSeq s)" "lastDirectoryPath t = path" "items t = items s" "item_path t = item_path s"
      "side_path t = (if can_reuse path s then side_path s else path)"
    by (simp add: t_def loadDirectory_def Let_def split_def beginListTransition_def)
  have "repository_of (side_path t) = repository_of path"
    using inv page by (auto simp: t can_reuse_def quiet_inv_def page_ok_def name_ok_def)
  moreover have "last_ok t l" using page again l by (auto simp: last_ok_def t page_ok_def items_of_def)
  moreover have "load_id x \<le> currentLoadSeq s \<and> load_stage x \<noteq> Rejected \<and> \<not> unsettled x" if "x \<in> set (loads s)" for x
    using quiet_load [OF inv that] settled that by blast
  moreover from this have "distinct (map load_id (loads t))" using inv l by (fastforce simp: quiet_inv_def)
  ultimately have "quiet_inv t" unfolding quiet_inv_def using l t by fastforce
  then show ?thesis by (simp add: t_def)
qed

lemma quiet_items:
  assumes inv: "quiet_inv s" and sub: "item_node ` set (snd x) \<subseteq> item_node ` set (snd (items s))"
    and s': "loads s' = loads s" "currentLoadSeq s' = currentLoadSeq s" "side_path s' = side_path s" "lastDirectoryPath s' = lastDirectoryPath s"
      "items s' = x" "item_path s' = item_path s" "currentRepositoryName s' = currentRepositoryName s" "container_hidden s' = container_hidden s"
  shows "quiet_inv s'"
proof -
  have i: "items_of q s \<Longrightarrow> items_of q s'" for q using sub s' by (force simp: items_of_def)
  have n: "name_ok s' = name_ok s" using s' by (simp add: name_ok_def)
  have p: "page_ok s \<Longrightarrow> page_ok s'" using i by (simp add: page_ok_def n s')
  have "last_ok s l \<Longrightarrow> last_ok s' l" for l using i p by (simp add: last_ok_def n s')
  then show ?thesis using inv p unfolding quiet_inv_def s' by blast
qed

lemma quiet_step_inv:
  assumes inv: "quiet_inv s" and e: "quiet_step lc e s = Some t"
  shows "quiet_inv t"
proof -
  have q: "quiet e s" and e: "browser_step lc e s = Some t" using e by (auto simp: quiet_step_def split: if_splits)
  have mem: "l \<in> set (loads s) \<and> load_stage l = st" if "load_in i st s = Some l" for i st l
    using that load_of_Some [of i s l] by (simp add: load_in_Some)
  show ?thesis
  proof (cases e)
    case (Load path)
    then show ?thesis using q e by (auto simp: quiet_def list_all_iff intro!: quiet_loadDirectory [OF inv])
  next
    case (PrefsChanged r d path)
    have "quiet_inv (s\<lparr>reversedFileOrder := r, displayHashFiles := d\<rparr>)" by (rule quiet_items [OF inv]) auto
    then show ?thesis using PrefsChanged q e by (auto simp: quiet_def list_all_iff intro!: quiet_loadDirectory)
  next
    case (SettingsChanged name)
    define u where "u = s\<lparr>currentRepoDetails := None, currentRepositoryName := []\<rparr>"
    have "name_ok u" "page_ok s \<Longrightarrow> page_ok u" "last_ok s l \<Longrightarrow> last_ok u l" for l
      by (auto simp: u_def name_ok_def page_ok_def last_ok_def items_of_def)
    then have "quiet_inv u" using inv unfolding quiet_inv_def by (simp add: u_def)
    then show ?thesis using SettingsChanged e inv by (auto simp: handleRepositorySettingsChanged_def u_def split: if_splits)
  next
    case (DirAnswered i a)
    then show ?thesis using e
      by (auto simp: bind_eq_Some_conv answered_dir_def split: if_splits dest: mem intro!: quiet_note [OF inv])
  next
    case (DetailsAnswered i a)
    then show ?thesis using e
      by (auto simp: bind_eq_Some_conv answered_details_def split: if_splits dest: mem intro!: quiet_note [OF inv])
  next
    case (ExitOver i)
    then show ?thesis using e
      by (auto simp: bind_eq_Some_conv split: if_splits dest!: load_of_Some intro!: quiet_note [OF inv])
  next
    case (Proceed i)
    then obtain l d listing where "load_in i Requested s = Some l" "t = after_answers lc l d listing s"
      using e by (auto simp: bind_eq_Some_conv proceed_Some)
    then show ?thesis using mem quiet_load [OF inv, of l] quiet_answers [OF inv, of l] by simp
  next
    case (ErrorRead i)
    then obtain l where l: "load_in i Reading s = Some l" "t = load_failed l s" using e by auto
    then show ?thesis using mem [OF l(1)] quiet_load [OF inv, of l]
      by (auto simp: last_ok_def intro!: quiet_failed [OF inv])
  next
    case (Caught i)
    then show ?thesis using e mem quiet_load [OF inv] by (fastforce simp: bind_eq_Some_conv)
  next
    case (ViewEnded i fine)
    then obtain l where l: "load_in i Rendering s = Some l" "t = (if fine then to_stage Shown l s else load_failed l s)"
      using e by auto
    have m: "l \<in> set (loads s)" "load_stage l = Rendering" using mem [OF l(1)] by auto
    have "quiet_inv (to_stage Shown l s)"
      using quiet_load [OF inv m(1)] m by (intro quiet_page [OF inv m(1)]) (auto simp: last_ok_def)
    moreover have "quiet_inv (load_failed l s)"
      using quiet_load [OF inv m(1)] m by (intro quiet_failed [OF inv m(1)]) (auto simp: last_ok_def page_ok_def)
    ultimately show ?thesis using l by simp
  next
    case (DeleteOk n)
    then show ?thesis using e removed_nodes(2) [of n "items s"]
      by (auto split: if_splits intro!: quiet_items [OF inv, of "removeFileItemAnimated n (items s)"])
  next
    case (DeleteDone n)
    then have "t = delete_done n s" using e by (simp split: if_splits)
    define x where "x = (if visible_items (snd (item_removed n (items s))) = [] then (fst (items s), []) else item_removed n (items s))"
    have "items t = x" by (simp add: \<open>t = _\<close> x_def delete_done_def showEmptyIfNoFiles_def show_empty_def setStateVisibility_def item_removed_def)
    moreover have "item_node ` set (snd x) \<subseteq> item_node ` set (snd (items s))" using removed_nodes(1) [of n "items s"] by (auto simp: x_def)
    ultimately show ?thesis
      by (intro quiet_items [OF inv, of x])
        (simp_all add: \<open>t = _\<close> delete_done_def showEmptyIfNoFiles_def show_empty_def setStateVisibility_def)
  next
    case (ItemGone n)
    then show ?thesis using e removed_nodes(1) [of n "items s"]
      by (auto intro!: quiet_items [OF inv, of "item_removed n (items s)"])
  qed (use q in \<open>simp_all add: quiet_def\<close>)
qed

lemma start_quiet: "quiet_inv browser_start"
  by (simp add: quiet_inv_def browser_start_def page_ok_def name_ok_def items_of_def)

interpretation quiet_machine: machine "quiet_step lc" quiet_inv for lc
  by standard (rule quiet_step_inv)

section \<open>Properties\<close>

text \<open>
  C9: In every execution in which no deletion that ends leaves the list without items, whatever the order of navigations,
  answers, fades, failures, deletions and changes of the settings, the load begun last decides what is visible once it has
  ended: the view of the repository's format with its path, the listing (empty or not, in the order chosen) or the error; no
  answer of an earlier load changes the page. Exactly one of these panels is visible at every time, and a load that reuses
  known details always finds a view, so it never fails for the listing it did not ask for. A deletion that empties the list
  is excluded because its end shows the empty note on whatever page is there: \<open>late_deletion_hides_error\<close> below.
\<close>

theorem latest_directory_shown:
  assumes "run (undisturbed lc) es browser_start = Some s"
  shows "shown_panel s \<noteq> NoPanel \<and> (container_hidden s \<or> (list_hidden s = (shown_panel s \<noteq> ListPanel))) \<and>
    (\<forall>l \<in> set (loads s).
      (load_id l = currentLoadSeq s \<and> load_stage l \<in> {Rendering, Shown, Failed} \<longrightarrow> shown_panel s = expected_panel lc s l) \<and>
      (load_reuse l \<longrightarrow> view_of l \<noteq> None \<and> (load_id l = currentLoadSeq s \<longrightarrow> load_stage l \<noteq> Reading)))"
proof -
  have inv: "browser_inv lc s" by (rule browser_machine.inv_run [OF assms browser_start_inv])
  then have "flags_ok s" by (simp add: browser_inv_def)
  then have "shown_panel s \<noteq> NoPanel \<and> (container_hidden s \<or> (list_hidden s = (shown_panel s \<noteq> ListPanel)))"
    by (auto simp: flags_ok_def shown_panel_def split: option.splits)
  moreover have "(load_id l = currentLoadSeq s \<and> load_stage l \<in> {Rendering, Shown, Failed} \<longrightarrow> shown_panel s = expected_panel lc s l) \<and>
      (load_reuse l \<longrightarrow> view_of l \<noteq> None \<and> (load_id l = currentLoadSeq s \<longrightarrow> load_stage l \<noteq> Reading))" if "l \<in> set (loads s)" for l
    using inv_load [OF inv that] by (auto simp: load_ok_def on_page_def)
  ultimately show ?thesis by blast
qed

definition plain :: "string \<Rightarrow> string \<Rightarrow> int" where "plain a b = 0"

text \<open>Two navigations, the answers to the first arriving last.\<close>

definition overtaken_run :: "event list" where
  "overtaken_run =
     [Load ''/files/a'', Load ''/pkgs'', DirAnswered 2 None, DetailsAnswered 2 (Some ''npm''), Proceed 2,
      DirAnswered 1 (Some [jar]), DetailsAnswered 1 (Some ''files''), Proceed 1]"

theorem latest_directory_shown_witness:
  "shown_panel (the (run (undisturbed plain) overtaken_run browser_start)) = ViewPanel NpmView ''/pkgs''"
proof -
  define s where "s = the (run (undisturbed plain) overtaken_run browser_start)"
  have some: "run (undisturbed plain) overtaken_run browser_start \<noteq> None" by code_simp
  have l: "\<exists>l \<in> set (loads s). load_id l = currentLoadSeq s \<and> load_stage l = Rendering \<and> expected_panel plain s l = ViewPanel NpmView ''/pkgs''"
    unfolding s_def by code_simp
  show ?thesis
    using latest_directory_shown [of plain overtaken_run s] some l unfolding s_def by auto
qed

text \<open>
  C10: In a quiet execution every item of the list belongs to the directory asked for last, also after a refresh in place, so
  its link and its delete button act on that directory; and the panels beside the list (statistics, snippets, the target
  of an upload) belong to the repository of that directory.
\<close>

theorem items_lead_to_directory:
  assumes "run (quiet_step lc) es browser_start = Some s" and "list_all (\<lambda>l. \<not> unsettled l) (loads s)"
  shows "(\<not> container_hidden s \<longrightarrow> (\<forall>li \<in> set (snd (items s)). item_path s (item_node li) = lastDirectoryPath s)) \<and>
    repository_of (side_path s) = repository_of (lastDirectoryPath s)"
proof -
  have inv: "quiet_inv s" by (rule quiet_machine.inv_run [OF assms(1) start_quiet])
  then have "page_ok s" using assms(2) by (intro quiet_settled) (auto simp: list_all_iff)
  then show ?thesis using inv by (simp add: page_ok_def items_of_def quiet_inv_def)
qed

definition refresh_run :: "event list" where
  "refresh_run =
     [Load ''/files/a'', DirAnswered 1 (Some [jar]), DetailsAnswered 1 (Some ''files''), Proceed 1,
      PrefsChanged True True ''/files/a'', DetailsAnswered 2 (Some ''files''), DirAnswered 2 (Some [pom, jar]), Proceed 2]"

theorem items_lead_to_directory_witness:
  "(let s = the (run (quiet_step plain) refresh_run browser_start) in
    length (snd (items s)) = 2 \<and> (\<forall>li \<in> set (snd (items s)). item_path s (item_node li) = ''/files/a''))"
proof -
  define s where "s = the (run (quiet_step plain) refresh_run browser_start)"
  have some: "run (quiet_step plain) refresh_run browser_start \<noteq> None" by code_simp
  have l: "list_all (\<lambda>l. \<not> unsettled l) (loads s)" "\<not> container_hidden s" "lastDirectoryPath s = ''/files/a''" "length (snd (items s)) = 2"
    unfolding s_def by code_simp+
  show ?thesis using items_lead_to_directory [of plain refresh_run s] some l unfolding s_def [symmetric] by (auto simp: s_def)
qed

section \<open>Executions that are not quiet\<close>

text \<open>
  A double click on a directory loads it twice. The second load takes the directory for the one shown, although its listing
  has not arrived yet, and refreshes in place the list of the directory above: the items of files with equal names keep
  the links and the delete buttons of the directory above.
\<close>

theorem double_click_keeps_foreign_items:
  "(let s = the (run (browser_step plain)
        [Load ''/files'', DirAnswered 1 (Some [jar, pom]), DetailsAnswered 1 (Some ''files''), Proceed 1,
         Load ''/files/a'', Load ''/files/a'', DirAnswered 3 (Some [jar]), DetailsAnswered 3 (Some ''files''), Proceed 3] browser_start)
    in shown_panel s = ListPanel \<and> lastDirectoryPath s = ''/files/a'' \<and>
       map (\<lambda>li. (item_path s (item_node li), item_name li)) (visible_items (snd (items s))) = [(''/files'', ''a.jar'')])"
  by code_simp

text \<open>
  A repository whose view was shown is shown again without updating the panels beside it, also when another repository was
  asked for in between and the user went back before its answer, or its request failed.
\<close>

theorem abandoned_load_keeps_panels:
  "(let s = the (run (browser_step plain)
        [Load ''/pkgs'', DirAnswered 1 None, DetailsAnswered 1 (Some ''npm''), Proceed 1, Load ''/files'', Load ''/pkgs'', Proceed 3] browser_start)
    in shown_panel s = ViewPanel NpmView ''/pkgs'' \<and> side_path s = ''/files'')"
  by code_simp

theorem failed_load_keeps_panels:
  "(let s = the (run (browser_step plain)
        [Load ''/pkgs'', DirAnswered 1 None, DetailsAnswered 1 (Some ''npm''), Proceed 1,
         Load ''/files'', DetailsAnswered 2 (Some ''files''), DirFailed 2, Caught 2, Load ''/pkgs'', Proceed 3] browser_start)
    in shown_panel s = ViewPanel NpmView ''/pkgs'' \<and> side_path s = ''/files'')"
  by code_simp

text \<open>The end of a deletion shows the note that the directory is empty, also on the page of an error.\<close>

theorem late_deletion_hides_error:
  "(let s = the (run (browser_step plain)
        [Load ''/files'', DirAnswered 1 (Some [jar]), DetailsAnswered 1 (Some ''files''), Proceed 1, DeleteOk 0,
         Load ''/gone'', ExitOver 2, DirAnswered 2 None, DetailsAnswered 2 None, Proceed 2, ErrorRead 2, DeleteDone 0] browser_start)
    in lastDirectoryPath s = ''/gone'' \<and> shown_panel s = EmptyPanel)"
  by code_simp

end
