(* ===== verification/Search.thy ===== *)
theory Search
  imports App_Routes Machine
begin

text \<open>
  The search within a repository (\<open>browser/search.js\<close>) and the suggestions of user names of the team forms
  (\<open>browser/user-suggestions.js\<close>). Both wait a moment after a key, send a request and show its answer in a panel below the
  field, and both keep a version that grows with every key, so that answers of earlier texts are dropped. The positions
  of the panels and the markup of the rows are left out; closing takes an animation, whose end is a timer. A row can be
  clicked while its panel is open: while it closes it lets the pointer through.
\<close>

section \<open>Search results\<close>

definition resultPath :: "string \<Rightarrow> string \<Rightarrow> string" where
  "resultPath repository relativePath =
     ''/'' @ encodeURIComponent repository @ ''/'' @
       join ''/'' (map encodeURIComponent (filter (\<lambda>p. p \<noteq> []) (split_on (CHR ''/'') relativePath)))"

record result_row =
  row_path :: string
  row_type :: string

text \<open>The icon of a row; \<open>active\<close> is the icon of the format.\<close>

definition row_icon :: "string \<Rightarrow> string \<Rightarrow> string \<Rightarrow> string" where
  "row_icon docker active rowType =
     (if rowType = ''DIRECTORY'' then ''folder'' else if rowType = ''DOMAIN'' then ''network''
      else if rowType = ''IMAGE'' then docker
      else if rowType = ''PACKAGE'' \<or> rowType = ''REPOSITORY'' then active else ''file'')"

text \<open>
  The content of the panel: the note that the search runs, the rows found in a repository for a query (none: the note that
  nothing was found), or the note that the search failed.
\<close>

datatype panel_content = Searching | Found string string "result_row list" | SearchFailed

record search_request =
  rq_query :: string
  rq_version :: nat
  rq_repository :: string
  rq_aborted :: bool
  rq_open :: bool

text \<open>\<open>content_version\<close> is the version the content was written for; \<open>opened\<close> lists the paths opened by clicks.\<close>

record search =
  activeRepository :: string
  activeFormat :: string
  input_text :: string
  searchVersion :: nat
  searchTimer :: "(string \<times> nat) option"
  search_requests :: "search_request list"
  panel_content :: "panel_content option"
  content_version :: nat
  panel_hidden :: bool
  panel_visible :: bool
  panel_leaving :: bool
  closeTimer :: bool
  frames :: nat
  opened :: "string list"

definition search_start :: search where
  "search_start = \<lparr>activeRepository = [], activeFormat = ''maven'', input_text = [], searchVersion = 0, searchTimer = None,
     search_requests = [], panel_content = None, content_version = 0, panel_hidden = True, panel_visible = False,
     panel_leaving = False, closeTimer = False, frames = 0, opened = []\<rparr>"

definition openResultsPanel :: "search \<Rightarrow> search" where
  "openResultsPanel s = s\<lparr>closeTimer := False, panel_hidden := False, panel_leaving := False, frames := Suc (frames s)\<rparr>"

definition closeResultsPanel :: "search \<Rightarrow> search" where
  "closeResultsPanel s =
     (let s1 = s\<lparr>closeTimer := False, panel_visible := False\<rparr> in
      if panel_hidden s then s1\<lparr>panel_leaving := False, panel_hidden := True\<rparr>
      else s1\<lparr>panel_leaving := True, closeTimer := True\<rparr>)"

definition replaceResultsContent :: "panel_content \<Rightarrow> nat \<Rightarrow> search \<Rightarrow> search" where
  "replaceResultsContent c version s =
     (let s1 = s\<lparr>panel_content := Some c, content_version := version\<rparr> in
      if panel_hidden s \<or> \<not> panel_visible s then openResultsPanel s1 else s1)"

definition abort_request :: "search \<Rightarrow> search" where
  "abort_request s = s\<lparr>search_requests := map (\<lambda>r. r\<lparr>rq_aborted := True\<rparr>) (search_requests s)\<rparr>"

text \<open>Only the request sent last has a controller that can still abort it; the earlier ones are aborted already.\<close>

definition fetchRepositorySearch :: "string \<Rightarrow> nat \<Rightarrow> search \<Rightarrow> search" where
  "fetchRepositorySearch query version s =
     (if activeRepository s = [] then s
      else let s1 = abort_request s in
        s1\<lparr>search_requests := search_requests s1 @
           [\<lparr>rq_query = query, rq_version = version, rq_repository = activeRepository s, rq_aborted = False, rq_open = True\<rparr>]\<rparr>)"

text \<open>What a request ends with: rows, an answer that is no success, or a failure; an aborted one fails.\<close>

datatype search_result = Rows "result_row list" | NoSuccess | Breakdown

definition search_answered :: "search_request \<Rightarrow> search_result \<Rightarrow> search \<Rightarrow> search" where
  "search_answered r a s =
     (case a of
        Rows rows \<Rightarrow> if rq_version r \<noteq> searchVersion s then s
                     else replaceResultsContent (Found (rq_repository r) (rq_query r) rows) (rq_version r) s
      | NoSuccess \<Rightarrow> if rq_version r \<noteq> searchVersion s then s else replaceResultsContent SearchFailed (rq_version r) s
      | Breakdown \<Rightarrow> if rq_aborted r \<or> rq_version r \<noteq> searchVersion s then s
                     else replaceResultsContent SearchFailed (rq_version r) s)"

definition handleSearchInput :: "string \<Rightarrow> search \<Rightarrow> search" where
  "handleSearchInput typed s =
     (let query = js_trim typed; version = Suc (searchVersion s);
          s1 = s\<lparr>input_text := typed, searchTimer := None, searchVersion := version\<rparr> in
      if query = [] then closeResultsPanel (abort_request s1)
      else (replaceResultsContent Searching version s1)\<lparr>searchTimer := Some (query, version)\<rparr>)"

definition clearRepositorySearch :: "search \<Rightarrow> search" where
  "clearRepositorySearch s =
     closeResultsPanel (abort_request (s\<lparr>input_text := [], searchVersion := Suc (searchVersion s)\<rparr>))"

definition updateRepositorySearch :: "string \<Rightarrow> string \<Rightarrow> search \<Rightarrow> search" where
  "updateRepositorySearch repository format s =
     (let changed = (repository \<noteq> activeRepository s \<or> format \<noteq> activeFormat s);
          s1 = s\<lparr>activeRepository := repository, activeFormat := or_else format ''maven''\<rparr> in
      if changed \<or> repository = [] then clearRepositorySearch s1 else s1)"

definition rows_shown :: "search \<Rightarrow> result_row list" where
  "rows_shown s = (case panel_content s of Some (Found repository query rows) \<Rightarrow> rows | _ \<Rightarrow> [])"

definition handleResultClick :: "result_row \<Rightarrow> search \<Rightarrow> search" where
  "handleResultClick row s =
     (closeResultsPanel s)\<lparr>opened := resultPath (activeRepository s) (row_path row) # opened s\<rparr>"

datatype search_event =
    Typed string | ClearClicked | ClosedOutside | Configured string string | TimerFired | Answered nat search_result
  | RowClicked nat | CloseEnded | Frame

fun search_step :: "search_event \<Rightarrow> search \<Rightarrow> search option" where
  "search_step (Typed typed) s = Some (handleSearchInput typed s)"
| "search_step ClearClicked s = Some (clearRepositorySearch s)"
| "search_step ClosedOutside s = Some (closeResultsPanel s)"
| "search_step (Configured repository format) s = Some (updateRepositorySearch repository format s)"
| "search_step TimerFired s =
     (case searchTimer s of Some (query, version) \<Rightarrow> Some (fetchRepositorySearch query version (s\<lparr>searchTimer := None\<rparr>)) | None \<Rightarrow> None)"
| "search_step (Answered i a) s =
     (if i < length (search_requests s) \<and> rq_open (search_requests s ! i)
      then let r = search_requests s ! i in
           Some (search_answered r a (s\<lparr>search_requests := (search_requests s)[i := r\<lparr>rq_open := False\<rparr>]\<rparr>))
      else None)"
| "search_step (RowClicked i) s =
     (if i < length (rows_shown s) \<and> \<not> panel_hidden s \<and> panel_visible s \<and> \<not> panel_leaving s
      then Some (handleResultClick (rows_shown s ! i) s) else None)"
| "search_step CloseEnded s =
     (if closeTimer s then Some (s\<lparr>panel_hidden := True, panel_leaving := False, closeTimer := False\<rparr>) else None)"
| "search_step Frame s = (if frames s > 0 then Some (s\<lparr>frames := frames s - 1, panel_visible := True\<rparr>) else None)"

definition panel_open :: "search \<Rightarrow> bool" where
  "panel_open s \<longleftrightarrow> \<not> panel_hidden s \<and> \<not> panel_leaving s"

section \<open>Results belong to the text\<close>

definition request_ok :: "search \<Rightarrow> search_request \<Rightarrow> bool" where
  "request_ok s r \<longleftrightarrow> rq_version r \<le> searchVersion s \<and>
     (rq_version r = searchVersion s \<longrightarrow> rq_query r = js_trim (input_text s) \<and> rq_query r \<noteq> [] \<and> rq_repository r = activeRepository s)"

definition content_ok :: "search \<Rightarrow> bool" where
  "content_ok s \<longleftrightarrow>
     (panel_open s \<longrightarrow> panel_content s \<noteq> None \<and> content_version s = searchVersion s \<and> js_trim (input_text s) \<noteq> []) \<and>
     (content_version s = searchVersion s \<longrightarrow>
        (\<forall>repository query rows. panel_content s = Some (Found repository query rows) \<longrightarrow>
           repository = activeRepository s \<and> query = js_trim (input_text s)))"

definition search_inv :: "search \<Rightarrow> bool" where
  "search_inv s \<longleftrightarrow> content_ok s \<and> content_version s \<le> searchVersion s \<and> (\<forall>r \<in> set (search_requests s). request_ok s r) \<and>
     (\<forall>query version. searchTimer s = Some (query, version) \<longrightarrow>
        version \<le> searchVersion s \<and> (version = searchVersion s \<longrightarrow> query = js_trim (input_text s) \<and> query \<noteq> []))"

lemma request_ok_frame:
  "searchVersion s' = searchVersion s \<Longrightarrow> input_text s' = input_text s \<Longrightarrow> activeRepository s' = activeRepository s \<Longrightarrow>
   request_ok s' r = request_ok s r"
  by (simp add: request_ok_def)

lemma request_ok_later:
  "searchVersion s' = Suc (searchVersion s) \<Longrightarrow> request_ok s r \<Longrightarrow> request_ok s' r"
  by (simp add: request_ok_def)

lemma request_flags [simp]:
  "request_ok s (r\<lparr>rq_aborted := b\<rparr>) = request_ok s r" "request_ok s (r\<lparr>rq_open := b\<rparr>) = request_ok s r"
  by (simp_all add: request_ok_def)

lemma close_fields [simp]:
  "searchVersion (closeResultsPanel s) = searchVersion s" "input_text (closeResultsPanel s) = input_text s"
  "activeRepository (closeResultsPanel s) = activeRepository s" "search_requests (closeResultsPanel s) = search_requests s"
  "panel_content (closeResultsPanel s) = panel_content s" "content_version (closeResultsPanel s) = content_version s"
  "searchTimer (closeResultsPanel s) = searchTimer s" "\<not> panel_open (closeResultsPanel s)"
  by (simp_all add: closeResultsPanel_def Let_def panel_open_def)

lemma replace_fields [simp]:
  "searchVersion (replaceResultsContent c v s) = searchVersion s" "input_text (replaceResultsContent c v s) = input_text s"
  "activeRepository (replaceResultsContent c v s) = activeRepository s" "search_requests (replaceResultsContent c v s) = search_requests s"
  "panel_content (replaceResultsContent c v s) = Some c" "content_version (replaceResultsContent c v s) = v"
  "searchTimer (replaceResultsContent c v s) = searchTimer s"
  by (simp_all add: replaceResultsContent_def openResultsPanel_def Let_def)

lemma abort_fields [simp]:
  "searchVersion (abort_request s) = searchVersion s" "input_text (abort_request s) = input_text s"
  "activeRepository (abort_request s) = activeRepository s" "panel_content (abort_request s) = panel_content s"
  "content_version (abort_request s) = content_version s" "searchTimer (abort_request s) = searchTimer s"
  "search_requests (abort_request s) = map (\<lambda>r. r\<lparr>rq_aborted := True\<rparr>) (search_requests s)"
  "panel_open (abort_request s) = panel_open s"
  by (simp_all add: abort_request_def panel_open_def)

lemma search_close_inv: "search_inv s \<Longrightarrow> search_inv (closeResultsPanel s)"
  by (simp add: search_inv_def content_ok_def request_ok_frame [of "closeResultsPanel s" s])

text \<open>A new version: everything sent or shown before belongs to an earlier one.\<close>

lemma newer_inv:
  assumes "search_inv s" and "searchVersion s' = Suc (searchVersion s)" and "\<not> panel_open s'"
    and "content_version s' = content_version s"
    and "\<forall>r \<in> set (search_requests s'). \<exists>q \<in> set (search_requests s). rq_version r = rq_version q"
    and "searchTimer s' = searchTimer s \<or> searchTimer s' = None"
  shows "search_inv s'"
proof -
  have "request_ok s' r" if "r \<in> set (search_requests s')" for r
  proof -
    obtain q where "q \<in> set (search_requests s)" "rq_version r = rq_version q" using assms(5) \<open>r \<in> _\<close> by blast
    then have "rq_version r \<le> searchVersion s" using assms(1) by (auto simp: search_inv_def request_ok_def)
    then show ?thesis using assms(2) by (simp add: request_ok_def)
  qed
  moreover have "content_ok s'" using assms by (auto simp: content_ok_def search_inv_def)
  moreover have "version \<le> searchVersion s" if "searchTimer s' = Some (query, version)" for query version
  proof -
    have "searchTimer s = Some (query, version)" using assms(6) that by simp
    then show ?thesis using assms(1) by (simp add: search_inv_def)
  qed
  ultimately show ?thesis using assms(1,2,4) by (fastforce simp: search_inv_def)
qed

lemma aborted_versions:
  "\<forall>r \<in> set (search_requests (abort_request s)). \<exists>q \<in> set (search_requests s). rq_version r = rq_version q"
  by auto

lemma clear_inv: "search_inv s \<Longrightarrow> searchVersion s0 = searchVersion s \<Longrightarrow> content_version s0 = content_version s \<Longrightarrow>
    search_requests s0 = search_requests s \<Longrightarrow> searchTimer s0 = searchTimer s \<Longrightarrow> search_inv (clearRepositorySearch s0)"
  by (rule newer_inv [of s]) (auto simp: clearRepositorySearch_def)

lemma input_inv:
  assumes inv: "search_inv s"
  shows "search_inv (handleSearchInput typed s)"
proof (cases "js_trim typed = []")
  case True
  then show ?thesis by (intro newer_inv [OF inv]) (auto simp: handleSearchInput_def Let_def)
next
  case False
  define t where "t = handleSearchInput typed s"
  have t: "searchVersion t = Suc (searchVersion s)" "input_text t = typed" "panel_content t = Some Searching"
    "content_version t = Suc (searchVersion s)" "search_requests t = search_requests s"
    "searchTimer t = Some (js_trim typed, Suc (searchVersion s))"
    using False by (simp_all add: t_def handleSearchInput_def Let_def)
  have "request_ok t r" if "r \<in> set (search_requests s)" for r
    using inv that request_ok_later [OF t(1)] by (simp add: search_inv_def)
  then show ?thesis using False t by (simp add: search_inv_def content_ok_def t_def [symmetric])
qed

lemma answered_inv:
  assumes inv: "search_inv s" and r: "request_ok s r"
  shows "search_inv (search_answered r a s)"
proof -
  have "search_inv (replaceResultsContent c (rq_version r) s)"
    if "rq_version r = searchVersion s" "c = SearchFailed \<or> (\<exists>rows. c = Found (rq_repository r) (rq_query r) rows)" for c
    using inv r that request_ok_frame [of "replaceResultsContent c (rq_version r) s" s]
    by (auto simp: search_inv_def content_ok_def request_ok_def)
  then show ?thesis using inv by (auto simp: search_answered_def split: search_result.splits)
qed

lemma search_step_inv:
  assumes inv: "search_inv s" and e: "search_step e s = Some t"
  shows "search_inv t"
proof (cases e)
  case (Typed typed)
  then show ?thesis using e input_inv [OF inv] by auto
next
  case ClearClicked
  then show ?thesis using e clear_inv [OF inv] by auto
next
  case ClosedOutside
  then show ?thesis using e search_close_inv [OF inv] by auto
next
  case (Configured repository format)
  then have t: "t = updateRepositorySearch repository format s" using e by simp
  define s1 where "s1 = s\<lparr>activeRepository := repository, activeFormat := or_else format ''maven''\<rparr>"
  show ?thesis
  proof (cases "repository \<noteq> activeRepository s \<or> format \<noteq> activeFormat s \<or> repository = []")
    case True
    then have "t = clearRepositorySearch s1" by (auto simp: t updateRepositorySearch_def s1_def Let_def)
    then show ?thesis using clear_inv [OF inv, of s1] by (simp add: s1_def)
  next
    case False
    then have "t = s1" by (auto simp: t updateRepositorySearch_def s1_def Let_def)
    then have "request_ok s1 r = request_ok s r" "content_ok s1 = content_ok s" for r
      using False by (simp_all add: s1_def content_ok_def request_ok_def panel_open_def)
    then show ?thesis using inv \<open>t = s1\<close> by (simp add: search_inv_def) (simp add: s1_def)
  qed
next
  case TimerFired
  then obtain query version where q: "searchTimer s = Some (query, version)"
      "t = fetchRepositorySearch query version (s\<lparr>searchTimer := None\<rparr>)"
    using e by (auto split: option.splits)
  have "content_ok t = content_ok s" "searchVersion t = searchVersion s" "content_version t = content_version s" "searchTimer t = None"
    "input_text t = input_text s" "activeRepository t = activeRepository s"
    by (auto simp: q(2) fetchRepositorySearch_def content_ok_def Let_def panel_open_def abort_request_def)
  moreover have "request_ok t r" if "r \<in> set (search_requests t)" for r
    using inv q that calculation by (auto simp: fetchRepositorySearch_def Let_def search_inv_def request_ok_def split: if_splits)
  ultimately show ?thesis using inv by (simp add: search_inv_def)
next
  case (Answered i a)
  define r where "r = search_requests s ! i"
  define s1 where "s1 = s\<lparr>search_requests := (search_requests s)[i := r\<lparr>rq_open := False\<rparr>]\<rparr>"
  have i: "i < length (search_requests s)" and t: "t = search_answered r a s1"
    using Answered e by (auto simp: r_def s1_def Let_def split: if_splits)
  have frame: "request_ok s1 x = request_ok s x" "content_ok s1 = content_ok s" for x
    by (simp_all add: s1_def request_ok_def content_ok_def panel_open_def)
  have r: "request_ok s r" using inv i by (simp add: r_def search_inv_def)
  have "request_ok s x" if "x \<in> set ((search_requests s)[i := r\<lparr>rq_open := False\<rparr>])" for x
    using that r inv by (auto simp: search_inv_def dest!: set_update_subset_insert [THEN subsetD])
  then have "search_inv s1" using inv frame by (simp add: search_inv_def) (simp add: s1_def)
  then show ?thesis using answered_inv [of s1 r a] r frame t by simp
next
  case (RowClicked i)
  then have t: "t = handleResultClick (rows_shown s ! i) s" using e by (auto split: if_splits)
  have "request_ok (x\<lparr>opened := p\<rparr>) r = request_ok x r" "content_ok (x\<lparr>opened := p\<rparr>) = content_ok x" for x r p
    by (simp_all add: request_ok_def content_ok_def panel_open_def)
  then show ?thesis using search_close_inv [OF inv] by (simp add: t handleResultClick_def search_inv_def)
next
  case CloseEnded
  then show ?thesis using e inv
    by (auto simp: search_inv_def content_ok_def request_ok_def panel_open_def split: if_splits)
next
  case Frame
  then show ?thesis using e inv
    by (auto simp: search_inv_def content_ok_def request_ok_def panel_open_def split: if_splits)
qed

lemma search_start_inv: "search_inv search_start"
  by (simp add: search_inv_def search_start_def content_ok_def panel_open_def)

interpretation search_machine: machine search_step search_inv
  by standard (rule search_step_inv)

lemma result_path_parts:
  assumes "repository \<noteq> []" and "utf8_wf repository" and "utf8_wf path"
  shows "map decodeURIComponent (filter (\<lambda>p. p \<noteq> []) (split_on (CHR ''/'') (resultPath repository path))) =
    Some repository # map Some (filter (\<lambda>p. p \<noteq> []) (split_on (CHR ''/'') path))"
proof -
  define parts where "parts = filter (\<lambda>p. p \<noteq> []) (split_on (CHR ''/'') path)"
  have wf: "utf8_wf p" "p \<noteq> []" if "p \<in> set parts" for p
    using that utf8_wf_split_on [OF assms(3), of "CHR ''/''"] by (auto simp: parts_def)
  have "split_on (CHR ''/'') (resultPath repository path) = [] # encodeURIComponent repository # split_on (CHR ''/'') (join ''/'' (map encodeURIComponent parts))"
    using split_on_append [OF encoded_no_slash] by (simp add: resultPath_def parts_def)
  moreover have "filter (\<lambda>p. p \<noteq> []) (split_on (CHR ''/'') (join ''/'' (map encodeURIComponent parts))) = map encodeURIComponent parts"
  proof (cases "parts = []")
    case False
    then have "split_on (CHR ''/'') (join ''/'' (map encodeURIComponent parts)) = map encodeURIComponent parts"
      by (intro split_join) (auto simp: encoded_no_slash)
    then show ?thesis using wf by (auto simp: filter_id_conv encoded_nonempty)
  qed simp
  moreover have "map decodeURIComponent (map encodeURIComponent parts) = map Some parts"
    using wf by (induction parts) (auto simp: decode_encode_component)
  ultimately show ?thesis
    using assms by (simp add: encoded_nonempty decode_encode_component parts_def [symmetric])
qed

text \<open>
  C31: Whatever the order of keys, answers, timers, clicks and navigations, the open panel shows the state of the search for the
  text in the field: rows that were found for that text in the active repository. A click on one of them opens a path whose
  segments are the repository and the segments of the row's path.
\<close>

theorem search_results_current:
  assumes "run search_step es search_start = Some s" and "panel_open s"
  shows "js_trim (input_text s) \<noteq> [] \<and>
    (\<exists>c. panel_content s = Some c \<and>
      (\<forall>repository query rows. c = Found repository query rows \<longrightarrow> repository = activeRepository s \<and> query = js_trim (input_text s) \<and>
        (\<forall>row \<in> set rows. utf8_wf repository \<and> utf8_wf (row_path row) \<and> repository \<noteq> [] \<longrightarrow>
          (\<forall>path. opened (handleResultClick row s) = path # opened s \<longrightarrow>
            map decodeURIComponent (filter (\<lambda>p. p \<noteq> []) (split_on (CHR ''/'') path)) =
              Some repository # map Some (filter (\<lambda>p. p \<noteq> []) (split_on (CHR ''/'') (row_path row)))))))"
proof -
  have "search_inv s" by (rule search_machine.inv_run [OF assms(1) search_start_inv])
  then have c: "content_ok s" by (simp add: search_inv_def)
  then obtain c where p: "panel_content s = Some c" "content_version s = searchVersion s" "js_trim (input_text s) \<noteq> []"
    using assms(2) by (auto simp: content_ok_def)
  have "opened (handleResultClick row s) = path # opened s \<longleftrightarrow> path = resultPath (activeRepository s) (row_path row)" for row path
    by (auto simp: handleResultClick_def closeResultsPanel_def Let_def)
  then show ?thesis using c p result_path_parts by (auto simp: content_ok_def)
qed

definition search_run :: "search_event list" where
  "search_run =
     [Configured ''libs'' ''maven'', Typed ''gua'', TimerFired, Frame, Typed ''guava '', TimerFired,
      Answered 1 (Rows [\<lparr>row_path = ''com/google/guava'', row_type = ''DIRECTORY''\<rparr>]), Answered 0 (Rows [])]"

theorem search_results_current_witness:
  "(let s = the (run search_step search_run search_start) in
    panel_open s \<and> js_trim (input_text s) = ''guava'' \<and>
    panel_content s = Some (Found ''libs'' ''guava'' [\<lparr>row_path = ''com/google/guava'', row_type = ''DIRECTORY''\<rparr>]) \<and>
    opened (handleResultClick \<lparr>row_path = ''com/google/guava'', row_type = ''DIRECTORY''\<rparr> s) = [''/libs/com/google/guava''])"
proof -
  define s where "s = the (run search_step search_run search_start)"
  have some: "run search_step search_run search_start \<noteq> None" by code_simp
  have facts: "panel_open s" "panel_content s = Some (Found ''libs'' ''guava'' [\<lparr>row_path = ''com/google/guava'', row_type = ''DIRECTORY''\<rparr>])"
    "opened (handleResultClick \<lparr>row_path = ''com/google/guava'', row_type = ''DIRECTORY''\<rparr> s) = [''/libs/com/google/guava'']"
    unfolding s_def by code_simp+
  then have "js_trim (input_text s) = ''guava''"
    using search_results_current [of search_run s] some unfolding s_def by auto
  then show ?thesis using facts unfolding s_def [symmetric] by (simp add: Let_def)
qed

text \<open>Closing the panel does not end the search: the answer of a request under way opens it again.\<close>

theorem escape_does_not_end_search:
  "(let s = the (run search_step
        [Configured ''libs'' ''maven'', Typed ''gua'', TimerFired, Frame, ClosedOutside, CloseEnded, Answered 0 (Rows [])] search_start)
    in panel_open s)"
  by code_simp

text \<open>
  Clearing the field leaves the timer: when the repository changes right after a key, the request for the text is sent to the
  new repository, although its answer will be dropped.
\<close>

theorem stale_search_is_sent:
  "(let s = the (run search_step [Configured ''libs'' ''maven'', Typed ''gua'', Configured ''pkgs'' ''npm'', TimerFired] search_start)
    in map (\<lambda>r. (rq_repository r, rq_query r)) (search_requests s) = [(''pkgs'', ''gua'')])"
  by code_simp

section \<open>Suggestions of user names\<close>

text \<open>
  \<open>suggest_input\<close> is the text of the field the controller is attached to. A request remembers its query and version.
  For the statements \<open>attachment\<close> counts the attachments, and a request carries from the key that caused it the attachment
  it was asked in; \<open>suggested_in\<close> and \<open>suggested_for\<close> are the attachment and the query of the request whose answer is shown.
\<close>

record suggester =
  maxResults :: nat
  suggest_input :: "string option"
  suggestions :: "string list"
  activeIndex :: int
  suggest_timer :: "(string \<times> nat \<times> nat) option"
  requestVersion :: nat
  lookups :: "(string \<times> nat \<times> nat) list"
  suggest_hidden :: bool
  suggest_leaving :: bool
  suggest_closing :: bool
  attachment :: nat
  suggested_in :: nat
  suggested_for :: string

definition suggest_start :: "nat \<Rightarrow> suggester" where
  "suggest_start n = \<lparr>maxResults = n, suggest_input = None, suggestions = [], activeIndex = -1, suggest_timer = None,
     requestVersion = 0, lookups = [], suggest_hidden = True, suggest_leaving = False, suggest_closing = False,
     attachment = 0, suggested_in = 0, suggested_for = []\<rparr>"

definition suggest_close :: "bool \<Rightarrow> suggester \<Rightarrow> suggester" where
  "suggest_close immediate s =
     (let s1 = s\<lparr>suggestions := [], activeIndex := -1, suggest_closing := False\<rparr> in
      if immediate \<or> suggest_hidden s then s1\<lparr>suggest_hidden := True, suggest_leaving := False\<rparr>
      else s1\<lparr>suggest_leaving := True, suggest_closing := True\<rparr>)"

definition suggest_render :: "string list \<Rightarrow> suggester \<Rightarrow> suggester" where
  "suggest_render users s =
     (let s1 = s\<lparr>suggestions := take (maxResults s) users, activeIndex := -1\<rparr> in
      if suggestions s1 = [] then suggest_close False s1
      else s1\<lparr>suggest_closing := False, suggest_hidden := False, suggest_leaving := False\<rparr>)"

definition detach :: "suggester \<Rightarrow> suggester" where
  "detach s =
     (suggest_close True (s\<lparr>requestVersion := Suc (requestVersion s), suggest_timer := None\<rparr>))\<lparr>suggest_input := None\<rparr>"

definition attach :: "string \<Rightarrow> suggester \<Rightarrow> suggester" where
  "attach value s = (detach s)\<lparr>suggest_input := Some value, attachment := Suc (attachment s)\<rparr>"

definition handleInput :: "string \<Rightarrow> suggester \<Rightarrow> suggester" where
  "handleInput typed s =
     (let version = Suc (requestVersion s); query = js_trim typed;
          s1 = s\<lparr>suggest_input := Some typed, suggest_timer := None, requestVersion := version\<rparr> in
      if query = [] then suggest_close True (suggest_render [] s1)
      else s1\<lparr>suggest_timer := Some (query, version, attachment s)\<rparr>)"

text \<open>The answer of a lookup; \<open>None\<close> is a failure.\<close>

definition loaded :: "string \<times> nat \<times> nat \<Rightarrow> string list option \<Rightarrow> suggester \<Rightarrow> suggester" where
  "loaded request users s =
     (let (query, version, asked_in) = request in
      case users of
        Some us \<Rightarrow> if version \<noteq> requestVersion s \<or> js_trim (case suggest_input s of Some v \<Rightarrow> v | None \<Rightarrow> []) \<noteq> query then s
                   else (suggest_render us s)\<lparr>suggested_in := asked_in, suggested_for := query\<rparr>
      | None \<Rightarrow> if version = requestVersion s then suggest_render [] s else s)"

definition suggest_apply :: "string \<Rightarrow> suggester \<Rightarrow> suggester" where
  "suggest_apply username s =
     suggest_close False (s\<lparr>suggest_input := (if suggest_input s = None then None else Some username)\<rparr>)"

datatype key = Escape | ArrowDown | ArrowUp | Enter

definition handleKeydown :: "key \<Rightarrow> suggester \<Rightarrow> suggester" where
  "handleKeydown k s =
     (let n = int (length (suggestions s)) in
      if k = Escape then suggest_close False s
      else if suggestions s = [] then s
      else case k of
        ArrowDown \<Rightarrow> s\<lparr>activeIndex := (activeIndex s + 1) mod n\<rparr>
      | ArrowUp \<Rightarrow> s\<lparr>activeIndex := (activeIndex s - 1 + n) mod n\<rparr>
      | _ \<Rightarrow> if activeIndex s \<ge> 0 then suggest_apply (suggestions s ! nat (activeIndex s)) s else s)"

datatype suggest_event =
    Attach string | Detach | Keys string | Pressed key | Picked nat | Outside | TimerOver | Loaded nat "string list option" | CloseOver
  | Cleared

definition drop_at :: "nat \<Rightarrow> 'a list \<Rightarrow> 'a list" where
  "drop_at i xs = take i xs @ drop (Suc i) xs"

fun suggest_step :: "suggest_event \<Rightarrow> suggester \<Rightarrow> suggester option" where
  "suggest_step (Attach value) s = Some (attach value s)"
| "suggest_step Detach s = Some (detach s)"
| "suggest_step (Keys typed) s = (if suggest_input s = None then None else Some (handleInput typed s))"
| "suggest_step (Pressed k) s = (if suggest_input s = None then None else Some (handleKeydown k s))"
| "suggest_step (Picked i) s =
     (if i < length (suggestions s) \<and> \<not> suggest_hidden s then Some (suggest_apply (suggestions s ! i) s) else None)"
| "suggest_step Outside s = (if suggest_input s = None then None else Some (suggest_close False s))"
| "suggest_step TimerOver s =
     (case suggest_timer s of Some l \<Rightarrow> Some (s\<lparr>suggest_timer := None, lookups := lookups s @ [l]\<rparr>) | None \<Rightarrow> None)"
| "suggest_step (Loaded i users) s =
     (if i < length (lookups s)
      then Some (loaded (lookups s ! i) users (s\<lparr>lookups := drop_at i (lookups s)\<rparr>)) else None)"
| "suggest_step CloseOver s =
     (if suggest_closing s then Some (s\<lparr>suggest_hidden := True, suggest_leaving := False, suggest_closing := False\<rparr>) else None)"
| "suggest_step Cleared s =
     Some (suggest_close False (s\<lparr>suggest_input := (if suggest_input s = None then None else Some [])\<rparr>))"

text \<open>The text a lookup would be made for, and the requests that are not overtaken.\<close>

definition field_query :: "suggester \<Rightarrow> string" where
  "field_query s = js_trim (case suggest_input s of Some v \<Rightarrow> v | None \<Rightarrow> [])"

definition awaited :: "suggester \<Rightarrow> (string \<times> nat \<times> nat) set" where
  "awaited s = {l \<in> set_option (suggest_timer s) \<union> set (lookups s). fst (snd l) = requestVersion s}"

definition view_ok :: "suggester \<Rightarrow> bool" where
  "view_ok s \<longleftrightarrow>
     length (suggestions s) \<le> maxResults s \<and> -1 \<le> activeIndex s \<and> activeIndex s < int (length (suggestions s)) \<and>
     (suggestions s \<noteq> [] \<longleftrightarrow> \<not> suggest_hidden s \<and> \<not> suggest_leaving s) \<and> (suggest_leaving s \<longleftrightarrow> suggest_closing s) \<and>
     (suggest_hidden s \<longrightarrow> \<not> suggest_leaving s)"

definition requests_ok :: "suggester \<Rightarrow> bool" where
  "requests_ok s \<longleftrightarrow>
     (\<forall>(q, v, a) \<in> set (lookups s). v \<le> requestVersion s) \<and>
     (\<forall>(q, v, a) \<in> set_option (suggest_timer s). v = requestVersion s) \<and>
     (\<forall>(q, v, a) \<in> awaited s. a = attachment s \<and> suggest_input s \<noteq> None) \<and>
     (\<forall>l \<in> awaited s. \<forall>l' \<in> awaited s. fst l' = fst l)"

definition names_ok :: "suggester \<Rightarrow> bool" where
  "names_ok s \<longleftrightarrow>
     (suggestions s \<noteq> [] \<longrightarrow> suggest_input s \<noteq> None \<and> suggested_in s = attachment s \<and>
        (\<forall>(q, v, a) \<in> awaited s. q = field_query s) \<and> (awaited s = {} \<longrightarrow> suggested_for s = field_query s))"

definition suggest_inv :: "suggester \<Rightarrow> bool" where
  "suggest_inv s \<longleftrightarrow> view_ok s \<and> requests_ok s \<and> names_ok s"

lemma awaited_cong:
  "suggest_timer s = suggest_timer t \<Longrightarrow> set (lookups s) = set (lookups t) \<Longrightarrow> requestVersion s = requestVersion t \<Longrightarrow> awaited s = awaited t"
  by (simp add: awaited_def)

lemma close_view: "view_ok s \<Longrightarrow> view_ok (suggest_close b s)"
  by (auto simp: view_ok_def suggest_close_def Let_def)

lemma close_same:
  "suggestions (suggest_close b s) = []" "suggest_timer (suggest_close b s) = suggest_timer s"
  "lookups (suggest_close b s) = lookups s" "requestVersion (suggest_close b s) = requestVersion s"
  "attachment (suggest_close b s) = attachment s" "suggest_input (suggest_close b s) = suggest_input s"
  "maxResults (suggest_close b s) = maxResults s"
  by (simp_all add: suggest_close_def Let_def)

lemma close_requests [simp]: "awaited (suggest_close b s) = awaited s" "requests_ok (suggest_close b s) = requests_ok s"
  by (simp_all add: awaited_def requests_ok_def close_same)

lemma close_suggest: "view_ok s \<Longrightarrow> requests_ok s \<Longrightarrow> suggest_inv (suggest_close b s)"
  by (simp add: suggest_inv_def close_view names_ok_def close_same)

lemma input_ok:
  "view_ok (s\<lparr>suggest_input := i\<rparr>) = view_ok s"
  "suggest_input s \<noteq> None \<longrightarrow> i \<noteq> None \<Longrightarrow> requests_ok s \<Longrightarrow> requests_ok (s\<lparr>suggest_input := i\<rparr>)"
  by (auto simp: view_ok_def requests_ok_def awaited_def)

lemma close_input_suggest:
  "suggest_inv s \<Longrightarrow> suggest_inv (suggest_close b (s\<lparr>suggest_input := (if suggest_input s = None then None else Some x)\<rparr>))"
  by (rule close_suggest) (simp_all add: suggest_inv_def input_ok)

lemma apply_suggest: "suggest_inv s \<Longrightarrow> suggest_inv (suggest_apply u s)"
  unfolding suggest_apply_def by (rule close_input_suggest)

text \<open>A new version overtakes every request.\<close>

lemma view_kept:
  "view_ok (s\<lparr>suggest_input := i, requestVersion := v, suggest_timer := t, attachment := a\<rparr>) = view_ok s"
  "view_ok (s\<lparr>lookups := ls\<rparr>) = view_ok s" "view_ok (s\<lparr>suggest_timer := t\<rparr>) = view_ok s"
  by (simp_all add: view_ok_def)

lemma bump_awaited:
  "requests_ok s \<Longrightarrow> awaited (s\<lparr>suggest_input := i, requestVersion := Suc (requestVersion s), suggest_timer := None, attachment := a\<rparr>) = {}"
  by (fastforce simp: awaited_def requests_ok_def)

lemma bump_requests:
  assumes "requests_ok s"
  shows "requests_ok (s\<lparr>suggest_input := i, requestVersion := Suc (requestVersion s), suggest_timer := None, attachment := a\<rparr>)"
  using assms bump_awaited [OF assms, of a i] by (fastforce simp: requests_ok_def)

lemma detached_suggest:
  assumes "suggest_inv s"
  shows "suggest_inv (detach s)" and "suggest_inv (attach v s)"
proof -
  define s1 where "s1 i a = s\<lparr>suggest_input := i, requestVersion := Suc (requestVersion s), suggest_timer := None, attachment := a\<rparr>" for i a
  have v: "view_ok (s1 i a)" and r: "requests_ok (s1 i a)" for i a
    using assms bump_requests [of s a i] unfolding suggest_inv_def s1_def view_kept by blast+
  have "detach s = suggest_close True (s1 None (attachment s))"
    "attach v s = suggest_close True (s1 (Some v) (Suc (attachment s)))"
    by (simp_all add: detach_def attach_def suggest_close_def s1_def Let_def)
  then show "suggest_inv (detach s)" "suggest_inv (attach v s)" using close_suggest [OF v r] by simp_all
qed

lemma key_suggest:
  assumes inv: "suggest_inv s"
  shows "suggest_inv (handleKeydown k s)"
proof -
  have v: "view_ok s" "requests_ok s" using inv by (simp_all add: suggest_inv_def)
  have "suggest_inv (s\<lparr>activeIndex := i mod int (length (suggestions s))\<rparr>)" if "suggestions s \<noteq> []" for i
  proof -
    have "0 \<le> i mod int (length (suggestions s))" using that by simp
    then have "-1 \<le> i mod int (length (suggestions s))" by linarith
    moreover have "requests_ok (s\<lparr>activeIndex := k\<rparr>) = requests_ok s" "names_ok (s\<lparr>activeIndex := k\<rparr>) = names_ok s" for k
      by (simp_all add: requests_ok_def names_ok_def awaited_def field_query_def)
    ultimately show ?thesis using inv that by (auto simp: suggest_inv_def view_ok_def)
  qed
  then show ?thesis using close_suggest [OF v] apply_suggest [OF inv] inv
    by (cases k) (auto simp: handleKeydown_def Let_def)
qed

lemma drop_at_set: "set (drop_at i xs) \<subseteq> set xs"
  by (auto simp: drop_at_def dest: in_set_takeD in_set_dropD)

lemma drop_at_keeps: "i < length xs \<Longrightarrow> x \<in> set xs \<Longrightarrow> x \<noteq> xs ! i \<Longrightarrow> x \<in> set (drop_at i xs)"
proof -
  assume "i < length xs" "x \<in> set xs" "x \<noteq> xs ! i"
  then have "x \<in> set (take i xs @ xs ! i # drop (Suc i) xs)" by (simp only: id_take_nth_drop [symmetric])
  then show ?thesis using \<open>x \<noteq> xs ! i\<close> by (simp add: drop_at_def)
qed

lemma empty_render: "suggest_render [] s = suggest_close False s"
  by (simp add: suggest_render_def suggest_close_def Let_def)

lemma render_same:
  "suggest_timer (suggest_render us s) = suggest_timer s" "lookups (suggest_render us s) = lookups s"
  "requestVersion (suggest_render us s) = requestVersion s" "attachment (suggest_render us s) = attachment s"
  "suggest_input (suggest_render us s) = suggest_input s"
  by (simp_all add: suggest_render_def close_same Let_def)

lemma requests_cong:
  assumes "suggest_timer t = suggest_timer s" and "lookups t = lookups s" and "requestVersion t = requestVersion s"
    and "attachment t = attachment s" and "suggest_input t = suggest_input s"
  shows "awaited t = awaited s" and "requests_ok t = requests_ok s" and "field_query t = field_query s"
  using assms by (simp_all add: requests_ok_def awaited_def field_query_def)

lemma loaded_branches:
  "loaded (q, v, a) users s =
     (case users of None \<Rightarrow> if v = requestVersion s then suggest_close False s else s
      | Some us \<Rightarrow> if v \<noteq> requestVersion s \<or> field_query s \<noteq> q then s else (suggest_render us s)\<lparr>suggested_in := a, suggested_for := q\<rparr>)"
  by (cases users) (simp_all add: loaded_def field_query_def empty_render)

lemma typed_suggest:
  assumes inv: "suggest_inv s" and "suggest_input s \<noteq> None"
  shows "suggest_inv (handleInput typed s)"
proof -
  define s1 where "s1 = s\<lparr>suggest_input := Some typed, requestVersion := Suc (requestVersion s), suggest_timer := None, attachment := attachment s\<rparr>"
  have r: "requests_ok s1" and v: "view_ok s1" and a: "awaited s1 = {}"
    using inv bump_requests [of s "attachment s" "Some typed"] bump_awaited [of s "attachment s" "Some typed"]
    unfolding suggest_inv_def s1_def view_kept by blast+
  have eq: "s\<lparr>suggest_input := Some typed, suggest_timer := None, requestVersion := Suc (requestVersion s)\<rparr> = s1"
    by (simp add: s1_def)
  let ?t = "s1\<lparr>suggest_timer := Some (js_trim typed, Suc (requestVersion s), attachment s)\<rparr>"
  have aw: "awaited ?t = {(js_trim typed, Suc (requestVersion s), attachment s)}"
    using a by (auto simp: awaited_def s1_def) blast+
  have "requests_ok ?t" using r aw by (simp add: requests_ok_def) (simp add: s1_def)
  moreover have "names_ok ?t"
  proof -
    have "suggested_in ?t = suggested_in s" "attachment ?t = attachment s" "suggestions ?t = suggestions s" "field_query ?t = js_trim typed"
      "suggest_input ?t = Some typed" by (simp_all add: s1_def field_query_def)
    then show ?thesis using inv unfolding suggest_inv_def names_ok_def aw by auto
  qed
  moreover have "view_ok ?t" using v by (simp only: view_kept)
  moreover have "suggest_inv (suggest_close True (suggest_render [] s1))"
    unfolding empty_render by (rule close_suggest) (simp_all add: close_view v r)
  ultimately show ?thesis by (simp add: handleInput_def Let_def eq suggest_inv_def)
qed

lemma loaded_suggest:
  assumes inv: "suggest_inv s" and i: "i < length (lookups s)"
  shows "suggest_inv (loaded (lookups s ! i) users (s\<lparr>lookups := drop_at i (lookups s)\<rparr>))"
proof -
  define s1 where "s1 = s\<lparr>lookups := drop_at i (lookups s)\<rparr>"
  obtain q v a where l: "lookups s ! i = (q, v, a)" by (metis prod_cases3)
  have m: "(q, v, a) \<in> set (lookups s)" using nth_mem [OF i] l by simp
  have sub: "awaited s1 \<subseteq> awaited s" using drop_at_set [of i "lookups s"] by (auto simp: awaited_def s1_def)
  have r: "requests_ok s1"
  proof -
    have "set (lookups s1) \<subseteq> set (lookups s)" "suggest_timer s1 = suggest_timer s" "requestVersion s1 = requestVersion s"
      "attachment s1 = attachment s" "suggest_input s1 = suggest_input s"
      using drop_at_set [of i "lookups s"] by (simp_all add: s1_def)
    moreover have "requests_ok s" using inv by (simp add: suggest_inv_def)
    ultimately show ?thesis using sub unfolding requests_ok_def by (simp only:) blast
  qed
  have vw: "view_ok s1" using inv by (simp only: suggest_inv_def view_kept s1_def)
  have rv: "requestVersion s1 = requestVersion s" by (simp add: s1_def)
  show ?thesis
  proof (cases "v = requestVersion s")
    case False
    then have "(q, v, a) \<notin> awaited s" by (simp add: awaited_def)
    then have "awaited s1 = awaited s"
      using sub drop_at_keeps [OF i] l by (auto simp: awaited_def s1_def)
    then have "names_ok s1" using inv by (simp add: suggest_inv_def names_ok_def field_query_def) (simp add: s1_def)
    then show ?thesis using False r vw
      unfolding l s1_def [symmetric] loaded_branches by (simp add: suggest_inv_def rv split: option.split)
  next
    case True
    then have w: "(q, v, a) \<in> awaited s" using m by (simp add: awaited_def)
    then have a: "a = attachment s" "suggest_input s \<noteq> None" and q: "\<forall>l \<in> awaited s. fst l = q"
      and n: "suggestions s \<noteq> [] \<longrightarrow> q = field_query s"
      using inv unfolding suggest_inv_def requests_ok_def names_ok_def by fastforce+
    show ?thesis
    proof (cases users)
      case None
      then show ?thesis using close_suggest [OF vw r] True unfolding l s1_def [symmetric] loaded_branches by (simp add: rv)
    next
      case (Some us)
      show ?thesis
      proof (cases "field_query s1 = q")
        case same: True
        define t where "t = (suggest_render us s1)\<lparr>suggested_in := a, suggested_for := q\<rparr>"
        have k: "awaited t = awaited s1" "requests_ok t = requests_ok s1" "field_query t = field_query s1"
          by (rule requests_cong; simp add: t_def render_same)+
        have "view_ok t" using vw by (auto simp: t_def view_ok_def suggest_render_def suggest_close_def Let_def)
        moreover have "names_ok t"
        proof -
          have "suggested_in t = attachment t" "suggest_input t \<noteq> None" "suggested_for t = field_query t"
            using a same k(3) by (simp_all add: t_def render_same) (simp_all add: s1_def)
          moreover have "fst x = field_query t" if "x \<in> awaited t" for x using that q sub same k(1,3) by auto
          ultimately show ?thesis by (auto simp: names_ok_def)
        qed
        ultimately have "suggest_inv t" using r by (simp add: suggest_inv_def k)
        then show ?thesis using True same Some unfolding l s1_def [symmetric] loaded_branches by (simp add: rv t_def)
      next
        case False
        then have "names_ok s1" using n by (simp add: names_ok_def s1_def field_query_def)
        then show ?thesis
          using False r vw Some unfolding l s1_def [symmetric] loaded_branches by (simp add: suggest_inv_def)
      qed
    qed
  qed
qed

lemma suggest_step_inv:
  assumes inv: "suggest_inv s" and e: "suggest_step e s = Some t"
  shows "suggest_inv t"
proof (cases e)
  case TimerOver
  then obtain l where l: "suggest_timer s = Some l" "t = s\<lparr>suggest_timer := None, lookups := lookups s @ [l]\<rparr>"
    using e by (auto split: option.splits)
  then have k: "awaited t = awaited s" "set (lookups t) = insert l (set (lookups s))" "set_option (suggest_timer t) = {}"
    "requestVersion t = requestVersion s" "attachment t = attachment s" "suggest_input t = suggest_input s" "suggestions t = suggestions s"
    "field_query t = field_query s" "suggested_in t = suggested_in s" "suggested_for t = suggested_for s"
    by (auto simp: awaited_def field_query_def)
  have ok: "requests_ok s" "names_ok s" "view_ok s" using inv by (simp_all add: suggest_inv_def)
  have "case l of (q, v, a) \<Rightarrow> v \<le> requestVersion s" using ok(1) l(1) by (auto simp: requests_ok_def)
  then have "requests_ok t" using ok(1) unfolding requests_ok_def k by blast
  moreover have "names_ok t" using ok(2) unfolding names_ok_def k .
  moreover have "t = s\<lparr>lookups := lookups s @ [l]\<rparr>\<lparr>suggest_timer := None\<rparr>" by (simp add: l(2))
  then have "view_ok t" using ok(3) by (simp only: view_kept)
  ultimately show ?thesis by (simp add: suggest_inv_def)
next
  case CloseOver
  then have "suggest_closing s" "t = s\<lparr>suggest_hidden := True, suggest_leaving := False, suggest_closing := False\<rparr>"
    using e by (auto split: if_splits)
  then show ?thesis using inv by (simp add: suggest_inv_def view_ok_def requests_ok_def names_ok_def awaited_def)
next
  case Cleared
  then show ?thesis using e close_input_suggest [OF inv, of False "[]"] by simp
next
  case (Loaded i users)
  then show ?thesis using e loaded_suggest [OF inv, of i users] by (simp split: if_splits)
next
  case Outside
  then have "t = suggest_close False s" using e by (simp split: if_splits)
  then show ?thesis using inv close_suggest [of s] unfolding suggest_inv_def by blast
qed (use e detached_suggest [OF inv] typed_suggest [OF inv] key_suggest [OF inv] apply_suggest [OF inv] in \<open>auto split: if_splits\<close>)

lemma suggest_start_inv: "suggest_inv (suggest_start n)"
  by (simp add: suggest_inv_def view_ok_def requests_ok_def names_ok_def awaited_def suggest_start_def)

interpretation suggest_machine: machine suggest_step suggest_inv
  by standard (rule suggest_step_inv)

lemma max_results: "suggest_step e s = Some t \<Longrightarrow> maxResults t = maxResults s"
  by (cases e) (auto simp: attach_def detach_def suggest_close_def suggest_render_def suggest_apply_def handleInput_def
    handleKeydown_def loaded_def Let_def case_prod_beta split: if_splits option.splits key.splits)

interpretation bounded_suggestions: machine suggest_step "\<lambda>s. maxResults s = n" for n
  by standard (simp add: max_results)

text \<open>
  C32: In every execution at most \<open>n\<close> names are suggested, the marked one is among them, they are visible exactly as long as
  there are any, and they answer a request made for the field the controller is attached to now: after it is detached (the
  page changed) no late answer shows names, in the old field or in another. When no key waits for its lookup and no lookup
  for its answer, they were found for the text in the field.
\<close>

theorem suggestions_follow_field:
  assumes "run suggest_step es (suggest_start n) = Some s"
  shows "length (suggestions s) \<le> n \<and> -1 \<le> activeIndex s \<and> activeIndex s < int (length (suggestions s)) \<and>
    (suggestions s \<noteq> [] \<longleftrightarrow> \<not> suggest_hidden s \<and> \<not> suggest_leaving s) \<and>
    (suggestions s \<noteq> [] \<longrightarrow> suggest_input s \<noteq> None \<and> suggested_in s = attachment s) \<and>
    (suggestions s \<noteq> [] \<and> suggest_timer s = None \<and> lookups s = [] \<longrightarrow> suggest_input s \<noteq> None \<and>
       js_trim (the (suggest_input s)) = suggested_for s)"
proof -
  have "suggest_inv s" by (rule suggest_machine.inv_run [OF assms suggest_start_inv])
  moreover have "maxResults s = n" by (rule bounded_suggestions.inv_run [OF assms]) (simp add: suggest_start_def)
  ultimately show ?thesis
    by (auto simp: suggest_inv_def view_ok_def names_ok_def awaited_def field_query_def split: option.splits)
qed

definition late_answer_run :: "suggest_event list" where
  "late_answer_run = [Attach [], Keys ''al'', TimerOver, Detach, Attach ''al'', Loaded 0 (Some [''alice''])]"

theorem suggestions_follow_field_witness:
  "(let s = the (run suggest_step late_answer_run (suggest_start 8)) in
    suggestions s = [] \<and> \<not> (\<not> suggest_hidden s \<and> \<not> suggest_leaving s))"
proof -
  define s where "s = the (run suggest_step late_answer_run (suggest_start 8))"
  have "run suggest_step late_answer_run (suggest_start 8) \<noteq> None" "suggestions s = []" unfolding s_def by code_simp+
  then show ?thesis using suggestions_follow_field [of late_answer_run 8 s] unfolding s_def [symmetric] by (auto simp: s_def)
qed

text \<open>The first step upwards marks the last name but one.\<close>

theorem arrow_up_skips_last:
  "(let s = the (run suggest_step [Attach [], Keys ''a'', TimerOver, Loaded 0 (Some [''ada'', ''alan'', ''alice'']), Pressed ArrowUp] (suggest_start 8))
    in suggestions s ! nat (activeIndex s) = ''alan'')"
  by code_simp

end
