(* ===== verification/File_Types.thy ===== *)
theory File_Types
  imports Session
begin

text \<open>
  The entries of a directory listing (\<open>components/file-item.js\<close>): the type a file name stands for, found by rules on the
  name and then by its extension, and what an entry shows and offers: its link, its badge and its buttons.
\<close>

section \<open>The catalogue\<close>

text \<open>Icon, translation key and label of each type.\<close>

definition FILE_TYPE_CATALOG :: "(string \<times> string \<times> string \<times> string) list" where
  "FILE_TYPE_CATALOG =
    [(''diff'', (''fileDiff'', ''browser.fileTypeDiff'', ''Git Patch / Diff'')),
     (''docker'', (''fileDocker'', ''browser.fileTypeDocker'', ''Docker Config'')),
     (''pom'', (''filePom'', ''browser.fileTypePom'', ''Maven POM'')),
     (''javadoc'', (''fileJavadoc'', ''browser.fileTypeJavadoc'', ''Javadoc Package'')),
     (''sources'', (''fileSources'', ''browser.fileTypeSources'', ''Sources Package'')),
     (''npm'', (''fileNpm'', ''browser.fileTypeNpm'', ''NPM Package'')),
     (''cargo'', (''fileCargo'', ''browser.fileTypeCargo'', ''Cargo Manifest'')),
     (''gomod'', (''fileGomod'', ''browser.fileTypeGomod'', ''Go Module'')),
     (''gradle'', (''fileGradle'', ''browser.fileTypeGradle'', ''Gradle Build'')),
     (''env'', (''fileEnv'', ''browser.fileTypeEnv'', ''Environment Config'')),
     (''k8s'', (''fileK8s'', ''browser.fileTypeK8s'', ''Kubernetes Manifest'')),
     (''makefile'', (''fileMakefile'', ''browser.fileTypeMakefile'', ''Makefile / CMake'')),
     (''terraform'', (''fileTerraform'', ''browser.fileTypeTerraform'', ''Terraform HCL'')),
     (''notebook'', (''fileNotebook'', ''browser.fileTypeNotebook'', ''Jupyter Notebook'')),
     (''wasm'', (''fileWasm'', ''browser.fileTypeWasm'', ''WebAssembly Module'')),
     (''composer'', (''fileComposer'', ''browser.fileTypeComposer'', ''Composer Manifest'')),
     (''gemfile'', (''fileGemfile'', ''browser.fileTypeGemfile'', ''Ruby Gemfile'')),
     (''pyproject'', (''filePyproject'', ''browser.fileTypePyproject'', ''Python Project'')),
     (''gitignore'', (''fileIgnore'', ''browser.fileTypeIgnore'', ''Ignore Rules'')),
     (''lockfile'', (''fileLock'', ''browser.fileTypeLock'', ''Lock File'')),
     (''jar'', (''fileJar'', ''browser.fileTypeJar'', ''Java Archive'')),
     (''war'', (''fileWar'', ''browser.fileTypeWar'', ''Web Application Archive'')),
     (''ear'', (''fileEar'', ''browser.fileTypeEar'', ''Enterprise Archive'')),
     (''aar'', (''fileAar'', ''browser.fileTypeAar'', ''Android Library Archive'')),
     (''apk'', (''fileApk'', ''browser.fileTypeApk'', ''Android Package'')),
     (''app'', (''fileApp'', ''browser.fileTypeApp'', ''Mobile App Package'')),
     (''archive'', (''fileZip'', ''browser.fileTypeArchive'', ''Archive File'')),
     (''disk'', (''fileDisk'', ''browser.fileTypeDisk'', ''Disk Image'')),
     (''exe'', (''fileExe'', ''browser.fileTypeExe'', ''Installer Executable'')),
     (''msi'', (''fileMsi'', ''browser.fileTypeMsi'', ''Installer Package'')),
     (''pkg'', (''filePkg'', ''browser.fileTypePkg'', ''Package File'')),
     (''binary'', (''storage'', ''browser.fileTypeBinary'', ''Binary Library'')),
     (''html'', (''fileHtml'', ''browser.fileTypeHtml'', ''HTML Document'')),
     (''style'', (''fileCss'', ''browser.fileTypeCss'', ''Style Sheet'')),
     (''react'', (''fileReact'', ''browser.fileTypeReact'', ''React Component'')),
     (''vue'', (''fileVue'', ''browser.fileTypeVue'', ''Vue Component'')),
     (''svelte'', (''fileSvelte'', ''browser.fileTypeSvelte'', ''Svelte Component'')),
     (''astro'', (''fileAstro'', ''browser.fileTypeAstro'', ''Astro Component'')),
     (''xml'', (''fileXml'', ''browser.fileTypeXml'', ''XML Document'')),
     (''script'', (''fileShell'', ''browser.fileTypeShell'', ''Shell Script'')),
     (''batch'', (''fileBatch'', ''browser.fileTypeBatch'', ''Batch Script'')),
     (''powershell'', (''filePowerShell'', ''browser.fileTypePowerShell'', ''PowerShell Script'')),
     (''registry'', (''fileRegistry'', ''browser.fileTypeReg'', ''Windows Registry File'')),
     (''rust'', (''fileRust'', ''browser.fileTypeRust'', ''Rust Source'')),
     (''python'', (''filePython'', ''browser.fileTypePython'', ''Python Script'')),
     (''golang'', (''fileGo'', ''browser.fileTypeGo'', ''Go Source'')),
     (''java'', (''fileJava'', ''browser.fileTypeJava'', ''Java Source'')),
     (''kotlin'', (''fileKotlin'', ''browser.fileTypeKotlin'', ''Kotlin Source'')),
     (''clang'', (''fileC'', ''browser.fileTypeC'', ''C Source'')),
     (''cpp'', (''fileCpp'', ''browser.fileTypeCpp'', ''C++ Source'')),
     (''cheader'', (''fileC'', ''browser.fileTypeHeader'', ''Header File'')),
     (''csharp'', (''fileCsharp'', ''browser.fileTypeCs'', ''C# Source'')),
     (''php'', (''filePhp'', ''browser.fileTypePhp'', ''PHP Script'')),
     (''ruby'', (''fileRuby'', ''browser.fileTypeRuby'', ''Ruby Script'')),
     (''swift'', (''fileSwift'', ''browser.fileTypeSwift'', ''Swift Source'')),
     (''sql'', (''fileSql'', ''browser.fileTypeSql'', ''SQL Script'')),
     (''javascript'', (''fileJs'', ''browser.fileTypeJs'', ''JavaScript Code'')),
     (''typescript'', (''fileTs'', ''browser.fileTypeTs'', ''TypeScript Code'')),
     (''scala'', (''fileScala'', ''browser.fileTypeScala'', ''Scala Source'')),
     (''dart'', (''fileDart'', ''browser.fileTypeDart'', ''Dart Source'')),
     (''lua'', (''fileLua'', ''browser.fileTypeLua'', ''Lua Script'')),
     (''zig'', (''fileZig'', ''browser.fileTypeZig'', ''Zig Source'')),
     (''rlang'', (''fileR'', ''browser.fileTypeR'', ''R Script'')),
     (''julia'', (''fileJulia'', ''browser.fileTypeJulia'', ''Julia Source'')),
     (''haskell'', (''fileHaskell'', ''browser.fileTypeHaskell'', ''Haskell Source'')),
     (''clojure'', (''fileClojure'', ''browser.fileTypeClojure'', ''Clojure Source'')),
     (''elixir'', (''fileElixir'', ''browser.fileTypeElixir'', ''Elixir Source'')),
     (''erlang'', (''fileErlang'', ''browser.fileTypeErlang'', ''Erlang Source'')),
     (''perl'', (''filePerl'', ''browser.fileTypePerl'', ''Perl Script'')),
     (''asm'', (''fileAsm'', ''browser.fileTypeAsm'', ''Assembly Source'')),
     (''solidity'', (''fileSolidity'', ''browser.fileTypeSolidity'', ''Solidity Contract'')),
     (''nim'', (''fileNim'', ''browser.fileTypeNim'', ''Nim Source'')),
     (''objc'', (''fileObjc'', ''browser.fileTypeObjc'', ''Objective-C Source'')),
     (''fsharp'', (''fileFsharp'', ''browser.fileTypeFsharp'', ''F# Source'')),
     (''ocaml'', (''fileOcaml'', ''browser.fileTypeOcaml'', ''OCaml Source'')),
     (''groovy'', (''fileGroovy'', ''browser.fileTypeGroovy'', ''Groovy Source'')),
     (''crystal'', (''fileCrystal'', ''browser.fileTypeCrystal'', ''Crystal Source'')),
     (''vlang'', (''fileVlang'', ''browser.fileTypeVlang'', ''V Source'')),
     (''yaml'', (''fileYaml'', ''browser.fileTypeYaml'', ''YAML Config'')),
     (''json'', (''fileJson'', ''browser.fileTypeJson'', ''JSON Data'')),
     (''geojson'', (''fileGeojson'', ''browser.fileTypeGeojson'', ''GeoJSON Map'')),
     (''proto'', (''fileProto'', ''browser.fileTypeProto'', ''Protobuf Schema'')),
     (''graphql'', (''fileGraphql'', ''browser.fileTypeGraphql'', ''GraphQL Schema'')),
     (''config'', (''fileSettings'', ''browser.fileTypeConfig'', ''Configuration'')),
     (''toml'', (''fileToml'', ''browser.fileTypeToml'', ''TOML Config'')),
     (''image'', (''fileImage'', ''browser.fileTypeImage'', ''Image File'')),
     (''svg'', (''fileSvg'', ''browser.fileTypeSvg'', ''Vector Graphic (SVG)'')),
     (''design'', (''fileDesign'', ''browser.fileTypeDesign'', ''Design File'')),
     (''audio'', (''fileAudio'', ''browser.fileTypeAudio'', ''Audio File'')),
     (''video'', (''fileVideo'', ''browser.fileTypeVideo'', ''Video File'')),
     (''model'', (''fileModel'', ''browser.fileTypeModel'', ''3D Model'')),
     (''pdf'', (''filePdf'', ''browser.fileTypePdf'', ''PDF Document'')),
     (''markdown'', (''fileMarkdown'', ''browser.fileTypeMarkdown'', ''Markdown Document'')),
     (''word'', (''fileWord'', ''browser.fileTypeWord'', ''Word Document'')),
     (''txt'', (''fileTxt'', ''browser.fileTypeTxt'', ''Text Document'')),
     (''log'', (''fileLog'', ''browser.fileTypeLog'', ''Log File'')),
     (''presentation'', (''filePresentation'', ''browser.fileTypePresentation'', ''Presentation'')),
     (''ebook'', (''fileBook'', ''browser.fileTypeEbook'', ''E-Book Publication'')),
     (''spreadsheet'', (''fileSpreadsheet'', ''browser.fileTypeSpreadsheet'', ''Spreadsheet'')),
     (''csv'', (''fileCsv'', ''browser.fileTypeCsv'', ''CSV Dataset'')),
     (''database'', (''database'', ''browser.fileTypeDatabase'', ''Database File'')),
     (''checksum'', (''fileHash'', ''browser.fileTypeChecksum'', ''Checksum Hash'')),
     (''security'', (''fileKey'', ''browser.fileTypeSecurity'', ''Certificate & Key'')),
     (''font'', (''fileFont'', ''browser.fileTypeFont'', ''Font File'')),
     (''code'', (''fileCode'', ''browser.fileTypeCode'', ''Source Code'')),
     (''coffee'', (''fileCoffee'', ''browser.fileTypeCoffee'', ''CoffeeScript'')),
     (''elm'', (''fileElm'', ''browser.fileTypeElm'', ''Elm Source'')),
     (''fortran'', (''fileFortran'', ''browser.fileTypeFortran'', ''Fortran Source'')),
     (''matlab'', (''fileMatlab'', ''browser.fileTypeMatlab'', ''MATLAB / Octave'')),
     (''lisp'', (''fileLisp'', ''browser.fileTypeLisp'', ''Lisp / Scheme'')),
     (''vb'', (''fileVb'', ''browser.fileTypeVb'', ''Visual Basic'')),
     (''haxe'', (''fileHaxe'', ''browser.fileTypeHaxe'', ''Haxe Source'')),
     (''dlang'', (''fileDlang'', ''browser.fileTypeDlang'', ''D Source'')),
     (''pascal'', (''filePascal'', ''browser.fileTypePascal'', ''Pascal / Delphi'')),
     (''gleam'', (''fileGleam'', ''browser.fileTypeGleam'', ''Gleam Source'')),
     (''odin'', (''fileOdin'', ''browser.fileTypeOdin'', ''Odin Source'')),
     (''rescript'', (''fileRescript'', ''browser.fileTypeRescript'', ''ReScript Source'')),
     (''prolog'', (''fileProlog'', ''browser.fileTypeProlog'', ''Prolog Source'')),
     (''scss'', (''fileScss'', ''browser.fileTypeScss'', ''SCSS Stylesheet'')),
     (''less'', (''fileLess'', ''browser.fileTypeLess'', ''Less Stylesheet'')),
     (''nupkg'', (''fileNupkg'', ''browser.fileTypeNupkg'', ''NuGet Package'')),
     (''whl'', (''fileWhl'', ''browser.fileTypeWhl'', ''Python Wheel'')),
     (''gem'', (''fileGem'', ''browser.fileTypeGem'', ''Ruby Gem'')),
     (''vsix'', (''fileVsix'', ''browser.fileTypeVsix'', ''VS Code Extension'')),
     (''crx'', (''fileCrx'', ''browser.fileTypeCrx'', ''Chrome Extension'')),
     (''phar'', (''filePhar'', ''browser.fileTypePhar'', ''PHP Archive'')),
     (''shader'', (''fileShader'', ''browser.fileTypeShader'', ''GPU Shader'')),
     (''latex'', (''fileLatex'', ''browser.fileTypeLatex'', ''LaTeX Document'')),
     (''rst'', (''fileRst'', ''browser.fileTypeRst'', ''reStructuredText'')),
     (''adoc'', (''fileAdoc'', ''browser.fileTypeAdoc'', ''AsciiDoc'')),
     (''mlmodel'', (''fileMlmodel'', ''browser.fileTypeMlmodel'', ''ML / AI Model'')),
     (''parquet'', (''fileParquet'', ''browser.fileTypeParquet'', ''Parquet Dataset'')),
     (''avro'', (''fileAvro'', ''browser.fileTypeAvro'', ''Avro Data'')),
     (''pickle'', (''filePickle'', ''browser.fileTypePickle'', ''Python Pickle'')),
     (''subtitle'', (''fileSubtitle'', ''browser.fileTypeSubtitle'', ''Subtitle File'')),
     (''plist'', (''filePlist'', ''browser.fileTypePlist'', ''Property List'')),
     (''calendar'', (''fileCalendar'', ''browser.fileTypeCalendar'', ''Calendar File'')),
     (''email'', (''fileEmail'', ''browser.fileTypeEmail'', ''Email Message'')),
     (''tsconfig'', (''fileTsconfig'', ''browser.fileTypeTsconfig'', ''TypeScript Config'')),
     (''eslint'', (''fileEslint'', ''browser.fileTypeEslint'', ''ESLint Config'')),
     (''prettier'', (''filePrettier'', ''browser.fileTypePrettier'', ''Prettier Config'')),
     (''vite'', (''fileVite'', ''browser.fileTypeVite'', ''Vite Config'')),
     (''webpack'', (''fileWebpack'', ''browser.fileTypeWebpack'', ''Webpack Config'')),
     (''nix'', (''fileNix'', ''browser.fileTypeNix'', ''Nix Expression'')),
     (''justfile'', (''fileJust'', ''browser.fileTypeJust'', ''Justfile'')),
     (''procfile'', (''fileProcfile'', ''browser.fileTypeProcfile'', ''Procfile'')),
     (''github'', (''fileGithub'', ''browser.fileTypeGithub'', ''GitHub Actions'')),
     (''generic'', (''file'', ''browser.file'', ''File''))]"

text \<open>The table of extensions; the entries are put together by type, in the order of the catalogue; no extension occurs
  twice, so the order does not matter.\<close>

definition EXTENSIONS_OF_TYPE :: "(string \<times> string list) list" where
  "EXTENSIONS_OF_TYPE =
    [(''makefile'', [''cmake'', ''make'', ''mk'']),
     (''terraform'', [''tf'', ''tfvars'', ''hcl'']),
     (''notebook'', [''ipynb'']),
     (''wasm'', [''wasm'', ''wat'']),
     (''jar'', [''jar'']),
     (''war'', [''war'']),
     (''ear'', [''ear'']),
     (''aar'', [''aar'']),
     (''apk'', [''apk'', ''aab'']),
     (''app'', [''ipa'']),
     (''archive'', [''zip'', ''tar'', ''gz'', ''tgz'', ''7z'', ''rar'', ''bz2'', ''xz'', ''zst'', ''lz4'', ''sz'', ''cab'', ''wim'']),
     (''disk'', [''iso'', ''img'', ''vmdk'', ''qcow2'', ''dmg'', ''vdi'', ''vhd'', ''vhdx'']),
     (''exe'', [''exe'', ''com'', ''scr'']),
     (''msi'', [''msi'', ''msp'', ''msu'']),
     (''pkg'', [''deb'', ''rpm'', ''pkg'', ''snap'', ''appimage'', ''flatpak'']),
     (''binary'', [''dll'', ''so'', ''dylib'', ''bin'', ''class'', ''o'', ''a'', ''pyc'', ''pyo'', ''rlib'']),
     (''html'', [''html'', ''htm'', ''xhtml'']),
     (''style'', [''css'', ''styl'', ''pcss'']),
     (''react'', [''jsx'', ''tsx'']),
     (''vue'', [''vue'']),
     (''svelte'', [''svelte'']),
     (''astro'', [''astro'']),
     (''xml'', [''xml'', ''xsl'', ''xsd'', ''xslt'', ''dtd'', ''wsdl'']),
     (''script'', [''sh'', ''bash'', ''zsh'', ''fish'', ''ksh'', ''csh'']),
     (''batch'', [''bat'', ''cmd'']),
     (''powershell'', [''ps1'', ''psm1'', ''psd1'']),
     (''registry'', [''reg'']),
     (''rust'', [''rs'']),
     (''python'', [''py'', ''pyw'', ''pyi'', ''pyx'']),
     (''golang'', [''go'']),
     (''java'', [''java'']),
     (''kotlin'', [''kt'', ''kts'']),
     (''clang'', [''c'']),
     (''cpp'', [''cpp'', ''cc'', ''cxx'', ''c++'']),
     (''cheader'', [''h'', ''hpp'', ''hh'', ''hxx'']),
     (''csharp'', [''cs'']),
     (''php'', [''php'', ''phtml'']),
     (''ruby'', [''rb'', ''erb'', ''rake'']),
     (''swift'', [''swift'']),
     (''sql'', [''sql'', ''pgsql'', ''mysql'']),
     (''javascript'', [''js'', ''mjs'', ''cjs'']),
     (''typescript'', [''ts'', ''mts'', ''cts'']),
     (''scala'', [''scala'', ''sc'']),
     (''dart'', [''dart'']),
     (''lua'', [''lua'']),
     (''zig'', [''zig'']),
     (''rlang'', [''r'', ''rmd'']),
     (''julia'', [''jl'']),
     (''haskell'', [''hs'', ''lhs'']),
     (''clojure'', [''clj'', ''cljs'', ''cljc'', ''edn'']),
     (''elixir'', [''ex'', ''exs'']),
     (''erlang'', [''erl'', ''hrl'']),
     (''perl'', [''pl'', ''pm'', ''t'']),
     (''asm'', [''asm'', ''s'', ''nasm'']),
     (''solidity'', [''sol'']),
     (''nim'', [''nim'', ''nims'']),
     (''objc'', [''m'', ''mm'']),
     (''fsharp'', [''fs'', ''fsx'', ''fsi'', ''fsscript'']),
     (''ocaml'', [''ml'', ''mli'']),
     (''groovy'', [''groovy'', ''gvy'', ''gy'', ''gsh'']),
     (''crystal'', [''cr'']),
     (''vlang'', [''v'', ''vv'']),
     (''yaml'', [''yaml'', ''yml'']),
     (''json'', [''json'', ''json5'', ''jsonc'']),
     (''geojson'', [''geojson'', ''topojson'']),
     (''proto'', [''proto'', ''protobuf'']),
     (''graphql'', [''graphql'', ''gql'']),
     (''config'', [''ini'', ''conf'', ''config'', ''properties'', ''editorconfig'', ''cfg'', ''prefs'']),
     (''toml'', [''toml'']),
     (''image'', [''png'', ''jpg'', ''jpeg'', ''gif'', ''webp'', ''bmp'', ''ico'', ''tiff'', ''tif'', ''avif'', ''heic'', ''heif'', ''raw'', ''cr2'', ''nef'']),
     (''svg'', [''svg'']),
     (''design'', [''psd'', ''ai'', ''eps'', ''sketch'', ''fig'', ''xd'']),
     (''audio'', [''mp3'', ''wav'', ''ogg'', ''flac'', ''aac'', ''m4a'', ''wma'', ''opus'', ''mid'', ''midi'', ''aiff'']),
     (''video'', [''mp4'', ''mkv'', ''avi'', ''mov'', ''webm'', ''flv'', ''wmv'', ''m4v'', ''3gp'', ''ogv'']),
     (''model'', [''gltf'', ''glb'', ''obj'', ''fbx'', ''stl'', ''dae'', ''3ds'', ''blend'', ''usdz'']),
     (''pdf'', [''pdf'']),
     (''markdown'', [''md'', ''markdown'', ''mdown'', ''mkd'', ''mdx'']),
     (''word'', [''doc'', ''docx'', ''rtf'', ''odt'', ''pages'']),
     (''txt'', [''txt'', ''text'']),
     (''log'', [''log'']),
     (''presentation'', [''ppt'', ''pptx'', ''keynote'', ''odp'']),
     (''ebook'', [''epub'', ''mobi'', ''azw'', ''azw3'', ''cbz'', ''cbr'', ''fb2'']),
     (''spreadsheet'', [''xlsx'', ''xls'', ''ods'', ''numbers'']),
     (''csv'', [''csv'', ''tsv'']),
     (''database'', [''db'', ''sqlite'', ''sqlite3'', ''mdb'', ''accdb'', ''dbf'', ''dump'', ''sqlitedb'']),
     (''checksum'', [''md5'', ''sha1'', ''sha256'', ''sha512'', ''sha3'', ''sfv'']),
     (''security'', [''key'', ''asc'', ''sig'', ''pem'', ''crt'', ''cer'', ''p12'', ''pfx'', ''keystore'', ''jks'', ''pub'', ''gpg'', ''der'', ''csr'']),
     (''font'', [''ttf'', ''otf'', ''woff'', ''woff2'', ''eot'']),
     (''coffee'', [''coffee'', ''litcoffee'']),
     (''elm'', [''elm'']),
     (''fortran'', [''f'', ''for'', ''f90'', ''f95'', ''f03'', ''f08'']),
     (''matlab'', [''mat'', ''octave'', ''mlx'']),
     (''lisp'', [''lisp'', ''cl'', ''el'', ''scm'', ''ss'', ''racket'', ''rkt'']),
     (''vb'', [''vb'', ''vbs'', ''bas'', ''vba'']),
     (''haxe'', [''hx'', ''hxml'']),
     (''dlang'', [''d'', ''di'']),
     (''pascal'', [''pas'', ''pp'', ''dpr'', ''lpr'']),
     (''gleam'', [''gleam'']),
     (''odin'', [''odin'']),
     (''rescript'', [''resi'']),
     (''prolog'', [''plg'', ''pro'']),
     (''scss'', [''scss'', ''sass'']),
     (''less'', [''less'']),
     (''nupkg'', [''nupkg'', ''snupkg'']),
     (''whl'', [''whl'']),
     (''gem'', [''gem'']),
     (''vsix'', [''vsix'']),
     (''crx'', [''crx'']),
     (''phar'', [''phar'']),
     (''shader'', [''glsl'', ''vert'', ''frag'', ''comp'', ''geom'', ''tesc'', ''tese'', ''hlsl'', ''wgsl'', ''metal'', ''spv'']),
     (''latex'', [''tex'', ''latex'', ''ltx'', ''sty'', ''cls'', ''bib'']),
     (''rst'', [''rst'', ''rest'']),
     (''adoc'', [''adoc'', ''asciidoc'', ''asciidoctor'']),
     (''mlmodel'', [''onnx'', ''pt'', ''pth'', ''safetensors'', ''gguf'', ''ggml'', ''pb'', ''h5'', ''hdf5'', ''tflite'', ''keras'', ''joblib'']),
     (''parquet'', [''parquet'']),
     (''avro'', [''avro'']),
     (''pickle'', [''pkl'', ''pickle'']),
     (''subtitle'', [''srt'', ''vtt'', ''ass'', ''ssa'', ''sub'']),
     (''plist'', [''plist'']),
     (''calendar'', [''ics'', ''ical'', ''ifb'']),
     (''email'', [''eml'', ''msg'']),
     (''nix'', [''nix''])]"

definition EXTENSION_TO_TYPE :: "(string \<times> string) list" where
  "EXTENSION_TO_TYPE = concat (map (\<lambda>(t, es). map (\<lambda>e. (e, t)) es) EXTENSIONS_OF_TYPE)"

section \<open>The rules on names\<close>

definition special_rules :: "(string \<times> (string \<Rightarrow> string \<Rightarrow> bool)) list" where
  "special_rules =
    [(''diff'', \<lambda>fn e. ends_with ''.patch'' fn \<or> ends_with ''.diff'' fn \<or> e = ''patch'' \<or> e = ''diff''),
     (''docker'', \<lambda>fn e. fn = ''dockerfile'' \<or> starts_with ''dockerfile.'' fn \<or> fn = ''containerfile'' \<or> fn = ''.dockerignore''),
     (''pom'', \<lambda>fn e. fn = ''pom.xml'' \<or> e = ''pom''),
     (''javadoc'', \<lambda>fn e. e = ''jar'' \<and> (ends_with ''-javadoc.jar'' fn \<or> contains ''-javadoc.'' fn)),
     (''sources'', \<lambda>fn e. e = ''jar'' \<and> (ends_with ''-sources.jar'' fn \<or> contains ''-sources.'' fn)),
     (''npm'', \<lambda>fn e. fn \<in> set [''package.json'', ''package-lock.json'', ''pnpm-lock.yaml'', ''yarn.lock'', ''bun.lock'', ''bun.lockb'',
        ''npm-shrinkwrap.json'']),
     (''cargo'', \<lambda>fn e. fn = ''cargo.toml'' \<or> fn = ''cargo.lock''),
     (''gomod'', \<lambda>fn e. fn = ''go.mod'' \<or> fn = ''go.sum''),
     (''gradle'', \<lambda>fn e. contains ''gradle'' fn \<or> e = ''gradle'' \<or> e = ''kts'' \<and> contains ''build'' fn),
     (''env'', \<lambda>fn e. fn = ''.env'' \<or> starts_with ''.env.'' fn),
     (''k8s'', \<lambda>fn e. contains ''k8s'' fn \<or> contains ''kubernetes'' fn \<or> contains ''helm'' fn \<or> fn = ''chart.yaml'' \<or> fn = ''chart.yml''),
     (''makefile'', \<lambda>fn e. fn \<in> set [''makefile'', ''gnumakefile'', ''cmakelists.txt''] \<or> ends_with ''.mk'' fn \<or> e = ''cmake'' \<or> e = ''make''),
     (''composer'', \<lambda>fn e. fn = ''composer.json'' \<or> fn = ''composer.lock''),
     (''gemfile'', \<lambda>fn e. fn = ''gemfile'' \<or> fn = ''gemfile.lock''),
     (''pyproject'', \<lambda>fn e. fn \<in> set [''pyproject.toml'', ''requirements.txt'', ''requirements.in'', ''poetry.lock'', ''pipfile'', ''pipfile.lock'',
        ''setup.py'', ''setup.cfg'']),
     (''gitignore'', \<lambda>fn e. fn \<in> set [''.gitignore'', ''.gitattributes'', ''.gitmodules'', ''.npmignore'', ''.eslintignore'', ''.prettierignore'',
        ''.hgignore'', ''.cvsignore'']),
     (''lockfile'', \<lambda>fn e. ends_with ''.lock'' fn \<and> fn \<notin> set [''cargo.lock'', ''yarn.lock'', ''bun.lock'', ''poetry.lock'', ''composer.lock'',
        ''gemfile.lock'', ''pipfile.lock'']),
     (''tsconfig'', \<lambda>fn e. fn = ''tsconfig.json'' \<or> starts_with ''tsconfig.'' fn \<and> ends_with ''.json'' fn \<or> fn = ''jsconfig.json''),
     (''eslint'', \<lambda>fn e. fn \<in> set [''eslint.config.js'', ''eslint.config.mjs'', ''eslint.config.cjs'', ''eslint.config.ts''] \<or> starts_with ''.eslintrc'' fn),
     (''prettier'', \<lambda>fn e. fn \<in> set [''prettier.config.js'', ''prettier.config.mjs'', ''prettier.config.cjs''] \<or> starts_with ''.prettierrc'' fn),
     (''vite'', \<lambda>fn e. starts_with ''vite.config.'' fn \<or> starts_with ''vitest.config.'' fn),
     (''webpack'', \<lambda>fn e. starts_with ''webpack.config.'' fn \<or> starts_with ''webpack.'' fn),
     (''github'', \<lambda>fn e. fn = ''action.yml'' \<or> fn = ''action.yaml'' \<or> ends_with ''.github/workflows'' fn \<or>
        contains ''.github'' fn \<and> (ends_with ''.yml'' fn \<or> ends_with ''.yaml'' fn)),
     (''nix'', \<lambda>fn e. e = ''nix'' \<or> fn \<in> set [''flake.nix'', ''default.nix'', ''shell.nix'', ''flake.lock'']),
     (''justfile'', \<lambda>fn e. fn = ''justfile'' \<or> fn = ''.justfile''),
     (''procfile'', \<lambda>fn e. fn = ''procfile''),
     (''rescript'', \<lambda>fn e. e = ''resi'' \<or> ends_with ''.res.js'' fn \<or> e = ''res'' \<and> \<not> ends_with ''.rc.res'' fn)]"

text \<open>What follows the last dot, unless the name begins with it.\<close>

definition extension_of :: "string \<Rightarrow> string" where
  "extension_of name = (case last_index_of (CHR ''.'') name of Some i \<Rightarrow> if i > 0 then drop (Suc i) name else [] | None \<Rightarrow> [])"

text \<open>
  The lookup in the table of extensions finds the built-in objects every object inherits too: such a type is \<open>None\<close>, it has
  no entry in the catalogue.
\<close>

definition resolveTypeId :: "string \<Rightarrow> string \<Rightarrow> string option" where
  "resolveTypeId fileName ext =
     (let fn = to_lower fileName; e0 = to_lower ext; e = (if e0 = [] then extension_of fn else e0) in
      case find (\<lambda>(i, match). match fn e) special_rules of
        Some (i, match) \<Rightarrow> Some i
      | None \<Rightarrow> (case map_of EXTENSION_TO_TYPE e of
            Some t \<Rightarrow> Some t
          | None \<Rightarrow> if e \<in> set prototype_names then None else Some ''generic''))"

definition catalogued :: "string option \<Rightarrow> string \<times> string \<times> string" where
  "catalogued category =
     (case Option.bind category (map_of FILE_TYPE_CATALOG) of
        Some m \<Rightarrow> m
      | None \<Rightarrow> the (map_of FILE_TYPE_CATALOG ''generic''))"

definition getCategoryIconName :: "string option \<Rightarrow> string" where
  "getCategoryIconName category = fst (catalogued category)"

definition getFileTypeInfo :: "string \<Rightarrow> string \<Rightarrow> string \<times> string \<times> string option" where
  "getFileTypeInfo fileName ext =
     (let i = resolveTypeId fileName ext in (fst (snd (catalogued i)), snd (snd (catalogued i)), i))"

section \<open>Previews\<close>

definition previewable_images :: "string list" where
  "previewable_images =
     [''png'', ''jpg'', ''jpeg'', ''gif'', ''webp'', ''bmp'', ''svg'', ''avif'', ''ico'']"

definition previewable_texts :: "string list" where
  "previewable_texts =
     [''pom'', ''module'', ''xml'', ''json'', ''jsonc'', ''json5'', ''txt'', ''md'', ''mdx'', ''yml'', ''yaml'',
      ''properties'', ''log'', ''patch'', ''diff'', ''sh'', ''bash'', ''zsh'', ''py'', ''js'', ''mjs'', ''cjs'',
      ''ts'', ''mts'', ''cts'', ''go'', ''rs'', ''toml'', ''ini'', ''conf'', ''env'', ''gradle'', ''hcl'', ''tf'',
      ''sql'', ''css'', ''scss'', ''sass'', ''less'', ''html'', ''htm'', ''vue'', ''svelte'', ''jsx'', ''tsx'',
      ''kt'', ''kts'', ''java'', ''c'', ''cpp'', ''h'', ''hpp'', ''cs'', ''php'', ''rb'', ''swift'', ''lua'',
      ''dart'', ''zig'', ''r'', ''jl'', ''ex'', ''exs'', ''erl'', ''pl'', ''sol'', ''nim'', ''graphql'', ''gql'',
      ''proto'', ''dockerfile'', ''coffee'', ''elm'', ''f90'', ''f95'', ''lisp'', ''scm'', ''vb'', ''hx'', ''pas'',
      ''gleam'', ''odin'', ''res'', ''resi'', ''tex'', ''rst'', ''adoc'', ''nix'', ''glsl'', ''hlsl'', ''wgsl'',
      ''srt'', ''vtt'', ''plist'', ''ics'', ''eml'', ''justfile'', ''procfile'']"

text \<open>The regular expressions: the lower-case name ends with a dot and one of the words.\<close>

definition has_suffix :: "string list \<Rightarrow> string \<Rightarrow> bool" where
  "has_suffix exts name \<longleftrightarrow> list_ex (\<lambda>ext. ends_with (CHR ''.'' # ext) (to_lower name)) exts"

definition text_categories :: "string list" where
  "text_categories = [''markdown'', ''txt'', ''log'', ''yaml'', ''json'', ''xml'', ''config'', ''toml'', ''script'', ''diff'']"

section \<open>An entry\<close>

text \<open>The attributes of the element; \<open>index\<close> and size only affect how it looks.\<close>

record item_attributes =
  at_name :: string
  at_directory :: bool
  at_path :: string
  at_signed :: bool
  at_format :: string
  at_allow_delete :: bool

datatype item_action = Signature string | Preview string | Docs string | Delete string

record file_item =
  link :: string
  new_tab :: bool
  item_category :: "string option"
  item_icon :: string
  type_key :: string
  actions :: "item_action list"

definition createFileItem :: "string \<Rightarrow> bool \<Rightarrow> bool \<Rightarrow> string \<Rightarrow> string \<Rightarrow> bool \<Rightarrow> item_attributes" where
  "createFileItem name directory signed format path allowDelete =
     \<lparr>at_name = name, at_directory = directory, at_path = path, at_signed = signed, at_format = format, at_allow_delete = allowDelete\<rparr>"

definition full_path :: "string \<Rightarrow> string \<Rightarrow> string" where
  "full_path path fileName = (if ends_with ''/'' path then path else path @ ''/'') @ encodePathSegment fileName"

definition is_javadoc :: "string option \<Rightarrow> string \<Rightarrow> bool" where
  "is_javadoc category fileName \<longleftrightarrow> category = Some ''javadoc'' \<or> ends_with ''-javadoc.jar'' (to_lower fileName)"

definition can_preview :: "string option \<Rightarrow> string \<Rightarrow> bool" where
  "can_preview category fileName \<longleftrightarrow>
     category \<in> set [Some ''image'', Some ''svg''] \<or> has_suffix previewable_images fileName \<or>
     has_suffix previewable_texts fileName \<or> category \<in> set (map Some text_categories)"

text \<open>\<open>may_write\<close> is \<open>canUpdateRepo\<close> for the session at the time of the rendering.\<close>

definition render :: "(string \<Rightarrow> bool) \<Rightarrow> item_attributes \<Rightarrow> file_item" where
  "render may_write a =
     (let path = or_else (at_path a) ''/''; isDir = at_directory a; isRootRepo = (path = ''/'' \<and> isDir);
          ext = extension_of (at_name a);
          category = (if isRootRepo then Some ''repo'' else if isDir then Some ''dir'' else resolveTypeId (at_name a) ext);
          iconName = (if isRootRepo then (case getRepositoryFormat (at_format a) of Some e \<Rightarrow> or_else (icon e) ''repositoryFiles'' | None \<Rightarrow> ''repositoryFiles'')
                      else if isDir then ''folder'' else getCategoryIconName category);
          typeI18nKey = (if isRootRepo
                         then (if at_format a \<noteq> [] then (case getRepositoryFormat (at_format a) of Some e \<Rightarrow> labelKey e | None \<Rightarrow> []) else ''browser.repository'')
                         else if isDir then ''browser.folder'' else fst (getFileTypeInfo (at_name a) ext));
          fullPath = full_path path (at_name a)
      in \<lparr>link = fullPath, new_tab = (\<not> isDir), item_category = category, item_icon = iconName, type_key = typeI18nKey,
          actions =
            (if \<not> isDir \<and> at_signed a then [Signature fullPath] else []) @
            (if \<not> isDir \<and> is_javadoc category (at_name a) then [Docs (''/javadoc'' @ fullPath)]
             else if \<not> isDir \<and> can_preview category (at_name a) then [Preview (fullPath @ ''?preview=true'')] else []) @
            (if \<not> isRootRepo \<and> at_allow_delete a \<and> may_write (repoNameFromPath path) then [Delete fullPath] else [])\<rparr>)"

section \<open>Properties\<close>

lemma rule_types: "map fst special_rules =
    [''diff'', ''docker'', ''pom'', ''javadoc'', ''sources'', ''npm'', ''cargo'', ''gomod'', ''gradle'', ''env'', ''k8s'', ''makefile'', ''composer'',
     ''gemfile'', ''pyproject'', ''gitignore'', ''lockfile'', ''tsconfig'', ''eslint'', ''prettier'', ''vite'', ''webpack'', ''github'', ''nix'',
     ''justfile'', ''procfile'', ''rescript'']"
  by (simp add: special_rules_def)

lemma rules_catalogued: "set (map fst special_rules) \<subseteq> set (map fst FILE_TYPE_CATALOG)"
  unfolding rule_types by (simp add: FILE_TYPE_CATALOG_def)

fun in_order :: "'a list \<Rightarrow> 'a list \<Rightarrow> bool" where
  "in_order [] ys = True"
| "in_order (x # xs) [] = False"
| "in_order (x # xs) (y # ys) = (if x = y then in_order xs ys else in_order (x # xs) ys)"

lemma in_order_subset: "in_order xs ys \<Longrightarrow> set xs \<subseteq> set ys"
  by (induction xs ys rule: in_order.induct) (auto split: if_splits)

lemma extensions_catalogued: "set (map fst EXTENSIONS_OF_TYPE) \<subseteq> set (map fst FILE_TYPE_CATALOG)"
  by (rule in_order_subset) code_simp

lemma split_on_mid: "split_on c (a @ c # b) = split_on c a @ split_on c b"
proof (induction a)
  case (Cons x a)
  then show ?case by (auto split: list.splits)
qed simp

lemma full_path_segments:
  assumes "name \<noteq> []" and "utf8_wf name"
  shows "map decodePathSegment (filter (\<lambda>p. p \<noteq> []) (split_on (CHR ''/'') (full_path path name))) =
    map decodePathSegment (filter (\<lambda>p. p \<noteq> []) (split_on (CHR ''/'') path)) @ [name]"
proof -
  have seg: "split_on (CHR ''/'') (encodePathSegment name) = [encodePathSegment name]"
    by (rule split_on_single [OF encodePathSegment_no_slash])
  have ends: "filter (\<lambda>p. p \<noteq> []) (split_on (CHR ''/'') (p @ CHR ''/'' # encodePathSegment name)) =
      filter (\<lambda>p. p \<noteq> []) (split_on (CHR ''/'') p) @ [encodePathSegment name]" for p
    using assms(1) by (simp add: split_on_mid seg encodePathSegment_nonempty)
  show ?thesis
  proof (cases "ends_with ''/'' path")
    case True
    then obtain p where p: "path = p @ ''/''" by (auto simp: ends_with_iff)
    have "split_on (CHR ''/'') path = split_on (CHR ''/'') p @ [[]]" using split_on_mid [of "CHR ''/''" p "[]"] by (simp add: p)
    then show ?thesis using ends [of p] assms True by (simp add: full_path_def p decode_encode_segment)
  next
    case False
    then show ?thesis using ends [of path] assms by (simp add: full_path_def decode_encode_segment)
  qed
qed

text \<open>
  C40: Every file name has a type of the catalogue, so an icon and a label of its own; only an extension that is the name of an
  inherited member of objects has none.
\<close>

theorem every_name_has_type:
  assumes "(if to_lower ext = [] then extension_of (to_lower name) else to_lower ext) \<notin> set prototype_names"
  shows "\<exists>t \<in> set (map fst FILE_TYPE_CATALOG). resolveTypeId name ext = Some t \<and>
    (\<exists>m. map_of FILE_TYPE_CATALOG t = Some m \<and> catalogued (resolveTypeId name ext) = m)"
proof -
  define e where "e = (if to_lower ext = [] then extension_of (to_lower name) else to_lower ext)"
  have "\<exists>t \<in> set (map fst FILE_TYPE_CATALOG). resolveTypeId name ext = Some t"
  proof (cases "find (\<lambda>(i, match). match (to_lower name) e) special_rules")
    case (Some r)
    then have "r \<in> set special_rules" unfolding find_Some_iff by (metis nth_mem)
    then have "fst r \<in> set (map fst FILE_TYPE_CATALOG)" using rules_catalogued by auto
    then show ?thesis using Some by (cases r) (auto simp: resolveTypeId_def Let_def e_def)
  next
    case None
    show ?thesis
    proof (cases "map_of EXTENSION_TO_TYPE e")
      case no: None
      have "''generic'' \<in> set (map fst FILE_TYPE_CATALOG)" by code_simp
      then show ?thesis using None no assms by (auto simp: resolveTypeId_def Let_def e_def)
    next
      case (Some t)
      then have "t \<in> set (map fst EXTENSIONS_OF_TYPE)"
        by (force simp: EXTENSION_TO_TYPE_def dest: map_of_SomeD)
      then have "t \<in> set (map fst FILE_TYPE_CATALOG)" using extensions_catalogued by blast
      then show ?thesis using None Some by (auto simp: resolveTypeId_def Let_def e_def)
    qed
  qed
  then obtain t where t: "t \<in> set (map fst FILE_TYPE_CATALOG)" "resolveTypeId name ext = Some t" by blast
  then obtain m where "map_of FILE_TYPE_CATALOG t = Some m" using map_of_eq_None_iff [of FILE_TYPE_CATALOG t] by auto
  then have "catalogued (resolveTypeId name ext) = m" by (simp add: catalogued_def t)
  with t \<open>map_of FILE_TYPE_CATALOG t = Some m\<close> show ?thesis by (intro bexI [of _ t] conjI exI [of _ m])
qed

text \<open>
  C33: An entry acts on the file it names: the segments of its link, decoded, are those of the directory and its name; every
  button leads to this link; a delete button is there exactly when the format allows it, the entry is not a repository and
  the session may write to the repository of the directory; directories have no other button.
\<close>

theorem entry_acts_on_its_file:
  fixes li mgr :: bool and rights :: "permission list" and scopes :: "route option list"
  assumes "at_name a \<noteq> []" and "utf8_wf (at_name a)"
  defines "path \<equiv> or_else (at_path a) ''/''" and "may_write \<equiv> canUpdateRepo li mgr rights scopes"
  defines "item \<equiv> render may_write a"
  shows "map decodePathSegment (filter (\<lambda>p. p \<noteq> []) (split_on (CHR ''/'') (link item))) =
      map decodePathSegment (filter (\<lambda>p. p \<noteq> []) (split_on (CHR ''/'') path)) @ [at_name a] \<and>
    (\<forall>x \<in> set (actions item). x \<in> {Signature (link item), Preview (link item @ ''?preview=true''), Docs (''/javadoc'' @ link item), Delete (link item)}) \<and>
    (Delete (link item) \<in> set (actions item) \<longleftrightarrow>
       \<not> (path = ''/'' \<and> at_directory a) \<and> at_allow_delete a \<and> may_write (repoNameFromPath path)) \<and>
    (at_directory a \<longrightarrow> set (actions item) \<subseteq> {Delete (link item)} \<and> \<not> new_tab item)"
proof -
  have l: "link item = full_path path (at_name a)" by (simp add: item_def render_def Let_def path_def)
  show ?thesis unfolding l using full_path_segments [OF assms(1,2), of path]
    by (auto simp: item_def render_def Let_def path_def [symmetric])
qed

theorem every_name_has_type_witness:
  "resolveTypeId ''lib-1.0-javadoc.jar'' ''jar'' = Some ''javadoc'' \<and>
   (\<exists>m. map_of FILE_TYPE_CATALOG ''javadoc'' = Some m \<and> catalogued (resolveTypeId ''lib-1.0-javadoc.jar'' ''jar'') = m)"
proof -
  have "to_lower ''jar'' \<notin> set prototype_names" "to_lower ''jar'' \<noteq> []" "resolveTypeId ''lib-1.0-javadoc.jar'' ''jar'' = Some ''javadoc''"
    by code_simp+
  then show ?thesis using every_name_has_type [of "''jar''" "''lib-1.0-javadoc.jar''"] by simp
qed

theorem entry_acts_on_its_file_witness:
  "(let item = render (canUpdateRepo True True [] []) (createFileItem ''a+b.jar'' False True [] ''/files/x%20y'' True) in
    link item = ''/files/x%20y/a+b.jar'' \<and> actions item = [Signature (link item), Delete (link item)])"
proof -
  define a where "a = createFileItem ''a+b.jar'' False True [] ''/files/x%20y'' True"
  have wf: "utf8_wf (at_name a)" "at_name a \<noteq> []" unfolding a_def by (code_simp, code_simp)
  have "link (render (canUpdateRepo True True [] []) a) = ''/files/x%20y/a+b.jar''"
    "actions (render (canUpdateRepo True True [] []) a) = [Signature ''/files/x%20y/a+b.jar'', Delete ''/files/x%20y/a+b.jar'']"
    unfolding a_def by (code_simp, code_simp)
  then show ?thesis
    using entry_acts_on_its_file [OF wf(2,1), of True True "[]" "[]"] by (simp add: a_def Let_def)
qed

text \<open>The rule for Nix names its lock file, but the rule for lock files comes first and does not except it.\<close>

theorem flake_lock_is_no_nix_file: "resolveTypeId ''flake.lock'' ''lock'' = Some ''lockfile''"
  by code_simp

text \<open>Any name that contains a word of the rule for Kubernetes is taken for a manifest, pictures included.\<close>

theorem portrait_is_manifest: "resolveTypeId ''wilhelm.jpg'' ''jpg'' = Some ''k8s''"
  by code_simp

text \<open>An extension named like a built-in of objects finds that built-in in the table of types.\<close>

theorem inherited_extension: "resolveTypeId ''a.constructor'' ''constructor'' = None"
  by code_simp

end
