(* ===== verification/Cargo.thy ===== *)
theory Cargo
  imports Version_Order Json Uri Machine "HOL-Library.AList"
begin

text \<open>
  The catalogue of a Cargo repository (\<open>browser/cargo.js\<close>): the list of packages, merged by name from pages of the
  public search and from the packages the user manages, and its counts. A record of a package is a map from its fields to
  JSON values. \<open>lc\<close> is \<open>localeCompare\<close>. The requests behind the pages, the page of a package and the markup are left out.
\<close>

section \<open>The catalogue\<close>

type_synonym pkg = "string \<rightharpoonup> json"

definition normalizeCargoPackageName :: "string \<Rightarrow> string" where
  "normalizeCargoPackageName name = map (\<lambda>c. if c = CHR ''_'' then CHR ''-'' else c) (to_lower (js_trim name))"

text \<open>The key of a record: a missing or falsy name has the empty key.\<close>

definition package_key :: "pkg \<Rightarrow> string" where
  "package_key r =
     (case r ''name'' of Some v \<Rightarrow> if json_truthy v then normalizeCargoPackageName (json_string v) else [] | None \<Rightarrow> [])"

definition is_archived :: "pkg \<Rightarrow> bool" where
  "is_archived r \<longleftrightarrow> r ''archived'' = Some (JBool True)"

record catalogue =
  activePackageList :: "pkg list"
  activePublicPackageNames :: "string list"
  activePublicPackageTotal :: nat
  activeCatalogPage :: nat

text \<open>One record is merged into the records by name; a record without a name is dropped.\<close>

definition put_package :: "pkg \<Rightarrow> (string \<times> pkg) list \<Rightarrow> (string \<times> pkg) list" where
  "put_package r m =
     (let key = package_key r in
      if key = [] then m
      else AList.update key ((case map_of m key of Some old \<Rightarrow> old | None \<Rightarrow> Map.empty) ++ r) m)"

definition name_package :: "pkg \<Rightarrow> string list \<Rightarrow> string list" where
  "name_package r known = (if package_key r = [] then known else List.insert (package_key r) known)"

definition keep_package :: "pkg \<Rightarrow> (string \<times> pkg) list \<Rightarrow> (string \<times> pkg) list" where
  "keep_package r m = (if package_key r = [] then m else AList.update (package_key r) r m)"

definition mergeCargoPackageRecords ::
  "(string \<Rightarrow> string \<Rightarrow> int) \<Rightarrow> pkg list \<Rightarrow> pkg list \<Rightarrow> bool \<Rightarrow> catalogue \<Rightarrow> catalogue" where
  "mergeCargoPackageRecords lc publicPackages managedPackages reset c =
     (let m0 = fold keep_package (if reset then [] else activePackageList c) [];
          m = fold put_package (publicPackages @ managedPackages) m0;
          known = fold name_package (publicPackages @ filter (\<lambda>r. \<not> is_archived r) managedPackages) (activePublicPackageNames c)
      in c\<lparr>activePublicPackageNames := known,
           activePackageList := sort_by (\<lambda>a b. lc (package_key a) (package_key b)) (map snd m)\<rparr>)"

definition loaded_catalog ::
  "(string \<Rightarrow> string \<Rightarrow> int) \<Rightarrow> pkg list \<Rightarrow> nat \<Rightarrow> pkg list \<Rightarrow> catalogue \<Rightarrow> catalogue" where
  "loaded_catalog lc crates amount managed c =
     mergeCargoPackageRecords lc crates managed True
       (c\<lparr>activePublicPackageNames := [], activePublicPackageTotal := amount, activeCatalogPage := 1\<rparr>)"

definition loaded_more :: "(string \<Rightarrow> string \<Rightarrow> int) \<Rightarrow> nat \<Rightarrow> pkg list \<Rightarrow> nat \<Rightarrow> catalogue \<Rightarrow> catalogue" where
  "loaded_more lc nextPage crates amount c =
     mergeCargoPackageRecords lc crates [] False
       (c\<lparr>activeCatalogPage := nextPage, activePublicPackageTotal := max (activePublicPackageTotal c) amount\<rparr>)"

definition more_packages :: "catalogue \<Rightarrow> bool" where
  "more_packages c \<longleftrightarrow> length (activePublicPackageNames c) < activePublicPackageTotal c"

definition cargoCatalogCount :: "catalogue \<Rightarrow> nat" where
  "cargoCatalogCount c = activePublicPackageTotal c +
     length (filter (\<lambda>r. package_key r \<noteq> [] \<and> is_archived r \<and> package_key r \<notin> set (activePublicPackageNames c)) (activePackageList c))"

section \<open>Merging by name\<close>

text \<open>The reference: the record of a key is the merge of all records with this key, in the order received.\<close>

definition package_of :: "catalogue \<Rightarrow> string \<Rightarrow> pkg option" where
  "package_of c k = find (\<lambda>r. package_key r = k) (activePackageList c)"

definition merged :: "pkg list \<Rightarrow> pkg option \<Rightarrow> string \<Rightarrow> pkg option" where
  "merged rs old k =
     (case filter (\<lambda>r. package_key r = k) rs of
        [] \<Rightarrow> old
      | ks \<Rightarrow> Some (foldl (++) (case old of Some r \<Rightarrow> r | None \<Rightarrow> Map.empty) ks))"

definition by_key :: "(string \<times> pkg) list \<Rightarrow> bool" where
  "by_key m \<longleftrightarrow> distinct (map fst m) \<and> (\<forall>(k, r) \<in> set m. package_key r = k \<and> k \<noteq> [])"

definition catalogue_ok :: "(string \<Rightarrow> string \<Rightarrow> int) \<Rightarrow> catalogue \<Rightarrow> bool" where
  "catalogue_ok lc c \<longleftrightarrow>
     distinct (map package_key (activePackageList c)) \<and> [] \<notin> set (map package_key (activePackageList c)) \<and>
     sorted_wrt (\<lambda>a b. lc (package_key a) (package_key b) \<le> 0) (activePackageList c) \<and>
     distinct (activePublicPackageNames c) \<and> set (activePublicPackageNames c) \<subseteq> set (map package_key (activePackageList c))"

lemma key_merge: "package_key r \<noteq> [] \<Longrightarrow> package_key (old ++ r) = package_key r"
  by (auto simp: package_key_def map_add_def split: option.splits if_splits)

lemma by_key_update:
  assumes "by_key m" and "package_key r = k" and "k \<noteq> []"
  shows "by_key (AList.update k r m)"
proof -
  have "distinct (map fst (AList.update k r m))" using assms(1) by (simp add: by_key_def distinct_update)
  moreover have "package_key r' = k' \<and> k' \<noteq> []" if "(k', r') \<in> set (AList.update k r m)" for k' r'
  proof -
    have d: "distinct (map fst (AList.update k r m))" by fact
    then have "map_of (AList.update k r m) k' = Some r'" using that by simp
    then have "(k' = k \<and> r' = r) \<or> map_of m k' = Some r'" by (auto simp: update_conv' split: if_splits)
    then show ?thesis using assms by (auto simp: by_key_def dest: map_of_SomeD)
  qed
  ultimately show ?thesis by (auto simp: by_key_def)
qed

lemma by_key_put: "by_key m \<Longrightarrow> by_key (put_package r m)"
  by (auto simp: put_package_def Let_def key_merge intro!: by_key_update split: option.splits)

lemma by_key_keep: "by_key m \<Longrightarrow> by_key (keep_package r m)"
  by (auto simp: keep_package_def intro!: by_key_update)

lemma by_key_fold: "by_key m \<Longrightarrow> by_key (fold put_package rs m)" "by_key m \<Longrightarrow> by_key (fold keep_package rs m)"
  by (induction rs arbitrary: m) (auto intro: by_key_put by_key_keep)

lemma map_of_put: "map_of (put_package r m) k =
    (if package_key r = k \<and> k \<noteq> [] then Some ((case map_of m k of Some old \<Rightarrow> old | None \<Rightarrow> Map.empty) ++ r) else map_of m k)"
  by (auto simp: put_package_def Let_def update_conv' split: option.splits)

lemma map_of_fold_put: "k \<noteq> [] \<Longrightarrow> map_of (fold put_package rs m) k = merged rs (map_of m k) k"
proof (induction rs arbitrary: m)
  case (Cons r rs)
  then show ?case by (auto simp: map_of_put merged_def split: list.splits option.splits)
qed (simp add: merged_def)

lemma map_of_fold_keep:
  "distinct (map package_key rs) \<Longrightarrow> [] \<notin> set (map package_key rs) \<Longrightarrow>
   map_of (fold keep_package rs m) k = (case find (\<lambda>r. package_key r = k) rs of Some r \<Rightarrow> Some r | None \<Rightarrow> map_of m k)"
proof (induction rs arbitrary: m)
  case (Cons r rs)
  have "find (\<lambda>r. package_key r = k) rs = None" if "package_key r = k"
    using Cons.prems that by (auto simp: find_None_iff image_iff)
  then show ?case using Cons by (auto simp: keep_package_def update_conv' split: option.splits)
qed simp

lemma name_fold:
  "set (fold name_package rs known) = set known \<union> (package_key ` set rs - {[]})"
  "distinct known \<Longrightarrow> distinct (fold name_package rs known)"
  by (induction rs arbitrary: known) (auto simp: name_package_def)

lemma put_keys: "dom (map_of (put_package r m)) = dom (map_of m) \<union> ({package_key r} - {[]})"
proof (rule set_eqI)
  fix k
  show "k \<in> dom (map_of (put_package r m)) \<longleftrightarrow> k \<in> dom (map_of m) \<union> ({package_key r} - {[]})"
    unfolding domIff map_of_put by (cases "package_key r = k") (auto simp: domIff)
qed

lemma fold_put_keys: "dom (map_of (fold put_package rs m)) = dom (map_of m) \<union> (package_key ` set rs - {[]})"
  by (induction rs arbitrary: m) (auto simp: put_keys simp del: map_of_eq_None_iff)

text \<open>The catalogue after a merge.\<close>

lemma find_by_key: "by_key m \<Longrightarrow> find (\<lambda>r. package_key r = k) (map snd m) = map_of m k"
  by (induction m) (auto simp: by_key_def)

lemma find_distinct:
  "distinct (map f rs) \<Longrightarrow> find (\<lambda>r. f r = k) rs = Some r \<longleftrightarrow> r \<in> set rs \<and> f r = k"
  by (induction rs) (auto simp: image_iff)

lemma find_mset_eq:
  assumes m: "mset xs = mset ys" and d: "distinct (map f ys)"
  shows "find (\<lambda>r. f r = k) xs = find (\<lambda>r. f r = k) ys"
proof -
  have "distinct (map f xs)" using m d by (metis mset_map mset_eq_imp_distinct_iff)
  then have "find (\<lambda>r. f r = k) xs = Some r \<longleftrightarrow> find (\<lambda>r. f r = k) ys = Some r" for r
    using find_distinct [of f xs k r] find_distinct [OF d, of k r] mset_eq_setD [OF m] by simp
  then show ?thesis by (metis not_Some_eq)
qed

lemma keys_of_map: "by_key m \<Longrightarrow> map package_key (map snd m) = map fst m"
  by (induction m) (auto simp: by_key_def)

lemma package_list_by_key:
  assumes "by_key m"
  shows "distinct (map package_key (sort_by cmp (map snd m)))" (is "distinct ?ks")
    and "set (map package_key (sort_by cmp (map snd m))) = dom (map_of m)"
    and "find (\<lambda>r. package_key r = k) (sort_by cmp (map snd m)) = map_of m k"
proof -
  have ms: "mset (sort_by cmp (map snd m)) = mset (map snd m)" by simp
  have keys: "mset ?ks = mset (map fst m)" using keys_of_map [OF assms] by (metis ms mset_map)
  have d: "distinct (map fst m)" using assms by (simp add: by_key_def)
  show "distinct ?ks" using d mset_eq_imp_distinct_iff [OF keys] by simp
  show "set ?ks = dom (map_of m)" using mset_eq_setD [OF keys] by (simp add: dom_map_of_conv_image_fst)
  have dk: "distinct (map package_key (map snd m))" using d by (simp only: keys_of_map [OF assms])
  show "find (\<lambda>r. package_key r = k) (sort_by cmp (map snd m)) = map_of m k"
    unfolding find_mset_eq [OF ms dk] by (rule find_by_key [OF assms])
qed

lemma no_empty_key: "by_key m \<Longrightarrow> [] \<notin> dom (map_of m)"
  by (fastforce simp: by_key_def dest: map_of_SomeD)

definition merged_records :: "pkg list \<Rightarrow> pkg list \<Rightarrow> (string \<times> pkg) list" where
  "merged_records old new = fold put_package new (fold keep_package old [])"

lemma by_key_merged: "by_key (merged_records old new)"
  unfolding merged_records_def by (intro by_key_fold) (simp add: by_key_def)

lemma merge_names: "activePublicPackageNames (mergeCargoPackageRecords lc pub managed reset c) =
    fold name_package (pub @ filter (\<lambda>r. \<not> is_archived r) managed) (activePublicPackageNames c)"
  by (simp add: mergeCargoPackageRecords_def Let_def)

lemma merge_list: "activePackageList (mergeCargoPackageRecords lc pub managed reset c) =
    sort_by (\<lambda>a b. lc (package_key a) (package_key b))
      (map snd (merged_records (if reset then [] else activePackageList c) (pub @ managed)))"
  by (simp add: mergeCargoPackageRecords_def merged_records_def Let_def)

lemma merged_lookup:
  assumes "distinct (map package_key old)" and "[] \<notin> set (map package_key old)" and "k \<noteq> []"
  shows "map_of (merged_records old new) k = merged new (find (\<lambda>r. package_key r = k) old) k"
  unfolding merged_records_def map_of_fold_put [OF assms(3)] map_of_fold_keep [OF assms(1,2)]
  by (simp split: option.splits)

lemma merged_dom:
  assumes "distinct (map package_key old)" and "[] \<notin> set (map package_key old)"
  shows "dom (map_of (merged_records old new)) = package_key ` set old \<union> (package_key ` set new - {[]})"
proof -
  have "dom (map_of (fold keep_package old [])) = package_key ` set old"
  proof (rule set_eqI)
    fix k
    show "k \<in> dom (map_of (fold keep_package old [])) \<longleftrightarrow> k \<in> package_key ` set old"
      unfolding domIff map_of_fold_keep [OF assms]
        by (auto simp: find_None_iff find_distinct [OF assms(1)] image_iff split: option.splits)
  qed
  then show ?thesis unfolding merged_records_def fold_put_keys by simp
qed

lemma merge_ok:
  assumes lc: "comparator_on lc UNIV" and ok: "catalogue_ok lc c"
    and known: "reset \<Longrightarrow> activePublicPackageNames c = []"
  shows "catalogue_ok lc (mergeCargoPackageRecords lc pub managed reset c)"
proof -
  let ?old = "if reset then [] else activePackageList c"
  let ?m = "merged_records ?old (pub @ managed)"
  let ?cmp = "\<lambda>a b. lc (package_key a) (package_key b)"
  have old: "distinct (map package_key ?old)" "[] \<notin> set (map package_key ?old)" using ok by (auto simp: catalogue_ok_def)
  note b = by_key_merged [of ?old "pub @ managed"] and dm = merged_dom [OF old, of "pub @ managed"]
  have "comparator_on ?cmp UNIV" by (rule comparator_key) (rule comparator_subset [OF lc subset_UNIV])
  then have sorted: "sorted_wrt (\<lambda>a b. ?cmp a b \<le> 0) (sort_by ?cmp (map snd ?m))"
    by (rule comparator_on.sort_sorted) simp
  have "set (activePublicPackageNames c) \<subseteq> package_key ` set ?old" using ok known by (auto simp: catalogue_ok_def)
  then have sub: "set (activePublicPackageNames c) \<union> (package_key ` set (pub @ filter (\<lambda>r. \<not> is_archived r) managed) - {[]})
      \<subseteq> dom (map_of ?m)" unfolding dm by auto
  let ?ps = "pub @ filter (\<lambda>r. \<not> is_archived r) managed"
  have names_ok: "distinct (fold name_package ?ps (activePublicPackageNames c))"
    by (rule name_fold(2)) (use ok in \<open>simp add: catalogue_ok_def\<close>)
  have names_sub: "set (fold name_package ?ps (activePublicPackageNames c)) \<subseteq> dom (map_of ?m)"
    unfolding name_fold(1) by (rule sub)
  show ?thesis
    unfolding catalogue_ok_def merge_names merge_list
    by (simp only: package_list_by_key(1,2) [OF b] no_empty_key [OF b] sorted
        names_ok names_sub simp_thms)
qed

lemma merge_lookup:
  assumes ok: "catalogue_ok lc c" and k: "k \<noteq> []"
  shows "package_of (mergeCargoPackageRecords lc pub managed reset c) k =
    merged (pub @ managed) (if reset then None else package_of c k) k"
proof -
  have old: "distinct (map package_key (if reset then [] else activePackageList c))"
    "[] \<notin> set (map package_key (if reset then [] else activePackageList c))" using ok by (auto simp: catalogue_ok_def)
  show ?thesis
    unfolding merge_list package_of_def
    using package_list_by_key(3) [OF by_key_merged] merged_lookup [OF old k] by simp
qed

section \<open>Pages of the catalogue\<close>

text \<open>The catalogue is loaded again with its first page, or extended by one page.\<close>

datatype catalogue_answer = Reloaded "pkg list" nat "pkg list" | Extended nat "pkg list" nat

fun catalogue_step :: "(string \<Rightarrow> string \<Rightarrow> int) \<Rightarrow> catalogue_answer \<Rightarrow> catalogue \<Rightarrow> catalogue" where
  "catalogue_step lc (Reloaded crates amount managed) c = loaded_catalog lc crates amount managed c"
| "catalogue_step lc (Extended page crates amount) c = loaded_more lc page crates amount c"

definition catalogue_start :: catalogue where
  "catalogue_start = \<lparr>activePackageList = [], activePublicPackageNames = [], activePublicPackageTotal = 0, activeCatalogPage = 1\<rparr>"

lemma catalogue_step_ok:
  assumes "comparator_on lc UNIV" and "catalogue_ok lc c"
  shows "catalogue_ok lc (catalogue_step lc a c)"
proof (cases a)
  case (Reloaded crates amount managed)
  then show ?thesis
    unfolding catalogue_step.simps Reloaded loaded_catalog_def
    by (intro merge_ok assms(1)) (use assms(2) in \<open>simp_all add: catalogue_ok_def\<close>)
next
  case (Extended page crates amount)
  then show ?thesis
    unfolding catalogue_step.simps Extended loaded_more_def
    by (intro merge_ok assms(1)) (use assms(2) in \<open>simp_all add: catalogue_ok_def\<close>)
qed

lemma catalogue_run_ok: "comparator_on lc UNIV \<Longrightarrow> catalogue_ok lc c \<Longrightarrow> catalogue_ok lc (fold (catalogue_step lc) answers c)"
  by (induction answers arbitrary: c) (auto intro: catalogue_step_ok)

lemma catalogue_start_ok: "catalogue_ok lc catalogue_start"
  by (simp add: catalogue_ok_def catalogue_start_def)

text \<open>What an answer adds, and whether the records before it are kept.\<close>

fun answered_records :: "catalogue_answer \<Rightarrow> pkg list" where
  "answered_records (Reloaded crates amount managed) = crates @ managed"
| "answered_records (Extended page crates amount) = crates"

fun keeps_records :: "catalogue_answer \<Rightarrow> bool" where
  "keeps_records (Reloaded crates amount managed) = False"
| "keeps_records (Extended page crates amount) = True"

text \<open>
  C34: whatever pages arrive in whatever order, the catalogue of packages lists every package once, by the order of its
  normalized names, and counts as public only packages it lists; the record of a name is the merge of the records received
  for it in the order received, later fields winning, and a name nobody sent a record for keeps its record, or has none
  after a reload.
\<close>

theorem catalogue_consistent:
  assumes "comparator_on lc UNIV"
  shows "let c = fold (catalogue_step lc) answers catalogue_start in
      catalogue_ok lc c \<and>
      (k \<noteq> [] \<longrightarrow> package_of (catalogue_step lc a c) k =
        merged (answered_records a) (if keeps_records a then package_of c k else None) k)"
proof -
  define c where "c = fold (catalogue_step lc) answers catalogue_start"
  have ok: "catalogue_ok lc c" unfolding c_def by (rule catalogue_run_ok [OF assms(1) catalogue_start_ok])
  have "package_of (catalogue_step lc a c) k =
      merged (answered_records a) (if keeps_records a then package_of c k else None) k" if k: "k \<noteq> []"
  proof (cases a)
    case (Reloaded crates amount managed)
    have "catalogue_ok lc (c\<lparr>activePublicPackageNames := [], activePublicPackageTotal := amount, activeCatalogPage := 1\<rparr>)"
      using ok by (simp add: catalogue_ok_def)
    then show ?thesis using merge_lookup [OF _ k] Reloaded by (simp add: loaded_catalog_def)
  next
    case (Extended page crates amount)
    have "catalogue_ok lc (c\<lparr>activeCatalogPage := page, activePublicPackageTotal := max (activePublicPackageTotal c) amount\<rparr>)"
      using ok by (simp add: catalogue_ok_def)
    from merge_lookup [OF this k, of crates "[]" False] Extended show ?thesis by (simp add: loaded_more_def package_of_def)
  qed
  with ok show ?thesis by (simp add: c_def Let_def)
qed

definition crate :: "string \<Rightarrow> (string \<times> json) list \<Rightarrow> pkg" where
  "crate name kvs = (map_of kvs)(''name'' \<mapsto> JStr name)"

theorem catalogue_consistent_witness:
  "package_of (catalogue_step (\<lambda>a b. 0) (Extended 2 [crate ''my_lib'' [(''archived'', JBool True)]] 3)
      (fold (catalogue_step (\<lambda>a b. 0)) [Reloaded [crate ''My-Lib'' [(''max_version'', JStr ''1.2'')]] 3 []] catalogue_start)) ''my-lib''
    = Some ((crate ''My-Lib'' [(''max_version'', JStr ''1.2'')]) ++ crate ''my_lib'' [(''archived'', JBool True)])"
proof -
  have lc: "comparator_on (\<lambda>a b. 0 :: int) (UNIV :: string set)" by standard auto
  have n: "normalizeCargoPackageName ''my_lib'' = ''my-lib''" "normalizeCargoPackageName ''My-Lib'' = ''my-lib''" by code_simp+
  have key: "package_key (crate x kvs) = normalizeCargoPackageName x" if "x \<noteq> []" for x kvs
    using that by (simp add: package_key_def crate_def)
  show ?thesis
    using catalogue_consistent [OF lc, of "[Reloaded [crate ''My-Lib'' [(''max_version'', JStr ''1.2'')]] 3 []]" "''my-lib''"
        "Extended 2 [crate ''my_lib'' [(''archived'', JBool True)]] 3"]
      catalogue_consistent [OF lc, of "[]" "''my-lib''" "Reloaded [crate ''My-Lib'' [(''max_version'', JStr ''1.2'')]] 3 []"]
    by (simp add: Let_def merged_def key n)
qed

end
