(* ===== verification/Spec2Isabelle.thy ===== *)
theory Spec2Isabelle
  imports Upload_Correct Dsn Timing Pagination Captcha Availability Components Routes Official Legal
    Mfa Account_Language Markdown Headings Modals Router Update_Package Passwords Snippets Session Profile_Cache
    File_List Upload_Queue Breadcrumbs Browser Search File_Types Cargo
begin

text \<open>
  A verification development for the browser side of RenoP, an artifact repository server. The server is written
  in Go; the code modelled here is the JavaScript it ships: the administration and repository
  pages (\<open>src/internal/service/frontend/renop-html/js\<close>, below \<open>app\<close>), the component
  library they share with the web site (\<open>src/packages/renop-ui/js\<close>, below \<open>ui\<close>) and the web site
  (\<open>src/web/js\<close>, below \<open>site\<close>).

  \<^bold>\<open>How the code is modelled.\<close>
  Strings are lists of bytes in UTF-8; lengths that JavaScript counts in UTF-16 units are counted by
  \<open>js_length\<close>. Where the code looks at Unicode classes (\<open>Headings\<close>) a text is a list of code points.
  JavaScript numbers that the code uses as integers are \<open>int\<close> or \<open>nat\<close>. An exception is the left value of a
  sum, or \<open>None\<close>. Asynchronous code is a function on a state record that runs from one await (or timer, or event) to
  the next; a component is a step function \<open>event \<Rightarrow> state \<Rightarrow> state option\<close>, where
  \<open>None\<close> says that the event cannot happen, so that a list of events is an interleaving. Code outside the
  repository (the URL and Markdown parsers, Brotli, SHA-256, the network, the interface dictionaries) is a parameter
  of the definitions; what is assumed of it is a hypothesis of the theorem.

  \<^bold>\<open>The theories.\<close>
  \<^item> \<open>Prelude\<close>: JavaScript strings (searching, splitting, trimming, case, decimal numbers, UTF-16 lengths),
    ceiling division and slices. \<open>Machine\<close>: executions of step functions, the locales \<open>machine\<close> (invariants) and
    \<open>ranked_machine\<close> (bounded work) that the event-driven components interpret. \<open>Json\<close>: parsed JSON values.
  \<^item> \<open>Uri\<close> (app \<open>browser/utils.js\<close>): percent-encoding of repository paths. \<open>Dsn\<close> (app
    \<open>settings/database-dsn.js\<close>): connection strings of four databases; parse and format are inverse.
  \<^item> \<open>Chunked_Upload\<close>, \<open>Upload_Correct\<close> (app \<open>chunked-upload.js\<close>): the worker pool that uploads the parts of a
    file. The invariant (each part belongs to at most one worker, attempts are bounded, a part counts as
    done only after the server took it) gives completion only with all parts, and the rank gives
    termination: \<open>exec_rank\<close> bounds the number of scheduler steps of a run, no fuel is needed.
  \<^item> \<open>Dom\<close>, \<open>Timing\<close> (ui \<open>dom.js\<close>): element construction, escaping, debounce and throttle. \<open>Components\<close> (ui
    custom elements): their rendering. \<open>Pagination\<close> (ui \<open>pagination.js\<close>, app \<open>repository-list.js\<close>).
  \<^item> \<open>I18n\<close>, \<open>Tables\<close>, \<open>Language\<close> (ui \<open>i18n-util.js\<close>, \<open>i18n-catalog.js\<close>, \<open>i18n-startup.js\<close>, app \<open>i18n.js\<close>): placeholders,
    locale matching, translation of pages and of server errors, overlapping language changes.
  \<^item> \<open>Responses\<close> (ui \<open>response-bytes.js\<close>, app \<open>response-errors.js\<close>, \<open>legal-response.js\<close>): bounded reading and messages.
    \<open>Availability\<close> (app \<open>backend-availability.js\<close>): the offline monitor. \<open>Captcha\<close> (app \<open>captcha.js\<close>, \<open>api.js\<close>):
    challenges and the request client that uses them.
  \<^item> \<open>Routes\<close> (app \<open>login-route.js\<close>, \<open>back-navigation.js\<close>, \<open>protected-route.js\<close>): where sign-in returns to.
    \<open>Legal\<close> (app \<open>legal-consent.js\<close>, \<open>cookie-preferences.js\<close>, \<open>cookie-consent.js\<close>), \<open>Fido\<close> (app \<open>fido-utils.js\<close>),
    \<open>Mfa\<close> (app \<open>mfa-login.js\<close>): consent, Passkeys and the second factor. \<open>Mfa\<close> uses the answers of the other two.
    \<open>Account_Language\<close> (app \<open>account-language.js\<close>): the language stored in the account.
  \<^item> \<open>Markdown\<close> (app \<open>markdown.js\<close>): the sanitizer. \<open>Headings\<close> (site \<open>lib/markdown.js\<close>): slugs and contents.
  \<^item> \<open>Modals\<close> (ui \<open>modal.js\<close>, app \<open>components/dialog.js\<close>): inert state and promises of dialogs, and the
    refinement of a stack of open modals. \<open>Router\<close> (site \<open>router.js\<close>): rendering follows the address;
    \<open>waits_left\<close> bounds the completions a render needs by four.
  \<^item> \<open>Official\<close> (site \<open>lib/official.js\<close>): release data. \<open>Update_Package\<close> (site \<open>lib/update-package.js\<close>, the worker and
    \<open>lib/brotli-zip.js\<close>): download, authentication and conversion of updates.

  \<^item> \<open>Repository_Formats\<close> (app \<open>repository-formats.js\<close>, \<open>repository-engines/\<close>): the catalogue of formats and the names of
    repositories. \<open>Snippets\<close> (app \<open>browser/snippets.js\<close>): the installation snippets of every format and the card that
    shows them. \<open>File_List\<close> (app \<open>browser.js\<close>): the list of files and its refresh in place.
    \<open>Version_Order\<close> (app \<open>browser/utils.js\<close>): the order of a listing. \<open>Browser\<close> (app \<open>browser.js\<close>, \<open>browser/engines.js\<close>)
    composes these into the loading of directories: overtaken loads show nothing, and the executions called quiet are those
    in which the list and the panels beside it agree; the other executions show where they do not.
    \<open>Breadcrumbs\<close> (app \<open>browser.js\<close>): the trail above it. \<open>Upload_Queue\<close> (app \<open>browser/upload.js\<close>): the pending
    files of the upload panel and the batches that send them, over every interleaving of clicks, timers and answers.
  \<^item> \<open>Search\<close> (app \<open>browser/search.js\<close>, \<open>browser/user-suggestions.js\<close>): the search within a repository and the suggestions of
    user names; versions keep late answers out. \<open>File_Types\<close> (app \<open>components/file-item.js\<close>): the types of files and the
    entries of a listing. \<open>Cargo\<close> (app \<open>browser/cargo.js\<close>): the catalogue of a Cargo repository, merged from its pages.
  \<^item> \<open>Passwords\<close> (app \<open>password-strength.js\<close>): the strength of a password and the warnings before a weak one is used.
  \<^item> \<open>App_Routes\<close> (app \<open>main.js\<close>, \<open>user-profiles.js\<close> and the route parsers of the pages): which page a path belongs to.
    \<open>Shell\<close> (app \<open>main.js\<close>): which page is shown, for every order of navigation, sign-in and sign-out. \<open>Session\<close> (app
    \<open>auth.js\<close>) extends the shell with the session: permissions, sign-in with password and Passkey, sign-out.
    \<open>Profile_Cache\<close> (app \<open>user-profiles.js\<close>): the shared cache of public profiles.

  \<^bold>\<open>Specifications.\<close>
  Where a component keeps flags of its own, the properties are stated over what can be seen from outside: the answers of the
  server in the run of events (\<open>accepted_part\<close> and \<open>first_failure\<close> in \<open>Upload_Correct\<close>), the page a visitor may see
  (\<open>expected_page\<close> in \<open>Shell\<close>), the order of versions (\<open>directory_before\<close> in \<open>Version_Order\<close>), the request an answer
  belongs to (\<open>suggested_in\<close> in \<open>Search\<close>), the path state of the URL standard (\<open>url_standard\<close> in \<open>Routes\<close>).

  \<^bold>\<open>Conventions.\<close>
  A theorem that is a property of the program has a claim number in the text before it, and, when it has
  hypotheses, a theorem \<open>..._witness\<close> that applies it to a concrete input. Theorems without a number show behaviour
  worth knowing, such as \<open>shown_again_while_closing\<close> in \<open>Modals\<close> or \<open>numbered_heading_takes_anchor\<close> in \<open>Headings\<close>.

  \<^bold>\<open>Not modelled.\<close>
  The Go server; the interface dictionaries and Protobuf schemas (data); page templates and the views of
  repositories, accounts and administration, which mostly build markup and send requests; animations and
  focus handling; the layout of overlays. White space beyond ASCII is not trimmed by \<open>js_trim\<close>, and letters beyond
  ASCII have no case in \<open>to_lower\<close>; the theories that depend on more say so.
\<close>

end
